(* ===== verification/Prelude.thy ===== *)
theory Prelude
  imports Main "HOL-Library.Multiset"
begin

text \<open>
  Shared vocabulary of the development.

  A C++ operation that can throw or trip an \<^verbatim>\<open>assert\<close> is a function into
  the sum type \<open>'e + 'a\<close>: \<open>Inl\<close> is the exception or the failed assertion, \<open>Inr\<close> the
  result. \<open>bindE\<close> is the sequencing of statements (an error stops the rest), \<open>assertE\<close>
  the statement \<^verbatim>\<open>assert(b)\<close> or \<^verbatim>\<open>if (!b) throw\<close>, and \<open>foldE\<close> a
  range-based \<^verbatim>\<open>for\<close> loop over a vector whose body may fail.

  \<open>wp m Q\<close> says that \<open>m\<close> does not fail and that its result satisfies \<open>Q\<close>. It is the
  total-correctness judgement of all component theories: its rules are collected in
  \<open>wp_simps\<close>, so that \<open>simp add: wp_simps\<close> walks through a straight-line operation.
\<close>

named_theorems wp_simps \<open>weakest-precondition equations of the error monad\<close>

section \<open>The error monad\<close>

fun bindE :: "'e + 'a \<Rightarrow> ('a \<Rightarrow> 'e + 'b) \<Rightarrow> 'e + 'b" where
  "bindE (Inl e) f = Inl e"
| "bindE (Inr x) f = f x"

definition assertE :: "bool \<Rightarrow> 'e \<Rightarrow> 'e + unit" where
  "assertE b e = (if b then Inr () else Inl e)"

fun foldE :: "('s \<Rightarrow> 'x \<Rightarrow> 'e + 's) \<Rightarrow> 'x list \<Rightarrow> 's \<Rightarrow> 'e + 's" where
  "foldE f [] s = Inr s"
| "foldE f (x # xs) s = bindE (f s x) (foldE f xs)"

fun mapE :: "('x \<Rightarrow> 'e + 'y) \<Rightarrow> 'x list \<Rightarrow> 'e + 'y list" where
  "mapE f [] = Inr []"
| "mapE f (x # xs) = bindE (f x) (\<lambda>y. bindE (mapE f xs) (\<lambda>ys. Inr (y # ys)))"

definition wp :: "'e + 'a \<Rightarrow> ('a \<Rightarrow> bool) \<Rightarrow> bool" where
  "wp m Q = (case m of Inl _ \<Rightarrow> False | Inr x \<Rightarrow> Q x)"

lemma bindE_cong [fundef_cong]:
  assumes "m = m'" and "\<And>x. m' = Inr x \<Longrightarrow> f x = g x"
  shows "bindE m f = bindE m' g"
  using assms by (cases m') auto

lemma foldE_cong [fundef_cong]:
  assumes "xs = ys" and "s = t" and "\<And>u x. x \<in> set ys \<Longrightarrow> f u x = g u x"
  shows "foldE f xs s = foldE g ys t"
  using assms
proof (induction ys arbitrary: xs s t)
  case (Cons y ys)
  then show ?case by (auto intro!: bindE_cong)
qed simp

lemma bindE_Inr_iff: "bindE m f = Inr y \<longleftrightarrow> (\<exists>x. m = Inr x \<and> f x = Inr y)"
  by (cases m) auto

lemma bindE_Inl_iff: "bindE m f = Inl e \<longleftrightarrow> m = Inl e \<or> (\<exists>x. m = Inr x \<and> f x = Inl e)"
  by (cases m) auto

lemma assertE_Inr_iff [simp]: "assertE b e = Inr u \<longleftrightarrow> b"
  by (simp add: assertE_def)

lemma assertE_Inl_iff [simp]: "assertE b e = Inl e' \<longleftrightarrow> \<not> b \<and> e' = e"
  by (auto simp: assertE_def)

lemma assertE_True [simp]: "assertE True e = Inr ()"
  and assertE_False [simp]: "assertE False e = Inl e"
  by (simp_all add: assertE_def)

section \<open>Decimal text\<close>

text \<open>\<^verbatim>\<open>std::to_string\<close> of an integer.\<close>

fun digits :: "nat \<Rightarrow> string" where
  "digits n = (if n < 10 then [char_of (48 + n)] else digits (n div 10) @ [char_of (48 + n mod 10)])"

declare digits.simps [simp del]

definition to_string :: "int \<Rightarrow> string" where
  "to_string i = (if i < 0 then CHR ''-'' # digits (nat (- i)) else digits (nat i))"

section \<open>Total correctness\<close>

lemma wp_Inr [wp_simps, simp]: "wp (Inr x) Q \<longleftrightarrow> Q x"
  by (simp add: wp_def)

lemma wp_Inl [wp_simps, simp]: "\<not> wp (Inl e) Q"
  by (simp add: wp_def)

lemma wp_bindE [wp_simps]: "wp (bindE m f) Q \<longleftrightarrow> wp m (\<lambda>x. wp (f x) Q)"
  by (cases m) auto

lemma wp_assertE [wp_simps]: "wp (assertE b e) Q \<longleftrightarrow> b \<and> Q ()"
  by (simp add: assertE_def)

lemma wp_if [wp_simps]: "wp (if b then m else n) Q \<longleftrightarrow> (if b then wp m Q else wp n Q)"
  by simp

lemma wp_iff: "wp m Q \<longleftrightarrow> (\<exists>x. m = Inr x \<and> Q x)"
  by (cases m) auto

lemma wpE: "wp m Q \<Longrightarrow> (\<And>x. m = Inr x \<Longrightarrow> Q x \<Longrightarrow> R) \<Longrightarrow> R"
  by (auto simp: wp_iff)

lemma wp_mono: "wp m Q \<Longrightarrow> (\<And>x. m = Inr x \<Longrightarrow> Q x \<Longrightarrow> R x) \<Longrightarrow> wp m R"
  by (auto simp: wp_iff)

lemma wp_conj: "wp m Q \<Longrightarrow> wp m R \<Longrightarrow> wp m (\<lambda>x. Q x \<and> R x)"
  by (auto simp: wp_iff)

text \<open>The loop rule: an invariant over the consumed prefix, kept by every iteration.\<close>

lemma wp_foldE:
  assumes "I [] s"
    and "\<And>ys x zs t. xs = ys @ x # zs \<Longrightarrow> I ys t \<Longrightarrow> wp (f t x) (I (ys @ [x]))"
  shows "wp (foldE f xs s) (I xs)"
  using assms
proof (induction xs arbitrary: s I)
  case (Cons x xs)
  have step: "wp (f s x) (I [x])" using Cons.prems(2)[of "[]" x xs s] Cons.prems(1) by simp
  have rest: "wp (foldE f xs t) (I (x # xs))" if t: "I [x] t" for t
    by (rule Cons.IH[where I = "\<lambda>ys. I (x # ys)"]) (use t Cons.prems(2)[of "x # _"] in auto)
  show ?case by (auto simp: wp_bindE intro: wp_mono[OF step] rest)
qed simp

section \<open>State and errors\<close>

text \<open>
  A member function that mutates its object and may throw part-way: a function from the state
  to the outcome and the state it leaves behind, on the error path as well.
\<close>

type_synonym ('s, 'e, 'a) action = "'s \<Rightarrow> ('e + 'a) \<times> 's"

definition returnS :: "'a \<Rightarrow> ('s, 'e, 'a) action" where
  "returnS x s = (Inr x, s)"

definition throwS :: "'e \<Rightarrow> ('s, 'e, 'a) action" where
  "throwS e s = (Inl e, s)"

definition bindS :: "('s, 'e, 'a) action \<Rightarrow> ('a \<Rightarrow> ('s, 'e, 'b) action) \<Rightarrow> ('s, 'e, 'b) action" where
  "bindS m f s = (case m s of (Inl e, t) \<Rightarrow> (Inl e, t) | (Inr x, t) \<Rightarrow> f x t)"

definition getS :: "('s \<Rightarrow> 'a) \<Rightarrow> ('s, 'e, 'a) action" where
  "getS f s = (Inr (f s), s)"

definition modifyS :: "('s \<Rightarrow> 's) \<Rightarrow> ('s, 'e, unit) action" where
  "modifyS f s = (Inr (), f s)"

definition checkS :: "('s \<Rightarrow> bool) \<Rightarrow> 'e \<Rightarrow> ('s, 'e, unit) action" where
  "checkS b e s = (if b s then (Inr (), s) else (Inl e, s))"

fun forS :: "('x \<Rightarrow> ('s, 'e, unit) action) \<Rightarrow> 'x list \<Rightarrow> ('s, 'e, unit) action" where
  "forS f [] s = (Inr (), s)"
| "forS f (x # xs) s = bindS (f x) (\<lambda>_. forS f xs) s"

definition wpS :: "('s, 'e, 'a) action \<Rightarrow> ('a \<Rightarrow> 's \<Rightarrow> bool) \<Rightarrow> 's \<Rightarrow> bool" where
  "wpS m Q s = (case m s of (Inl _, _) \<Rightarrow> False | (Inr x, t) \<Rightarrow> Q x t)"

named_theorems wpS_simps \<open>weakest-precondition equations of actions\<close>

lemma wpS_returnS [wpS_simps]: "wpS (returnS x) Q s \<longleftrightarrow> Q x s"
  and wpS_throwS [wpS_simps]: "\<not> wpS (throwS e) Q s"
  and wpS_getS [wpS_simps]: "wpS (getS f) Q' s \<longleftrightarrow> Q' (f s) s"
  and wpS_modifyS [wpS_simps]: "wpS (modifyS g) P s \<longleftrightarrow> P () (g s)"
  and wpS_checkS [wpS_simps]: "wpS (checkS b e) P s \<longleftrightarrow> b s \<and> P () s"
  by (simp_all add: wpS_def returnS_def throwS_def getS_def modifyS_def checkS_def)

lemma wpS_bindS [wpS_simps]: "wpS (bindS m f) Q s \<longleftrightarrow> wpS m (\<lambda>x. wpS (f x) Q) s"
  by (auto simp: wpS_def bindS_def split: prod.splits sum.splits)

lemma wpS_if [wpS_simps]: "wpS (if b then m else n) Q s \<longleftrightarrow> (if b then wpS m Q s else wpS n Q s)"
  by simp

lemma wpS_iff: "wpS m Q s \<longleftrightarrow> (\<exists>x t. m s = (Inr x, t) \<and> Q x t)"
  by (auto simp: wpS_def split: prod.splits sum.splits)

lemma wpS_mono: "wpS m Q s \<Longrightarrow> (\<And>x t. m s = (Inr x, t) \<Longrightarrow> Q x t \<Longrightarrow> R x t) \<Longrightarrow> wpS m R s"
  by (auto simp: wpS_iff)

lemma wpS_forS_Nil [wpS_simps]: "wpS (forS f []) Q s \<longleftrightarrow> Q () s"
  by (simp add: wpS_def)

lemma wpS_forS_Cons: "wpS (forS f (x # xs)) Q s \<longleftrightarrow> wpS (f x) (\<lambda>_. wpS (forS f xs) Q) s"
  by (simp add: wpS_def bindS_def split: prod.splits sum.splits)

lemma wpS_forS:
  assumes "I [] s"
    and "\<And>ys x zs t. xs = ys @ x # zs \<Longrightarrow> I ys t \<Longrightarrow> wpS (f x) (\<lambda>_. I (ys @ [x])) t"
  shows "wpS (forS f xs) (\<lambda>_. I xs) s"
  using assms
proof (induction xs arbitrary: s I)
  case (Cons x xs)
  have step: "wpS (f x) (\<lambda>_. I [x]) s" using Cons.prems(2)[of "[]" x xs s] Cons.prems(1) by simp
  have rest: "wpS (forS f xs) (\<lambda>_. I (x # xs)) t" if t: "I [x] t" for t
    by (rule Cons.IH[where I = "\<lambda>ys. I (x # ys)"]) (use t Cons.prems(2)[of "x # _"] in auto)
  show ?case unfolding wpS_forS_Cons by (rule wpS_mono[OF step]) (rule rest)
qed (simp add: wpS_simps)

section \<open>Lists\<close>

lemma take_drop_nth: "i < length xs \<Longrightarrow> xs = take i xs @ xs ! i # drop (Suc i) xs"
  by (rule id_take_nth_drop)

lemma last_butlast: "xs \<noteq> [] \<Longrightarrow> xs = butlast xs @ [last xs]"
  by simp

lemma mset_butlast_last: "xs \<noteq> [] \<Longrightarrow> mset xs = add_mset (last xs) (mset (butlast xs))"
  by (metis append_butlast_last_id mset.simps(2) mset_append union_mset_add_mset_right
      mset.simps(1) add.right_neutral)

lemma distinct_mset_sub: "distinct xs \<longleftrightarrow> (\<forall>x. count (mset xs) x \<le> 1)"
  by (metis count_mset_0_iff distinct_count_atmost_1 le_eq_less_or_eq less_one nle_le
      zero_le_one)

lemma distinct_of_mset_eq: "mset xs + M = mset ys \<Longrightarrow> distinct ys \<Longrightarrow> distinct xs"
  by (metis distinct_mset_sub count_union le_add1 le_trans)

section \<open>Sums over multisets of pointers\<close>

lemma image_mset_upd_notin:
  "p \<notin># M \<Longrightarrow> image_mset (\<lambda>q. f ((h(p := x)) q)) M = image_mset (\<lambda>q. f (h q)) M"
  by (rule image_mset_cong) auto

section \<open>Rounding up\<close>

lemma ceil_div_mono: "a \<le> b \<Longrightarrow> 0 < k \<Longrightarrow> (a + k - 1) div k \<le> (b + k - 1) div (k :: int)"
  by (intro zdiv_mono1) auto

lemma ceil_div_le_iff: "0 < k \<Longrightarrow> (a + k - 1) div k \<le> n \<longleftrightarrow> a \<le> n * (k :: int)"
proof
  assume k: "0 < k" and "(a + k - 1) div k \<le> n"
  then have "(a + k - 1) div k * k \<le> n * k" by (simp add: mult_right_mono)
  moreover have "a \<le> (a + k - 1) div k * k"
    using k pos_mod_bound[of k "a + k - 1"] div_mult_mod_eq[of "a + k - 1" k] by linarith
  ultimately show "a \<le> n * k" by linarith
next
  assume k: "0 < k" and a: "a \<le> n * k"
  have "(a + k - 1) div k \<le> (n * k + k - 1) div k" using a k by (intro zdiv_mono1) auto
  also have "\<dots> = n + (k - 1) div k" using k
    by (metis add_diff_eq div_mult_self3 less_irrefl add.commute)
  also have "\<dots> = n" using k by simp
  finally show "(a + k - 1) div k \<le> n" .
qed

lemma less_ceil_div_iff: "0 < k \<Longrightarrow> n < (a + k - 1) div k \<longleftrightarrow> n * (k :: int) < a"
  using ceil_div_le_iff[of k a n] by linarith

lemma div_less_mult: "0 < k \<Longrightarrow> h < n * k \<Longrightarrow> h div k < (n :: int)"
proof -
  assume k: "0 < k" and h: "h < n * k"
  have "h div k * k \<le> h" using k pos_mod_sign[of k h] div_mult_mod_eq[of h k] by linarith
  with h have "h div k * k < n * k" by linarith
  then show "h div k < n" using k by simp
qed

end
