(* ===== verification/Core_Types.thy ===== *)
theory Core_Types
  imports Prelude
begin

text \<open>
  The scalar types and small structs of \<^verbatim>\<open>src/src/core/types.hpp\<close>,
  the block table of \<^verbatim>\<open>block_table.hpp\<close> and the request of
  \<^verbatim>\<open>request.hpp\<close>.

  \<^verbatim>\<open>std::int32_t\<close> and \<^verbatim>\<open>std::int64_t\<close> are \<open>int\<close>; that no int32
  computation of the scheduler leaves its range is a theorem about the reachable states
  (theory \<open>Scheduler_Props\<close>), not an assumption of the definitions. Sizes of vectors are
  lengths of lists; \<^verbatim>\<open>push_back\<close>, \<^verbatim>\<open>back\<close> and \<^verbatim>\<open>pop_back\<close> act on the
  end of the list (\<open>xs @ [x]\<close>, \<open>last\<close>, \<open>butlast\<close>).
\<close>

section \<open>types.hpp\<close>

type_synonym token_id = int
type_synonym request_id = nat
type_synonym block_id = int

definition kInvalidBlockId :: block_id where
  "kInvalidBlockId = -1"

definition kDummyBlockId :: block_id where
  "kDummyBlockId = 0"

definition kKvBlockSize :: int where
  "kKvBlockSize = 16"

definition BlocksForTokens :: "int \<Rightarrow> int" where
  "BlocksForTokens num_tokens = (num_tokens + kKvBlockSize - 1) div kKvBlockSize"

datatype Dtype = kF16 | kBF16 | kF32 | kF64 | kI32 | kI64 | kU8 | kUnknown

fun DtypeSize :: "Dtype \<Rightarrow> nat" where
  "DtypeSize kF16 = 2"
| "DtypeSize kBF16 = 2"
| "DtypeSize kF32 = 4"
| "DtypeSize kI32 = 4"
| "DtypeSize kF64 = 8"
| "DtypeSize kI64 = 8"
| "DtypeSize kU8 = 1"
| "DtypeSize kUnknown = 0"

datatype FinishReason = kNone | kEos | kLength | kAborted

record StepResult =
  request_id :: request_id
  token :: token_id
  finished :: bool
  result_reason :: FinishReason

text \<open>
  Failures of the core components: a tripped \<^verbatim>\<open>assert\<close> (with the text the source
  gives it), the dereference of a pointer that holds no request, and the exception classes
  that the core and the GEMM wrapper throw.
\<close>

datatype exn =
    AssertFailed string
  | NullDeref
  | InvalidArgument string
  | ExecutorError string
  | GemmError string
  | RuntimeError string

section \<open>block_table.hpp\<close>

record BlockTable =
  blocks :: "block_id list"

definition Append :: "BlockTable \<Rightarrow> block_id \<Rightarrow> BlockTable" where
  "Append t block = t\<lparr>blocks := blocks t @ [block]\<rparr>"

definition num_blocks :: "BlockTable \<Rightarrow> int" where
  "num_blocks t = int (length (blocks t))"

definition token_capacity :: "BlockTable \<Rightarrow> int" where
  "token_capacity t = num_blocks t * kKvBlockSize"

text \<open>\<^verbatim>\<open>std::exchange(blocks_, {})\<close>: the owned ids and the emptied table.\<close>

definition Release :: "BlockTable \<Rightarrow> block_id list \<times> BlockTable" where
  "Release t = (blocks t, t\<lparr>blocks := []\<rparr>)"

section \<open>request.hpp\<close>

datatype RequestState = kWaiting | kPrefill | kRunning | kFinished

record Request =
  req_id :: request_id
  prompt_tokens :: "token_id list"
  output_tokens :: "token_id list"
  max_new_tokens :: int
  ignore_eos :: bool
  forced_tokens :: "token_id list"
  state :: RequestState
  finish_reason :: FinishReason
  slot :: int
  reserved_blocks :: int
  prefill_progress :: int
  block_table :: BlockTable

definition num_prompt_tokens :: "Request \<Rightarrow> int" where
  "num_prompt_tokens r = int (length (prompt_tokens r))"

definition num_output_tokens :: "Request \<Rightarrow> int" where
  "num_output_tokens r = int (length (output_tokens r))"

definition seq_len :: "Request \<Rightarrow> int" where
  "seq_len r = num_prompt_tokens r + num_output_tokens r"

definition prefill_done :: "Request \<Rightarrow> bool" where
  "prefill_done r \<longleftrightarrow> prefill_progress r \<ge> num_prompt_tokens r"

text \<open>The default member initialisers of \<^verbatim>\<open>struct Request\<close>.\<close>

definition new_Request :: Request where
  "new_Request =
     \<lparr>req_id = 0, prompt_tokens = [], output_tokens = [], max_new_tokens = 0, ignore_eos = False,
      forced_tokens = [], state = kWaiting, finish_reason = kNone, slot = -1,
      reserved_blocks = 0, prefill_progress = 0, block_table = \<lparr>blocks = []\<rparr>\<rparr>"

section \<open>Block arithmetic\<close>

lemmas size_defs = kKvBlockSize_def num_blocks_def token_capacity_def BlocksForTokens_def
  num_prompt_tokens_def num_output_tokens_def seq_len_def

lemma BlocksForTokens_mono: "a \<le> b \<Longrightarrow> BlocksForTokens a \<le> BlocksForTokens b"
  unfolding BlocksForTokens_def by (rule ceil_div_mono) (simp_all add: kKvBlockSize_def)

lemma BlocksForTokens_le_iff: "BlocksForTokens a \<le> n \<longleftrightarrow> a \<le> n * 16"
  using ceil_div_le_iff[of 16 a n] by (simp add: BlocksForTokens_def kKvBlockSize_def)

lemma less_BlocksForTokens_iff: "n < BlocksForTokens a \<longleftrightarrow> n * 16 < a"
  using BlocksForTokens_le_iff[of a n] by linarith

lemma BlocksForTokens_0 [simp]: "BlocksForTokens 0 = 0"
  by (simp add: BlocksForTokens_def kKvBlockSize_def)

lemma BlocksForTokens_nonneg: "0 \<le> a \<Longrightarrow> 0 \<le> BlocksForTokens a"
  using BlocksForTokens_mono[of 0 a] by simp

lemma BlocksForTokens_pos: "0 < a \<Longrightarrow> 0 < BlocksForTokens a"
  using less_BlocksForTokens_iff[of 0 a] by simp

lemma BlocksForTokens_Suc_le: "BlocksForTokens (a + 1) \<le> BlocksForTokens a + 1"
  using BlocksForTokens_le_iff[of a "BlocksForTokens a"]
  by (subst BlocksForTokens_le_iff) simp

lemma token_capacity_Append [simp]:
  "token_capacity (Append t b) = token_capacity t + kKvBlockSize"
  by (simp add: token_capacity_def num_blocks_def Append_def algebra_simps)

lemma blocks_Append [simp]: "blocks (Append t b) = blocks t @ [b]"
  by (simp add: Append_def)

lemma fst_Release [simp]: "fst (Release t) = blocks t"
  and blocks_Release [simp]: "blocks (snd (Release t)) = []"
  by (simp_all add: Release_def)

lemma token_capacity_eq: "token_capacity t = int (length (blocks t)) * 16"
  by (simp add: token_capacity_def num_blocks_def kKvBlockSize_def)

lemma num_prompt_tokens_nonneg [simp]: "0 \<le> num_prompt_tokens r"
  and num_output_tokens_nonneg [simp]: "0 \<le> num_output_tokens r"
  by (simp_all add: num_prompt_tokens_def num_output_tokens_def)

end
