(* ===== verification/Block_Allocator.thy ===== *)
theory Block_Allocator
  imports Core_Types
begin

text \<open>
  \<^verbatim>\<open>src/src/core/block_allocator.{hpp,cpp}\<close>: the reservation allocator of
  physical KV-cache blocks.

  Every \<^verbatim>\<open>assert\<close> of the source is a branch of the model, so that a theorem
  \<open>wp (op a) Q\<close> says that the operation trips none of them. The model keeps all four
  fields: the total, the promised count, the free stack and the shadow occupancy map.

  \<open>alloc_inv\<close> is the class invariant. It is stronger than \<open>DebugCheckInvariant\<close>: the
  free stack is duplicate-free and holds exactly the ids of \<open>[1, total)\<close> that the
  occupancy map does not mark.

  The locale \<open>block_pool\<close> states the contract that clients rely on in terms of the free
  ids and the promised count alone; \<open>pool\<close> is its interpretation on the operations below.
\<close>

section \<open>State and operations\<close>

record BlockAllocator =
  total_blocks :: int
  reserved :: int
  free_list :: "block_id list"
  outstanding :: "bool list"

definition usable_blocks :: "BlockAllocator \<Rightarrow> int" where
  "usable_blocks a = (if total_blocks a > 0 then total_blocks a - 1 else 0)"

definition free_blocks :: "BlockAllocator \<Rightarrow> int" where
  "free_blocks a = int (length (free_list a))"

definition DebugCheckInvariant :: "BlockAllocator \<Rightarrow> exn + unit" where
  "DebugCheckInvariant a =
     bindE (assertE (reserved a \<ge> 0) (AssertFailed ''reserved count went negative'')) (\<lambda>_.
     bindE (assertE (int (length (free_list a)) \<ge> reserved a)
              (AssertFailed ''fewer free blocks than promised'')) (\<lambda>_.
     assertE (int (length (free_list a)) \<le> usable_blocks a)
       (AssertFailed ''free list exceeds usable capacity'')))"

text \<open>The constructor; its loop pushes \<open>total - 1\<close> down to \<open>1\<close>.\<close>

definition new_BlockAllocator :: "int \<Rightarrow> exn + BlockAllocator" where
  "new_BlockAllocator n =
     bindE (assertE (n \<ge> 1)
              (AssertFailed ''pool must contain at least the reserved dummy block 0'')) (\<lambda>_.
     let a = \<lparr>total_blocks = n, reserved = 0, free_list = rev [1..n - 1],
              outstanding = replicate (if n > 0 then nat n else 0) False\<rparr>
     in bindE (DebugCheckInvariant a) (\<lambda>_. Inr a))"

definition CanReserve :: "BlockAllocator \<Rightarrow> int \<Rightarrow> exn + bool" where
  "CanReserve a cnt =
     bindE (assertE (cnt \<ge> 0) (AssertFailed ''reservation size must be non-negative'')) (\<lambda>_.
     Inr (int (length (free_list a)) - reserved a \<ge> cnt))"

definition Reserve :: "BlockAllocator \<Rightarrow> int \<Rightarrow> exn + BlockAllocator" where
  "Reserve a cnt =
     bindE (assertE (cnt \<ge> 0) (AssertFailed ''reservation size must be non-negative'')) (\<lambda>_.
     bindE (CanReserve a cnt) (\<lambda>ok.
     bindE (assertE ok (AssertFailed ''Reserve() without a passing CanReserve() check'')) (\<lambda>_.
     let a' = a\<lparr>reserved := reserved a + cnt\<rparr>
     in bindE (DebugCheckInvariant a') (\<lambda>_. Inr a'))))"

definition Unreserve :: "BlockAllocator \<Rightarrow> int \<Rightarrow> exn + BlockAllocator" where
  "Unreserve a cnt =
     bindE (assertE (cnt \<ge> 0) (AssertFailed ''unreserve size must be non-negative'')) (\<lambda>_.
     bindE (assertE (cnt \<le> reserved a)
              (AssertFailed ''Unreserve() exceeds the outstanding reservation total'')) (\<lambda>_.
     let a' = a\<lparr>reserved := reserved a - cnt\<rparr>
     in bindE (DebugCheckInvariant a') (\<lambda>_. Inr a')))"

definition AllocReserved :: "BlockAllocator \<Rightarrow> exn + (block_id \<times> BlockAllocator)" where
  "AllocReserved a =
     bindE (assertE (reserved a > 0)
              (AssertFailed ''AllocReserved() without a live reservation'')) (\<lambda>_.
     bindE (assertE (free_list a \<noteq> [])
              (AssertFailed ''free list empty despite the free >= reserved invariant'')) (\<lambda>_.
     let block = last (free_list a);
         a' = a\<lparr>free_list := butlast (free_list a), reserved := reserved a - 1\<rparr>
     in bindE (assertE (block \<noteq> kDummyBlockId \<and> block \<noteq> kInvalidBlockId)
                 (AssertFailed ''corrupt id on the free list'')) (\<lambda>_.
        bindE (assertE (block \<ge> 1 \<and> block < total_blocks a')
                 (AssertFailed ''free-list id outside the pool'')) (\<lambda>_.
        bindE (assertE (nat block < length (outstanding a') \<and> \<not> outstanding a' ! nat block)
                 (AssertFailed ''id was already outstanding'')) (\<lambda>_.
        let a'' = a'\<lparr>outstanding := (outstanding a')[nat block := True]\<rparr>
        in bindE (DebugCheckInvariant a'') (\<lambda>_. Inr (block, a'')))))))"

definition FreeBlock :: "BlockAllocator \<Rightarrow> block_id \<Rightarrow> exn + BlockAllocator" where
  "FreeBlock a block =
     bindE (assertE (block \<noteq> kInvalidBlockId) (AssertFailed ''FreeBlock(kInvalidBlockId)'')) (\<lambda>_.
     bindE (assertE (block \<noteq> kDummyBlockId) (AssertFailed ''FreeBlock(kDummyBlockId)'')) (\<lambda>_.
     bindE (assertE (block \<ge> 1 \<and> block < total_blocks a)
              (AssertFailed ''FreeBlock() id outside the pool'')) (\<lambda>_.
     bindE (assertE (nat block < length (outstanding a) \<and> outstanding a ! nat block)
              (AssertFailed ''double free'')) (\<lambda>_.
     let a' = a\<lparr>outstanding := (outstanding a)[nat block := False],
                free_list := free_list a @ [block]\<rparr>
     in bindE (DebugCheckInvariant a') (\<lambda>_. Inr a')))))"

section \<open>The class invariant\<close>

definition alloc_inv :: "BlockAllocator \<Rightarrow> bool" where
  "alloc_inv a \<longleftrightarrow>
     1 \<le> total_blocks a \<and>
     length (outstanding a) = nat (total_blocks a) \<and>
     distinct (free_list a) \<and>
     (\<forall>b. b \<in> set (free_list a) \<longleftrightarrow>
        1 \<le> b \<and> b < total_blocks a \<and> \<not> outstanding a ! nat b) \<and>
     \<not> outstanding a ! 0 \<and>
     0 \<le> reserved a \<and> reserved a \<le> int (length (free_list a))"

lemma alloc_inv_free_iff:
  "alloc_inv a \<Longrightarrow>
     b \<in> set (free_list a) \<longleftrightarrow> 1 \<le> b \<and> b < total_blocks a \<and> \<not> outstanding a ! nat b"
  by (simp add: alloc_inv_def)

lemma alloc_inv_free_le:
  assumes "alloc_inv a"
  shows "int (length (free_list a)) \<le> total_blocks a - 1"
proof -
  have sub: "set (free_list a) \<subseteq> {1..<total_blocks a}"
    by (intro subsetI) (simp add: alloc_inv_free_iff[OF assms])
  have dist: "distinct (free_list a)" and pos: "1 \<le> total_blocks a"
    using assms by (simp_all add: alloc_inv_def)
  have "length (free_list a) = card (set (free_list a))" using distinct_card[OF dist] by simp
  also have "\<dots> \<le> card {1..<total_blocks a}" by (rule card_mono[OF _ sub]) simp
  finally show ?thesis using pos by simp
qed

lemma DebugCheckInvariant_ok:
  assumes "alloc_inv a"
  shows "DebugCheckInvariant a = Inr ()"
proof -
  have "1 \<le> total_blocks a" "0 \<le> reserved a" "reserved a \<le> int (length (free_list a))"
    using assms by (simp_all add: alloc_inv_def)
  with alloc_inv_free_le[OF assms] show ?thesis
    by (simp add: DebugCheckInvariant_def assertE_def usable_blocks_def)
qed

lemma new_BlockAllocator_ok:
  assumes "1 \<le> n"
  shows "wp (new_BlockAllocator n) (\<lambda>a. alloc_inv a \<and> total_blocks a = n \<and>
           reserved a = 0 \<and> set (free_list a) = {1..<n})"
proof -
  let ?a = "\<lparr>total_blocks = n, reserved = 0, free_list = rev [1..n - 1],
             outstanding = replicate (nat n) False\<rparr>"
  have inv: "alloc_inv ?a" using assms by (auto simp: alloc_inv_def)
  show ?thesis
    using assms inv DebugCheckInvariant_ok[OF inv]
    by (auto simp: new_BlockAllocator_def Let_def wp_simps)
qed

lemma CanReserve_eq: "0 \<le> n \<Longrightarrow> CanReserve a n = Inr (int (length (free_list a)) - reserved a \<ge> n)"
  by (simp add: CanReserve_def assertE_def)

lemma Reserve_ok:
  assumes "alloc_inv a" and "0 \<le> n" and "n \<le> int (length (free_list a)) - reserved a"
  shows "wp (Reserve a n) (\<lambda>a'. alloc_inv a' \<and> a' = a\<lparr>reserved := reserved a + n\<rparr>)"
proof -
  have inv: "alloc_inv (a\<lparr>reserved := reserved a + n\<rparr>)" using assms by (simp add: alloc_inv_def)
  show ?thesis
    using assms inv DebugCheckInvariant_ok[OF inv]
    by (simp add: Reserve_def CanReserve_eq wp_simps Let_def)
qed

lemma Unreserve_ok:
  assumes "alloc_inv a" and "0 \<le> n" and "n \<le> reserved a"
  shows "wp (Unreserve a n) (\<lambda>a'. alloc_inv a' \<and> a' = a\<lparr>reserved := reserved a - n\<rparr>)"
proof -
  have inv: "alloc_inv (a\<lparr>reserved := reserved a - n\<rparr>)" using assms by (simp add: alloc_inv_def)
  show ?thesis
    using assms inv DebugCheckInvariant_ok[OF inv] by (simp add: Unreserve_def wp_simps Let_def)
qed

lemma AllocReserved_ok:
  assumes inv: "alloc_inv a" and res: "0 < reserved a"
  shows "wp (AllocReserved a) (\<lambda>(b, a').
           alloc_inv a' \<and> b = last (free_list a) \<and> free_list a \<noteq> [] \<and>
           free_list a' = butlast (free_list a) \<and> reserved a' = reserved a - 1 \<and>
           total_blocks a' = total_blocks a)"
proof -
  obtain fs b where fl: "free_list a = fs @ [b]"
    using assms by (cases "free_list a" rule: rev_cases) (auto simp: alloc_inv_def)
  let ?a = "a\<lparr>free_list := fs, reserved := reserved a - 1,
              outstanding := (outstanding a)[nat b := True]\<rparr>"
  have len: "length (outstanding a) = nat (total_blocks a)" using inv by (simp add: alloc_inv_def)
  have b: "1 \<le> b" "b < total_blocks a" "\<not> outstanding a ! nat b"
    using alloc_inv_free_iff[OF inv, of b] by (auto simp: fl)
  have dist: "distinct fs" "b \<notin> set fs" using inv by (auto simp: alloc_inv_def fl)
  have upd: "(outstanding a)[nat b := True] ! nat c \<longleftrightarrow> c = b \<or> outstanding a ! nat c"
    if "1 \<le> c" "c < total_blocks a" for c
    using that b len by (auto simp: nth_list_update)
  have free: "c \<in> set fs \<longleftrightarrow>
      1 \<le> c \<and> c < total_blocks a \<and> \<not> (outstanding a)[nat b := True] ! nat c" for c
    using alloc_inv_free_iff[OF inv, of c] upd[of c] dist(2) by (auto simp: fl)
  have "\<not> (outstanding a)[nat b := True] ! 0"
    using b len inv by (simp add: nth_list_update alloc_inv_def)
  then have a': "alloc_inv ?a"
    using inv b res dist free len by (simp add: alloc_inv_def fl)
  then show ?thesis
    using b res len DebugCheckInvariant_ok[OF a']
    by (simp add: AllocReserved_def Let_def wp_simps kDummyBlockId_def kInvalidBlockId_def fl)
qed

lemma FreeBlock_ok:
  assumes inv: "alloc_inv a" and b: "1 \<le> b" "b < total_blocks a" "b \<notin> set (free_list a)"
  shows "wp (FreeBlock a b) (\<lambda>a'. alloc_inv a' \<and> free_list a' = free_list a @ [b] \<and>
           reserved a' = reserved a \<and> total_blocks a' = total_blocks a)"
proof -
  let ?a = "a\<lparr>outstanding := (outstanding a)[nat b := False], free_list := free_list a @ [b]\<rparr>"
  have len: "length (outstanding a) = nat (total_blocks a)" using inv by (simp add: alloc_inv_def)
  have out: "nat b < length (outstanding a)" "outstanding a ! nat b"
    using b len alloc_inv_free_iff[OF inv, of b] by auto
  have upd: "(outstanding a)[nat b := False] ! nat c \<longleftrightarrow> c \<noteq> b \<and> outstanding a ! nat c"
    if "1 \<le> c" "c < total_blocks a" for c
    using that b len by (auto simp: nth_list_update)
  have free: "c \<in> set (free_list a @ [b]) \<longleftrightarrow>
      1 \<le> c \<and> c < total_blocks a \<and> \<not> (outstanding a)[nat b := False] ! nat c" for c
    using alloc_inv_free_iff[OF inv, of c] upd[of c] b by auto
  have "\<not> (outstanding a)[nat b := False] ! 0"
    using b len inv by (simp add: nth_list_update alloc_inv_def)
  then have a': "alloc_inv ?a"
    using inv b free len by (simp add: alloc_inv_def)
  then show ?thesis
    using b out DebugCheckInvariant_ok[OF a']
    by (simp add: FreeBlock_def Let_def wp_simps kDummyBlockId_def kInvalidBlockId_def)
qed

section \<open>The contract clients rely on\<close>

text \<open>
  The ledger of a pool: every admitted client \<open>k\<close> holds the blocks \<open>held k\<close> and is owed
  \<open>owed k\<close> promised ones. The promises add up to the pool's promised count, and the free
  ids together with the held ones are exactly the usable ids of the pool, each once. So no
  block is lost and none has two owners.
\<close>

definition ledger ::
  "int multiset \<Rightarrow> int \<Rightarrow> int \<Rightarrow> ('k \<Rightarrow> int list) \<Rightarrow> ('k \<Rightarrow> int) \<Rightarrow> 'k multiset \<Rightarrow> bool" where
  "ledger free promised cap held owed M \<longleftrightarrow>
     promised = (\<Sum>k\<in>#M. owed k) \<and>
     free + (\<Sum>k\<in>#M. mset (held k)) = mset_set {1..<cap} \<and>
     (\<forall>k\<in>#M. 0 \<le> owed k)"

lemma ledger_cong:
  assumes "\<And>k. k \<in># M \<Longrightarrow> held k = held' k \<and> owed k = owed' k"
  shows "ledger f n c held owed M \<longleftrightarrow> ledger f n c held' owed' M"
proof -
  have "image_mset owed M = image_mset owed' M"
    and "image_mset (\<lambda>k. mset (held k)) M = image_mset (\<lambda>k. mset (held' k)) M"
    using assms by (auto intro!: image_mset_cong)
  with assms show ?thesis by (auto simp: ledger_def)
qed

lemma sum_mset_nonneg: "(\<And>x. x \<in># M \<Longrightarrow> 0 \<le> f x) \<Longrightarrow> 0 \<le> (\<Sum>x\<in>#M. f x :: int)"
  by (induction M) auto

lemma sum_mset_member_le:
  assumes "k \<in># M" and "\<And>x. x \<in># M \<Longrightarrow> 0 \<le> f x"
  shows "f k \<le> (\<Sum>x\<in>#M. f x :: int)"
proof -
  obtain N where M: "M = add_mset k N" using assms(1) by (metis mset_add)
  have "0 \<le> (\<Sum>x\<in>#N. f x)" by (rule sum_mset_nonneg) (simp add: assms(2) M)
  then show ?thesis by (simp add: M)
qed

lemma ledger_owed_le:
  assumes "ledger f p c held owed M" and "k \<in># M"
  shows "owed k \<le> p" and "0 \<le> owed k"
  using assms sum_mset_member_le[of k M owed] by (auto simp: ledger_def)

locale block_pool =
  fixes reserve unreserve :: "'a \<Rightarrow> int \<Rightarrow> 'e + 'a"
    and alloc :: "'a \<Rightarrow> 'e + (int \<times> 'a)"
    and release :: "'a \<Rightarrow> int \<Rightarrow> 'e + 'a"
    and inv :: "'a \<Rightarrow> bool"
    and ids :: "'a \<Rightarrow> int multiset"
    and promised cap :: "'a \<Rightarrow> int"
  assumes promised_le: "inv a \<Longrightarrow> 0 \<le> promised a \<and> promised a \<le> int (size (ids a))"
    and reserve: "inv a \<Longrightarrow> 0 \<le> n \<Longrightarrow> n \<le> int (size (ids a)) - promised a \<Longrightarrow>
      wp (reserve a n) (\<lambda>a'. inv a' \<and> ids a' = ids a \<and> promised a' = promised a + n \<and> cap a' = cap a)"
    and unreserve: "inv a \<Longrightarrow> 0 \<le> n \<Longrightarrow> n \<le> promised a \<Longrightarrow>
      wp (unreserve a n) (\<lambda>a'. inv a' \<and> ids a' = ids a \<and> promised a' = promised a - n \<and> cap a' = cap a)"
    and alloc: "inv a \<Longrightarrow> 0 < promised a \<Longrightarrow>
      wp (alloc a) (\<lambda>(b, a'). inv a' \<and> ids a = add_mset b (ids a') \<and>
        promised a' = promised a - 1 \<and> cap a' = cap a)"
    and release: "inv a \<Longrightarrow> add_mset b (ids a) \<subseteq># mset_set {1..<cap a} \<Longrightarrow>
      wp (release a b) (\<lambda>a'. inv a' \<and> ids a' = add_mset b (ids a) \<and>
        promised a' = promised a \<and> cap a' = cap a)"
begin

text \<open>Returning a client's whole block list frees each id once and promises nothing.\<close>

lemma release_list:
  assumes "inv a" and "mset bs + ids a \<subseteq># mset_set {1..<cap a}"
  shows "wp (foldE release bs a) (\<lambda>a'. inv a' \<and> ids a' = mset bs + ids a \<and>
           promised a' = promised a \<and> cap a' = cap a)"
  using assms
proof (induction bs arbitrary: a)
  case (Cons b bs)
  have "add_mset b (ids a) \<subseteq># mset_set {1..<cap a}"
    using Cons.prems(2) by (rule subset_mset.order_trans[rotated]) (simp add: mset_subset_eq_add_right)
  note step = release[OF Cons.prems(1) this]
  have "wp (foldE release bs a') (\<lambda>a''. inv a'' \<and> ids a'' = mset (b # bs) + ids a \<and>
          promised a'' = promised a \<and> cap a'' = cap a)"
    if "inv a' \<and> ids a' = add_mset b (ids a) \<and> promised a' = promised a \<and> cap a' = cap a" for a'
    by (rule wp_mono[OF Cons.IH[of a']]) (use that Cons.prems(2) in auto)
  then show ?case by (auto simp: wp_bindE intro: wp_mono[OF step])
qed simp

text \<open>A new client \<open>k\<close> that holds nothing is owed \<open>n\<close> blocks.\<close>

lemma ledger_admit:
  assumes "inv a" and L: "ledger (ids a) (promised a) (cap a) held owed M"
    and n: "0 \<le> n" "n \<le> int (size (ids a)) - promised a" and k: "held k = []" "owed k = n"
  shows "wp (reserve a n) (\<lambda>a'. inv a' \<and> ids a' = ids a \<and> cap a' = cap a \<and>
           promised a' = promised a + n \<and>
           ledger (ids a') (promised a') (cap a') held owed (add_mset k M))"
  by (rule wp_mono[OF reserve[OF assms(1) n]]) (use L n k in \<open>auto simp: ledger_def\<close>)

text \<open>Client \<open>k\<close> turns one of the blocks it is owed into a held one; this cannot fail.\<close>

lemma ledger_materialize:
  assumes "inv a" and L: "ledger (ids a) (promised a) (cap a) held owed (add_mset k M)"
    and k: "0 < owed k" "k \<notin># M"
  shows "wp (alloc a) (\<lambda>(b, a'). inv a' \<and> cap a' = cap a \<and> promised a' = promised a - 1 \<and>
           ids a = add_mset b (ids a') \<and>
           ledger (ids a') (promised a') (cap a') (held(k := held k @ [b])) (owed(k := owed k - 1))
             (add_mset k M))"
proof -
  have "owed k \<le> promised a"
    using ledger_owed_le[OF L] by simp
  then have "0 < promised a" using k by simp
  note step = alloc[OF assms(1) this]
  have same: "image_mset (\<lambda>q. if q = k then owed k - 1 else owed q) M = image_mset owed M"
    "image_mset (\<lambda>q. mset ((held(k := held k @ [b])) q)) M = image_mset (\<lambda>q. mset (held q)) M" for b
    using k by (auto intro!: image_mset_cong)
  show ?thesis
    by (rule wp_mono[OF step])
      (use L k same in \<open>auto simp: ledger_def split: prod.splits\<close>)
qed

text \<open>
  A client takes one unpromised block: a promise of one that is materialised at once.
  What every client is owed stays the same.
\<close>

lemma ledger_claim:
  assumes "inv a" and L: "ledger (ids a) (promised a) (cap a) held owed (add_mset k M)"
    and n: "1 \<le> int (size (ids a)) - promised a" and k: "k \<notin># M"
  shows "wp (bindE (reserve a 1) alloc) (\<lambda>(b, a'). inv a' \<and> cap a' = cap a \<and>
           promised a' = promised a \<and> ids a = add_mset b (ids a') \<and>
           ledger (ids a') (promised a') (cap a') (held(k := held k @ [b])) owed (add_mset k M))"
proof -
  have o: "0 \<le> owed k" using ledger_owed_le[OF L] by simp
  have up: "image_mset (\<lambda>q. if q = k then owed k + 1 else owed q) M = image_mset owed M"
    using k by (intro image_mset_cong) auto
  have undo: "(owed(k := owed k + 1))(k := (owed(k := owed k + 1)) k - 1) = owed" by auto
  have claim: "wp (alloc a1) (\<lambda>(b, a'). inv a' \<and> cap a' = cap a \<and>
      promised a' = promised a \<and> ids a = add_mset b (ids a') \<and>
      ledger (ids a') (promised a') (cap a') (held(k := held k @ [b])) owed (add_mset k M))"
    if a1: "inv a1 \<and> ids a1 = ids a \<and> promised a1 = promised a + 1 \<and> cap a1 = cap a" for a1
  proof -
    have L1: "ledger (ids a1) (promised a1) (cap a1) held (owed(k := owed k + 1)) (add_mset k M)"
      using L a1 up o by (auto simp: ledger_def)
    note step = ledger_materialize[OF conjunct1[OF a1] L1 _ k]
    show ?thesis
      by (rule wp_mono[OF step]) (use o a1 undo in auto)
  qed
  show ?thesis
    by (auto simp: wp_bindE intro!: wp_mono[OF reserve[OF assms(1) _ n]] claim)
qed

text \<open>Client \<open>k\<close> leaves: its blocks go back and what it is still owed is cancelled.\<close>

lemma ledger_leave:
  assumes "inv a" and L: "ledger (ids a) (promised a) (cap a) held owed (add_mset k M)"
  shows "wp (bindE (foldE release (held k) a) (\<lambda>a'. unreserve a' (owed k)))
           (\<lambda>a'. inv a' \<and> cap a' = cap a \<and> ids a' = mset (held k) + ids a \<and>
              promised a' = promised a - owed k \<and>
              ledger (ids a') (promised a') (cap a') held owed M)"
proof -
  have sub: "mset (held k) + ids a \<subseteq># mset_set {1..<cap a}"
  proof -
    have "mset_set {1..<cap a} = (mset (held k) + ids a) + (\<Sum>q\<in>#M. mset (held q))"
      using L by (simp add: ledger_def ac_simps)
    then show ?thesis by (metis mset_subset_eq_add_left)
  qed
  have "owed k \<le> promised a" and o: "0 \<le> owed k"
    using ledger_owed_le[OF L] by simp_all
  then have un: "wp (unreserve a' (owed k)) (\<lambda>a''. inv a'' \<and> cap a'' = cap a \<and>
      ids a'' = mset (held k) + ids a \<and> promised a'' = promised a - owed k \<and>
      ledger (ids a'') (promised a'') (cap a'') held owed M)"
    if "inv a' \<and> ids a' = mset (held k) + ids a \<and> promised a' = promised a \<and> cap a' = cap a" for a'
    by (intro wp_mono[OF unreserve[of a' "owed k"]])
      (use that L in \<open>auto simp: ledger_def ac_simps\<close>)
  show ?thesis
    by (auto simp: wp_bindE intro: wp_mono[OF release_list[OF assms(1) sub]] un)
qed

end

text \<open>The allocator of the source meets the contract.\<close>

definition free_ids :: "BlockAllocator \<Rightarrow> int multiset" where
  "free_ids a = mset (free_list a)"

lemma FreeBlock_not_free:
  assumes "add_mset b (free_ids a) \<subseteq># mset_set {1..<total_blocks a}"
  shows "1 \<le> b \<and> b < total_blocks a \<and> b \<notin> set (free_list a)"
proof -
  let ?U = "mset_set {1..<total_blocks a}"
  have "b \<in># ?U" using mset_subset_eqD[OF assms] by simp
  then have range: "1 \<le> b" "b < total_blocks a" by simp_all
  have "count (add_mset b (free_ids a)) b \<le> count ?U b"
    using assms by (rule mset_subset_eq_count)
  also have "\<dots> \<le> 1" by (cases "b \<in> {1..<total_blocks a}") auto
  finally have "count (free_ids a) b = 0" by simp
  with range show ?thesis by (simp add: free_ids_def count_mset_0_iff)
qed

interpretation pool: block_pool Reserve Unreserve AllocReserved FreeBlock alloc_inv free_ids
  reserved total_blocks
proof unfold_locales
  fix a b n
  assume inv: "alloc_inv a"
  show "0 \<le> reserved a \<and> reserved a \<le> int (size (free_ids a))"
    using inv by (simp add: alloc_inv_def free_ids_def)
  show "wp (Reserve a n) (\<lambda>a'. alloc_inv a' \<and> free_ids a' = free_ids a \<and>
      reserved a' = reserved a + n \<and> total_blocks a' = total_blocks a)"
    if "0 \<le> n" "n \<le> int (size (free_ids a)) - reserved a"
    by (rule wp_mono[OF Reserve_ok]) (use inv that in \<open>auto simp: free_ids_def\<close>)
  show "wp (Unreserve a n) (\<lambda>a'. alloc_inv a' \<and> free_ids a' = free_ids a \<and>
      reserved a' = reserved a - n \<and> total_blocks a' = total_blocks a)"
    if "0 \<le> n" "n \<le> reserved a"
    by (rule wp_mono[OF Unreserve_ok]) (use inv that in \<open>auto simp: free_ids_def\<close>)
  show "wp (AllocReserved a) (\<lambda>(b, a'). alloc_inv a' \<and> free_ids a = add_mset b (free_ids a') \<and>
      reserved a' = reserved a - 1 \<and> total_blocks a' = total_blocks a)"
    if "0 < reserved a"
    by (rule wp_mono[OF AllocReserved_ok]) (use inv that in \<open>auto simp: free_ids_def mset_butlast_last\<close>)
  show "wp (FreeBlock a b) (\<lambda>a'. alloc_inv a' \<and> free_ids a' = add_mset b (free_ids a) \<and>
      reserved a' = reserved a \<and> total_blocks a' = total_blocks a)"
    if "add_mset b (free_ids a) \<subseteq># mset_set {1..<total_blocks a}"
    by (rule wp_mono[OF FreeBlock_ok]) (use inv FreeBlock_not_free[OF that] in \<open>auto simp: free_ids_def\<close>)
qed

end
