(* ===== verification/Doubles.thy ===== *)
theory Doubles
  imports Core_Types "HOL-Library.Log_Nat"
begin

text \<open>
  The IEEE-754 binary64 rounding that the watermark admission test and the pool sizing
  depend on. A \<^verbatim>\<open>double\<close> is the rational it denotes; \<open>dbl x\<close> is the result of
  rounding the exact result \<open>x\<close> of an operation to 53 significant bits, to nearest with
  ties to even. The exponent range is not bounded, because the only operands in the code
  are a fraction in \<open>[0, 1)\<close> or a size in GiB of at most 1024, times an integer below
  \<open>2 ^ 31\<close>: no operation comes near the overflow or the subnormal range.
\<close>

definition round_half_even :: "rat \<Rightarrow> int" where
  "round_half_even x =
     (let f = \<lfloor>x\<rfloor>; d = x - of_int f
      in if d < 1 / 2 then f else if d > 1 / 2 then f + 1 else if even f then f else f + 1)"

definition pow2 :: "int \<Rightarrow> rat" where
  "pow2 k = (if 0 \<le> k then 2 ^ nat k else 1 / 2 ^ nat (- k))"

text \<open>\<open>ilog2 x\<close> is the exponent of the leading bit of \<open>x > 0\<close>.\<close>

definition ilog2 :: "rat \<Rightarrow> int" where
  "ilog2 x =
     (let (p, q) = quotient_of x; k = bitlen p - bitlen q
      in if pow2 k \<le> x then k else k - 1)"

text \<open>Rounding to \<open>p\<close> significant bits: 53 for \<^verbatim>\<open>double\<close>, 24 for \<^verbatim>\<open>float\<close>.\<close>

definition round_bits :: "int \<Rightarrow> rat \<Rightarrow> rat" where
  "round_bits p x =
     (if x = 0 then 0
      else let u = pow2 (ilog2 \<bar>x\<bar> - (p - 1)) in of_int (round_half_even (x / u)) * u)"

definition dbl :: "rat \<Rightarrow> rat" where
  "dbl x = round_bits 53 x"

definition flt :: "rat \<Rightarrow> rat" where
  "flt x = round_bits 24 x"

lemma pow2_pos [simp]: "0 < pow2 k"
  by (simp add: pow2_def)

lemma round_half_even_nonneg: "0 \<le> x \<Longrightarrow> 0 \<le> round_half_even x"
  by (auto simp: round_half_even_def Let_def)

lemma dbl_nonneg: "0 \<le> x \<Longrightarrow> 0 \<le> dbl x"
  using round_half_even_nonneg[of "x / pow2 (ilog2 \<bar>x\<bar> - 52)"]
  by (simp add: dbl_def round_bits_def Let_def less_imp_le)

end
