(* ===== verification/Scheduler.thy ===== *)
theory Scheduler
  imports Block_Allocator Doubles
begin

text \<open>
  \<^verbatim>\<open>src/src/core/scheduler.{hpp,cpp}\<close>: the iteration-level continuous-batching
  scheduler.

  \<^verbatim>\<open>RequestPtr\<close> is a shared pointer: the waiting queue, the prefill queue, the running
  list, a plan and the engine's map all alias the same request. The model keeps the
  requests in a store \<open>heap\<close> from pointers to requests, and the queues hold pointers, so
  that an update through one alias is seen through all others; \<open>==\<close> on shared pointers is
  equality of pointers. Reading a pointer that holds no request is the failure
  \<open>NullDeref\<close>.

  The loops are recursive functions with their termination proofs: the admission loop
  (it shortens the waiting queue), the block materialisation loop (it grows the table),
  the abort loop (it shortens the running list) and the decode-planning loop.
\<close>

type_synonym ptr = nat

section \<open>Options and plans\<close>

datatype AdmissionPolicy = kReserveFull | kWatermark

record SchedulerOptions =
  max_batch :: int
  prefill_chunk_tokens :: int
  max_seq_len :: int
  admission_policy :: AdmissionPolicy
  watermark_free_fraction :: rat
  eos_token_ids :: "token_id list"

text \<open>The default member initialisers; \<open>0.10\<close> is the double nearest to one tenth.\<close>

definition default_SchedulerOptions :: SchedulerOptions where
  "default_SchedulerOptions =
     \<lparr>max_batch = 8, prefill_chunk_tokens = 1024, max_seq_len = 2048,
      admission_policy = kReserveFull,
      watermark_free_fraction = 3602879701896397 / 36028797018963968, eos_token_ids = []\<rparr>"

record StepPlan =
  prefill :: "ptr option"
  prefill_begin :: int
  prefill_end :: int
  decode :: "ptr list"
  aborted :: "ptr list"

definition empty_plan :: StepPlan where
  "empty_plan = \<lparr>prefill = None, prefill_begin = 0, prefill_end = 0, decode = [], aborted = []\<rparr>"

definition plan_empty :: "StepPlan \<Rightarrow> bool" where
  "plan_empty plan \<longleftrightarrow> prefill plan = None \<and> decode plan = [] \<and> aborted plan = []"

definition is_prefill :: "StepPlan \<Rightarrow> bool" where
  "is_prefill plan \<longleftrightarrow> prefill plan \<noteq> None"

section \<open>Decode buckets\<close>

definition kLadder :: "int list" where
  "kLadder = [1, 2, 4, 8, 16, 32, 48, 64]"

fun push_buckets :: "int \<Rightarrow> int list \<Rightarrow> int list \<Rightarrow> int list" where
  "push_buckets cap [] buckets = buckets"
| "push_buckets cap (bucket # rest) buckets =
     push_buckets cap rest (if bucket \<le> cap then buckets @ [bucket] else buckets)"

definition MakeDecodeBuckets :: "int \<Rightarrow> int list" where
  "MakeDecodeBuckets cap = push_buckets cap kLadder []"

fun first_bucket :: "int \<Rightarrow> int list \<Rightarrow> int" where
  "first_bucket batch_size [] = -1"
| "first_bucket batch_size (bucket # rest) =
     (if bucket \<ge> batch_size then bucket else first_bucket batch_size rest)"

definition SelectBucket :: "int \<Rightarrow> int list \<Rightarrow> int" where
  "SelectBucket batch_size buckets =
     (if batch_size \<le> 0 then -1 else first_bucket batch_size buckets)"

section \<open>The scheduler's state\<close>

record Scheduler =
  allocator :: BlockAllocator
  options :: SchedulerOptions
  waiting :: "ptr list"
  prefill_queue :: "ptr list"
  running :: "ptr list"
  free_slots :: "int list"
  heap :: "ptr \<Rightarrow> Request option"

definition deref :: "Scheduler \<Rightarrow> ptr \<Rightarrow> exn + Request" where
  "deref s p = (case heap s p of None \<Rightarrow> Inl NullDeref | Some r \<Rightarrow> Inr r)"

definition set_req :: "Scheduler \<Rightarrow> ptr \<Rightarrow> Request \<Rightarrow> Scheduler" where
  "set_req s p r = s\<lparr>heap := (heap s)(p \<mapsto> r)\<rparr>"

definition num_waiting :: "Scheduler \<Rightarrow> int" where
  "num_waiting s = int (length (waiting s))"

definition num_running :: "Scheduler \<Rightarrow> int" where
  "num_running s = int (length (prefill_queue s)) + int (length (running s))"

definition new_Scheduler ::
  "BlockAllocator \<Rightarrow> SchedulerOptions \<Rightarrow> (ptr \<Rightarrow> Request option) \<Rightarrow> exn + Scheduler" where
  "new_Scheduler a opts h =
     bindE (assertE (max_batch opts \<ge> 1) (AssertFailed ''max_batch >= 1'')) (\<lambda>_.
     bindE (assertE (prefill_chunk_tokens opts \<ge> 1) (AssertFailed ''prefill_chunk_tokens >= 1'')) (\<lambda>_.
     bindE (assertE (max_seq_len opts \<ge> 2) (AssertFailed ''max_seq_len >= 2'')) (\<lambda>_.
     bindE (assertE (watermark_free_fraction opts \<ge> 0 \<and> watermark_free_fraction opts < 1)
              (AssertFailed ''watermark_free_fraction in [0, 1)'')) (\<lambda>_.
     Inr \<lparr>allocator = a, options = opts, waiting = [], prefill_queue = [], running = [],
          free_slots = rev [0..max_batch opts - 1], heap = h\<rparr>))))"

section \<open>Admission\<close>

definition watermark_floor :: "Scheduler \<Rightarrow> rat" where
  "watermark_floor s =
     dbl (watermark_free_fraction (options s) * of_int (usable_blocks (allocator s)))"

definition ValidateRequest :: "Scheduler \<Rightarrow> Request \<Rightarrow> exn + unit" where
  "ValidateRequest s r =
     (let prompt_len = int (length (prompt_tokens r)) in
      bindE (assertE (prompt_len \<noteq> 0) (InvalidArgument ''prompt is empty'')) (\<lambda>_.
      bindE (assertE (\<not> max_new_tokens r \<le> 0)
               (InvalidArgument ''max_new_tokens must be positive'')) (\<lambda>_.
      bindE (assertE (\<not> prompt_len + max_new_tokens r > max_seq_len (options s))
               (InvalidArgument ''prompt_len + max_new_tokens exceeds max_seq_len'')) (\<lambda>_.
      if admission_policy (options s) = kReserveFull then
        let worst_case = BlocksForTokens (num_prompt_tokens r + max_new_tokens r) in
        assertE (\<not> worst_case > usable_blocks (allocator s))
          (InvalidArgument ''needs more KV blocks worst-case than the pool has'')
      else
        let prompt_blocks = BlocksForTokens (num_prompt_tokens r);
            usable = usable_blocks (allocator s)
        in assertE (\<not> of_int (usable - prompt_blocks) < watermark_floor s)
             (InvalidArgument ''even an idle pool cannot admit it above the free floor'')))))"

definition Enqueue :: "Scheduler \<Rightarrow> ptr \<Rightarrow> exn + Scheduler" where
  "Enqueue s p =
     bindE (deref s p) (\<lambda>r.
     bindE (assertE (state r = kWaiting) (AssertFailed ''request->state == kWaiting'')) (\<lambda>_.
     bindE (ValidateRequest s r) (\<lambda>_.
     Inr (s\<lparr>waiting := waiting s @ [p]\<rparr>))))"

definition CanAdmit :: "Scheduler \<Rightarrow> Request \<Rightarrow> exn + bool" where
  "CanAdmit s r =
     (if admission_policy (options s) = kReserveFull then
        CanReserve (allocator s) (BlocksForTokens (num_prompt_tokens r + max_new_tokens r))
      else
        let uncommitted = free_blocks (allocator s) - reserved (allocator s);
            prompt_blocks = BlocksForTokens (num_prompt_tokens r)
        in Inr (of_int (uncommitted - prompt_blocks) \<ge> watermark_floor s))"

definition ReservationFor :: "Scheduler \<Rightarrow> Request \<Rightarrow> int" where
  "ReservationFor s r =
     (if admission_policy (options s) = kReserveFull
      then BlocksForTokens (num_prompt_tokens r + max_new_tokens r)
      else BlocksForTokens (num_prompt_tokens r))"

definition Admit :: "Scheduler \<Rightarrow> exn + Scheduler" where
  "Admit s =
     bindE (assertE (waiting s \<noteq> []) (AssertFailed ''front() of an empty deque'')) (\<lambda>_.
     let p = hd (waiting s); s1 = s\<lparr>waiting := tl (waiting s)\<rparr> in
     bindE (deref s1 p) (\<lambda>r.
     let reservation = ReservationFor s1 r in
     bindE (Reserve (allocator s1) reservation) (\<lambda>a.
     bindE (assertE (free_slots s1 \<noteq> []) (AssertFailed ''!free_slots_.empty()'')) (\<lambda>_.
     let r' = r\<lparr>reserved_blocks := reservation, slot := last (free_slots s1), state := kPrefill\<rparr> in
     Inr ((set_req s1 p r')\<lparr>allocator := a, free_slots := butlast (free_slots s1),
                            prefill_queue := prefill_queue s1 @ [p]\<rparr>)))))"

lemma waiting_set_req [simp]: "waiting (set_req s p r) = waiting s"
  and running_set_req [simp]: "running (set_req s p r) = running s"
  and prefill_queue_set_req [simp]: "prefill_queue (set_req s p r) = prefill_queue s"
  and options_set_req [simp]: "options (set_req s p r) = options s"
  and allocator_set_req [simp]: "allocator (set_req s p r) = allocator s"
  and free_slots_set_req [simp]: "free_slots (set_req s p r) = free_slots s"
  and heap_set_req [simp]: "heap (set_req s p r) = (heap s)(p \<mapsto> r)"
  by (simp_all add: set_req_def)

lemma Admit_waiting: "Admit s = Inr s' \<Longrightarrow> length (waiting s') < length (waiting s)"
  by (auto simp: Admit_def Let_def bindE_Inr_iff)

function admit_loop :: "Scheduler \<Rightarrow> exn + Scheduler" where
  "admit_loop s =
     (if waiting s \<noteq> [] \<and> num_running s < max_batch (options s) then
        bindE (deref s (hd (waiting s))) (\<lambda>r.
        bindE (CanAdmit s r) (\<lambda>ok.
        if ok then bindE (Admit s) (\<lambda>s'. admit_loop s') else Inr s))
      else Inr s)"
  by pat_completeness auto
termination
  by (relation "measure (\<lambda>s. length (waiting s))") (auto dest: Admit_waiting)

declare admit_loop.simps [simp del]

section \<open>Releasing and aborting\<close>

definition ReleaseResources :: "Scheduler \<Rightarrow> ptr \<Rightarrow> exn + Scheduler" where
  "ReleaseResources s p =
     bindE (deref s p) (\<lambda>r.
     let released = fst (Release (block_table r)); table = snd (Release (block_table r)) in
     bindE (foldE FreeBlock released (allocator s)) (\<lambda>a.
     bindE (Unreserve a (reserved_blocks r)) (\<lambda>a'.
     let r' = r\<lparr>block_table := table, reserved_blocks := 0\<rparr> in
     Inr (if slot r' \<ge> 0
          then (set_req s p (r'\<lparr>slot := -1\<rparr>))\<lparr>allocator := a', free_slots := free_slots s @ [slot r']\<rparr>
          else (set_req s p r')\<lparr>allocator := a'\<rparr>))))"

definition AbortYoungestRunning :: "Scheduler \<Rightarrow> StepPlan \<Rightarrow> exn + (Scheduler \<times> StepPlan)" where
  "AbortYoungestRunning s plan =
     bindE (assertE (running s \<noteq> []) (AssertFailed ''back() of an empty vector'')) (\<lambda>_.
     let victim = last (running s); s1 = s\<lparr>running := butlast (running s)\<rparr> in
     bindE (deref s1 victim) (\<lambda>r.
     bindE (ReleaseResources
              (set_req s1 victim (r\<lparr>state := kFinished, finish_reason := kAborted\<rparr>)) victim) (\<lambda>s2.
     Inr (s2, plan\<lparr>aborted := aborted plan @ [victim]\<rparr>))))"

lemma ReleaseResources_running: "ReleaseResources s p = Inr s' \<Longrightarrow> running s' = running s"
  by (auto simp: ReleaseResources_def Let_def bindE_Inr_iff split: if_splits)

lemma AbortYoungestRunning_running:
  "AbortYoungestRunning s plan = Inr (s', plan') \<Longrightarrow>
     running s \<noteq> [] \<and> running s' = butlast (running s)"
  by (auto simp: AbortYoungestRunning_def Let_def bindE_Inr_iff dest!: ReleaseResources_running)

text \<open>The retry loop of \<open>EnsureDecodeBlockCapacity\<close> under the watermark policy.\<close>

function abort_loop :: "Scheduler \<Rightarrow> StepPlan \<Rightarrow> ptr \<Rightarrow> exn + (bool \<times> Scheduler \<times> StepPlan)" where
  "abort_loop s plan p =
     bindE (CanReserve (allocator s) 1) (\<lambda>ok.
     if ok then Inr (True, s, plan)
     else bindE (assertE (running s \<noteq> []) (AssertFailed ''!running_.empty()'')) (\<lambda>_.
          bindE (AbortYoungestRunning s plan) (\<lambda>(s', plan').
          if last (running s) = p then Inr (False, s', plan') else abort_loop s' plan' p)))"
  by pat_completeness auto
termination
  by (relation "measure (\<lambda>(s, plan, p). length (running s))")
    (auto dest!: AbortYoungestRunning_running simp: length_greater_0_conv[symmetric] simp del: length_greater_0_conv)

declare abort_loop.simps [simp del]

definition EnsureDecodeBlockCapacity ::
  "Scheduler \<Rightarrow> ptr \<Rightarrow> StepPlan \<Rightarrow> exn + (bool \<times> Scheduler \<times> StepPlan)" where
  "EnsureDecodeBlockCapacity s p plan =
     (if admission_policy (options s) = kReserveFull then
        bindE (deref s p) (\<lambda>r.
        bindE (assertE (reserved_blocks r > 0) (AssertFailed ''request->reserved_blocks > 0'')) (\<lambda>_.
        bindE (AllocReserved (allocator s)) (\<lambda>(b, a).
        Inr (True, (set_req s p (r\<lparr>block_table := Append (block_table r) b,
                                 reserved_blocks := reserved_blocks r - 1\<rparr>))\<lparr>allocator := a\<rparr>, plan))))
      else
        bindE (abort_loop s plan p) (\<lambda>(ok, s1, plan1).
        if \<not> ok then Inr (False, s1, plan1)
        else
          bindE (Reserve (allocator s1) 1) (\<lambda>a1.
          bindE (AllocReserved a1) (\<lambda>(b, a2).
          bindE (deref s1 p) (\<lambda>r.
          Inr (True, (set_req s1 p (r\<lparr>block_table := Append (block_table r) b\<rparr>))\<lparr>allocator := a2\<rparr>,
               plan1))))))"

section \<open>Planning a step\<close>

text \<open>The materialisation loop of the prefill branch, on the allocator and the request.\<close>

function materialize :: "BlockAllocator \<Rightarrow> Request \<Rightarrow> int \<Rightarrow> exn + (BlockAllocator \<times> Request)" where
  "materialize a r bound =
     (if token_capacity (block_table r) < bound then
        bindE (assertE (reserved_blocks r > 0) (AssertFailed ''request->reserved_blocks > 0'')) (\<lambda>_.
        bindE (AllocReserved a) (\<lambda>(b, a').
        materialize a' (r\<lparr>block_table := Append (block_table r) b,
                          reserved_blocks := reserved_blocks r - 1\<rparr>) bound))
      else Inr (a, r))"
  by pat_completeness auto
termination
  by (relation "measure (\<lambda>(a, r, bound). nat (bound - token_capacity (block_table r)))")
    (auto simp: kKvBlockSize_def)

declare materialize.simps [simp del]

lemma abort_loop_cases:
  assumes "abort_loop s plan p = Inr (ok, s', plan')"
  obtains (fits) "CanReserve (allocator s) 1 = Inr True" "ok" "s' = s" "plan' = plan"
  | (self) "CanReserve (allocator s) 1 = Inr False" "running s \<noteq> []" "last (running s) = p"
      "AbortYoungestRunning s plan = Inr (s', plan')" "\<not> ok"
  | (other) s1 plan1 where "CanReserve (allocator s) 1 = Inr False" "running s \<noteq> []"
      "last (running s) \<noteq> p" "AbortYoungestRunning s plan = Inr (s1, plan1)"
      "abort_loop s1 plan1 p = Inr (ok, s', plan')"
proof -
  from assms[unfolded abort_loop.simps[of s plan p]] obtain fit where
    fit: "CanReserve (allocator s) 1 = Inr fit" by (auto simp: bindE_Inr_iff)
  show thesis
  proof (cases fit)
    case True
    with assms fit show thesis by (intro fits) (auto simp: abort_loop.simps[of s plan p])
  next
    case False
    with assms fit have run: "running s \<noteq> []"
      by (auto simp: abort_loop.simps[of s plan p] bindE_Inr_iff)
    with False assms fit obtain s1 plan1 where ab: "AbortYoungestRunning s plan = Inr (s1, plan1)"
      by (auto simp: abort_loop.simps[of s plan p] bindE_Inr_iff)
    with False assms fit run
    have "(if last (running s) = p then Inr (False, s1, plan1) else abort_loop s1 plan1 p)
        = Inr (ok, s', plan')"
      by (simp add: abort_loop.simps[of s plan p] assertE_def)
    with False fit run ab show thesis
      by (cases "last (running s) = p") (auto intro: self other)
  qed
qed

lemma abort_loop_running:
  "abort_loop s plan p = Inr (ok, s', plan') \<Longrightarrow>
     length (running s') \<le> length (running s) \<and> (\<not> ok \<longrightarrow> length (running s') < length (running s))"
proof (induction "length (running s)" arbitrary: s plan rule: less_induct)
  case less
  from less.prems show ?case
  proof (cases rule: abort_loop_cases)
    case self
    then show ?thesis by (auto dest!: AbortYoungestRunning_running)
  next
    case (other s1 plan1)
    then have "length (running s1) < length (running s)"
      by (auto dest!: AbortYoungestRunning_running)
    with less.hyps[OF this] other(5) show ?thesis by fastforce
  qed simp
qed

lemma EnsureDecodeBlockCapacity_running:
  "EnsureDecodeBlockCapacity s p plan = Inr (ok, s', plan') \<Longrightarrow>
     length (running s') \<le> length (running s) \<and> (\<not> ok \<longrightarrow> length (running s') < length (running s))"
  by (auto simp: EnsureDecodeBlockCapacity_def bindE_Inr_iff split: if_splits prod.splits
      dest!: abort_loop_running)

text \<open>
  The decode-planning loop: \<open>i\<close> is the index into the running list; a request that
  became the abort victim itself is skipped by re-testing the loop condition.
\<close>

function decode_loop :: "Scheduler \<Rightarrow> StepPlan \<Rightarrow> nat \<Rightarrow> exn + (Scheduler \<times> StepPlan)" where
  "decode_loop s plan i =
     (if i < length (running s) \<and> int (length (decode plan)) < max_batch (options s) then
        let p = running s ! i in
        bindE (deref s p) (\<lambda>r.
        if seq_len r - 1 \<ge> token_capacity (block_table r) then
          bindE (assertE (seq_len r - 1 = token_capacity (block_table r))
                   (AssertFailed ''seq_len() - 1 == token_capacity()'')) (\<lambda>_.
          bindE (EnsureDecodeBlockCapacity s p plan) (\<lambda>(ok, s', plan').
          if \<not> ok then decode_loop s' plan' i
          else decode_loop s' (plan'\<lparr>decode := decode plan' @ [p]\<rparr>) (i + 1)))
        else decode_loop s (plan\<lparr>decode := decode plan @ [p]\<rparr>) (i + 1))
      else Inr (s, plan))"
  by pat_completeness auto
termination
  by (relation "measure (\<lambda>(s, plan, i). length (running s) - i)")
    (auto dest!: EnsureDecodeBlockCapacity_running)

declare decode_loop.simps [simp del]

text \<open>Parts 2 and 3 of \<open>PlanStep\<close>: a prefill chunk, or else the decode batch.\<close>

definition plan_batch :: "Scheduler \<Rightarrow> exn + (StepPlan \<times> Scheduler)" where
  "plan_batch s =
     (if prefill_queue s \<noteq> [] then
       let p = hd (prefill_queue s) in
       bindE (deref s p) (\<lambda>r.
       bindE (assertE (state r = kPrefill) (AssertFailed ''request->state == kPrefill'')) (\<lambda>_.
       let plan = empty_plan\<lparr>prefill := Some p, prefill_begin := prefill_progress r,
                    prefill_end := min (prefill_progress r + prefill_chunk_tokens (options s))
                                       (num_prompt_tokens r)\<rparr> in
       bindE (assertE (prefill_begin plan < prefill_end plan)
                (AssertFailed ''plan.prefill_begin < plan.prefill_end'')) (\<lambda>_.
       bindE (materialize (allocator s) r (prefill_end plan)) (\<lambda>(a, r').
       Inr (plan, (set_req s p r')\<lparr>allocator := a\<rparr>)))))
     else
       bindE (decode_loop s empty_plan 0) (\<lambda>(s', plan). Inr (plan, s')))"

definition PlanStep :: "Scheduler \<Rightarrow> exn + (StepPlan \<times> Scheduler)" where
  "PlanStep s = bindE (admit_loop s) plan_batch"

definition final_prefill_chunk :: "Scheduler \<Rightarrow> StepPlan \<Rightarrow> exn + bool" where
  "final_prefill_chunk s plan =
     (case prefill plan of
        None \<Rightarrow> Inr False
      | Some p \<Rightarrow> bindE (deref s p) (\<lambda>r. Inr (prefill_end plan = num_prompt_tokens r)))"

section \<open>Completing a step\<close>

definition IsEosToken :: "SchedulerOptions \<Rightarrow> token_id \<Rightarrow> bool" where
  "IsEosToken opts t \<longleftrightarrow> t \<in> set (eos_token_ids opts)"

definition appended_token :: "Request \<Rightarrow> token_id \<Rightarrow> token_id" where
  "appended_token r sampled =
     (let position = length (output_tokens r) in
      if position < length (forced_tokens r) then forced_tokens r ! position else sampled)"

definition stop_reason :: "SchedulerOptions \<Rightarrow> Request \<Rightarrow> token_id \<Rightarrow> FinishReason" where
  "stop_reason opts r t =
     (if \<not> ignore_eos r \<and> IsEosToken opts t then kEos
      else if num_output_tokens r \<ge> max_new_tokens r then kLength else kNone)"

definition ApplySampledToken :: "Scheduler \<Rightarrow> ptr \<Rightarrow> token_id \<Rightarrow> exn + (StepResult \<times> Scheduler)" where
  "ApplySampledToken s p sampled =
     bindE (deref s p) (\<lambda>r.
     bindE (assertE (state r = kPrefill \<or> state r = kRunning)
              (AssertFailed ''state == kPrefill || state == kRunning'')) (\<lambda>_.
     let from_prefill = (state r = kPrefill);
         app = appended_token r sampled;
         r1 = r\<lparr>output_tokens := output_tokens r @ [app]\<rparr>;
         reason = stop_reason (options s) r1 app
     in if reason = kNone then
          let res = \<lparr>request_id = req_id r1, token = sampled, finished = False, result_reason = kNone\<rparr>
          in Inr (res,
               if from_prefill
               then (set_req s p (r1\<lparr>state := kRunning\<rparr>))\<lparr>running := running s @ [p]\<rparr>
               else set_req s p r1)
        else
          bindE (ReleaseResources
                   (set_req s p (r1\<lparr>state := kFinished, finish_reason := reason\<rparr>)) p) (\<lambda>s2.
          let res = \<lparr>request_id = req_id r1, token = sampled, finished = True, result_reason = reason\<rparr>
          in if \<not> from_prefill then
               bindE (assertE (p \<in> set (running s2)) (AssertFailed ''it != running_.end()'')) (\<lambda>_.
               Inr (res, s2\<lparr>running := remove1 p (running s2)\<rparr>))
             else Inr (res, s2))))"

definition report_abort :: "Scheduler \<Rightarrow> StepResult list \<Rightarrow> ptr \<Rightarrow> exn + StepResult list" where
  "report_abort s emissions p =
     bindE (deref s p) (\<lambda>r.
     bindE (assertE (state r = kFinished \<and> finish_reason r = kAborted)
              (AssertFailed ''aborted request is kFinished with kAborted'')) (\<lambda>_.
     Inr (emissions @ [\<lparr>request_id = req_id r, token = 0, finished = True, result_reason = kAborted\<rparr>])))"

definition apply_row ::
  "StepResult list \<times> Scheduler \<Rightarrow> ptr \<times> token_id \<Rightarrow> exn + (StepResult list \<times> Scheduler)" where
  "apply_row = (\<lambda>(emissions, s) (p, t).
     bindE (ApplySampledToken s p t) (\<lambda>(res, s'). Inr (emissions @ [res], s')))"

definition CompleteStep ::
  "Scheduler \<Rightarrow> StepPlan \<Rightarrow> token_id list \<Rightarrow> exn + (StepResult list \<times> Scheduler)" where
  "CompleteStep s plan sampled =
     bindE (foldE (report_abort s) (aborted plan) []) (\<lambda>emissions.
     case prefill plan of
       Some p \<Rightarrow>
         bindE (deref s p) (\<lambda>r.
         bindE (assertE (prefill_queue s \<noteq> [] \<and> hd (prefill_queue s) = p)
                  (AssertFailed ''prefill_queue_.front() == request'')) (\<lambda>_.
         bindE (assertE (prefill_progress r = prefill_begin plan)
                  (AssertFailed ''prefill_progress == plan.prefill_begin'')) (\<lambda>_.
         let r' = r\<lparr>prefill_progress := prefill_end plan\<rparr>; s1 = set_req s p r' in
         if \<not> prefill_done r' then
           bindE (assertE (sampled = []) (AssertFailed ''sampled_tokens.empty()'')) (\<lambda>_.
           Inr (emissions, s1))
         else
           bindE (assertE (length sampled = 1) (AssertFailed ''sampled_tokens.size() == 1'')) (\<lambda>_.
           bindE (ApplySampledToken (s1\<lparr>prefill_queue := tl (prefill_queue s1)\<rparr>) p (hd sampled))
             (\<lambda>(res, s2). Inr (emissions @ [res], s2))))))
     | None \<Rightarrow>
         bindE (assertE (length sampled = length (decode plan))
                  (AssertFailed ''sampled_tokens.size() == plan.decode.size()'')) (\<lambda>_.
         foldE apply_row (zip (decode plan) sampled) (emissions, s)))"

section \<open>The bucket ladder as a filter\<close>

lemma push_buckets_filter: "push_buckets cap xs acc = acc @ filter (\<lambda>b. b \<le> cap) xs"
  by (induction xs arbitrary: acc) auto

lemma MakeDecodeBuckets_filter: "MakeDecodeBuckets cap = filter (\<lambda>b. b \<le> cap) kLadder"
  by (simp add: MakeDecodeBuckets_def push_buckets_filter)

lemma MakeDecodeBuckets_range: "b \<in> set (MakeDecodeBuckets cap) \<Longrightarrow> 1 \<le> b \<and> b \<le> cap"
  by (simp add: MakeDecodeBuckets_filter) (auto simp: kLadder_def)

lemma one_in_buckets: "1 \<le> cap \<Longrightarrow> 1 \<in> set (MakeDecodeBuckets cap)"
  by (simp add: MakeDecodeBuckets_filter kLadder_def)

lemma first_bucket_in: "first_bucket n bs \<noteq> -1 \<Longrightarrow> first_bucket n bs \<in> set bs \<and> n \<le> first_bucket n bs"
  by (induction bs) (auto split: if_splits)

lemma SelectBucket_in:
  "0 < SelectBucket n bs \<Longrightarrow> SelectBucket n bs \<in> set bs \<and> n \<le> SelectBucket n bs"
  using first_bucket_in[of n bs] by (auto simp: SelectBucket_def split: if_splits)

end
