(* ===== verification/Scheduler_Inv.thy ===== *)
theory Scheduler_Inv
  imports Scheduler
begin

text \<open>
  The scheduler invariant and its preservation by every operation.

  \<open>accounts\<close> is the resource half: the allocator's class invariant, the block ledger over
  the admitted requests (theory \<open>Block_Allocator\<close>) and the batch slots, each of which is
  either free or held by exactly one admitted request. \<open>waiting_req\<close>, \<open>prefill_req\<close> and
  \<open>running_req\<close> are what holds of a single request in each queue. The per-operation lemmas
  are stated with \<open>wp\<close>, so each of them also says that no assertion of the source fails.

  The bounds on a request's block table are chosen so that the invariant also holds
  between \<open>PlanStep\<close> and \<open>CompleteStep\<close>: a step whose execution throws leaves a state
  from which planning can start again.
\<close>

section \<open>Resource accounts\<close>

definition held_of :: "(ptr \<Rightarrow> Request option) \<Rightarrow> ptr \<Rightarrow> int list" where
  "held_of h p = (case h p of None \<Rightarrow> [] | Some r \<Rightarrow> blocks (block_table r))"

definition owed_of :: "(ptr \<Rightarrow> Request option) \<Rightarrow> ptr \<Rightarrow> int" where
  "owed_of h p = (case h p of None \<Rightarrow> 0 | Some r \<Rightarrow> reserved_blocks r)"

definition slot_of :: "(ptr \<Rightarrow> Request option) \<Rightarrow> ptr \<Rightarrow> int" where
  "slot_of h p = (case h p of None \<Rightarrow> -1 | Some r \<Rightarrow> slot r)"

definition accounts ::
  "BlockAllocator \<Rightarrow> (ptr \<Rightarrow> Request option) \<Rightarrow> int list \<Rightarrow> int \<Rightarrow> ptr multiset \<Rightarrow> bool" where
  "accounts a h fs mb M \<longleftrightarrow>
     alloc_inv a \<and>
     ledger (free_ids a) (reserved a) (total_blocks a) (held_of h) (owed_of h) M \<and>
     mset fs + image_mset (slot_of h) M = mset_set {0..<mb}"

lemma of_upd [simp]:
  "held_of (h(p \<mapsto> r)) = (held_of h)(p := blocks (block_table r))"
  "owed_of (h(p \<mapsto> r)) = (owed_of h)(p := reserved_blocks r)"
  "slot_of (h(p \<mapsto> r)) = (slot_of h)(p := slot r)"
  by (auto simp: held_of_def owed_of_def slot_of_def)

lemma of_Some [simp]:
  "h p = Some r \<Longrightarrow> held_of h p = blocks (block_table r)"
  "h p = Some r \<Longrightarrow> owed_of h p = reserved_blocks r"
  "h p = Some r \<Longrightarrow> slot_of h p = slot r"
  by (simp_all add: held_of_def owed_of_def slot_of_def)

text \<open>Changing a request's other fields keeps the accounts.\<close>

lemma accounts_cong:
  assumes "\<And>p. p \<in># M \<Longrightarrow> held_of h p = held_of h' p \<and> owed_of h p = owed_of h' p \<and>
    slot_of h p = slot_of h' p"
  shows "accounts a h fs mb M \<longleftrightarrow> accounts a h' fs mb M"
proof -
  have "image_mset (slot_of h) M = image_mset (slot_of h') M"
    using assms by (auto intro!: image_mset_cong)
  moreover have "ledger f n c (held_of h) (owed_of h) M \<longleftrightarrow> ledger f n c (held_of h') (owed_of h') M"
    for f n c using assms by (intro ledger_cong) auto
  ultimately show ?thesis by (simp add: accounts_def)
qed

lemma accounts_set_same:
  assumes "accounts a h fs mb M" and "h p = Some r" and "block_table r' = block_table r"
    and "reserved_blocks r' = reserved_blocks r" and "slot r' = slot r"
  shows "accounts a (h(p \<mapsto> r')) fs mb M"
  using assms(1) by (rule accounts_cong[THEN iffD1, rotated]) (use assms in auto)

lemma accounts_set_other:
  assumes "accounts a h fs mb M" and "p \<notin># M"
  shows "accounts a (h(p := x)) fs mb M"
  using assms(1)
  by (rule accounts_cong[THEN iffD1, rotated])
    (use assms in \<open>auto simp: held_of_def owed_of_def slot_of_def\<close>)

lemma accounts_size:
  assumes "accounts a h fs mb M"
  shows "int (length fs) + int (size M) = max 0 mb"
proof -
  have "mset fs + image_mset (slot_of h) M = mset_set {0..<mb}"
    using assms by (simp add: accounts_def)
  from arg_cong[OF this, of size] show ?thesis by simp
qed

lemma accounts_slot:
  assumes "accounts a h fs mb M" and "p \<in># M"
  shows "0 \<le> slot_of h p"
proof -
  have "slot_of h p \<in># mset fs + image_mset (slot_of h) M" using assms by auto
  also have "mset fs + image_mset (slot_of h) M = mset_set {0..<mb}"
    using assms by (simp add: accounts_def)
  finally show ?thesis by simp
qed

lemma accounts_admit:
  assumes A: "accounts a h fs mb M" and n: "0 \<le> n" "n \<le> free_blocks a - reserved a"
    and fs: "fs \<noteq> []" and p: "p \<notin># M"
    and r': "blocks (block_table r') = []" "reserved_blocks r' = n" "slot r' = last fs"
  shows "wp (Reserve a n) (\<lambda>a'. accounts a' (h(p \<mapsto> r')) (butlast fs) mb (add_mset p M) \<and>
           total_blocks a' = total_blocks a \<and> free_blocks a' = free_blocks a \<and>
           reserved a' = reserved a + n)"
proof -
  let ?h = "h(p \<mapsto> r')"
  have A': "accounts a ?h fs mb M" using A p by (rule accounts_set_other)
  then have slots: "mset (butlast fs) + image_mset (slot_of ?h) (add_mset p M) = mset_set {0..<mb}"
    using fs r' mset_butlast_last[OF fs] by (simp add: accounts_def)
  have n': "n \<le> int (size (free_ids a)) - reserved a" using n by (simp add: free_ids_def free_blocks_def)
  have inv: "alloc_inv a" and L: "ledger (free_ids a) (reserved a) (total_blocks a) (held_of ?h) (owed_of ?h) M"
    using A' by (simp_all add: accounts_def)
  show ?thesis
    by (rule wp_mono[OF pool.ledger_admit[OF inv L n(1) n', of p]])
      (use r' slots in \<open>auto simp: accounts_def free_blocks_def free_ids_def dest: arg_cong[where f = size]\<close>)
qed

lemma accounts_alloc:
  assumes A: "accounts a h fs mb (add_mset p M)" and p: "p \<notin># M" "h p = Some r"
    and pos: "0 < reserved_blocks r"
  shows "wp (AllocReserved a) (\<lambda>(b, a').
           (\<forall>r'. blocks (block_table r') = blocks (block_table r) @ [b] \<longrightarrow>
              reserved_blocks r' = reserved_blocks r - 1 \<longrightarrow> slot r' = slot r \<longrightarrow>
              accounts a' (h(p \<mapsto> r')) fs mb (add_mset p M)) \<and>
           total_blocks a' = total_blocks a \<and>
           free_blocks a' = free_blocks a - 1 \<and> reserved a' = reserved a - 1)"
proof -
  have inv: "alloc_inv a"
    and L: "ledger (free_ids a) (reserved a) (total_blocks a) (held_of h) (owed_of h) (add_mset p M)"
    and S: "mset fs + image_mset (slot_of h) (add_mset p M) = mset_set {0..<mb}"
    using A by (simp_all add: accounts_def)
  have same: "image_mset ((slot_of h)(p := slot r)) M = image_mset (slot_of h) M"
    using p by (intro image_mset_cong) auto
  have o: "0 < owed_of h p" using p pos by simp
  show ?thesis
    by (rule wp_mono[OF pool.ledger_materialize[OF inv L o p(1)]])
      (use p S same in \<open>auto simp: accounts_def free_blocks_def free_ids_def
         dest: arg_cong[where f = size] split: prod.splits\<close>)
qed

lemma accounts_claim:
  assumes A: "accounts a h fs mb (add_mset p M)" and p: "p \<notin># M" "h p = Some r"
    and n: "1 \<le> free_blocks a - reserved a"
  shows "wp (bindE (Reserve a 1) AllocReserved) (\<lambda>(b, a').
           (\<forall>r'. blocks (block_table r') = blocks (block_table r) @ [b] \<longrightarrow>
              reserved_blocks r' = reserved_blocks r \<longrightarrow> slot r' = slot r \<longrightarrow>
              accounts a' (h(p \<mapsto> r')) fs mb (add_mset p M)) \<and>
           total_blocks a' = total_blocks a \<and>
           free_blocks a' = free_blocks a - 1 \<and> reserved a' = reserved a)"
proof -
  have inv: "alloc_inv a"
    and L: "ledger (free_ids a) (reserved a) (total_blocks a) (held_of h) (owed_of h) (add_mset p M)"
    and S: "mset fs + image_mset (slot_of h) (add_mset p M) = mset_set {0..<mb}"
    using A by (simp_all add: accounts_def)
  have same: "image_mset ((slot_of h)(p := slot r)) M = image_mset (slot_of h) M"
    using p by (intro image_mset_cong) auto
  have upd: "(owed_of h)(p := reserved_blocks r) = owed_of h" using p by auto
  have n': "1 \<le> int (size (free_ids a)) - reserved a" using n by (simp add: free_ids_def free_blocks_def)
  show ?thesis
    by (rule wp_mono[OF pool.ledger_claim[OF inv L n' p(1)]])
      (use p S same upd in \<open>auto simp: accounts_def free_blocks_def free_ids_def
         dest: arg_cong[where f = size] split: prod.splits\<close>)
qed

lemma accounts_release:
  assumes A: "accounts a h fs mb (add_mset p M)" and p: "p \<notin># M" "h p = Some r"
  shows "wp (bindE (foldE FreeBlock (blocks (block_table r)) a) (\<lambda>a'. Unreserve a' (reserved_blocks r)))
           (\<lambda>a'. accounts a' h (fs @ [slot r]) mb M \<and> total_blocks a' = total_blocks a \<and>
              free_blocks a' = free_blocks a + num_blocks (block_table r) \<and>
              reserved a' = reserved a - reserved_blocks r)"
proof -
  have inv: "alloc_inv a"
    and L: "ledger (free_ids a) (reserved a) (total_blocks a) (held_of h) (owed_of h) (add_mset p M)"
    and S: "mset fs + image_mset (slot_of h) (add_mset p M) = mset_set {0..<mb}"
    using A by (simp_all add: accounts_def)
  show ?thesis
    using pool.ledger_leave[OF inv L] p(2)
    by (auto elim!: wp_mono simp: accounts_def S[symmetric] free_blocks_def free_ids_def num_blocks_def
        dest: arg_cong[where f = size])
qed

text \<open>The request that \<open>ReleaseResources\<close> leaves behind.\<close>

definition released :: "Request \<Rightarrow> Request" where
  "released r = r\<lparr>block_table := snd (Release (block_table r)), reserved_blocks := 0, slot := -1\<rparr>"

lemma ReleaseResources_ok:
  assumes A: "accounts (allocator s) (heap s) (free_slots s) mb (add_mset p M)"
    and p: "p \<notin># M" "heap s p = Some r"
  shows "wp (ReleaseResources s p) (\<lambda>s'. \<exists>a.
           s' = s\<lparr>heap := (heap s)(p \<mapsto> released r), allocator := a,
                  free_slots := free_slots s @ [slot r]\<rparr> \<and>
           accounts a (heap s) (free_slots s @ [slot r]) mb M \<and>
           total_blocks a = total_blocks (allocator s) \<and>
           free_blocks a = free_blocks (allocator s) + num_blocks (block_table r) \<and>
           reserved a = reserved (allocator s) - reserved_blocks r)"
proof -
  have slot: "0 \<le> slot r" using accounts_slot[OF A, of p] p by simp
  show ?thesis
    using accounts_release[OF A p] slot p
    by (auto simp: ReleaseResources_def deref_def wp_bindE Let_def set_req_def released_def
        intro!: exI elim!: wp_mono)
qed

text \<open>
  The materialisation loop never runs out of promised blocks as long as the promise covers
  the bound; it appends to the table and touches nothing else of the request.
\<close>

lemma materialize_ok:
  assumes "accounts a h fs mb (add_mset p M)" and "p \<notin># M" and "h p = Some r"
    and "BlocksForTokens bound \<le> num_blocks (block_table r) + reserved_blocks r"
  shows "wp (materialize a r bound) (\<lambda>(a', r').
           accounts a' (h(p \<mapsto> r')) fs mb (add_mset p M) \<and>
           total_blocks a' = total_blocks a \<and>
           r' = r\<lparr>block_table := block_table r', reserved_blocks := reserved_blocks r'\<rparr> \<and>
           num_blocks (block_table r') + reserved_blocks r' =
             num_blocks (block_table r) + reserved_blocks r \<and>
           bound \<le> token_capacity (block_table r') \<and>
           num_blocks (block_table r') \<le> max (num_blocks (block_table r)) (BlocksForTokens bound) \<and>
           (\<exists>bs. blocks (block_table r') = blocks (block_table r) @ bs))"
  using assms
proof (induction "nat (bound - token_capacity (block_table r))" arbitrary: a h r rule: less_induct)
  case less
  show ?case
  proof (cases "token_capacity (block_table r) < bound")
    case False
    have "h(p \<mapsto> r) = h" using less.prems(3) by auto
    with False less.prems show ?thesis by (simp add: materialize.simps[of a r] del: fun_upd_apply)
  next
    case True
    then have lt: "num_blocks (block_table r) < BlocksForTokens bound"
      by (simp add: less_BlocksForTokens_iff token_capacity_eq num_blocks_def)
    with less.prems(4) have pos: "0 < reserved_blocks r" by simp
    let ?r = "\<lambda>b. r\<lparr>block_table := Append (block_table r) b, reserved_blocks := reserved_blocks r - 1\<rparr>"
    have rest: "wp (materialize a' (?r b) bound) (\<lambda>(a'', r').
           accounts a'' (h(p \<mapsto> r')) fs mb (add_mset p M) \<and>
           total_blocks a'' = total_blocks a \<and>
           r' = r\<lparr>block_table := block_table r', reserved_blocks := reserved_blocks r'\<rparr> \<and>
           num_blocks (block_table r') + reserved_blocks r' =
             num_blocks (block_table r) + reserved_blocks r \<and>
           bound \<le> token_capacity (block_table r') \<and>
           num_blocks (block_table r') \<le> max (num_blocks (block_table r)) (BlocksForTokens bound) \<and>
           (\<exists>bs. blocks (block_table r') = blocks (block_table r) @ bs))"
      if "accounts a' (h(p \<mapsto> ?r b)) fs mb (add_mset p M)" "total_blocks a' = total_blocks a" for a' b
      by (rule wp_mono[OF less.hyps[of "?r b" a' "h(p \<mapsto> ?r b)"]])
        (use that less.prems lt True in \<open>auto simp: num_blocks_def kKvBlockSize_def\<close>)
    show ?thesis
      using wp_mono[OF accounts_alloc[OF less.prems(1-3) pos]] True pos rest
      by (auto simp: materialize.simps[of a r] wp_simps elim!: wp_mono)
  qed
qed

section \<open>What holds of a single request\<close>

text \<open>The conditions \<open>ValidateRequest\<close> checks, as a predicate of the options and the pool size.\<close>

definition admissible :: "Scheduler \<Rightarrow> Request \<Rightarrow> bool" where
  "admissible s r \<longleftrightarrow> ValidateRequest s r = Inr ()"

definition waiting_req :: "Scheduler \<Rightarrow> Request \<Rightarrow> bool" where
  "waiting_req s r \<longleftrightarrow>
     state r = kWaiting \<and> admissible s r \<and> output_tokens r = [] \<and> prefill_progress r = 0 \<and>
     blocks (block_table r) = [] \<and> reserved_blocks r = 0 \<and> slot r = -1"

definition prefill_req :: "Scheduler \<Rightarrow> Request \<Rightarrow> bool" where
  "prefill_req s r \<longleftrightarrow>
     state r = kPrefill \<and> admissible s r \<and> output_tokens r = [] \<and>
     0 \<le> prefill_progress r \<and> prefill_progress r < num_prompt_tokens r \<and>
     prefill_progress r \<le> token_capacity (block_table r) \<and>
     num_blocks (block_table r) + reserved_blocks r = ReservationFor s r \<and>
     num_blocks (block_table r) \<le> BlocksForTokens (num_prompt_tokens r)"

definition running_req :: "Scheduler \<Rightarrow> Request \<Rightarrow> bool" where
  "running_req s r \<longleftrightarrow>
     state r = kRunning \<and> admissible s r \<and> prefill_progress r = num_prompt_tokens r \<and>
     0 < num_output_tokens r \<and> num_output_tokens r < max_new_tokens r \<and>
     seq_len r - 1 \<le> token_capacity (block_table r) \<and>
     num_blocks (block_table r) \<le> BlocksForTokens (seq_len r) \<and>
     (admission_policy (options s) = kReserveFull \<longrightarrow>
        num_blocks (block_table r) + reserved_blocks r = ReservationFor s r) \<and>
     (admission_policy (options s) \<noteq> kReserveFull \<longrightarrow> reserved_blocks r = 0)"

text \<open>These predicates read only the options and the pool size of the scheduler.\<close>

lemma ValidateRequest_cong:
  assumes "options s' = options s" and "total_blocks (allocator s') = total_blocks (allocator s)"
  shows "ValidateRequest s' = ValidateRequest s"
  using assms by (simp add: fun_eq_iff ValidateRequest_def watermark_floor_def usable_blocks_def)

lemma req_pred_cong:
  assumes "options s' = options s" and "total_blocks (allocator s') = total_blocks (allocator s)"
  shows "waiting_req s' = waiting_req s" and "prefill_req s' = prefill_req s"
    and "running_req s' = running_req s"
  using ValidateRequest_cong[OF assms] assms(1)
  by (simp_all add: fun_eq_iff waiting_req_def prefill_req_def running_req_def admissible_def
      ReservationFor_def)

lemma req_pred_upd [simp]:
  "waiting_req (s\<lparr>heap := h\<rparr>) = waiting_req s"
  "waiting_req (s\<lparr>waiting := ps\<rparr>) = waiting_req s"
  "waiting_req (s\<lparr>prefill_queue := ps\<rparr>) = waiting_req s"
  "waiting_req (s\<lparr>running := ps\<rparr>) = waiting_req s"
  "waiting_req (s\<lparr>free_slots := fs\<rparr>) = waiting_req s"
  "prefill_req (s\<lparr>heap := h\<rparr>) = prefill_req s"
  "prefill_req (s\<lparr>waiting := ps\<rparr>) = prefill_req s"
  "prefill_req (s\<lparr>prefill_queue := ps\<rparr>) = prefill_req s"
  "prefill_req (s\<lparr>running := ps\<rparr>) = prefill_req s"
  "prefill_req (s\<lparr>free_slots := fs\<rparr>) = prefill_req s"
  "running_req (s\<lparr>heap := h\<rparr>) = running_req s"
  "running_req (s\<lparr>waiting := ps\<rparr>) = running_req s"
  "running_req (s\<lparr>prefill_queue := ps\<rparr>) = running_req s"
  "running_req (s\<lparr>running := ps\<rparr>) = running_req s"
  "running_req (s\<lparr>free_slots := fs\<rparr>) = running_req s"
  "total_blocks a = total_blocks (allocator s) \<Longrightarrow> waiting_req (s\<lparr>allocator := a\<rparr>) = waiting_req s"
  "total_blocks a = total_blocks (allocator s) \<Longrightarrow> prefill_req (s\<lparr>allocator := a\<rparr>) = prefill_req s"
  "total_blocks a = total_blocks (allocator s) \<Longrightarrow> running_req (s\<lparr>allocator := a\<rparr>) = running_req s"
  by (rule req_pred_cong; simp)+

lemma admissible_bounds:
  assumes "admissible s r"
  shows "0 < num_prompt_tokens r" and "0 < max_new_tokens r"
    and "num_prompt_tokens r + max_new_tokens r \<le> max_seq_len (options s)"
  using assms
  by (auto simp: admissible_def ValidateRequest_def Let_def num_prompt_tokens_def bindE_Inr_iff)

lemma admissible_cong:
  assumes "prompt_tokens r' = prompt_tokens r" and "max_new_tokens r' = max_new_tokens r"
  shows "admissible s r' \<longleftrightarrow> admissible s r"
  using assms by (simp add: admissible_def ValidateRequest_def num_prompt_tokens_def)

lemma ReservationFor_ge_prompt:
  "0 < max_new_tokens r \<Longrightarrow> BlocksForTokens (num_prompt_tokens r) \<le> ReservationFor s r"
  by (simp add: ReservationFor_def BlocksForTokens_mono)

lemma ReservationFor_nonneg: "admissible s r \<Longrightarrow> 0 \<le> ReservationFor s r"
  using admissible_bounds[of s r] by (simp add: ReservationFor_def BlocksForTokens_nonneg)

section \<open>The invariant\<close>

definition options_ok :: "SchedulerOptions \<Rightarrow> bool" where
  "options_ok opts \<longleftrightarrow>
     1 \<le> max_batch opts \<and> 1 \<le> prefill_chunk_tokens opts \<and> 2 \<le> max_seq_len opts \<and>
     0 \<le> watermark_free_fraction opts \<and> watermark_free_fraction opts < 1"

definition all_reqs :: "(ptr \<Rightarrow> Request option) \<Rightarrow> ptr list \<Rightarrow> (Request \<Rightarrow> bool) \<Rightarrow> bool" where
  "all_reqs h ps P \<longleftrightarrow> (\<forall>p\<in>set ps. \<exists>r. h p = Some r \<and> P r)"

definition admitted :: "Scheduler \<Rightarrow> ptr multiset" where
  "admitted s = mset (prefill_queue s) + mset (running s)"

definition sched_inv :: "Scheduler \<Rightarrow> bool" where
  "sched_inv s \<longleftrightarrow>
     options_ok (options s) \<and>
     accounts (allocator s) (heap s) (free_slots s) (max_batch (options s)) (admitted s) \<and>
     distinct (waiting s @ prefill_queue s @ running s) \<and>
     all_reqs (heap s) (waiting s) (waiting_req s) \<and>
     all_reqs (heap s) (prefill_queue s) (prefill_req s) \<and>
     all_reqs (heap s) (running s) (running_req s)"

lemma all_reqs_simps [simp]:
  "all_reqs h [] P"
  "all_reqs h (p # ps) P \<longleftrightarrow> (\<exists>r. h p = Some r \<and> P r) \<and> all_reqs h ps P"
  "all_reqs h (ps @ qs) P \<longleftrightarrow> all_reqs h ps P \<and> all_reqs h qs P"
  by (auto simp: all_reqs_def)

lemma all_reqs_upd_notin [simp]: "p \<notin> set ps \<Longrightarrow> all_reqs (h(p := x)) ps P \<longleftrightarrow> all_reqs h ps P"
  by (auto simp: all_reqs_def)

lemma all_reqs_upd: "all_reqs h ps P \<Longrightarrow> P r \<Longrightarrow> all_reqs (h(p \<mapsto> r)) ps P"
  by (auto simp: all_reqs_def)

lemma all_reqs_subset: "all_reqs h ps P \<Longrightarrow> set qs \<subseteq> set ps \<Longrightarrow> all_reqs h qs P"
  by (auto simp: all_reqs_def)

lemma all_reqsD: "all_reqs h ps P \<Longrightarrow> p \<in> set ps \<Longrightarrow> \<exists>r. h p = Some r \<and> P r"
  by (auto simp: all_reqs_def)

lemma sched_invD:
  assumes "sched_inv s"
  shows "options_ok (options s)"
    and "accounts (allocator s) (heap s) (free_slots s) (max_batch (options s)) (admitted s)"
    and "distinct (waiting s @ prefill_queue s @ running s)"
    and "all_reqs (heap s) (waiting s) (waiting_req s)"
    and "all_reqs (heap s) (prefill_queue s) (prefill_req s)"
    and "all_reqs (heap s) (running s) (running_req s)"
  using assms by (simp_all add: sched_inv_def)

lemma sched_inv_alloc: "sched_inv s \<Longrightarrow> alloc_inv (allocator s)"
  by (simp add: sched_inv_def accounts_def)

lemma sched_inv_num_running:
  assumes "sched_inv s"
  shows "num_running s + int (length (free_slots s)) = max_batch (options s)"
  using accounts_size[OF sched_invD(2)[OF assms]] sched_invD(1)[OF assms]
  by (simp add: num_running_def admitted_def options_ok_def)

lemma running_req_owns:
  assumes "running_req s r"
  shows "1 \<le> num_blocks (block_table r)"
proof -
  have "1 \<le> seq_len r - 1"
    using assms admissible_bounds(1)[of s r] by (simp add: running_req_def seq_len_def)
  also have "\<dots> \<le> num_blocks (block_table r) * 16"
    using assms by (simp add: running_req_def token_capacity_def kKvBlockSize_def)
  finally show ?thesis by simp
qed

lemma running_req_reserved: "running_req s r \<Longrightarrow> 0 \<le> reserved_blocks r"
proof -
  assume R: "running_req s r"
  have "seq_len r \<le> num_prompt_tokens r + max_new_tokens r"
    using R by (simp add: running_req_def seq_len_def)
  then have "BlocksForTokens (seq_len r) \<le> BlocksForTokens (num_prompt_tokens r + max_new_tokens r)"
    by (rule BlocksForTokens_mono)
  with R show "0 \<le> reserved_blocks r"
    by (cases "admission_policy (options s)") (auto simp: running_req_def ReservationFor_def)
qed

section \<open>Construction and arrival\<close>

lemma new_Scheduler_ok:
  assumes "options_ok opts" and "alloc_inv a" and "reserved a = 0" and "set (free_list a) = {1..<total_blocks a}"
  shows "wp (new_Scheduler a opts h) (\<lambda>s. sched_inv s \<and> options s = opts \<and> allocator s = a \<and>
           heap s = h \<and> waiting s = [] \<and> prefill_queue s = [] \<and> running s = [])"
proof -
  have "distinct (free_list a)" using assms(2) by (simp add: alloc_inv_def)
  then have "mset (free_list a) = mset_set {1..<total_blocks a}"
    using assms(4) by (metis mset_set_set)
  moreover have "mset (rev [0..max_batch opts - 1]) = mset_set {0..<max_batch opts}"
  proof -
    have "{0..<max_batch opts} = set [0..max_batch opts - 1]" by auto
    then show ?thesis using mset_set_set[of "[0..max_batch opts - 1]"] by simp
  qed
  ultimately show ?thesis
    using assms
    by (auto simp: new_Scheduler_def wp_simps options_ok_def sched_inv_def admitted_def accounts_def
        ledger_def free_ids_def)
qed

text \<open>
  A request enters with the default member initialisers of its mutable fields
  (\<open>fresh_req\<close>); \<open>Enqueue\<close> either rejects it and changes nothing, or queues it last.
\<close>

definition fresh_req :: "Request \<Rightarrow> bool" where
  "fresh_req r \<longleftrightarrow>
     state r = kWaiting \<and> output_tokens r = [] \<and> prefill_progress r = 0 \<and>
     blocks (block_table r) = [] \<and> reserved_blocks r = 0 \<and> slot r = -1"

definition queued :: "Scheduler \<Rightarrow> ptr set" where
  "queued s = set (waiting s) \<union> set (prefill_queue s) \<union> set (running s)"

lemma sched_inv_store:
  assumes "sched_inv s" and "p \<notin> queued s"
  shows "sched_inv (s\<lparr>heap := (heap s)(p := x)\<rparr>)"
  using assms
  by (auto simp: sched_inv_def queued_def admitted_def intro: accounts_set_other)

lemma Enqueue_ok:
  assumes "sched_inv s" and "p \<notin> queued s" and "heap s p = Some r" and "fresh_req r"
    and "admissible s r"
  shows "Enqueue s p = Inr (s\<lparr>waiting := waiting s @ [p]\<rparr>)"
    and "sched_inv (s\<lparr>waiting := waiting s @ [p]\<rparr>)"
proof -
  show "Enqueue s p = Inr (s\<lparr>waiting := waiting s @ [p]\<rparr>)"
    using assms by (simp add: Enqueue_def deref_def fresh_req_def admissible_def assertE_def)
  show "sched_inv (s\<lparr>waiting := waiting s @ [p]\<rparr>)"
    using assms
    by (auto simp: sched_inv_def admitted_def queued_def waiting_req_def[of s r] fresh_req_def)
qed

end
