(* ===== verification/Scheduler_Step.thy ===== *)
theory Scheduler_Step
  imports Scheduler_Inv
begin

text \<open>
  Preservation of the scheduler invariant by admission, planning and completion, each
  with its functional postcondition.

  Planning never touches what a request computes with: \<open>content\<close> is that part of a
  request, and \<open>same_content\<close> says that two stores agree on it for every pointer.
\<close>

section \<open>What planning leaves alone\<close>

definition content ::
  "Request \<Rightarrow> request_id \<times> token_id list \<times> token_id list \<times> int \<times> bool \<times> token_id list \<times> int" where
  "content r = (req_id r, prompt_tokens r, output_tokens r, max_new_tokens r, ignore_eos r,
                forced_tokens r, prefill_progress r)"

definition same_content :: "(ptr \<Rightarrow> Request option) \<Rightarrow> (ptr \<Rightarrow> Request option) \<Rightarrow> bool" where
  "same_content h h' \<longleftrightarrow> (\<forall>p. map_option content (h p) = map_option content (h' p))"

lemma same_content_refl [simp]: "same_content h h"
  by (simp add: same_content_def)

lemma same_content_trans: "same_content h h' \<Longrightarrow> same_content h' h'' \<Longrightarrow> same_content h h''"
  by (simp add: same_content_def)

lemma same_content_upd: "h p = Some r \<Longrightarrow> content r' = content r \<Longrightarrow> same_content h (h(p \<mapsto> r'))"
  by (simp add: same_content_def)

lemma same_contentD:
  "same_content h h' \<Longrightarrow> h p = Some r \<Longrightarrow> \<exists>r'. h' p = Some r' \<and> content r' = content r"
  unfolding same_content_def by (drule spec[of _ p], cases "h' p") auto

lemma content_eqD:
  assumes "content r' = content r"
  shows "num_prompt_tokens r' = num_prompt_tokens r" "num_output_tokens r' = num_output_tokens r"
    "seq_len r' = seq_len r" "max_new_tokens r' = max_new_tokens r"
    "prefill_progress r' = prefill_progress r"
  using assms by (simp_all add: content_def size_defs)

section \<open>Admission\<close>

lemma usable_blocks_nonneg: "0 \<le> usable_blocks a"
  by (simp add: usable_blocks_def)

lemma watermark_floor_nonneg: "options_ok (options s) \<Longrightarrow> 0 \<le> watermark_floor s"
  by (simp add: watermark_floor_def options_ok_def dbl_nonneg usable_blocks_nonneg)

lemma CanAdmit_ok:
  assumes "options_ok (options s)" and "admissible s r"
  shows "wp (CanAdmit s r) (\<lambda>ok. ok \<longrightarrow>
           ReservationFor s r \<le> free_blocks (allocator s) - reserved (allocator s))"
proof (cases "admission_policy (options s)")
  case kReserveFull
  then show ?thesis
    using ReservationFor_nonneg[OF assms(2)]
    by (simp add: CanAdmit_def ReservationFor_def CanReserve_eq free_blocks_def)
next
  case kWatermark
  have "0 \<le> (of_int n :: rat)" if "watermark_floor s \<le> of_int n" for n
    using watermark_floor_nonneg[OF assms(1)] that by (rule order_trans)
  then have "0 \<le> n" if "watermark_floor s \<le> of_int n" for n using that by simp
  from this[of "free_blocks (allocator s) - reserved (allocator s) - BlocksForTokens (num_prompt_tokens r)"]
  show ?thesis using kWatermark by (simp add: CanAdmit_def ReservationFor_def Let_def)
qed

definition admit_req :: "Scheduler \<Rightarrow> Request \<Rightarrow> Request" where
  "admit_req s r = r\<lparr>reserved_blocks := ReservationFor s r, slot := last (free_slots s), state := kPrefill\<rparr>"

lemma admit_req_prefill: "waiting_req s r \<Longrightarrow> prefill_req s (admit_req s r)"
  using admissible_bounds[of s r] admissible_cong[of "admit_req s r" r s]
  by (simp add: waiting_req_def prefill_req_def admit_req_def size_defs ReservationFor_def)

lemma Admit_ok:
  assumes inv: "sched_inv s" and w: "waiting s = p # ps" "heap s p = Some r"
    and fits: "ReservationFor s r \<le> free_blocks (allocator s) - reserved (allocator s)"
    and room: "num_running s < max_batch (options s)"
  shows "wp (Admit s) (\<lambda>s'. sched_inv s' \<and> (\<exists>a. total_blocks a = total_blocks (allocator s) \<and>
           s' = s\<lparr>waiting := ps, prefill_queue := prefill_queue s @ [p], allocator := a,
                  heap := (heap s)(p \<mapsto> admit_req s r), free_slots := butlast (free_slots s)\<rparr>))"
proof -
  have wr: "waiting_req s r" using sched_invD(4)[OF inv] w by simp
  have fs: "free_slots s \<noteq> []" using sched_inv_num_running[OF inv] room by auto
  have fresh: "p \<notin># admitted s" using sched_invD(3)[OF inv] w by (auto simp: admitted_def)
  have n: "0 \<le> ReservationFor s r" using wr by (simp add: ReservationFor_nonneg waiting_req_def)
  have "ReservationFor (s\<lparr>waiting := ps\<rparr>) r = ReservationFor s r" by (simp add: ReservationFor_def)
  note acc = accounts_admit[OF sched_invD(2)[OF inv] n fits fs fresh, of "admit_req s r"]
  show ?thesis
    using acc w fs wr inv admit_req_prefill[OF wr] \<open>ReservationFor (s\<lparr>waiting := ps\<rparr>) r = _\<close>
    by (auto simp: Admit_def deref_def wp_simps Let_def set_req_def admit_req_def waiting_req_def[of s r]
        sched_inv_def admitted_def elim!: wp_mono)
qed

text \<open>
  The admission loop admits a prefix of the waiting queue, in order, and stops only at an
  empty queue, a full batch or a head that does not fit.
\<close>

definition admission_done :: "Scheduler \<Rightarrow> bool" where
  "admission_done s \<longleftrightarrow>
     waiting s = [] \<or> max_batch (options s) \<le> num_running s \<or>
     (\<exists>r. heap s (hd (waiting s)) = Some r \<and> CanAdmit s r = Inr False)"

definition admits :: "Scheduler \<Rightarrow> nat \<Rightarrow> Scheduler \<Rightarrow> bool" where
  "admits s k s' \<longleftrightarrow>
     k \<le> length (waiting s) \<and> waiting s' = drop k (waiting s) \<and>
     prefill_queue s' = prefill_queue s @ take k (waiting s) \<and> running s' = running s \<and>
     options s' = options s \<and> total_blocks (allocator s') = total_blocks (allocator s) \<and>
     same_content (heap s) (heap s') \<and> (\<forall>q. q \<notin> set (take k (waiting s)) \<longrightarrow> heap s' q = heap s q)"

lemma admits_Suc:
  assumes "waiting s = p # ps" and "heap s p = Some r" and "content r' = content r"
    and "admits (s\<lparr>waiting := ps, prefill_queue := prefill_queue s @ [p], allocator := a,
                   heap := (heap s)(p \<mapsto> r'), free_slots := fs\<rparr>) k s'"
    and "total_blocks a = total_blocks (allocator s)"
  shows "admits s (Suc k) s'"
  using assms same_content_trans[OF same_content_upd[of "heap s" p r r']]
  by (auto simp: admits_def)

lemma admit_loop_ok:
  "sched_inv s \<Longrightarrow> wp (admit_loop s) (\<lambda>s'. sched_inv s' \<and> admission_done s' \<and> (\<exists>k. admits s k s'))"
proof (induction "length (waiting s)" arbitrary: s rule: less_induct)
  case less
  show ?case
  proof (cases "waiting s \<noteq> [] \<and> num_running s < max_batch (options s)")
    case False
    have "admits s 0 s" by (simp add: admits_def)
    with False less.prems show ?thesis
      by (auto simp: admit_loop.simps[of s] admission_done_def)
  next
    case True
    then obtain p ps where w: "waiting s = p # ps" by (auto simp: neq_Nil_conv)
    with sched_invD(4)[OF less.prems] obtain r where r: "heap s p = Some r" "waiting_req s r" by auto
    have adm: "admissible s r" using r by (simp add: waiting_req_def)
    from CanAdmit_ok[OF sched_invD(1)[OF less.prems] adm] obtain ok where
      ok: "CanAdmit s r = Inr ok"
        "ok \<longrightarrow> ReservationFor s r \<le> free_blocks (allocator s) - reserved (allocator s)"
      by (auto simp: wp_iff)
    show ?thesis
    proof (cases ok)
      case False
      have "admits s 0 s" by (simp add: admits_def)
      with False True ok r w less.prems show ?thesis
        by (auto simp: admit_loop.simps[of s] deref_def admission_done_def)
    next
      case [simp]: True
      have rest: "wp (admit_loop s1) (\<lambda>s'. sched_inv s' \<and> admission_done s' \<and> (\<exists>k. admits s k s'))"
        if "sched_inv s1" and a: "total_blocks a = total_blocks (allocator s)"
          and s1: "s1 = s\<lparr>waiting := ps, prefill_queue := prefill_queue s @ [p], allocator := a,
            heap := (heap s)(p \<mapsto> admit_req s r), free_slots := butlast (free_slots s)\<rparr>" for s1 a
      proof (rule wp_mono[OF less.hyps[of s1]])
        show "length (waiting s1) < length (waiting s)" using w by (simp add: s1)
        have "content (admit_req s r) = content r" by (simp add: content_def admit_req_def)
        from admits_Suc[OF w r(1) this _ a, of "butlast (free_slots s)", folded s1]
        show "sched_inv s' \<and> admission_done s' \<and> (\<exists>k. admits s k s')"
          if "sched_inv s' \<and> admission_done s' \<and> (\<exists>k. admits s1 k s')" for s'
          using that by auto
      qed (rule that)
      show ?thesis
        using Admit_ok[OF less.prems w r(1)] ok True \<open>waiting s \<noteq> [] \<and> _\<close> r w rest
        by (auto simp: admit_loop.simps[of s] deref_def wp_simps elim!: wp_mono)
    qed
  qed
qed

section \<open>Aborting the youngest running request\<close>

definition abort_req :: "Request \<Rightarrow> Request" where
  "abort_req r = released (r\<lparr>state := kFinished, finish_reason := kAborted\<rparr>)"

definition is_aborted :: "Request \<Rightarrow> bool" where
  "is_aborted r \<longleftrightarrow> state r = kFinished \<and> finish_reason r = kAborted"

lemma abort_req_simps [simp]: "is_aborted (abort_req r)" "content (abort_req r) = content r"
  by (simp_all add: is_aborted_def abort_req_def released_def content_def)

lemma sched_inv_leave:
  assumes inv: "sched_inv s" and run: "running s = ps @ v # qs"
    and acc: "accounts a (heap s) fs (max_batch (options s)) (admitted s - {#v#})"
    and a: "total_blocks a = total_blocks (allocator s)"
  shows "sched_inv (s\<lparr>running := ps @ qs, allocator := a, heap := (heap s)(v := x), free_slots := fs\<rparr>)"
proof -
  have d: "distinct (waiting s @ prefill_queue s @ ps @ v # qs)"
    using sched_invD(3)[OF inv] run by simp
  have adm: "admitted s - {#v#} = mset (prefill_queue s) + mset (ps @ qs)"
    by (simp add: admitted_def run)
  have "v \<notin># admitted s - {#v#}" using d by (simp add: adm)
  with acc have "accounts a ((heap s)(v := x)) fs (max_batch (options s)) (admitted s - {#v#})"
    by (rule accounts_set_other)
  with d inv a show ?thesis by (auto simp: sched_inv_def run adm[symmetric] admitted_def)
qed

lemma AbortYoungestRunning_ok:
  assumes inv: "sched_inv s" and run: "running s = ps @ [v]" and v: "heap s v = Some r"
  shows "wp (AbortYoungestRunning s plan) (\<lambda>(s', plan'). sched_inv s' \<and>
           plan' = plan\<lparr>aborted := aborted plan @ [v]\<rparr> \<and>
           (\<exists>a. total_blocks a = total_blocks (allocator s) \<and>
              1 + (free_blocks (allocator s) - reserved (allocator s)) \<le> free_blocks a - reserved a \<and>
              s' = s\<lparr>running := ps, allocator := a, heap := (heap s)(v \<mapsto> abort_req r),
                     free_slots := free_slots s @ [slot r]\<rparr>))"
proof -
  let ?r = "r\<lparr>state := kFinished, finish_reason := kAborted\<rparr>"
  let ?s = "set_req (s\<lparr>running := ps\<rparr>) v ?r"
  let ?M = "admitted s - {#v#}"
  have rr: "running_req s r" using sched_invD(6)[OF inv] v by (simp add: run)
  have adm: "admitted s = add_mset v ?M" by (simp add: admitted_def run)
  have notin: "v \<notin># ?M" using sched_invD(3)[OF inv] by (simp add: admitted_def run)
  have acc: "accounts (allocator ?s) (heap ?s) (free_slots ?s) (max_batch (options s)) (add_mset v ?M)"
    using accounts_set_same[OF sched_invD(2)[OF inv] v, of ?r] adm by simp
  have rel: "wp (ReleaseResources ?s v) (\<lambda>s'.
      sched_inv s' \<and> (\<exists>a. total_blocks a = total_blocks (allocator s) \<and>
        1 + (free_blocks (allocator s) - reserved (allocator s)) \<le> free_blocks a - reserved a \<and>
        s' = s\<lparr>running := ps, allocator := a, heap := (heap s)(v \<mapsto> abort_req r),
               free_slots := free_slots s @ [slot r]\<rparr>))"
  proof (rule wp_mono[OF ReleaseResources_ok[OF acc notin, of ?r]], simp, elim exE conjE)
    fix s' :: Scheduler and a
    let ?s' = "s\<lparr>running := ps, allocator := a, heap := (heap s)(v \<mapsto> abort_req r),
                free_slots := free_slots s @ [slot r]\<rparr>"
    assume "s' = ?s\<lparr>heap := (heap ?s)(v \<mapsto> released ?r), allocator := a,
                   free_slots := free_slots ?s @ [slot ?r]\<rparr>"
    then have s': "s' = ?s'" by (simp add: set_req_def abort_req_def)
    assume "accounts a (heap ?s) (free_slots ?s @ [slot ?r]) (max_batch (options s)) ?M"
    from accounts_set_other[OF this notin, of "heap s v"]
    have "accounts a (heap s) (free_slots s @ [slot r]) (max_batch (options s)) ?M" by simp
    moreover assume tot: "total_blocks a = total_blocks (allocator ?s)"
    ultimately have "sched_inv s'" using sched_inv_leave[OF inv run, of a] s' by simp
    moreover assume "free_blocks a = free_blocks (allocator ?s) + num_blocks (block_table ?r)"
      and "reserved a = reserved (allocator ?s) - reserved_blocks ?r"
    then have "1 + (free_blocks (allocator s) - reserved (allocator s)) \<le> free_blocks a - reserved a"
      using running_req_owns[OF rr] running_req_reserved[OF rr] by simp
    ultimately show "sched_inv s' \<and> (\<exists>a. total_blocks a = total_blocks (allocator s) \<and>
        1 + (free_blocks (allocator s) - reserved (allocator s)) \<le> free_blocks a - reserved a \<and>
        s' = s\<lparr>running := ps, allocator := a, heap := (heap s)(v \<mapsto> abort_req r),
               free_slots := free_slots s @ [slot r]\<rparr>)"
      using s' tot by (intro conjI exI[of _ a]) simp_all
  qed
  show ?thesis
    using rel v by (auto simp: AbortYoungestRunning_def run deref_def wp_simps Let_def elim!: wp_mono)
qed

section \<open>Planning a decode batch\<close>

text \<open>
  \<open>covered r\<close>: the block table has room for the position fed this step, \<open>seq_len r - 1\<close>.
  \<open>decoding s0 i s plan\<close> is the invariant of the planning loop that started in \<open>s0\<close>: a
  suffix of the running list has been aborted, youngest first, and the first \<open>i\<close>
  survivors are planned and covered.
\<close>

definition covered :: "Request \<Rightarrow> bool" where
  "covered r \<longleftrightarrow> seq_len r \<le> token_capacity (block_table r)"

definition decoding :: "Scheduler \<Rightarrow> nat \<Rightarrow> Scheduler \<Rightarrow> StepPlan \<Rightarrow> bool" where
  "decoding s0 i s plan \<longleftrightarrow>
     sched_inv s \<and> i \<le> length (running s) \<and>
     decode plan = take i (running s) \<and> running s0 = running s @ rev (aborted plan) \<and>
     prefill plan = None \<and>
     all_reqs (heap s) (decode plan) covered \<and> all_reqs (heap s) (aborted plan) is_aborted \<and>
     same_content (heap s0) (heap s) \<and> (\<forall>q. q \<notin> set (running s0) \<longrightarrow> heap s q = heap s0 q) \<and>
     options s = options s0 \<and> waiting s = waiting s0 \<and> prefill_queue s = prefill_queue s0 \<and>
     total_blocks (allocator s) = total_blocks (allocator s0) \<and>
     (admission_policy (options s0) = kReserveFull \<longrightarrow> aborted plan = [])"

definition grow_req :: "Scheduler \<Rightarrow> Request \<Rightarrow> block_id \<Rightarrow> Request" where
  "grow_req s r b =
     (if admission_policy (options s) = kReserveFull
      then r\<lparr>block_table := Append (block_table r) b, reserved_blocks := reserved_blocks r - 1\<rparr>
      else r\<lparr>block_table := Append (block_table r) b\<rparr>)"

lemma content_grow [simp]: "content (grow_req s r b) = content r"
  by (simp add: grow_req_def content_def)

lemma num_blocks_grow: "num_blocks (block_table (grow_req s r b)) = num_blocks (block_table r) + 1"
  by (simp add: grow_req_def num_blocks_def)

lemma running_req_grow:
  assumes R: "running_req s r" and full: "seq_len r - 1 = token_capacity (block_table r)"
  shows "running_req s (grow_req s r b)" and "covered (grow_req s r b)"
proof -
  let ?r = "grow_req s r b"
  note eq = content_eqD[OF content_grow[of s r b]]
  have cap: "token_capacity (block_table ?r) = token_capacity (block_table r) + 16"
    by (simp add: token_capacity_def num_blocks_grow kKvBlockSize_def)
  have "num_blocks (block_table r) < BlocksForTokens (seq_len r)"
    using full by (simp add: less_BlocksForTokens_iff token_capacity_eq num_blocks_def)
  moreover have "admissible s ?r \<longleftrightarrow> admissible s r"
    by (rule admissible_cong) (simp_all add: grow_req_def)
  moreover have "state ?r = state r" by (simp add: grow_req_def)
  moreover have "ReservationFor s ?r = ReservationFor s r" using eq by (simp add: ReservationFor_def)
  moreover have "admission_policy (options s) = kReserveFull \<longrightarrow> reserved_blocks ?r = reserved_blocks r - 1"
    and "admission_policy (options s) \<noteq> kReserveFull \<longrightarrow> reserved_blocks ?r = reserved_blocks r"
    by (simp_all add: grow_req_def)
  ultimately show "running_req s ?r"
    using R full by (auto simp: running_req_def eq num_blocks_grow cap)
  show "covered ?r" using full by (simp add: covered_def eq cap)
qed

lemma sched_inv_grow:
  assumes inv: "sched_inv s" and p: "p \<in> set (running s)" "heap s p = Some r"
    and full: "seq_len r - 1 = token_capacity (block_table r)"
    and acc: "accounts a ((heap s)(p \<mapsto> grow_req s r b)) (free_slots s) (max_batch (options s)) (admitted s)"
    and a: "total_blocks a = total_blocks (allocator s)"
  shows "sched_inv (s\<lparr>heap := (heap s)(p \<mapsto> grow_req s r b), allocator := a\<rparr>)"
proof -
  have "running_req s r" using all_reqsD[OF sched_invD(6)[OF inv] p(1)] p(2) by auto
  then have "running_req s (grow_req s r b)" using full by (rule running_req_grow)
  then have "all_reqs ((heap s)(p \<mapsto> grow_req s r b)) (running s) (running_req s)"
    using sched_invD(6)[OF inv] by (intro all_reqs_upd)
  moreover have "p \<notin> set (waiting s)" "p \<notin> set (prefill_queue s)"
    using sched_invD(3)[OF inv] p(1) by auto
  ultimately show ?thesis using inv acc a by (simp add: sched_inv_def admitted_def)
qed

lemma decoding_grow:
  assumes D: "decoding s0 i s plan" and i: "i < length (running s)"
    and p: "p = running s ! i" "heap s p = Some r"
    and full: "seq_len r - 1 = token_capacity (block_table r)"
    and acc: "accounts a ((heap s)(p \<mapsto> grow_req s r b)) (free_slots s) (max_batch (options s)) (admitted s)"
    and a: "total_blocks a = total_blocks (allocator s)"
  shows "decoding s0 i (s\<lparr>heap := (heap s)(p \<mapsto> grow_req s r b), allocator := a\<rparr>) plan"
proof -
  have inv: "sched_inv s" using D by (simp add: decoding_def)
  have mem: "p \<in> set (running s)" using i p(1) by simp
  have d: "distinct (running s)" using sched_invD(3)[OF inv] by simp
  then have "p \<notin> set (take i (running s))"
    using i p(1) by (auto simp: in_set_conv_nth nth_eq_iff_index_eq)
  moreover have "p \<notin> set (aborted plan)"
  proof
    assume "p \<in> set (aborted plan)"
    with D obtain r' where "heap s p = Some r'" "is_aborted r'" by (auto simp: decoding_def all_reqs_def)
    moreover have "running_req s r" using all_reqsD[OF sched_invD(6)[OF inv] mem] p(2) by auto
    ultimately show False using p(2) by (simp add: is_aborted_def running_req_def)
  qed
  moreover have "same_content (heap s0) ((heap s)(p \<mapsto> grow_req s r b))"
    using D same_content_upd[of "heap s" p r "grow_req s r b"] p(2)
    by (auto simp: decoding_def intro: same_content_trans)
  ultimately show ?thesis
    using D sched_inv_grow[OF inv mem p(2) full acc a] a mem by (auto simp: decoding_def)
qed

lemma decoding_push:
  assumes D: "decoding s0 i s plan" and i: "i < length (running s)"
    and p: "p = running s ! i" "heap s p = Some r" "covered r"
  shows "decoding s0 (Suc i) s (plan\<lparr>decode := decode plan @ [p]\<rparr>)"
  using assms by (auto simp: decoding_def take_Suc_conv_app_nth)

lemma decoding_abort:
  assumes D: "decoding s0 i s plan" and i: "i < length (running s)"
    and pol: "admission_policy (options s) \<noteq> kReserveFull"
  shows "wp (AbortYoungestRunning s plan) (\<lambda>(s', plan').
           decoding s0 i s' plan' \<and> running s' = butlast (running s) \<and>
           (\<forall>q. q \<noteq> last (running s) \<longrightarrow> heap s' q = heap s q) \<and>
           1 + (free_blocks (allocator s) - reserved (allocator s))
             \<le> free_blocks (allocator s') - reserved (allocator s'))"
proof -
  have inv: "sched_inv s" using D by (simp add: decoding_def)
  from i obtain ps v where run: "running s = ps @ [v]" by (cases "running s" rule: rev_cases) auto
  from all_reqsD[OF sched_invD(6)[OF inv], of v] obtain r where r: "heap s v = Some r" "running_req s r"
    by (auto simp: run)
  have "v \<notin> set ps" using sched_invD(3)[OF inv] by (auto simp: run)
  then have "v \<notin> set (take i ps)" by (auto dest: in_set_takeD)
  then have dec: "all_reqs ((heap s)(v \<mapsto> abort_req r)) (take i ps) covered"
    using D i by (auto simp: decoding_def run)
  have ab: "all_reqs ((heap s)(v \<mapsto> abort_req r)) (aborted plan @ [v]) is_aborted"
    using D by (auto simp: decoding_def intro: all_reqs_upd)
  have same: "same_content (heap s0) ((heap s)(v \<mapsto> abort_req r))"
    using D same_content_upd[of "heap s" v r "abort_req r"] r(1)
    by (auto simp: decoding_def intro: same_content_trans)
  show ?thesis
    by (rule wp_mono[OF AbortYoungestRunning_ok[OF inv run r(1)]])
      (use D i pol dec ab same in \<open>auto simp: decoding_def run\<close>)
qed

text \<open>
  The retry loop aborts at most one request: a running request owns a block, so one abort
  makes one block available. If the victim is not \<open>p\<close> itself, \<open>p\<close> keeps its index.
\<close>

lemma abort_loop_fits:
  "1 \<le> free_blocks (allocator s) - reserved (allocator s) \<Longrightarrow> abort_loop s plan p = Inr (True, s, plan)"
  by (simp add: abort_loop.simps[of s plan p] CanReserve_eq free_blocks_def)

lemma abort_loop_ok:
  assumes D: "decoding s0 i s plan" and i: "i < length (running s)" and p: "p = running s ! i"
    and pol: "admission_policy (options s) \<noteq> kReserveFull"
  shows "wp (abort_loop s plan p) (\<lambda>(ok, s', plan').
           decoding s0 i s' plan' \<and> running s' \<in> {running s, butlast (running s)} \<and>
           (ok \<longrightarrow> i < length (running s') \<and> running s' ! i = p \<and> heap s' p = heap s p \<and>
              1 \<le> free_blocks (allocator s') - reserved (allocator s')))"
proof (cases "1 \<le> free_blocks (allocator s) - reserved (allocator s)")
  case True
  with D i p show ?thesis by (simp add: abort_loop_fits)
next
  case False
  have "alloc_inv (allocator s)" using D by (simp add: decoding_def sched_inv_alloc)
  then have nn: "0 \<le> free_blocks (allocator s) - reserved (allocator s)"
    by (simp add: alloc_inv_def free_blocks_def)
  have no: "CanReserve (allocator s) 1 = Inr False"
    using False by (simp add: CanReserve_eq free_blocks_def)
  have ne: "running s \<noteq> []" using i by auto
  have idx: "i < length (butlast (running s)) \<and> butlast (running s) ! i = p" if "last (running s) \<noteq> p"
  proof -
    have "i \<noteq> length (running s) - 1" using that p ne by (auto simp: last_conv_nth)
    with i p show ?thesis by (simp add: nth_butlast)
  qed
  show ?thesis
    using decoding_abort[OF D i pol] nn idx ne no
    by (auto simp: abort_loop.simps[of s plan p] wp_simps abort_loop_fits elim!: wp_mono)
qed

lemma admitted_member:
  assumes "sched_inv s" and "p \<in> set (prefill_queue s) \<or> p \<in> set (running s)"
  shows "admitted s = add_mset p (admitted s - {#p#})" and "p \<notin># admitted s - {#p#}"
proof -
  show "admitted s = add_mset p (admitted s - {#p#})" using assms(2) by (auto simp: admitted_def)
  have "distinct (prefill_queue s @ running s)" using sched_invD(3)[OF assms(1)] by simp
  then have "count (mset (prefill_queue s @ running s)) p \<le> 1" by (metis distinct_mset_sub)
  then show "p \<notin># admitted s - {#p#}"
    by (simp add: admitted_def not_in_iff)
qed

lemma running_req_promise:
  assumes R: "running_req s r" and full: "seq_len r - 1 = token_capacity (block_table r)"
    and pol: "admission_policy (options s) = kReserveFull"
  shows "0 < reserved_blocks r"
proof -
  have "num_blocks (block_table r) < BlocksForTokens (num_prompt_tokens r + max_new_tokens r)"
    using R full by (simp add: less_BlocksForTokens_iff token_capacity_eq num_blocks_def running_req_def seq_len_def)
  with R pol show ?thesis by (simp add: running_req_def ReservationFor_def)
qed

text \<open>Both ways of taking a block for decode growth keep the loop invariant and cover \<open>p\<close>.\<close>

lemma decoding_take_block:
  assumes D: "decoding s0 i s plan" and i: "i < length (running s)" and p: "p = running s ! i"
    and r: "heap s p = Some r" and full: "seq_len r - 1 = token_capacity (block_table r)"
    and get: "wp get (\<lambda>(b, a).
      (\<forall>r'. blocks (block_table r') = blocks (block_table r) @ [b] \<longrightarrow>
         reserved_blocks r' = reserved_blocks (grow_req s r b) \<longrightarrow> slot r' = slot r \<longrightarrow>
         accounts a ((heap s)(p \<mapsto> r')) (free_slots s) (max_batch (options s)) (admitted s)) \<and>
      total_blocks a = total_blocks (allocator s))"
  shows "wp get (\<lambda>(b, a).
           decoding s0 i (s\<lparr>heap := (heap s)(p \<mapsto> grow_req s r b), allocator := a\<rparr>) plan \<and>
           covered (grow_req s r b))"
proof (rule wp_mono[OF get], clarify)
  fix b a
  have inv: "sched_inv s" using D by (simp add: decoding_def)
  have "p \<in> set (running s)" using i p by simp
  with all_reqsD[OF sched_invD(6)[OF inv], of p] r have "running_req s r" by auto
  note cov = running_req_grow(2)[OF this full]
  assume a: "total_blocks a = total_blocks (allocator s)"
    and "\<forall>r'. blocks (block_table r') = blocks (block_table r) @ [b] \<longrightarrow>
         reserved_blocks r' = reserved_blocks (grow_req s r b) \<longrightarrow> slot r' = slot r \<longrightarrow>
         accounts a ((heap s)(p \<mapsto> r')) (free_slots s) (max_batch (options s)) (admitted s)"
  then have "accounts a ((heap s)(p \<mapsto> grow_req s r b)) (free_slots s) (max_batch (options s)) (admitted s)"
    by (simp add: grow_req_def)
  from decoding_grow[OF D i p r full this a] cov
  show "decoding s0 i (s\<lparr>heap := (heap s)(p \<mapsto> grow_req s r b), allocator := a\<rparr>) plan \<and>
      covered (grow_req s r b)" by simp
qed

lemma EnsureDecodeBlockCapacity_ok:
  assumes D: "decoding s0 i s plan" and i: "i < length (running s)" and p: "p = running s ! i"
    and r: "heap s p = Some r" and full: "seq_len r - 1 = token_capacity (block_table r)"
  shows "wp (EnsureDecodeBlockCapacity s p plan) (\<lambda>(ok, s', plan').
           decoding s0 i s' plan' \<and> running s' \<in> {running s, butlast (running s)} \<and>
           (ok \<longrightarrow> i < length (running s') \<and> running s' ! i = p \<and>
              (\<exists>r'. heap s' p = Some r' \<and> covered r')))"
proof (cases "admission_policy (options s)")
  case kReserveFull
  have inv: "sched_inv s" and mem: "p \<in> set (running s)" using D i p by (simp_all add: decoding_def)
  then have R: "running_req s r" using all_reqsD[OF sched_invD(6), of s p] r by auto
  have pos: "0 < reserved_blocks r" using R full kReserveFull by (rule running_req_promise)
  note adm = admitted_member[OF inv disjI2[OF mem]]
  have acc: "accounts (allocator s) (heap s) (free_slots s) (max_batch (options s)) (add_mset p (admitted s - {#p#}))"
    using sched_invD(2)[OF inv] adm(1) by simp
  have "wp (AllocReserved (allocator s)) (\<lambda>(b, a).
      decoding s0 i (s\<lparr>heap := (heap s)(p \<mapsto> grow_req s r b), allocator := a\<rparr>) plan \<and>
      covered (grow_req s r b))"
    by (rule decoding_take_block[OF D i p r full], rule wp_mono[OF accounts_alloc[OF acc adm(2) r pos]])
      (use kReserveFull adm(1) in \<open>auto simp: grow_req_def\<close>)
  then show ?thesis
    using i p r pos kReserveFull
    by (auto simp: EnsureDecodeBlockCapacity_def deref_def wp_simps set_req_def grow_req_def elim!: wp_mono)
next
  case kWatermark
  have claim: "wp (bindE (Reserve (allocator s1) 1) AllocReserved) (\<lambda>(b, a).
      decoding s0 i (s1\<lparr>heap := (heap s1)(p \<mapsto> grow_req s1 r b), allocator := a\<rparr>) plan1 \<and>
      covered (grow_req s1 r b))"
    if D1: "decoding s0 i s1 plan1" and i1: "i < length (running s1)" and p1: "p = running s1 ! i"
      and r1: "heap s1 p = Some r" and n: "1 \<le> free_blocks (allocator s1) - reserved (allocator s1)"
    for s1 plan1
  proof -
    have inv: "sched_inv s1" and mem: "p \<in> set (running s1)" using D1 i1 p1 by (simp_all add: decoding_def)
    have pol: "admission_policy (options s1) = kWatermark"
      using D D1 kWatermark by (simp add: decoding_def)
    note adm = admitted_member[OF inv disjI2[OF mem]]
    have acc: "accounts (allocator s1) (heap s1) (free_slots s1) (max_batch (options s1)) (add_mset p (admitted s1 - {#p#}))"
      using sched_invD(2)[OF inv] adm(1) by simp
    show ?thesis
      by (rule decoding_take_block[OF D1 i1 p1 r1 full], rule wp_mono[OF accounts_claim[OF acc adm(2) r1 n]])
        (use pol adm(1) in \<open>auto simp: grow_req_def\<close>)
  qed
  have rest: "wp (bindE (Reserve (allocator s1) 1) (\<lambda>a1. bindE (AllocReserved a1) (\<lambda>(b, a2).
        bindE (deref s1 p) (\<lambda>r. Inr (True,
          (set_req s1 p (r\<lparr>block_table := Append (block_table r) b\<rparr>))\<lparr>allocator := a2\<rparr>, plan1)))))
      (\<lambda>(ok, s', plan'). decoding s0 i s' plan' \<and> running s' \<in> {running s, butlast (running s)} \<and>
         (ok \<longrightarrow> i < length (running s') \<and> running s' ! i = p \<and>
            (\<exists>r'. heap s' p = Some r' \<and> covered r')))"
    if D1: "decoding s0 i s1 plan1" and run: "running s1 \<in> {running s, butlast (running s)}"
      and i1: "i < length (running s1)" and p1: "running s1 ! i = p" and h1: "heap s1 p = heap s p"
      and n: "1 \<le> free_blocks (allocator s1) - reserved (allocator s1)" for s1 plan1
  proof -
    have r1: "heap s1 p = Some r" using h1 r by simp
    have "options s1 = options s" using D D1 by (simp add: decoding_def)
    then have g: "grow_req s1 r b = r\<lparr>block_table := Append (block_table r) b\<rparr>" for b
      using kWatermark by (simp add: grow_req_def)
    show ?thesis
      using claim[OF D1 i1 p1[symmetric] r1 n] run i1 p1 unfolding g
      by (auto simp: wp_bindE deref_def r1 set_req_def elim!: wp_mono)
  qed
  have loop: "wp (abort_loop s plan p) (\<lambda>(ok, s', plan').
           decoding s0 i s' plan' \<and> running s' \<in> {running s, butlast (running s)} \<and>
           (ok \<longrightarrow> i < length (running s') \<and> running s' ! i = p \<and> heap s' p = heap s p \<and>
              1 \<le> free_blocks (allocator s') - reserved (allocator s')))"
    by (rule abort_loop_ok[OF D i p]) (simp add: kWatermark)
  show ?thesis
    unfolding EnsureDecodeBlockCapacity_def
  proof (simp only: kWatermark AdmissionPolicy.distinct if_False wp_bindE[of "abort_loop s plan p"],
      rule wp_mono[OF loop], clarify, goal_cases)
    case (1 ok s1 plan1)
    then show ?case
      using rest[of s1 plan1] by (cases ok) simp_all
  qed
qed

lemma decoding_running_le:
  assumes "decoding s0 i s plan"
  shows "int (length (running s)) \<le> max_batch (options s)"
  using sched_inv_num_running[of s] assms by (simp add: decoding_def num_running_def)

lemma decode_loop_ok:
  "decoding s0 i s plan \<Longrightarrow>
     wp (decode_loop s plan i) (\<lambda>(s', plan'). decoding s0 (length (running s')) s' plan')"
proof (induction "length (running s) - i" arbitrary: s plan i rule: less_induct)
  case less
  note D = less.prems
  have inv: "sched_inv s" using D by (simp add: decoding_def)
  have len: "length (decode plan) = i" using D by (simp add: decoding_def)
  show ?case
  proof (cases "i < length (running s)")
    case False
    then have "i = length (running s)" using D by (simp add: decoding_def)
    with D False show ?thesis by (simp add: decode_loop.simps[of s])
  next
    case i: True
    then have cap: "int (length (decode plan)) < max_batch (options s)"
      using decoding_running_le[OF D] len by linarith
    define p where "p = running s ! i"
    from all_reqsD[OF sched_invD(6)[OF inv], of p] i obtain r where
      r: "heap s p = Some r" "running_req s r" by (auto simp: p_def)
    have step: "wp (decode_loop s1 (plan1\<lparr>decode := decode plan1 @ [p]\<rparr>) (Suc i))
        (\<lambda>(s', plan'). decoding s0 (length (running s')) s' plan')"
      if "decoding s0 i s1 plan1" "i < length (running s1)" "running s1 ! i = p"
        "heap s1 p = Some r1" "covered r1" "length (running s1) \<le> length (running s)" for s1 plan1 r1
      using that by (intro less.hyps decoding_push) auto
    have skip: "wp (decode_loop s1 plan1 i) (\<lambda>(s', plan'). decoding s0 (length (running s')) s' plan')"
      if "decoding s0 i s1 plan1" "length (running s1) < length (running s)" for s1 plan1
      using that i by (intro less.hyps) auto
    show ?thesis
    proof (cases "seq_len r - 1 \<ge> token_capacity (block_table r)")
      case False
      then have "covered r" by (simp add: covered_def)
      with step[OF D i _ r(1)] False i cap r show ?thesis
        by (simp add: decode_loop.simps[of s] p_def[symmetric] deref_def Let_def)
    next
      case True
      with r(2) have full: "seq_len r - 1 = token_capacity (block_table r)" by (simp add: running_req_def)
      have "wp (EnsureDecodeBlockCapacity s p plan) (\<lambda>(ok, s1, plan1).
          wp (if \<not> ok then decode_loop s1 plan1 i
              else decode_loop s1 (plan1\<lparr>decode := decode plan1 @ [p]\<rparr>) (i + 1))
            (\<lambda>(s', plan'). decoding s0 (length (running s')) s' plan'))"
      proof (rule wp_mono[OF EnsureDecodeBlockCapacity_ok[OF D i p_def r(1) full]], clarify, goal_cases)
        case (1 ok s1 plan1)
        then show ?case
          using step[of s1 plan1] skip[of s1 plan1] EnsureDecodeBlockCapacity_running[OF 1(1)]
          by (cases ok) (auto simp: wp_if)
      qed
      then show ?thesis
        using True full i cap r
        by (simp add: decode_loop.simps[of s] p_def[symmetric] deref_def Let_def wp_simps
            case_prod_beta' split del: if_split)
    qed
  qed
qed

section \<open>Planning a step\<close>

definition plan_ok :: "Scheduler \<Rightarrow> StepPlan \<Rightarrow> bool" where
  "plan_ok s plan \<longleftrightarrow>
     (case prefill plan of
        Some p \<Rightarrow> prefill_queue s \<noteq> [] \<and> hd (prefill_queue s) = p \<and> decode plan = [] \<and> aborted plan = [] \<and>
          (\<exists>r. heap s p = Some r \<and> prefill_begin plan = prefill_progress r \<and>
             prefill_end plan = min (prefill_progress r + prefill_chunk_tokens (options s)) (num_prompt_tokens r) \<and>
             prefill_begin plan < prefill_end plan \<and>
             prefill_end plan \<le> token_capacity (block_table r))
      | None \<Rightarrow> prefill_queue s = [] \<and> decode plan = running s \<and> all_reqs (heap s) (running s) covered \<and>
          all_reqs (heap s) (aborted plan) is_aborted)"

definition planned :: "Scheduler \<Rightarrow> StepPlan \<Rightarrow> Scheduler \<Rightarrow> bool" where
  "planned s0 plan s \<longleftrightarrow>
     options s = options s0 \<and> total_blocks (allocator s) = total_blocks (allocator s0) \<and>
     same_content (heap s0) (heap s) \<and> (\<forall>q. q \<notin> queued s0 \<longrightarrow> heap s q = heap s0 q) \<and>
     (\<exists>ps. waiting s0 = ps @ waiting s \<and> prefill_queue s = prefill_queue s0 @ ps) \<and>
     running s0 = running s @ rev (aborted plan) \<and>
     (admission_policy (options s0) = kReserveFull \<longrightarrow> aborted plan = [])"

lemma planned_admits:
  assumes "admits s0 k s" and "planned s plan s'" and "running s = running s0"
  shows "planned s0 plan s'"
proof -
  from assms(2) obtain ps where "waiting s = ps @ waiting s'" "prefill_queue s' = prefill_queue s @ ps"
    by (auto simp: planned_def)
  moreover have "waiting s0 = take k (waiting s0) @ waiting s"
    "prefill_queue s = prefill_queue s0 @ take k (waiting s0)" using assms(1) by (simp_all add: admits_def)
  ultimately have "waiting s0 = (take k (waiting s0) @ ps) @ waiting s'"
    "prefill_queue s' = prefill_queue s0 @ (take k (waiting s0) @ ps)" by (metis append_assoc)+
  moreover have "queued s \<subseteq> queued s0" and "set (take k (waiting s0)) \<subseteq> queued s0"
    using assms(1) by (auto simp: queued_def admits_def dest: in_set_takeD in_set_dropD)
  then have "\<forall>q. q \<notin> queued s0 \<longrightarrow> heap s' q = heap s0 q"
    using assms(1,2) by (metis (no_types, lifting) admits_def planned_def subsetD)
  ultimately show ?thesis
    using assms by (auto simp: planned_def admits_def intro: same_content_trans)
qed

lemma prefill_req_grow:
  assumes R: "prefill_req s r"
    and r': "r' = r\<lparr>block_table := block_table r', reserved_blocks := reserved_blocks r'\<rparr>"
    and res: "num_blocks (block_table r') + reserved_blocks r' = num_blocks (block_table r) + reserved_blocks r"
    and le: "num_blocks (block_table r') \<le> max (num_blocks (block_table r)) (BlocksForTokens bound)"
    and bound: "prefill_progress r \<le> bound" "bound \<le> num_prompt_tokens r"
      "bound \<le> token_capacity (block_table r')"
  shows "prefill_req s r'"
proof -
  have c: "content r' = content r" "state r' = state r"
    by (subst r', simp add: content_def)+
  note eq = content_eqD[OF c(1)]
  have "admissible s r' \<longleftrightarrow> admissible s r" "ReservationFor s r' = ReservationFor s r"
    "output_tokens r' = output_tokens r"
    using c eq by (auto simp: content_def ReservationFor_def intro!: admissible_cong)
  moreover have "BlocksForTokens bound \<le> BlocksForTokens (num_prompt_tokens r)"
    using bound by (intro BlocksForTokens_mono)
  ultimately show ?thesis
    using R res le bound c(2) by (auto simp: prefill_req_def eq)
qed

lemma sched_inv_prefill_upd:
  assumes inv: "sched_inv s" and p: "p \<in> set (prefill_queue s)" and R: "prefill_req s r"
    and acc: "accounts a ((heap s)(p \<mapsto> r)) (free_slots s) (max_batch (options s)) (admitted s)"
    and a: "total_blocks a = total_blocks (allocator s)"
  shows "sched_inv (s\<lparr>heap := (heap s)(p \<mapsto> r), allocator := a\<rparr>)"
proof -
  have "all_reqs ((heap s)(p \<mapsto> r)) (prefill_queue s) (prefill_req s)"
    using sched_invD(5)[OF inv] R by (rule all_reqs_upd)
  moreover have "p \<notin> set (waiting s)" "p \<notin> set (running s)"
    using sched_invD(3)[OF inv] p by auto
  ultimately show ?thesis using inv acc a by (simp add: sched_inv_def admitted_def)
qed

text \<open>The prefill branch: the promise of the admission covers the chunk.\<close>

lemma plan_prefill_ok:
  assumes inv: "sched_inv s" and q: "prefill_queue s = p # ps" and r: "heap s p = Some r"
    and fin: "fin = min (prefill_progress r + prefill_chunk_tokens (options s)) (num_prompt_tokens r)"
    and plan: "plan = empty_plan\<lparr>prefill := Some p, prefill_begin := prefill_progress r, prefill_end := fin\<rparr>"
  shows "prefill_progress r < fin"
    and "wp (materialize (allocator s) r fin) (\<lambda>(a, r').
           let s' = s\<lparr>heap := (heap s)(p \<mapsto> r'), allocator := a\<rparr>
           in sched_inv s' \<and> plan_ok s' plan \<and> planned s plan s')"
proof -
  have R: "prefill_req s r" using sched_invD(5)[OF inv] r by (simp add: q)
  show lt: "prefill_progress r < fin"
    using R sched_invD(1)[OF inv] by (auto simp: fin prefill_req_def options_ok_def)
  have mem: "p \<in> set (prefill_queue s)" by (simp add: q)
  note adm = admitted_member[OF inv disjI1[OF mem]]
  have acc: "accounts (allocator s) (heap s) (free_slots s) (max_batch (options s)) (add_mset p (admitted s - {#p#}))"
    using sched_invD(2)[OF inv] adm(1) by simp
  have "BlocksForTokens fin \<le> BlocksForTokens (num_prompt_tokens r)" by (rule BlocksForTokens_mono) (simp add: fin)
  also have "\<dots> \<le> ReservationFor s r"
    using R admissible_bounds(2)[of s r] by (intro ReservationFor_ge_prompt) (simp add: prefill_req_def)
  also have "\<dots> = num_blocks (block_table r) + reserved_blocks r" using R by (simp add: prefill_req_def)
  finally have cov: "BlocksForTokens fin \<le> num_blocks (block_table r) + reserved_blocks r" .
  show "wp (materialize (allocator s) r fin) (\<lambda>(a, r').
           let s' = s\<lparr>heap := (heap s)(p \<mapsto> r'), allocator := a\<rparr>
           in sched_inv s' \<and> plan_ok s' plan \<and> planned s plan s')"
  proof (rule wp_mono[OF materialize_ok[OF acc adm(2) r cov]], clarify, goal_cases)
    case (1 a r' bs)
    have c: "content r' = content r" by (subst 1(4), simp add: content_def)
    have R': "prefill_req s r'"
      by (rule prefill_req_grow[OF R 1(4,5,7) _ _ 1(6)]) (use lt in \<open>simp_all add: fin\<close>)
    have "sched_inv (s\<lparr>heap := (heap s)(p \<mapsto> r'), allocator := a\<rparr>)"
      by (rule sched_inv_prefill_upd[OF inv mem R' _ 1(3)]) (use 1(2) adm(1) in simp)
    moreover have "same_content (heap s) ((heap s)(p \<mapsto> r'))" using r c by (rule same_content_upd)
    ultimately show ?case
      using 1 lt c q fin by (auto simp: plan_ok_def planned_def plan empty_plan_def content_eqD[OF c] Let_def
        queued_def)
  qed
qed

lemma decoding_start:
  assumes "sched_inv s" and "prefill_queue s = []"
  shows "decoding s 0 s empty_plan"
  using assms by (simp add: decoding_def empty_plan_def)

lemma decoding_end:
  assumes "decoding s0 (length (running s)) s plan" and "prefill_queue s0 = []"
  shows "sched_inv s \<and> plan_ok s plan \<and> planned s0 plan s"
  using assms by (auto simp: decoding_def plan_ok_def planned_def queued_def)

lemma plan_batch_ok:
  assumes inv: "sched_inv s"
  shows "wp (plan_batch s) (\<lambda>(plan, s'). sched_inv s' \<and> plan_ok s' plan \<and> planned s plan s')"
proof (cases "prefill_queue s")
  case Nil
  have "wp (decode_loop s empty_plan 0) (\<lambda>(s', plan). sched_inv s' \<and> plan_ok s' plan \<and> planned s plan s')"
    by (rule wp_mono[OF decode_loop_ok[OF decoding_start[OF inv Nil]]])
      (use decoding_end[OF _ Nil] in auto)
  then show ?thesis by (auto simp: plan_batch_def Nil wp_bindE elim!: wp_mono)
next
  case (Cons p ps)
  with sched_invD(5)[OF inv] obtain r where r: "heap s p = Some r" "prefill_req s r" by auto
  from plan_prefill_ok[OF inv Cons r(1) refl refl] r(2) show ?thesis
    by (auto simp: plan_batch_def Cons Let_def deref_def r(1) wp_simps prefill_req_def empty_plan_def
        set_req_def elim!: wp_mono)
qed

text \<open>With nothing admitted the whole pool is free, so a validated head is admitted.\<close>

lemma idle_pool:
  assumes "sched_inv s" and "prefill_queue s = []" and "running s = []"
  shows "free_blocks (allocator s) = usable_blocks (allocator s)" and "reserved (allocator s) = 0"
proof -
  have "accounts (allocator s) (heap s) (free_slots s) (max_batch (options s)) {#}"
    using sched_invD(2)[OF assms(1)] assms(2,3) by (simp add: admitted_def)
  then have ids: "free_ids (allocator s) = mset_set {1..<total_blocks (allocator s)}"
    and "reserved (allocator s) = 0" and t: "1 \<le> total_blocks (allocator s)"
    by (simp_all add: accounts_def ledger_def alloc_inv_def)
  show "reserved (allocator s) = 0" by fact
  from arg_cong[OF ids, of size] t show "free_blocks (allocator s) = usable_blocks (allocator s)"
    by (simp add: free_ids_def free_blocks_def usable_blocks_def)
qed

lemma idle_admits:
  assumes inv: "sched_inv s" and idle: "prefill_queue s = []" "running s = []" and adm: "admissible s r"
  shows "CanAdmit s r = Inr True"
proof (cases "admission_policy (options s)")
  case kReserveFull
  have "0 \<le> BlocksForTokens (num_prompt_tokens r + max_new_tokens r)"
    using admissible_bounds[OF adm] by (simp add: BlocksForTokens_nonneg)
  with kReserveFull adm idle_pool[OF inv idle] show ?thesis
    by (auto simp: CanAdmit_def CanReserve_eq admissible_def ValidateRequest_def Let_def bindE_Inr_iff
        free_blocks_def)
next
  case kWatermark
  with adm idle_pool[OF inv idle] show ?thesis
    by (auto simp: CanAdmit_def admissible_def ValidateRequest_def Let_def bindE_Inr_iff)
qed

lemma PlanStep_ok:
  assumes inv: "sched_inv s"
  shows "wp (PlanStep s) (\<lambda>(plan, s'). sched_inv s' \<and> plan_ok s' plan \<and> planned s plan s' \<and>
           (plan_empty plan \<longrightarrow> queued s = {}))"
  unfolding PlanStep_def wp_bindE
proof (rule wp_mono[OF admit_loop_ok[OF inv]], elim conjE exE)
  fix s1 k
  assume inv1: "sched_inv s1" and fin: "admission_done s1" and adm: "admits s k s1"
  have empty: "queued s = {}" if "plan_ok s' plan" "planned s1 plan s'" "plan_empty plan" for plan s'
  proof -
    have pq: "prefill_queue s1 = []" and run: "running s1 = []"
      using that by (auto simp: plan_ok_def planned_def plan_empty_def)
    have "waiting s1 = []"
    proof (rule ccontr)
      assume "waiting s1 \<noteq> []"
      with fin pq run sched_invD(1)[OF inv1] obtain r where
        r: "heap s1 (hd (waiting s1)) = Some r" "CanAdmit s1 r = Inr False"
        by (auto simp: admission_done_def num_running_def options_ok_def)
      with \<open>waiting s1 \<noteq> []\<close> sched_invD(4)[OF inv1] have "admissible s1 r"
        by (auto simp: all_reqs_def waiting_req_def dest!: bspec[of _ _ "hd (waiting s1)"])
      with idle_admits[OF inv1 pq run] r show False by simp
    qed
    with pq run adm show ?thesis by (auto simp: queued_def admits_def)
  qed
  show "wp (plan_batch s1) (\<lambda>(plan, s'). sched_inv s' \<and> plan_ok s' plan \<and> planned s plan s' \<and>
           (plan_empty plan \<longrightarrow> queued s = {}))"
    by (rule wp_mono[OF plan_batch_ok[OF inv1]])
      (use planned_admits[OF adm] adm empty in \<open>auto simp: admits_def\<close>)
qed

end
