(* ===== verification/Scheduler_Complete.thy ===== *)
theory Scheduler_Complete
  imports Scheduler_Step
begin

text \<open>
  Completing a step: the full functional behaviour of \<open>ApplySampledToken\<close> and
  \<open>CompleteStep\<close> and the preservation of the scheduler invariant.

  \<open>token_req\<close> and \<open>token_result\<close> are the specification of one sampled token: the request
  it leaves behind and the emission it produces.
\<close>

section \<open>One sampled token\<close>

definition with_token :: "Request \<Rightarrow> token_id \<Rightarrow> Request" where
  "with_token r t = r\<lparr>output_tokens := output_tokens r @ [appended_token r t]\<rparr>"

definition token_reason :: "SchedulerOptions \<Rightarrow> Request \<Rightarrow> token_id \<Rightarrow> FinishReason" where
  "token_reason opts r t = stop_reason opts (with_token r t) (appended_token r t)"

definition token_req :: "SchedulerOptions \<Rightarrow> Request \<Rightarrow> token_id \<Rightarrow> Request" where
  "token_req opts r t =
     (if token_reason opts r t = kNone then (with_token r t)\<lparr>state := kRunning\<rparr>
      else released ((with_token r t)\<lparr>state := kFinished, finish_reason := token_reason opts r t\<rparr>))"

definition token_result :: "SchedulerOptions \<Rightarrow> Request \<Rightarrow> token_id \<Rightarrow> StepResult" where
  "token_result opts r t =
     \<lparr>request_id = req_id r, token = t, finished = (token_reason opts r t \<noteq> kNone),
      result_reason = token_reason opts r t\<rparr>"

lemma with_token_simps [simp]:
  "state (with_token r t) = state r" "block_table (with_token r t) = block_table r"
  "reserved_blocks (with_token r t) = reserved_blocks r" "slot (with_token r t) = slot r"
  "req_id (with_token r t) = req_id r" "prefill_progress (with_token r t) = prefill_progress r"
  "prompt_tokens (with_token r t) = prompt_tokens r" "max_new_tokens (with_token r t) = max_new_tokens r"
  "num_prompt_tokens (with_token r t) = num_prompt_tokens r"
  "num_output_tokens (with_token r t) = num_output_tokens r + 1"
  "seq_len (with_token r t) = seq_len r + 1"
  "ReservationFor s (with_token r t) = ReservationFor s r"
  by (simp_all add: with_token_def size_defs ReservationFor_def)

lemma admissible_with_token [simp]: "admissible s (with_token r t) \<longleftrightarrow> admissible s r"
  by (rule admissible_cong) simp_all

lemma state_upd_simps [simp]:
  "num_prompt_tokens (r\<lparr>state := st\<rparr>) = num_prompt_tokens r"
  "num_output_tokens (r\<lparr>state := st\<rparr>) = num_output_tokens r"
  "seq_len (r\<lparr>state := st\<rparr>) = seq_len r"
  "ReservationFor s (r\<lparr>state := st\<rparr>) = ReservationFor s r"
  "admissible s (r\<lparr>state := st\<rparr>) = admissible s r"
  "num_prompt_tokens (r\<lparr>prefill_progress := n\<rparr>) = num_prompt_tokens r"
  "num_output_tokens (r\<lparr>prefill_progress := n\<rparr>) = num_output_tokens r"
  "seq_len (r\<lparr>prefill_progress := n\<rparr>) = seq_len r"
  "ReservationFor s (r\<lparr>prefill_progress := n\<rparr>) = ReservationFor s r"
  "admissible s (r\<lparr>prefill_progress := n\<rparr>) = admissible s r"
  by (simp_all add: size_defs ReservationFor_def admissible_def ValidateRequest_def)

lemma token_req_state:
  "state (token_req opts r t) = (if token_reason opts r t = kNone then kRunning else kFinished)"
  by (simp add: token_req_def released_def)

lemma token_reason_continue:
  "token_reason opts r t = kNone \<Longrightarrow> num_output_tokens r + 1 < max_new_tokens r"
  by (auto simp: token_reason_def stop_reason_def split: if_splits)

text \<open>A request that goes on satisfies the running predicate, after a decode row and after a final chunk.\<close>

lemma running_req_token:
  assumes R: "running_req s r" and cov: "covered r" and cont: "token_reason opts r t = kNone"
  shows "running_req s (token_req opts r t)"
proof -
  have "BlocksForTokens (seq_len r) \<le> BlocksForTokens (seq_len r + 1)" by (rule BlocksForTokens_mono) simp
  with R cov cont token_reason_continue[OF cont] show ?thesis
    by (auto simp: running_req_def token_req_def covered_def)
qed

lemma prefill_req_token:
  assumes R: "prefill_req s r" and full: "num_prompt_tokens r \<le> token_capacity (block_table r)"
    and cont: "token_reason opts (r\<lparr>prefill_progress := num_prompt_tokens r\<rparr>) t = kNone"
  shows "running_req s (token_req opts (r\<lparr>prefill_progress := num_prompt_tokens r\<rparr>) t)"
proof -
  let ?r = "r\<lparr>prefill_progress := num_prompt_tokens r\<rparr>"
  have out: "num_output_tokens r = 0" using R by (simp add: prefill_req_def num_output_tokens_def)
  then have len: "seq_len r = num_prompt_tokens r" by (simp add: seq_len_def)
  have "BlocksForTokens (num_prompt_tokens r) \<le> num_blocks (block_table r)"
    using full by (simp add: BlocksForTokens_le_iff token_capacity_eq num_blocks_def)
  moreover have "BlocksForTokens (num_prompt_tokens r) \<le> BlocksForTokens (num_prompt_tokens r + 1)"
    by (rule BlocksForTokens_mono) simp
  moreover have "token_req opts ?r t = (with_token ?r t)\<lparr>state := kRunning\<rparr>"
    using cont by (simp add: token_req_def)
  ultimately show ?thesis
    using R full out len token_reason_continue[OF cont]
    by (auto simp: running_req_def prefill_req_def ReservationFor_def)
qed

section \<open>ApplySampledToken\<close>

lemma finish_ok:
  assumes A: "accounts (allocator s) (heap s) (free_slots s) mb (add_mset p M)" and p: "p \<notin># M"
    and r: "heap s p = Some r" and r': "block_table r' = block_table r"
      "reserved_blocks r' = reserved_blocks r" "slot r' = slot r"
  shows "wp (ReleaseResources (set_req s p r') p) (\<lambda>s'. \<exists>a.
           s' = s\<lparr>heap := (heap s)(p \<mapsto> released r'), allocator := a, free_slots := free_slots s @ [slot r]\<rparr> \<and>
           accounts a (heap s) (free_slots s @ [slot r]) mb M \<and> total_blocks a = total_blocks (allocator s))"
proof -
  have A': "accounts (allocator (set_req s p r')) (heap (set_req s p r')) (free_slots (set_req s p r')) mb (add_mset p M)"
    using accounts_set_same[OF A r, of r'] r' by simp
  have undo: "accounts a (heap s) fs mb M" if "accounts a ((heap s)(p \<mapsto> r')) fs mb M" for a fs
    using accounts_set_other[OF that p, of "heap s p"] by simp
  show ?thesis
  proof (rule wp_mono[OF ReleaseResources_ok[OF A' p, of r']], simp, elim exE conjE, goal_cases)
    case (1 s' a)
    then show ?case by (intro exI[of _ a]) (simp add: set_req_def r'(3) undo)
  qed
qed

lemma ApplySampledToken_decode:
  assumes inv: "sched_inv s" and p: "p \<in> set (running s)" and r: "heap s p = Some r" and cov: "covered r"
  shows "wp (ApplySampledToken s p t) (\<lambda>(res, s').
           res = token_result (options s) r t \<and> sched_inv s' \<and>
           heap s' = (heap s)(p \<mapsto> token_req (options s) r t) \<and>
           running s' = (if token_reason (options s) r t = kNone then running s else remove1 p (running s)) \<and>
           waiting s' = waiting s \<and> prefill_queue s' = prefill_queue s \<and> options s' = options s \<and>
           total_blocks (allocator s') = total_blocks (allocator s))"
proof -
  have R: "running_req s r" using all_reqsD[OF sched_invD(6)[OF inv] p] r by auto
  then have st: "state r = kRunning" by (simp add: running_req_def)
  note unf = ApplySampledToken_def deref_def Let_def with_token_def[symmetric] token_reason_def[symmetric]
  note adm = admitted_member[OF inv disjI2[OF p]]
  have A: "accounts (allocator s) (heap s) (free_slots s) (max_batch (options s)) (add_mset p (admitted s - {#p#}))"
    using sched_invD(2)[OF inv] adm(1) by simp
  have notin: "p \<notin> set (waiting s)" "p \<notin> set (prefill_queue s)" using sched_invD(3)[OF inv] p by auto
  show ?thesis
  proof (cases "token_reason (options s) r t = kNone")
    case cont: True
    have tr: "token_req (options s) r t = with_token r t" using cont st by (simp add: token_req_def)
    have "accounts (allocator s) ((heap s)(p \<mapsto> with_token r t)) (free_slots s) (max_batch (options s)) (admitted s)"
      by (rule accounts_set_same[OF sched_invD(2)[OF inv] r]) simp_all
    moreover have "all_reqs ((heap s)(p \<mapsto> with_token r t)) (running s) (running_req s)"
      using sched_invD(6)[OF inv] running_req_token[OF R cov cont] by (auto simp: tr intro: all_reqs_upd)
    ultimately have "sched_inv (set_req s p (with_token r t))"
      using inv notin by (simp add: sched_inv_def set_req_def admitted_def)
    then show ?thesis
      using cont st r by (simp add: unf wp_simps tr token_result_def)
  next
    case fin: False
    let ?r = "(with_token r t)\<lparr>state := kFinished, finish_reason := token_reason (options s) r t\<rparr>"
    from p obtain ps qs where split: "running s = ps @ p # qs" by (auto simp: in_set_conv_decomp)
    moreover have "distinct (running s)" using sched_invD(3)[OF inv] by simp
    ultimately have rem: "remove1 p (running s) = ps @ qs" by (auto simp: remove1_append)
    have inv': "sched_inv (s\<lparr>heap := (heap s)(p \<mapsto> x), allocator := a, free_slots := fs, running := ps @ qs\<rparr>)"
      if "accounts a (heap s) fs (max_batch (options s)) (admitted s - {#p#})"
        "total_blocks a = total_blocks (allocator s)" for a fs x
      using sched_inv_leave[OF inv split that, of "Some x"] by (rule back_subst) simp
    show ?thesis
      using finish_ok[OF A adm(2) r, of ?r] fin st r p
      by (auto simp: unf wp_simps token_result_def token_req_def rem intro: inv' elim!: wp_mono)
  qed
qed

lemma ApplySampledToken_prefill:
  assumes inv: "sched_inv s" and q: "prefill_queue s = p # qs" and r: "heap s p = Some r"
    and full: "num_prompt_tokens r \<le> token_capacity (block_table r)"
    and r0: "r0 = r\<lparr>prefill_progress := num_prompt_tokens r\<rparr>"
    and s2: "s2 = (set_req s p r0)\<lparr>prefill_queue := qs\<rparr>"
  shows "wp (ApplySampledToken s2 p t) (\<lambda>(res, s').
           res = token_result (options s) r0 t \<and> sched_inv s' \<and>
           heap s' = (heap s)(p \<mapsto> token_req (options s) r0 t) \<and>
           running s' = (if token_reason (options s) r0 t = kNone then running s @ [p] else running s) \<and>
           waiting s' = waiting s \<and> prefill_queue s' = qs \<and> options s' = options s \<and>
           total_blocks (allocator s') = total_blocks (allocator s))"
proof -
  have R: "prefill_req s r" using sched_invD(5)[OF inv] r by (simp add: q)
  then have st: "state r0 = kPrefill" by (simp add: prefill_req_def r0)
  note unf = ApplySampledToken_def deref_def Let_def with_token_def[symmetric] token_reason_def[symmetric]
  have d: "distinct (waiting s @ qs @ running s)"
    "p \<notin> set (waiting s)" "p \<notin> set qs" "p \<notin> set (running s)"
    using sched_invD(3)[OF inv] by (auto simp: q)
  define M where "M = mset qs + mset (running s)"
  have adm: "admitted s = add_mset p M" and notin: "p \<notin># M" using d by (simp_all add: admitted_def q M_def)
  have A: "accounts (allocator s) (heap s) (free_slots s) (max_batch (options s)) (add_mset p M)"
    using sched_invD(2)[OF inv] adm by simp
  have rest: "sched_inv (s\<lparr>prefill_queue := qs, heap := (heap s)(p := x), allocator := a, free_slots := fs\<rparr>)"
    if "accounts a (heap s) fs (max_batch (options s)) M" "total_blocks a = total_blocks (allocator s)"
    for a fs x
    using inv d that accounts_set_other[OF that(1) notin, of x]
    by (simp add: sched_inv_def q admitted_def M_def)
  show ?thesis
  proof (cases "token_reason (options s) r0 t = kNone")
    case cont: True
    have tr: "token_req (options s) r0 t = (with_token r0 t)\<lparr>state := kRunning\<rparr>"
      using cont by (simp add: token_req_def)
    have "running_req s (token_req (options s) r0 t)"
      using prefill_req_token[OF R full] cont by (simp add: r0)
    moreover have "accounts (allocator s) ((heap s)(p \<mapsto> token_req (options s) r0 t)) (free_slots s)
        (max_batch (options s)) (add_mset p M)"
      by (rule accounts_set_same[OF A r]) (simp_all add: tr, simp_all add: r0)
    ultimately have "sched_inv (s\<lparr>prefill_queue := qs,
        heap := (heap s)(p \<mapsto> token_req (options s) r0 t), running := running s @ [p]\<rparr>)"
      using inv d by (simp add: sched_inv_def admitted_def q M_def add_mset_add_single[symmetric])
    then show ?thesis
      using cont st by (simp add: unf wp_simps tr[symmetric] token_result_def set_req_def s2)
  next
    case fin: False
    let ?r = "(with_token r0 t)\<lparr>state := kFinished, finish_reason := token_reason (options s) r0 t\<rparr>"
    have A2: "accounts (allocator s2) (heap s2) (free_slots s2) (max_batch (options s)) (add_mset p M)"
      using accounts_set_same[OF A r, of r0] by (simp add: s2 r0)
    have h2: "heap s2 p = Some r0" by (simp add: s2)
    have undo: "accounts a (heap s) fs (max_batch (options s)) M"
      if "accounts a ((heap s)(p \<mapsto> r0)) fs (max_batch (options s)) M" for a fs
      using accounts_set_other[OF that notin, of "heap s p"] by simp
    have inv': "sched_inv (s2\<lparr>heap := (heap s)(p \<mapsto> x), allocator := a, free_slots := fs\<rparr>)"
      if "accounts a ((heap s)(p \<mapsto> r0)) fs (max_batch (options s)) M"
        "total_blocks a = total_blocks (allocator s)" for a fs x
      using rest[OF undo[OF that(1)] that(2), of "Some x"]
      by (rule back_subst) (simp add: s2 set_req_def)
    have o: "options s2 = options s" by (simp add: s2)
    have "wp (ReleaseResources (set_req s2 p ?r) p) (\<lambda>s'. sched_inv s' \<and>
        heap s' = (heap s)(p \<mapsto> released ?r) \<and> running s' = running s \<and> waiting s' = waiting s \<and>
        prefill_queue s' = qs \<and> options s' = options s \<and>
        total_blocks (allocator s') = total_blocks (allocator s))"
      by (rule wp_mono[OF finish_ok[OF A2 notin h2, of ?r]])
        (use inv' in \<open>auto simp: s2 set_req_def\<close>)
    then show ?thesis
      using fin st by (auto simp: unf h2 o wp_simps token_result_def token_req_def elim!: wp_mono)
  qed
qed

section \<open>CompleteStep\<close>

text \<open>
  \<open>rows_done s ys t\<close>: the rows \<open>ys\<close> (requests with their sampled tokens) of a decode batch
  that started in \<open>s\<close> have been applied and led to \<open>t\<close>.
\<close>

definition is_running :: "(ptr \<Rightarrow> Request option) \<Rightarrow> ptr \<Rightarrow> bool" where
  "is_running h p \<longleftrightarrow> (\<exists>r. h p = Some r \<and> state r = kRunning)"

definition rows_done :: "Scheduler \<Rightarrow> (ptr \<times> token_id) list \<Rightarrow> Scheduler \<Rightarrow> bool" where
  "rows_done s ys t \<longleftrightarrow>
     options t = options s \<and> waiting t = waiting s \<and> prefill_queue t = prefill_queue s \<and>
     total_blocks (allocator t) = total_blocks (allocator s) \<and>
     running t = filter (is_running (heap t)) (running s) \<and>
     (\<forall>q. q \<notin> fst ` set ys \<longrightarrow> heap t q = heap s q) \<and>
     (\<forall>(q, tok) \<in> set ys. \<exists>r. heap s q = Some r \<and> heap t q = Some (token_req (options s) r tok))"

definition row_result :: "Scheduler \<Rightarrow> ptr \<times> token_id \<Rightarrow> StepResult" where
  "row_result s = (\<lambda>(p, t). token_result (options s) (the (heap s p)) t)"

lemma rows_done_step:
  assumes rd: "rows_done s ys t" and new: "p \<notin> fst ` set ys" and r: "heap s p = Some r"
    and mem: "p \<in> set (running t)" and dist: "distinct (running s)"
    and h: "heap t' = (heap t)(p \<mapsto> token_req (options s) r tok)"
    and run: "running t' = (if token_reason (options s) r tok = kNone then running t else remove1 p (running t))"
    and frame: "waiting t' = waiting t" "prefill_queue t' = prefill_queue t" "options t' = options t"
      "total_blocks (allocator t') = total_blocks (allocator t)"
  shows "rows_done s (ys @ [(p, tok)]) t'"
proof -
  have rt: "running t = filter (is_running (heap t)) (running s)" using rd by (simp add: rows_done_def)
  have p: "is_running (heap t) p" using mem rt by auto
  have iff: "is_running (heap t') q \<longleftrightarrow>
      (if q = p then token_reason (options s) r tok = kNone else is_running (heap t) q)" for q
    by (auto simp: is_running_def h token_req_state split: if_splits)
  have "running t' = filter (is_running (heap t')) (running s)"
  proof (cases "token_reason (options s) r tok = kNone")
    case True
    then have "is_running (heap t') = is_running (heap t)" using iff p by (auto simp: fun_eq_iff)
    with True run rt show ?thesis by simp
  next
    case False
    have "remove1 p (running t) = filter (\<lambda>q. q \<noteq> p) (running t)"
      using dist rt by (simp add: distinct_remove1_removeAll removeAll_filter_not_eq eq_commute)
    also have "\<dots> = filter (is_running (heap t')) (running s)"
      unfolding rt filter_filter using False by (intro filter_cong) (auto simp: iff split: if_splits)
    finally show ?thesis using False run by simp
  qed
  moreover have "\<forall>(q, tk) \<in> set ys. \<exists>r. heap s q = Some r \<and> heap t' q = Some (token_req (options s) r tk)"
    using rd new by (force simp: rows_done_def h)
  ultimately show ?thesis using rd r frame h by (auto simp: rows_done_def)
qed

lemma decode_rows_ok:
  assumes inv: "sched_inv s" and cov: "all_reqs (heap s) (running s) covered"
    and rows: "map fst rows = running s"
  shows "wp (foldE apply_row rows (ems, s)) (\<lambda>(ems', s').
           ems' = ems @ map (row_result s) rows \<and> sched_inv s' \<and> rows_done s rows s')"
proof -
  let ?I = "\<lambda>ys. \<lambda>(ems', t). ems' = ems @ map (row_result s) ys \<and> sched_inv t \<and> rows_done s ys t"
  have d: "distinct (running s)" using sched_invD(3)[OF inv] by simp
  have step: "wp (apply_row (ems', t) (p, tok)) (?I (ys @ [(p, tok)]))"
    if split: "rows = ys @ (p, tok) # zs" and I: "?I ys (ems', t)" for ys zs p tok ems' t
  proof -
    have rd: "rows_done s ys t" and inv_t: "sched_inv t" using I by simp_all
    have mem: "p \<in> set (running s)" using rows[symmetric] by (simp add: split)
    have new: "p \<notin> fst ` set ys" using d rows[symmetric] by (auto simp: split)
    from all_reqsD[OF cov mem] obtain r where r: "heap s p = Some r" "covered r" by auto
    from all_reqsD[OF sched_invD(6)[OF inv] mem] r have "state r = kRunning"
      by (auto simp: running_req_def)
    with rd new r mem have t: "heap t p = Some r" "p \<in> set (running t)" "options t = options s"
      by (auto simp: rows_done_def is_running_def)
    show ?thesis
      using ApplySampledToken_decode[OF inv_t t(2,1) r(2), of tok] I
        rows_done_step[OF rd new r(1) t(2) d, where tok = tok]
      by (auto simp: apply_row_def wp_bindE t(3) row_result_def r(1) elim!: wp_mono)
  qed
  have start: "rows_done s [] s"
    using sched_invD(6)[OF inv]
    by (auto simp: rows_done_def is_running_def all_reqs_def running_req_def intro!: filter_True[symmetric])
  show ?thesis
    by (rule wp_foldE[where I = ?I]) (use inv start step in auto)
qed

definition abort_result :: "Scheduler \<Rightarrow> ptr \<Rightarrow> StepResult" where
  "abort_result s p =
     \<lparr>request_id = req_id (the (heap s p)), token = 0, finished = True, result_reason = kAborted\<rparr>"

lemma report_aborts:
  assumes "all_reqs (heap s) ps is_aborted"
  shows "foldE (report_abort s) ps ems = Inr (ems @ map (abort_result s) ps)"
  using assms
  by (induction ps arbitrary: ems)
    (auto simp: report_abort_def deref_def is_aborted_def abort_result_def assertE_def)

text \<open>How many tokens the executor must have sampled for a plan.\<close>

definition wants :: "Scheduler \<Rightarrow> StepPlan \<Rightarrow> nat" where
  "wants s plan =
     (case prefill plan of
        None \<Rightarrow> length (decode plan)
      | Some p \<Rightarrow> if prefill_end plan < num_prompt_tokens (the (heap s p)) then 0 else 1)"

text \<open>The state and the emissions that completing a plan must produce.\<close>

definition completed ::
  "Scheduler \<Rightarrow> StepPlan \<Rightarrow> token_id list \<Rightarrow> StepResult list \<Rightarrow> Scheduler \<Rightarrow> bool" where
  "completed s plan sampled ems s' \<longleftrightarrow>
     options s' = options s \<and> waiting s' = waiting s \<and>
     total_blocks (allocator s') = total_blocks (allocator s) \<and>
     (case prefill plan of
        None \<Rightarrow> ems = map (abort_result s) (aborted plan) @ map (row_result s) (zip (decode plan) sampled) \<and>
          rows_done s (zip (decode plan) sampled) s'
      | Some p \<Rightarrow>
          let r = (the (heap s p))\<lparr>prefill_progress := prefill_end plan\<rparr> in
          if sampled = [] then ems = [] \<and> heap s' = (heap s)(p \<mapsto> r) \<and>
            prefill_queue s' = prefill_queue s \<and> running s' = running s
          else ems = [token_result (options s) r (hd sampled)] \<and>
            heap s' = (heap s)(p \<mapsto> token_req (options s) r (hd sampled)) \<and>
            prefill_queue s' = tl (prefill_queue s) \<and>
            running s' = (if token_reason (options s) r (hd sampled) = kNone
                          then running s @ [p] else running s))"

lemma CompleteStep_decode:
  assumes inv: "sched_inv s" and ok: "plan_ok s plan" and none: "prefill plan = None"
    and len: "length sampled = wants s plan"
  shows "wp (CompleteStep s plan sampled) (\<lambda>(ems, s'). sched_inv s' \<and> completed s plan sampled ems s')"
proof -
  have run: "decode plan = running s" and cov: "all_reqs (heap s) (running s) covered"
    and ab: "all_reqs (heap s) (aborted plan) is_aborted"
    using ok none by (simp_all add: plan_ok_def)
  have l: "length sampled = length (running s)" using len none run by (simp add: wants_def)
  then have "map fst (zip (running s) sampled) = running s" by simp
  note rows = decode_rows_ok[OF inv cov this, of "map (abort_result s) (aborted plan)"]
  show ?thesis
    by (simp add: CompleteStep_def report_aborts[OF ab] none wp_simps run l, rule wp_mono[OF rows])
      (auto simp: completed_def none run rows_done_def)
qed

lemma CompleteStep_prefill:
  assumes inv: "sched_inv s" and ok: "plan_ok s plan" and some: "prefill plan = Some p"
    and len: "length sampled = wants s plan"
  shows "wp (CompleteStep s plan sampled) (\<lambda>(ems, s'). sched_inv s' \<and> completed s plan sampled ems s')"
proof -
  from ok some obtain r qs where q: "prefill_queue s = p # qs" and r: "heap s p = Some r"
    and ab: "aborted plan = []" and b: "prefill_begin plan = prefill_progress r"
    and e: "prefill_end plan = min (prefill_progress r + prefill_chunk_tokens (options s)) (num_prompt_tokens r)"
    and lt: "prefill_begin plan < prefill_end plan" and cap: "prefill_end plan \<le> token_capacity (block_table r)"
    by (auto simp: plan_ok_def neq_Nil_conv)
  have R: "prefill_req s r" using sched_invD(5)[OF inv] r by (simp add: q)
  let ?r = "r\<lparr>prefill_progress := prefill_end plan\<rparr>"
  note unf = CompleteStep_def ab some deref_def r q wp_simps Let_def
  show ?thesis
  proof (cases "prefill_end plan < num_prompt_tokens r")
    case True
    then have "sampled = []" using len by (simp add: wants_def some r)
    have R': "prefill_req s ?r" using R True lt cap b by (auto simp: prefill_req_def)
    have "accounts (allocator s) ((heap s)(p \<mapsto> ?r)) (free_slots s) (max_batch (options s)) (admitted s)"
      by (rule accounts_set_same[OF sched_invD(2)[OF inv] r]) simp_all
    with sched_inv_prefill_upd[OF inv _ R', of p "allocator s"] have "sched_inv (set_req s p ?r)"
      by (simp add: q set_req_def)
    with True \<open>sampled = []\<close> b show ?thesis
      by (simp add: unf prefill_done_def completed_def)
  next
    case False
    then obtain t where t: "sampled = [t]" using len by (auto simp: wants_def some r length_Suc_conv)
    have fin: "prefill_end plan = num_prompt_tokens r" using False e by simp
    show ?thesis
      using ApplySampledToken_prefill[OF inv q r _ refl refl, of t] cap b
      by (auto simp: unf t fin prefill_done_def completed_def elim!: wp_mono)
  qed
qed

lemma CompleteStep_ok:
  assumes "sched_inv s" and "plan_ok s plan" and "length sampled = wants s plan"
  shows "wp (CompleteStep s plan sampled) (\<lambda>(ems, s'). sched_inv s' \<and> completed s plan sampled ems s')"
  using CompleteStep_decode CompleteStep_prefill assms by (cases "prefill plan") blast+

end
