(* ===== verification/Scheduler_Props.thy ===== *)
theory Scheduler_Props
  imports Scheduler_Complete
begin

text \<open>
  The scheduler as a state machine, and what holds of every state it can reach.

  An event is an arrival, a completed step (with the tokens the executor sampled), or a
  step whose execution threw after planning. \<open>exec_event\<close> runs an event with the
  operations of theory \<open>Scheduler\<close>; \<open>legal\<close> is what the caller guarantees: an arriving
  request is freshly initialised and not queued already, and the executor returns as many
  tokens as the plan asks for. Whether an event of a legal run can fail is a theorem.
\<close>

section \<open>Events\<close>

datatype event = Arrive ptr Request | Step "token_id list" | FailedStep

definition run_step ::
  "Scheduler \<Rightarrow> token_id list \<Rightarrow> exn + (StepPlan \<times> StepResult list \<times> Scheduler)" where
  "run_step s toks =
     bindE (PlanStep s) (\<lambda>(plan, s1).
     bindE (CompleteStep s1 plan toks) (\<lambda>(ems, s2). Inr (plan, ems, s2)))"

fun exec_event :: "Scheduler \<Rightarrow> event \<Rightarrow> exn + Scheduler" where
  "exec_event s (Arrive p r) =
     (case Enqueue (set_req s p r) p of
        Inl (InvalidArgument _) \<Rightarrow> Inr s
      | Inl e \<Rightarrow> Inl e
      | Inr s' \<Rightarrow> Inr s')"
| "exec_event s (Step toks) = bindE (run_step s toks) (\<lambda>(_, _, s'). Inr s')"
| "exec_event s FailedStep = bindE (PlanStep s) (\<lambda>(_, s'). Inr s')"

fun legal :: "Scheduler \<Rightarrow> event \<Rightarrow> bool" where
  "legal s (Arrive p r) \<longleftrightarrow> p \<notin> queued s \<and> fresh_req r"
| "legal s (Step toks) \<longleftrightarrow>
     (case PlanStep s of Inl _ \<Rightarrow> True | Inr (plan, s1) \<Rightarrow> length toks = wants s1 plan)"
| "legal s FailedStep \<longleftrightarrow> True"

inductive reachable :: "SchedulerOptions \<Rightarrow> int \<Rightarrow> Scheduler \<Rightarrow> bool" for opts n where
  init: "new_BlockAllocator n = Inr a \<Longrightarrow> new_Scheduler a opts (\<lambda>_. None) = Inr s \<Longrightarrow> reachable opts n s"
| event: "reachable opts n s \<Longrightarrow> legal s ev \<Longrightarrow> exec_event s ev = Inr s' \<Longrightarrow> reachable opts n s'"

inductive_cases reachableE: "reachable opts n s"

text \<open>Running a list of events from a new scheduler, for concrete runs.\<close>

fun run_events :: "Scheduler \<Rightarrow> event list \<Rightarrow> Scheduler option" where
  "run_events s [] = Some s"
| "run_events s (ev # evs) =
     (if legal s ev then case exec_event s ev of Inl _ \<Rightarrow> None | Inr s' \<Rightarrow> run_events s' evs else None)"

definition start :: "SchedulerOptions \<Rightarrow> int \<Rightarrow> Scheduler option" where
  "start opts n =
     (case new_BlockAllocator n of Inl _ \<Rightarrow> None
      | Inr a \<Rightarrow> (case new_Scheduler a opts (\<lambda>_. None) of Inl _ \<Rightarrow> None | Inr s \<Rightarrow> Some s))"

lemma reachable_run_events: "reachable opts n s \<Longrightarrow> run_events s evs = Some s' \<Longrightarrow> reachable opts n s'"
  by (induction s evs rule: run_events.induct)
    (auto split: if_splits sum.splits intro: reachable.event)

lemma reachable_start: "start opts n = Some s \<Longrightarrow> reachable opts n s"
  by (auto simp: start_def split: sum.splits intro: reachable.init)

section \<open>The invariant holds throughout\<close>

lemma exec_Arrive:
  assumes inv: "sched_inv s" and leg: "p \<notin> queued s" "fresh_req r"
  shows "exec_event s (Arrive p r) =
           Inr (if admissible s r then (set_req s p r)\<lparr>waiting := waiting s @ [p]\<rparr> else s)"
    and "sched_inv (if admissible s r then (set_req s p r)\<lparr>waiting := waiting s @ [p]\<rparr> else s)"
proof -
  have inv': "sched_inv (set_req s p r)"
    using sched_inv_store[OF inv leg(1), of "Some r"] by (simp add: set_req_def)
  have q: "p \<notin> queued (set_req s p r)" and h: "heap (set_req s p r) p = Some r"
    using leg(1) by (simp_all add: queued_def)
  have adm: "admissible (set_req s p r) r = admissible s r"
    by (simp add: admissible_def ValidateRequest_cong[of "set_req s p r" s])
  note ok = Enqueue_ok[OF inv' q h leg(2)]
  have rej: "\<exists>m. Enqueue (set_req s p r) p = Inl (InvalidArgument m)" if "\<not> admissible s r"
  proof -
    have "\<exists>m. ValidateRequest s r = Inl (InvalidArgument m)"
      using that by (auto simp: admissible_def ValidateRequest_def Let_def assertE_def split: if_splits)
    then show ?thesis
      using leg(2) h by (auto simp: Enqueue_def deref_def fresh_req_def ValidateRequest_cong[of "set_req s p r" s])
  qed
  show "exec_event s (Arrive p r) =
      Inr (if admissible s r then (set_req s p r)\<lparr>waiting := waiting s @ [p]\<rparr> else s)"
    using ok(1) rej adm by (cases "admissible s r") auto
  show "sched_inv (if admissible s r then (set_req s p r)\<lparr>waiting := waiting s @ [p]\<rparr> else s)"
    using ok(2) adm inv by (cases "admissible s r") auto
qed

lemma run_step_ok:
  assumes inv: "sched_inv s" and leg: "legal s (Step toks)"
  shows "wp (run_step s toks) (\<lambda>(plan, ems, s'). sched_inv s' \<and>
           (\<exists>s1. PlanStep s = Inr (plan, s1) \<and> sched_inv s1 \<and> plan_ok s1 plan \<and> planned s plan s1 \<and>
              (plan_empty plan \<longrightarrow> queued s = {}) \<and> completed s1 plan toks ems s'))"
proof -
  from PlanStep_ok[OF inv] obtain plan s1 where
    p: "PlanStep s = Inr (plan, s1)" "sched_inv s1" "plan_ok s1 plan" "planned s plan s1"
      "plan_empty plan \<longrightarrow> queued s = {}" by (auto elim!: wpE)
  from leg p(1) have "length toks = wants s1 plan" by simp
  from CompleteStep_ok[OF p(2,3) this] p show ?thesis
    by (auto simp: run_step_def wp_bindE elim!: wp_mono)
qed

lemma exec_event_ok:
  assumes inv: "sched_inv s" and leg: "legal s ev"
  shows "wp (exec_event s ev) (\<lambda>s'. sched_inv s' \<and> options s' = options s \<and>
           total_blocks (allocator s') = total_blocks (allocator s))"
proof (cases ev)
  case (Arrive p r)
  with exec_Arrive[OF inv] leg show ?thesis by (auto simp del: exec_event.simps)
next
  case (Step toks)
  then show ?thesis
    using run_step_ok[OF inv, of toks] leg
    by (auto simp: wp_bindE planned_def completed_def elim!: wp_mono)
next
  case FailedStep
  then show ?thesis using PlanStep_ok[OF inv] by (auto simp: wp_bindE planned_def elim!: wp_mono)
qed

lemma reachable_inv:
  "reachable opts n s \<Longrightarrow> sched_inv s \<and> options s = opts \<and> total_blocks (allocator s) = n"
proof (induction rule: reachable.induct)
  case (init a s)
  have n: "1 \<le> n" using init(1) by (auto simp: new_BlockAllocator_def bindE_Inr_iff)
  from new_BlockAllocator_ok[OF n] init(1) have a: "alloc_inv a" "total_blocks a = n" "reserved a = 0"
    "set (free_list a) = {1..<total_blocks a}" by auto
  have "options_ok opts"
    using init(2) by (auto simp: new_Scheduler_def bindE_Inr_iff options_ok_def)
  from new_Scheduler_ok[OF this a(1,3,4), of "\<lambda>_. None"] init(2) a(2) show ?case by auto
next
  case (event s ev s')
  with exec_event_ok[of s ev] show ?case by auto
qed

lemmas reachable_sched_inv = reachable_inv[THEN conjunct1]

section \<open>Every step makes progress\<close>

text \<open>
  The work a request still needs: unprocessed prompt positions plus tokens to generate.
  \<open>work\<close> adds it up over everything that is queued.
\<close>

definition work_req :: "Request \<Rightarrow> int" where
  "work_req r = (num_prompt_tokens r - prefill_progress r) + (max_new_tokens r - num_output_tokens r)"

definition work_of :: "(ptr \<Rightarrow> Request option) \<Rightarrow> ptr \<Rightarrow> int" where
  "work_of h p = (case h p of None \<Rightarrow> 0 | Some r \<Rightarrow> work_req r)"

definition work :: "Scheduler \<Rightarrow> int" where
  "work s = (\<Sum>p\<leftarrow>waiting s @ prefill_queue s @ running s. work_of (heap s) p)"

lemma work_of_Some [simp]: "h p = Some r \<Longrightarrow> work_of h p = work_req r"
  by (simp add: work_of_def)

lemma work_of_upd_notin [simp]: "p \<notin> set ps \<Longrightarrow> map (work_of (h(p := x))) ps = map (work_of h) ps"
  by (auto simp: work_of_def)

lemma work_req_content: "content r' = content r \<Longrightarrow> work_req r' = work_req r"
  by (simp add: work_req_def content_eqD(1,2,4,5)[of r' r])

lemma work_of_same_content:
  assumes "same_content h h'"
  shows "work_of h' p = work_of h p"
proof -
  have "map_option content (h p) = map_option content (h' p)" using assms by (simp add: same_content_def)
  then show ?thesis by (cases "h p"; cases "h' p") (auto simp: work_of_def intro: work_req_content)
qed

lemma work_req_pos:
  "waiting_req s r \<Longrightarrow> 0 < work_req r" "prefill_req s r \<Longrightarrow> 0 < work_req r"
  "running_req s r \<Longrightarrow> 0 < work_req r"
  using admissible_bounds[of s r]
  by (auto simp: work_req_def waiting_req_def prefill_req_def running_req_def num_output_tokens_def)

lemma work_of_pos:
  assumes inv: "sched_inv s" and p: "p \<in> queued s"
  shows "0 < work_of (heap s) p"
  using p all_reqsD[OF sched_invD(4)[OF inv], of p] all_reqsD[OF sched_invD(5)[OF inv], of p]
    all_reqsD[OF sched_invD(6)[OF inv], of p] work_req_pos[of s]
  by (auto simp: queued_def)

lemma sum_list_ge_length: "(\<And>x. x \<in> set xs \<Longrightarrow> 1 \<le> f x) \<Longrightarrow> int (length xs) \<le> (\<Sum>x\<leftarrow>xs. f x :: int)"
  by (induction xs) fastforce+

lemma work_ge:
  assumes inv: "sched_inv s" and sub: "set ps \<subseteq> queued s"
  shows "int (length ps) \<le> (\<Sum>p\<leftarrow>ps. work_of (heap s) p)"
proof (rule sum_list_ge_length)
  fix p assume "p \<in> set ps"
  with sub have "0 < work_of (heap s) p" by (intro work_of_pos[OF inv]) auto
  then show "1 \<le> work_of (heap s) p" by simp
qed

lemma work_zero:
  assumes inv: "sched_inv s" and z: "work s \<le> 0"
  shows "queued s = {}"
proof -
  have "set (waiting s @ prefill_queue s @ running s) \<subseteq> queued s" by (auto simp: queued_def)
  from work_ge[OF inv this] z have "int (length (waiting s @ prefill_queue s @ running s)) \<le> 0"
    by (simp only: work_def)
  then have "length (waiting s @ prefill_queue s @ running s) = 0" by linarith
  then show ?thesis by (simp add: queued_def)
qed

lemma planned_work:
  assumes inv: "sched_inv s" and pl: "planned s plan s1"
  shows "work s1 + int (length (aborted plan)) \<le> work s"
proof -
  have same: "work_of (heap s1) = work_of (heap s)"
    using pl by (intro ext work_of_same_content) (simp add: planned_def)
  from pl obtain ps where w: "waiting s = ps @ waiting s1" "prefill_queue s1 = prefill_queue s @ ps"
    and run: "running s = running s1 @ rev (aborted plan)" by (auto simp: planned_def)
  have "int (length (aborted plan)) \<le> (\<Sum>q\<leftarrow>rev (aborted plan). work_of (heap s) q)"
    using work_ge[OF inv, of "rev (aborted plan)"] by (auto simp: queued_def run)
  then show ?thesis by (simp add: work_def same w run)
qed

lemma work_token_req:
  "token_reason opts r t = kNone \<Longrightarrow> work_req (token_req opts r t) = work_req r - 1"
  by (simp add: token_req_def work_req_def)

lemma rows_work:
  assumes "\<And>p. p \<in> set ps \<Longrightarrow> is_running h' p \<Longrightarrow> work_of h' p = work_of h p - 1"
    and "\<And>p. p \<in> set ps \<Longrightarrow> 1 \<le> work_of h p"
  shows "(\<Sum>p\<leftarrow>filter (is_running h') ps. work_of h' p) + int (length ps) \<le> (\<Sum>p\<leftarrow>ps. work_of h p)"
  using assms by (induction ps) fastforce+

lemma completed_work:
  assumes inv: "sched_inv s" and ok: "plan_ok s plan" and len: "length toks = wants s plan"
    and c: "completed s plan toks ems s'"
    and ne: "prefill plan \<noteq> None \<or> decode plan \<noteq> []"
  shows "work s' < work s"
proof (cases "prefill plan")
  case None
  with ok ne have run: "decode plan = running s" "running s \<noteq> []" by (auto simp: plan_ok_def)
  have rd: "rows_done s (zip (running s) toks) s'" using c None run by (simp add: completed_def)
  have l: "length toks = length (running s)" using len None run by (simp add: wants_def)
  have d: "distinct (waiting s @ prefill_queue s @ running s)" by (rule sched_invD(3)[OF inv])
  have others: "work_of (heap s') q = work_of (heap s) q" if "q \<notin> set (running s)" for q
    using rd that l by (auto simp: rows_done_def work_of_def dest!: spec[of _ q] set_zip_leftD)
  have row: "work_of (heap s') q = work_of (heap s) q - 1" if "q \<in> set (running s)" "is_running (heap s') q" for q
  proof -
    from that(1) l obtain t where "(q, t) \<in> set (zip (running s) toks)"
      by (metis in_set_impl_in_set_zip1)
    with rd obtain r where r: "heap s q = Some r" "heap s' q = Some (token_req (options s) r t)"
      by (auto simp: rows_done_def)
    with that(2) show ?thesis
      by (auto simp: is_running_def token_req_state work_token_req split: if_splits)
  qed
  have "1 \<le> work_of (heap s) q" if "q \<in> set (running s)" for q
    using work_of_pos[OF inv, of q] that by (simp add: queued_def)
  then have "(\<Sum>p\<leftarrow>running s'. work_of (heap s') p) + int (length (running s)) \<le> (\<Sum>p\<leftarrow>running s. work_of (heap s) p)"
    using rd rows_work[of "running s" "heap s'" "heap s"] row by (simp add: rows_done_def)
  moreover have "map (work_of (heap s')) (waiting s') = map (work_of (heap s)) (waiting s)"
    "map (work_of (heap s')) (prefill_queue s') = map (work_of (heap s)) (prefill_queue s)"
    using rd d by (auto simp: rows_done_def intro!: others)
  moreover have "1 \<le> int (length (running s))" using run(2) by (cases "running s") simp_all
  ultimately have "(\<Sum>p\<leftarrow>running s'. work_of (heap s') p) < (\<Sum>p\<leftarrow>running s. work_of (heap s) p)"
    "map (work_of (heap s')) (waiting s') = map (work_of (heap s)) (waiting s)"
    "map (work_of (heap s')) (prefill_queue s') = map (work_of (heap s)) (prefill_queue s)" by linarith+
  then show ?thesis by (simp add: work_def)
next
  case (Some p)
  with ok obtain r qs where q: "prefill_queue s = p # qs" and r: "heap s p = Some r"
    and lt: "prefill_progress r < prefill_end plan" and le: "prefill_end plan \<le> num_prompt_tokens r"
    by (auto simp: plan_ok_def neq_Nil_conv)
  let ?r = "r\<lparr>prefill_progress := prefill_end plan\<rparr>"
  have d: "p \<notin> set (waiting s)" "p \<notin> set qs" "p \<notin> set (running s)"
    using sched_invD(3)[OF inv] by (auto simp: q)
  have w: "work_req ?r < work_req r" using lt by (simp add: work_req_def)
  have R: "prefill_req s r" using sched_invD(5)[OF inv] r by (simp add: q)
  have pos: "0 < work_req r" using work_req_pos(2)[OF R] .
  show ?thesis
  proof (cases "toks = []")
    case True
    with c Some r q d w show ?thesis by (simp add: work_def completed_def)
  next
    case False
    with c Some r q d w pos show ?thesis
      by (cases "token_reason (options s) ?r (hd toks) = kNone") (simp_all add: work_def completed_def work_token_req Let_def)
  qed
qed

lemma run_step_work:
  assumes inv: "sched_inv s" and leg: "legal s (Step toks)" and q: "queued s \<noteq> {}"
  shows "wp (run_step s toks) (\<lambda>(plan, ems, s'). sched_inv s' \<and> work s' < work s)"
proof (rule wp_mono[OF run_step_ok[OF inv leg]], clarify, goal_cases)
  case (1 plan ems s' s1)
  have len: "length toks = wants s1 plan" using leg 1 by simp
  have w: "work s1 + int (length (aborted plan)) \<le> work s" using planned_work[OF inv] 1 by simp
  show ?case
  proof (cases "prefill plan \<noteq> None \<or> decode plan \<noteq> []")
    case True
    with completed_work[OF _ _ len] 1 w show ?thesis by fastforce
  next
    case False
    with 1 q have "aborted plan \<noteq> []" by (auto simp: plan_empty_def)
    moreover have "work s' = work s1"
      using 1 False by (auto simp: completed_def rows_done_def plan_ok_def work_def fun_eq_iff[symmetric])
    ultimately show ?thesis using w by (simp add: neq_Nil_conv) (use w in auto)
  qed
qed

lemma run_step_idle:
  assumes inv: "sched_inv s" and leg: "legal s (Step toks)" and q: "queued s = {}"
  shows "wp (run_step s toks) (\<lambda>(plan, ems, s'). sched_inv s' \<and> queued s' = {})"
proof (rule wp_mono[OF run_step_ok[OF inv leg]], clarify, goal_cases)
  case (1 plan ems s' s1)
  have e: "waiting s1 = []" "prefill_queue s1 = []" "running s1 = []"
    using q 1 by (auto simp: queued_def planned_def)
  with 1 have "prefill plan = None" "decode plan = []" by (auto simp: plan_ok_def split: option.splits)
  with e 1 show ?case by (simp add: queued_def completed_def rows_done_def)
qed

text \<open>A queued request stays queued or is finished; what has left the queues is not touched again.\<close>

definition finished_at :: "Scheduler \<Rightarrow> ptr \<Rightarrow> bool" where
  "finished_at s p \<longleftrightarrow> (\<exists>r. heap s p = Some r \<and> state r = kFinished)"

lemma completed_finishes:
  assumes inv: "sched_inv s" and ok: "plan_ok s plan" and len: "length toks = wants s plan"
    and c: "completed s plan toks ems s'"
  shows "p \<in> queued s \<Longrightarrow> p \<in> queued s' \<or> finished_at s' p"
    and "p \<notin> queued s \<Longrightarrow> heap s' p = heap s p"
proof -
  show "p \<in> queued s'\<or> finished_at s' p" if p: "p \<in> queued s"
  proof (cases "prefill plan")
    case None
    with ok c have rd: "rows_done s (zip (running s) toks) s'" and w: "waiting s' = waiting s"
      by (simp_all add: completed_def plan_ok_def)
    show ?thesis
    proof (cases "p \<in> set (running s)")
      case True
      have "length toks = length (running s)" using len None ok by (simp add: wants_def plan_ok_def)
      with True obtain t where "(p, t) \<in> set (zip (running s) toks)" by (metis in_set_impl_in_set_zip1)
      with rd obtain r where "heap s' p = Some (token_req (options s) r t)" by (auto simp: rows_done_def)
      with True rd show ?thesis
        by (auto simp: queued_def rows_done_def is_running_def finished_at_def token_req_state split: if_splits)
    next
      case False
      with p rd w show ?thesis by (auto simp: queued_def rows_done_def)
    qed
  next
    case (Some p')
    with c ok p show ?thesis
      by (auto simp: queued_def completed_def plan_ok_def Let_def finished_at_def token_req_state
          neq_Nil_conv split: if_splits)
  qed
  show "heap s' p = heap s p" if p: "p \<notin> queued s"
  proof (cases "prefill plan")
    case None
    with ok c have "rows_done s (zip (running s) toks) s'" by (simp add: completed_def plan_ok_def)
    with p show ?thesis by (auto simp: rows_done_def queued_def dest!: spec[of _ p] set_zip_leftD)
  next
    case (Some p')
    with ok have "p' \<in> queued s" by (auto simp: plan_ok_def queued_def)
    with p have "p \<noteq> p'" by auto
    with Some c show ?thesis by (auto simp: completed_def Let_def split: if_splits)
  qed
qed

lemma planned_finishes:
  assumes "plan_ok s1 plan" and pl: "planned s plan s1"
  shows "p \<in> queued s \<Longrightarrow> p \<in> queued s1 \<or> finished_at s1 p \<and> p \<notin> queued s1"
    and "p \<notin> queued s \<Longrightarrow> p \<notin> queued s1 \<and> heap s1 p = heap s p"
proof -
  from pl obtain ps where w: "waiting s = ps @ waiting s1" "prefill_queue s1 = prefill_queue s @ ps"
    and run: "running s = running s1 @ rev (aborted plan)" by (auto simp: planned_def)
  have ab: "all_reqs (heap s1) (aborted plan) is_aborted"
    using assms(1) by (cases "prefill plan") (auto simp: plan_ok_def)
  show "p \<in> queued s1 \<or> finished_at s1 p \<and> p \<notin> queued s1" if "p \<in> queued s"
    using that ab by (auto simp: queued_def w run all_reqs_def is_aborted_def finished_at_def)
  show "p \<notin> queued s1 \<and> heap s1 p = heap s p" if "p \<notin> queued s"
    using that pl by (auto simp: queued_def w run planned_def)
qed

lemma run_step_finishes:
  assumes inv: "sched_inv s" and leg: "legal s (Step toks)"
  shows "wp (run_step s toks) (\<lambda>(plan, ems, s'). \<forall>p.
           p \<in> queued s \<or> finished_at s p \<longrightarrow> p \<in> queued s' \<or> finished_at s' p)"
proof (rule wp_mono[OF run_step_ok[OF inv leg]], clarify, goal_cases)
  case (1 plan ems s' p s1)
  have len: "length toks = wants s1 plan" using leg 1 by simp
  note c = completed_finishes[OF 1(4,5) len 1(8), of p] and pl = planned_finishes[OF 1(5,6), of p]
  show ?case
  proof (cases "p \<in> queued s1")
    case False
    with 1(9,10) pl have "finished_at s1 p" by (cases "p \<in> queued s") (auto simp: finished_at_def)
    with c(2)[OF False] 1(10) show ?thesis by (auto simp: finished_at_def)
  qed (use c 1 in blast)
qed

section \<open>Draining the queues\<close>

text \<open>\<open>k\<close> steps in a row, with tokens from an arbitrary sampler.\<close>

fun drain ::
  "(Scheduler \<Rightarrow> StepPlan \<Rightarrow> token_id list) \<Rightarrow> nat \<Rightarrow> Scheduler \<Rightarrow> exn + Scheduler" where
  "drain f 0 s = Inr s"
| "drain f (Suc k) s =
     bindE (PlanStep s) (\<lambda>(plan, s1).
     bindE (CompleteStep s1 plan (f s1 plan)) (\<lambda>(ems, s2). drain f k s2))"

lemma drain_ok:
  assumes f: "\<And>s plan. length (f s plan) = wants s plan"
  shows "sched_inv s \<Longrightarrow> work s \<le> int k \<Longrightarrow>
    wp (drain f k s) (\<lambda>s'. queued s' = {} \<and> (\<forall>p. p \<in> queued s \<or> finished_at s p \<longrightarrow> finished_at s' p))"
proof (induction k arbitrary: s)
  case 0
  then have "queued s = {}" by (intro work_zero) simp_all
  then show ?case by simp
next
  case (Suc k)
  obtain plan s1 where p: "PlanStep s = Inr (plan, s1)"
    using PlanStep_ok[OF Suc.prems(1)] by (auto elim: wpE)
  let ?toks = "f s1 plan"
  have leg: "legal s (Step ?toks)" by (simp add: p f)
  have work': "wp (run_step s ?toks) (\<lambda>(plan, ems, s'). sched_inv s' \<and> work s' \<le> int k)"
  proof (cases "queued s = {}")
    case True
    show ?thesis
      by (rule wp_mono[OF run_step_idle[OF Suc.prems(1) leg True]]) (auto simp: queued_def work_def)
  next
    case False
    show ?thesis
      by (rule wp_mono[OF run_step_work[OF Suc.prems(1) leg False]]) (use Suc.prems(2) in auto)
  qed
  from wp_conj[OF work' run_step_finishes[OF Suc.prems(1) leg]] obtain ems s2 where
    s2: "CompleteStep s1 plan ?toks = Inr (ems, s2)" "sched_inv s2" "work s2 \<le> int k"
      "\<forall>p. p \<in> queued s \<or> finished_at s p \<longrightarrow> p \<in> queued s2 \<or> finished_at s2 p"
    by (auto simp: run_step_def p bindE_Inr_iff elim!: wpE)
  show ?case
    by (simp add: p s2(1), rule wp_mono[OF Suc.IH[OF s2(2,3)]]) (use s2(4) in blast)
qed

end
