(* ===== verification/Scheduler_Theorems.thy ===== *)
theory Scheduler_Theorems
  imports Scheduler_Props
begin

text \<open>
  The correctness properties of the scheduler and the block allocator, each stated over the
  operations of the source and the states a scheduler can reach, and each applied to a
  concrete run. The proofs rest on the preservation lemmas of theories \<open>Scheduler_Step\<close>,
  \<open>Scheduler_Complete\<close> and \<open>Scheduler_Props\<close>.
\<close>

section \<open>Concrete runs\<close>

text \<open>
  A pool of \<open>n\<close> blocks, two batch slots, chunks of 16 tokens; three requests arrive. The
  runs below are evaluated to discharge the hypotheses of the properties.
\<close>

definition demo_opts :: "AdmissionPolicy \<Rightarrow> SchedulerOptions" where
  "demo_opts pol =
     \<lparr>max_batch = 2, prefill_chunk_tokens = 16, max_seq_len = 64, admission_policy = pol,
      watermark_free_fraction = 0, eos_token_ids = [2]\<rparr>"

definition demo_req :: "nat \<Rightarrow> nat \<Rightarrow> int \<Rightarrow> Request" where
  "demo_req i n m = new_Request\<lparr>req_id := i, prompt_tokens := replicate n 7, max_new_tokens := m\<rparr>"

definition demo_run :: "AdmissionPolicy \<Rightarrow> int \<Rightarrow> event list \<Rightarrow> Scheduler option" where
  "demo_run pol n evs = (case start (demo_opts pol) n of None \<Rightarrow> None | Some s \<Rightarrow> run_events s evs)"

definition demo_arrivals :: "event list" where
  "demo_arrivals =
     [Arrive 0 (demo_req 1 20 6), Arrive 1 (demo_req 2 16 4), Arrive 2 (demo_req 3 5 3)]"

text \<open>Two requests that fill a pool of two usable blocks and both run.\<close>

definition demo_tight :: "event list" where
  "demo_tight = [Arrive 0 (demo_req 1 16 4), Arrive 1 (demo_req 2 16 4), Step [5], Step [6]]"

definition demo_state :: "AdmissionPolicy \<Rightarrow> int \<Rightarrow> event list \<Rightarrow> Scheduler" where
  "demo_state pol n evs = the (demo_run pol n evs)"

lemma demo_reachable:
  "demo_run pol n evs \<noteq> None \<Longrightarrow> reachable (demo_opts pol) n (demo_state pol n evs)"
  by (auto simp: demo_run_def demo_state_def split: option.splits
      intro: reachable_run_events reachable_start)

lemma demo_runs:
  "demo_run kReserveFull 8 (demo_arrivals @ [Step [], Step [5], Step [6]]) \<noteq> None"
  "demo_run kReserveFull 8 demo_arrivals \<noteq> None"
  by code_simp+

lemmas demo_reach = demo_runs[THEN demo_reachable]

section \<open>Safety\<close>

text \<open>
  C1: In every state a scheduler can reach, every legal event - an arrival, a step, or a
  step whose execution throws after planning - runs to completion: no assertion of the
  scheduler or the block allocator fails, no pointer is dereferenced that holds no request,
  and the invariant holds afterwards.
\<close>

theorem scheduler_never_fails:
  assumes "reachable opts n s" and "legal s ev"
  shows "\<exists>s'. exec_event s ev = Inr s' \<and> sched_inv s' \<and> reachable opts n s'"
  using exec_event_ok[OF reachable_sched_inv[OF assms(1)] assms(2)] assms
  by (auto elim!: wpE intro: reachable.event)

theorem scheduler_never_fails_witness:
  "\<exists>s'. exec_event (demo_state kReserveFull 8 (demo_arrivals @ [Step [], Step [5], Step [6]])) (Step [8, 9])
     = Inr s' \<and> sched_inv s' \<and> reachable (demo_opts kReserveFull) 8 s'"
  by (rule scheduler_never_fails[OF demo_reach(1)]) code_simp

text \<open>
  C2: No KV block is lost and none has two owners: in every reachable state the ids on the
  free list together with the blocks in the tables of the admitted requests are exactly the
  usable ids \<open>1 .. n - 1\<close> of the pool, each once; the allocator's promised count is the sum
  of the admitted requests' outstanding promises, and that many blocks are free. Likewise
  every batch slot is either free or held by exactly one admitted request.
\<close>

theorem blocks_conserved:
  assumes "reachable opts n s"
  shows "mset (free_list (allocator s)) +
           (\<Sum>p\<in>#mset (prefill_queue s @ running s). mset (blocks (block_table (the (heap s p)))))
         = mset_set {1..<n} \<and>
         reserved (allocator s) =
           (\<Sum>p\<in>#mset (prefill_queue s @ running s). reserved_blocks (the (heap s p))) \<and>
         reserved (allocator s) \<le> free_blocks (allocator s) \<and>
         mset (free_slots s) + image_mset (\<lambda>p. slot (the (heap s p))) (mset (prefill_queue s @ running s))
         = mset_set {0..<max_batch opts}"
proof -
  have inv: "sched_inv s" and o: "options s = opts" "total_blocks (allocator s) = n"
    using reachable_inv[OF assms] by simp_all
  have "\<exists>r. heap s p = Some r" if "p \<in># admitted s" for p
    using that sched_invD(5,6)[OF inv] by (auto simp: admitted_def all_reqs_def)
  then have of_eq: "held_of (heap s) p = blocks (block_table (the (heap s p)))"
    "owed_of (heap s) p = reserved_blocks (the (heap s p))" "slot_of (heap s) p = slot (the (heap s p))"
    if "p \<in># admitted s" for p using that by auto
  have adm: "admitted s = mset (prefill_queue s @ running s)" by (simp add: admitted_def)
  have "image_mset (\<lambda>p. mset (held_of (heap s) p)) (admitted s) =
      image_mset (\<lambda>p. mset (blocks (block_table (the (heap s p))))) (admitted s)"
    "image_mset (owed_of (heap s)) (admitted s) = image_mset (\<lambda>p. reserved_blocks (the (heap s p))) (admitted s)"
    "image_mset (slot_of (heap s)) (admitted s) = image_mset (\<lambda>p. slot (the (heap s p))) (admitted s)"
    by (intro image_mset_cong; simp add: of_eq)+
  with sched_invD(2)[OF inv] show ?thesis
    unfolding adm[symmetric] accounts_def ledger_def free_ids_def alloc_inv_def free_blocks_def o by simp
qed

theorem blocks_conserved_witness:
  "mset (free_list (allocator (demo_state kReserveFull 8 demo_arrivals))) +
     (\<Sum>p\<in>#mset (prefill_queue (demo_state kReserveFull 8 demo_arrivals) @
        running (demo_state kReserveFull 8 demo_arrivals)).
        mset (blocks (block_table (the (heap (demo_state kReserveFull 8 demo_arrivals) p)))))
   = mset_set {1..<8}"
  using blocks_conserved[OF demo_reach(2)] by blast

text \<open>
  C4: Under the reserve-full policy decoding never exhausts the pool: planning a step in any
  reachable state aborts nothing, keeps every running request, and whenever it plans a decode
  batch, every running request is in it with a block for the position it is fed.
\<close>

theorem reserve_full_never_aborts:
  assumes "reachable opts n s" and "admission_policy opts = kReserveFull"
  shows "wp (PlanStep s) (\<lambda>(plan, s1). aborted plan = [] \<and> running s1 = running s \<and>
           (prefill plan = None \<longrightarrow> decode plan = running s \<and> all_reqs (heap s1) (running s) covered))"
  using reachable_inv[OF assms(1)] assms(2) PlanStep_ok[of s]
  by (auto simp: planned_def plan_ok_def elim!: wp_mono)

theorem reserve_full_never_aborts_witness:
  "wp (PlanStep (demo_state kReserveFull 8 (demo_arrivals @ [Step [], Step [5], Step [6]])))
     (\<lambda>(plan, s1). aborted plan = [] \<and> decode plan = [0, 1])"
proof -
  have "running (demo_state kReserveFull 8 (demo_arrivals @ [Step [], Step [5], Step [6]])) = [0, 1]"
    "wp (PlanStep (demo_state kReserveFull 8 (demo_arrivals @ [Step [], Step [5], Step [6]])))
       (\<lambda>(plan, s1). prefill plan = None)" by code_simp+
  with reserve_full_never_aborts[OF demo_reach(1)] show ?thesis
    by (auto simp: demo_opts_def elim!: wpE)
qed

text \<open>
  Admission is first come, first served. The admission loop moves a prefix of the waiting
  queue, in order, to the end of the prefill queue, and it stops only when nothing waits, the
  batch is full, or the request now at the head of the queue does not fit the pool.
\<close>

theorem admission_fcfs:
  assumes "reachable opts n s"
  shows "wp (admit_loop s) (\<lambda>s1. \<exists>k. waiting s1 = drop k (waiting s) \<and>
           prefill_queue s1 = prefill_queue s @ take k (waiting s) \<and> running s1 = running s \<and>
           (waiting s1 = [] \<or> num_running s1 = max_batch opts \<or>
              (\<exists>r. heap s1 (hd (waiting s1)) = Some r \<and> CanAdmit s1 r = Inr False)))"
proof (rule wp_mono[OF admit_loop_ok[OF reachable_sched_inv[OF assms]]], elim conjE exE)
  fix s1 k
  assume s1: "sched_inv s1" "admission_done s1" "admits s k s1"
  moreover have "num_running s1 \<le> max_batch (options s1)" using sched_inv_num_running[OF s1(1)] by linarith
  moreover have "options s1 = opts" using s1(3) reachable_inv[OF assms] by (simp add: admits_def)
  ultimately show "\<exists>k. waiting s1 = drop k (waiting s) \<and>
           prefill_queue s1 = prefill_queue s @ take k (waiting s) \<and> running s1 = running s \<and>
           (waiting s1 = [] \<or> num_running s1 = max_batch opts \<or>
              (\<exists>r. heap s1 (hd (waiting s1)) = Some r \<and> CanAdmit s1 r = Inr False))"
    by (intro exI[of _ k]) (auto simp: admits_def admission_done_def)
qed

theorem admission_fcfs_witness:
  "waiting (demo_state kReserveFull 8 demo_arrivals) = [0, 1, 2] \<and>
   wp (admit_loop (demo_state kReserveFull 8 demo_arrivals)) (\<lambda>s1. \<exists>k.
     waiting s1 = drop k [0, 1, 2] \<and> prefill_queue s1 = take k [0, 1, 2])"
proof -
  have w: "waiting (demo_state kReserveFull 8 demo_arrivals) = [0, 1, 2]"
    and q: "prefill_queue (demo_state kReserveFull 8 demo_arrivals) = []" by code_simp+
  show ?thesis
    using w by (intro conjI wp_mono[OF admission_fcfs[OF demo_reach(2)]]) (simp_all add: w q, blast)
qed

text \<open>
  C7: Aborting is bounded and takes the youngest first. Planning a step removes exactly the
  aborted requests from the running list, which are its last ones in reverse order, so no
  planned request is younger than an aborted one; each of them is marked finished and
  aborted, and the requests planned for decoding are all the survivors.
\<close>

theorem aborts_youngest_first:
  assumes "reachable opts n s"
  shows "wp (PlanStep s) (\<lambda>(plan, s1). running s = running s1 @ rev (aborted plan) \<and>
           all_reqs (heap s1) (aborted plan) is_aborted \<and>
           (prefill plan = None \<longrightarrow> decode plan = running s1) \<and> set (decode plan) \<inter> set (aborted plan) = {})"
proof (rule wp_mono[OF PlanStep_ok[OF reachable_sched_inv[OF assms]]], clarify, goal_cases)
  case (1 plan s1)
  then have "distinct (running s)" using sched_invD(3)[OF reachable_sched_inv[OF assms]] by simp
  then show ?case using 1 by (auto simp: planned_def plan_ok_def split: option.splits)
qed

lemma demo_abort_run:
  "demo_run kWatermark 3 demo_tight \<noteq> None"
  by code_simp

theorem aborts_youngest_first_witness:
  "wp (PlanStep (demo_state kWatermark 3 demo_tight))
     (\<lambda>(plan, s1). aborted plan = [1] \<and> running s1 = [0] \<and> decode plan = [0] \<and> [0, 1] = running s1 @ rev (aborted plan))"
proof -
  let ?s = "demo_state kWatermark 3 demo_tight"
  have r: "running ?s = [0, 1]" by code_simp
  have "wp (PlanStep ?s) (\<lambda>(plan, s1). aborted plan = [1] \<and> running s1 = [0] \<and> decode plan = [0])"
    by code_simp
  from wp_conj[OF this aborts_youngest_first[OF demo_reachable[OF demo_abort_run]]] show ?thesis
    by (rule wp_mono) (auto simp: r)
qed

lemma abort_loop_one:
  assumes inv: "sched_inv s" and i: "i < length (running s)"
  shows "wp (abort_loop s plan (running s ! i)) (\<lambda>(ok, s1, plan1).
           if ok then i < length (running s1) \<and> running s1 ! i = running s ! i \<and>
              reserved (allocator s1) < free_blocks (allocator s1) \<and>
              (s1 = s \<and> plan1 = plan \<or> running s = running s1 @ [last (running s)] \<and>
                 plan1 = plan\<lparr>aborted := aborted plan @ [last (running s)]\<rparr>)
            else running s = running s1 @ [running s ! i] \<and>
              plan1 = plan\<lparr>aborted := aborted plan @ [running s ! i]\<rparr>)"
proof (cases "1 \<le> free_blocks (allocator s) - reserved (allocator s)")
  case True
  with i show ?thesis by (simp add: abort_loop_fits)
next
  case False
  from i obtain ps v where run: "running s = ps @ [v]" by (cases "running s" rule: rev_cases) auto
  from all_reqsD[OF sched_invD(6)[OF inv], of v] obtain r where r: "heap s v = Some r" by (auto simp: run)
  have no: "CanReserve (allocator s) 1 = Inr False" using False by (simp add: CanReserve_eq free_blocks_def)
  have nn: "0 \<le> free_blocks (allocator s) - reserved (allocator s)"
    using sched_inv_alloc[OF inv] by (simp add: alloc_inv_def free_blocks_def)
  have idx: "i < length ps \<and> ps ! i = running s ! i" if "v \<noteq> running s ! i"
    using that i by (auto simp: run nth_append less_Suc_eq split: if_splits)
  show ?thesis
    using AbortYoungestRunning_ok[OF inv run r, of plan] nn idx no
    by (auto simp: abort_loop.simps[of s plan] wp_simps abort_loop_fits run elim!: wp_mono)
qed

text \<open>
  One boundary crossing costs at most one abort. When the running request at index \<open>i\<close>
  needs a block, the retry loop aborts nothing if the pool has an unpromised block, and
  otherwise exactly the youngest request: either that makes a block available and the
  request that asked keeps its place, or the request that asked was the youngest itself.
\<close>

theorem at_most_one_abort:
  assumes "reachable opts n s" and "i < length (running s)"
  shows "wp (abort_loop s plan (running s ! i)) (\<lambda>(ok, s1, plan1).
           if ok then i < length (running s1) \<and> running s1 ! i = running s ! i \<and>
              reserved (allocator s1) < free_blocks (allocator s1) \<and>
              (s1 = s \<and> plan1 = plan \<or> running s = running s1 @ [last (running s)] \<and>
                 plan1 = plan\<lparr>aborted := aborted plan @ [last (running s)]\<rparr>)
            else running s = running s1 @ [running s ! i] \<and>
              plan1 = plan\<lparr>aborted := aborted plan @ [running s ! i]\<rparr>)"
  using abort_loop_one[OF reachable_sched_inv[OF assms(1)] assms(2)] .

theorem at_most_one_abort_witness:
  "wp (abort_loop (demo_state kWatermark 3 demo_tight) empty_plan 0)
     (\<lambda>(ok, s1, plan1). ok \<and> reserved (allocator s1) < free_blocks (allocator s1) \<and> running s1 ! 0 = 0)"
proof -
  let ?s = "demo_state kWatermark 3 demo_tight"
  have r: "running ?s = [0, 1]" by code_simp
  have "wp (abort_loop ?s empty_plan 0) (\<lambda>(ok, s1, plan1). ok)" by code_simp
  from wp_conj[OF this at_most_one_abort[OF demo_reachable[OF demo_abort_run], of 0 empty_plan, unfolded r nth_Cons_0]]
  show ?thesis by (rule wp_mono) (auto split: if_splits)
qed

section \<open>Progress\<close>

text \<open>
  A planned step is empty exactly when nothing is queued: with anything waiting, in
  prefill or running, there is a prefill chunk, a decode batch or an abort to report. A head
  request that passed validation is admitted by an idle pool, so it cannot wait forever.
\<close>

theorem plan_empty_iff_idle:
  assumes "reachable opts n s"
  shows "wp (PlanStep s) (\<lambda>(plan, s1). plan_empty plan \<longleftrightarrow> queued s = {})"
  by (rule wp_mono[OF PlanStep_ok[OF reachable_sched_inv[OF assms]]])
    (auto simp: planned_def plan_ok_def plan_empty_def queued_def split: option.splits)

theorem plan_empty_iff_idle_witness:
  "wp (PlanStep (demo_state kReserveFull 8 demo_arrivals)) (\<lambda>(plan, s1). \<not> plan_empty plan)"
proof -
  have "waiting (demo_state kReserveFull 8 demo_arrivals) = [0, 1, 2]" by code_simp
  then show ?thesis
    using plan_empty_iff_idle[OF demo_reach(2)] by (auto simp: queued_def elim!: wp_mono)
qed

text \<open>
  C3: Everything that is queued finishes. From any reachable state, with whatever tokens the
  executor samples, as many steps as there are prompt positions to process and tokens to
  generate lead, without a failure, to a state in which nothing is queued and every request
  that was queued is finished.
\<close>

theorem queues_drain:
  assumes "reachable opts n s" and "\<forall>s plan. length (f s plan) = wants s plan"
  shows "wp (drain f (nat (work s)) s) (\<lambda>s'. queued s' = {} \<and> (\<forall>p\<in>queued s. finished_at s' p))"
proof (rule wp_mono[OF drain_ok])
  show "sched_inv s" using assms(1) by (rule reachable_sched_inv)
qed (use assms(2) in auto)

theorem queues_drain_witness:
  "wp (drain (\<lambda>s plan. replicate (wants s plan) 9) (nat (work (demo_state kReserveFull 8 demo_arrivals)))
        (demo_state kReserveFull 8 demo_arrivals))
     (\<lambda>s'. queued s' = {} \<and> (\<forall>p\<in>queued (demo_state kReserveFull 8 demo_arrivals). finished_at s' p))"
  by (rule queues_drain[OF demo_reach(2)]) simp

section \<open>Functional behaviour\<close>

text \<open>
  C5: The whole effect of completing a step. After planning in any reachable state, with as
  many sampled tokens as the plan asks for, \<open>CompleteStep\<close> succeeds; its emissions are the
  aborts, in order, followed by one result per planned row in batch order; each row's request
  becomes \<open>token_req\<close> of its old value, the running list keeps exactly the rows that did not
  finish, in order, and an intermediate chunk only advances the prefill progress.
\<close>

theorem complete_step_functional:
  assumes "reachable opts n s" and "PlanStep s = Inr (plan, s1)" and "length toks = wants s1 plan"
  shows "wp (CompleteStep s1 plan toks) (\<lambda>(ems, s2). completed s1 plan toks ems s2 \<and> sched_inv s2)"
  using PlanStep_ok[OF reachable_sched_inv[OF assms(1)]] assms(2,3) CompleteStep_ok[of s1 plan toks]
  by (auto elim!: wp_mono)

theorem complete_step_functional_witness:
  "\<exists>plan s1. PlanStep (demo_state kReserveFull 8 (demo_arrivals @ [Step [], Step [5], Step [6]])) = Inr (plan, s1) \<and>
     wp (CompleteStep s1 plan [8, 9]) (\<lambda>(ems, s2). completed s1 plan [8, 9] ems s2)"
proof -
  let ?s = "demo_state kReserveFull 8 (demo_arrivals @ [Step [], Step [5], Step [6]])"
  have "wp (PlanStep ?s) (\<lambda>(plan, s1). wants s1 plan = 2)" by code_simp
  then obtain plan s1 where p: "PlanStep ?s = Inr (plan, s1)" "wants s1 plan = 2" by (auto elim: wpE)
  with complete_step_functional[OF demo_reach(1) p(1), of "[8, 9]"] show ?thesis
    by (auto elim!: wp_mono)
qed





text \<open>
  Planning never changes what a request computes with. Prompt, generated tokens, limits,
  script and prefill progress of every request are the same before and after \<open>PlanStep\<close>, so a
  step whose execution throws can be planned again with nothing lost; requests that are not
  queued are not touched at all.
\<close>

theorem planning_keeps_content:
  assumes "reachable opts n s"
  shows "wp (PlanStep s) (\<lambda>(plan, s1). same_content (heap s) (heap s1) \<and>
           (\<forall>q. q \<notin> queued s \<longrightarrow> heap s1 q = heap s q) \<and> reachable opts n s1)"
  using PlanStep_ok[OF reachable_sched_inv[OF assms]] reachable.event[OF assms, of FailedStep]
  by (auto simp: planned_def elim!: wp_mono)

theorem planning_keeps_content_witness:
  "wp (PlanStep (demo_state kReserveFull 8 demo_arrivals)) (\<lambda>(plan, s1).
     heap s1 9 = heap (demo_state kReserveFull 8 demo_arrivals) 9 \<and> reachable (demo_opts kReserveFull) 8 s1)"
proof -
  have "9 \<notin> queued (demo_state kReserveFull 8 demo_arrivals)" by code_simp
  then show ?thesis
    by (intro wp_mono[OF planning_keeps_content[OF demo_reach(2)]]) auto
qed

section \<open>Bounds\<close>

lemma blocks_bound:
  assumes "sched_inv s" and "p \<in> queued s" and "heap s p = Some r"
  shows "admissible s r" and "0 \<le> prefill_progress r" and "prefill_progress r \<le> num_prompt_tokens r"
    and "seq_len r \<le> num_prompt_tokens r + max_new_tokens r"
    and "num_blocks (block_table r) \<le> BlocksForTokens (num_prompt_tokens r + max_new_tokens r)"
proof -
  consider "waiting_req s r" | "prefill_req s r" | "running_req s r"
    using assms(2,3) sched_invD(4-6)[OF assms(1)] by (auto simp: queued_def all_reqs_def)
  note cases = this
  show adm: "admissible s r" by (rule cases) (simp_all add: waiting_req_def prefill_req_def running_req_def)
  note b = admissible_bounds[OF adm]
  show "0 \<le> prefill_progress r" "prefill_progress r \<le> num_prompt_tokens r"
    by (rule cases; simp add: waiting_req_def prefill_req_def running_req_def)+
  show len: "seq_len r \<le> num_prompt_tokens r + max_new_tokens r"
    using b by (rule_tac cases) (simp_all add: waiting_req_def prefill_req_def running_req_def seq_len_def num_output_tokens_def)
  have "BlocksForTokens (seq_len r) \<le> BlocksForTokens (num_prompt_tokens r + max_new_tokens r)"
    "BlocksForTokens (num_prompt_tokens r) \<le> BlocksForTokens (num_prompt_tokens r + max_new_tokens r)"
    "0 \<le> BlocksForTokens (num_prompt_tokens r + max_new_tokens r)"
    using len b by (auto intro: BlocksForTokens_mono BlocksForTokens_nonneg)
  then show "num_blocks (block_table r) \<le> BlocksForTokens (num_prompt_tokens r + max_new_tokens r)"
    by (rule_tac cases) (auto simp: waiting_req_def prefill_req_def running_req_def num_blocks_def)
qed

text \<open>
  C8: The 32-bit arithmetic of the scheduler does not overflow. If \<open>max_seq_len\<close> plus 15 and
  \<open>max_seq_len\<close> plus the prefill chunk fit into a 32-bit signed integer, then for every queued
  request of every reachable state so do the sum inside \<open>BlocksForTokens\<close> for its worst case,
  its sequence length, the token capacity of its block table and the end of its next chunk
  before the minimum is taken; and the capacity exceeds \<open>max_seq_len\<close> by at most 15.
\<close>

theorem int32_never_overflows:
  assumes "reachable opts n s" and "p \<in> queued s" and "heap s p = Some r"
    and "max_seq_len opts + 15 < 2 ^ 31" and "max_seq_len opts + prefill_chunk_tokens opts < 2 ^ 31"
  shows "num_prompt_tokens r + max_new_tokens r + kKvBlockSize - 1 < 2 ^ 31 \<and>
     seq_len r \<le> max_seq_len opts \<and> 0 \<le> prefill_progress r \<and>
     token_capacity (block_table r) \<le> max_seq_len opts + 15 \<and>
     prefill_progress r + prefill_chunk_tokens opts < 2 ^ 31"
proof -
  have inv: "sched_inv s" and o: "options s = opts" using reachable_inv[OF assms(1)] by simp_all
  note b = blocks_bound[OF inv assms(2,3)]
  note a = admissible_bounds[OF b(1)]
  have "BlocksForTokens (num_prompt_tokens r + max_new_tokens r) * 16 \<le> num_prompt_tokens r + max_new_tokens r + 15"
    by (simp add: BlocksForTokens_def kKvBlockSize_def)
  with b a assms(4,5) show ?thesis
    by (auto simp: o kKvBlockSize_def token_capacity_def)
qed

theorem int32_never_overflows_witness:
  "\<exists>r. heap (demo_state kReserveFull 8 demo_arrivals) 0 = Some r \<and> seq_len r \<le> 64 \<and>
     token_capacity (block_table r) \<le> 79"
proof -
  let ?s = "demo_state kReserveFull 8 demo_arrivals"
  have q: "0 \<in> queued ?s" and "heap ?s 0 \<noteq> None" by code_simp+
  then obtain r where r: "heap ?s 0 = Some r" by auto
  from int32_never_overflows[OF demo_reach(2) q r] r show ?thesis by (auto simp: demo_opts_def)
qed

section \<open>Decode buckets\<close>

lemma first_bucket_Min:
  "sorted_wrt (<) bs \<Longrightarrow>
     first_bucket n bs = (if \<exists>b\<in>set bs. n \<le> b then Min {b \<in> set bs. n \<le> b} else -1)"
proof (induction bs)
  case (Cons b bs)
  show ?case
  proof (cases "n \<le> b")
    case True
    have "Min {x \<in> set (b # bs). n \<le> x} = b" using Cons.prems True by (intro Min_eqI) auto
    with True show ?thesis by auto
  next
    case False
    then have "{x \<in> set (b # bs). n \<le> x} = {x \<in> set bs. n \<le> x}" by auto
    with False Cons show ?thesis by simp
  qed
qed simp

text \<open>
  Bucket selection. For a positive batch size the bucket chosen among
  \<open>MakeDecodeBuckets cap\<close> is the smallest entry of the ladder that is at most \<open>cap\<close> and
  holds the batch; it is \<open>-1\<close> (the eager path) for a batch no bucket holds and for an empty
  batch.
\<close>

theorem bucket_smallest_covering:
  "SelectBucket n (MakeDecodeBuckets cap) =
     (let fit = {b \<in> set kLadder. b \<le> cap \<and> n \<le> b} in if n \<le> 0 \<or> fit = {} then -1 else Min fit)"
proof -
  note l = MakeDecodeBuckets_filter[of cap]
  have "sorted_wrt (<) kLadder" by (simp add: kLadder_def)
  then have "sorted_wrt (<) (MakeDecodeBuckets cap)" unfolding l by (rule sorted_wrt_filter)
  note first = first_bucket_Min[OF this, of n]
  have fit: "{b \<in> set (MakeDecodeBuckets cap). n \<le> b} = {b \<in> set kLadder. b \<le> cap \<and> n \<le> b}"
    by (auto simp: l)
  then have "(\<exists>b\<in>set (MakeDecodeBuckets cap). n \<le> b) \<longleftrightarrow> {b \<in> set kLadder. b \<le> cap \<and> n \<le> b} \<noteq> {}"
    by auto
  with first fit show ?thesis by (auto simp: SelectBucket_def Let_def)
qed

section \<open>The allocator\<close>

text \<open>
  Taking a promised block and freeing it again. In any state of the allocator with a
  live promise \<open>AllocReserved\<close> succeeds, hands out an id of the pool that is neither the dummy
  block nor already outstanding, and \<open>FreeBlock\<close> of that id succeeds and restores the
  allocator exactly, except that the promise is spent; freeing the id twice fails the
  double-free assertion.
\<close>

theorem alloc_free_roundtrip:
  assumes "alloc_inv a" and "0 < reserved a"
  shows "wp (AllocReserved a) (\<lambda>(b, a1). 1 \<le> b \<and> b < total_blocks a \<and> \<not> outstanding a ! nat b \<and>
           outstanding a1 ! nat b \<and>
           FreeBlock a1 b = Inr (a\<lparr>reserved := reserved a - 1\<rparr>) \<and>
           FreeBlock (a\<lparr>reserved := reserved a - 1\<rparr>) b = Inl (AssertFailed ''double free''))"
proof -
  have len: "length (outstanding a) = nat (total_blocks a)" using assms(1) by (simp add: alloc_inv_def)
  have inv': "alloc_inv (a\<lparr>reserved := reserved a - 1\<rparr>)" using assms by (simp add: alloc_inv_def)
  from AllocReserved_ok[OF assms] obtain b a1 where a1: "AllocReserved a = Inr (b, a1)"
    and b: "b = last (free_list a)" "free_list a \<noteq> []" by (auto elim!: wpE)
  have rng: "1 \<le> b" "b < total_blocks a" "\<not> outstanding a ! nat b"
    using alloc_inv_free_iff[OF assms(1), of b] b by auto
  have eq: "a1 = a\<lparr>free_list := butlast (free_list a), reserved := reserved a - 1,
      outstanding := (outstanding a)[nat b := True]\<rparr>"
    using a1 b by (auto simp: AllocReserved_def Let_def bindE_Inr_iff)
  have undo: "(outstanding a)[nat b := True, nat b := False] = outstanding a"
    using rng(3) by (simp add: list_update_overwrite) (metis (full_types) list_update_id)
  have "a1\<lparr>outstanding := (outstanding a1)[nat b := False], free_list := free_list a1 @ [b]\<rparr> =
      a\<lparr>reserved := reserved a - 1\<rparr>" using b undo by (simp add: eq)
  then have "FreeBlock a1 b = Inr (a\<lparr>reserved := reserved a - 1\<rparr>)"
    using rng len DebugCheckInvariant_ok[OF inv']
    by (simp add: FreeBlock_def Let_def kInvalidBlockId_def kDummyBlockId_def eq)
  moreover have "FreeBlock (a\<lparr>reserved := reserved a - 1\<rparr>) b = Inl (AssertFailed ''double free'')"
    using rng by (simp add: FreeBlock_def kInvalidBlockId_def kDummyBlockId_def)
  moreover have "outstanding a1 ! nat b" using rng len by (simp add: eq)
  ultimately show ?thesis using rng by (simp add: a1)
qed

theorem alloc_free_roundtrip_witness:
  "wp (bindE (new_BlockAllocator 4) (\<lambda>a. Reserve a 2)) (\<lambda>a. wp (AllocReserved a) (\<lambda>(b, a1).
     1 \<le> b \<and> b < 4 \<and> FreeBlock a1 b = Inr (a\<lparr>reserved := 1\<rparr>)))"
proof -
  have "wp (bindE (new_BlockAllocator 4) (\<lambda>a. Reserve a 2)) (\<lambda>a. alloc_inv a \<and> reserved a = 2 \<and> total_blocks a = 4)"
    using new_BlockAllocator_ok[of 4]
    by (auto simp: wp_bindE card_atLeastLessThan_int[symmetric] distinct_card[symmetric] alloc_inv_def
        intro!: wp_mono[OF Reserve_ok] elim!: wp_mono)
  then show ?thesis
    by (rule wp_mono) (auto elim!: wp_mono dest: alloc_free_roundtrip)
qed

end
