(* ===== verification/Config.thy ===== *)
theory Config
  imports Doubles
begin

text \<open>
  \<^verbatim>\<open>src/src/core/config.{hpp,cpp}\<close>: the model constants and their validation
  against the pinned checkpoint.

  JSON parsing is nlohmann/json, a library outside the repository: \<open>parse\<close> is a parameter of
  the definitions, from a text to a JSON value, with \<open>None\<close> for \<^verbatim>\<open>parse_error\<close>. Reading
  a file is the parameter \<open>read_file\<close>. A number without fraction or exponent is a
  \<open>JInt\<close> (\<^verbatim>\<open>is_number_integer\<close>), any other number a \<open>JFloat\<close> holding the double it
  denotes; \<open>get_int64\<close> is the wrap-around of \<^verbatim>\<open>get<std::int64_t>()\<close> on a value that was
  parsed as unsigned.
\<close>

section \<open>JSON values\<close>

datatype json =
    JNull
  | JBool bool
  | JInt int
  | JFloat rat
  | JStr string
  | JArr "json list"
  | JObj "(string \<times> json) list"

fun get_int64 :: "int \<Rightarrow> int" where
  "get_int64 n = (n + 2 ^ 63) mod 2 ^ 64 - 2 ^ 63"

fun find_key :: "json \<Rightarrow> string \<Rightarrow> json option" where
  "find_key (JObj kvs) key = map_of kvs key"
| "find_key _ key = None"

datatype config_error =
    Unreadable string
  | MalformedJson string
  | NotAnObject string
  | MissingKey string string
  | WrongType string string
  | Mismatch string string
  | InvalidTokenId string int
  | EmptyEosArray string

section \<open>ModelConfig\<close>

record ModelConfig =
  hidden_size :: int
  num_layers :: int
  num_q_heads :: int
  num_kv_heads :: int
  head_dim :: int
  intermediate_size :: int
  vocab_size :: int
  rms_norm_eps :: rat
  rope_theta :: rat
  max_position_embeddings :: int
  tie_word_embeddings :: bool
  qkv_bias :: bool
  eos_ids :: "token_id list"

definition ConfigIsEosToken :: "ModelConfig \<Rightarrow> token_id \<Rightarrow> bool" where
  "ConfigIsEosToken mc t \<longleftrightarrow> t \<in> set (eos_ids mc)"

definition KvBytesPerToken :: "ModelConfig \<Rightarrow> int" where
  "KvBytesPerToken mc = 2 * num_layers mc * num_kv_heads mc * head_dim mc * 2"

section \<open>Expected constants\<close>

definition kHiddenSize :: int where "kHiddenSize = 1536"
definition kNumLayers :: int where "kNumLayers = 28"
definition kNumQHeads :: int where "kNumQHeads = 12"
definition kNumKvHeads :: int where "kNumKvHeads = 2"
definition kHeadDim :: int where "kHeadDim = 128"
definition kIntermediateSize :: int where "kIntermediateSize = 8960"
definition kVocabSize :: int where "kVocabSize = 151936"
definition kRopeTheta :: rat where "kRopeTheta = 1000000"
definition kRmsNormEps :: rat where "kRmsNormEps = dbl (1 / 1000000)"
definition kMaxPositionEmbeddings :: int where "kMaxPositionEmbeddings = 32768"
definition kTieWordEmbeddings :: bool where "kTieWordEmbeddings = True"
definition kBosTokenId :: int where "kBosTokenId = 151643"
definition kConfigEosTokenId :: int where "kConfigEosTokenId = 151645"
definition kEosSet :: "token_id list" where "kEosSet = [151645, 151643]"

section \<open>Accessors and checks\<close>

definition ParseJsonText :: "(string \<Rightarrow> json option) \<Rightarrow> string \<Rightarrow> string \<Rightarrow> config_error + json" where
  "ParseJsonText parse file text =
     (case parse text of
        None \<Rightarrow> Inl (MalformedJson file)
      | Some (JObj kvs) \<Rightarrow> Inr (JObj kvs)
      | Some _ \<Rightarrow> Inl (NotAnObject file))"

definition Require :: "json \<Rightarrow> string \<Rightarrow> string \<Rightarrow> config_error + json" where
  "Require obj file key =
     (case find_key obj key of None \<Rightarrow> Inl (MissingKey file key) | Some v \<Rightarrow> Inr v)"

definition RequireInt :: "json \<Rightarrow> string \<Rightarrow> string \<Rightarrow> config_error + int" where
  "RequireInt obj file key =
     bindE (Require obj file key) (\<lambda>v.
     case v of JInt n \<Rightarrow> Inr (get_int64 n) | _ \<Rightarrow> Inl (WrongType file key))"

definition RequireNumber :: "json \<Rightarrow> string \<Rightarrow> string \<Rightarrow> config_error + rat" where
  "RequireNumber obj file key =
     bindE (Require obj file key) (\<lambda>v.
     case v of JInt n \<Rightarrow> Inr (dbl (of_int n)) | JFloat x \<Rightarrow> Inr x | _ \<Rightarrow> Inl (WrongType file key))"

definition RequireBool :: "json \<Rightarrow> string \<Rightarrow> string \<Rightarrow> config_error + bool" where
  "RequireBool obj file key =
     bindE (Require obj file key) (\<lambda>v.
     case v of JBool b \<Rightarrow> Inr b | _ \<Rightarrow> Inl (WrongType file key))"

definition RequireString :: "json \<Rightarrow> string \<Rightarrow> string \<Rightarrow> config_error + string" where
  "RequireString obj file key =
     bindE (Require obj file key) (\<lambda>v.
     case v of JStr t \<Rightarrow> Inr t | _ \<Rightarrow> Inl (WrongType file key))"

definition CheckInt :: "string \<Rightarrow> string \<Rightarrow> int \<Rightarrow> int \<Rightarrow> config_error + unit" where
  "CheckInt file field expected_value actual = assertE (actual = expected_value) (Mismatch file field)"

definition CheckNumber :: "string \<Rightarrow> string \<Rightarrow> rat \<Rightarrow> rat \<Rightarrow> config_error + unit" where
  "CheckNumber file field expected_value actual = assertE (actual = expected_value) (Mismatch file field)"

definition CheckBool :: "string \<Rightarrow> string \<Rightarrow> bool \<Rightarrow> bool \<Rightarrow> config_error + unit" where
  "CheckBool file field expected_value actual = assertE (actual = expected_value) (Mismatch file field)"

definition CheckString :: "string \<Rightarrow> string \<Rightarrow> string \<Rightarrow> string \<Rightarrow> config_error + unit" where
  "CheckString file field expected_value actual = assertE (actual = expected_value) (Mismatch file field)"

definition CheckOptionalInt :: "json \<Rightarrow> string \<Rightarrow> string \<Rightarrow> int \<Rightarrow> config_error + unit" where
  "CheckOptionalInt obj file key expected_value =
     (case find_key obj key of
        None \<Rightarrow> Inr ()
      | Some (JInt n) \<Rightarrow> CheckInt file key expected_value (get_int64 n)
      | Some _ \<Rightarrow> Inl (WrongType file key))"

section \<open>The stop set\<close>

definition append_eos :: "string \<Rightarrow> token_id list \<Rightarrow> json \<Rightarrow> config_error + token_id list" where
  "append_eos file out element =
     (case element of
        JInt n \<Rightarrow>
          let id64 = get_int64 n in
          bindE (assertE (\<not> (id64 < 0 \<or> id64 > 2 ^ 31 - 1)) (InvalidTokenId file id64)) (\<lambda>_.
          Inr (if id64 \<in> set out then out else out @ [id64]))
      | _ \<Rightarrow> Inl (WrongType file ''eos_token_id''))"

definition ExtractEosSet :: "json \<Rightarrow> string \<Rightarrow> config_error + token_id list" where
  "ExtractEosSet gen file =
     bindE (Require gen file ''eos_token_id'') (\<lambda>v.
     case v of
       JArr elements \<Rightarrow>
         bindE (assertE (elements \<noteq> []) (EmptyEosArray file)) (\<lambda>_.
         foldE (append_eos file) elements [])
     | _ \<Rightarrow> append_eos file [] v)"

definition CheckEosSet :: "string \<Rightarrow> token_id list \<Rightarrow> config_error + unit" where
  "CheckEosSet file actual = assertE (sort actual = sort kEosSet) (Mismatch file ''eos_token_id'')"

section \<open>Loading\<close>

definition CheckArchitectures :: "json \<Rightarrow> string \<Rightarrow> config_error + unit" where
  "CheckArchitectures cfg file =
     (case find_key cfg ''architectures'' of
        None \<Rightarrow> Inr ()
      | Some (JArr entries) \<Rightarrow>
          assertE (list_ex (\<lambda>e. e = JStr ''Qwen2ForCausalLM'') entries) (Mismatch file ''architectures'')
      | Some _ \<Rightarrow> Inl (Mismatch file ''architectures''))"

definition CheckHeadDimKey :: "json \<Rightarrow> string \<Rightarrow> int \<Rightarrow> config_error + unit" where
  "CheckHeadDimKey cfg file hd_dim =
     (case find_key cfg ''head_dim'' of
        None \<Rightarrow> Inr ()
      | Some (JInt n) \<Rightarrow> CheckInt file ''head_dim'' hd_dim (get_int64 n)
      | Some _ \<Rightarrow> Inl (WrongType file ''head_dim''))"

definition CheckSlidingWindow :: "json \<Rightarrow> string \<Rightarrow> config_error + unit" where
  "CheckSlidingWindow cfg file =
     (case find_key cfg ''use_sliding_window'' of
        None \<Rightarrow> Inr ()
      | Some (JBool b) \<Rightarrow> assertE (\<not> b) (Mismatch file ''use_sliding_window'')
      | Some _ \<Rightarrow> Inl (WrongType file ''use_sliding_window''))"

definition FromJsonText :: "(string \<Rightarrow> json option) \<Rightarrow> string \<Rightarrow> string \<Rightarrow> config_error + ModelConfig" where
  "FromJsonText parse config_json generation_config_json =
     (let kCfg = ''config.json''; kGen = ''generation_config.json'' in
      bindE (ParseJsonText parse kCfg config_json) (\<lambda>cfg.
      bindE (ParseJsonText parse kGen generation_config_json) (\<lambda>gen.
      bindE (bindE (RequireString cfg kCfg ''model_type'') (CheckString kCfg ''model_type'' ''qwen2'')) (\<lambda>_.
      bindE (CheckArchitectures cfg kCfg) (\<lambda>_.
      bindE (RequireInt cfg kCfg ''hidden_size'') (\<lambda>hidden.
      bindE (CheckInt kCfg ''hidden_size'' kHiddenSize hidden) (\<lambda>_.
      bindE (RequireInt cfg kCfg ''num_hidden_layers'') (\<lambda>layers.
      bindE (CheckInt kCfg ''num_hidden_layers'' kNumLayers layers) (\<lambda>_.
      bindE (RequireInt cfg kCfg ''num_attention_heads'') (\<lambda>q_heads.
      bindE (CheckInt kCfg ''num_attention_heads'' kNumQHeads q_heads) (\<lambda>_.
      bindE (RequireInt cfg kCfg ''num_key_value_heads'') (\<lambda>kv_heads.
      bindE (CheckInt kCfg ''num_key_value_heads'' kNumKvHeads kv_heads) (\<lambda>_.
      bindE (RequireInt cfg kCfg ''intermediate_size'') (\<lambda>intermediate.
      bindE (CheckInt kCfg ''intermediate_size'' kIntermediateSize intermediate) (\<lambda>_.
      bindE (RequireInt cfg kCfg ''vocab_size'') (\<lambda>vocab.
      bindE (CheckInt kCfg ''vocab_size'' kVocabSize vocab) (\<lambda>_.
      bindE (RequireInt cfg kCfg ''max_position_embeddings'') (\<lambda>max_pos.
      bindE (CheckInt kCfg ''max_position_embeddings'' kMaxPositionEmbeddings max_pos) (\<lambda>_.
      bindE (RequireNumber cfg kCfg ''rope_theta'') (\<lambda>theta.
      bindE (CheckNumber kCfg ''rope_theta'' kRopeTheta theta) (\<lambda>_.
      bindE (RequireNumber cfg kCfg ''rms_norm_eps'') (\<lambda>eps.
      bindE (CheckNumber kCfg ''rms_norm_eps'' kRmsNormEps eps) (\<lambda>_.
      bindE (RequireBool cfg kCfg ''tie_word_embeddings'') (\<lambda>tie.
      bindE (CheckBool kCfg ''tie_word_embeddings'' kTieWordEmbeddings tie) (\<lambda>_.
      bindE (bindE (RequireString cfg kCfg ''torch_dtype'') (CheckString kCfg ''torch_dtype'' ''bfloat16'')) (\<lambda>_.
      bindE (bindE (RequireString cfg kCfg ''hidden_act'') (CheckString kCfg ''hidden_act'' ''silu'')) (\<lambda>_.
      let hd_dim = hidden div q_heads in
      bindE (CheckInt kCfg ''head_dim (derived)'' kHeadDim hd_dim) (\<lambda>_.
      bindE (CheckHeadDimKey cfg kCfg hd_dim) (\<lambda>_.
      bindE (CheckSlidingWindow cfg kCfg) (\<lambda>_.
      bindE (CheckOptionalInt cfg kCfg ''bos_token_id'' kBosTokenId) (\<lambda>_.
      bindE (CheckOptionalInt cfg kCfg ''eos_token_id'' kConfigEosTokenId) (\<lambda>_.
      bindE (ExtractEosSet gen kGen) (\<lambda>eos.
      bindE (CheckEosSet kGen eos) (\<lambda>_.
      Inr \<lparr>hidden_size = hidden, num_layers = layers, num_q_heads = q_heads, num_kv_heads = kv_heads,
           head_dim = hd_dim, intermediate_size = intermediate, vocab_size = vocab,
           rms_norm_eps = flt eps, rope_theta = flt theta, max_position_embeddings = max_pos,
           tie_word_embeddings = tie, qkv_bias = True, eos_ids = eos\<rparr>))))))))))))))))))))))))))))))))))"

definition FromModelDir ::
  "(string \<Rightarrow> json option) \<Rightarrow> (string \<Rightarrow> string option) \<Rightarrow> string \<Rightarrow> config_error + ModelConfig" where
  "FromModelDir parse read_file dir =
     (case read_file (dir @ ''/config.json'') of
        None \<Rightarrow> Inl (Unreadable ''config.json'')
      | Some config_json \<Rightarrow>
          (case read_file (dir @ ''/generation_config.json'') of
             None \<Rightarrow> Inl (Unreadable ''generation_config.json'')
           | Some generation_config_json \<Rightarrow> FromJsonText parse config_json generation_config_json))"

section \<open>What a loaded configuration is\<close>

lemmas check_defs = CheckInt_def CheckNumber_def CheckBool_def CheckString_def
lemmas expected_defs = kHiddenSize_def kNumLayers_def kNumQHeads_def kNumKvHeads_def kHeadDim_def
  kIntermediateSize_def kVocabSize_def kRopeTheta_def kMaxPositionEmbeddings_def kTieWordEmbeddings_def

lemma CheckEosSet_mset: "CheckEosSet file ids = Inr u \<longleftrightarrow> mset ids = {#151645, 151643#}"
proof -
  have "mset kEosSet = {#151645, 151643#}" by (simp add: kEosSet_def)
  then show ?thesis
    unfolding CheckEosSet_def assertE_Inr_iff
    by (metis mset_sort properties_for_sort sorted_sort sort_key_id_if_sorted)
qed

definition pinned_config :: "token_id list \<Rightarrow> ModelConfig" where
  "pinned_config eos =
     \<lparr>hidden_size = 1536, num_layers = 28, num_q_heads = 12, num_kv_heads = 2, head_dim = 128,
      intermediate_size = 8960, vocab_size = 151936, rms_norm_eps = flt (dbl (1 / 1000000)),
      rope_theta = flt 1000000, max_position_embeddings = 32768, tie_word_embeddings = True,
      qkv_bias = True, eos_ids = eos\<rparr>"

lemma FromJsonText_pinned:
  assumes "FromJsonText parse c g = Inr mc"
  shows "\<exists>eos. mc = pinned_config eos \<and> mset eos = {#151645, 151643#}"
  using assms
  by (simp add: FromJsonText_def Let_def bindE_Inr_iff check_defs expected_defs CheckEosSet_mset
      pinned_config_def kRmsNormEps_def) (elim exE conjE; blast)

text \<open>
  C10: Only the pinned checkpoint is accepted. Whatever the JSON parser returns, a
  configuration that \<open>FromJsonText\<close> accepts has exactly the dimensions of the pinned
  checkpoint, the derived head dimension, the two float constants rounded to single
  precision, tied embeddings, the Q/K/V bias, and a stop set that holds each of the two end
  tokens once; a KV token then takes 28672 bytes.
\<close>

theorem config_is_pinned:
  assumes "FromJsonText parse config_json generation_config_json = Inr mc"
  shows "hidden_size mc = 1536 \<and> num_layers mc = 28 \<and> num_q_heads mc = 12 \<and> num_kv_heads mc = 2 \<and>
     head_dim mc = 128 \<and> intermediate_size mc = 8960 \<and> vocab_size mc = 151936 \<and>
     rope_theta mc = flt 1000000 \<and> rms_norm_eps mc = flt (dbl (1 / 1000000)) \<and>
     max_position_embeddings mc = 32768 \<and> tie_word_embeddings mc \<and> qkv_bias mc \<and>
     mset (eos_ids mc) = {#151645, 151643#} \<and> KvBytesPerToken mc = 28672"
  using FromJsonText_pinned[OF assms] by (auto simp: pinned_config_def KvBytesPerToken_def)

definition demo_config_json :: json where
  "demo_config_json = JObj
     [(''model_type'', JStr ''qwen2''), (''architectures'', JArr [JStr ''Qwen2ForCausalLM'']),
      (''hidden_size'', JInt 1536), (''num_hidden_layers'', JInt 28), (''num_attention_heads'', JInt 12),
      (''num_key_value_heads'', JInt 2), (''intermediate_size'', JInt 8960), (''vocab_size'', JInt 151936),
      (''max_position_embeddings'', JInt 32768), (''rope_theta'', JFloat 1000000),
      (''rms_norm_eps'', JFloat (dbl (1 / 1000000))), (''tie_word_embeddings'', JBool True),
      (''torch_dtype'', JStr ''bfloat16''), (''hidden_act'', JStr ''silu''),
      (''use_sliding_window'', JBool False), (''bos_token_id'', JInt 151643), (''eos_token_id'', JInt 151645)]"

definition demo_generation_json :: json where
  "demo_generation_json = JObj [(''eos_token_id'', JArr [JInt 151645, JInt 151643, JInt 151645])]"

definition demo_parse :: "string \<Rightarrow> json option" where
  "demo_parse t = (if t = ''C'' then Some demo_config_json
                   else if t = ''G'' then Some demo_generation_json else None)"

theorem config_is_pinned_witness:
  "FromJsonText demo_parse ''C'' ''G'' = Inr (pinned_config [151645, 151643]) \<and>
   KvBytesPerToken (pinned_config [151645, 151643]) = 28672"
proof -
  have "FromJsonText demo_parse ''C'' ''G'' = Inr (pinned_config [151645, 151643])" by code_simp
  with config_is_pinned[OF this] show ?thesis by simp
qed

definition first_occurrences :: "'a list \<Rightarrow> 'a list" where
  "first_occurrences xs = rev (remdups (rev xs))"

lemma get_int64_id: "0 \<le> n \<Longrightarrow> n < 2 ^ 63 \<Longrightarrow> get_int64 n = n"
  by simp

lemma append_eos_ok:
  "0 \<le> n \<Longrightarrow> n < 2 ^ 31 \<Longrightarrow> append_eos file out (JInt n) = Inr (if n \<in> set out then out else out @ [n])"
  by (simp add: append_eos_def Let_def)

lemma fold_append_eos:
  "\<forall>n\<in>set ids. 0 \<le> n \<and> n < 2 ^ 31 \<Longrightarrow>
     foldE (append_eos file) (map JInt ids) (first_occurrences out) = Inr (first_occurrences (out @ ids))"
proof (induction ids arbitrary: out)
  case (Cons n ids)
  have "append_eos file (first_occurrences out) (JInt n) = Inr (first_occurrences (out @ [n]))"
    using Cons.prems by (simp add: append_eos_ok first_occurrences_def)
  with Cons.IH[of "out @ [n]"] Cons.prems show ?case by simp
qed simp

text \<open>
  The stop set keeps file order and drops repetitions. For a non-empty array of integer
  token ids in the int32 range \<open>ExtractEosSet\<close> returns each id once, in the order of first
  occurrence.
\<close>

theorem eos_set_first_occurrences:
  assumes "find_key gen ''eos_token_id'' = Some (JArr (map JInt ids))" and "ids \<noteq> []"
    and "\<forall>n\<in>set ids. 0 \<le> n \<and> n < 2 ^ 31"
  shows "ExtractEosSet gen file = Inr (first_occurrences ids)"
  using assms fold_append_eos[of ids _ "[]"]
  by (simp add: ExtractEosSet_def Require_def first_occurrences_def)

theorem eos_set_first_occurrences_witness:
  "ExtractEosSet demo_generation_json ''g'' = Inr [151645, 151643]"
  using eos_set_first_occurrences[of demo_generation_json "[151645, 151643, 151645]" "''g''"]
  by (simp add: demo_generation_json_def first_occurrences_def)

end
