(* ===== verification/Gemm.thy ===== *)
theory Gemm
  imports Core_Types
begin

text \<open>
  \<^verbatim>\<open>src/src/gemm/cublaslt_gemm.{hpp,cpp}\<close>: the configurations of the matrix products,
  their validation, and the plan cache in front of the cuBLASLt heuristic.

  cuBLASLt is a library outside the repository: the record \<open>CublasLt\<close> is a parameter of the
  definitions that use it. \<open>desc_ok c\<close> says whether every descriptor call for \<open>c\<close> succeeds,
  \<open>heuristic c\<close> is the status and the candidates of the heuristic query, and \<open>matmul_ok c\<close>
  whether the launch succeeds. The device metadata and the report are not modelled.
\<close>

section \<open>Configurations\<close>

datatype GemmEpilogue = kEpilogueNone | kBias
datatype cublasOperation = CUBLAS_OP_N | CUBLAS_OP_T | CUBLAS_OP_C
datatype cudaDataType = CUDA_R_16F | CUDA_R_32F | CUDA_R_other

record GemmConfig =
  gm :: int
  gn :: int
  gk :: int
  op_a :: cublasOperation
  op_b :: cublasOperation
  lda :: int
  ldb :: int
  ldd :: int
  type_d :: cudaDataType
  epilogue :: GemmEpilogue
  batch :: int
  stride_a :: int
  stride_b :: int
  stride_d :: int
  min_align_a_bytes :: int
  min_align_b_bytes :: int
  min_align_d_bytes :: int

definition IsPowerOfTwo :: "int \<Rightarrow> bool" where
  "IsPowerOfTwo v \<longleftrightarrow> v > 0 \<and> and v (v - 1) = 0"

definition ValidateConfig :: "GemmConfig \<Rightarrow> exn + unit" where
  "ValidateConfig c =
     bindE (assertE (\<not> (gm c < 1 \<or> gn c < 1 \<or> gk c < 1)) (GemmError ''m, n, k must all be >= 1'')) (\<lambda>_.
     bindE (assertE (op_a c = CUBLAS_OP_N \<or> op_a c = CUBLAS_OP_T) (GemmError ''op_a must be N or T'')) (\<lambda>_.
     bindE (assertE (op_b c = CUBLAS_OP_N \<or> op_b c = CUBLAS_OP_T) (GemmError ''op_b must be N or T'')) (\<lambda>_.
     let stored_rows_a = (if op_a c = CUBLAS_OP_N then gm c else gk c);
         stored_rows_b = (if op_b c = CUBLAS_OP_N then gk c else gn c) in
     bindE (assertE (\<not> lda c < stored_rows_a) (GemmError ''lda smaller than the stored A row count'')) (\<lambda>_.
     bindE (assertE (\<not> ldb c < stored_rows_b) (GemmError ''ldb smaller than the stored B row count'')) (\<lambda>_.
     bindE (assertE (\<not> ldd c < gm c) (GemmError ''ldd smaller than m'')) (\<lambda>_.
     bindE (assertE (type_d c = CUDA_R_16F \<or> type_d c = CUDA_R_32F) (GemmError ''type_d must be CUDA_R_16F or CUDA_R_32F'')) (\<lambda>_.
     bindE (assertE (\<not> batch c < 1) (GemmError ''batch must be >= 1'')) (\<lambda>_.
     bindE (if batch c > 1 then
              bindE (assertE (\<not> (stride_a c < 0 \<or> stride_b c < 0 \<or> stride_d c < 0))
                       (GemmError ''batch strides must be non-negative'')) (\<lambda>_.
              assertE (stride_d c \<noteq> 0) (GemmError ''stride_d of 0 would overlap batched outputs''))
            else Inr ()) (\<lambda>_.
     bindE (if epilogue c = kBias then
              bindE (assertE (batch c = 1) (GemmError ''the bias epilogue is only used non-batched'')) (\<lambda>_.
              assertE (type_d c = CUDA_R_16F) (GemmError ''the bias epilogue requires FP16 D''))
            else Inr ()) (\<lambda>_.
     assertE (IsPowerOfTwo (min_align_a_bytes c) \<and> IsPowerOfTwo (min_align_b_bytes c) \<and>
              IsPowerOfTwo (min_align_d_bytes c))
       (GemmError ''minimum alignments must be powers of two'')))))))))))"

definition Linear :: "int \<Rightarrow> int \<Rightarrow> int \<Rightarrow> int \<Rightarrow> int \<Rightarrow> GemmEpilogue \<Rightarrow> GemmConfig" where
  "Linear rows out_features in_features act_row_stride out_row_stride ep =
     \<lparr>gm = out_features, gn = rows, gk = in_features, op_a = CUBLAS_OP_T, op_b = CUBLAS_OP_N,
      lda = in_features, ldb = act_row_stride, ldd = out_row_stride, type_d = CUDA_R_16F,
      epilogue = ep, batch = 1, stride_a = 0, stride_b = 0, stride_d = 0,
      min_align_a_bytes = 16, min_align_b_bytes = 16, min_align_d_bytes = 16\<rparr>"

definition PrefillScores :: "int \<Rightarrow> int \<Rightarrow> int \<Rightarrow> int \<Rightarrow> int \<Rightarrow> GemmConfig" where
  "PrefillScores chunk_rows ctx dim heads_per_group q_row_stride =
     \<lparr>gm = ctx, gn = chunk_rows, gk = dim, op_a = CUBLAS_OP_T, op_b = CUBLAS_OP_N,
      lda = dim, ldb = q_row_stride, ldd = ctx, type_d = CUDA_R_32F,
      epilogue = kEpilogueNone, batch = heads_per_group, stride_a = 0,
      stride_b = (if heads_per_group > 1 then dim else 0),
      stride_d = (if heads_per_group > 1 then chunk_rows * ctx else 0),
      min_align_a_bytes = 16, min_align_b_bytes = 16, min_align_d_bytes = 4\<rparr>"

definition PrefillPv :: "int \<Rightarrow> int \<Rightarrow> int \<Rightarrow> int \<Rightarrow> int \<Rightarrow> GemmConfig" where
  "PrefillPv chunk_rows ctx dim heads_per_group out_row_stride =
     \<lparr>gm = dim, gn = chunk_rows, gk = ctx, op_a = CUBLAS_OP_N, op_b = CUBLAS_OP_N,
      lda = dim, ldb = ctx, ldd = out_row_stride, type_d = CUDA_R_16F,
      epilogue = kEpilogueNone, batch = heads_per_group, stride_a = 0,
      stride_b = (if heads_per_group > 1 then chunk_rows * ctx else 0),
      stride_d = (if heads_per_group > 1 then dim else 0),
      min_align_a_bytes = 16, min_align_b_bytes = 2, min_align_d_bytes = 16\<rparr>"

section \<open>The plan cache\<close>

datatype heur_status = HeurSuccess | HeurNotSupported | HeurError

record HeurResult =
  res_ok :: bool
  res_workspace :: nat
  res_algo :: nat

record CublasLt =
  desc_ok :: "GemmConfig \<Rightarrow> bool"
  heuristic :: "GemmConfig \<Rightarrow> heur_status \<times> HeurResult list"
  matmul_ok :: "GemmConfig \<Rightarrow> bool"

record Plan =
  plan_config :: GemmConfig
  plan_tag :: string
  available :: bool
  algo :: nat
  algo_workspace_bytes :: nat

record CublasLtGemm =
  initialized :: bool
  workspace_bytes :: nat
  plans :: "Plan list"
  plan_index :: "GemmConfig \<Rightarrow> nat option"

definition kDefaultWorkspaceBytes :: nat where
  "kDefaultWorkspaceBytes = 32 * 2 ^ 20"

definition new_CublasLtGemm :: CublasLtGemm where
  "new_CublasLtGemm = \<lparr>initialized = False, workspace_bytes = 0, plans = [], plan_index = (\<lambda>_. None)\<rparr>"

definition RequireInit :: "CublasLtGemm \<Rightarrow> exn + unit" where
  "RequireInit g = assertE (initialized g) (GemmError ''Init() must be called before use'')"

definition Normalized :: "GemmConfig \<Rightarrow> GemmConfig" where
  "Normalized c = (if batch c = 1 then c\<lparr>stride_a := 0, stride_b := 0, stride_d := 0\<rparr> else c)"

definition FindPlan :: "CublasLtGemm \<Rightarrow> GemmConfig \<Rightarrow> Plan option" where
  "FindPlan g c = (case plan_index g c of None \<Rightarrow> None | Some i \<Rightarrow> Some (plans g ! i))"

text \<open>The first candidate that succeeded and fits the workspace.\<close>

fun pick_algo :: "nat \<Rightarrow> HeurResult list \<Rightarrow> HeurResult option" where
  "pick_algo ws [] = None"
| "pick_algo ws (x # xs) =
     (if \<not> res_ok x then pick_algo ws xs else if res_workspace x > ws then pick_algo ws xs else Some x)"

definition BuildPlan ::
  "CublasLt \<Rightarrow> CublasLtGemm \<Rightarrow> GemmConfig \<Rightarrow> string \<Rightarrow> exn + (Plan \<times> CublasLtGemm)" where
  "BuildPlan lt g c tag =
     bindE (ValidateConfig c) (\<lambda>_.
     bindE (assertE (desc_ok lt c) (GemmError ''descriptor construction failed'')) (\<lambda>_.
     bindE (case fst (heuristic lt c) of
              HeurSuccess \<Rightarrow> Inr (pick_algo (workspace_bytes g) (snd (heuristic lt c)))
            | HeurNotSupported \<Rightarrow> Inr None
            | HeurError \<Rightarrow> Inl (GemmError ''cublasLtMatmulAlgoGetHeuristic'')) (\<lambda>sel.
     let plan = \<lparr>plan_config = c, plan_tag = tag, available = (sel \<noteq> None),
                 algo = (case sel of None \<Rightarrow> 0 | Some x \<Rightarrow> res_algo x),
                 algo_workspace_bytes = (case sel of None \<Rightarrow> 0 | Some x \<Rightarrow> res_workspace x)\<rparr>
     in Inr (plan, g\<lparr>plans := plans g @ [plan],
                     plan_index := (plan_index g)(c \<mapsto> length (plans g))\<rparr>))))"

definition Probe ::
  "CublasLt \<Rightarrow> CublasLtGemm \<Rightarrow> GemmConfig \<Rightarrow> string \<Rightarrow> exn + (bool \<times> CublasLtGemm)" where
  "Probe lt g c tag =
     bindE (RequireInit g) (\<lambda>_.
     let c' = Normalized c in
     case FindPlan g c' of
       Some plan \<Rightarrow> Inr (available plan, g)
     | None \<Rightarrow> bindE (BuildPlan lt g c' tag) (\<lambda>(plan, g'). Inr (available plan, g')))"

text \<open>\<open>capture\<close> is the answer of \<^verbatim>\<open>cudaStreamIsCapturing\<close>; \<open>None\<close> is a failed query.\<close>

definition PlanFor ::
  "CublasLt \<Rightarrow> bool option \<Rightarrow> CublasLtGemm \<Rightarrow> GemmConfig \<Rightarrow> string \<Rightarrow> exn + (Plan \<times> CublasLtGemm)" where
  "PlanFor lt capture g c tag =
     (case FindPlan g c of
        Some plan \<Rightarrow> Inr (plan, g)
      | None \<Rightarrow>
          bindE (RequireInit g) (\<lambda>_.
          bindE (assertE (capture \<noteq> None) (GemmError ''cudaStreamIsCapturing failed'')) (\<lambda>_.
          bindE (assertE (capture = Some False)
                   (GemmError ''configuration missing from the plan cache while the stream is capturing'')) (\<lambda>_.
          BuildPlan lt g c tag))))"

definition RunImpl ::
  "CublasLt \<Rightarrow> bool option \<Rightarrow> CublasLtGemm \<Rightarrow> GemmConfig \<Rightarrow> string \<Rightarrow> exn + CublasLtGemm" where
  "RunImpl lt capture g c tag =
     bindE (RequireInit g) (\<lambda>_.
     let c' = Normalized c in
     bindE (PlanFor lt capture g c' tag) (\<lambda>(plan, g').
     bindE (assertE (available plan) (GemmError ''no cuBLASLt algorithm available'')) (\<lambda>_.
     bindE (assertE (matmul_ok lt c') (GemmError ''cublasLtMatmul'')) (\<lambda>_.
     Inr g'))))"

definition GemmFp16 ::
  "CublasLt \<Rightarrow> bool option \<Rightarrow> CublasLtGemm \<Rightarrow> int \<Rightarrow> int \<Rightarrow> int \<Rightarrow> int \<Rightarrow> int \<Rightarrow> exn + CublasLtGemm" where
  "GemmFp16 lt capture g out_row_stride act_row_stride rows out_features in_features =
     RunImpl lt capture g (Linear rows out_features in_features act_row_stride out_row_stride kEpilogueNone)
       ''linear''"

definition GemmBiasFp16 ::
  "CublasLt \<Rightarrow> bool option \<Rightarrow> CublasLtGemm \<Rightarrow> int \<Rightarrow> int \<Rightarrow> bool \<Rightarrow> int \<Rightarrow> int \<Rightarrow> int \<Rightarrow> exn + CublasLtGemm" where
  "GemmBiasFp16 lt capture g out_row_stride act_row_stride bias_is_null rows out_features in_features =
     bindE (assertE (\<not> bias_is_null) (GemmError ''GemmBiasFp16 requires a non-null bias vector'')) (\<lambda>_.
     RunImpl lt capture g (Linear rows out_features in_features act_row_stride out_row_stride kBias)
       ''linear_bias'')"

definition GemmStridedBatched ::
  "cudaDataType \<Rightarrow> CublasLt \<Rightarrow> bool option \<Rightarrow> CublasLtGemm \<Rightarrow> GemmConfig \<Rightarrow> exn + CublasLtGemm" where
  "GemmStridedBatched d_type lt capture g c =
     bindE (assertE (type_d c = d_type) (GemmError ''overload called with the wrong config.type_d'')) (\<lambda>_.
     bindE (assertE (epilogue c = kEpilogueNone) (GemmError ''strided-batched runs do not support epilogues'')) (\<lambda>_.
     RunImpl lt capture g c
       (if d_type = CUDA_R_16F then ''strided_batched_f16'' else ''strided_batched_f32'')))"

definition probe_one ::
  "CublasLt \<Rightarrow> CublasLtGemm \<Rightarrow> GemmConfig \<times> string \<Rightarrow> exn + CublasLtGemm" where
  "probe_one lt g = (\<lambda>(c, tag). bindE (Probe lt g c tag) (\<lambda>(_, g'). Inr g'))"

definition self_check_shapes :: "(GemmConfig \<times> string) list" where
  "self_check_shapes =
     [(Linear 1 2048 1536 1536 2048 kBias, ''self_check:qkv_bias''),
      (Linear 1 2048 1536 1536 2048 kEpilogueNone, ''self_check:qkv_plain_fallback''),
      (Linear 1 1536 1536 1536 1536 kEpilogueNone, ''self_check:o_proj''),
      (Linear 1 17920 1536 1536 17920 kEpilogueNone, ''self_check:gate_up''),
      (Linear 1 1536 8960 17920 1536 kEpilogueNone, ''self_check:down''),
      (Linear 1 151936 1536 1536 151936 kEpilogueNone, ''self_check:lm_head''),
      (PrefillScores 64 256 128 6 2048, ''self_check:prefill_scores_batched''),
      (PrefillScores 64 256 128 1 2048, ''self_check:prefill_scores_per_head''),
      (PrefillPv 64 256 128 6 1536, ''self_check:prefill_pv_batched''),
      (PrefillPv 64 256 128 1 1536, ''self_check:prefill_pv_per_head'')]"

definition SelfCheckModelShapes :: "CublasLt \<Rightarrow> CublasLtGemm \<Rightarrow> exn + CublasLtGemm" where
  "SelfCheckModelShapes lt g = foldE (probe_one lt) self_check_shapes g"

text \<open>\<open>handle_ok\<close> and \<open>alloc_ok\<close> are the outcomes of \<^verbatim>\<open>cublasLtCreate\<close> and \<^verbatim>\<open>cudaMalloc\<close>.\<close>

definition Init ::
  "CublasLt \<Rightarrow> bool \<Rightarrow> bool \<Rightarrow> CublasLtGemm \<Rightarrow> nat \<Rightarrow> exn + CublasLtGemm" where
  "Init lt handle_ok alloc_ok g ws =
     bindE (assertE (\<not> initialized g) (GemmError ''Init() called twice'')) (\<lambda>_.
     bindE (assertE (ws \<noteq> 0) (GemmError ''workspace size must be nonzero'')) (\<lambda>_.
     bindE (assertE handle_ok (GemmError ''cublasLtCreate'')) (\<lambda>_.
     bindE (assertE alloc_ok (GemmError ''cudaMalloc of the shared workspace failed'')) (\<lambda>_.
     SelfCheckModelShapes lt (g\<lparr>initialized := True, workspace_bytes := ws\<rparr>)))))"

section \<open>A cache filled on demand\<close>

text \<open>
  What the run path relies on: building an entry that is absent adds exactly that entry.
  From this, fetching is stable: a fetched entry is found ever after, and fetching it again
  changes nothing.
\<close>

locale memo_cache =
  fixes find :: "'s \<Rightarrow> 'k \<Rightarrow> 'v option"
    and build :: "'s \<Rightarrow> 'k \<Rightarrow> 'e + ('v \<times> 's)"
    and inv :: "'s \<Rightarrow> bool"
  assumes build_adds: "inv s \<Longrightarrow> find s k = None \<Longrightarrow> build s k = Inr (v, s') \<Longrightarrow>
      inv s' \<and> find s' = (find s)(k \<mapsto> v)"
begin

definition fetch :: "'s \<Rightarrow> 'k \<Rightarrow> 'e + ('v \<times> 's)" where
  "fetch s k = (case find s k of Some v \<Rightarrow> Inr (v, s) | None \<Rightarrow> build s k)"

definition extends :: "'s \<Rightarrow> 's \<Rightarrow> bool" where
  "extends s s' \<longleftrightarrow> find s \<subseteq>\<^sub>m find s'"

lemma extends_refl: "extends s s"
  by (simp add: extends_def)

lemma extends_trans: "extends s t \<Longrightarrow> extends t u \<Longrightarrow> extends s u"
  by (auto simp: extends_def intro: map_le_trans)

lemma extends_find: "extends s s' \<Longrightarrow> find s k = Some v \<Longrightarrow> find s' k = Some v"
  by (auto simp: extends_def map_le_def dom_def)

lemma fetch_ok:
  assumes "inv s" and "fetch s k = Inr (v, s')"
  shows "inv s'" and "extends s s'" and "find s' k = Some v"
proof -
  have "inv s' \<and> extends s s' \<and> find s' k = Some v"
  proof (cases "find s k")
    case None
    with assms have b: "build s k = Inr (v, s')" by (simp add: fetch_def)
    from build_adds[OF assms(1) None b] None show ?thesis
      by (auto simp: extends_def map_le_def dom_def)
  next
    case (Some w)
    with assms show ?thesis by (auto simp: fetch_def extends_refl)
  qed
  then show "inv s'" and "extends s s'" and "find s' k = Some v" by simp_all
qed

lemma fetch_again:
  assumes "inv s" and "fetch s k = Inr (v, s')" and "extends s' t"
  shows "fetch t k = Inr (v, t)"
  using extends_find[OF assms(3) fetch_ok(3)[OF assms(1,2)]] by (simp add: fetch_def)

end

definition gemm_inv :: "CublasLtGemm \<Rightarrow> bool" where
  "gemm_inv g \<longleftrightarrow>
     (\<forall>c i. plan_index g c = Some i \<longrightarrow> i < length (plans g) \<and> plan_config (plans g ! i) = c) \<and>
     (\<forall>p\<in>set (plans g). available p \<longrightarrow> algo_workspace_bytes p \<le> workspace_bytes g)"

lemma pick_algo_fits: "pick_algo ws xs = Some x \<Longrightarrow> res_ok x \<and> res_workspace x \<le> ws"
  by (induction xs) (auto split: if_splits)

lemma BuildPlan_adds:
  assumes inv: "gemm_inv g" and b: "BuildPlan lt g c tag = Inr (plan, g')"
  shows "gemm_inv g' \<and> FindPlan g' = (FindPlan g)(c \<mapsto> plan)"
proof -
  from b obtain sel where
    plan: "plan = \<lparr>plan_config = c, plan_tag = tag, available = (sel \<noteq> None),
        algo = (case sel of None \<Rightarrow> 0 | Some x \<Rightarrow> res_algo x),
        algo_workspace_bytes = (case sel of None \<Rightarrow> 0 | Some x \<Rightarrow> res_workspace x)\<rparr>"
    and g': "g' = g\<lparr>plans := plans g @ [plan], plan_index := (plan_index g)(c \<mapsto> length (plans g))\<rparr>"
    and sel: "sel = None \<or> sel = pick_algo (workspace_bytes g) (snd (heuristic lt c))"
    by (auto simp: BuildPlan_def bindE_Inr_iff Let_def split: heur_status.splits)
  have "available plan \<longrightarrow> algo_workspace_bytes plan \<le> workspace_bytes g"
    using sel pick_algo_fits by (cases sel) (auto simp: plan)
  then have "gemm_inv g'"
    using inv plan by (auto simp: gemm_inv_def g' nth_append less_SucI split: if_splits)
  moreover have "FindPlan g' = (FindPlan g)(c \<mapsto> plan)"
  proof
    fix k
    show "FindPlan g' k = ((FindPlan g)(c \<mapsto> plan)) k"
      using inv by (cases "plan_index g k") (auto simp: FindPlan_def g' gemm_inv_def nth_append)
  qed
  ultimately show ?thesis ..
qed

interpretation plan_cache: memo_cache FindPlan "\<lambda>g c. BuildPlan lt g c tag" gemm_inv for lt tag
  by unfold_locales (rule BuildPlan_adds)

lemma BuildPlan_frame:
  "BuildPlan lt g c tag = Inr (plan, g') \<Longrightarrow>
     initialized g' = initialized g \<and> workspace_bytes g' = workspace_bytes g"
  by (auto simp: BuildPlan_def bindE_Inr_iff Let_def)

text \<open>A probe is a fetch of the normalised configuration.\<close>

lemma Probe_fetch:
  "Probe lt g c tag = Inr (ok, g') \<longleftrightarrow>
     initialized g \<and> (\<exists>plan. plan_cache.fetch lt tag g (Normalized c) = Inr (plan, g') \<and> ok = available plan)"
  by (auto simp: Probe_def RequireInit_def plan_cache.fetch_def bindE_Inr_iff Let_def split: option.splits)

lemma fetch_init: "plan_cache.fetch lt tag g c = Inr (plan, g') \<Longrightarrow> initialized g' = initialized g"
  by (auto simp: plan_cache.fetch_def dest: BuildPlan_frame split: option.splits)

text \<open>\<open>runnable g c\<close>: the cache has an available plan for \<open>c\<close>.\<close>

definition runnable :: "CublasLtGemm \<Rightarrow> GemmConfig \<Rightarrow> bool" where
  "runnable g c \<longleftrightarrow> (\<exists>p. FindPlan g (Normalized c) = Some p \<and> available p)"

definition gemm_extends :: "CublasLtGemm \<Rightarrow> CublasLtGemm \<Rightarrow> bool" where
  "gemm_extends g g' \<longleftrightarrow> FindPlan g \<subseteq>\<^sub>m FindPlan g' \<and> initialized g' = initialized g"

lemma gemm_extends_refl [simp]: "gemm_extends g g"
  by (simp add: gemm_extends_def)

lemma gemm_extends_trans: "gemm_extends g h \<Longrightarrow> gemm_extends h k \<Longrightarrow> gemm_extends g k"
  by (auto simp: gemm_extends_def intro: map_le_trans)

lemma runnable_extends: "runnable g c \<Longrightarrow> gemm_extends g g' \<Longrightarrow> runnable g' c"
  by (force simp: runnable_def gemm_extends_def map_le_def dom_def)

lemma Probe_ok:
  assumes "gemm_inv g" and "Probe lt g c tag = Inr (ok, g')"
  shows "gemm_inv g' \<and> gemm_extends g g' \<and> (ok \<longrightarrow> runnable g' c)"
  using assms plan_cache.fetch_ok[where lt = lt and tag = tag, OF assms(1)] fetch_init
  by (fastforce simp: Probe_fetch gemm_extends_def plan_cache.extends_def runnable_def)

lemma RunImpl_runnable:
  assumes "initialized g" and "runnable g c"
  shows "RunImpl lt capture g c tag =
    (if matmul_ok lt (Normalized c) then Inr g else Inl (GemmError ''cublasLtMatmul''))"
  using assms by (auto simp: RunImpl_def RequireInit_def PlanFor_def runnable_def Let_def)

end
