(* ===== verification/Executor_Plan.thy ===== *)
theory Executor_Plan
  imports Config Gemm Scheduler
begin

text \<open>
  The allocation plan of \<^verbatim>\<open>src/src/core/model_executor.cpp\<close>: geometry validation, the
  layouts of the device scratch slab and of the pinned mirror slab, and the memory budget.

  The plan is pure arithmetic. \<^verbatim>\<open>std::int64_t\<close> values are \<open>int\<close>; the narrowing of the
  block count to 32 bits in \<open>ComputeBudget\<close> is written out.
\<close>

section \<open>Options and budget\<close>

record ExecutorOptions =
  ex_kv_pool_bytes :: int
  ex_max_batch :: int
  ex_max_seq_len :: int
  ex_prefill_chunk_tokens :: int
  ex_enable_cuda_graphs :: bool
  ex_pad_eager_to_bucket :: int
  ex_debug_dump_dir :: string

definition default_ExecutorOptions :: ExecutorOptions where
  "default_ExecutorOptions =
     \<lparr>ex_kv_pool_bytes = 2 ^ 30, ex_max_batch = 8, ex_max_seq_len = 2048,
      ex_prefill_chunk_tokens = 1024, ex_enable_cuda_graphs = False, ex_pad_eager_to_bucket = 0,
      ex_debug_dump_dir = []\<rparr>"

definition max_blocks_per_seq :: "ExecutorOptions \<Rightarrow> int" where
  "max_blocks_per_seq opts = BlocksForTokens (ex_max_seq_len opts)"

record ExecutorMemoryBudget =
  num_kv_blocks :: int
  kv_pool_bytes :: int
  scratch_bytes :: int
  budget_workspace_bytes :: int
  total_device_bytes :: int
  pinned_host_bytes :: int

section \<open>Slab layouts\<close>

definition kSlabAlign :: int where
  "kSlabAlign = 256"

definition AlignUp :: "int \<Rightarrow> int \<Rightarrow> int" where
  "AlignUp bytes align = (bytes + align - 1) div align * align"

text \<open>\<open>Take offset bytes\<close>: where the region starts, and the planner's offset afterwards.\<close>

definition Take :: "int \<Rightarrow> int \<Rightarrow> int \<times> int" where
  "Take offset bytes = (offset, offset + AlignUp bytes kSlabAlign)"

record ScratchLayout =
  lay_x :: int
  lay_normed :: int
  lay_qkv :: int
  lay_attn_out :: int
  lay_gateup :: int
  lay_mlp_out :: int
  lay_logits :: int
  lay_scores :: int
  lay_probs :: int
  lay_khat :: int
  lay_vhat :: int
  lay_input_ids :: int
  lay_positions :: int
  lay_seq_lens :: int
  lay_block_tables :: int
  lay_argmax :: int
  lay_total_bytes :: int

record PinnedLayout =
  pin_input_ids :: int
  pin_positions :: int
  pin_seq_lens :: int
  pin_block_tables :: int
  pin_argmax :: int
  pin_total_bytes :: int

definition step_rows :: "ExecutorOptions \<Rightarrow> int" where
  "step_rows opts = max (ex_prefill_chunk_tokens opts) (ex_max_batch opts)"

definition qkv_width :: "ModelConfig \<Rightarrow> int" where
  "qkv_width mc = (num_q_heads mc + 2 * num_kv_heads mc) * head_dim mc"

definition gateup_width :: "ModelConfig \<Rightarrow> int" where
  "gateup_width mc = 2 * intermediate_size mc"

definition score_elems :: "ModelConfig \<Rightarrow> ExecutorOptions \<Rightarrow> int" where
  "score_elems mc opts = num_q_heads mc * ex_prefill_chunk_tokens opts * ex_max_seq_len opts"

definition gather_elems :: "ModelConfig \<Rightarrow> ExecutorOptions \<Rightarrow> int" where
  "gather_elems mc opts = num_kv_heads mc * ex_max_seq_len opts * head_dim mc"

definition table_elems :: "ExecutorOptions \<Rightarrow> int" where
  "table_elems opts = ex_max_batch opts * max_blocks_per_seq opts"

definition ComputeScratchLayout :: "ModelConfig \<Rightarrow> ExecutorOptions \<Rightarrow> ScratchLayout" where
  "ComputeScratchLayout mc opts =
     (let rows = step_rows opts; hidden = hidden_size mc;
          t0 = Take 0 (rows * hidden * 2);
          t1 = Take (snd t0) (rows * hidden * 2);
          t2 = Take (snd t1) (rows * qkv_width mc * 2);
          t3 = Take (snd t2) (rows * hidden * 2);
          t4 = Take (snd t3) (rows * gateup_width mc * 2);
          t5 = Take (snd t4) (rows * hidden * 2);
          t6 = Take (snd t5) (ex_max_batch opts * vocab_size mc * 2);
          t7 = Take (snd t6) (score_elems mc opts * 4);
          t8 = Take (snd t7) (score_elems mc opts * 2);
          t9 = Take (snd t8) (gather_elems mc opts * 2);
          t10 = Take (snd t9) (gather_elems mc opts * 2);
          t11 = Take (snd t10) (rows * 4);
          t12 = Take (snd t11) (rows * 4);
          t13 = Take (snd t12) (ex_max_batch opts * 4);
          t14 = Take (snd t13) (table_elems opts * 4);
          t15 = Take (snd t14) (ex_max_batch opts * 4)
      in \<lparr>lay_x = fst t0, lay_normed = fst t1, lay_qkv = fst t2, lay_attn_out = fst t3,
          lay_gateup = fst t4, lay_mlp_out = fst t5, lay_logits = fst t6, lay_scores = fst t7,
          lay_probs = fst t8, lay_khat = fst t9, lay_vhat = fst t10, lay_input_ids = fst t11,
          lay_positions = fst t12, lay_seq_lens = fst t13, lay_block_tables = fst t14,
          lay_argmax = fst t15, lay_total_bytes = snd t15\<rparr>)"

definition ComputePinnedLayout :: "ExecutorOptions \<Rightarrow> PinnedLayout" where
  "ComputePinnedLayout opts =
     (let rows = step_rows opts;
          t0 = Take 0 (rows * 4);
          t1 = Take (snd t0) (rows * 4);
          t2 = Take (snd t1) (ex_max_batch opts * 4);
          t3 = Take (snd t2) (table_elems opts * 4);
          t4 = Take (snd t3) (ex_max_batch opts * 4)
      in \<lparr>pin_input_ids = fst t0, pin_positions = fst t1, pin_seq_lens = fst t2,
          pin_block_tables = fst t3, pin_argmax = fst t4, pin_total_bytes = snd t4\<rparr>)"

section \<open>Validation and budget\<close>

definition ValidateGeometry :: "ModelConfig \<Rightarrow> ExecutorOptions \<Rightarrow> exn + unit" where
  "ValidateGeometry mc opts =
     bindE (assertE (hidden_size mc > 0 \<and> num_layers mc > 0 \<and> num_q_heads mc > 0 \<and> num_kv_heads mc > 0 \<and>
                     head_dim mc > 0 \<and> intermediate_size mc > 0 \<and> vocab_size mc > 0)
              (ExecutorError ''every ModelConfig dimension must be positive'')) (\<lambda>_.
     bindE (assertE (num_q_heads mc * head_dim mc = hidden_size mc)
              (ExecutorError ''num_q_heads * head_dim must equal hidden_size'')) (\<lambda>_.
     bindE (assertE (num_q_heads mc mod num_kv_heads mc = 0)
              (ExecutorError ''num_q_heads must be a multiple of num_kv_heads'')) (\<lambda>_.
     bindE (assertE (ex_max_batch opts \<ge> 1) (ExecutorError ''max_batch must be >= 1'')) (\<lambda>_.
     bindE (assertE (ex_max_seq_len opts \<ge> 1) (ExecutorError ''max_seq_len must be >= 1'')) (\<lambda>_.
     bindE (assertE (ex_prefill_chunk_tokens opts \<ge> 1) (ExecutorError ''prefill_chunk_tokens must be >= 1'')) (\<lambda>_.
     bindE (assertE (ex_pad_eager_to_bucket opts \<ge> 0) (ExecutorError ''pad_eager_to_bucket must be >= 0'')) (\<lambda>_.
     assertE (ex_kv_pool_bytes opts > 0) (ExecutorError ''kv_pool_bytes must be positive''))))))))"

definition to_int32 :: "int \<Rightarrow> int" where
  "to_int32 n = (n + 2 ^ 31) mod 2 ^ 32 - 2 ^ 31"

definition ComputeBudget :: "ModelConfig \<Rightarrow> ExecutorOptions \<Rightarrow> exn + ExecutorMemoryBudget" where
  "ComputeBudget mc opts =
     bindE (ValidateGeometry mc opts) (\<lambda>_.
     let block_bytes = kKvBlockSize * KvBytesPerToken mc;
         n = ex_kv_pool_bytes opts div block_bytes in
     bindE (assertE (\<not> n < 2) (ExecutorError ''kv_pool_bytes holds fewer than 2 KV blocks'')) (\<lambda>_.
     let pool = n * block_bytes;
         scratch = lay_total_bytes (ComputeScratchLayout mc opts);
         ws = int kDefaultWorkspaceBytes
     in Inr \<lparr>num_kv_blocks = to_int32 n, kv_pool_bytes = pool, scratch_bytes = scratch,
             budget_workspace_bytes = ws, total_device_bytes = pool + scratch + ws,
             pinned_host_bytes = pin_total_bytes (ComputePinnedLayout opts)\<rparr>))"

definition geometry_ok :: "ModelConfig \<Rightarrow> ExecutorOptions \<Rightarrow> bool" where
  "geometry_ok mc opts \<longleftrightarrow> ValidateGeometry mc opts = Inr ()"

lemma geometry_okD:
  assumes "geometry_ok mc opts"
  shows "0 < hidden_size mc" "0 < num_layers mc" "0 < num_q_heads mc" "0 < num_kv_heads mc"
    "0 < head_dim mc" "0 < intermediate_size mc" "0 < vocab_size mc"
    "num_q_heads mc * head_dim mc = hidden_size mc" "num_q_heads mc mod num_kv_heads mc = 0"
    "1 \<le> ex_max_batch opts" "1 \<le> ex_max_seq_len opts" "1 \<le> ex_prefill_chunk_tokens opts"
    "0 \<le> ex_pad_eager_to_bucket opts" "0 < ex_kv_pool_bytes opts"
  using assms by (auto simp: geometry_ok_def ValidateGeometry_def bindE_Inr_iff)

lemma KvBytesPerToken_pos: "geometry_ok mc opts \<Longrightarrow> 0 < KvBytesPerToken mc"
  using geometry_okD[of mc opts] by (simp add: KvBytesPerToken_def)

section \<open>The regions of a slab\<close>

text \<open>
  \<open>packed off regions total\<close>: the regions, each a start and a size, follow one another from
  \<open>off\<close> on without overlapping, every start is aligned, and the last one ends within
  \<open>total\<close>.
\<close>

fun packed :: "int \<Rightarrow> (int \<times> int) list \<Rightarrow> int \<Rightarrow> bool" where
  "packed off [] total_bytes \<longleftrightarrow> off \<le> total_bytes"
| "packed off ((beg, sz) # rest) total_bytes \<longleftrightarrow>
     off \<le> beg \<and> 0 \<le> sz \<and> beg mod kSlabAlign = 0 \<and> packed (beg + sz) rest total_bytes"

lemma AlignUp_props:
  "0 \<le> b \<Longrightarrow> b \<le> AlignUp b kSlabAlign" "AlignUp b kSlabAlign mod kSlabAlign = 0"
  using ceil_div_le_iff[of kSlabAlign b "(b + kSlabAlign - 1) div kSlabAlign"]
  by (simp_all add: AlignUp_def kSlabAlign_def)

lemma packed_mono: "packed off rs n \<Longrightarrow> a \<le> off \<Longrightarrow> packed a rs n"
  by (cases rs) auto

lemma packed_step:
  assumes "off mod kSlabAlign = 0" and "0 \<le> bytes"
    and "snd (Take off bytes) mod kSlabAlign = 0 \<Longrightarrow> packed (snd (Take off bytes)) rest n"
  shows "packed off ((fst (Take off bytes), bytes) # rest) n"
proof -
  have "snd (Take off bytes) mod kSlabAlign = 0"
    using assms(1) AlignUp_props(2)[of bytes] by (simp add: Take_def mod_add_eq[symmetric, of off])
  then have "packed (snd (Take off bytes)) rest n" by (rule assms(3))
  moreover have "off + bytes \<le> snd (Take off bytes)"
    using AlignUp_props(1)[OF assms(2)] by (simp add: Take_def)
  ultimately have "packed (off + bytes) rest n" by (rule packed_mono)
  then show ?thesis using assms by (simp add: Take_def)
qed

lemma packed_end: "packed off [] off"
  by simp

lemma packed_disjoint:
  assumes "packed off rs n" and "i < j" and "j < length rs"
  shows "fst (rs ! i) + snd (rs ! i) \<le> fst (rs ! j)"
  using assms
proof (induction rs arbitrary: off i j)
  case (Cons r rs)
  obtain st sz where r: "r = (st, sz)" by (cases r)
  have rest: "packed (st + sz) rs n" using Cons.prems(1) by (simp add: r)
  have le: "st + sz \<le> fst (rs ! m)" if "m < length rs" for m
    using rest that
  proof (induction rs arbitrary: st sz m)
    case (Cons q qs)
    obtain a b where q: "q = (a, b)" by (cases q)
    show ?case
    proof (cases m)
      case 0
      with Cons.prems show ?thesis by (simp add: q)
    next
      case (Suc m')
      have "a + b \<le> fst (qs ! m')" using Cons.IH[of a b m'] Cons.prems Suc by (simp add: q)
      with Cons.prems Suc show ?thesis by (simp add: q)
    qed
  qed simp
  show ?case
  proof (cases i)
    case 0
    with le[of "j - 1"] Cons.prems show ?thesis by (cases j) (simp_all add: r)
  next
    case (Suc i')
    with Cons.IH[OF rest, of i' "j - 1"] Cons.prems show ?thesis by (cases j) simp_all
  qed
qed simp

definition scratch_regions :: "ModelConfig \<Rightarrow> ExecutorOptions \<Rightarrow> (int \<times> int) list" where
  "scratch_regions mc opts =
     (let L = ComputeScratchLayout mc opts; rows = step_rows opts; hidden = hidden_size mc in
      [(lay_x L, rows * hidden * 2), (lay_normed L, rows * hidden * 2),
       (lay_qkv L, rows * qkv_width mc * 2), (lay_attn_out L, rows * hidden * 2),
       (lay_gateup L, rows * gateup_width mc * 2), (lay_mlp_out L, rows * hidden * 2),
       (lay_logits L, ex_max_batch opts * vocab_size mc * 2), (lay_scores L, score_elems mc opts * 4),
       (lay_probs L, score_elems mc opts * 2), (lay_khat L, gather_elems mc opts * 2),
       (lay_vhat L, gather_elems mc opts * 2), (lay_input_ids L, rows * 4), (lay_positions L, rows * 4),
       (lay_seq_lens L, ex_max_batch opts * 4), (lay_block_tables L, table_elems opts * 4),
       (lay_argmax L, ex_max_batch opts * 4)])"

definition pinned_regions :: "ExecutorOptions \<Rightarrow> (int \<times> int) list" where
  "pinned_regions opts =
     (let L = ComputePinnedLayout opts; rows = step_rows opts in
      [(pin_input_ids L, rows * 4), (pin_positions L, rows * 4), (pin_seq_lens L, ex_max_batch opts * 4),
       (pin_block_tables L, table_elems opts * 4), (pin_argmax L, ex_max_batch opts * 4)])"

lemma size_nonneg:
  assumes "geometry_ok mc opts"
  shows "0 \<le> step_rows opts" "0 \<le> qkv_width mc" "0 \<le> gateup_width mc" "0 \<le> score_elems mc opts"
    "0 \<le> gather_elems mc opts" "0 \<le> table_elems opts"
  using geometry_okD[OF assms] BlocksForTokens_nonneg[of "ex_max_seq_len opts"]
  by (simp_all add: step_rows_def qkv_width_def gateup_width_def score_elems_def gather_elems_def
      table_elems_def max_blocks_per_seq_def)

lemma scratch_packed:
  assumes "geometry_ok mc opts"
  shows "packed 0 (scratch_regions mc opts) (lay_total_bytes (ComputeScratchLayout mc opts))"
  unfolding scratch_regions_def ComputeScratchLayout_def Let_def ScratchLayout.simps
  using size_nonneg[OF assms] geometry_okD[OF assms]
  by (intro packed_step packed_end) (simp_all add: less_imp_le)

lemma pinned_packed:
  assumes "geometry_ok mc opts"
  shows "packed 0 (pinned_regions opts) (pin_total_bytes (ComputePinnedLayout opts))"
  unfolding pinned_regions_def ComputePinnedLayout_def Let_def PinnedLayout.simps
  using size_nonneg[OF assms] geometry_okD[OF assms]
  by (intro packed_step packed_end) (simp_all add: less_imp_le)

lemma packed_in:
  assumes "packed off rs n" and "i < length rs"
  shows "off \<le> fst (rs ! i) \<and> fst (rs ! i) + snd (rs ! i) \<le> n \<and> fst (rs ! i) mod kSlabAlign = 0"
  using assms
proof (induction rs arbitrary: off i)
  case (Cons r rs)
  obtain a b where r: "r = (a, b)" by (cases r)
  have rest: "packed (a + b) rs n" using Cons.prems(1) by (simp add: r)
  have "m \<le> n" if "packed m rs n" for m
    using that by (induction rs arbitrary: m) (auto, fastforce)
  with rest Cons show ?case by (cases i) (fastforce simp: r)+
qed simp



text \<open>
  The KV pool budget. When the pool option is at most 1024 GiB and one token's keys and
  values take at least 64 bytes, the block count that \<open>ComputeBudget\<close> stores is the exact
  quotient (it survives the narrowing to 32 bits), is at least 2, and the pool is the largest
  whole number of blocks that fits; the layer slices, each of \<open>2 * num_kv_heads * 16 * head_dim\<close>
  halves per block, tile the pool exactly, and the total is the sum of its three parts.
\<close>

theorem budget_exact:
  assumes "ComputeBudget mc opts = Inr b" and "ex_kv_pool_bytes opts \<le> 2 ^ 40" and "64 \<le> KvBytesPerToken mc"
  shows "num_kv_blocks b = ex_kv_pool_bytes opts div (16 * KvBytesPerToken mc) \<and> 2 \<le> num_kv_blocks b \<and>
     kv_pool_bytes b \<le> ex_kv_pool_bytes opts \<and>
     ex_kv_pool_bytes opts < kv_pool_bytes b + 16 * KvBytesPerToken mc \<and>
     num_layers mc * (num_kv_blocks b * 2 * num_kv_heads mc * kKvBlockSize * head_dim mc) * 2 = kv_pool_bytes b \<and>
     total_device_bytes b = kv_pool_bytes b + scratch_bytes b + budget_workspace_bytes b"
proof -
  let ?bb = "16 * KvBytesPerToken mc"
  let ?n = "ex_kv_pool_bytes opts div ?bb"
  have b: "\<not> ?n < 2" "num_kv_blocks b = to_int32 ?n" "kv_pool_bytes b = ?n * ?bb"
    "total_device_bytes b = kv_pool_bytes b + scratch_bytes b + budget_workspace_bytes b"
    using assms(1) by (auto simp: ComputeBudget_def bindE_Inr_iff Let_def kKvBlockSize_def)
  have bb: "0 < ?bb" "1024 \<le> ?bb" using assms(3) by simp_all
  have "?n * ?bb \<le> ex_kv_pool_bytes opts"
    using bb(1) pos_mod_sign[of ?bb "ex_kv_pool_bytes opts"] div_mult_mod_eq[of "ex_kv_pool_bytes opts" ?bb]
    by linarith
  moreover have "ex_kv_pool_bytes opts < ?n * ?bb + ?bb"
    using bb(1) pos_mod_bound[of ?bb "ex_kv_pool_bytes opts"] div_mult_mod_eq[of "ex_kv_pool_bytes opts" ?bb]
    by linarith
  moreover have "?n \<le> 2 ^ 30"
  proof -
    have "?n * 1024 \<le> ?n * ?bb" using b(1) bb(2) by (intro mult_left_mono) auto
    with \<open>?n * ?bb \<le> _\<close> assms(2) have "?n * 1024 \<le> 2 ^ 40" by linarith
    then show ?thesis by simp
  qed
  then have "to_int32 ?n = ?n" using b(1) by (simp add: to_int32_def)
  ultimately show ?thesis
    using b by (simp add: KvBytesPerToken_def kKvBlockSize_def algebra_simps)
qed

theorem budget_exact_witness:
  "\<exists>b. ComputeBudget (pinned_config []) default_ExecutorOptions = Inr b \<and> num_kv_blocks b = 2340 \<and>
     kv_pool_bytes b \<le> 2 ^ 30"
proof -
  obtain b where b: "ComputeBudget (pinned_config []) default_ExecutorOptions = Inr b"
    "num_kv_blocks b = 2340"
    by (simp add: ComputeBudget_def ValidateGeometry_def pinned_config_def default_ExecutorOptions_def
        KvBytesPerToken_def kKvBlockSize_def Let_def to_int32_def)
  have k: "KvBytesPerToken (pinned_config []) = 28672" by (simp add: KvBytesPerToken_def pinned_config_def)
  from budget_exact[OF b(1)] b k show ?thesis by (auto simp: default_ExecutorOptions_def)
qed

end
