(* ===== verification/Executor_Forward.thy ===== *)
theory Executor_Forward
  imports Executor_Plan
begin

text \<open>
  The launch sequences of \<^verbatim>\<open>src/src/core/model_executor.cpp\<close>: what a decode step and a
  prefill chunk enqueue, in order, with every pointer as a view (a buffer of the scratch slab
  and an element offset) and every stride and extent as passed by the source; and the probes
  of the matrix-product configurations at init.

  The kernels and cuBLASLt compute on the device. Their effect here is the cache of plans and
  the extent of the scratch buffers that a launch reads and writes, which theory
  \<open>Executor_Access\<close> gives. Weights are not part of the scratch slab; the paged pool is
  addressed through the block tables and is treated in theory \<open>Kv_Pool\<close>.
\<close>

section \<open>Buffers and launches\<close>

datatype buffer =
    BX | BNormed | BQkv | BAttnOut | BGateup | BMlpOut | BLogits | BScores | BProbs | BKhat | BVhat
  | BInputIds | BPositions | BSeqLens | BBlockTables | BArgmax

type_synonym view = "buffer \<times> int"

datatype weight =
    WEmbed | WInputNorm int | WQkv int | WQkvBias int | WO int | WPostAttnNorm int | WGateup int
  | WDown int | WFinalNorm | WLmHead

text \<open>The two scale factors passed to the products: \<^verbatim>\<open>attn_scale_\<close>, which is one over the
  root of the head dimension, and \<^verbatim>\<open>1.0f\<close>.\<close>

datatype scale = AttnScale | UnitScale

datatype launch =
    EmbedGather view int weight view int int
  | RmsNorm view view weight int int rat
  | RmsNormResidual view view view weight int int rat
  | LinearGemm view int view int weight "weight option" int int int
  | RopeInplace view view int int view int int int int rat
  | KvScatter int view view int int view int view int int int
  | PagedAttentionDecode view int view int int view view int int int int int scale
  | SiluMul view view int int
  | KvGather view view int int int int int view int int int
  | BatchedGemm cudaDataType view view view scale GemmConfig
  | PrefillSoftmax view view int int int int
  | GreedyArgmax view view int int

datatype PrefillGemmMode = kStridedBatched | kPerHead

definition k_view_offset :: "ModelConfig \<Rightarrow> int" where
  "k_view_offset mc = num_q_heads mc * head_dim mc"

definition v_view_offset :: "ModelConfig \<Rightarrow> int" where
  "v_view_offset mc = k_view_offset mc + num_kv_heads mc * head_dim mc"

definition heads_per_group :: "ModelConfig \<Rightarrow> int" where
  "heads_per_group mc = num_q_heads mc div num_kv_heads mc"

definition gather_plane_stride :: "ModelConfig \<Rightarrow> ExecutorOptions \<Rightarrow> int" where
  "gather_plane_stride mc opts = ex_max_seq_len opts * head_dim mc"

section \<open>The decode step\<close>

definition layer_input_norm :: "ModelConfig \<Rightarrow> int \<Rightarrow> int \<Rightarrow> launch" where
  "layer_input_norm mc rows layer =
     (if layer = 0 then RmsNorm (BNormed, 0) (BX, 0) (WInputNorm 0) rows (hidden_size mc) (rms_norm_eps mc)
      else RmsNormResidual (BNormed, 0) (BX, 0) (BMlpOut, 0) (WInputNorm layer) rows (hidden_size mc)
             (rms_norm_eps mc))"

definition layer_qkv :: "ModelConfig \<Rightarrow> int \<Rightarrow> int \<Rightarrow> launch list" where
  "layer_qkv mc rows layer =
     [LinearGemm (BQkv, 0) (qkv_width mc) (BNormed, 0) (hidden_size mc) (WQkv layer) (Some (WQkvBias layer))
        rows (qkv_width mc) (hidden_size mc),
      RopeInplace (BQkv, 0) (BQkv, k_view_offset mc) (qkv_width mc) (qkv_width mc) (BPositions, 0) rows
        (num_q_heads mc) (num_kv_heads mc) (head_dim mc) (rope_theta mc)]"

definition layer_mlp :: "ModelConfig \<Rightarrow> int \<Rightarrow> int \<Rightarrow> launch list" where
  "layer_mlp mc rows layer =
     [RmsNormResidual (BNormed, 0) (BX, 0) (BMlpOut, 0) (WPostAttnNorm layer) rows (hidden_size mc)
        (rms_norm_eps mc),
      LinearGemm (BGateup, 0) (gateup_width mc) (BNormed, 0) (hidden_size mc) (WGateup layer) None
        rows (gateup_width mc) (hidden_size mc),
      SiluMul (BGateup, 0) (BGateup, 0) rows (intermediate_size mc),
      LinearGemm (BMlpOut, 0) (hidden_size mc) (BGateup, 0) (gateup_width mc) (WDown layer) None
        rows (hidden_size mc) (intermediate_size mc)]"

definition decode_layer :: "ModelConfig \<Rightarrow> ExecutorOptions \<Rightarrow> int \<Rightarrow> int \<Rightarrow> launch list" where
  "decode_layer mc opts rows layer =
     layer_input_norm mc rows layer # layer_qkv mc rows layer @
     [KvScatter layer (BQkv, k_view_offset mc) (BQkv, v_view_offset mc) (qkv_width mc) (qkv_width mc)
        (BBlockTables, 0) (max_blocks_per_seq opts) (BPositions, 0) rows (num_kv_heads mc) (head_dim mc),
      PagedAttentionDecode (BAttnOut, 0) (hidden_size mc) (BQkv, 0) (qkv_width mc) layer (BBlockTables, 0)
        (BSeqLens, 0) rows (max_blocks_per_seq opts) (num_q_heads mc) (num_kv_heads mc) (head_dim mc) AttnScale,
      LinearGemm (BMlpOut, 0) (hidden_size mc) (BAttnOut, 0) (hidden_size mc) (WO layer) None
        rows (hidden_size mc) (hidden_size mc)] @
     layer_mlp mc rows layer"

definition EnqueueDecodeForward :: "ModelConfig \<Rightarrow> ExecutorOptions \<Rightarrow> int \<Rightarrow> launch list" where
  "EnqueueDecodeForward mc opts rows =
     EmbedGather (BX, 0) (hidden_size mc) WEmbed (BInputIds, 0) rows (hidden_size mc) #
     concat (map (decode_layer mc opts rows) [0..num_layers mc - 1]) @
     [RmsNormResidual (BNormed, 0) (BX, 0) (BMlpOut, 0) WFinalNorm rows (hidden_size mc) (rms_norm_eps mc),
      LinearGemm (BLogits, 0) (vocab_size mc) (BNormed, 0) (hidden_size mc) WLmHead None
        rows (vocab_size mc) (hidden_size mc)]"

definition EnqueueArgmax :: "ModelConfig \<Rightarrow> int \<Rightarrow> launch list" where
  "EnqueueArgmax mc rows = [GreedyArgmax (BArgmax, 0) (BLogits, 0) rows (vocab_size mc)]"

section \<open>The prefill chunk\<close>

definition EnqueuePrefillAttention ::
  "ModelConfig \<Rightarrow> ExecutorOptions \<Rightarrow> int \<Rightarrow> int \<Rightarrow> int \<Rightarrow> int \<Rightarrow> PrefillGemmMode \<Rightarrow> launch list" where
  "EnqueuePrefillAttention mc opts layer rows chunk_start ctx mode =
     (let dim = head_dim mc; score_plane = rows * ctx; plane = gather_plane_stride mc opts;
          group = heads_per_group mc in
      KvGather (BKhat, 0) (BVhat, 0) plane dim plane dim layer (BBlockTables, 0) ctx (num_kv_heads mc) dim #
      (if mode = kStridedBatched then
         map (\<lambda>g. BatchedGemm CUDA_R_32F (BScores, g * group * score_plane) (BKhat, g * plane)
                    (BQkv, g * group * dim) AttnScale (PrefillScores rows ctx dim group (qkv_width mc)))
           [0..num_kv_heads mc - 1]
       else
         map (\<lambda>h. BatchedGemm CUDA_R_32F (BScores, h * score_plane) (BKhat, h div group * plane)
                    (BQkv, h * dim) AttnScale (PrefillScores rows ctx dim 1 (qkv_width mc)))
           [0..num_q_heads mc - 1]) @
      [PrefillSoftmax (BProbs, 0) (BScores, 0) (num_q_heads mc) rows ctx chunk_start] @
      (if mode = kStridedBatched then
         map (\<lambda>g. BatchedGemm CUDA_R_16F (BAttnOut, g * group * dim) (BVhat, g * plane)
                    (BProbs, g * group * score_plane) UnitScale (PrefillPv rows ctx dim group (hidden_size mc)))
           [0..num_kv_heads mc - 1]
       else
         map (\<lambda>h. BatchedGemm CUDA_R_16F (BAttnOut, h * dim) (BVhat, h div group * plane)
                    (BProbs, h * score_plane) UnitScale (PrefillPv rows ctx dim 1 (hidden_size mc)))
           [0..num_q_heads mc - 1]))"

definition prefill_layer ::
  "ModelConfig \<Rightarrow> ExecutorOptions \<Rightarrow> int \<Rightarrow> int \<Rightarrow> int \<Rightarrow> PrefillGemmMode \<Rightarrow> int \<Rightarrow> launch list" where
  "prefill_layer mc opts rows chunk_start ctx mode layer =
     layer_input_norm mc rows layer # layer_qkv mc rows layer @
     [KvScatter layer (BQkv, k_view_offset mc) (BQkv, v_view_offset mc) (qkv_width mc) (qkv_width mc)
        (BBlockTables, 0) 0 (BPositions, 0) rows (num_kv_heads mc) (head_dim mc)] @
     EnqueuePrefillAttention mc opts layer rows chunk_start ctx mode @
     [LinearGemm (BMlpOut, 0) (hidden_size mc) (BAttnOut, 0) (hidden_size mc) (WO layer) None
        rows (hidden_size mc) (hidden_size mc)] @
     layer_mlp mc rows layer"

definition EnqueuePrefillForward ::
  "ModelConfig \<Rightarrow> ExecutorOptions \<Rightarrow> int \<Rightarrow> int \<Rightarrow> int \<Rightarrow> bool \<Rightarrow> PrefillGemmMode \<Rightarrow> launch list" where
  "EnqueuePrefillForward mc opts rows chunk_start ctx final_chunk mode =
     EmbedGather (BX, 0) (hidden_size mc) WEmbed (BInputIds, 0) rows (hidden_size mc) #
     concat (map (prefill_layer mc opts rows chunk_start ctx mode) [0..num_layers mc - 1]) @
     (if final_chunk then
        let last_row = (rows - 1) * hidden_size mc in
        [RmsNormResidual (BNormed, last_row) (BX, last_row) (BMlpOut, last_row) WFinalNorm 1 (hidden_size mc)
           (rms_norm_eps mc),
         LinearGemm (BLogits, 0) (vocab_size mc) (BNormed, last_row) (hidden_size mc) WLmHead None
           1 (vocab_size mc) (hidden_size mc)]
      else [])"

section \<open>Running launches against the plan cache\<close>

fun run_launch :: "CublasLt \<Rightarrow> bool option \<Rightarrow> CublasLtGemm \<Rightarrow> launch \<Rightarrow> exn + CublasLtGemm" where
  "run_launch lt capture g (LinearGemm _ out_stride _ act_stride _ bias rows out_features in_features) =
     (case bias of
        None \<Rightarrow> GemmFp16 lt capture g out_stride act_stride rows out_features in_features
      | Some _ \<Rightarrow> GemmBiasFp16 lt capture g out_stride act_stride False rows out_features in_features)"
| "run_launch lt capture g (BatchedGemm d_type _ _ _ _ c) = GemmStridedBatched d_type lt capture g c"
| "run_launch lt capture g _ = Inr g"

definition run_launches ::
  "CublasLt \<Rightarrow> bool option \<Rightarrow> launch list \<Rightarrow> CublasLtGemm \<Rightarrow> exn + CublasLtGemm" where
  "run_launches lt capture ls g = foldE (run_launch lt capture) ls g"

fun launch_config :: "launch \<Rightarrow> GemmConfig option" where
  "launch_config (LinearGemm _ out_stride _ act_stride _ bias rows out_features in_features) =
     Some (Linear rows out_features in_features act_stride out_stride
             (if bias = None then kEpilogueNone else kBias))"
| "launch_config (BatchedGemm d_type _ _ _ _ c) = Some c"
| "launch_config _ = None"

section \<open>Probes at init\<close>

definition decode_row_shapes :: "ExecutorOptions \<Rightarrow> int list" where
  "decode_row_shapes opts =
     (let buckets = MakeDecodeBuckets (ex_max_batch opts) in
      if buckets = [] \<or> last buckets \<noteq> ex_max_batch opts then buckets @ [ex_max_batch opts] else buckets)"

definition decode_probes :: "ModelConfig \<Rightarrow> int \<Rightarrow> (GemmConfig \<times> string) list" where
  "decode_probes mc rows =
     (let prefix = ''decode[b='' @ to_string rows @ '']:'' in
      [(Linear rows (qkv_width mc) (hidden_size mc) (hidden_size mc) (qkv_width mc) kBias, prefix @ ''qkv_bias''),
       (Linear rows (hidden_size mc) (hidden_size mc) (hidden_size mc) (hidden_size mc) kEpilogueNone, prefix @ ''o''),
       (Linear rows (gateup_width mc) (hidden_size mc) (hidden_size mc) (gateup_width mc) kEpilogueNone,
          prefix @ ''gateup''),
       (Linear rows (hidden_size mc) (intermediate_size mc) (gateup_width mc) (hidden_size mc) kEpilogueNone,
          prefix @ ''down''),
       (Linear rows (vocab_size mc) (hidden_size mc) (hidden_size mc) (vocab_size mc) kEpilogueNone,
          prefix @ ''lm_head'')])"

text \<open>One probe of a list: the state is the cache and the names found unavailable so far.\<close>

definition probe_step ::
  "CublasLt \<Rightarrow> CublasLtGemm \<times> string list \<Rightarrow> GemmConfig \<times> string \<Rightarrow> exn + (CublasLtGemm \<times> string list)" where
  "probe_step lt = (\<lambda>(g, unavailable) (c, name).
     bindE (Probe lt g c name) (\<lambda>(ok, g').
     Inr (g', if ok then unavailable else unavailable @ [name])))"

definition ProbeDecodeGemmConfigs ::
  "CublasLt \<Rightarrow> ModelConfig \<Rightarrow> ExecutorOptions \<Rightarrow> CublasLtGemm \<Rightarrow> exn + CublasLtGemm" where
  "ProbeDecodeGemmConfigs lt mc opts g =
     bindE (foldE (probe_step lt) (concat (map (decode_probes mc) (decode_row_shapes opts))) (g, []))
       (\<lambda>(g', unavailable).
     bindE (assertE (unavailable = []) (ExecutorError ''no algorithm for decode GEMM configuration(s)'')) (\<lambda>_.
     Inr g'))"

definition prefill_probes :: "ModelConfig \<Rightarrow> int \<Rightarrow> (GemmConfig \<times> string) list" where
  "prefill_probes mc rows =
     (let prefix = ''prefill[T='' @ to_string rows @ '']:'' in
      [(Linear rows (qkv_width mc) (hidden_size mc) (hidden_size mc) (qkv_width mc) kBias, prefix @ ''qkv_bias''),
       (Linear rows (hidden_size mc) (hidden_size mc) (hidden_size mc) (hidden_size mc) kEpilogueNone, prefix @ ''o''),
       (Linear rows (gateup_width mc) (hidden_size mc) (hidden_size mc) (gateup_width mc) kEpilogueNone,
          prefix @ ''gateup''),
       (Linear rows (hidden_size mc) (intermediate_size mc) (gateup_width mc) (hidden_size mc) kEpilogueNone,
          prefix @ ''down'')])"

definition ProbePrefillGemmConfigs ::
  "CublasLt \<Rightarrow> ModelConfig \<Rightarrow> ExecutorOptions \<Rightarrow> CublasLtGemm \<Rightarrow> exn + (PrefillGemmMode \<times> CublasLtGemm)" where
  "ProbePrefillGemmConfigs lt mc opts g =
     (let rep_rows = min (ex_prefill_chunk_tokens opts) (ex_max_seq_len opts);
          rep_ctx = ex_max_seq_len opts; dim = head_dim mc; group = heads_per_group mc in
      bindE (foldE (probe_step lt) (prefill_probes mc rep_rows) (g, [])) (\<lambda>(g1, unavailable).
      bindE (assertE (unavailable = []) (ExecutorError ''no algorithm for prefill GEMM configuration(s)'')) (\<lambda>_.
      bindE (Probe lt g1 (PrefillScores rep_rows rep_ctx dim group (qkv_width mc)) ''prefill:scores_strided_batched'')
        (\<lambda>(batched_scores, g2).
      bindE (Probe lt g2 (PrefillPv rep_rows rep_ctx dim group (hidden_size mc)) ''prefill:pv_strided_batched'')
        (\<lambda>(batched_pv, g3).
      bindE (Probe lt g3 (PrefillScores rep_rows rep_ctx dim 1 (qkv_width mc)) ''prefill:scores_per_head'')
        (\<lambda>(per_head_scores, g4).
      bindE (Probe lt g4 (PrefillPv rep_rows rep_ctx dim 1 (hidden_size mc)) ''prefill:pv_per_head'')
        (\<lambda>(per_head_pv, g5).
      if batched_scores \<and> batched_pv then Inr (kStridedBatched, g5)
      else if per_head_scores \<and> per_head_pv then Inr (kPerHead, g5)
      else Inl (ExecutorError ''no algorithm for the prefill attention GEMMs''))))))))"

end
