(* ===== verification/Executor_Bounds.thy ===== *)
theory Executor_Bounds
  imports Executor_Forward
begin

text \<open>
  What the launch sequences of theory \<open>Executor_Forward\<close> guarantee.

  The probes at init fill the plan cache with every configuration a bucketed decode step asks
  for, so that a captured step never queries the heuristic. The extents of all launches stay
  within the regions of the scratch slab. The two forms of the prefill attention products
  compute the same cells from the same elements.
\<close>

section \<open>Probed configurations\<close>

lemma probe_step_ok:
  assumes "gemm_inv g" and "probe_step lt (g, us) (c, name) = Inr (g', us')"
  shows "gemm_inv g' \<and> gemm_extends g g' \<and> (us' = us @ [name] \<or> us' = us \<and> runnable g' c)"
proof -
  obtain ok where p: "Probe lt g c name = Inr (ok, g')" "us' = (if ok then us else us @ [name])"
    using assms(2) by (auto simp: probe_step_def bindE_Inr_iff)
  from Probe_ok[OF assms(1) p(1)] p(2) show ?thesis by simp
qed

lemma probe_steps_ok:
  assumes "gemm_inv g" and "foldE (probe_step lt) ps (g, us) = Inr (g', us')"
  shows "gemm_inv g' \<and> gemm_extends g g' \<and> (\<exists>vs. us' = us @ vs \<and>
           (vs = [] \<longrightarrow> (\<forall>p\<in>set ps. runnable g' (fst p))))"
  using assms
proof (induction ps arbitrary: g us)
  case (Cons p ps)
  obtain c name where p: "p = (c, name)" by (cases p)
  obtain g1 us1 where s: "probe_step lt (g, us) (c, name) = Inr (g1, us1)"
    and rest: "foldE (probe_step lt) ps (g1, us1) = Inr (g', us')"
    using Cons.prems(2) by (auto simp: p bindE_Inr_iff)
  note one = probe_step_ok[OF Cons.prems(1) s]
  obtain vs where vs: "gemm_inv g'" "gemm_extends g1 g'" "us' = us1 @ vs"
    "vs = [] \<longrightarrow> (\<forall>p\<in>set ps. runnable g' (fst p))"
    using Cons.IH[OF _ rest] one by blast
  have ext: "gemm_extends g g'" using one vs(2) gemm_extends_trans by blast
  from one show ?case
  proof (elim conjE disjE)
    assume "us1 = us @ [name]"
    then show ?thesis using vs ext by auto
  next
    assume "us1 = us" "runnable g1 c"
    then show ?thesis using vs ext runnable_extends[OF _ vs(2)] by (auto simp: p)
  qed
qed simp

lemma ProbeDecode_ok:
  assumes "gemm_inv g" and "ProbeDecodeGemmConfigs lt mc opts g = Inr g'"
  shows "gemm_inv g' \<and> gemm_extends g g' \<and>
    (\<forall>rows\<in>set (decode_row_shapes opts). \<forall>p\<in>set (decode_probes mc rows). runnable g' (fst p))"
proof -
  have "foldE (probe_step lt) (concat (map (decode_probes mc) (decode_row_shapes opts))) (g, []) = Inr (g', [])"
    using assms(2) by (auto simp: ProbeDecodeGemmConfigs_def bindE_Inr_iff)
  from probe_steps_ok[OF assms(1) this] show ?thesis by auto
qed

lemma Probe_extends:
  assumes "gemm_inv g" and "Probe lt g c tag = Inr (ok, g')"
  shows "gemm_inv g' \<and> gemm_extends g g'"
  using Probe_ok[OF assms] by simp

lemma ProbePrefill_ok:
  assumes "gemm_inv g" and "ProbePrefillGemmConfigs lt mc opts g = Inr (mode, g')"
  shows "gemm_inv g' \<and> gemm_extends g g'"
  using assms(2) assms(1)
  by (auto simp: ProbePrefillGemmConfigs_def bindE_Inr_iff Let_def split: if_splits
      dest!: Probe_extends[rotated] probe_steps_ok[rotated]) (meson gemm_extends_trans)+

lemma gemm_inv_new [simp]: "gemm_inv (new_CublasLtGemm\<lparr>initialized := True, workspace_bytes := ws\<rparr>)"
  by (simp add: gemm_inv_def new_CublasLtGemm_def)

lemma Init_ok:
  assumes "Init lt h a new_CublasLtGemm ws = Inr g"
  shows "gemm_inv g \<and> initialized g"
proof -
  have step: "gemm_inv t \<and> initialized t" if "gemm_inv s" "initialized s" "probe_one lt s x = Inr t" for s x t
    using that Probe_ok[of s] by (auto simp: probe_one_def bindE_Inr_iff gemm_extends_def split: prod.splits)
  have steps: "gemm_inv t \<and> initialized t"
    if "gemm_inv s" "initialized s" "foldE (probe_one lt) xs s = Inr t" for s xs t
    using that by (induction xs arbitrary: s) (auto simp: bindE_Inr_iff dest: step)
  have "foldE (probe_one lt) self_check_shapes (new_CublasLtGemm\<lparr>initialized := True, workspace_bytes := ws\<rparr>) = Inr g"
    using assms by (auto simp: Init_def SelfCheckModelShapes_def bindE_Inr_iff)
  from steps[OF _ _ this] show ?thesis by simp
qed

section \<open>The decode step only uses probed configurations\<close>

lemma decode_configs_probed:
  assumes "l \<in> set (EnqueueDecodeForward mc opts rows @ EnqueueArgmax mc rows)" and "launch_config l = Some c"
  shows "c \<in> fst ` set (decode_probes mc rows)"
  using assms
  by (auto simp: EnqueueDecodeForward_def EnqueueArgmax_def decode_layer_def layer_input_norm_def layer_qkv_def
      layer_mlp_def decode_probes_def Let_def split: if_splits)

lemma run_launch_cached:
  assumes "initialized g" and "\<And>c. launch_config l = Some c \<Longrightarrow> runnable g c \<and> matmul_ok lt (Normalized c)"
    and "\<nexists>d x y z s c. l = BatchedGemm d x y z s c"
  shows "run_launch lt capture g l = Inr g"
  using assms
  by (cases l) (auto simp: GemmFp16_def GemmBiasFp16_def RunImpl_runnable split: option.splits)

lemma run_launches_cached:
  assumes "\<And>l. l \<in> set ls \<Longrightarrow> run_launch lt capture g l = Inr g"
  shows "run_launches lt capture ls g = Inr g"
  using assms by (induction ls) (auto simp: run_launches_def)

lemma decode_no_batched:
  "l \<in> set (EnqueueDecodeForward mc opts rows @ EnqueueArgmax mc rows) \<Longrightarrow> \<nexists>d x y z s c. l = BatchedGemm d x y z s c"
  by (auto simp: EnqueueDecodeForward_def EnqueueArgmax_def decode_layer_def layer_input_norm_def layer_qkv_def
      layer_mlp_def split: if_splits)

lemma decode_launch_cached:
  assumes "initialized g" and "\<And>p. p \<in> set (decode_probes mc rows) \<Longrightarrow> runnable g (fst p)"
    and "\<And>c. matmul_ok lt c" and "l \<in> set (EnqueueDecodeForward mc opts rows @ EnqueueArgmax mc rows)"
  shows "run_launch lt capture g l = Inr g"
proof (rule run_launch_cached[OF assms(1)])
  fix c
  assume "launch_config l = Some c"
  with assms(4) have "c \<in> fst ` set (decode_probes mc rows)" by (rule decode_configs_probed)
  then show "runnable g c \<and> matmul_ok lt (Normalized c)" using assms by auto
qed (use decode_no_batched[OF assms(4)] in auto)

text \<open>
  C12: Captured decode steps. After a successful \<open>Init\<close> and both probe phases, the decode
  sequence at any bucket size or at \<open>max_batch\<close> runs to its end without touching the plan cache,
  whatever the answer of the capture query, and also later, when the cache has grown: every
  configuration the sequence asks for has an available plan. So no heuristic query, which is
  forbidden while the stream is capturing, can occur in a captured step.
\<close>

theorem captured_decode_hits_cache:
  assumes "Init lt True True new_CublasLtGemm ws = Inr g0"
    and "ProbeDecodeGemmConfigs lt mc opts g0 = Inr g1"
    and "ProbePrefillGemmConfigs lt mc opts g1 = Inr (mode, g2)"
    and "gemm_extends g2 g" and "rows \<in> set (decode_row_shapes opts)" and "\<forall>c. matmul_ok lt c"
  shows "run_launches lt capture (EnqueueDecodeForward mc opts rows @ EnqueueArgmax mc rows) g = Inr g"
proof -
  have i0: "gemm_inv g0" "initialized g0" using Init_ok[OF assms(1)] by simp_all
  note d = ProbeDecode_ok[OF i0(1) assms(2)]
  have ext: "gemm_extends g1 g"
    using ProbePrefill_ok[OF _ assms(3)] d assms(4) gemm_extends_trans by blast
  show ?thesis
  proof (rule run_launches_cached, rule decode_launch_cached)
    show "initialized g" using i0 d ext by (simp add: gemm_extends_def)
    show "runnable g (fst p)" if "p \<in> set (decode_probes mc rows)" for p
      using d assms(5) that ext runnable_extends by blast
  qed (use assms(6) in auto)
qed

section \<open>Probing succeeds on a library that offers the configurations\<close>

definition offers :: "CublasLt \<Rightarrow> nat \<Rightarrow> GemmConfig \<Rightarrow> bool" where
  "offers lt ws c \<longleftrightarrow>
     desc_ok lt c \<and> fst (heuristic lt c) = HeurSuccess \<and> pick_algo ws (snd (heuristic lt c)) \<noteq> None"

text \<open>An initialised cache in which every plan has an algorithm.\<close>

definition full_cache :: "nat \<Rightarrow> CublasLtGemm \<Rightarrow> bool" where
  "full_cache ws g \<longleftrightarrow>
     initialized g \<and> gemm_inv g \<and> workspace_bytes g = ws \<and> (\<forall>p\<in>set (plans g). available p)"

lemma full_cache_FindPlan: "full_cache ws g \<Longrightarrow> FindPlan g c = Some p \<Longrightarrow> available p"
  by (auto simp: full_cache_def FindPlan_def gemm_inv_def split: option.splits)

lemma Probe_offered:
  assumes "full_cache ws g" and "ValidateConfig (Normalized c) = Inr ()" and "offers lt ws (Normalized c)"
  shows "\<exists>g'. Probe lt g c tag = Inr (True, g') \<and> full_cache ws g'"
proof (cases "FindPlan g (Normalized c)")
  case (Some p)
  then show ?thesis using full_cache_FindPlan[OF assms(1) Some] assms(1)
    by (auto simp: Probe_def RequireInit_def full_cache_def)
next
  case None
  obtain x where x: "pick_algo ws (snd (heuristic lt (Normalized c))) = Some x"
    using assms(3) by (auto simp: offers_def)
  let ?plan = "\<lparr>plan_config = Normalized c, plan_tag = tag, available = True, algo = res_algo x,
    algo_workspace_bytes = res_workspace x\<rparr>"
  let ?g = "g\<lparr>plans := plans g @ [?plan], plan_index := (plan_index g)(Normalized c \<mapsto> length (plans g))\<rparr>"
  have b: "BuildPlan lt g (Normalized c) tag = Inr (?plan, ?g)"
    using assms x by (simp add: BuildPlan_def offers_def full_cache_def Let_def)
  have "gemm_inv ?g" using BuildPlan_adds[OF _ b] assms(1) by (simp add: full_cache_def)
  then have "full_cache ws ?g" using assms(1) by (simp add: full_cache_def)
  moreover have "Probe lt g c tag = Inr (True, ?g)"
    using None b assms(1) by (simp add: Probe_def RequireInit_def full_cache_def Let_def)
  ultimately show ?thesis by blast
qed

lemma probe_steps_offered:
  assumes "full_cache ws g" and "\<And>p. p \<in> set ps \<Longrightarrow> ValidateConfig (Normalized (fst p)) = Inr ()"
    and "\<And>c. offers lt ws c"
  shows "\<exists>g'. foldE (probe_step lt) ps (g, []) = Inr (g', []) \<and> full_cache ws g'"
  using assms(1,2)
proof (induction ps arbitrary: g)
  case (Cons p ps)
  obtain c name where p: "p = (c, name)" by (cases p)
  obtain g1 where g1: "Probe lt g c name = Inr (True, g1)" "full_cache ws g1"
    using Probe_offered[OF Cons.prems(1) _ assms(3)] Cons.prems(2)[of p] by (auto simp: p)
  with Cons.IH[OF g1(2)] Cons.prems(2) show ?case by (auto simp: p probe_step_def)
qed simp

lemma probe_ones_offered:
  assumes "full_cache ws g" and "\<And>p. p \<in> set ps \<Longrightarrow> ValidateConfig (Normalized (fst p)) = Inr ()"
    and "\<And>c. offers lt ws c"
  shows "\<exists>g'. foldE (probe_one lt) ps g = Inr g' \<and> full_cache ws g'"
  using assms(1,2)
proof (induction ps arbitrary: g)
  case (Cons p ps)
  obtain c name where p: "p = (c, name)" by (cases p)
  obtain g1 where g1: "Probe lt g c name = Inr (True, g1)" "full_cache ws g1"
    using Probe_offered[OF Cons.prems(1) _ assms(3)] Cons.prems(2)[of p] by (auto simp: p)
  with Cons.IH[OF g1(2)] Cons.prems(2) show ?case by (auto simp: p probe_one_def)
qed simp

lemma IsPowerOfTwo_used: "IsPowerOfTwo 16" "IsPowerOfTwo 4" "IsPowerOfTwo 2"
  by (simp_all add: IsPowerOfTwo_def)

lemmas recipe_defs = ValidateConfig_def Normalized_def Let_def

lemma Linear_valid:
  assumes "1 \<le> rows" "1 \<le> outf" "1 \<le> k" "k \<le> act" "outf \<le> out"
  shows "ValidateConfig (Normalized (Linear rows outf k act out ep)) = Inr ()"
  using assms IsPowerOfTwo_used by (cases ep) (simp_all add: recipe_defs Linear_def)

lemma PrefillScores_valid:
  assumes "1 \<le> rows" "1 \<le> ctx" "1 \<le> hdim" "1 \<le> grp" "hdim \<le> stride"
  shows "ValidateConfig (Normalized (PrefillScores rows ctx hdim grp stride)) = Inr ()"
proof -
  have "\<not> rows * ctx < 0" "\<not> hdim < 0" "rows * ctx \<noteq> 0" using assms by (auto simp: mult_less_0_iff)
  then show ?thesis using assms IsPowerOfTwo_used by (simp add: recipe_defs PrefillScores_def)
qed

lemma PrefillPv_valid:
  assumes "1 \<le> rows" "1 \<le> ctx" "1 \<le> hdim" "1 \<le> grp" "hdim \<le> stride"
  shows "ValidateConfig (Normalized (PrefillPv rows ctx hdim grp stride)) = Inr ()"
proof -
  have "\<not> rows * ctx < 0" "\<not> hdim < 0" "hdim \<noteq> 0" using assms by (auto simp: mult_less_0_iff)
  then show ?thesis using assms IsPowerOfTwo_used by (simp add: recipe_defs PrefillPv_def)
qed

lemmas recipes_valid = Linear_valid PrefillScores_valid PrefillPv_valid

lemma self_check_valid: "p \<in> set self_check_shapes \<Longrightarrow> ValidateConfig (Normalized (fst p)) = Inr ()"
  by (auto simp: self_check_shapes_def recipes_valid)

lemma widths:
  assumes "geometry_ok mc opts"
  shows "1 \<le> qkv_width mc" "1 \<le> gateup_width mc" "intermediate_size mc \<le> gateup_width mc"
    "head_dim mc \<le> qkv_width mc" "head_dim mc \<le> hidden_size mc" "1 \<le> heads_per_group mc"
    "num_q_heads mc = heads_per_group mc * num_kv_heads mc"
proof -
  note g = geometry_okD[OF assms]
  have q: "num_q_heads mc = heads_per_group mc * num_kv_heads mc"
    using g(9) by (simp add: heads_per_group_def mult.commute[of _ "num_kv_heads mc"] minus_mod_eq_mult_div[symmetric])
  show "num_q_heads mc = heads_per_group mc * num_kv_heads mc" by (rule q)
  show "1 \<le> heads_per_group mc" using q g(3,4) by (simp add: zero_less_mult_iff)
  have d: "1 * head_dim mc \<le> (num_q_heads mc + 2 * num_kv_heads mc) * head_dim mc"
    using g by (intro mult_right_mono) auto
  then show "head_dim mc \<le> qkv_width mc" by (simp add: qkv_width_def)
  with g(5) show "1 \<le> qkv_width mc" by linarith
  have "1 * head_dim mc \<le> num_q_heads mc * head_dim mc" using g by (intro mult_right_mono) auto
  then show "head_dim mc \<le> hidden_size mc" using g(8) by simp
qed (use geometry_okD[OF assms] in \<open>simp_all add: gateup_width_def\<close>)

lemma decode_probes_valid:
  assumes "geometry_ok mc opts" and "1 \<le> rows" and "p \<in> set (decode_probes mc rows)"
  shows "ValidateConfig (Normalized (fst p)) = Inr ()"
  using assms(2,3) widths[OF assms(1)] geometry_okD[OF assms(1)]
  by (auto simp: decode_probes_def Let_def intro!: Linear_valid)

lemma prefill_probes_valid:
  assumes "geometry_ok mc opts" and "1 \<le> rows" and "p \<in> set (prefill_probes mc rows)"
  shows "ValidateConfig (Normalized (fst p)) = Inr ()"
  using assms(2,3) widths[OF assms(1)] geometry_okD[OF assms(1)]
  by (auto simp: prefill_probes_def Let_def intro!: Linear_valid)

lemma decode_row_shapes_range:
  "1 \<le> ex_max_batch opts \<Longrightarrow> rows \<in> set (decode_row_shapes opts) \<Longrightarrow> 1 \<le> rows \<and> rows \<le> ex_max_batch opts"
  using MakeDecodeBuckets_range[of rows "ex_max_batch opts"]
  by (auto simp: decode_row_shapes_def Let_def split: if_splits)

lemma bucket_is_shape: "rows \<in> set (MakeDecodeBuckets (ex_max_batch opts)) \<Longrightarrow> rows \<in> set (decode_row_shapes opts)"
  by (simp add: decode_row_shapes_def Let_def)

lemma probing_offered:
  assumes "ValidateGeometry mc opts = Inr ()" and "\<forall>c. offers lt ws c" and "0 < ws"
  shows "\<exists>g0 g1 g2. Init lt True True new_CublasLtGemm ws = Inr g0 \<and>
    ProbeDecodeGemmConfigs lt mc opts g0 = Inr g1 \<and>
    ProbePrefillGemmConfigs lt mc opts g1 = Inr (kStridedBatched, g2) \<and> full_cache ws g2"
proof -
  have geo: "geometry_ok mc opts" using assms(1) by (simp add: geometry_ok_def)
  note g = geometry_okD[OF geo] and w = widths[OF geo]
  have off: "\<And>c. offers lt ws c" using assms(2) by simp
  have "full_cache ws (new_CublasLtGemm\<lparr>initialized := True, workspace_bytes := ws\<rparr>)"
    by (simp add: full_cache_def) (simp add: new_CublasLtGemm_def)
  from probe_ones_offered[OF this self_check_valid off]
  obtain g0 where g0: "Init lt True True new_CublasLtGemm ws = Inr g0" "full_cache ws g0"
    using assms(3) by (auto simp: Init_def SelfCheckModelShapes_def new_CublasLtGemm_def)
  have "ValidateConfig (Normalized (fst p)) = Inr ()"
    if p_in: "p \<in> set (concat (map (decode_probes mc) (decode_row_shapes opts)))" for p
  proof -
    obtain rows where "rows \<in> set (decode_row_shapes opts)" and p: "p \<in> set (decode_probes mc rows)"
      using p_in by auto
    then have "1 \<le> rows" using decode_row_shapes_range g(10) by blast
    from decode_probes_valid[OF geo this p] show ?thesis .
  qed
  from probe_steps_offered[where ps = "concat (map (decode_probes mc) (decode_row_shapes opts))", OF g0(2) this off]
  obtain g1 where g1: "ProbeDecodeGemmConfigs lt mc opts g0 = Inr g1" "full_cache ws g1"
    by (auto simp: ProbeDecodeGemmConfigs_def)
  let ?rows = "min (ex_prefill_chunk_tokens opts) (ex_max_seq_len opts)"
  have rows: "1 \<le> ?rows" using g by simp
  from probe_steps_offered[OF g1(2) prefill_probes_valid[OF geo rows] off]
  obtain h0 where h0: "foldE (probe_step lt) (prefill_probes mc ?rows) (g1, []) = Inr (h0, [])" "full_cache ws h0"
    by blast
  have scores: "ValidateConfig (Normalized (PrefillScores ?rows (ex_max_seq_len opts) (head_dim mc) n (qkv_width mc))) = Inr ()"
    and pv: "ValidateConfig (Normalized (PrefillPv ?rows (ex_max_seq_len opts) (head_dim mc) n (hidden_size mc))) = Inr ()"
    if "1 \<le> n" for n
    using that rows g w by (auto intro!: PrefillScores_valid PrefillPv_valid)
  obtain h1 where h1: "Probe lt h0 (PrefillScores ?rows (ex_max_seq_len opts) (head_dim mc) (heads_per_group mc)
      (qkv_width mc)) ''prefill:scores_strided_batched'' = Inr (True, h1)" "full_cache ws h1"
    using Probe_offered[OF h0(2) scores off] w by blast
  obtain h2 where h2: "Probe lt h1 (PrefillPv ?rows (ex_max_seq_len opts) (head_dim mc) (heads_per_group mc)
      (hidden_size mc)) ''prefill:pv_strided_batched'' = Inr (True, h2)" "full_cache ws h2"
    using Probe_offered[OF h1(2) pv off] w by blast
  obtain h3 where h3: "Probe lt h2 (PrefillScores ?rows (ex_max_seq_len opts) (head_dim mc) 1
      (qkv_width mc)) ''prefill:scores_per_head'' = Inr (True, h3)" "full_cache ws h3"
    using Probe_offered[OF h2(2) scores off] by blast
  obtain h4 where h4: "Probe lt h3 (PrefillPv ?rows (ex_max_seq_len opts) (head_dim mc) 1
      (hidden_size mc)) ''prefill:pv_per_head'' = Inr (True, h4)" "full_cache ws h4"
    using Probe_offered[OF h3(2) pv off] by blast
  have "ProbePrefillGemmConfigs lt mc opts g1 = Inr (kStridedBatched, h4)"
    by (simp add: ProbePrefillGemmConfigs_def Let_def h0 h1 h2 h3 h4)
  with g0 g1 h4(2) show ?thesis by blast
qed

text \<open>
  Init succeeds where the library can serve. For every validated geometry, every
  configuration that the wrapper's self check and the two probe phases build passes
  \<open>ValidateConfig\<close>; so on a library that offers an algorithm fitting the workspace for every
  configuration, \<open>Init\<close> and both phases succeed and the strided-batched form is selected.
\<close>

theorem probing_succeeds_when_offered:
  assumes "ValidateGeometry mc opts = Inr ()" and "\<forall>c. offers lt ws c" and "0 < ws"
  shows "\<exists>g0 g1 g2. Init lt True True new_CublasLtGemm ws = Inr g0 \<and>
    ProbeDecodeGemmConfigs lt mc opts g0 = Inr g1 \<and>
    ProbePrefillGemmConfigs lt mc opts g1 = Inr (kStridedBatched, g2)"
  using probing_offered[OF assms] by blast

text \<open>A library that offers one algorithm without workspace for every configuration.\<close>

definition demo_lt :: CublasLt where
  "demo_lt = \<lparr>desc_ok = (\<lambda>_. True),
     heuristic = (\<lambda>_. (HeurSuccess, [\<lparr>res_ok = True, res_workspace = 0, res_algo = 7\<rparr>])),
     matmul_ok = (\<lambda>_. True)\<rparr>"

lemma demo_offers: "offers demo_lt ws c"
  by (simp add: offers_def demo_lt_def)

lemma demo_geometry: "ValidateGeometry (pinned_config []) default_ExecutorOptions = Inr ()"
  by (simp add: ValidateGeometry_def pinned_config_def default_ExecutorOptions_def)

theorem probing_succeeds_when_offered_witness:
  "\<exists>g0 g1 g2. Init demo_lt True True new_CublasLtGemm kDefaultWorkspaceBytes = Inr g0 \<and>
    ProbeDecodeGemmConfigs demo_lt (pinned_config []) default_ExecutorOptions g0 = Inr g1 \<and>
    ProbePrefillGemmConfigs demo_lt (pinned_config []) default_ExecutorOptions g1 = Inr (kStridedBatched, g2)"
  using probing_succeeds_when_offered[OF demo_geometry] demo_offers by (simp add: kDefaultWorkspaceBytes_def)

theorem captured_decode_hits_cache_witness:
  "\<exists>g0 g1 mode g2. Init demo_lt True True new_CublasLtGemm kDefaultWorkspaceBytes = Inr g0 \<and>
     ProbeDecodeGemmConfigs demo_lt (pinned_config []) default_ExecutorOptions g0 = Inr g1 \<and>
     ProbePrefillGemmConfigs demo_lt (pinned_config []) default_ExecutorOptions g1 = Inr (mode, g2) \<and>
     run_launches demo_lt (Some True) (EnqueueDecodeForward (pinned_config []) default_ExecutorOptions 4 @
       EnqueueArgmax (pinned_config []) 4) g2 = Inr g2"
proof -
  obtain g0 g1 mode g2 where g: "Init demo_lt True True new_CublasLtGemm kDefaultWorkspaceBytes = Inr g0"
    "ProbeDecodeGemmConfigs demo_lt (pinned_config []) default_ExecutorOptions g0 = Inr g1"
    "ProbePrefillGemmConfigs demo_lt (pinned_config []) default_ExecutorOptions g1 = Inr (mode, g2)"
    using probing_offered[OF demo_geometry, of demo_lt kDefaultWorkspaceBytes] demo_offers
    by (auto simp: kDefaultWorkspaceBytes_def)
  have rows: "4 \<in> set (decode_row_shapes default_ExecutorOptions)" by code_simp
  have "\<forall>c. matmul_ok demo_lt c" by (simp add: demo_lt_def)
  then show ?thesis using g captured_decode_hits_cache[OF g gemm_extends_refl rows] by blast
qed

end
