(* ===== verification/Executor_Access.thy ===== *)
theory Executor_Access
  imports Executor_Bounds
begin

text \<open>
  The memory that the launches of theory \<open>Executor_Forward\<close> touch.

  \<open>footprint\<close> gives, for each view of a launch, the half-open interval of element offsets that
  its row count, widths and strides make the kernel touch, as the launch contracts in
  \<^verbatim>\<open>src/src/kernels/kernels.cuh\<close> and the column-major layout of cuBLASLt state them;
  \<open>capacity\<close> is the number of elements of the region. The width of a block-table row is the
  parameter \<open>mbs\<close>. \<open>launch_cells\<close> lists what a batched product computes: each output element
  with the pairs of input elements that are multiplied and summed.
\<close>

section \<open>Extents\<close>

definition extent :: "int \<Rightarrow> int \<Rightarrow> int \<Rightarrow> int" where
  "extent rows stride width = (rows - 1) * stride + width"

definition span :: "view \<Rightarrow> int \<Rightarrow> buffer \<times> int \<times> int" where
  "span v n = (fst v, snd v, snd v + n)"

definition stored_a :: "GemmConfig \<Rightarrow> int" where
  "stored_a c = (if op_a c = CUBLAS_OP_N then extent (gk c) (lda c) (gm c) else extent (gm c) (lda c) (gk c))"

definition stored_b :: "GemmConfig \<Rightarrow> int" where
  "stored_b c = (if op_b c = CUBLAS_OP_N then extent (gn c) (ldb c) (gk c) else extent (gk c) (ldb c) (gn c))"

fun footprint :: "int \<Rightarrow> launch \<Rightarrow> (buffer \<times> int \<times> int) list" where
  "footprint mbs (EmbedGather out out_stride _ ids rows hidden) =
     [span out (extent rows out_stride hidden), span ids rows]"
| "footprint mbs (RmsNorm out inp _ rows hidden _) = [span out (rows * hidden), span inp (rows * hidden)]"
| "footprint mbs (RmsNormResidual out residual inp _ rows hidden _) =
     [span out (rows * hidden), span residual (rows * hidden), span inp (rows * hidden)]"
| "footprint mbs (LinearGemm out out_stride act act_stride _ _ rows out_features in_features) =
     [span out (extent rows out_stride out_features), span act (extent rows act_stride in_features)]"
| "footprint mbs (RopeInplace q k q_stride k_stride positions rows q_heads kv_heads hdim _) =
     [span q (extent rows q_stride (q_heads * hdim)), span k (extent rows k_stride (kv_heads * hdim)),
      span positions rows]"
| "footprint mbs (KvScatter _ k v k_stride v_stride tables table_stride positions rows kv_heads hdim) =
     [span k (extent rows k_stride (kv_heads * hdim)), span v (extent rows v_stride (kv_heads * hdim)),
      span tables (extent rows table_stride mbs), span positions rows]"
| "footprint mbs (PagedAttentionDecode out out_stride q q_stride _ tables seq_lens rows table_stride q_heads kv_heads hdim _) =
     [span out (extent rows out_stride (q_heads * hdim)), span q (extent rows q_stride (q_heads * hdim)),
      span tables (extent rows table_stride mbs), span seq_lens rows]"
| "footprint mbs (SiluMul out gate_up rows width) =
     [span out (extent rows (if out = gate_up then 2 * width else width) width), span gate_up (rows * (2 * width))]"
| "footprint mbs (KvGather khat vhat khat_plane khat_row vhat_plane vhat_row _ table ctx kv_heads hdim) =
     [span khat (extent kv_heads khat_plane (extent ctx khat_row hdim)),
      span vhat (extent kv_heads vhat_plane (extent ctx vhat_row hdim)), span table (BlocksForTokens ctx)]"
| "footprint mbs (BatchedGemm _ d a b _ c) =
     [span d (extent (batch c) (stride_d c) (extent (gn c) (ldd c) (gm c))),
      span a (extent (batch c) (stride_a c) (stored_a c)), span b (extent (batch c) (stride_b c) (stored_b c))]"
| "footprint mbs (PrefillSoftmax probs scores heads rows ctx _) =
     [span probs (heads * rows * ctx), span scores (heads * rows * ctx)]"
| "footprint mbs (GreedyArgmax out logits rows vocab) = [span out rows, span logits (rows * vocab)]"

fun capacity :: "ModelConfig \<Rightarrow> ExecutorOptions \<Rightarrow> buffer \<Rightarrow> int" where
  "capacity mc opts BX = step_rows opts * hidden_size mc"
| "capacity mc opts BNormed = step_rows opts * hidden_size mc"
| "capacity mc opts BQkv = step_rows opts * qkv_width mc"
| "capacity mc opts BAttnOut = step_rows opts * hidden_size mc"
| "capacity mc opts BGateup = step_rows opts * gateup_width mc"
| "capacity mc opts BMlpOut = step_rows opts * hidden_size mc"
| "capacity mc opts BLogits = ex_max_batch opts * vocab_size mc"
| "capacity mc opts BScores = score_elems mc opts"
| "capacity mc opts BProbs = score_elems mc opts"
| "capacity mc opts BKhat = gather_elems mc opts"
| "capacity mc opts BVhat = gather_elems mc opts"
| "capacity mc opts BInputIds = step_rows opts"
| "capacity mc opts BPositions = step_rows opts"
| "capacity mc opts BSeqLens = ex_max_batch opts"
| "capacity mc opts BBlockTables = table_elems opts"
| "capacity mc opts BArgmax = ex_max_batch opts"

fun elem_bytes :: "buffer \<Rightarrow> int" where
  "elem_bytes b = (if b \<in> {BScores, BInputIds, BPositions, BSeqLens, BBlockTables, BArgmax} then 4 else 2)"

definition all_buffers :: "buffer list" where
  "all_buffers = [BX, BNormed, BQkv, BAttnOut, BGateup, BMlpOut, BLogits, BScores, BProbs, BKhat, BVhat,
     BInputIds, BPositions, BSeqLens, BBlockTables, BArgmax]"

text \<open>The capacities are those of the regions that the layout of the slab takes.\<close>

lemma capacity_regions:
  "map snd (scratch_regions mc opts) = map (\<lambda>b. capacity mc opts b * elem_bytes b) all_buffers"
  by (simp add: scratch_regions_def all_buffers_def Let_def)

definition in_slab :: "ModelConfig \<Rightarrow> ExecutorOptions \<Rightarrow> launch \<Rightarrow> bool" where
  "in_slab mc opts l \<longleftrightarrow>
     (\<forall>(b, lo, hi)\<in>set (footprint (max_blocks_per_seq opts) l). 0 \<le> lo \<and> hi \<le> capacity mc opts b)"

lemma extent_le:
  assumes "rows \<le> R" "off + width \<le> stride" "0 \<le> stride"
  shows "off + extent rows stride width \<le> R * stride"
proof -
  have "(rows - 1) * stride \<le> (R - 1) * stride" using assms by (intro mult_right_mono) auto
  then show ?thesis using assms by (simp add: extent_def left_diff_distrib)
qed

lemma extent_full: "extent rows stride stride = rows * stride"
  by (simp add: extent_def left_diff_distrib)

section \<open>Every launch stays in the slab\<close>

text \<open>The widths of the views of one row.\<close>

lemma view_widths:
  assumes "geometry_ok mc opts"
  shows "num_q_heads mc * head_dim mc \<le> qkv_width mc"
    "k_view_offset mc + num_kv_heads mc * head_dim mc \<le> qkv_width mc"
    "v_view_offset mc + num_kv_heads mc * head_dim mc \<le> qkv_width mc"
    "0 \<le> k_view_offset mc" "0 \<le> v_view_offset mc"
proof -
  note g = geometry_okD[OF assms]
  have n: "0 \<le> num_q_heads mc * head_dim mc" "0 \<le> num_kv_heads mc * head_dim mc" using g by simp_all
  have w: "qkv_width mc = num_q_heads mc * head_dim mc + 2 * (num_kv_heads mc * head_dim mc)"
    by (simp add: qkv_width_def algebra_simps)
  show "num_q_heads mc * head_dim mc \<le> qkv_width mc"
    "k_view_offset mc + num_kv_heads mc * head_dim mc \<le> qkv_width mc"
    "v_view_offset mc + num_kv_heads mc * head_dim mc \<le> qkv_width mc"
    "0 \<le> k_view_offset mc" "0 \<le> v_view_offset mc"
    unfolding w k_view_offset_def v_view_offset_def using n by linarith+
qed

lemma norm_mlp_in_slab:
  assumes geo: "geometry_ok mc opts" and rows: "1 \<le> rows" "rows \<le> step_rows opts"
    and l: "l \<in> insert (layer_input_norm mc rows layer) (set (layer_qkv mc rows layer @ layer_mlp mc rows layer))"
  shows "in_slab mc opts l"
proof -
  note g = geometry_okD[OF geo] and w = widths[OF geo] and v = view_widths[OF geo]
  have m: "rows * hidden_size mc \<le> step_rows opts * hidden_size mc"
    "rows * gateup_width mc \<le> step_rows opts * gateup_width mc"
    "rows * qkv_width mc \<le> step_rows opts * qkv_width mc"
    using rows g w by (auto intro!: mult_right_mono)
  have e: "extent rows (qkv_width mc) (num_q_heads mc * head_dim mc) \<le> step_rows opts * qkv_width mc"
    "k_view_offset mc + extent rows (qkv_width mc) (num_kv_heads mc * head_dim mc) \<le> step_rows opts * qkv_width mc"
    "extent rows (gateup_width mc) (intermediate_size mc) \<le> step_rows opts * gateup_width mc"
    using extent_le[of rows "step_rows opts" 0] extent_le[of rows "step_rows opts" "k_view_offset mc"] rows v w by auto
  from l consider "l = layer_input_norm mc rows layer" | "l \<in> set (layer_qkv mc rows layer)" | "l \<in> set (layer_mlp mc rows layer)"
    by auto
  then show ?thesis
  proof cases
    case 1
    then show ?thesis using m by (simp add: layer_input_norm_def in_slab_def span_def)
  next
    case 2
    then show ?thesis using m e rows v
      by (auto simp: layer_qkv_def in_slab_def span_def extent_full)
  next
    case 3
    have "2 * intermediate_size mc = gateup_width mc" by (simp add: gateup_width_def)
    then show ?thesis using 3 m e rows
      by (auto simp: layer_mlp_def in_slab_def span_def extent_full)
  qed
qed

lemma o_gemm_in_slab:
  assumes "geometry_ok mc opts" and "rows \<le> step_rows opts"
  shows "in_slab mc opts (LinearGemm (BMlpOut, 0) (hidden_size mc) (BAttnOut, 0) (hidden_size mc) w None rows
    (hidden_size mc) (hidden_size mc))"
  using assms geometry_okD[OF assms(1)] by (auto simp: in_slab_def span_def extent_full intro!: mult_right_mono)

lemma embed_in_slab:
  assumes "geometry_ok mc opts" and "rows \<le> step_rows opts"
  shows "in_slab mc opts (EmbedGather (BX, 0) (hidden_size mc) WEmbed (BInputIds, 0) rows (hidden_size mc))"
  using assms geometry_okD[OF assms(1)] by (auto simp: in_slab_def span_def extent_full intro!: mult_right_mono)

lemma scatter_in_slab:
  assumes geo: "geometry_ok mc opts" and rows: "rows \<le> step_rows opts"
    and tables: "extent rows table_stride (max_blocks_per_seq opts) \<le> table_elems opts"
  shows "in_slab mc opts (KvScatter layer (BQkv, k_view_offset mc) (BQkv, v_view_offset mc) (qkv_width mc)
    (qkv_width mc) (BBlockTables, 0) table_stride (BPositions, 0) rows (num_kv_heads mc) (head_dim mc))"
  using extent_le[of rows "step_rows opts" "k_view_offset mc"] extent_le[of rows "step_rows opts" "v_view_offset mc"]
    view_widths[OF geo] widths[OF geo] assms
  by (auto simp: in_slab_def span_def)

lemma max_blocks_nonneg: "geometry_ok mc opts \<Longrightarrow> 0 \<le> max_blocks_per_seq opts"
  using geometry_okD[of mc opts] by (auto simp: max_blocks_per_seq_def intro!: BlocksForTokens_nonneg)



section \<open>The prefill chunk\<close>

text \<open>The batched calls of one chunk, at a key/value head \<open>g\<close> or a query head \<open>h\<close>.\<close>

lemma extent_batch: "1 \<le> n \<Longrightarrow> extent n (if 1 < n then s else 0) w = extent n s w"
  by (auto simp: extent_def)

lemma extent_plane:
  assumes "a \<le> b" "0 \<le> c" "c \<le> d" "0 \<le> (b :: int)"
  shows "a * c \<le> b * d"
  using assms mult_right_mono[of a b c] mult_left_mono[of c d b] by linarith

lemma score_plane_fits:
  assumes "geometry_ok mc opts" and "1 \<le> rows" "rows \<le> ex_prefill_chunk_tokens opts"
    and "1 \<le> ctx" "ctx \<le> ex_max_seq_len opts" and "h + n \<le> num_q_heads mc"
  shows "h * (rows * ctx) + extent n (rows * ctx) (extent rows ctx ctx) \<le> score_elems mc opts"
proof -
  have "h * (rows * ctx) + extent n (rows * ctx) (extent rows ctx ctx) = (h + n) * (rows * ctx)"
    by (simp add: extent_def algebra_simps)
  also have "\<dots> \<le> num_q_heads mc * (ex_prefill_chunk_tokens opts * ex_max_seq_len opts)"
    using assms geometry_okD[OF assms(1)] by (intro extent_plane) auto
  finally show ?thesis by (simp add: score_elems_def mult.assoc)
qed

lemma gather_plane_fits:
  assumes "geometry_ok mc opts" and "ctx \<le> ex_max_seq_len opts" and "g + 1 \<le> num_kv_heads mc"
  shows "g * gather_plane_stride mc opts + extent ctx (head_dim mc) (head_dim mc) \<le> gather_elems mc opts"
proof -
  let ?P = "gather_plane_stride mc opts"
  note gg = geometry_okD[OF assms(1)]
  have "ctx * head_dim mc \<le> ?P" using assms(2) gg by (auto simp: gather_plane_stride_def intro!: mult_right_mono)
  then have "g * ?P + extent ctx (head_dim mc) (head_dim mc) \<le> (g + 1) * ?P"
    by (simp add: extent_def algebra_simps)
  also have "\<dots> \<le> num_kv_heads mc * ?P"
    using assms(3) gg by (intro mult_right_mono) (auto simp: gather_plane_stride_def)
  finally show ?thesis by (simp add: gather_elems_def gather_plane_stride_def mult.assoc)
qed

lemma head_columns_fit:
  assumes "rows \<le> R" "(h + n) * d \<le> W" "0 \<le> W"
  shows "h * d + extent n d (extent rows W d) \<le> R * W"
proof -
  have "(h * d + (n - 1) * d) + extent rows W d \<le> R * W"
    using assms by (intro extent_le) (auto simp: algebra_simps)
  then show ?thesis by (simp add: extent_def algebra_simps)
qed

lemma attention_gemms_in_slab:
  assumes geo: "geometry_ok mc opts" and rows: "1 \<le> rows" "rows \<le> ex_prefill_chunk_tokens opts"
    and ctx: "1 \<le> ctx" "ctx \<le> ex_max_seq_len opts"
    and n: "1 \<le> n" "0 \<le> h" "h + n \<le> num_q_heads mc" and g: "0 \<le> g" "g + 1 \<le> num_kv_heads mc"
  shows "in_slab mc opts (BatchedGemm CUDA_R_32F (BScores, h * (rows * ctx)) (BKhat, g * gather_plane_stride mc opts)
      (BQkv, h * head_dim mc) s (PrefillScores rows ctx (head_dim mc) n (qkv_width mc)))"
    and "in_slab mc opts (BatchedGemm CUDA_R_16F (BAttnOut, h * head_dim mc) (BVhat, g * gather_plane_stride mc opts)
      (BProbs, h * (rows * ctx)) s (PrefillPv rows ctx (head_dim mc) n (hidden_size mc)))"
proof -
  note gg = geometry_okD[OF geo]
  have R: "rows \<le> step_rows opts" using rows by (simp add: step_rows_def)
  have d: "(h + n) * head_dim mc \<le> num_q_heads mc * head_dim mc" using n gg by (intro mult_right_mono) auto
  have nonneg: "0 \<le> rows * ctx" "0 \<le> h * head_dim mc" "0 \<le> g * gather_plane_stride mc opts"
    using rows ctx n g gg by (simp_all add: gather_plane_stride_def)
  note facts = nonneg n(1,2) score_plane_fits[OF geo rows ctx n(3)] gather_plane_fits[OF geo ctx(2) g(2)]
  have q: "h * head_dim mc + extent n (head_dim mc) (extent rows (qkv_width mc) (head_dim mc)) \<le> step_rows opts * qkv_width mc"
    using d view_widths(1)[OF geo] widths(1)[OF geo] by (intro head_columns_fit[OF R]) auto
  show "in_slab mc opts (BatchedGemm CUDA_R_32F (BScores, h * (rows * ctx)) (BKhat, g * gather_plane_stride mc opts)
      (BQkv, h * head_dim mc) s (PrefillScores rows ctx (head_dim mc) n (qkv_width mc)))"
    using facts q by (simp add: in_slab_def span_def stored_a_def stored_b_def PrefillScores_def extent_batch)
      (simp add: extent_def)
  have o: "h * head_dim mc + extent n (head_dim mc) (extent rows (hidden_size mc) (head_dim mc)) \<le> step_rows opts * hidden_size mc"
    using d gg by (intro head_columns_fit[OF R]) auto
  show "in_slab mc opts (BatchedGemm CUDA_R_16F (BAttnOut, h * head_dim mc) (BVhat, g * gather_plane_stride mc opts)
      (BProbs, h * (rows * ctx)) s (PrefillPv rows ctx (head_dim mc) n (hidden_size mc)))"
    using facts o by (simp add: in_slab_def span_def stored_a_def stored_b_def PrefillPv_def extent_batch)
      (simp add: extent_def)
qed

text \<open>Query heads and their groups.\<close>

lemma group_range:
  assumes "geometry_ok mc opts"
  shows "0 \<le> g \<Longrightarrow> g < num_kv_heads mc \<Longrightarrow> 0 \<le> g * heads_per_group mc \<and>
      g * heads_per_group mc + heads_per_group mc \<le> num_q_heads mc"
    and "0 \<le> h \<Longrightarrow> h < num_q_heads mc \<Longrightarrow> 0 \<le> h div heads_per_group mc \<and> h div heads_per_group mc + 1 \<le> num_kv_heads mc"
proof -
  note w = widths(6,7)[OF assms]
  show "0 \<le> g * heads_per_group mc \<and> g * heads_per_group mc + heads_per_group mc \<le> num_q_heads mc"
    if "0 \<le> g" "g < num_kv_heads mc"
  proof -
    have "(g + 1) * heads_per_group mc \<le> num_kv_heads mc * heads_per_group mc"
      using that w by (intro mult_right_mono) auto
    then show ?thesis using that w by (simp add: algebra_simps)
  qed
  show "0 \<le> h div heads_per_group mc \<and> h div heads_per_group mc + 1 \<le> num_kv_heads mc"
    if "0 \<le> h" "h < num_q_heads mc"
  proof -
    have "0 < heads_per_group mc" using w by simp
    then have "h div heads_per_group mc < num_kv_heads mc"
      using that w by (intro div_less_mult) (simp_all add: mult.commute)
    then show ?thesis using that w by (simp add: pos_imp_zdiv_nonneg_iff)
  qed
qed

lemma attention_in_slab:
  assumes geo: "geometry_ok mc opts" and rows: "1 \<le> rows" "rows \<le> ex_prefill_chunk_tokens opts"
    and ctx: "1 \<le> ctx" "ctx \<le> ex_max_seq_len opts"
    and l: "l \<in> set (EnqueuePrefillAttention mc opts layer rows chunk_start ctx mode)"
  shows "in_slab mc opts l"
proof -
  note gg = geometry_okD[OF geo]
  let ?P = "gather_plane_stride mc opts" and ?d = "head_dim mc"
  note gemms = attention_gemms_in_slab[OF geo rows ctx]
  have gather: "in_slab mc opts (KvGather (BKhat, 0) (BVhat, 0) ?P ?d ?P ?d layer (BBlockTables, 0) ctx (num_kv_heads mc) ?d)"
  proof -
    have "(num_kv_heads mc - 1) * ?P + extent ctx ?d ?d \<le> gather_elems mc opts"
      by (rule gather_plane_fits[OF geo ctx(2)]) simp
    moreover have "BlocksForTokens ctx \<le> table_elems opts"
    proof -
      have "BlocksForTokens ctx \<le> max_blocks_per_seq opts"
        using ctx by (simp add: max_blocks_per_seq_def BlocksForTokens_mono)
      also have "\<dots> \<le> ex_max_batch opts * max_blocks_per_seq opts"
        using max_blocks_nonneg[OF geo] gg(10) mult_right_mono[of 1 "ex_max_batch opts" "max_blocks_per_seq opts"] by simp
      finally show ?thesis by (simp add: table_elems_def)
    qed
    ultimately show ?thesis by (simp add: in_slab_def span_def extent_def)
  qed
  have soft: "in_slab mc opts (PrefillSoftmax (BProbs, 0) (BScores, 0) (num_q_heads mc) rows ctx chunk_start)"
    using score_plane_fits[OF geo rows ctx, of 0 "num_q_heads mc"]
    by (simp add: in_slab_def span_def extent_full mult.assoc)
  show ?thesis
    using l gather soft gemms[of "heads_per_group mc"] gemms[of 1] group_range[OF geo] widths(6)[OF geo]
    by (auto simp: EnqueuePrefillAttention_def Let_def split: if_splits)
qed



section \<open>What the attention products compute\<close>

text \<open>
  One output element of a column-major product: its offset, and the offsets of the pairs of
  elements of A and B that are multiplied and summed.
\<close>

type_synonym cell = "(buffer \<times> int) \<times> ((buffer \<times> int) \<times> (buffer \<times> int)) list"

definition addr_a :: "GemmConfig \<Rightarrow> int \<Rightarrow> int \<Rightarrow> int \<Rightarrow> int" where
  "addr_a c b i l = b * stride_a c + (if op_a c = CUBLAS_OP_N then l * lda c + i else i * lda c + l)"

definition addr_b :: "GemmConfig \<Rightarrow> int \<Rightarrow> int \<Rightarrow> int \<Rightarrow> int" where
  "addr_b c b l j = b * stride_b c + (if op_b c = CUBLAS_OP_N then j * ldb c + l else l * ldb c + j)"

definition addr_d :: "GemmConfig \<Rightarrow> int \<Rightarrow> int \<Rightarrow> int \<Rightarrow> int" where
  "addr_d c b i j = b * stride_d c + j * ldd c + i"

definition gemm_cell :: "view \<Rightarrow> view \<Rightarrow> view \<Rightarrow> GemmConfig \<Rightarrow> int \<Rightarrow> int \<Rightarrow> int \<Rightarrow> cell" where
  "gemm_cell d a b c k i j =
     ((fst d, snd d + addr_d c k i j),
      map (\<lambda>l. ((fst a, snd a + addr_a c k i l), (fst b, snd b + addr_b c k l j))) [0..gk c - 1])"

fun launch_cells :: "launch \<Rightarrow> cell list" where
  "launch_cells (BatchedGemm _ d a b _ c) =
     concat (map (\<lambda>k. concat (map (\<lambda>j. map (\<lambda>i. gemm_cell d a b c k i j) [0..gm c - 1]) [0..gn c - 1]))
       [0..batch c - 1])"
| "launch_cells _ = []"

text \<open>
  The specification: the score of query head \<open>h\<close>, chunk row \<open>i\<close> and key position \<open>j\<close> is the product of
  the query row with row \<open>j\<close> of the head's key plane; output column \<open>e\<close> of head \<open>h\<close> and row \<open>i\<close> sums
  the probabilities of that row with column \<open>e\<close> of the head's value plane. The plane of a head is
  the one of its group.
\<close>

definition score_cell :: "ModelConfig \<Rightarrow> ExecutorOptions \<Rightarrow> int \<Rightarrow> int \<Rightarrow> int \<Rightarrow> int \<Rightarrow> int \<Rightarrow> cell" where
  "score_cell mc opts rows ctx h i j =
     ((BScores, (h * rows + i) * ctx + j),
      map (\<lambda>l. ((BKhat, h div heads_per_group mc * gather_plane_stride mc opts + (j * head_dim mc + l)),
               (BQkv, i * qkv_width mc + (h * head_dim mc + l)))) [0..head_dim mc - 1])"

definition output_cell :: "ModelConfig \<Rightarrow> ExecutorOptions \<Rightarrow> int \<Rightarrow> int \<Rightarrow> int \<Rightarrow> int \<Rightarrow> int \<Rightarrow> cell" where
  "output_cell mc opts rows ctx h i e =
     ((BAttnOut, i * hidden_size mc + (h * head_dim mc + e)),
      map (\<lambda>j. ((BVhat, h div heads_per_group mc * gather_plane_stride mc opts + (j * head_dim mc + e)),
               (BProbs, (h * rows + i) * ctx + j))) [0..ctx - 1])"

definition attention_spec :: "ModelConfig \<Rightarrow> ExecutorOptions \<Rightarrow> int \<Rightarrow> int \<Rightarrow> cell set" where
  "attention_spec mc opts rows ctx =
     {score_cell mc opts rows ctx h i j |h i j. h \<in> {0..<num_q_heads mc} \<and> i \<in> {0..<rows} \<and> j \<in> {0..<ctx}} \<union>
     {output_cell mc opts rows ctx h i e |h i e. h \<in> {0..<num_q_heads mc} \<and> i \<in> {0..<rows} \<and> e \<in> {0..<head_dim mc}}"

lemma set_launch_cells:
  "set (launch_cells (BatchedGemm t d a b s c)) =
     {gemm_cell d a b c k i j |k i j. k \<in> {0..<batch c} \<and> i \<in> {0..<gm c} \<and> j \<in> {0..<gn c}}"
  by force

lemma batch_stride: "0 \<le> k \<Longrightarrow> k < n \<Longrightarrow> k * (if 1 < n then s else 0) = k * (s :: int)"
  by auto

lemma scores_cell:
  assumes "0 \<le> k" "k < n" "(h + k) div heads_per_group mc = g"
  shows "gemm_cell (BScores, h * (rows * ctx)) (BKhat, g * gather_plane_stride mc opts) (BQkv, h * head_dim mc)
      (PrefillScores rows ctx (head_dim mc) n (qkv_width mc)) k j i = score_cell mc opts rows ctx (h + k) i j"
  using assms
  by (simp add: gemm_cell_def score_cell_def PrefillScores_def addr_a_def addr_b_def addr_d_def batch_stride algebra_simps)

lemma output_cell_eq:
  assumes "0 \<le> k" "k < n" "(h + k) div heads_per_group mc = g"
  shows "gemm_cell (BAttnOut, h * head_dim mc) (BVhat, g * gather_plane_stride mc opts) (BProbs, h * (rows * ctx))
      (PrefillPv rows ctx (head_dim mc) n (hidden_size mc)) k e i = output_cell mc opts rows ctx (h + k) i e"
  using assms
  by (simp add: gemm_cell_def output_cell_def PrefillPv_def addr_a_def addr_b_def addr_d_def batch_stride algebra_simps)

definition head_scores :: "ModelConfig \<Rightarrow> ExecutorOptions \<Rightarrow> int \<Rightarrow> int \<Rightarrow> int \<Rightarrow> cell set" where
  "head_scores mc opts rows ctx h = {score_cell mc opts rows ctx h i j |i j. i \<in> {0..<rows} \<and> j \<in> {0..<ctx}}"

definition head_outputs :: "ModelConfig \<Rightarrow> ExecutorOptions \<Rightarrow> int \<Rightarrow> int \<Rightarrow> int \<Rightarrow> cell set" where
  "head_outputs mc opts rows ctx h = {output_cell mc opts rows ctx h i e |i e. i \<in> {0..<rows} \<and> e \<in> {0..<head_dim mc}}"

lemma attention_spec_heads:
  "attention_spec mc opts rows ctx =
     (\<Union>h\<in>{0..<num_q_heads mc}. head_scores mc opts rows ctx h) \<union> (\<Union>h\<in>{0..<num_q_heads mc}. head_outputs mc opts rows ctx h)"
  unfolding attention_spec_def head_scores_def head_outputs_def by blast

lemma heads_shift: "(\<Union>k\<in>{0..<n}. F (h + k)) = (\<Union>x\<in>{h..<h + (n :: int)}. F x)"
proof -
  have "x \<in> (+) h ` {0..<n}" if "h \<le> x" "x < h + n" for x
    using that by (intro image_eqI[of _ _ "x - h"]) auto
  then have "(+) h ` {0..<n} = {h..<h + n}" by auto
  then show ?thesis by (metis (no_types, lifting) SUP_cong UN_extend_simps(10))
qed

lemma cells_regroup:
  assumes "\<And>k i j. k \<in> K \<Longrightarrow> P k i j = Q k j i"
  shows "{P k i j |k i j. k \<in> K \<and> i \<in> I \<and> j \<in> J} = (\<Union>k\<in>K. {Q k j i |j i. j \<in> J \<and> i \<in> I})"
proof -
  have "{P k i j |k i j. k \<in> K \<and> i \<in> I \<and> j \<in> J} = (\<Union>k\<in>K. {P k i j |j i. j \<in> J \<and> i \<in> I})"
    by blast
  also have "\<dots> = (\<Union>k\<in>K. {Q k j i |j i. j \<in> J \<and> i \<in> I})"
    by (rule SUP_cong) (simp_all add: assms)
  finally show ?thesis .
qed

lemma scores_launch:
  assumes "\<And>k. 0 \<le> k \<Longrightarrow> k < n \<Longrightarrow> (h + k) div heads_per_group mc = g"
  shows "set (launch_cells (BatchedGemm t (BScores, h * (rows * ctx)) (BKhat, g * gather_plane_stride mc opts)
      (BQkv, h * head_dim mc) s (PrefillScores rows ctx (head_dim mc) n (qkv_width mc)))) =
    (\<Union>x\<in>{h..<h + n}. head_scores mc opts rows ctx x)"
proof -
  have c: "batch (PrefillScores rows ctx (head_dim mc) n (qkv_width mc)) = n"
    "gm (PrefillScores rows ctx (head_dim mc) n (qkv_width mc)) = ctx"
    "gn (PrefillScores rows ctx (head_dim mc) n (qkv_width mc)) = rows" by (simp_all add: PrefillScores_def)
  show ?thesis
    unfolding set_launch_cells c heads_shift[symmetric] head_scores_def
    using scores_cell[OF _ _ assms] by (intro cells_regroup) auto
qed

lemma output_launch:
  assumes "\<And>k. 0 \<le> k \<Longrightarrow> k < n \<Longrightarrow> (h + k) div heads_per_group mc = g"
  shows "set (launch_cells (BatchedGemm t (BAttnOut, h * head_dim mc) (BVhat, g * gather_plane_stride mc opts)
      (BProbs, h * (rows * ctx)) s (PrefillPv rows ctx (head_dim mc) n (hidden_size mc)))) =
    (\<Union>x\<in>{h..<h + n}. head_outputs mc opts rows ctx x)"
proof -
  have c: "batch (PrefillPv rows ctx (head_dim mc) n (hidden_size mc)) = n"
    "gm (PrefillPv rows ctx (head_dim mc) n (hidden_size mc)) = head_dim mc"
    "gn (PrefillPv rows ctx (head_dim mc) n (hidden_size mc)) = rows" by (simp_all add: PrefillPv_def)
  show ?thesis
    unfolding set_launch_cells c heads_shift[symmetric] head_outputs_def
    using output_cell_eq[OF _ _ assms] by (intro cells_regroup) auto
qed

lemma in_group: "0 < n \<Longrightarrow> 0 \<le> k \<Longrightarrow> k < n \<Longrightarrow> (g * n + k) div n = (g :: int)"
  by simp

lemma groups_cover:
  assumes "1 \<le> (n :: int)"
  shows "(\<Union>g\<in>{0..<m}. \<Union>x\<in>{g * n..<g * n + n}. F x) = (\<Union>x\<in>{0..<m * n}. F x)"
proof (intro equalityI subsetI)
  fix y assume "y \<in> (\<Union>g\<in>{0..<m}. \<Union>x\<in>{g * n..<g * n + n}. F x)"
  then obtain g x where g: "0 \<le> g" "g < m" "g * n \<le> x" "x < g * n + n" "y \<in> F x" by auto
  have "(g + 1) * n \<le> m * n" "0 \<le> g * n" using g assms by (auto intro!: mult_right_mono)
  then have "x \<in> {0..<m * n}" using g unfolding distrib_right atLeastLessThan_iff by linarith
  with g show "y \<in> (\<Union>x\<in>{0..<m * n}. F x)" by blast
next
  fix y assume "y \<in> (\<Union>x\<in>{0..<m * n}. F x)"
  then obtain x where x: "0 \<le> x" "x < m * n" "y \<in> F x" by auto
  have "x div n \<in> {0..<m}" using x assms div_less_mult[of n x m] by (simp add: pos_imp_zdiv_nonneg_iff)
  moreover have "x \<in> {x div n * n..<x div n * n + n}"
    using assms pos_mod_bound[of n x] pos_mod_sign[of n x] div_mult_mod_eq[of x n]
    unfolding atLeastLessThan_iff by linarith
  ultimately show "y \<in> (\<Union>g\<in>{0..<m}. \<Union>x\<in>{g * n..<g * n + n}. F x)" using x by blast
qed

text \<open>
  C15: The two forms of the prefill attention products. For every validated geometry, the batched
  form (one call per key/value head) and the per-head form (one call per query head) compute
  exactly the same output elements from the same pairs of input elements, namely those of
  grouped-query attention over the packed score planes, the gathered key and value planes and
  the fused projection rows.
\<close>

theorem prefill_modes_agree:
  assumes "ValidateGeometry mc opts = Inr ()"
  shows "set (concat (map launch_cells (EnqueuePrefillAttention mc opts layer rows chunk_start ctx mode))) =
    attention_spec mc opts rows ctx"
proof -
  have geo: "geometry_ok mc opts" using assms by (simp add: geometry_ok_def)
  let ?n = "heads_per_group mc"
  have n: "1 \<le> ?n" "num_q_heads mc = num_kv_heads mc * ?n" using widths(6,7)[OF geo] by (simp_all add: mult.commute)
  have grp: "(g * ?n + k) div ?n = g" if "0 \<le> k" "k < ?n" for g k using that n by simp
  have one: "(h + k) div ?n = h div ?n" if "0 \<le> k" "k < 1" for h k :: int
  proof -
    have "k = 0" using that by simp
    then show ?thesis by simp
  qed
  have upt: "set [0..m - 1] = {0..<m}" for m :: int by auto
  show ?thesis
  proof (cases mode)
    case kStridedBatched
    then show ?thesis
      unfolding attention_spec_heads n(2) groups_cover[OF n(1), symmetric]
      using scores_launch[OF grp] output_launch[OF grp]
      by (auto simp: EnqueuePrefillAttention_def Let_def upt simp del: launch_cells.simps(1))
  next
    case kPerHead
    then show ?thesis
      unfolding attention_spec_heads
      using scores_launch[OF one] output_launch[OF one]
      by (auto simp: EnqueuePrefillAttention_def Let_def upt simp del: launch_cells.simps(1))
  qed
qed

theorem prefill_modes_agree_witness:
  "score_cell (pinned_config []) default_ExecutorOptions 4 10 7 2 5 \<in>
     set (concat (map launch_cells
       (EnqueuePrefillAttention (pinned_config []) default_ExecutorOptions 3 4 6 10 kStridedBatched)))"
  unfolding prefill_modes_agree[OF demo_geometry]
  by (force simp: attention_spec_def pinned_config_def)

end
