(* ===== verification/Executor.thy ===== *)
theory Executor
  imports Executor_Access
begin

text \<open>
  The step operations of \<^verbatim>\<open>src/src/core/model_executor.{hpp,cpp}\<close>: construction with
  warm-up and graph capture, filling and uploading the per-step inputs, the eager and the graph
  decode step, the prefill chunk and the layer-0 dump.

  An operation is an action on the executor's state, so that what an exception leaves behind is
  part of the model. The CUDA runtime and the device are the parameter \<open>Cuda\<close>: \<open>call_ok what d\<close>
  is the outcome of the checked call that the source labels \<open>what\<close>, \<open>execute\<close> the effect of one
  launch on the device memory, given the step inputs it can read, and \<open>argmax_out\<close> the entries of
  the sampled-token buffer. Launches take effect in stream order. Every step ends with a
  synchronisation, so that copies and launches of different steps do not overlap.

  Requests are read through the store \<open>h\<close> of theory \<open>Scheduler\<close>. NVTX ranges and log lines are
  omitted, the texts of exceptions are shortened.
\<close>

section \<open>State\<close>

text \<open>The four input arrays, as pinned mirrors and as device buffers.\<close>

record StepInputs =
  in_ids :: "int list"
  in_positions :: "int list"
  in_seq_lens :: "int list"
  in_tables :: "int list"

record 'd Cuda =
  cu_lt :: CublasLt
  call_ok :: "string \<Rightarrow> 'd \<Rightarrow> bool"
  execute :: "launch \<Rightarrow> StepInputs \<Rightarrow> 'd \<Rightarrow> 'd"
  argmax_out :: "'d \<Rightarrow> nat \<Rightarrow> int"

record 'd ModelExecutor =
  me_config :: ModelConfig
  me_options :: ExecutorOptions
  me_budget :: ExecutorMemoryBudget
  me_buckets :: "int list"
  me_gemm :: CublasLtGemm
  me_mode :: PrefillGemmMode
  me_demotion_warned :: bool
  me_graphs :: "launch list list"
  me_dump_pending :: bool
  me_mirror :: StepInputs
  me_argmax :: "int list"
  me_inputs :: StepInputs
  me_device :: 'd

record DecodeOutput =
  out_tokens :: "token_id list"
  out_rows :: int
  out_bucket :: int

record PrefillOutput =
  pre_first_token :: token_id
  pre_final_chunk :: bool
  pre_rows :: int

definition empty_DecodeOutput :: DecodeOutput where
  "empty_DecodeOutput = \<lparr>out_tokens = [], out_rows = 0, out_bucket = -1\<rparr>"

definition has_decode_graphs :: "'d ModelExecutor \<Rightarrow> bool" where
  "has_decode_graphs ex \<longleftrightarrow> me_graphs ex \<noteq> []"

definition me_mbs :: "'d ModelExecutor \<Rightarrow> nat" where
  "me_mbs ex = nat (max_blocks_per_seq (me_options ex))"

type_synonym ('d, 'a) exec = "('d ModelExecutor, exn, 'a) action"

definition CudaCheck :: "'d Cuda \<Rightarrow> string \<Rightarrow> ('d, unit) exec" where
  "CudaCheck cu what = checkS (\<lambda>ex. call_ok cu what (me_device ex)) (ExecutorError what)"

section \<open>Filling the mirrors\<close>

text \<open>Consecutive entries written one by one.\<close>

fun write_row :: "nat \<Rightarrow> int list \<Rightarrow> int list \<Rightarrow> int list" where
  "write_row off [] xs = xs"
| "write_row off (v # vs) xs = write_row (Suc off) vs (xs[off := v])"

definition set_row :: "nat \<Rightarrow> int \<Rightarrow> int \<Rightarrow> int \<Rightarrow> ('d, unit) exec" where
  "set_row r tok position len = modifyS (\<lambda>ex. ex\<lparr>me_mirror := (me_mirror ex)
     \<lparr>in_ids := (in_ids (me_mirror ex))[r := tok],
      in_positions := (in_positions (me_mirror ex))[r := position],
      in_seq_lens := (in_seq_lens (me_mirror ex))[r := len]\<rparr>\<rparr>)"

definition set_table :: "nat \<Rightarrow> int \<Rightarrow> ('d, unit) exec" where
  "set_table i block = modifyS (\<lambda>ex. ex\<lparr>me_mirror := (me_mirror ex)
     \<lparr>in_tables := (in_tables (me_mirror ex))[i := block]\<rparr>\<rparr>)"

text \<open>\<^verbatim>\<open>std::fill\<close> of \<open>n\<close> table entries from \<open>off\<close> on with the dummy block.\<close>

definition fill_dummy :: "nat \<Rightarrow> nat \<Rightarrow> ('d, unit) exec" where
  "fill_dummy off n = modifyS (\<lambda>ex. ex\<lparr>me_mirror := (me_mirror ex)
     \<lparr>in_tables := write_row off (replicate n kDummyBlockId) (in_tables (me_mirror ex))\<rparr>\<rparr>)"

definition put_block :: "nat \<Rightarrow> nat \<times> block_id \<Rightarrow> ('d, unit) exec" where
  "put_block off = (\<lambda>(i, block).
     bindS (checkS (\<lambda>_. block \<noteq> kInvalidBlockId) (AssertFailed ''kInvalidBlockId must never be written into a device block table'')) (\<lambda>_.
     bindS (checkS (\<lambda>ex. \<not> (block \<le> kDummyBlockId \<or> block \<ge> num_kv_blocks (me_budget ex)))
              (ExecutorError ''block table entry holds invalid block id'')) (\<lambda>_.
     set_table (off + i) block)))"

text \<open>One table row: the owned blocks, checked and written one by one, then the dummy padding.\<close>

definition put_table :: "nat \<Rightarrow> block_id list \<Rightarrow> ('d, unit) exec" where
  "put_table off bs =
     bindS (getS me_mbs) (\<lambda>mbs.
     bindS (forS (put_block off) (enumerate 0 bs)) (\<lambda>_.
     fill_dummy (off + length bs) (mbs - length bs)))"

definition FillDummyDecodeMirrors :: "int \<Rightarrow> ('d, unit) exec" where
  "FillDummyDecodeMirrors rows =
     bindS (getS me_mbs) (\<lambda>mbs.
     forS (\<lambda>r. bindS (set_row r 0 0 1) (\<lambda>_. fill_dummy (r * mbs) mbs)) [0..<nat rows])"

definition decode_rows :: "'d ModelExecutor \<Rightarrow> int \<Rightarrow> int \<Rightarrow> int" where
  "decode_rows ex live pad_to_rows =
     (if pad_to_rows > 0 then pad_to_rows
      else if ex_pad_eager_to_bucket (me_options ex) > 0 \<and> me_buckets ex \<noteq> [] then
        let want = max live (min (ex_pad_eager_to_bucket (me_options ex)) (last (me_buckets ex)));
            bucket = SelectBucket want (me_buckets ex) in
        if bucket > 0 then bucket else live
      else live)"

definition fill_live_row :: "(ptr \<Rightarrow> Request option) \<Rightarrow> nat \<times> ptr \<Rightarrow> ('d, unit) exec" where
  "fill_live_row h = (\<lambda>(r, p). case h p of None \<Rightarrow> throwS NullDeref | Some request \<Rightarrow>
     bindS (checkS (\<lambda>_. output_tokens request \<noteq> [])
              (ExecutorError ''decode scheduled before the first generated token exists'')) (\<lambda>_.
     bindS (checkS (\<lambda>ex. \<not> (seq_len request < 1 \<or> seq_len request > ex_max_seq_len (me_options ex)))
              (ExecutorError ''seq_len outside [1, max_seq_len]'')) (\<lambda>_.
     bindS (checkS (\<lambda>ex. \<not> (last (output_tokens request) < 0 \<or>
                            last (output_tokens request) \<ge> vocab_size (me_config ex)))
              (ExecutorError ''input token outside the vocab'')) (\<lambda>_.
     bindS (checkS (\<lambda>_. \<not> num_blocks (block_table request) < BlocksForTokens (seq_len request))
              (ExecutorError ''block table does not cover the position'')) (\<lambda>_.
     bindS (checkS (\<lambda>ex. \<not> num_blocks (block_table request) > max_blocks_per_seq (me_options ex))
              (ExecutorError ''block table exceeds max_blocks_per_seq'')) (\<lambda>_.
     bindS (set_row r (last (output_tokens request)) (seq_len request - 1) (seq_len request)) (\<lambda>_.
     bindS (getS me_mbs) (\<lambda>mbs.
     put_table (r * mbs) (blocks (block_table request))))))))))"

definition FillDecodeMirrors :: "(ptr \<Rightarrow> Request option) \<Rightarrow> ptr list \<Rightarrow> int \<Rightarrow> ('d, int) exec" where
  "FillDecodeMirrors h reqs pad_to_rows =
     (let live = int (length reqs) in
      bindS (checkS (\<lambda>ex. pad_to_rows > 0 \<longrightarrow> pad_to_rows \<ge> live \<and> pad_to_rows \<le> ex_max_batch (me_options ex))
               (AssertFailed ''pad_to_rows must cover the live batch within max_batch'')) (\<lambda>_.
      bindS (getS (\<lambda>ex. decode_rows ex live pad_to_rows)) (\<lambda>rows.
      bindS (forS (fill_live_row h) (enumerate 0 reqs)) (\<lambda>_.
      bindS (getS me_mbs) (\<lambda>mbs.
      bindS (forS (\<lambda>r. bindS (set_row r 0 0 0) (\<lambda>_. fill_dummy (r * mbs) mbs)) [length reqs..<nat rows]) (\<lambda>_.
      returnS rows))))))"

definition fill_prompt_row :: "Request \<Rightarrow> int \<Rightarrow> nat \<Rightarrow> ('d, unit) exec" where
  "fill_prompt_row request chunk_begin i =
     (let token = prompt_tokens request ! nat (chunk_begin + int i) in
      bindS (checkS (\<lambda>ex. \<not> (token < 0 \<or> token \<ge> vocab_size (me_config ex)))
               (ExecutorError ''prompt token outside the vocab'')) (\<lambda>_.
      modifyS (\<lambda>ex. ex\<lparr>me_mirror := (me_mirror ex)
        \<lparr>in_ids := (in_ids (me_mirror ex))[i := token],
         in_positions := (in_positions (me_mirror ex))[i := chunk_begin + int i]\<rparr>\<rparr>)))"

definition FillPrefillMirrors :: "Request \<Rightarrow> int \<Rightarrow> int \<Rightarrow> ('d, int) exec" where
  "FillPrefillMirrors request chunk_begin chunk_end =
     bindS (checkS (\<lambda>_. \<not> (chunk_begin < 0 \<or> chunk_begin \<ge> chunk_end \<or> chunk_end > num_prompt_tokens request))
              (ExecutorError ''chunk is not a non-empty slice of the prompt'')) (\<lambda>_.
     let rows = chunk_end - chunk_begin in
     bindS (checkS (\<lambda>ex. \<not> rows > ex_prefill_chunk_tokens (me_options ex))
              (ExecutorError ''chunk exceeds prefill_chunk_tokens'')) (\<lambda>_.
     bindS (checkS (\<lambda>ex. \<not> chunk_end > ex_max_seq_len (me_options ex))
              (ExecutorError ''chunk end exceeds max_seq_len'')) (\<lambda>_.
     bindS (checkS (\<lambda>_. \<not> num_blocks (block_table request) < BlocksForTokens chunk_end)
              (ExecutorError ''block table does not cover the chunk end'')) (\<lambda>_.
     bindS (checkS (\<lambda>ex. \<not> num_blocks (block_table request) > max_blocks_per_seq (me_options ex))
              (ExecutorError ''block table exceeds max_blocks_per_seq'')) (\<lambda>_.
     bindS (forS (fill_prompt_row request chunk_begin) [0..<nat rows]) (\<lambda>_.
     bindS (put_table 0 (blocks (block_table request))) (\<lambda>_.
     returnS rows)))))))"

section \<open>Uploads and launches\<close>

text \<open>The first \<open>n\<close> entries of a device buffer replaced by those of the mirror.\<close>

definition copy_in :: "nat \<Rightarrow> int list \<Rightarrow> int list \<Rightarrow> int list" where
  "copy_in n src dst = take n src @ drop n dst"

definition upload :: "'d Cuda \<Rightarrow> string \<Rightarrow> (StepInputs \<Rightarrow> StepInputs \<Rightarrow> StepInputs) \<Rightarrow> ('d, unit) exec" where
  "upload cu what f =
     bindS (CudaCheck cu what) (\<lambda>_. modifyS (\<lambda>ex. ex\<lparr>me_inputs := f (me_mirror ex) (me_inputs ex)\<rparr>))"

definition UploadDecodeInputs :: "'d Cuda \<Rightarrow> int \<Rightarrow> ('d, unit) exec" where
  "UploadDecodeInputs cu rows =
     bindS (upload cu ''H2D input_ids'' (\<lambda>m d. d\<lparr>in_ids := copy_in (nat rows) (in_ids m) (in_ids d)\<rparr>)) (\<lambda>_.
     bindS (upload cu ''H2D positions'' (\<lambda>m d. d\<lparr>in_positions := copy_in (nat rows) (in_positions m) (in_positions d)\<rparr>)) (\<lambda>_.
     bindS (upload cu ''H2D seq_lens'' (\<lambda>m d. d\<lparr>in_seq_lens := copy_in (nat rows) (in_seq_lens m) (in_seq_lens d)\<rparr>)) (\<lambda>_.
     bindS (getS me_mbs) (\<lambda>mbs.
     upload cu ''H2D block-table slab'' (\<lambda>m d. d\<lparr>in_tables := copy_in (nat rows * mbs) (in_tables m) (in_tables d)\<rparr>)))))"

definition UploadPrefillInputs :: "'d Cuda \<Rightarrow> int \<Rightarrow> ('d, unit) exec" where
  "UploadPrefillInputs cu rows =
     bindS (upload cu ''H2D input_ids'' (\<lambda>m d. d\<lparr>in_ids := copy_in (nat rows) (in_ids m) (in_ids d)\<rparr>)) (\<lambda>_.
     bindS (upload cu ''H2D positions'' (\<lambda>m d. d\<lparr>in_positions := copy_in (nat rows) (in_positions m) (in_positions d)\<rparr>)) (\<lambda>_.
     bindS (getS me_mbs) (\<lambda>mbs.
     upload cu ''H2D block-table row'' (\<lambda>m d. d\<lparr>in_tables := copy_in mbs (in_tables m) (in_tables d)\<rparr>))))"

text \<open>
  Enqueueing on the stream: the wrapper serves the launch from its plan cache or throws; a
  launch that was enqueued takes effect. While capturing, the launches are recorded and nothing
  is executed.
\<close>

definition cache_step :: "'d Cuda \<Rightarrow> bool option \<Rightarrow> launch \<Rightarrow> ('d, unit) exec" where
  "cache_step cu capture l ex =
     (case run_launch (cu_lt cu) capture (me_gemm ex) l of
        Inl e \<Rightarrow> (Inl e, ex)
      | Inr g \<Rightarrow> (Inr (), ex\<lparr>me_gemm := g\<rparr>))"

definition enqueue :: "'d Cuda \<Rightarrow> launch list \<Rightarrow> ('d, unit) exec" where
  "enqueue cu = forS (\<lambda>l.
     bindS (cache_step cu (Some False) l) (\<lambda>_.
     modifyS (\<lambda>ex. ex\<lparr>me_device := execute cu l (me_inputs ex) (me_device ex)\<rparr>)))"

definition record_launches :: "'d Cuda \<Rightarrow> launch list \<Rightarrow> ('d, unit) exec" where
  "record_launches cu = forS (cache_step cu (Some True))"

definition replay :: "'d Cuda \<Rightarrow> launch list \<Rightarrow> ('d, unit) exec" where
  "replay cu ls = modifyS (\<lambda>ex. ex\<lparr>me_device := fold (\<lambda>l. execute cu l (me_inputs ex)) ls (me_device ex)\<rparr>)"

definition decode_launches :: "'d ModelExecutor \<Rightarrow> int \<Rightarrow> launch list" where
  "decode_launches ex rows = EnqueueDecodeForward (me_config ex) (me_options ex) rows @ EnqueueArgmax (me_config ex) rows"

definition download_argmax :: "'d Cuda \<Rightarrow> string \<Rightarrow> nat \<Rightarrow> ('d, unit) exec" where
  "download_argmax cu what n =
     bindS (CudaCheck cu what) (\<lambda>_.
     modifyS (\<lambda>ex. ex\<lparr>me_argmax := copy_in n (map (argmax_out cu (me_device ex)) [0..<n]) (me_argmax ex)\<rparr>))"

section \<open>Warm-up and capture\<close>

definition WarmupDecodeBucket :: "'d Cuda \<Rightarrow> int \<Rightarrow> ('d, unit) exec" where
  "WarmupDecodeBucket cu rows =
     bindS (FillDummyDecodeMirrors rows) (\<lambda>_.
     bindS (UploadDecodeInputs cu rows) (\<lambda>_.
     bindS (getS (\<lambda>ex. decode_launches ex rows)) (\<lambda>ls.
     bindS (enqueue cu ls) (\<lambda>_.
     bindS (download_argmax cu ''warmup D2H argmax_out'' (nat rows)) (\<lambda>_.
     bindS (CudaCheck cu ''warmup decode step sync'') (\<lambda>_.
     CudaCheck cu ''warmup decode step launches''))))))"

definition capture_bucket :: "'d Cuda \<Rightarrow> launch list list \<Rightarrow> int \<Rightarrow> ('d, launch list list) exec" where
  "capture_bucket cu execs bucket =
     bindS (FillDummyDecodeMirrors bucket) (\<lambda>_.
     bindS (UploadDecodeInputs cu bucket) (\<lambda>_.
     bindS (CudaCheck cu ''drain dummy inputs before capture'') (\<lambda>_.
     bindS (CudaCheck cu ''cudaStreamBeginCapture'') (\<lambda>_.
     bindS (getS (\<lambda>ex. decode_launches ex bucket)) (\<lambda>ls.
     bindS (record_launches cu ls) (\<lambda>_.
     bindS (CudaCheck cu ''cudaStreamEndCapture'') (\<lambda>_.
     bindS (CudaCheck cu ''cudaGraphInstantiate'') (\<lambda>_.
     bindS (CudaCheck cu ''cudaGraphUpload'') (\<lambda>_.
     bindS (CudaCheck cu ''drain graph upload'') (\<lambda>_.
     returnS (execs @ [ls])))))))))))"

fun capture_buckets :: "'d Cuda \<Rightarrow> launch list list \<Rightarrow> int list \<Rightarrow> ('d, launch list list) exec" where
  "capture_buckets cu execs [] = returnS execs"
| "capture_buckets cu execs (b # bs) = bindS (capture_bucket cu execs b) (\<lambda>execs'. capture_buckets cu execs' bs)"

definition capture_all :: "'d Cuda \<Rightarrow> ('d, launch list list) exec" where
  "capture_all cu =
     bindS (getS me_buckets) (\<lambda>buckets.
     bindS (forS (WarmupDecodeBucket cu) buckets) (\<lambda>_.
     bindS (CudaCheck cu ''cudaMemGetInfo before capture'') (\<lambda>_.
     bindS (capture_buckets cu [] buckets) (\<lambda>execs.
     bindS (CudaCheck cu ''cudaMemGetInfo after capture'') (\<lambda>_.
     returnS execs)))))"

text \<open>Any failure degrades to eager: the exception is swallowed and no graph is kept.\<close>

definition CaptureDecodeGraphs :: "'d Cuda \<Rightarrow> ('d, unit) exec" where
  "CaptureDecodeGraphs cu =
     bindS (checkS (\<lambda>ex. me_graphs ex = []) (AssertFailed ''decode graphs are captured exactly once, at init'')) (\<lambda>_ ex.
     case capture_all cu ex of
       (Inl _, ex') \<Rightarrow> (Inr (), ex')
     | (Inr execs, ex') \<Rightarrow> (Inr (), ex'\<lparr>me_graphs := execs\<rparr>))"

section \<open>Decode\<close>

fun find_bucket :: "int \<Rightarrow> int list \<Rightarrow> int" where
  "find_bucket rows [] = -1"
| "find_bucket rows (b # bs) = (if b = rows then b else find_bucket rows bs)"

definition BucketForRows :: "'d ModelExecutor \<Rightarrow> int \<Rightarrow> int" where
  "BucketForRows ex rows = find_bucket rows (me_buckets ex)"

definition DecodeEager :: "'d Cuda \<Rightarrow> (ptr \<Rightarrow> Request option) \<Rightarrow> ptr list \<Rightarrow> ('d, DecodeOutput) exec" where
  "DecodeEager cu h reqs =
     (if reqs = [] then returnS empty_DecodeOutput
      else
        bindS (checkS (\<lambda>ex. \<not> int (length reqs) > ex_max_batch (me_options ex))
                 (ExecutorError ''decode batch exceeds max_batch'')) (\<lambda>_.
        bindS (FillDecodeMirrors h reqs 0) (\<lambda>rows.
        bindS (UploadDecodeInputs cu rows) (\<lambda>_.
        bindS (getS (\<lambda>ex. decode_launches ex rows)) (\<lambda>ls.
        bindS (enqueue cu ls) (\<lambda>_.
        bindS (download_argmax cu ''D2H argmax_out'' (nat rows)) (\<lambda>_.
        bindS (CudaCheck cu ''decode step sync'') (\<lambda>_.
        bindS (CudaCheck cu ''decode step launches'') (\<lambda>_.
        getS (\<lambda>ex. \<lparr>out_tokens = take (length reqs) (me_argmax ex), out_rows = rows,
                      out_bucket = BucketForRows ex rows\<rparr>))))))))))"

fun index_of :: "'a \<Rightarrow> 'a list \<Rightarrow> nat" where
  "index_of x [] = 0"
| "index_of x (y # ys) = (if y = x then 0 else Suc (index_of x ys))"

definition DecodeGraph :: "'d Cuda \<Rightarrow> (ptr \<Rightarrow> Request option) \<Rightarrow> ptr list \<Rightarrow> ('d, DecodeOutput) exec" where
  "DecodeGraph cu h reqs =
     (if reqs = [] then returnS empty_DecodeOutput
      else
        bindS (checkS has_decode_graphs (ExecutorError ''DecodeGraph called with no captured decode graphs'')) (\<lambda>_.
        bindS (checkS (\<lambda>ex. \<not> int (length reqs) > ex_max_batch (me_options ex))
                 (ExecutorError ''decode batch exceeds max_batch'')) (\<lambda>_.
        bindS (getS (\<lambda>ex. SelectBucket (int (length reqs)) (me_buckets ex))) (\<lambda>bucket.
        bindS (checkS (\<lambda>_. \<not> bucket < 0) (ExecutorError ''no decode bucket covers the batch'')) (\<lambda>_.
        bindS (getS (\<lambda>ex. index_of bucket (me_buckets ex))) (\<lambda>bucket_index.
        bindS (FillDecodeMirrors h reqs bucket) (\<lambda>rows.
        bindS (checkS (\<lambda>_. rows = bucket) (AssertFailed ''graph replay must execute at exactly the captured bucket shape'')) (\<lambda>_.
        bindS (UploadDecodeInputs cu rows) (\<lambda>_.
        bindS (CudaCheck cu ''cudaGraphLaunch decode'') (\<lambda>_.
        bindS (getS (\<lambda>ex. me_graphs ex ! bucket_index)) (\<lambda>ls.
        bindS (replay cu ls) (\<lambda>_.
        bindS (download_argmax cu ''D2H argmax_out'' (nat rows)) (\<lambda>_.
        bindS (CudaCheck cu ''graph replay sync'') (\<lambda>_.
        bindS (CudaCheck cu ''graph replay launches'') (\<lambda>_.
        getS (\<lambda>ex. \<lparr>out_tokens = take (length reqs) (me_argmax ex), out_rows = rows,
                      out_bucket = bucket\<rparr>))))))))))))))))"

section \<open>Prefill\<close>

definition ProbeS :: "'d Cuda \<Rightarrow> GemmConfig \<Rightarrow> string \<Rightarrow> ('d, bool) exec" where
  "ProbeS cu c tag ex =
     (case Probe (cu_lt cu) (me_gemm ex) c tag of
        Inl e \<Rightarrow> (Inl e, ex)
      | Inr (ok, g) \<Rightarrow> (Inr ok, ex\<lparr>me_gemm := g\<rparr>))"

definition per_head_mode :: "'d Cuda \<Rightarrow> int \<Rightarrow> int \<Rightarrow> ('d, PrefillGemmMode) exec" where
  "per_head_mode cu rows ctx =
     (let shape = ''prefill[T='' @ to_string rows @ '',ctx='' @ to_string ctx @ '']:'' in
      bindS (getS me_config) (\<lambda>mc.
      bindS (ProbeS cu (PrefillScores rows ctx (head_dim mc) 1 (qkv_width mc)) (shape @ ''scores_per_head'')) (\<lambda>scores_ok.
      bindS (ProbeS cu (PrefillPv rows ctx (head_dim mc) 1 (hidden_size mc)) (shape @ ''pv_per_head'')) (\<lambda>pv_ok.
      if scores_ok \<and> pv_ok then returnS kPerHead
      else throwS (ExecutorError ''no algorithm for the prefill attention GEMMs at this chunk shape'')))))"

definition ResolvePrefillGemmMode :: "'d Cuda \<Rightarrow> int \<Rightarrow> int \<Rightarrow> ('d, PrefillGemmMode) exec" where
  "ResolvePrefillGemmMode cu rows ctx =
     (let shape = ''prefill[T='' @ to_string rows @ '',ctx='' @ to_string ctx @ '']:'' in
      bindS (getS me_config) (\<lambda>mc.
      bindS (getS me_mode) (\<lambda>mode.
      if mode = kStridedBatched then
        bindS (ProbeS cu (PrefillScores rows ctx (head_dim mc) (heads_per_group mc) (qkv_width mc))
                 (shape @ ''scores_strided_batched'')) (\<lambda>scores_ok.
        bindS (ProbeS cu (PrefillPv rows ctx (head_dim mc) (heads_per_group mc) (hidden_size mc))
                 (shape @ ''pv_strided_batched'')) (\<lambda>pv_ok.
        if scores_ok \<and> pv_ok then returnS kStridedBatched
        else bindS (modifyS (\<lambda>ex. ex\<lparr>me_demotion_warned := True\<rparr>)) (\<lambda>_. per_head_mode cu rows ctx)))
      else per_head_mode cu rows ctx)))"

text \<open>
  The layer-0 dump re-enqueues the embedding and the first layer of the chunk stage by stage and
  writes each stage to a file. The file system is asked through \<open>call_ok\<close> as well.
\<close>

definition capture_fp16 :: "'d Cuda \<Rightarrow> string \<Rightarrow> ('d, unit) exec" where
  "capture_fp16 cu file =
     bindS (CudaCheck cu ''layer-0 dump stage sync'') (\<lambda>_.
     bindS (CudaCheck cu ''layer-0 dump stage launches'') (\<lambda>_.
     bindS (CudaCheck cu ''layer-0 dump D2H'') (\<lambda>_.
     CudaCheck cu (''layer-0 dump: write '' @ file))))"

definition dump_stages :: "ModelConfig \<Rightarrow> ExecutorOptions \<Rightarrow> int \<Rightarrow> int \<Rightarrow> int \<Rightarrow> PrefillGemmMode \<Rightarrow> (launch list \<times> string) list" where
  "dump_stages mc opts rows chunk_start ctx mode =
     [([EmbedGather (BX, 0) (hidden_size mc) WEmbed (BInputIds, 0) rows (hidden_size mc),
        RmsNorm (BNormed, 0) (BX, 0) (WInputNorm 0) rows (hidden_size mc) (rms_norm_eps mc)], ''layer0_normed.bin''),
      ([hd (layer_qkv mc rows 0)], ''layer0_qkv.bin''),
      (tl (layer_qkv mc rows 0) @
       [KvScatter 0 (BQkv, k_view_offset mc) (BQkv, v_view_offset mc) (qkv_width mc) (qkv_width mc)
          (BBlockTables, 0) 0 (BPositions, 0) rows (num_kv_heads mc) (head_dim mc)] @
       EnqueuePrefillAttention mc opts 0 rows chunk_start ctx mode @
       [LinearGemm (BMlpOut, 0) (hidden_size mc) (BAttnOut, 0) (hidden_size mc) (WO 0) None
          rows (hidden_size mc) (hidden_size mc)], ''layer0_attn_out.bin''),
      (layer_mlp mc rows 0, ''layer0_mlp_out.bin'')]"

definition DumpLayer0Activations :: "'d Cuda \<Rightarrow> int \<Rightarrow> int \<Rightarrow> int \<Rightarrow> PrefillGemmMode \<Rightarrow> ('d, unit) exec" where
  "DumpLayer0Activations cu rows chunk_start ctx mode =
     bindS (CudaCheck cu ''layer-0 dump: create directory'') (\<lambda>_.
     bindS (getS (\<lambda>ex. dump_stages (me_config ex) (me_options ex) rows chunk_start ctx mode)) (\<lambda>stages.
     bindS (forS (\<lambda>(ls, file). bindS (enqueue cu ls) (\<lambda>_. capture_fp16 cu file)) stages) (\<lambda>_.
     bindS (CudaCheck cu ''layer-0 dump: write layer0_input_ids.bin'') (\<lambda>_.
     CudaCheck cu ''layer-0 dump: write layer0_meta.json''))))"

definition PrefillChunk ::
  "'d Cuda \<Rightarrow> (ptr \<Rightarrow> Request option) \<Rightarrow> ptr option \<Rightarrow> int \<Rightarrow> int \<Rightarrow> ('d, PrefillOutput) exec" where
  "PrefillChunk cu h rp chunk_begin chunk_end =
     (case rp of None \<Rightarrow> throwS (ExecutorError ''PrefillChunk called with a null request'')
      | Some p \<Rightarrow> (case h p of None \<Rightarrow> throwS NullDeref | Some request \<Rightarrow>
     bindS (FillPrefillMirrors request chunk_begin chunk_end) (\<lambda>rows.
     let ctx = chunk_end; final_chunk = (chunk_end = num_prompt_tokens request) in
     bindS (ResolvePrefillGemmMode cu rows ctx) (\<lambda>mode.
     bindS (UploadPrefillInputs cu rows) (\<lambda>_.
     bindS (getS (\<lambda>ex. EnqueuePrefillForward (me_config ex) (me_options ex) rows chunk_begin ctx final_chunk mode)) (\<lambda>ls.
     bindS (enqueue cu ls) (\<lambda>_.
     bindS (if final_chunk then
              bindS (getS (\<lambda>ex. EnqueueArgmax (me_config ex) 1)) (\<lambda>am.
              bindS (enqueue cu am) (\<lambda>_.
              bindS (download_argmax cu ''D2H first generated token'' 1) (\<lambda>_.
              bindS (CudaCheck cu ''prefill chunk sync'') (\<lambda>_.
              bindS (CudaCheck cu ''prefill chunk launches'') (\<lambda>_.
              getS (\<lambda>ex. me_argmax ex ! 0))))))
            else
              bindS (CudaCheck cu ''prefill chunk sync'') (\<lambda>_.
              bindS (CudaCheck cu ''prefill chunk launches'') (\<lambda>_.
              returnS (-1)))) (\<lambda>first_token.
     bindS (getS me_dump_pending) (\<lambda>pending.
     bindS (if pending then
              bindS (modifyS (\<lambda>ex. ex\<lparr>me_dump_pending := False\<rparr>)) (\<lambda>_.
              DumpLayer0Activations cu rows chunk_begin ctx mode)
            else returnS ()) (\<lambda>_.
     returnS \<lparr>pre_first_token = first_token, pre_final_chunk = final_chunk, pre_rows = rows\<rparr>))))))))))"

section \<open>Construction\<close>

text \<open>
  The constructor; \<open>weight_layers\<close> is the layer count of the loaded weights and \<open>d0\<close> the device
  memory after the zero fills. A throw leaves no object behind.
\<close>

definition zero_inputs :: "ExecutorOptions \<Rightarrow> StepInputs" where
  "zero_inputs opts =
     \<lparr>in_ids = replicate (nat (step_rows opts)) 0, in_positions = replicate (nat (step_rows opts)) 0,
      in_seq_lens = replicate (nat (ex_max_batch opts)) 0, in_tables = replicate (nat (table_elems opts)) 0\<rparr>"

definition allocated ::
  "ModelConfig \<Rightarrow> ExecutorOptions \<Rightarrow> ExecutorMemoryBudget \<Rightarrow> CublasLtGemm \<Rightarrow> 'd \<Rightarrow> 'd ModelExecutor" where
  "allocated mc opts b g d0 =
     \<lparr>me_config = mc, me_options = opts, me_budget = b, me_buckets = MakeDecodeBuckets (ex_max_batch opts),
      me_gemm = g, me_mode = kStridedBatched, me_demotion_warned = False, me_graphs = [],
      me_dump_pending = (ex_debug_dump_dir opts \<noteq> []), me_mirror = zero_inputs opts,
      me_argmax = replicate (nat (ex_max_batch opts)) 0, me_inputs = zero_inputs opts, me_device = d0\<rparr>"

definition new_ModelExecutor ::
  "'d Cuda \<Rightarrow> ModelConfig \<Rightarrow> int \<Rightarrow> ExecutorOptions \<Rightarrow> 'd \<Rightarrow> exn + 'd ModelExecutor" where
  "new_ModelExecutor cu mc weight_layers opts d0 =
     bindE (ComputeBudget mc opts) (\<lambda>b.
     bindE (assertE (weight_layers = num_layers mc) (ExecutorError ''DeviceWeights has a different layer count'')) (\<lambda>_.
     bindE (assertE (call_ok cu ''create stream s0'' d0) (ExecutorError ''create stream s0'')) (\<lambda>_.
     bindE (Init (cu_lt cu) (call_ok cu ''cublasLtCreate'' d0) (call_ok cu ''cudaMalloc workspace'' d0)
              new_CublasLtGemm kDefaultWorkspaceBytes) (\<lambda>g0.
     bindE (assertE (call_ok cu ''cudaMalloc KV pool'' d0) (ExecutorError ''cudaMalloc KV pool'')) (\<lambda>_.
     bindE (assertE (call_ok cu ''cudaMalloc scratch slab'' d0) (ExecutorError ''cudaMalloc scratch slab'')) (\<lambda>_.
     bindE (assertE (call_ok cu ''zero KV pool'' d0) (ExecutorError ''zero KV pool'')) (\<lambda>_.
     bindE (assertE (call_ok cu ''zero scratch slab'' d0) (ExecutorError ''zero scratch slab'')) (\<lambda>_.
     bindE (assertE (call_ok cu ''drain init memsets'' d0) (ExecutorError ''drain init memsets'')) (\<lambda>_.
     bindE (assertE (call_ok cu ''cudaHostAlloc mirror slab'' d0) (ExecutorError ''cudaHostAlloc mirror slab'')) (\<lambda>_.
     bindE (ProbeDecodeGemmConfigs (cu_lt cu) mc opts g0) (\<lambda>g1.
     bindE (ProbePrefillGemmConfigs (cu_lt cu) mc opts g1) (\<lambda>(mode, g2).
     let ex = (allocated mc opts b g2 d0)\<lparr>me_mode := mode\<rparr> in
     if ex_enable_cuda_graphs opts then
       (case CaptureDecodeGraphs cu ex of (Inl e, _) \<Rightarrow> Inl e | (Inr _, ex') \<Rightarrow> Inr ex')
     else Inr ex))))))))))))"

end
