(* ===== verification/Executor_Inv.thy ===== *)
theory Executor_Inv
  imports Executor_Props
begin

text \<open>
  What every operation of the executor keeps, also when it throws part-way: the geometry, the
  captured graphs, the sizes of the pinned and device arrays, and a plan cache that only grows.

  \<open>evolves\<close> is the relation between the states before and after; \<open>steps cu m\<close> says that the action
  \<open>m\<close> keeps it from every state and on every outcome. Because \<open>evolves\<close> is a preorder, \<open>steps\<close>
  composes along \<open>bindS\<close> and \<open>forS\<close>, and an operation is done by following its text.
\<close>

section \<open>The plan cache only grows\<close>

lemma BuildPlan_ok:
  assumes "gemm_inv g" and "FindPlan g c = None" and "BuildPlan lt g c tag = Inr (plan, g')"
  shows "gemm_inv g' \<and> gemm_extends g g'"
  using BuildPlan_adds[OF assms(1,3)] BuildPlan_frame[OF assms(3)] assms(2)
  by (auto simp: gemm_extends_def map_le_def dom_def)

lemma RunImpl_extends:
  assumes "gemm_inv g" and "RunImpl lt capture g c tag = Inr g'"
  shows "gemm_inv g' \<and> gemm_extends g g'"
  using assms BuildPlan_ok[OF assms(1)]
  by (auto simp: RunImpl_def PlanFor_def Let_def bindE_Inr_iff split: option.splits)

lemma run_launch_extends:
  assumes "gemm_inv g" and "run_launch lt capture g l = Inr g'"
  shows "gemm_inv g' \<and> gemm_extends g g'"
  using assms
  by (cases l) (auto simp: GemmFp16_def GemmBiasFp16_def GemmStridedBatched_def bindE_Inr_iff
      dest: RunImpl_extends split: option.splits)

text \<open>With an algorithm offered for every configuration no plan without one is built.\<close>

lemma BuildPlan_full:
  assumes "full_cache ws g" and "\<And>c. offers lt ws c" and "BuildPlan lt g c tag = Inr (plan, g')"
  shows "full_cache ws g'"
proof -
  have "gemm_inv g'" using BuildPlan_adds[OF _ assms(3)] assms(1) by (simp add: full_cache_def)
  then show ?thesis
    using assms(1,3) assms(2)[of c] by (auto simp: full_cache_def offers_def BuildPlan_def bindE_Inr_iff Let_def)
qed

lemma RunImpl_full:
  "full_cache ws g \<Longrightarrow> (\<And>c. offers lt ws c) \<Longrightarrow> RunImpl lt capture g c tag = Inr g' \<Longrightarrow> full_cache ws g'"
  by (auto simp: RunImpl_def PlanFor_def Let_def bindE_Inr_iff split: option.splits intro: BuildPlan_full)

lemma run_launch_full:
  "full_cache ws g \<Longrightarrow> (\<And>c. offers lt ws c) \<Longrightarrow> run_launch lt capture g l = Inr g' \<Longrightarrow> full_cache ws g'"
  by (cases l) (auto simp: GemmFp16_def GemmBiasFp16_def GemmStridedBatched_def bindE_Inr_iff
      intro: RunImpl_full split: option.splits)

lemma Probe_full:
  "full_cache ws g \<Longrightarrow> (\<And>c. offers lt ws c) \<Longrightarrow> Probe lt g c tag = Inr (ok, g') \<Longrightarrow> full_cache ws g'"
  by (auto simp: Probe_def Let_def bindE_Inr_iff split: option.splits intro: BuildPlan_full)

section \<open>The frame of every operation\<close>

definition arrays_ok :: "'d ModelExecutor \<Rightarrow> bool" where
  "arrays_ok ex \<longleftrightarrow>
     (\<forall>m\<in>{me_mirror ex, me_inputs ex}.
        sized (nat (step_rows (me_options ex))) (nat (ex_max_batch (me_options ex))) (me_mbs ex) m)"

text \<open>
  \<open>stays_full\<close>: on a library that offers an algorithm for every configuration, a cache in which
  every plan has one stays such a cache.
\<close>

definition stays_full :: "'d Cuda \<Rightarrow> CublasLtGemm \<Rightarrow> CublasLtGemm \<Rightarrow> bool" where
  "stays_full cu g g' \<longleftrightarrow> (\<forall>ws. (\<forall>c. offers (cu_lt cu) ws c) \<and> full_cache ws g \<longrightarrow> full_cache ws g')"

definition evolves :: "'d Cuda \<Rightarrow> 'd ModelExecutor \<Rightarrow> 'd ModelExecutor \<Rightarrow> bool" where
  "evolves cu ex ex' \<longleftrightarrow>
     same_setup ex ex' \<and> me_graphs ex' = me_graphs ex \<and> (arrays_ok ex \<longrightarrow> arrays_ok ex') \<and>
     (gemm_inv (me_gemm ex) \<longrightarrow> gemm_inv (me_gemm ex') \<and> gemm_extends (me_gemm ex) (me_gemm ex')) \<and>
     stays_full cu (me_gemm ex) (me_gemm ex')"

lemma stays_full_refl [simp]: "stays_full cu g g"
  by (simp add: stays_full_def)

lemma stays_full_trans: "stays_full cu a b \<Longrightarrow> stays_full cu b c \<Longrightarrow> stays_full cu a c"
  by (simp add: stays_full_def)

lemma evolves_refl [simp]: "evolves cu ex ex"
  by (simp add: evolves_def)

lemma evolves_trans: "evolves cu a b \<Longrightarrow> evolves cu b c \<Longrightarrow> evolves cu a c"
  by (auto simp: evolves_def same_setup_def intro: gemm_extends_trans stays_full_trans)

definition steps :: "'d Cuda \<Rightarrow> ('d, 'a) exec \<Rightarrow> bool" where
  "steps cu m \<longleftrightarrow> (\<forall>ex. evolves cu ex (snd (m ex)))"

named_theorems steps_intros \<open>composition rules of steps\<close>

lemma steps_returnS [steps_intros]: "steps cu (returnS x)"
  and steps_throwS [steps_intros]: "steps cu (throwS e)"
  and steps_getS [steps_intros]: "steps cu (getS f)"
  and steps_checkS [steps_intros]: "steps cu (checkS b e)"
  and steps_CudaCheck [steps_intros]: "steps cu (CudaCheck cu what)"
  by (simp_all add: steps_def returnS_def throwS_def getS_def checkS_def CudaCheck_def)

lemma steps_bindS [steps_intros]: "steps cu m \<Longrightarrow> (\<And>x. steps cu (f x)) \<Longrightarrow> steps cu (bindS m f)"
  by (fastforce simp: steps_def bindS_def split: prod.splits sum.splits intro: evolves_trans)

lemma steps_forS [steps_intros]:
  assumes "\<And>x. steps cu (f x)"
  shows "steps cu (forS f xs)"
  unfolding steps_def
proof
  show "evolves cu ex (snd (forS f xs ex))" for ex
  proof (induction xs arbitrary: ex)
    case (Cons x xs)
    have "evolves cu ex (snd (f x ex))" using assms by (simp add: steps_def)
    with Cons[of "snd (f x ex)"] show ?case
      by (auto simp: bindS_def split: prod.splits sum.splits intro: evolves_trans)
  qed simp
qed

lemma steps_if [steps_intros]: "steps cu m \<Longrightarrow> steps cu n \<Longrightarrow> steps cu (if b then m else n)"
  and steps_option [steps_intros]: "steps cu m \<Longrightarrow> (\<And>x. steps cu (f x)) \<Longrightarrow> steps cu (case v of None \<Rightarrow> m | Some x \<Rightarrow> f x)"
  and steps_prod [steps_intros]: "(\<And>a b. steps cu (g a b)) \<Longrightarrow> steps cu (case p of (a, b) \<Rightarrow> g a b)"
  by (auto split: option.splits prod.splits)

text \<open>Updates of the mirror that keep the lengths.\<close>

definition same_lengths :: "StepInputs \<Rightarrow> StepInputs \<Rightarrow> bool" where
  "same_lengths m m' \<longleftrightarrow>
     length (in_ids m') = length (in_ids m) \<and> length (in_positions m') = length (in_positions m) \<and>
     length (in_seq_lens m') = length (in_seq_lens m) \<and> length (in_tables m') = length (in_tables m)"

lemma steps_mirror: "(\<And>m. same_lengths m (f m)) \<Longrightarrow> steps cu (modifyS (\<lambda>ex. ex\<lparr>me_mirror := f (me_mirror ex)\<rparr>))"
  by (simp add: steps_def modifyS_def evolves_def arrays_ok_def sized_def same_lengths_def same_setup_def me_mbs_def)

lemma steps_set_row [steps_intros]: "steps cu (set_row r t p l)"
  and steps_set_table [steps_intros]: "steps cu (set_table i b)"
  and steps_fill_dummy [steps_intros]: "steps cu (fill_dummy off n)"
  unfolding set_row_def set_table_def fill_dummy_def by (intro steps_mirror, simp add: same_lengths_def)+

lemma steps_put_table [steps_intros]: "steps cu (put_table off bs)"
  unfolding put_table_def put_block_def by (intro steps_intros)

lemma steps_FillDummy [steps_intros]: "steps cu (FillDummyDecodeMirrors rows)"
  unfolding FillDummyDecodeMirrors_def by (intro steps_intros)

lemma steps_FillDecode [steps_intros]: "steps cu (FillDecodeMirrors h reqs pad)"
  unfolding FillDecodeMirrors_def fill_live_row_def Let_def by (intro steps_intros)

lemma steps_FillPrefill [steps_intros]: "steps cu (FillPrefillMirrors r b e)"
proof -
  have "steps cu (fill_prompt_row r b i)" for i
    unfolding fill_prompt_row_def Let_def by (intro steps_intros steps_mirror) (simp add: same_lengths_def)
  then show ?thesis unfolding FillPrefillMirrors_def Let_def by (intro steps_intros)
qed

text \<open>Uploads copy between arrays of the same length.\<close>

lemma length_copy_in: "length src = length dst \<Longrightarrow> length (copy_in n src dst) = length dst"
  by (simp add: copy_in_def)

lemma steps_upload:
  assumes "\<And>m d. same_lengths m d \<Longrightarrow> same_lengths d (f m d)"
  shows "steps cu (upload cu what f)"
proof -
  have "sized a b c (f m d)" if "sized a b c m" "sized a b c d" for a b c m d
    using that assms[of m d] by (simp add: sized_def same_lengths_def)
  then have "steps cu (modifyS (\<lambda>ex. ex\<lparr>me_inputs := f (me_mirror ex) (me_inputs ex)\<rparr>))"
    by (simp add: steps_def modifyS_def evolves_def arrays_ok_def same_setup_def me_mbs_def)
  then show ?thesis unfolding upload_def by (intro steps_intros)
qed

lemma steps_UploadDecode [steps_intros]: "steps cu (UploadDecodeInputs cu rows)"
  and steps_UploadPrefill [steps_intros]: "steps cu (UploadPrefillInputs cu rows)"
  unfolding UploadDecodeInputs_def UploadPrefillInputs_def
  by (intro steps_intros steps_upload; simp add: same_lengths_def length_copy_in)+

lemma steps_cache_step [steps_intros]: "steps cu (cache_step cu capture l)"
  by (auto simp: steps_def cache_step_def evolves_def same_setup_def arrays_ok_def me_mbs_def stays_full_def
      dest: run_launch_extends intro: run_launch_full split: sum.splits)

lemma steps_device [steps_intros]: "steps cu (modifyS (\<lambda>ex. ex\<lparr>me_device := f ex\<rparr>))"
  and steps_argmax [steps_intros]: "steps cu (modifyS (\<lambda>ex. ex\<lparr>me_argmax := g ex\<rparr>))"
  and steps_demotion [steps_intros]: "steps cu (modifyS (\<lambda>ex. ex\<lparr>me_demotion_warned := b\<rparr>))"
  and steps_dump_flag [steps_intros]: "steps cu (modifyS (\<lambda>ex. ex\<lparr>me_dump_pending := b\<rparr>))"
  by (simp_all add: steps_def modifyS_def evolves_def same_setup_def arrays_ok_def me_mbs_def)

lemma steps_enqueue [steps_intros]: "steps cu (enqueue cu ls)"
  and steps_record [steps_intros]: "steps cu (record_launches cu ls)"
  and steps_replay [steps_intros]: "steps cu (replay cu ls)"
  and steps_download [steps_intros]: "steps cu (download_argmax cu what n)"
  unfolding enqueue_def record_launches_def replay_def download_argmax_def by (intro steps_intros)+

lemma steps_ProbeS [steps_intros]: "steps cu (ProbeS cu c tag)"
  by (auto simp: steps_def ProbeS_def evolves_def same_setup_def arrays_ok_def me_mbs_def stays_full_def
      dest: Probe_extends intro: Probe_full split: sum.splits prod.splits)

lemma steps_Resolve [steps_intros]: "steps cu (ResolvePrefillGemmMode cu rows ctx)"
  unfolding ResolvePrefillGemmMode_def per_head_mode_def Let_def by (intro steps_intros)

section \<open>Each operation\<close>

lemma steps_Warmup [steps_intros]: "steps cu (WarmupDecodeBucket cu rows)"
  unfolding WarmupDecodeBucket_def by (intro steps_intros)

lemma steps_capture_bucket [steps_intros]: "steps cu (capture_bucket cu execs b)"
  unfolding capture_bucket_def by (intro steps_intros)

lemma steps_capture_buckets [steps_intros]: "steps cu (capture_buckets cu execs bs)"
  by (induction bs arbitrary: execs) (auto intro: steps_intros)

lemma steps_capture_all: "steps cu (capture_all cu)"
  unfolding capture_all_def by (intro steps_intros)

lemma steps_DecodeEager: "steps cu (DecodeEager cu h reqs)"
  unfolding DecodeEager_def by (intro steps_intros)

lemma steps_DecodeGraph: "steps cu (DecodeGraph cu h reqs)"
  unfolding DecodeGraph_def by (intro steps_intros)

lemma steps_PrefillChunk: "steps cu (PrefillChunk cu h rp b e)"
  unfolding PrefillChunk_def DumpLayer0Activations_def capture_fp16_def Let_def by (intro steps_intros)

end
