(* ===== verification/Executor_Reach.thy ===== *)
theory Executor_Reach
  imports Executor_Inv
begin

text \<open>
  The states of an executor: what construction establishes, with the captured graphs, and that
  every decode step and prefill chunk keeps it, whatever the runtime answers; construction with
  every call succeeding captures one graph per bucket.
\<close>

section \<open>The captured graphs\<close>

lemma bindS_Inr_iff: "bindS m f s = (Inr y, u) \<longleftrightarrow> (\<exists>x t. m s = (Inr x, t) \<and> f x t = (Inr y, u))"
  by (auto simp: bindS_def split: prod.splits sum.splits)

lemma steps_evolves: "steps cu m \<Longrightarrow> m ex = (r, ex') \<Longrightarrow> evolves cu ex ex'"
  by (metis steps_def snd_conv)

lemma decode_launches_evolves: "evolves cu ex ex' \<Longrightarrow> decode_launches ex' = decode_launches ex"
  by (auto simp: evolves_def same_setup_def decode_launches_def)

lemma getS_eq: "getS f s = (Inr x, t) \<longleftrightarrow> x = f s \<and> t = s"
  and returnS_eq: "returnS y s' = (Inr x', t') \<longleftrightarrow> x' = y \<and> t' = s'"
  by (auto simp: getS_def returnS_def)

lemma capture_bucket_out:
  assumes "capture_bucket cu execs b ex = (Inr execs', ex')"
  shows "execs' = execs @ [decode_launches ex b]"
proof -
  obtain t0 t1 t2 t3 where t: "FillDummyDecodeMirrors b ex = (Inr (), t0)" "UploadDecodeInputs cu b t0 = (Inr (), t1)"
    "CudaCheck cu ''drain dummy inputs before capture'' t1 = (Inr (), t2)"
    "CudaCheck cu ''cudaStreamBeginCapture'' t2 = (Inr (), t3)" "execs' = execs @ [decode_launches t3 b]"
    using assms by (auto simp: capture_bucket_def bindS_Inr_iff getS_eq returnS_eq)
  have "evolves cu ex t3"
    using evolves_trans[OF steps_evolves[OF steps_FillDummy t(1)]
        evolves_trans[OF steps_evolves[OF steps_UploadDecode t(2)]
          evolves_trans[OF steps_evolves[OF steps_CudaCheck t(3)] steps_evolves[OF steps_CudaCheck t(4)]]]] .
  then show ?thesis using t(5) by (simp add: decode_launches_evolves)
qed

lemma capture_buckets_out:
  "capture_buckets cu execs bs ex = (Inr execs', ex') \<Longrightarrow> execs' = execs @ map (decode_launches ex) bs"
proof (induction bs arbitrary: execs ex)
  case (Cons b bs)
  then obtain execs1 t where t: "capture_bucket cu execs b ex = (Inr execs1, t)"
    "capture_buckets cu execs1 bs t = (Inr execs', ex')" by (auto simp: bindS_Inr_iff)
  have "evolves cu ex t" by (rule steps_evolves[OF steps_capture_bucket t(1)])
  with Cons.IH[OF t(2)] capture_bucket_out[OF t(1)] show ?case by (simp add: decode_launches_evolves)
qed (simp add: returnS_eq)

lemma capture_all_out:
  assumes "capture_all cu ex = (Inr execs, ex')"
  shows "execs = map (decode_launches ex) (me_buckets ex)"
proof -
  obtain t1 t2 t3 where t: "forS (WarmupDecodeBucket cu) (me_buckets ex) ex = (Inr (), t1)"
    "CudaCheck cu ''cudaMemGetInfo before capture'' t1 = (Inr (), t2)"
    "capture_buckets cu [] (me_buckets ex) t2 = (Inr execs, t3)"
    using assms by (auto simp: capture_all_def bindS_Inr_iff getS_eq returnS_eq)
  have "evolves cu ex t2"
    using evolves_trans[OF steps_evolves[OF steps_forS[OF steps_Warmup] t(1)] steps_evolves[OF steps_CudaCheck t(2)]] .
  with capture_buckets_out[OF t(3)] show ?thesis by (simp add: decode_launches_evolves)
qed

section \<open>The invariant\<close>

definition decode_cached :: "'d ModelExecutor \<Rightarrow> bool" where
  "decode_cached ex \<longleftrightarrow>
     (\<forall>rows\<in>set (decode_row_shapes (me_options ex)). \<forall>p\<in>set (decode_probes (me_config ex) rows).
        runnable (me_gemm ex) (fst p))"

definition exec_inv :: "'d ModelExecutor \<Rightarrow> bool" where
  "exec_inv ex \<longleftrightarrow>
     ComputeBudget (me_config ex) (me_options ex) = Inr (me_budget ex) \<and>
     me_buckets ex = MakeDecodeBuckets (ex_max_batch (me_options ex)) \<and> arrays_ok ex \<and>
     gemm_inv (me_gemm ex) \<and> initialized (me_gemm ex) \<and> decode_cached ex \<and>
     (me_graphs ex = [] \<or> me_graphs ex = map (decode_launches ex) (me_buckets ex))"

lemma exec_inv_evolves:
  assumes "exec_inv ex" and "evolves cu ex ex'"
  shows "exec_inv ex'"
proof -
  have e: "same_setup ex ex'" "me_graphs ex' = me_graphs ex" "arrays_ok ex'" "gemm_inv (me_gemm ex')"
    "gemm_extends (me_gemm ex) (me_gemm ex')"
    using assms by (auto simp: evolves_def exec_inv_def)
  have "decode_cached ex'"
    using assms(1) e(1,5) by (auto simp: exec_inv_def decode_cached_def same_setup_def intro: runnable_extends)
  then show ?thesis
    using assms(1) e decode_launches_evolves[OF assms(2)] by (auto simp: exec_inv_def same_setup_def gemm_extends_def)
qed

lemma exec_inv_geometry: "exec_inv ex \<Longrightarrow> geometry_ok (me_config ex) (me_options ex)"
  by (auto simp: exec_inv_def ComputeBudget_def geometry_ok_def bindE_Inr_iff)

lemma exec_inv_sized: "exec_inv ex \<Longrightarrow> exec_sized ex"
  by (simp add: exec_inv_def exec_sized_def arrays_ok_def)

lemma zero_inputs_sized:
  assumes "geometry_ok mc opts"
  shows "sized (nat (step_rows opts)) (nat (ex_max_batch opts)) (nat (max_blocks_per_seq opts)) (zero_inputs opts)"
  using geometry_okD[OF assms] max_blocks_nonneg[OF assms]
  by (simp add: sized_def zero_inputs_def table_elems_def nat_mult_distrib step_rows_def nat_mono)

text \<open>Before the capture phase: the state that allocation and probing build.\<close>

definition built ::
  "'d Cuda \<Rightarrow> ModelConfig \<Rightarrow> ExecutorOptions \<Rightarrow> 'd ModelExecutor \<Rightarrow> bool" where
  "built cu mc opts ex \<longleftrightarrow>
     exec_inv ex \<and> me_graphs ex = [] \<and> me_config ex = mc \<and> me_options ex = opts"

lemma allocated_built:
  assumes "ComputeBudget mc opts = Inr b" and "Init (cu_lt cu) x y new_CublasLtGemm ws = Inr g0"
    and "ProbeDecodeGemmConfigs (cu_lt cu) mc opts g0 = Inr g1"
    and "ProbePrefillGemmConfigs (cu_lt cu) mc opts g1 = Inr (mode, g2)"
  shows "built cu mc opts ((allocated mc opts b g2 d0)\<lparr>me_mode := mode\<rparr>)"
proof -
  have geo: "geometry_ok mc opts" using assms(1) by (auto simp: ComputeBudget_def geometry_ok_def bindE_Inr_iff)
  note i = Init_ok[OF assms(2)]
  note d = ProbeDecode_ok[OF conjunct1[OF i] assms(3)]
  note p = ProbePrefill_ok[OF conjunct1[OF d] assms(4)]
  have ext: "gemm_extends g0 g2" using d p gemm_extends_trans by blast
  have "decode_cached ((allocated mc opts b g2 d0)\<lparr>me_mode := mode\<rparr>)"
    using d p by (auto simp: decode_cached_def allocated_def intro: runnable_extends)
  then show ?thesis
    using i p ext assms(1) zero_inputs_sized[OF geo]
    by (simp add: built_def exec_inv_def arrays_ok_def allocated_def me_mbs_def gemm_extends_def)
qed

lemma capture_inv:
  assumes "built cu mc opts ex" and "CaptureDecodeGraphs cu ex = (Inr u, ex')"
  shows "exec_inv ex' \<and> me_config ex' = mc \<and> me_options ex' = opts"
proof -
  obtain r t where c: "capture_all cu ex = (r, t)" by fastforce
  have e: "evolves cu ex t" by (rule steps_evolves[OF steps_capture_all c])
  have inv: "exec_inv t" "me_graphs t = []" "me_config t = mc" "me_options t = opts" "me_buckets t = me_buckets ex"
    using assms(1) e exec_inv_evolves[OF _ e] by (auto simp: built_def evolves_def same_setup_def)
  show ?thesis
  proof (cases r)
    case (Inl err)
    then show ?thesis using assms(1,2) c inv by (simp add: CaptureDecodeGraphs_def built_def)
  next
    case (Inr execs)
    have g: "execs = map (decode_launches t) (me_buckets t)"
      using capture_all_out c Inr decode_launches_evolves[OF e] inv(5) by metis
    have ex': "ex' = t\<lparr>me_graphs := execs\<rparr>" using assms(1,2) c Inr by (simp add: CaptureDecodeGraphs_def built_def)
    have "decode_launches ex' = decode_launches t" by (auto simp: ex' decode_launches_def)
    then show ?thesis
      using inv g by (auto simp: ex' exec_inv_def arrays_ok_def me_mbs_def decode_cached_def)
  qed
qed

lemma construction_built:
  assumes "new_ModelExecutor cu mc n opts d0 = Inr ex"
  shows "exec_inv ex \<and> me_config ex = mc \<and> me_options ex = opts"
proof -
  obtain b g0 g1 mode g2 where b: "ComputeBudget mc opts = Inr b"
    "Init (cu_lt cu) True True new_CublasLtGemm kDefaultWorkspaceBytes = Inr g0"
    "ProbeDecodeGemmConfigs (cu_lt cu) mc opts g0 = Inr g1"
    "ProbePrefillGemmConfigs (cu_lt cu) mc opts g1 = Inr (mode, g2)"
    and ex: "(if ex_enable_cuda_graphs opts then
       (case CaptureDecodeGraphs cu ((allocated mc opts b g2 d0)\<lparr>me_mode := mode\<rparr>) of (Inl e, _) \<Rightarrow> Inl e | (Inr _, ex') \<Rightarrow> Inr ex')
     else Inr ((allocated mc opts b g2 d0)\<lparr>me_mode := mode\<rparr>)) = Inr ex"
    using assms by (auto simp: new_ModelExecutor_def bindE_Inr_iff Let_def Init_def)
  note built = allocated_built[OF b, of d0]
  show ?thesis
    using ex capture_inv[OF built] built
    by (auto simp: built_def split: if_splits prod.splits sum.splits)
qed

text \<open>
  The states an executor can be in: after construction, and after any sequence of decode steps
  and prefill chunks, whether each returned or threw.
\<close>

inductive exec_reachable ::
  "'d Cuda \<Rightarrow> ModelConfig \<Rightarrow> ExecutorOptions \<Rightarrow> 'd ModelExecutor \<Rightarrow> bool"
  for cu mc opts where
  built: "new_ModelExecutor cu mc n opts d0 = Inr ex \<Longrightarrow> exec_reachable cu mc opts ex"
| eager: "exec_reachable cu mc opts ex \<Longrightarrow> exec_reachable cu mc opts (snd (DecodeEager cu h reqs ex))"
| graph: "exec_reachable cu mc opts ex \<Longrightarrow> exec_reachable cu mc opts (snd (DecodeGraph cu h reqs ex))"
| chunk: "exec_reachable cu mc opts ex \<Longrightarrow> exec_reachable cu mc opts (snd (PrefillChunk cu h rp b e ex))"

lemma exec_reachable_inv:
  "exec_reachable cu mc opts ex \<Longrightarrow> exec_inv ex \<and> me_config ex = mc \<and> me_options ex = opts"
proof (induction rule: exec_reachable.induct)
  case (built n d0 ex)
  then show ?case by (rule construction_built)
next
  case (eager ex h reqs)
  then show ?case
    using exec_inv_evolves steps_evolves[OF steps_DecodeEager surjective_pairing]
    by (fastforce simp: evolves_def same_setup_def)
next
  case (graph ex h reqs)
  then show ?case
    using exec_inv_evolves steps_evolves[OF steps_DecodeGraph surjective_pairing]
    by (fastforce simp: evolves_def same_setup_def)
next
  case (chunk ex h rp b e)
  then show ?case
    using exec_inv_evolves steps_evolves[OF steps_PrefillChunk surjective_pairing]
    by (fastforce simp: evolves_def same_setup_def)
qed

end
