(* ===== verification/Executor_Replay.thy ===== *)
theory Executor_Replay
  imports Executor_Reach
begin

text \<open>
  Decode by graph replay: with a runtime that reports no failure, construction with graphs on
  captures every bucket, and a replayed step computes exactly what the eager step computes when
  its batch is padded to the same bucket.
\<close>

section \<open>Steps that cannot fail\<close>

text \<open>The runtime reports success for every call and every product is launched.\<close>

definition cuda_ok :: "'d Cuda \<Rightarrow> bool" where
  "cuda_ok cu \<longleftrightarrow> (\<forall>what d. call_ok cu what d) \<and> (\<forall>c. matmul_ok (cu_lt cu) c)"

lemma CudaCheck_ok [simp]: "cuda_ok cu \<Longrightarrow> CudaCheck cu what ex = (Inr (), ex)"
  by (simp add: cuda_ok_def CudaCheck_def checkS_def)

definition runs :: "('d, 'a) exec \<Rightarrow> 'd ModelExecutor \<Rightarrow> bool" where
  "runs m ex \<longleftrightarrow> (\<exists>x t. m ex = (Inr x, t))"

lemma runs_bindS: "runs m ex \<Longrightarrow> (\<And>x t. m ex = (Inr x, t) \<Longrightarrow> runs (f x) t) \<Longrightarrow> runs (bindS m f) ex"
  by (fastforce simp: runs_def bindS_def)

lemma runs_inv:
  assumes "runs m ex" and "steps cu m" and "exec_inv ex"
  obtains x t where "m ex = (Inr x, t)" and "exec_inv t" and "evolves cu ex t"
  using assms exec_inv_evolves steps_evolves unfolding runs_def by blast

lemma runs_Upload: "cuda_ok cu \<Longrightarrow> runs (UploadDecodeInputs cu rows) ex"
  by (simp add: runs_def UploadDecodeInputs_def upload_def bindS_def getS_def modifyS_def)

lemma runs_FillDummy: "exec_inv ex \<Longrightarrow> rows \<le> ex_max_batch (me_options ex) \<Longrightarrow> runs (FillDummyDecodeMirrors rows) ex"
  by (simp add: runs_def FillDummyDecodeMirrors_ok exec_inv_sized)

lemma runs_replay: "runs (replay cu ls) ex"
  by (simp add: runs_def replay_def modifyS_def)

lemma runs_download: "cuda_ok cu \<Longrightarrow> runs (download_argmax cu what n) ex"
  by (simp add: runs_def download_argmax_def bindS_def modifyS_def)

text \<open>A bucket-sized step is served from the plan cache: enqueueing it executes its launches.\<close>

lemma enqueue_cached:
  assumes "\<And>l capture. l \<in> set ls \<Longrightarrow> run_launch (cu_lt cu) capture (me_gemm ex) l = Inr (me_gemm ex)"
  shows "enqueue cu ls ex = replay cu ls ex" and "record_launches cu ls ex = (Inr (), ex)"
proof -
  show "enqueue cu ls ex = replay cu ls ex"
    using assms
    by (induction ls arbitrary: ex)
      (simp_all add: enqueue_def replay_def modifyS_def bindS_def cache_step_def)
  show "record_launches cu ls ex = (Inr (), ex)"
    using assms by (induction ls) (simp_all add: record_launches_def bindS_def cache_step_def)
qed

lemma bucket_launches_cached:
  assumes "exec_inv ex" and "cuda_ok cu" and "rows \<in> set (me_buckets ex)" and "l \<in> set (decode_launches ex rows)"
  shows "run_launch (cu_lt cu) capture (me_gemm ex) l = Inr (me_gemm ex)"
proof (rule decode_launch_cached[where rows = rows and mc = "me_config ex" and opts = "me_options ex"])
  show "runnable (me_gemm ex) (fst p)" if "p \<in> set (decode_probes (me_config ex) rows)" for p
    using assms(1,3) that bucket_is_shape by (auto simp: exec_inv_def decode_cached_def)
qed (use assms in \<open>auto simp: exec_inv_def cuda_ok_def decode_launches_def\<close>)

lemma bucket_range: "exec_inv ex \<Longrightarrow> b \<in> set (me_buckets ex) \<Longrightarrow> 1 \<le> b \<and> b \<le> ex_max_batch (me_options ex)"
  using MakeDecodeBuckets_range by (auto simp: exec_inv_def)

lemma runs_Warmup:
  assumes "exec_inv ex" and "cuda_ok cu" and "b \<in> set (me_buckets ex)"
  shows "runs (WarmupDecodeBucket cu b) ex"
proof -
  obtain x t where t: "FillDummyDecodeMirrors b ex = (Inr x, t)" "exec_inv t" "evolves cu ex t"
    using runs_inv[OF runs_FillDummy steps_FillDummy assms(1)] assms bucket_range by blast
  obtain y u where u: "UploadDecodeInputs cu b t = (Inr y, u)" "exec_inv u" "evolves cu t u"
    using runs_inv[OF runs_Upload steps_UploadDecode t(2)] assms(2) by blast
  have b: "b \<in> set (me_buckets u)" using assms(3) t(3) u(3) by (simp add: evolves_def same_setup_def)
  have e: "enqueue cu (decode_launches u b) u = replay cu (decode_launches u b) u"
    using bucket_launches_cached[OF u(2) assms(2) b] by (intro enqueue_cached(1)) auto
  show ?thesis
    using t(1) u(1) e assms(2)
    by (simp add: runs_def WarmupDecodeBucket_def bindS_def replay_def modifyS_def getS_def download_argmax_def)
qed

lemma runs_capture_bucket:
  assumes "exec_inv ex" and "cuda_ok cu" and "b \<in> set (me_buckets ex)"
  shows "runs (capture_bucket cu execs b) ex"
proof -
  obtain x t where t: "FillDummyDecodeMirrors b ex = (Inr x, t)" "exec_inv t" "evolves cu ex t"
    using runs_inv[OF runs_FillDummy steps_FillDummy assms(1)] assms bucket_range by blast
  obtain y u where u: "UploadDecodeInputs cu b t = (Inr y, u)" "exec_inv u" "evolves cu t u"
    using runs_inv[OF runs_Upload steps_UploadDecode t(2)] assms(2) by blast
  have b: "b \<in> set (me_buckets u)" using assms(3) t(3) u(3) by (simp add: evolves_def same_setup_def)
  have e: "record_launches cu (decode_launches u b) u = (Inr (), u)"
    using bucket_launches_cached[OF u(2) assms(2) b] by (intro enqueue_cached(2)) auto
  show ?thesis
    using t(1) u(1) e assms(2) by (simp add: runs_def capture_bucket_def bindS_def getS_def returnS_def)
qed

lemma runs_forS_buckets:
  assumes "\<And>b ex. exec_inv ex \<Longrightarrow> b \<in> set (me_buckets ex) \<Longrightarrow> runs (f b) ex" and "\<And>b. steps cu (f b)"
    and "exec_inv ex" and "set bs \<subseteq> set (me_buckets ex)"
  shows "runs (forS f bs) ex"
  using assms(3,4)
proof (induction bs arbitrary: ex)
  case (Cons b bs)
  have "runs (f b) ex" using assms(1) Cons.prems by simp
  then obtain x t where t: "f b ex = (Inr x, t)" "exec_inv t" "evolves cu ex t"
    using runs_inv[OF _ assms(2) Cons.prems(1)] by blast
  have "runs (forS f bs) t" using Cons.IH[OF t(2)] Cons.prems(2) t(3) by (simp add: evolves_def same_setup_def)
  with t(1) show ?case by (simp add: runs_def bindS_def)
qed (simp add: runs_def)

lemma runs_capture_buckets:
  assumes "cuda_ok cu" and "exec_inv ex" and "set bs \<subseteq> set (me_buckets ex)"
  shows "runs (capture_buckets cu execs bs) ex"
  using assms(2,3)
proof (induction bs arbitrary: execs ex)
  case (Cons b bs)
  have "runs (capture_bucket cu execs b) ex" using runs_capture_bucket[OF Cons.prems(1) assms(1)] Cons.prems by simp
  then obtain x t where t: "capture_bucket cu execs b ex = (Inr x, t)" "exec_inv t" "evolves cu ex t"
    using runs_inv[OF _ steps_capture_bucket Cons.prems(1)] by blast
  have "runs (capture_buckets cu x bs) t" using Cons.IH[OF t(2)] Cons.prems(2) t(3) by (simp add: evolves_def same_setup_def)
  with t(1) show ?case by (simp add: runs_def bindS_def)
qed (simp add: runs_def returnS_def)

lemma runs_capture_all:
  assumes "cuda_ok cu" and "exec_inv ex"
  shows "runs (capture_all cu) ex"
proof -
  have "runs (forS (WarmupDecodeBucket cu) (me_buckets ex)) ex"
    by (rule runs_forS_buckets) (auto intro: runs_Warmup steps_Warmup assms)
  then obtain x t where t: "forS (WarmupDecodeBucket cu) (me_buckets ex) ex = (Inr x, t)" "exec_inv t" "evolves cu ex t"
    by (rule runs_inv) (auto intro: steps_intros assms(2))
  have "set (me_buckets ex) \<subseteq> set (me_buckets t)" using t(3) by (simp add: evolves_def same_setup_def)
  from runs_capture_buckets[OF assms(1) t(2) this, of "[]"] obtain execs u
    where "capture_buckets cu [] (me_buckets ex) t = (Inr execs, u)" by (auto simp: runs_def)
  with t(1) assms(1) show ?thesis by (simp add: runs_def capture_all_def bindS_def getS_def returnS_def)
qed

lemma init_captures:
  assumes "ComputeBudget mc opts = Inr b" and "\<forall>c. offers (cu_lt cu) kDefaultWorkspaceBytes c"
    and "cuda_ok cu" and "ex_enable_cuda_graphs opts"
  shows "\<exists>ex. new_ModelExecutor cu mc (num_layers mc) opts d0 = Inr ex \<and>
    me_graphs ex = map (decode_launches ex) (MakeDecodeBuckets (ex_max_batch opts))"
proof -
  have geo: "ValidateGeometry mc opts = Inr ()" using assms(1) by (simp add: ComputeBudget_def bindE_Inr_iff)
  obtain g0 g1 g2 where g: "Init (cu_lt cu) True True new_CublasLtGemm kDefaultWorkspaceBytes = Inr g0"
    "ProbeDecodeGemmConfigs (cu_lt cu) mc opts g0 = Inr g1"
    "ProbePrefillGemmConfigs (cu_lt cu) mc opts g1 = Inr (kStridedBatched, g2)"
    using probing_offered[OF geo assms(2)] by (auto simp: kDefaultWorkspaceBytes_def)
  let ?ex = "(allocated mc opts b g2 d0)\<lparr>me_mode := kStridedBatched\<rparr>"
  have built: "built cu mc opts ?ex" by (rule allocated_built[OF assms(1) g])
  then have inv: "exec_inv ?ex" "me_graphs ?ex = []" by (simp_all add: built_def)
  obtain execs t where c: "capture_all cu ?ex = (Inr execs, t)"
    using runs_capture_all[OF assms(3) inv(1)] by (auto simp: runs_def)
  have e: "evolves cu ?ex t" by (rule steps_evolves[OF steps_capture_all c])
  have ok: "call_ok cu what d" for what d using assms(3) by (simp add: cuda_ok_def)
  have bk: "me_buckets ?ex = MakeDecodeBuckets (ex_max_batch opts)" by (simp add: allocated_def)
  have "CaptureDecodeGraphs cu ?ex = (Inr (), t\<lparr>me_graphs := execs\<rparr>)"
    using c inv(2) by (simp add: CaptureDecodeGraphs_def)
  then have "new_ModelExecutor cu mc (num_layers mc) opts d0 = Inr (t\<lparr>me_graphs := execs\<rparr>)"
    using assms(1,4) g ok by (simp add: new_ModelExecutor_def)
  moreover have "decode_launches (t\<lparr>me_graphs := execs\<rparr>) = decode_launches ?ex"
    using decode_launches_evolves[OF e] by (auto simp: decode_launches_def fun_eq_iff)
  ultimately show ?thesis using capture_all_out[OF c] bk by auto
qed

section \<open>The debug option that pads the eager path\<close>

definition padded :: "'d ModelExecutor \<Rightarrow> 'd ModelExecutor" where
  "padded ex = ex\<lparr>me_options := (me_options ex)\<lparr>ex_pad_eager_to_bucket := 1\<rparr>\<rparr>"

text \<open>An action that does not look at the option commutes with setting it.\<close>

definition commutes :: "('d, 'a) exec \<Rightarrow> bool" where
  "commutes m \<longleftrightarrow> (\<forall>ex. m (padded ex) = apsnd padded (m ex))"

lemma commutesD: "commutes m \<Longrightarrow> m (padded ex) = apsnd padded (m ex)"
  by (simp add: commutes_def)

named_theorems commutes_intros \<open>composition rules of commutes\<close>

lemma commutes_bindS [commutes_intros]:
  assumes "commutes m" and "\<And>x. commutes (f x)"
  shows "commutes (bindS m f)"
  unfolding commutes_def
proof
  fix ex
  show "bindS m f (padded ex) = apsnd padded (bindS m f ex)"
    using assms by (cases "m ex", cases "fst (m ex)") (auto simp: commutes_def bindS_def)
qed

lemma commutes_returnS [commutes_intros]: "commutes (returnS x)"
  and commutes_throwS [commutes_intros]: "commutes (throwS e)"
  by (simp_all add: commutes_def returnS_def throwS_def)

lemma commutes_getS: "(\<And>ex. f (padded ex) = f ex) \<Longrightarrow> commutes (getS f)"
  and commutes_checkS: "(\<And>ex. b (padded ex) = b ex) \<Longrightarrow> commutes (checkS b e)"
  and commutes_modifyS: "(\<And>ex. g (padded ex) = padded (g ex)) \<Longrightarrow> commutes (modifyS g)"
  by (simp_all add: commutes_def getS_def checkS_def modifyS_def)

lemma commutes_forS [commutes_intros]:
  assumes "\<And>x. commutes (f x)"
  shows "commutes (forS f xs)"
proof (induction xs)
  case Nil
  then show ?case by (simp add: commutes_def)
next
  case (Cons x xs)
  then have "commutes (bindS (f x) (\<lambda>_. forS f xs))" using assms by (intro commutes_bindS)
  then show ?case by (simp add: commutes_def)
qed

lemma padded_sel [simp]:
  "me_config (padded ex) = me_config ex" "me_budget (padded ex) = me_budget ex"
  "me_buckets (padded ex) = me_buckets ex" "me_mirror (padded ex) = me_mirror ex"
  "me_gemm (padded ex) = me_gemm ex" "me_inputs (padded ex) = me_inputs ex"
  "me_device (padded ex) = me_device ex" "me_argmax (padded ex) = me_argmax ex"
  "me_mbs (padded ex) = me_mbs ex" "decode_launches (padded ex) rows = decode_launches ex rows"
  "ex_max_seq_len (me_options (padded ex)) = ex_max_seq_len (me_options ex)"
  "ex_max_batch (me_options (padded ex)) = ex_max_batch (me_options ex)"
  "max_blocks_per_seq (me_options (padded ex)) = max_blocks_per_seq (me_options ex)"
  by (simp_all add: padded_def me_mbs_def max_blocks_per_seq_def decode_launches_def EnqueueDecodeForward_def
      decode_layer_def[abs_def])

lemma commutes_rows:
  "commutes (set_row r t p l)" "commutes (set_table i b)" "commutes (fill_dummy off n)"
  unfolding set_row_def set_table_def fill_dummy_def
  by (intro commutes_modifyS, simp add: padded_def)+

lemma commutes_put_table [commutes_intros]: "commutes (put_table off bs)"
  unfolding put_table_def put_block_def
  by (auto intro!: commutes_intros commutes_checkS commutes_getS commutes_rows split: prod.splits)

lemma commutes_fill_live_row [commutes_intros]: "commutes (fill_live_row h x)"
  unfolding fill_live_row_def
  by (auto intro!: commutes_intros commutes_checkS commutes_getS commutes_rows split: prod.splits option.splits)

lemma FillDecode_padded:
  assumes "exec_inv ex" and "reqs \<noteq> []" and "bucket = SelectBucket (int (length reqs)) (me_buckets ex)" and "0 < bucket"
  shows "FillDecodeMirrors h reqs 0 (padded ex) = apsnd padded (FillDecodeMirrors h reqs bucket ex)"
proof -
  let ?live = "int (length reqs)"
  have b: "bucket \<in> set (me_buckets ex)" "?live \<le> bucket" "me_buckets ex \<noteq> []"
    using SelectBucket_in[of ?live "me_buckets ex"] assms(3,4) by auto
  have range: "bucket \<le> ex_max_batch (me_options ex)" "\<forall>x\<in>set (me_buckets ex). 1 \<le> x"
    using bucket_range[OF assms(1)] b(1) by auto
  have "max ?live (min 1 (last (me_buckets ex))) = ?live"
    using assms(2) range(2) b(3) by (cases reqs) (auto simp: min_def)
  then have rows: "decode_rows (padded ex) ?live 0 = bucket" "decode_rows ex ?live bucket = bucket"
    using assms(3,4) b(3) by (simp_all add: decode_rows_def padded_def)
  let ?rest = "\<lambda>rows. bindS (forS (fill_live_row h) (enumerate 0 reqs)) (\<lambda>_. bindS (getS me_mbs) (\<lambda>mbs.
      bindS (forS (\<lambda>r. bindS (set_row r 0 0 0) (\<lambda>_. fill_dummy (r * mbs) mbs)) [length reqs..<nat rows]) (\<lambda>_. returnS rows)))"
  have "?rest bucket (padded ex) = apsnd padded (?rest bucket ex)"
    by (rule commutesD) (intro commutes_intros commutes_getS commutes_rows, simp)
  then show ?thesis
    using assms(4) b(2) range(1) by (simp add: FillDecodeMirrors_def rows)
qed

section \<open>Replay is the padded eager step\<close>

lemma commutes_Upload [commutes_intros]: "commutes (UploadDecodeInputs cu rows)"
  unfolding UploadDecodeInputs_def upload_def CudaCheck_def
  by (intro commutes_intros commutes_checkS commutes_getS commutes_modifyS)
    (simp_all add: padded_def me_mbs_def max_blocks_per_seq_def)

lemma commutes_replay: "commutes (replay cu ls)"
  and commutes_download: "commutes (download_argmax cu what n)"
  unfolding replay_def download_argmax_def CudaCheck_def
  by (intro commutes_intros commutes_checkS commutes_modifyS; simp add: padded_def)+

lemma index_of_nth: "x \<in> set xs \<Longrightarrow> index_of x xs < length xs \<and> xs ! index_of x xs = x"
  by (induction xs) auto

lemma find_bucket_in: "b \<in> set bs \<Longrightarrow> find_bucket b bs = b"
  by (induction bs) auto

text \<open>What both paths do once the inputs are uploaded.\<close>

definition decode_tail :: "'d Cuda \<Rightarrow> nat \<Rightarrow> int \<Rightarrow> ('d, DecodeOutput) exec" where
  "decode_tail cu live bucket =
     bindS (getS (\<lambda>ex. decode_launches ex bucket)) (\<lambda>ls.
     bindS (replay cu ls) (\<lambda>_.
     bindS (download_argmax cu ''D2H argmax_out'' (nat bucket)) (\<lambda>_.
     getS (\<lambda>ex. \<lparr>out_tokens = take live (me_argmax ex), out_rows = bucket, out_bucket = bucket\<rparr>))))"

lemma commutes_tail: "commutes (decode_tail cu live bucket)"
  unfolding decode_tail_def
  by (intro commutes_intros commutes_getS commutes_replay commutes_download) simp_all

lemma decode_rows_filled: "FillDecodeMirrors h reqs pad ex = (Inr rows, t) \<Longrightarrow> rows = decode_rows ex (int (length reqs)) pad"
  by (auto simp: FillDecodeMirrors_def Let_def bindS_Inr_iff getS_eq returnS_eq checkS_def split: if_splits)

lemma graph_replay_padded:
  assumes "exec_inv ex" and "me_graphs ex \<noteq> []" and "cuda_ok cu" and "reqs \<noteq> []"
    and "0 < SelectBucket (int (length reqs)) (me_buckets ex)"
  shows "DecodeEager cu h reqs (padded ex) = apsnd padded (DecodeGraph cu h reqs ex)"
proof -
  let ?b = "SelectBucket (int (length reqs)) (me_buckets ex)"
  have b: "?b \<in> set (me_buckets ex)" "int (length reqs) \<le> ?b" using SelectBucket_in[OF assms(5)] by auto
  have live: "int (length reqs) \<le> ex_max_batch (me_options ex)"
    using bucket_range[OF assms(1) b(1)] b(2) by simp
  note fill = FillDecode_padded[OF assms(1,4) refl assms(5), of h]
  obtain r t where f: "FillDecodeMirrors h reqs ?b ex = (r, t)" by fastforce
  show ?thesis
  proof (cases r)
    case (Inl e)
    then show ?thesis
      using f fill assms(2,4,5) live
      by (simp add: DecodeEager_def DecodeGraph_def bindS_def[of "FillDecodeMirrors _ _ _"] has_decode_graphs_def)
  next
    case (Inr rows)
    have rows: "rows = ?b" using decode_rows_filled f Inr assms(5) by (fastforce simp: decode_rows_def)
    have et: "evolves cu ex t" by (rule steps_evolves[OF steps_FillDecode f])
    obtain y u where u: "UploadDecodeInputs cu ?b t = (Inr y, u)" "exec_inv u" "evolves cu t u"
      using runs_inv[OF runs_Upload steps_UploadDecode exec_inv_evolves[OF assms(1) et]] assms(3) by blast
    have eu: "evolves cu ex u" by (rule evolves_trans[OF et u(3)])
    have bu: "?b \<in> set (me_buckets u)" "me_buckets u = me_buckets ex" using b(1) eu by (simp_all add: evolves_def same_setup_def)
    have "me_graphs u = map (decode_launches u) (me_buckets u)"
      using u(2) eu assms(2) by (auto simp: exec_inv_def evolves_def)
    then have g: "me_graphs u ! index_of ?b (me_buckets ex) = decode_launches u ?b"
      using index_of_nth[OF bu(1)] bu(2) by simp
    have enq: "enqueue cu (decode_launches u ?b) (padded u) = replay cu (decode_launches u ?b) (padded u)"
      using bucket_launches_cached[OF u(2) assms(3) bu(1)] by (intro enqueue_cached(1)) auto
    have up: "UploadDecodeInputs cu ?b (padded t) = (Inr y, padded u)"
      using commutesD[OF commutes_Upload, of cu ?b t] u(1) by simp
    have dg: "DecodeGraph cu h reqs ex = decode_tail cu (length reqs) ?b u"
      using f Inr rows u(1) g assms(2-5) live
      by (simp add: DecodeGraph_def has_decode_graphs_def decode_tail_def bindS_def getS_def download_argmax_def
          replay_def modifyS_def checkS_def)
    have de: "DecodeEager cu h reqs (padded ex) = decode_tail cu (length reqs) ?b (padded u)"
      using fill f Inr rows up enq assms(3,4) live find_bucket_in[OF b(1)] bu(2)
      by (simp add: DecodeEager_def decode_tail_def bindS_def getS_def download_argmax_def replay_def modifyS_def
          checkS_def BucketForRows_def)
    show ?thesis unfolding dg de by (rule commutesD[OF commutes_tail])
  qed
qed

end
