(* ===== verification/Executor_Theorems.thy ===== *)
theory Executor_Theorems
  imports Executor_Replay
begin

text \<open>
  The properties of the executor's operations, over every state an executor can reach
  (\<open>exec_reachable\<close>): its invariant, the captured graphs, the equivalence of replay and padded
  eager execution, and what the step inputs hold.
\<close>

section \<open>A batch is checked before it is uploaded\<close>

lemma row_ok_evolves: "evolves cu ex ex' \<Longrightarrow> row_ok ex' = row_ok ex"
  by (auto simp: fun_eq_iff row_ok_def evolves_def same_setup_def)

lemma put_blocks_checked:
  "forS (put_block off) (enumerate n bs) ex = (Inr u, t) \<Longrightarrow> \<forall>b\<in>set bs. 0 < b \<and> b < num_kv_blocks (me_budget ex)"
proof (induction bs arbitrary: n ex)
  case (Cons b bs)
  obtain s where s: "put_block off (n, b) ex = (Inr (), s)" "forS (put_block off) (enumerate (Suc n) bs) s = (Inr u, t)"
    using Cons.prems by (auto simp: bindS_Inr_iff)
  have "0 < b \<and> b < num_kv_blocks (me_budget ex)" "me_budget s = me_budget ex"
    using s(1) by (auto simp: put_block_def checkS_def bindS_def set_table_def modifyS_def kDummyBlockId_def split: if_splits)
  with Cons.IH[OF s(2)] show ?case by simp
qed simp

lemma fill_live_row_checked:
  assumes "fill_live_row h (r, p) ex = (Inr u, t)"
  shows "\<exists>q. h p = Some q \<and> row_ok ex q"
proof -
  obtain q where q: "h p = Some q" using assms by (cases "h p") (auto simp: fill_live_row_def throwS_def)
  have c: "output_tokens q \<noteq> []" "\<not> (seq_len q < 1 \<or> seq_len q > ex_max_seq_len (me_options ex))"
    "\<not> (last (output_tokens q) < 0 \<or> last (output_tokens q) \<ge> vocab_size (me_config ex))"
    "\<not> num_blocks (block_table q) < BlocksForTokens (seq_len q)"
    "\<not> num_blocks (block_table q) > max_blocks_per_seq (me_options ex)"
    and rest: "bindS (set_row r (last (output_tokens q)) (seq_len q - 1) (seq_len q)) (\<lambda>_. bindS (getS me_mbs) (\<lambda>mbs.
       put_table (r * mbs) (blocks (block_table q)))) ex = (Inr u, t)"
    using assms by (simp_all add: fill_live_row_def q split: if_splits)
  obtain s x y where s: "set_row r (last (output_tokens q)) (seq_len q - 1) (seq_len q) ex = (Inr (), s)"
    "forS (put_block (r * me_mbs s)) (enumerate 0 (blocks (block_table q))) s = (Inr x, y)"
    using rest by (auto simp: bindS_Inr_iff put_table_def getS_eq)
  have "me_budget s = me_budget ex" using s(1) by (auto simp: set_row_def modifyS_def)
  with put_blocks_checked[OF s(2)] c q show ?thesis by (auto simp: row_ok_def)
qed

lemma fill_live_rows_checked:
  "forS (fill_live_row h) (enumerate n reqs) ex = (Inr u, t) \<Longrightarrow>
     \<exists>rs. list_all2 (\<lambda>p q. h p = Some q \<and> row_ok ex q) reqs rs"
proof (induction reqs arbitrary: n ex)
  case (Cons p reqs)
  obtain s where s: "fill_live_row h (n, p) ex = (Inr (), s)" "forS (fill_live_row h) (enumerate (Suc n) reqs) s = (Inr u, t)"
    using Cons.prems by (auto simp: bindS_Inr_iff)
  have "steps undefined (fill_live_row h (n, p))" unfolding fill_live_row_def by (intro steps_intros)
  from row_ok_evolves[OF steps_evolves[OF this s(1)]] have "row_ok s = row_ok ex" .
  with Cons.IH[OF s(2)] fill_live_row_checked[OF s(1)] show ?case by (fastforce simp: list_all2_Cons1)
qed (auto intro: exI[of _ "[]"])

lemma FillDecode_checked:
  assumes "FillDecodeMirrors h reqs pad ex = (Inr rows, ex')"
  shows "\<exists>rs. list_all2 (\<lambda>p q. h p = Some q \<and> row_ok ex q) reqs rs"
proof -
  obtain t where "forS (fill_live_row h) (enumerate 0 reqs) ex = (Inr (), t)"
    using assms by (auto simp: FillDecodeMirrors_def Let_def bindS_Inr_iff getS_eq checkS_def split: if_splits)
  then show ?thesis by (rule fill_live_rows_checked)
qed

section \<open>The rows of a filled mirror\<close>

lemma nth_table:
  assumes "\<forall>xs\<in>set xss. length xs = n" and "r < length xss"
  shows "take n (drop (r * n) (concat xss @ ys)) = xss ! r"
  using assms
proof (induction xss arbitrary: r)
  case (Cons xs xss)
  then show ?case by (cases r) (simp_all add: add.commute)
qed simp

text \<open>Row \<open>r\<close> of the input arrays: token, position, length, and table row.\<close>

definition input_row :: "nat \<Rightarrow> StepInputs \<Rightarrow> nat \<Rightarrow> row" where
  "input_row mbs m r =
     (in_ids m ! r, in_positions m ! r, in_seq_lens m ! r, take mbs (drop (r * mbs) (in_tables m)))"

lemma input_row_with_rows:
  assumes "rows_wf mbs rs" and "r < length rs"
  shows "input_row mbs (with_rows mbs rs m) r = rs ! r"
proof -
  have "take mbs (drop (r * mbs) (in_tables (with_rows mbs rs m))) = snd (snd (snd (rs ! r)))"
    using nth_table[of "map (snd \<circ> snd \<circ> snd) rs" mbs r "drop (length rs * mbs) (in_tables m)"] assms
    by (simp add: with_rows_def rows_wf_def del: take_append drop_append)
  then show ?thesis
    using assms(2) by (simp add: input_row_def) (simp add: with_rows_def nth_append)
qed

lemma step_rows_wf:
  assumes "list_all2 (\<lambda>p q. h p = Some q \<and> row_ok ex q) reqs rs"
  shows "rows_wf (me_mbs ex) (step_input_rows (me_mbs ex) rs rows)"
  using assms row_ok_mbs
  by (fastforce simp: rows_wf_def step_input_rows_def live_row_def pad_row_def list_all2_conv_all_nth in_set_conv_nth)

lemma decode_inputs:
  assumes "exec_inv ex" and "int (length reqs) \<le> ex_max_batch (me_options ex)"
    and "pad \<le> 0 \<or> int (length reqs) \<le> pad \<and> pad \<le> ex_max_batch (me_options ex)"
    and "FillDecodeMirrors h reqs pad ex = (Inr rows, ex')"
  shows "int (length reqs) \<le> rows \<and> rows \<le> ex_max_batch (me_options ex) \<and>
    (\<forall>r < nat rows. input_row (me_mbs ex) (me_mirror ex') r =
       (if r < length reqs then live_row (me_mbs ex) (the (h (reqs ! r))) else pad_row (me_mbs ex)))"
proof -
  obtain rs where rs: "list_all2 (\<lambda>p q. h p = Some q \<and> row_ok ex q) reqs rs" using FillDecode_checked[OF assms(4)] by blast
  have len: "length rs = length reqs" using rs by (simp add: list_all2_lengthD)
  have rows: "rows = decode_rows ex (int (length reqs)) pad"
    and m: "me_mirror ex' = with_rows (me_mbs ex) (step_input_rows (me_mbs ex) rs rows) (me_mirror ex)"
    using FillDecodeMirrors_ok[OF exec_inv_sized[OF assms(1)] rs assms(2,3)] assms(4) by auto
  note range = decode_rows_range[OF exec_inv_sized[OF assms(1)] assms(2,3)]
  have l: "length (step_input_rows (me_mbs ex) rs rows) = nat rows"
    using range rows len by (intro length_step_input_rows) simp
  have "input_row (me_mbs ex) (me_mirror ex') r =
       (if r < length reqs then live_row (me_mbs ex) (the (h (reqs ! r))) else pad_row (me_mbs ex))" if "r < nat rows" for r
  proof -
    have "input_row (me_mbs ex) (me_mirror ex') r = step_input_rows (me_mbs ex) rs rows ! r"
      using input_row_with_rows[OF step_rows_wf[OF rs]] that l by (simp add: m)
    then show ?thesis
      using that len rs by (auto simp: step_input_rows_def nth_append list_all2_conv_all_nth)
  qed
  then show ?thesis using range rows by simp
qed

section \<open>Properties\<close>


text \<open>
  Capture at construction. When the budget is valid, the library offers an algorithm for
  every configuration, no runtime call fails and graphs are enabled, construction succeeds and
  keeps one graph per decode bucket.
\<close>

theorem construction_captures:
  assumes "ComputeBudget mc opts = Inr b" and "\<forall>c. offers (cu_lt cu) kDefaultWorkspaceBytes c"
    and "cuda_ok cu" and "ex_enable_cuda_graphs opts"
  shows "\<exists>ex. new_ModelExecutor cu mc (num_layers mc) opts d0 = Inr ex \<and>
    me_graphs ex = map (decode_launches ex) (MakeDecodeBuckets (ex_max_batch opts))"
  using assms by (rule init_captures)

text \<open>
  C17: Replay equals padded eager execution. In every reachable state that kept its graphs, for
  every batch that a bucket covers, with no runtime failure: a decode step by graph replay
  returns the same result, token for token or the same exception, and leaves the same state as
  the eager step under the debug option that pads it to the bucket.
\<close>

theorem graph_replay_is_padded_eager:
  assumes "exec_reachable cu mc opts ex" and "me_graphs ex \<noteq> []" and "cuda_ok cu" and "reqs \<noteq> []"
    and "0 < SelectBucket (int (length reqs)) (me_buckets ex)"
  shows "DecodeEager cu h reqs (padded ex) = apsnd padded (DecodeGraph cu h reqs ex)"
  using exec_reachable_inv[OF assms(1)] assms(2-5) by (intro graph_replay_padded) auto

text \<open>
  C18: What a decode step uploads. In every reachable state, when \<open>FillDecodeMirrors\<close> returns a
  row count, it covers the batch within \<open>max_batch\<close>; the row of each request holds its last
  token, its last position, its length and its block table padded with the dummy block; and
  each padding row holds token, position and length zero and an all-dummy table.
\<close>

theorem decode_inputs_exact:
  assumes "exec_reachable cu mc opts ex" and "int (length reqs) \<le> ex_max_batch opts"
    and "pad \<le> 0 \<or> int (length reqs) \<le> pad \<and> pad \<le> ex_max_batch opts"
    and "FillDecodeMirrors h reqs pad ex = (Inr rows, ex')"
  shows "int (length reqs) \<le> rows \<and> rows \<le> ex_max_batch opts \<and>
    (\<forall>r < nat rows. input_row (me_mbs ex) (me_mirror ex') r =
       (if r < length reqs then live_row (me_mbs ex) (the (h (reqs ! r))) else pad_row (me_mbs ex)))"
  using decode_inputs[of ex reqs pad h rows ex'] exec_reachable_inv[OF assms(1)] assms(2-4) by auto

text \<open>
  A batch is accepted exactly when every row is valid. In every reachable state and for a
  batch within \<open>max_batch\<close>, \<open>FillDecodeMirrors\<close> returns if and only if every pointer refers to a
  request that has produced a token, whose length and last token are in range, whose table covers
  its length within the table width, and whose blocks are real blocks of the pool; in all other
  cases it throws.
\<close>

theorem decode_accepts_iff:
  assumes "exec_reachable cu mc opts ex" and "int (length reqs) \<le> ex_max_batch opts"
    and "pad \<le> 0 \<or> int (length reqs) \<le> pad \<and> pad \<le> ex_max_batch opts"
  shows "(\<exists>rows. fst (FillDecodeMirrors h reqs pad ex) = Inr rows) \<longleftrightarrow>
    list_all (\<lambda>p. case h p of None \<Rightarrow> False | Some q \<Rightarrow> row_ok ex q) reqs"
proof -
  have ex: "exec_inv ex" "me_options ex = opts" using exec_reachable_inv[OF assms(1)] by auto
  show ?thesis
  proof
    assume "\<exists>rows. fst (FillDecodeMirrors h reqs pad ex) = Inr rows"
    then obtain rows ex' where "FillDecodeMirrors h reqs pad ex = (Inr rows, ex')" by (metis prod.collapse)
    from FillDecode_checked[OF this] show "list_all (\<lambda>p. case h p of None \<Rightarrow> False | Some q \<Rightarrow> row_ok ex q) reqs"
      by (fastforce simp: list_all_length list_all2_conv_all_nth)
  next
    assume l: "list_all (\<lambda>p. case h p of None \<Rightarrow> False | Some q \<Rightarrow> row_ok ex q) reqs"
    have "list_all2 (\<lambda>p q. h p = Some q \<and> row_ok ex q) reqs (map (the \<circ> h) reqs)"
      using l by (auto simp: list_all_length list_all2_conv_all_nth split: option.splits)
    from FillDecodeMirrors_ok[OF exec_inv_sized[OF ex(1)] this] assms(2,3) ex(2)
    show "\<exists>rows. fst (FillDecodeMirrors h reqs pad ex) = Inr rows" by auto
  qed
qed

section \<open>A concrete executor\<close>

definition demo_cuda :: "nat Cuda" where
  "demo_cuda = \<lparr>cu_lt = demo_lt, call_ok = (\<lambda>_ _. True), execute = (\<lambda>_ _ d. Suc d), argmax_out = (\<lambda>_ i. int i)\<rparr>"

definition demo_options :: ExecutorOptions where
  "demo_options = default_ExecutorOptions\<lparr>ex_enable_cuda_graphs := True\<rparr>"

lemma demo_cuda_ok: "cuda_ok demo_cuda"
  by (simp add: cuda_ok_def demo_cuda_def demo_lt_def)

lemma demo_budget: "\<exists>b. ComputeBudget (pinned_config []) demo_options = Inr b \<and> num_kv_blocks b = 2340"
  by (simp add: ComputeBudget_def ValidateGeometry_def pinned_config_def default_ExecutorOptions_def demo_options_def
      KvBytesPerToken_def kKvBlockSize_def Let_def to_int32_def)

lemma demo_executor:
  "\<exists>ex. exec_reachable demo_cuda (pinned_config []) demo_options ex \<and> me_graphs ex \<noteq> [] \<and>
     me_buckets ex = [1, 2, 4, 8] \<and> num_kv_blocks (me_budget ex) = 2340"
proof -
  obtain b where b: "ComputeBudget (pinned_config []) demo_options = Inr b" "num_kv_blocks b = 2340"
    using demo_budget by blast
  have bk: "MakeDecodeBuckets (ex_max_batch demo_options) = [1, 2, 4, 8]" by code_simp
  obtain ex where ex: "new_ModelExecutor demo_cuda (pinned_config []) (num_layers (pinned_config [])) demo_options 0 = Inr ex"
    "me_graphs ex = map (decode_launches ex) (MakeDecodeBuckets (ex_max_batch demo_options))"
    using init_captures[OF b(1) _ demo_cuda_ok] demo_offers by (force simp: demo_options_def demo_cuda_def)
  have r: "exec_reachable demo_cuda (pinned_config []) demo_options ex" by (rule exec_reachable.built[OF ex(1)])
  have "me_buckets ex = [1, 2, 4, 8]" "me_budget ex = b"
    using exec_reachable_inv[OF r] b bk by (auto simp: exec_inv_def)
  then show ?thesis using r ex(2) b(2) bk by auto
qed

text \<open>One decoding request with a prompt of three tokens and one output token.\<close>

definition demo_heap :: "ptr \<Rightarrow> Request option" where
  "demo_heap p = (if p = 0 then Some (new_Request
     \<lparr>req_id := 7, prompt_tokens := [5, 6, 7], output_tokens := [9], block_table := \<lparr>blocks = [3]\<rparr>\<rparr>) else None)"


theorem construction_captures_witness:
  "\<exists>ex. new_ModelExecutor demo_cuda (pinned_config []) 28 demo_options 0 = Inr ex \<and> length (me_graphs ex) = 4"
proof -
  obtain b where b: "ComputeBudget (pinned_config []) demo_options = Inr b" using demo_budget by blast
  have bk: "MakeDecodeBuckets (ex_max_batch demo_options) = [1, 2, 4, 8]" by code_simp
  have "num_layers (pinned_config []) = 28" by (simp add: pinned_config_def)
  then show ?thesis
    using construction_captures[OF b _ demo_cuda_ok, of 0] demo_offers bk
    by (auto simp: demo_options_def demo_cuda_def)
qed

theorem graph_replay_is_padded_eager_witness:
  "\<exists>ex. me_graphs ex \<noteq> [] \<and>
     DecodeEager demo_cuda demo_heap [0, 0, 0] (padded ex) = apsnd padded (DecodeGraph demo_cuda demo_heap [0, 0, 0] ex)"
proof -
  obtain ex where ex: "exec_reachable demo_cuda (pinned_config []) demo_options ex" "me_graphs ex \<noteq> []"
    "me_buckets ex = [1, 2, 4, 8]" using demo_executor by blast
  have "0 < SelectBucket (int (length [0 :: ptr, 0, 0])) (me_buckets ex)" unfolding ex(3) by code_simp
  from graph_replay_is_padded_eager[OF ex(1,2) demo_cuda_ok _ this] ex(2) show ?thesis by blast
qed

lemma demo_row_ok:
  assumes "exec_reachable demo_cuda (pinned_config []) demo_options ex" and "num_kv_blocks (me_budget ex) = 2340"
  shows "row_ok ex (the (demo_heap 0))"
  using exec_reachable_inv[OF assms(1)] assms(2)
  by (simp add: row_ok_def demo_heap_def demo_options_def default_ExecutorOptions_def pinned_config_def size_defs
      max_blocks_per_seq_def)

theorem decode_accepts_iff_witness:
  "\<exists>ex :: nat ModelExecutor. (\<exists>rows. fst (FillDecodeMirrors demo_heap [0] 4 ex) = Inr rows) \<and>
     \<not> (\<exists>rows. fst (FillDecodeMirrors demo_heap [0, 1] 4 ex) = Inr rows)"
proof -
  obtain ex where ex: "exec_reachable demo_cuda (pinned_config []) demo_options ex" "num_kv_blocks (me_budget ex) = 2340"
    using demo_executor by blast
  have m: "ex_max_batch demo_options = 8" by (simp add: demo_options_def default_ExecutorOptions_def)
  have h: "demo_heap 0 = Some (the (demo_heap 0))" "demo_heap 1 = None" by (simp_all add: demo_heap_def)
  have "(\<exists>rows. fst (FillDecodeMirrors demo_heap [0] 4 ex) = Inr rows) \<and>
     \<not> (\<exists>rows. fst (FillDecodeMirrors demo_heap [0, 1] 4 ex) = Inr rows)"
    using decode_accepts_iff[OF ex(1), of "[0]" 4 demo_heap] decode_accepts_iff[OF ex(1), of "[0, 1]" 4 demo_heap]
      demo_row_ok[OF ex] h by (auto simp: m split: option.splits)
  then show ?thesis by blast
qed

theorem decode_inputs_exact_witness:
  "\<exists>ex ex' :: nat ModelExecutor. FillDecodeMirrors demo_heap [0] 4 ex = (Inr 4, ex') \<and>
     input_row (me_mbs ex) (me_mirror ex') 0 = (9, 3, 4, table_row (me_mbs ex) [3]) \<and>
     input_row (me_mbs ex) (me_mirror ex') 3 = pad_row (me_mbs ex)"
proof -
  obtain ex where ex: "exec_reachable demo_cuda (pinned_config []) demo_options ex" "num_kv_blocks (me_budget ex) = 2340"
    using demo_executor by blast
  have inv: "exec_inv ex" "me_options ex = demo_options" using exec_reachable_inv[OF ex(1)] by auto
  have m: "ex_max_batch demo_options = 8" by (simp add: demo_options_def default_ExecutorOptions_def)
  have l: "list_all2 (\<lambda>p q. demo_heap p = Some q \<and> row_ok ex q) [0] [the (demo_heap 0)]"
    using demo_row_ok[OF ex] by (simp add: demo_heap_def)
  obtain ex' where f: "FillDecodeMirrors demo_heap [0] 4 ex = (Inr 4, ex')"
    using FillDecodeMirrors_ok[OF exec_inv_sized[OF inv(1)] l, of 4] inv(2) m by (auto simp: decode_rows_def)
  have "live_row (me_mbs ex) (the (demo_heap 0)) = (9, 3, 4, table_row (me_mbs ex) [3])"
    by (simp add: live_row_def demo_heap_def size_defs)
  moreover have "input_row (me_mbs ex) (me_mirror ex') r =
      (if r = 0 then live_row (me_mbs ex) (the (demo_heap 0)) else pad_row (me_mbs ex))" if "r < 4" for r
    using decode_inputs_exact[OF ex(1) _ _ f] m that by simp
  from this[of 0] this[of 3] calculation f show ?thesis by auto
qed

end
