(* ===== verification/Engine.thy ===== *)
theory Engine
  imports Executor_Theorems Scheduler_Props "HOL-Library.Word"
begin

text \<open>
  \<^verbatim>\<open>src/src/core/engine.{hpp,cpp}\<close>: the composition root. An engine owns an executor, a
  scheduler with its block allocator, the map of live requests and the counters; \<open>AddRequest\<close>
  and \<open>EngineStep\<close> are actions on that state, so that what a throw leaves behind is modelled.

  The allocator is a field of \<open>Scheduler\<close>. A new request gets the address that equals its id:
  addresses are abstract, and the only reuse is that of a rejected request, which is destroyed.
  The counters are \<^verbatim>\<open>std::uint64_t\<close> and therefore \<open>64 word\<close>. The owner-thread assertion, NVTX
  ranges, log lines and the algorithm report are omitted; the parts of the constructor that load
  the model are in theory \<open>Engine_Init\<close>.
\<close>

section \<open>Options and state\<close>

definition kMaxWaitingRequests :: int where
  "kMaxWaitingRequests = 1024"

text \<open>\<^verbatim>\<open>kv_pool_gb\<close> is a double: \<open>None\<close> is a NaN.\<close>

record EngineOptions =
  model_dir :: string
  kv_pool_gb :: "rat option"
  eo_max_batch :: int
  eo_enable_cuda_graphs :: bool
  eo_max_seq_len :: int
  eo_prefill_chunk_tokens :: int
  eo_admission_policy :: AdmissionPolicy
  eo_pad_eager_to_bucket :: int
  eo_debug_dump_dir :: string

definition default_EngineOptions :: EngineOptions where
  "default_EngineOptions =
     \<lparr>model_dir = [], kv_pool_gb = Some 1, eo_max_batch = 8, eo_enable_cuda_graphs = True,
      eo_max_seq_len = 2048, eo_prefill_chunk_tokens = 1024, eo_admission_policy = kReserveFull,
      eo_pad_eager_to_bucket = 0, eo_debug_dump_dir = []\<rparr>"

definition eo_max_blocks_per_seq :: "EngineOptions \<Rightarrow> int" where
  "eo_max_blocks_per_seq opts = BlocksForTokens (eo_max_seq_len opts)"

record EngineStats =
  st_steps :: "64 word"
  st_prefill_tokens :: "64 word"
  st_decode_tokens :: "64 word"
  st_num_waiting :: int
  st_num_running :: int
  st_free_kv_blocks :: int
  st_reserved_kv_blocks :: int
  st_total_kv_blocks :: int
  st_graph_replays :: "64 word"
  st_eager_decodes :: "64 word"
  st_aborts :: "64 word"
  st_bucket_histogram :: "(int \<times> 64 word) list"

record 'd Engine =
  eng_options :: EngineOptions
  eng_config :: ModelConfig
  eng_executor :: "'d ModelExecutor"
  eng_scheduler :: Scheduler
  eng_requests :: "request_id \<Rightarrow> ptr option"
  eng_next_id :: request_id
  eng_steps :: "64 word"
  eng_prefill_tokens :: "64 word"
  eng_decode_tokens :: "64 word"
  eng_graph_replays :: "64 word"
  eng_eager_decodes :: "64 word"
  eng_aborts :: "64 word"
  eng_bucket_steps :: "64 word list"

type_synonym ('d, 'a) eng = "('d Engine, exn, 'a) action"

text \<open>The scale by a power of two is exact; the conversion to an integer truncates.\<close>

definition MakeExecutorOptions :: "EngineOptions \<Rightarrow> ExecutorOptions" where
  "MakeExecutorOptions opts =
     \<lparr>ex_kv_pool_bytes = \<lfloor>the (kv_pool_gb opts) * 2 ^ 30\<rfloor>, ex_max_batch = eo_max_batch opts,
      ex_max_seq_len = eo_max_seq_len opts, ex_prefill_chunk_tokens = eo_prefill_chunk_tokens opts,
      ex_enable_cuda_graphs = eo_enable_cuda_graphs opts, ex_pad_eager_to_bucket = eo_pad_eager_to_bucket opts,
      ex_debug_dump_dir = eo_debug_dump_dir opts\<rparr>"

definition scheduler_options :: "EngineOptions \<Rightarrow> ModelConfig \<Rightarrow> SchedulerOptions" where
  "scheduler_options opts mc = default_SchedulerOptions
     \<lparr>max_batch := eo_max_batch opts, prefill_chunk_tokens := eo_prefill_chunk_tokens opts,
      max_seq_len := eo_max_seq_len opts, admission_policy := eo_admission_policy opts,
      eos_token_ids := eos_ids mc\<rparr>"

text \<open>The members built once the executor exists: allocator, scheduler, counters.\<close>

definition assemble :: "EngineOptions \<Rightarrow> ModelConfig \<Rightarrow> 'd ModelExecutor \<Rightarrow> exn + 'd Engine" where
  "assemble opts mc ex =
     bindE (new_BlockAllocator (num_kv_blocks (me_budget ex))) (\<lambda>a.
     bindE (new_Scheduler a (scheduler_options opts mc) (\<lambda>_. None)) (\<lambda>s.
     Inr \<lparr>eng_options = opts, eng_config = mc, eng_executor = ex, eng_scheduler = s,
          eng_requests = (\<lambda>_. None), eng_next_id = 1, eng_steps = 0, eng_prefill_tokens = 0,
          eng_decode_tokens = 0, eng_graph_replays = 0, eng_eager_decodes = 0, eng_aborts = 0,
          eng_bucket_steps = replicate (length (me_buckets ex)) 0\<rparr>))"

section \<open>Components as actions on the engine\<close>

definition onSched :: "(Scheduler \<Rightarrow> exn + ('a \<times> Scheduler)) \<Rightarrow> ('d, 'a) eng" where
  "onSched f eng =
     (case f (eng_scheduler eng) of
        Inl e \<Rightarrow> (Inl e, eng)
      | Inr (x, s) \<Rightarrow> (Inr x, eng\<lparr>eng_scheduler := s\<rparr>))"

definition onExec :: "('d, 'a) exec \<Rightarrow> ('d, 'a) eng" where
  "onExec m eng = (case m (eng_executor eng) of (r, ex) \<Rightarrow> (r, eng\<lparr>eng_executor := ex\<rparr>))"

section \<open>Adding a request\<close>

definition check_tokens :: "token_id list \<Rightarrow> string \<Rightarrow> ('d, unit) eng" where
  "check_tokens tokens what =
     forS (\<lambda>t. checkS (\<lambda>eng. \<not> (t < 0 \<or> t \<ge> vocab_size (eng_config eng)))
                 (InvalidArgument (what @ '' contains a token id outside the vocabulary''))) tokens"

definition AddRequest ::
  "token_id list \<Rightarrow> int \<Rightarrow> bool \<Rightarrow> token_id list \<Rightarrow> ('d, request_id) eng" where
  "AddRequest prompt max_new ignore forced =
     bindS (check_tokens prompt ''prompt_tokens'') (\<lambda>_.
     bindS (check_tokens forced ''forced_tokens'') (\<lambda>_.
     bindS (getS eng_next_id) (\<lambda>new_id.
     let request = new_Request\<lparr>req_id := new_id, prompt_tokens := prompt, max_new_tokens := max_new,
                     ignore_eos := ignore, forced_tokens := forced\<rparr> in
     bindS (onSched (\<lambda>s. bindE (Enqueue (set_req s new_id request) new_id) (\<lambda>s'. Inr ((), s')))) (\<lambda>_.
     bindS (modifyS (\<lambda>eng. eng\<lparr>eng_next_id := eng_next_id eng + 1,
                                eng_requests := (eng_requests eng)(new_id \<mapsto> new_id)\<rparr>)) (\<lambda>_.
     returnS new_id)))))"

section \<open>One step\<close>

record Execution =
  ran_tokens :: "token_id list"
  ran_prefill_rows :: int
  ran_decode_rows :: int
  ran_bucket :: int
  ran_graph :: bool

text \<open>
  Executing a plan: one prefill chunk or one decode batch, the latter by replay when a bucket
  covers the batch and graphs are active.
\<close>

definition execute_plan :: "'d Cuda \<Rightarrow> (ptr \<Rightarrow> Request option) \<Rightarrow> StepPlan \<Rightarrow> ('d, Execution) exec" where
  "execute_plan cu h plan =
     (if is_prefill plan then
        bindS (PrefillChunk cu h (prefill plan) (prefill_begin plan) (prefill_end plan)) (\<lambda>out.
        returnS \<lparr>ran_tokens = (if pre_final_chunk out then [pre_first_token out] else []),
                 ran_prefill_rows = pre_rows out, ran_decode_rows = 0, ran_bucket = -1, ran_graph = False\<rparr>)
      else if decode plan \<noteq> [] then
        let live = int (length (decode plan)) in
        bindS (getS (\<lambda>ex. SelectBucket live (me_buckets ex) \<ge> 0 \<and> has_decode_graphs ex)) (\<lambda>replayed.
        bindS (if replayed then DecodeGraph cu h (decode plan) else DecodeEager cu h (decode plan)) (\<lambda>out.
        returnS \<lparr>ran_tokens = out_tokens out, ran_prefill_rows = 0, ran_decode_rows = live,
                 ran_bucket = out_bucket out, ran_graph = replayed\<rparr>))
      else returnS \<lparr>ran_tokens = [], ran_prefill_rows = 0, ran_decode_rows = 0, ran_bucket = -1, ran_graph = False\<rparr>)"

definition count_step :: "StepPlan \<Rightarrow> Execution \<Rightarrow> 'd Engine \<Rightarrow> 'd Engine" where
  "count_step plan run eng =
     (let eng1 = eng\<lparr>eng_steps := eng_steps eng + 1,
                     eng_aborts := eng_aborts eng + of_nat (length (aborted plan)),
                     eng_prefill_tokens := eng_prefill_tokens eng + word_of_int (ran_prefill_rows run)\<rparr> in
      if ran_decode_rows run > 0 then
        let eng2 = eng1\<lparr>eng_decode_tokens := eng_decode_tokens eng1 + word_of_int (ran_decode_rows run)\<rparr>;
            eng3 = (if ran_graph run then eng2\<lparr>eng_graph_replays := eng_graph_replays eng2 + 1\<rparr>
                    else eng2\<lparr>eng_eager_decodes := eng_eager_decodes eng2 + 1\<rparr>);
            i = index_of (ran_bucket run) (me_buckets (eng_executor eng3)) in
        if ran_bucket run \<ge> 0 \<and> i < length (me_buckets (eng_executor eng3))
        then eng3\<lparr>eng_bucket_steps := (eng_bucket_steps eng3)[i := eng_bucket_steps eng3 ! i + 1]\<rparr>
        else eng3
      else eng1)"

definition drop_finished :: "StepResult list \<Rightarrow> 'd Engine \<Rightarrow> 'd Engine" where
  "drop_finished results eng =
     eng\<lparr>eng_requests := fold (\<lambda>res m. if finished res then m(request_id res := None) else m) results
                            (eng_requests eng)\<rparr>"

definition EngineStep :: "'d Cuda \<Rightarrow> ('d, StepResult list) eng" where
  "EngineStep cu =
     bindS (onSched PlanStep) (\<lambda>plan.
     if plan_empty plan then returnS []
     else
       bindS (getS (\<lambda>eng. heap (eng_scheduler eng))) (\<lambda>h.
       bindS (onExec (execute_plan cu h plan)) (\<lambda>run.
       bindS (onSched (\<lambda>s. CompleteStep s plan (ran_tokens run))) (\<lambda>results.
       bindS (modifyS (count_step plan run)) (\<lambda>_.
       bindS (modifyS (drop_finished results)) (\<lambda>_.
       returnS results))))))"

section \<open>Queries\<close>

definition HasCapacity :: "'d Engine \<Rightarrow> bool" where
  "HasCapacity eng \<longleftrightarrow> num_waiting (eng_scheduler eng) < kMaxWaitingRequests"

definition Stats :: "'d Engine \<Rightarrow> EngineStats" where
  "Stats eng =
     \<lparr>st_steps = eng_steps eng, st_prefill_tokens = eng_prefill_tokens eng,
      st_decode_tokens = eng_decode_tokens eng, st_num_waiting = num_waiting (eng_scheduler eng),
      st_num_running = num_running (eng_scheduler eng),
      st_free_kv_blocks = free_blocks (allocator (eng_scheduler eng)),
      st_reserved_kv_blocks = reserved (allocator (eng_scheduler eng)),
      st_total_kv_blocks = total_blocks (allocator (eng_scheduler eng)),
      st_graph_replays = eng_graph_replays eng, st_eager_decodes = eng_eager_decodes eng,
      st_aborts = eng_aborts eng,
      st_bucket_histogram = zip (me_buckets (eng_executor eng)) (eng_bucket_steps eng)\<rparr>"

definition DebugBlockTable :: "'d Engine \<Rightarrow> request_id \<Rightarrow> block_id list" where
  "DebugBlockTable eng i =
     (case eng_requests eng i of
        None \<Rightarrow> []
      | Some p \<Rightarrow> (case heap (eng_scheduler eng) p of None \<Rightarrow> [] | Some r \<Rightarrow> blocks (block_table r)))"

end
