(* ===== verification/Executor_Live.thy ===== *)
theory Executor_Live
  imports Executor_Theorems
begin

text \<open>
  Steps that succeed: with a runtime that reports no failure and a library that offers an
  algorithm for every configuration, a decode step over valid rows and a prefill chunk over a
  valid slice return, with as many tokens as there are rows and each token taken from the
  device's sampled-token buffer.
\<close>

section \<open>Launches with valid configurations\<close>

lemma RunImpl_offered:
  assumes "full_cache ws g" and "\<And>c. offers lt ws c" and "\<And>c. matmul_ok lt c"
    and "ValidateConfig (Normalized c) = Inr ()"
  shows "\<exists>g'. RunImpl lt (Some False) g c tag = Inr g'"
proof (cases "FindPlan g (Normalized c)")
  case (Some p)
  then show ?thesis
    using assms(1,3) full_cache_FindPlan[OF assms(1) Some]
    by (simp add: RunImpl_def RequireInit_def PlanFor_def full_cache_def Let_def)
next
  case None
  have i: "initialized g" using assms(1) by (simp add: full_cache_def)
  obtain g' where p: "Probe lt g c tag = Inr (True, g')"
    using Probe_offered[OF assms(1,4,2)] by blast
  with None i obtain plan where "BuildPlan lt g (Normalized c) tag = Inr (plan, g')" "available plan"
    by (auto simp: Probe_def RequireInit_def Let_def bindE_Inr_iff)
  then show ?thesis
    using None i assms(3) by (simp add: RunImpl_def RequireInit_def PlanFor_def Let_def)
qed

definition launch_valid :: "launch \<Rightarrow> bool" where
  "launch_valid l \<longleftrightarrow>
     (\<forall>c. launch_config l = Some c \<longrightarrow> ValidateConfig (Normalized c) = Inr ()) \<and>
     (\<forall>d x y z a c. l = BatchedGemm d x y z a c \<longrightarrow> type_d c = d \<and> epilogue c = kEpilogueNone)"

lemma run_launch_offered:
  assumes "full_cache ws g" and "\<And>c. offers lt ws c" and "\<And>c. matmul_ok lt c" and "launch_valid l"
  shows "\<exists>g'. run_launch lt (Some False) g l = Inr g'"
  using assms(4) RunImpl_offered[OF assms(1-3)]
  by (cases l) (auto simp: launch_valid_def GemmFp16_def GemmBiasFp16_def GemmStridedBatched_def split: option.splits)

text \<open>The executor's side conditions for success.\<close>

definition live_cuda :: "'d Cuda \<Rightarrow> bool" where
  "live_cuda cu \<longleftrightarrow> cuda_ok cu \<and> (\<forall>c. offers (cu_lt cu) kDefaultWorkspaceBytes c)"

definition full :: "'d ModelExecutor \<Rightarrow> bool" where
  "full ex \<longleftrightarrow> full_cache kDefaultWorkspaceBytes (me_gemm ex)"

lemma full_evolves: "live_cuda cu \<Longrightarrow> evolves cu ex ex' \<Longrightarrow> full ex \<Longrightarrow> full ex'"
  by (auto simp: live_cuda_def evolves_def stays_full_def full_def)

lemma runs_enqueue:
  assumes "live_cuda cu" and "full ex" and "\<And>l. l \<in> set ls \<Longrightarrow> launch_valid l"
  shows "runs (enqueue cu ls) ex"
  using assms(2,3)
proof (induction ls arbitrary: ex)
  case (Cons l ls)
  obtain g where g: "run_launch (cu_lt cu) (Some False) (me_gemm ex) l = Inr g"
    using run_launch_offered[of kDefaultWorkspaceBytes "me_gemm ex" "cu_lt cu" l] assms(1) Cons.prems
    by (auto simp: live_cuda_def cuda_ok_def full_def)
  let ?ex = "ex\<lparr>me_gemm := g, me_device := execute cu l (me_inputs ex) (me_device ex)\<rparr>"
  have "full ?ex"
    using run_launch_full[OF _ _ g, of kDefaultWorkspaceBytes] assms(1) Cons.prems(1) by (auto simp: live_cuda_def full_def)
  then have "runs (enqueue cu ls) ?ex" using Cons by simp
  then show ?case using g by (simp add: runs_def enqueue_def bindS_def cache_step_def modifyS_def)
qed (simp add: runs_def enqueue_def)

lemma Linear_launch_valid:
  assumes "1 \<le> rows" "1 \<le> outf" "1 \<le> k" "k \<le> act" "outf \<le> out"
  shows "launch_valid (LinearGemm v out w act x b rows outf k)"
  using Linear_valid[OF assms] by (simp add: launch_valid_def)

lemma layer_launches_valid:
  assumes "geometry_ok mc opts" and "1 \<le> rows"
  shows "launch_valid (layer_input_norm mc rows layer)"
    and "l \<in> set (layer_qkv mc rows layer) \<Longrightarrow> launch_valid l"
    and "l \<in> set (layer_mlp mc rows layer) \<Longrightarrow> launch_valid l"
    and "launch_valid (LinearGemm v (hidden_size mc) w (hidden_size mc) x None rows (hidden_size mc) (hidden_size mc))"
    and "launch_valid (LinearGemm v (vocab_size mc) w (hidden_size mc) x None rows (vocab_size mc) (hidden_size mc))"
  using assms(2) widths[OF assms(1)] geometry_okD[OF assms(1)]
  by (auto simp: layer_qkv_def layer_mlp_def layer_input_norm_def intro!: Linear_launch_valid)
    (simp_all add: launch_valid_def)

lemma decode_launches_valid:
  assumes "geometry_ok (me_config ex) (me_options ex)" and "1 \<le> rows" and "l \<in> set (decode_launches ex rows)"
  shows "launch_valid l"
  using assms(3) layer_launches_valid[OF assms(1,2)]
  by (auto simp: decode_launches_def EnqueueDecodeForward_def EnqueueArgmax_def decode_layer_def)
    (simp_all add: launch_valid_def)

lemma prefill_launches_valid:
  assumes geo: "geometry_ok mc opts" and "1 \<le> rows" and "1 \<le> ctx"
    and "l \<in> set (EnqueuePrefillForward mc opts rows b ctx fin mode)"
  shows "launch_valid l"
proof -
  note w = widths[OF geo] and g = geometry_okD[OF geo]
  have batched: "launch_valid (BatchedGemm CUDA_R_32F x y z s (PrefillScores rows ctx (head_dim mc) n (qkv_width mc)))"
    "launch_valid (BatchedGemm CUDA_R_16F x y z s (PrefillPv rows ctx (head_dim mc) n (hidden_size mc)))"
    if "1 \<le> n" for x y z s n
    using recipes_valid(2,3)[of rows ctx "head_dim mc" n] assms(2,3) w g that
    by (simp_all add: launch_valid_def PrefillScores_def PrefillPv_def)
  have att: "launch_valid l" if "l \<in> set (EnqueuePrefillAttention mc opts layer rows b ctx mode)" for layer
    using that batched w(6)
    by (auto simp: EnqueuePrefillAttention_def Let_def split: if_splits) (simp_all add: launch_valid_def)
  show ?thesis
    using assms(4) layer_launches_valid[OF geo assms(2)] layer_launches_valid(5)[OF geo, of 1] att
    by (auto simp: EnqueuePrefillForward_def prefill_layer_def Let_def split: if_splits)
      (simp_all add: launch_valid_def)
qed

section \<open>Sampled tokens\<close>

lemma copy_in_prefix:
  "k \<le> n \<Longrightarrow> take k (copy_in n (map f [0..<n]) xs) = map f [0..<k]"
  by (simp add: copy_in_def take_map)

lemma download_argmax_out:
  "download_argmax cu what n ex = (Inr u, t) \<Longrightarrow>
     t = ex\<lparr>me_argmax := copy_in n (map (argmax_out cu (me_device ex)) [0..<n]) (me_argmax ex)\<rparr>"
  by (auto simp: download_argmax_def bindS_def modifyS_def CudaCheck_def checkS_def split: if_splits)

text \<open>The tokens of a decode step, by either path, are the first rows of the device buffer.\<close>

definition sampled :: "'d Cuda \<Rightarrow> 'd \<Rightarrow> nat \<Rightarrow> token_id list" where
  "sampled cu d n = map (argmax_out cu d) [0..<n]"

lemma checkS_eq: "checkS b e s = (Inr u, t) \<longleftrightarrow> b s \<and> t = s"
  and CudaCheck_eq: "CudaCheck cu what s' = (Inr u', t') \<longleftrightarrow> call_ok cu what (me_device s') \<and> t' = s'"
  by (auto simp: checkS_def CudaCheck_def)

lemmas action_eqs = bindS_Inr_iff getS_eq returnS_eq checkS_eq CudaCheck_eq

lemma filled_rows:
  assumes "exec_inv ex" and "int (length reqs) \<le> ex_max_batch (me_options ex)"
    and "pad \<le> 0 \<or> int (length reqs) \<le> pad \<and> pad \<le> ex_max_batch (me_options ex)"
    and "FillDecodeMirrors h reqs pad ex = (Inr rows, t)"
  shows "length reqs \<le> nat rows"
  using decode_rows_filled[OF assms(4)] decode_rows_range[OF exec_inv_sized[OF assms(1)] assms(2,3)] by linarith

lemma DecodeEager_tokens:
  assumes "exec_inv ex" and "DecodeEager cu h reqs ex = (Inr out, ex')"
  shows "\<exists>d. out_tokens out = sampled cu d (length reqs)"
proof (cases "reqs = []")
  case True
  then show ?thesis using assms(2) by (auto simp: DecodeEager_def returnS_eq empty_DecodeOutput_def sampled_def)
next
  case False
  then obtain rows t u v where s: "int (length reqs) \<le> ex_max_batch (me_options ex)"
    "FillDecodeMirrors h reqs 0 ex = (Inr rows, t)" "download_argmax cu ''D2H argmax_out'' (nat rows) u = (Inr (), v)"
    "out_tokens out = take (length reqs) (me_argmax v)"
    using assms(2) by (auto simp: DecodeEager_def action_eqs split: if_splits)
  show ?thesis
    using filled_rows[OF assms(1) s(1) _ s(2)] download_argmax_out[OF s(3)] s(4) copy_in_prefix
    by (auto simp: sampled_def)
qed

lemma DecodeGraph_tokens:
  assumes "exec_inv ex" and "DecodeGraph cu h reqs ex = (Inr out, ex')"
  shows "\<exists>d. out_tokens out = sampled cu d (length reqs)"
proof (cases "reqs = []")
  case True
  then show ?thesis using assms(2) by (auto simp: DecodeGraph_def returnS_eq empty_DecodeOutput_def sampled_def)
next
  case False
  let ?b = "SelectBucket (int (length reqs)) (me_buckets ex)"
  obtain rows t u v where s: "int (length reqs) \<le> ex_max_batch (me_options ex)" "\<not> ?b < 0"
    "FillDecodeMirrors h reqs ?b ex = (Inr rows, t)" "rows = ?b"
    "download_argmax cu ''D2H argmax_out'' (nat rows) u = (Inr (), v)"
    "out_tokens out = take (length reqs) (me_argmax v)"
    using assms(2) False by (auto simp: DecodeGraph_def action_eqs split: if_splits)
  have pad: "?b \<le> 0 \<or> int (length reqs) \<le> ?b \<and> ?b \<le> ex_max_batch (me_options ex)"
    using SelectBucket_in[of "int (length reqs)" "me_buckets ex"] bucket_range[OF assms(1)] by force
  show ?thesis
    using filled_rows[OF assms(1) s(1) pad s(3)] download_argmax_out[OF s(5)] s(6) copy_in_prefix
    by (auto simp: sampled_def)
qed

lemma PrefillChunk_tokens:
  assumes "PrefillChunk cu h (Some p) b e ex = (Inr out, ex')"
  shows "\<exists>r. h p = Some r \<and> pre_final_chunk out = (e = num_prompt_tokens r) \<and>
    (pre_final_chunk out \<longrightarrow> (\<exists>d. pre_first_token out = argmax_out cu d 0))"
proof -
  obtain r where r: "h p = Some r" using assms by (cases "h p") (auto simp: PrefillChunk_def throwS_def)
  show ?thesis
  proof (cases "e = num_prompt_tokens r")
    case True
    then obtain u v t where s: "download_argmax cu ''D2H first generated token'' 1 u = (Inr (), v)"
      "pre_first_token out = me_argmax v ! 0" "pre_final_chunk out"
      using assms r by (auto simp: PrefillChunk_def Let_def action_eqs split: if_splits)
    have "me_argmax v ! 0 = argmax_out cu (me_device u) 0"
      using download_argmax_out[OF s(1)] by (simp add: copy_in_def)
    then show ?thesis using s r True by auto
  next
    case False
    then show ?thesis using assms r by (auto simp: PrefillChunk_def Let_def action_eqs split: if_splits)
  qed
qed

section \<open>Steps that return\<close>

lemma runs_then:
  assumes "runs m ex" and "steps cu m" and "exec_inv ex" and "full ex" and "live_cuda cu"
    and "\<And>x t. m ex = (Inr x, t) \<Longrightarrow> exec_inv t \<Longrightarrow> full t \<Longrightarrow> evolves cu ex t \<Longrightarrow> runs (f x) t"
  shows "runs (bindS m f) ex"
proof (rule runs_bindS[OF assms(1)])
  fix x t
  assume m: "m ex = (Inr x, t)"
  have e: "evolves cu ex t" by (rule steps_evolves[OF assms(2) m])
  show "runs (f x) t"
    using assms(6)[OF m exec_inv_evolves[OF assms(3) e] full_evolves[OF assms(5) e assms(4)] e] .
qed

lemma runs_simps [simp]: "runs (returnS x) ex" "runs (getS f) ex" "runs (modifyS g) ex"
  "cuda_ok cu \<Longrightarrow> runs (CudaCheck cu what) ex"
  by (simp_all add: runs_def returnS_def getS_def modifyS_def)

lemma runs_tail:
  assumes "cuda_ok cu"
  shows "runs (bindS (download_argmax cu a n) (\<lambda>_. bindS (CudaCheck cu b) (\<lambda>_. bindS (CudaCheck cu c) (\<lambda>_. getS f)))) ex"
  using assms by (simp add: runs_def bindS_def download_argmax_def modifyS_def getS_def)

lemma live_cuda_ok: "live_cuda cu \<Longrightarrow> cuda_ok cu"
  by (simp add: live_cuda_def)

lemma runs_DecodeEager:
  assumes "exec_inv ex" and "full ex" and "live_cuda cu" and "int (length reqs) \<le> ex_max_batch (me_options ex)"
    and "list_all2 (\<lambda>p r. h p = Some r \<and> row_ok ex r) reqs rs"
  shows "runs (DecodeEager cu h reqs) ex"
proof (cases "reqs = []")
  case False
  have fill: "runs (FillDecodeMirrors h reqs 0) ex"
    using FillDecodeMirrors_ok[OF exec_inv_sized[OF assms(1)] assms(5,4), of 0] by (simp add: runs_def)
  note live = live_cuda_ok[OF assms(3)]
  have "runs (bindS (FillDecodeMirrors h reqs 0) (\<lambda>rows.
        bindS (UploadDecodeInputs cu rows) (\<lambda>_.
        bindS (getS (\<lambda>ex. decode_launches ex rows)) (\<lambda>ls.
        bindS (enqueue cu ls) (\<lambda>_.
        bindS (download_argmax cu ''D2H argmax_out'' (nat rows)) (\<lambda>_.
        bindS (CudaCheck cu ''decode step sync'') (\<lambda>_.
        bindS (CudaCheck cu ''decode step launches'') (\<lambda>_.
        getS (\<lambda>ex. \<lparr>out_tokens = take (length reqs) (me_argmax ex), out_rows = rows,
                      out_bucket = BucketForRows ex rows\<rparr>)))))))))  ex"
  proof (rule runs_then[OF fill steps_FillDecode assms(1-3)])
    fix rows t
    assume f: "FillDecodeMirrors h reqs 0 ex = (Inr rows, t)" and t: "exec_inv t" "full t"
    have "length reqs \<le> nat rows" using filled_rows[OF assms(1,4) _ f] by simp
    with False have rows: "1 \<le> rows" by (cases reqs) auto
    show "runs (bindS (UploadDecodeInputs cu rows) (\<lambda>_.
        bindS (getS (\<lambda>ex. decode_launches ex rows)) (\<lambda>ls.
        bindS (enqueue cu ls) (\<lambda>_.
        bindS (download_argmax cu ''D2H argmax_out'' (nat rows)) (\<lambda>_.
        bindS (CudaCheck cu ''decode step sync'') (\<lambda>_.
        bindS (CudaCheck cu ''decode step launches'') (\<lambda>_.
        getS (\<lambda>ex. \<lparr>out_tokens = take (length reqs) (me_argmax ex), out_rows = rows,
                      out_bucket = BucketForRows ex rows\<rparr>)))))))) t"
    proof (rule runs_then[OF runs_Upload[OF live] steps_UploadDecode t assms(3)])
      fix x u
      assume "UploadDecodeInputs cu rows t = (Inr x, u)" and u: "exec_inv u" "full u"
      have "runs (enqueue cu (decode_launches u rows)) u"
        by (rule runs_enqueue[OF assms(3) u(2) decode_launches_valid[OF exec_inv_geometry[OF u(1)] rows]])
      then show "runs (bindS (getS (\<lambda>ex. decode_launches ex rows)) (\<lambda>ls.
        bindS (enqueue cu ls) (\<lambda>_.
        bindS (download_argmax cu ''D2H argmax_out'' (nat rows)) (\<lambda>_.
        bindS (CudaCheck cu ''decode step sync'') (\<lambda>_.
        bindS (CudaCheck cu ''decode step launches'') (\<lambda>_.
        getS (\<lambda>ex. \<lparr>out_tokens = take (length reqs) (me_argmax ex), out_rows = rows,
                      out_bucket = BucketForRows ex rows\<rparr>))))))) u"
        by (intro runs_bindS[OF runs_simps(2)]) (auto simp: getS_eq intro: runs_bindS runs_tail live)
    qed
  qed
  then show ?thesis using False assms(4) by (simp add: DecodeEager_def runs_def)
qed (simp add: DecodeEager_def)

lemma first_bucket_live: "0 < n \<Longrightarrow> 0 \<le> first_bucket n bs \<Longrightarrow> 0 < first_bucket n bs"
  by (induction bs) (auto split: if_splits)

lemma runs_DecodeGraph:
  assumes "exec_inv ex" and "full ex" and "live_cuda cu" and "me_graphs ex \<noteq> []" and "reqs \<noteq> []"
    and "0 \<le> SelectBucket (int (length reqs)) (me_buckets ex)"
    and "list_all2 (\<lambda>p r. h p = Some r \<and> row_ok ex r) reqs rs"
  shows "runs (DecodeGraph cu h reqs) ex"
proof -
  let ?b = "SelectBucket (int (length reqs)) (me_buckets ex)"
  have b: "0 < ?b" using first_bucket_live[of "int (length reqs)" "me_buckets ex"] assms(5,6) by (simp add: SelectBucket_def)
  have pad: "int (length reqs) \<le> ?b \<and> ?b \<le> ex_max_batch (me_options ex)"
    using SelectBucket_in[OF b] bucket_range[OF assms(1)] by force
  have fill: "runs (FillDecodeMirrors h reqs ?b) ex"
    using FillDecodeMirrors_ok[OF exec_inv_sized[OF assms(1)] assms(7), of ?b] pad by (simp add: runs_def)
  then obtain rows t where f: "FillDecodeMirrors h reqs ?b ex = (Inr rows, t)" by (auto simp: runs_def)
  have rows: "rows = ?b" using decode_rows_filled[OF f] b by (simp add: decode_rows_def)
  show ?thesis
    using assms(4,5) pad b f rows live_cuda_ok[OF assms(3)]
    by (auto simp: DecodeGraph_def has_decode_graphs_def runs_def bindS_def UploadDecodeInputs_def upload_def getS_def
        modifyS_def checkS_def download_argmax_def replay_def)
qed

section \<open>Prefill chunks that return\<close>

text \<open>Actions that return from every state with the invariant and a full cache.\<close>

definition safe :: "'d Cuda \<Rightarrow> ('d, 'a) exec \<Rightarrow> bool" where
  "safe cu m \<longleftrightarrow> steps cu m \<and> (\<forall>ex. exec_inv ex \<and> full ex \<longrightarrow> runs m ex)"

lemma safe_bindS:
  assumes "live_cuda cu" and "safe cu m" and "\<And>x. safe cu (f x)"
  shows "safe cu (bindS m f)"
  using assms(2,3) runs_then[where m = m and f = f, OF _ _ _ _ assms(1)]
  by (auto simp: safe_def intro!: steps_bindS)

lemma safe_simps:
  "safe cu (returnS x)" "safe cu (getS f)" "live_cuda cu \<Longrightarrow> safe cu (CudaCheck cu what)"
  "live_cuda cu \<Longrightarrow> safe cu (download_argmax cu what n)"
  "safe cu (modifyS (\<lambda>ex. ex\<lparr>me_demotion_warned := b\<rparr>))"
  "safe cu (modifyS (\<lambda>ex. ex\<lparr>me_dump_pending := b\<rparr>))"
  by (auto simp: safe_def live_cuda_ok intro: steps_intros runs_download)

lemma safe_forS:
  assumes "live_cuda cu" and "\<And>x. x \<in> set xs \<Longrightarrow> safe cu (f x)" and "\<And>x. steps cu (f x)"
  shows "safe cu (forS f xs)"
  using assms(2)
proof (induction xs)
  case Nil
  then show ?case by (simp add: safe_def steps_def runs_def)
next
  case (Cons x xs)
  have "safe cu (bindS (f x) (\<lambda>_. forS f xs))" using Cons by (intro safe_bindS[OF assms(1)]) auto
  then show ?case using steps_forS[where f = f, OF assms(3), of "x # xs"] by (simp add: safe_def runs_def)
qed

lemma safe_enqueue:
  assumes "live_cuda cu" and "\<And>l. l \<in> set ls \<Longrightarrow> launch_valid l"
  shows "safe cu (enqueue cu ls)"
  using assms runs_enqueue[OF assms(1)] by (auto simp: safe_def intro: steps_intros)

text \<open>Actions that read something off the geometry first.\<close>

lemma safe_get:
  assumes "live_cuda cu" and "\<And>ex. exec_inv ex \<Longrightarrow> safe cu (k (F ex))" and "\<And>x. steps cu (k x)"
  shows "safe cu (bindS (getS F) k)"
  using assms(2,3) by (auto simp: safe_def runs_def intro!: steps_bindS steps_getS)

lemma safe_get_enqueue:
  assumes "live_cuda cu" and "\<And>ex. exec_inv ex \<Longrightarrow> safe cu (enqueue cu (F ex))" and "safe cu k"
  shows "safe cu (bindS (getS F) (\<lambda>ls. bindS (enqueue cu ls) (\<lambda>_. k)))"
  using assms(2,3)
  by (intro safe_get[OF assms(1)] safe_bindS[OF assms(1)] steps_intros) (auto simp: safe_def)

lemma safe_if: "safe cu m \<Longrightarrow> safe cu n \<Longrightarrow> safe cu (if b then m else n)"
  by simp

lemma safe_ProbeS:
  assumes "live_cuda cu" and "ValidateConfig (Normalized c) = Inr ()"
  shows "safe cu (ProbeS cu c tag)"
  using Probe_offered[where lt = "cu_lt cu" and tag = tag, OF _ assms(2)] assms(1)
  by (fastforce simp: safe_def runs_def full_def ProbeS_def live_cuda_def intro: steps_intros)

lemma ProbeS_offered:
  assumes "live_cuda cu" and "ValidateConfig (Normalized c) = Inr ()" and "full ex"
  shows "\<exists>t. ProbeS cu c tag ex = (Inr True, t) \<and> full t"
  using Probe_offered[where lt = "cu_lt cu" and tag = tag, OF _ assms(2)] assms(1,3)
  by (fastforce simp: full_def ProbeS_def live_cuda_def)

lemma safe_per_head:
  assumes "live_cuda cu" and "1 \<le> rows" and "1 \<le> ctx"
  shows "safe cu (per_head_mode cu rows ctx)"
proof -
  have s: "steps cu (per_head_mode cu rows ctx)"
    unfolding per_head_mode_def Let_def by (intro steps_intros)
  have r: "runs (per_head_mode cu rows ctx) ex" if inv: "exec_inv ex" and fl: "full ex" for ex
  proof -
    let ?mc = "me_config ex" and ?shape = "''prefill[T='' @ to_string rows @ '',ctx='' @ to_string ctx @ '']:''"
    have v: "ValidateConfig (Normalized (PrefillScores rows ctx (head_dim ?mc) 1 (qkv_width ?mc))) = Inr ()"
      "ValidateConfig (Normalized (PrefillPv rows ctx (head_dim ?mc) 1 (hidden_size ?mc))) = Inr ()"
      using widths[OF exec_inv_geometry[OF inv]] geometry_okD[OF exec_inv_geometry[OF inv]] assms
      by (auto intro!: recipes_valid)
    obtain t where t: "ProbeS cu (PrefillScores rows ctx (head_dim ?mc) 1 (qkv_width ?mc)) (?shape @ ''scores_per_head'') ex = (Inr True, t)" "full t"
      using ProbeS_offered[OF assms(1) v(1) fl] by blast
    obtain u where "ProbeS cu (PrefillPv rows ctx (head_dim ?mc) 1 (hidden_size ?mc)) (?shape @ ''pv_per_head'') t = (Inr True, u)"
      using ProbeS_offered[OF assms(1) v(2) t(2)] by blast
    with t show ?thesis by (simp add: runs_def per_head_mode_def bindS_def getS_def returnS_def Let_def)
  qed
  show ?thesis using s r by (simp add: safe_def)
qed

lemma safe_Resolve:
  assumes "live_cuda cu" and "1 \<le> rows" and "1 \<le> ctx"
  shows "safe cu (ResolvePrefillGemmMode cu rows ctx)"
proof -
  have v: "ValidateConfig (Normalized (PrefillScores rows ctx (head_dim (me_config ex)) (heads_per_group (me_config ex)) (qkv_width (me_config ex)))) = Inr ()"
    "ValidateConfig (Normalized (PrefillPv rows ctx (head_dim (me_config ex)) (heads_per_group (me_config ex)) (hidden_size (me_config ex)))) = Inr ()"
    if "exec_inv ex" for ex :: "'a ModelExecutor"
    using widths[OF exec_inv_geometry[OF that]] geometry_okD[OF exec_inv_geometry[OF that]] assms
    by (auto intro!: recipes_valid)
  have ph: "steps cu (per_head_mode cu rows ctx)"
    unfolding per_head_mode_def Let_def by (intro steps_intros)
  show ?thesis
    unfolding ResolvePrefillGemmMode_def Let_def
    by (rule safe_get[OF assms(1)])
      (auto intro!: safe_bindS[OF assms(1)] safe_simps safe_ProbeS[OF assms(1)] safe_per_head[OF assms] v
        steps_intros ph)
qed

lemma dump_stages_valid:
  assumes geo: "geometry_ok mc opts" and "1 \<le> rows" and "1 \<le> ctx"
    and "(ls, file) \<in> set (dump_stages mc opts rows b ctx mode)" and "l \<in> set ls"
  shows "launch_valid l"
proof -
  have "l \<in> set (prefill_layer mc opts rows b ctx mode 0) \<or> l = EmbedGather (BX, 0) (hidden_size mc) WEmbed (BInputIds, 0) rows (hidden_size mc)"
    using assms(4,5)
    by (auto simp: dump_stages_def prefill_layer_def layer_input_norm_def layer_qkv_def)
  moreover have "set (prefill_layer mc opts rows b ctx mode 0) \<subseteq> set (EnqueuePrefillForward mc opts rows b ctx True mode)"
    using geometry_okD(2)[OF geo] by (auto simp: EnqueuePrefillForward_def Let_def intro!: bexI[of _ 0])
  ultimately show ?thesis
    using prefill_launches_valid[OF geo assms(2,3)] by (auto simp: launch_valid_def)
qed

lemma safe_Dump:
  assumes "live_cuda cu" and "1 \<le> rows" and "1 \<le> ctx"
  shows "safe cu (DumpLayer0Activations cu rows b ctx mode)"
proof -
  have cap: "safe cu (capture_fp16 cu fn)" "steps cu (capture_fp16 cu fn)" for fn
    unfolding capture_fp16_def by (intro safe_bindS safe_simps assms steps_intros)+
  have "safe cu (forS (\<lambda>(ls, file). bindS (enqueue cu ls) (\<lambda>_. capture_fp16 cu file))
      (dump_stages (me_config ex) (me_options ex) rows b ctx mode))" if "exec_inv ex" for ex
  proof (rule safe_forS[OF assms(1)])
    show "safe cu (case x of (ls, file) \<Rightarrow> bindS (enqueue cu ls) (\<lambda>_. capture_fp16 cu file))"
      if x: "x \<in> set (dump_stages (me_config ex) (me_options ex) rows b ctx mode)" for x
      using x dump_stages_valid[OF exec_inv_geometry[OF \<open>exec_inv ex\<close>] assms(2,3)] cap
      by (auto split: prod.splits intro!: safe_bindS safe_enqueue assms(1))
  qed (auto intro!: steps_intros cap)
  then show ?thesis
    unfolding DumpLayer0Activations_def
    by (intro safe_bindS[OF assms(1)] safe_get[OF assms(1)] safe_simps assms(1) steps_intros cap)
qed

lemma runs_PrefillChunk:
  assumes "exec_inv ex" and "full ex" and live: "live_cuda cu" and "h p = Some r" and "chunk_ok ex r b e"
  shows "runs (PrefillChunk cu h (Some p) b e) ex"
proof -
  have c: "1 \<le> e - b" "1 \<le> e" using assms(5) by (auto simp: chunk_ok_def)
  have mb: "1 \<le> ex_max_batch (me_options ex)" using geometry_okD(10)[OF exec_inv_geometry[OF assms(1)]] .
  note fill = FillPrefillMirrors_ok[OF exec_inv_sized[OF assms(1)] assms(5) mb]
  have up: "safe cu (UploadPrefillInputs cu rows)" for rows
    using live_cuda_ok[OF live] steps_UploadPrefill
    by (auto simp: safe_def runs_def UploadPrefillInputs_def upload_def bindS_def getS_def modifyS_def)
  have fwd: "safe cu (enqueue cu (EnqueuePrefillForward (me_config x) (me_options x) (e - b) b e fin mode))"
    if "exec_inv x" for x fin mode
    by (rule safe_enqueue[OF live prefill_launches_valid[OF exec_inv_geometry[OF that] c]])
  have am: "safe cu (enqueue cu (EnqueueArgmax (me_config x) 1))" for x :: "'a ModelExecutor"
    by (rule safe_enqueue[OF live]) (simp add: EnqueueArgmax_def launch_valid_def)
  let ?rest = "\<lambda>final_chunk rows. bindS (ResolvePrefillGemmMode cu rows e) (\<lambda>mode.
     bindS (UploadPrefillInputs cu rows) (\<lambda>_.
     bindS (getS (\<lambda>ex. EnqueuePrefillForward (me_config ex) (me_options ex) rows b e final_chunk mode)) (\<lambda>ls.
     bindS (enqueue cu ls) (\<lambda>_.
     bindS (if final_chunk then
              bindS (getS (\<lambda>ex. EnqueueArgmax (me_config ex) 1)) (\<lambda>am.
              bindS (enqueue cu am) (\<lambda>_.
              bindS (download_argmax cu ''D2H first generated token'' 1) (\<lambda>_.
              bindS (CudaCheck cu ''prefill chunk sync'') (\<lambda>_.
              bindS (CudaCheck cu ''prefill chunk launches'') (\<lambda>_.
              getS (\<lambda>ex. me_argmax ex ! 0))))))
            else
              bindS (CudaCheck cu ''prefill chunk sync'') (\<lambda>_.
              bindS (CudaCheck cu ''prefill chunk launches'') (\<lambda>_.
              returnS (-1)))) (\<lambda>first_token.
     bindS (getS me_dump_pending) (\<lambda>pending.
     bindS (if pending then
              bindS (modifyS (\<lambda>ex. ex\<lparr>me_dump_pending := False\<rparr>)) (\<lambda>_.
              DumpLayer0Activations cu rows b e mode)
            else returnS ()) (\<lambda>_.
     returnS \<lparr>pre_first_token = first_token, pre_final_chunk = final_chunk, pre_rows = rows\<rparr>)))))))"
  have dump: "steps cu (DumpLayer0Activations cu rows b e mode)" for rows mode
    unfolding DumpLayer0Activations_def capture_fp16_def by (intro steps_intros)
  have "safe cu (?rest fin (e - b))" for fin
    by ((rule safe_get_enqueue[OF live] safe_if safe_Resolve[OF live c] up safe_simps live safe_Dump[OF live c]
          | (rule fwd, assumption) | rule am | rule safe_bindS[OF live])+)
  then have "runs (?rest (e = num_prompt_tokens r) (e - b)) (ex\<lparr>me_mirror := with_chunk (me_mbs ex) r b e (me_mirror ex)\<rparr>)"
  proof -
    let ?ex = "ex\<lparr>me_mirror := with_chunk (me_mbs ex) r b e (me_mirror ex)\<rparr>"
    have e: "evolves cu ex ?ex" by (rule steps_evolves[OF steps_FillPrefill fill])
    have "safe cu (?rest (e = num_prompt_tokens r) (e - b))" by fact
    then show ?thesis
      using exec_inv_evolves[OF assms(1) e] full_evolves[OF live e assms(2)] unfolding safe_def by blast
  qed
  moreover have "PrefillChunk cu h (Some p) b e ex =
      bindS (FillPrefillMirrors r b e) (?rest (e = num_prompt_tokens r)) ex"
    unfolding PrefillChunk_def Let_def assms(4) option.case ..
  moreover note bindS_Inr[where m = "FillPrefillMirrors r b e" and s = ex and f = "?rest (e = num_prompt_tokens r)", OF fill]
  ultimately show ?thesis unfolding runs_def by (simp only:)
qed

section \<open>Construction fills the cache\<close>

lemma construction_full:
  assumes "new_ModelExecutor cu mc n opts d0 = Inr ex" and live: "live_cuda cu"
  shows "full ex"
proof -
  obtain b g0 g1 mode g2 where b: "ComputeBudget mc opts = Inr b"
    "Init (cu_lt cu) True True new_CublasLtGemm kDefaultWorkspaceBytes = Inr g0"
    "ProbeDecodeGemmConfigs (cu_lt cu) mc opts g0 = Inr g1"
    "ProbePrefillGemmConfigs (cu_lt cu) mc opts g1 = Inr (mode, g2)"
    and ex: "(if ex_enable_cuda_graphs opts then
       (case CaptureDecodeGraphs cu ((allocated mc opts b g2 d0)\<lparr>me_mode := mode\<rparr>) of (Inl e, _) \<Rightarrow> Inl e | (Inr _, ex') \<Rightarrow> Inr ex')
     else Inr ((allocated mc opts b g2 d0)\<lparr>me_mode := mode\<rparr>)) = Inr ex"
    using assms(1) by (auto simp: new_ModelExecutor_def bindE_Inr_iff Let_def Init_def)
  have geo: "ValidateGeometry mc opts = Inr ()" using b(1) by (simp add: ComputeBudget_def bindE_Inr_iff)
  have off: "\<forall>c. offers (cu_lt cu) kDefaultWorkspaceBytes c" using live by (simp add: live_cuda_def)
  have "full_cache kDefaultWorkspaceBytes g2"
    using probing_offered[OF geo off] b(2-4) by (auto simp: kDefaultWorkspaceBytes_def)
  then have f: "full ((allocated mc opts b g2 d0)\<lparr>me_mode := mode\<rparr>)" by (simp add: full_def allocated_def)
  show ?thesis
  proof (cases "ex_enable_cuda_graphs opts")
    case False
    then show ?thesis using ex f by auto
  next
    case True
    obtain r t where c: "capture_all cu ((allocated mc opts b g2 d0)\<lparr>me_mode := mode\<rparr>) = (r, t)" by fastforce
    have "full t" by (rule full_evolves[OF live steps_evolves[OF steps_capture_all c] f])
    moreover have "me_gemm ex = me_gemm t"
      using ex True c by (auto simp: CaptureDecodeGraphs_def allocated_def split: sum.splits)
    ultimately show ?thesis by (simp add: full_def)
  qed
qed

lemma exec_reachable_full:
  "exec_reachable cu mc opts ex \<Longrightarrow> live_cuda cu \<Longrightarrow> full ex"
proof (induction rule: exec_reachable.induct)
  case (built n d0 ex)
  then show ?case by (rule construction_full)
next
  case (eager ex h reqs)
  then show ?case using full_evolves steps_evolves[OF steps_DecodeEager surjective_pairing] by blast
next
  case (graph ex h reqs)
  then show ?case using full_evolves steps_evolves[OF steps_DecodeGraph surjective_pairing] by blast
next
  case (chunk ex h rp b e)
  then show ?case using full_evolves steps_evolves[OF steps_PrefillChunk surjective_pairing] by blast
qed

end
