(* ===== verification/Engine_Contract.thy ===== *)
theory Engine_Contract
  imports Engine Executor_Live
begin

text \<open>
  The contract between the scheduler and what executes its plans.

  \<open>plan_executor\<close> is what the step loop relies on for safety: an executor that returns as many
  tokens as the plan asks for. From it, every outcome of a step is an event of the scheduler's
  own transition system. \<open>live_executor\<close> adds that valid plans are executed; from it, every
  queued request finishes. Both are interpreted on the model executor below.
\<close>

section \<open>The step loop over an executor\<close>

definition serve ::
  "('x \<Rightarrow> Scheduler \<Rightarrow> StepPlan \<Rightarrow> (exn + token_id list) \<times> 'x) \<Rightarrow> 'x \<Rightarrow> Scheduler \<Rightarrow>
   (exn + StepResult list) \<times> 'x \<times> Scheduler" where
  "serve run x s =
     (case PlanStep s of
        Inl e \<Rightarrow> (Inl e, x, s)
      | Inr (plan, s1) \<Rightarrow>
          if plan_empty plan then (Inr [], x, s1)
          else
            (case run x s1 plan of
               (Inl e, x') \<Rightarrow> (Inl e, x', s1)
             | (Inr toks, x') \<Rightarrow>
                 (case CompleteStep s1 plan toks of
                    Inl e \<Rightarrow> (Inl e, x', s1)
                  | Inr (ems, s2) \<Rightarrow> (Inr ems, x', s2))))"

locale plan_executor =
  fixes run :: "'x \<Rightarrow> Scheduler \<Rightarrow> StepPlan \<Rightarrow> (exn + token_id list) \<times> 'x"
    and ok :: "'x \<Rightarrow> bool"
  assumes run_keeps: "ok x \<Longrightarrow> ok (snd (run x s plan))"
    and run_tokens: "ok x \<Longrightarrow> sched_inv s \<Longrightarrow> plan_ok s plan \<Longrightarrow> run x s plan = (Inr toks, x') \<Longrightarrow>
      length toks = wants s plan"
begin

lemma serve_ok: "ok x \<Longrightarrow> serve run x s = (r, x', s') \<Longrightarrow> ok x'"
  using run_keeps by (auto simp: serve_def split: sum.splits prod.splits if_splits) (metis snd_conv)+

text \<open>Every outcome, a throw included, is a legal event of the scheduler.\<close>

lemma serve_event:
  assumes "ok x" and inv: "sched_inv s" and "serve run x s = (r, x', s')"
  shows "(legal s FailedStep \<and> exec_event s FailedStep = Inr s' \<and> (\<forall>ems. r = Inr ems \<longrightarrow> ems = [])) \<or>
    (\<exists>toks ems plan. legal s (Step toks) \<and> run_step s toks = Inr (plan, ems, s') \<and> r = Inr ems)"
proof -
  obtain plan s1 where p: "PlanStep s = Inr (plan, s1)" "sched_inv s1" "plan_ok s1 plan"
    using PlanStep_ok[OF inv] by (auto elim: wpE)
  show ?thesis
  proof (cases "plan_empty plan \<or> (\<exists>e. fst (run x s1 plan) = Inl e)")
    case True
    with assms(3) p(1) have "s' = s1" "\<forall>ems. r = Inr ems \<longrightarrow> ems = []"
      by (auto simp: serve_def split: prod.splits sum.splits if_splits)
    with p(1) show ?thesis by simp
  next
    case False
    then obtain toks y where t: "run x s1 plan = (Inr toks, y)" "\<not> plan_empty plan"
      by (cases "run x s1 plan"; cases "fst (run x s1 plan)") auto
    have len: "length toks = wants s1 plan" by (rule run_tokens[OF assms(1) p(2,3) t(1)])
    obtain ems s2 where c: "CompleteStep s1 plan toks = Inr (ems, s2)"
      using CompleteStep_ok[OF p(2,3) len] by (auto elim: wpE)
    have "s' = s2" "r = Inr ems" using assms(3) p(1) t c by (auto simp: serve_def)
    with p(1) c len show ?thesis by (auto simp: run_step_def)
  qed
qed

lemma serve_reachable:
  assumes "ok x" and "reachable opts n s" and "serve run x s = (r, x', s')"
  shows "reachable opts n s'"
proof -
  obtain ev where "legal s ev" "exec_event s ev = Inr s'"
    using serve_event[OF assms(1) reachable_sched_inv[OF assms(2)] assms(3)]
    by (metis (no_types, lifting) bindE.simps(2) case_prod_conv exec_event.simps(2))
  then show ?thesis by (rule reachable.event[OF assms(2)])
qed

end

locale live_executor = plan_executor run ok
  for run :: "'x \<Rightarrow> Scheduler \<Rightarrow> StepPlan \<Rightarrow> (exn + token_id list) \<times> 'x" and ok +
  fixes fits :: "'x \<Rightarrow> Scheduler \<Rightarrow> bool"
  assumes run_succeeds: "ok x \<Longrightarrow> sched_inv s \<Longrightarrow> fits x s \<Longrightarrow> plan_ok s plan \<Longrightarrow> \<exists>toks x'. run x s plan = (Inr toks, x')"
    and fits_planned: "fits x s \<Longrightarrow> planned s plan s' \<Longrightarrow> fits x s'"
    and fits_completed: "ok x \<Longrightarrow> sched_inv s \<Longrightarrow> fits x s \<Longrightarrow> plan_ok s plan \<Longrightarrow> run x s plan = (Inr toks, x') \<Longrightarrow>
      completed s plan toks ems s' \<Longrightarrow> fits x' s'"
begin

lemma serve_live:
  assumes "ok x" and inv: "sched_inv s" and fit: "fits x s"
  shows "\<exists>ems x' s'. serve run x s = (Inr ems, x', s') \<and> ok x' \<and> sched_inv s' \<and> fits x' s' \<and>
    (queued s \<noteq> {} \<longrightarrow> work s' < work s) \<and> (queued s = {} \<longrightarrow> queued s' = {}) \<and>
    (\<forall>p. p \<in> queued s \<or> finished_at s p \<longrightarrow> p \<in> queued s' \<or> finished_at s' p)"
proof -
  obtain plan s1 where p: "PlanStep s = Inr (plan, s1)" "sched_inv s1" "plan_ok s1 plan" "planned s plan s1"
    "plan_empty plan \<longrightarrow> queued s = {}"
    using PlanStep_ok[OF inv] by (auto elim: wpE)
  have fit1: "fits x s1" by (rule fits_planned[OF fit p(4)])
  show ?thesis
  proof (cases "plan_empty plan")
    case True
    then have q: "queued s = {}" using p(5) by simp
    then have "queued s1 = {}" "heap s1 = heap s" using p(4) by (auto simp: planned_def queued_def)
    then show ?thesis
      using True p assms(1) fit1 q by (auto simp: serve_def finished_at_def)
  next
    case False
    obtain toks x' where t: "run x s1 plan = (Inr toks, x')" using run_succeeds[OF assms(1) p(2) fit1 p(3)] by blast
    have len: "length toks = wants s1 plan" by (rule run_tokens[OF assms(1) p(2,3) t])
    then have leg: "legal s (Step toks)" using p(1) by simp
    obtain ems s2 where c: "CompleteStep s1 plan toks = Inr (ems, s2)" "completed s1 plan toks ems s2" "sched_inv s2"
      using CompleteStep_ok[OF p(2,3) len] by (auto elim: wpE)
    have step: "run_step s toks = Inr (plan, ems, s2)" using p(1) c(1) by (simp add: run_step_def)
    have sv: "serve run x s = (Inr ems, x', s2)" using p(1) False t c(1) by (simp add: serve_def)
    have ok': "ok x'" using run_keeps[OF assms(1), of s1 plan] t by simp
    have "fits x' s2" by (rule fits_completed[OF assms(1) p(2) fit1 p(3) t c(2)])
    moreover have "queued s \<noteq> {} \<longrightarrow> work s2 < work s" using run_step_work[OF inv leg] step by simp
    moreover have "queued s = {} \<longrightarrow> queued s2 = {}" using run_step_idle[OF inv leg] step by simp
    moreover have "\<forall>p. p \<in> queued s \<or> finished_at s p \<longrightarrow> p \<in> queued s2 \<or> finished_at s2 p"
      using run_step_finishes[OF inv leg] step by simp
    ultimately show ?thesis using sv ok' c(3) by blast
  qed
qed

text \<open>\<open>k\<close> steps in a row.\<close>

fun serve_all :: "nat \<Rightarrow> 'x \<Rightarrow> Scheduler \<Rightarrow> ('x \<times> Scheduler) option" where
  "serve_all 0 x s = Some (x, s)"
| "serve_all (Suc k) x s =
     (case serve run x s of (Inl e, _) \<Rightarrow> None | (Inr ems, x', s') \<Rightarrow> serve_all k x' s')"

lemma serve_drains:
  "ok x \<Longrightarrow> sched_inv s \<Longrightarrow> fits x s \<Longrightarrow> work s \<le> int k \<Longrightarrow>
     \<exists>x' s'. serve_all k x s = Some (x', s') \<and> queued s' = {} \<and>
       (\<forall>p. p \<in> queued s \<or> finished_at s p \<longrightarrow> finished_at s' p)"
proof (induction k arbitrary: x s)
  case 0
  then have "queued s = {}" by (intro work_zero) simp_all
  then show ?case by simp
next
  case (Suc k)
  obtain ems x' s' where v: "serve run x s = (Inr ems, x', s')" "ok x'" "sched_inv s'" "fits x' s'"
    "queued s \<noteq> {} \<longrightarrow> work s' < work s" "queued s = {} \<longrightarrow> queued s' = {}"
    "\<forall>p. p \<in> queued s \<or> finished_at s p \<longrightarrow> p \<in> queued s' \<or> finished_at s' p"
    using serve_live[OF Suc.prems(1-3)] by blast
  have "work s' \<le> int k"
  proof (cases "queued s = {}")
    case True
    with v(6) have "queued s' = {}" by simp
    then show ?thesis by (simp add: queued_def work_def)
  next
    case False
    with v(5) Suc.prems(4) show ?thesis by simp
  qed
  with Suc.IH[OF v(2-4)] v(1,7) show ?case by fastforce
qed

end

section \<open>Plans the executor accepts\<close>

lemma admitted_blocks:
  assumes "sched_inv s" and "p \<in> set (prefill_queue s) \<union> set (running s)" and "heap s p = Some r"
    and "b \<in> set (blocks (block_table r))"
  shows "0 < b \<and> b < total_blocks (allocator s)"
proof -
  have "free_ids (allocator s) + (\<Sum>k\<in>#admitted s. mset (held_of (heap s) k)) = mset_set {1..<total_blocks (allocator s)}"
    using sched_invD(2)[OF assms(1)] by (simp add: accounts_def ledger_def)
  moreover have "p \<in># admitted s" using assms(2) by (auto simp: admitted_def)
  then have "b \<in># (\<Sum>k\<in>#admitted s. mset (held_of (heap s) k))"
    using assms(3,4) by (auto simp: in_Union_mset_iff intro!: bexI[of _ p])
  ultimately have "b \<in># mset_set {1..<total_blocks (allocator s)}" by (metis union_iff)
  then show ?thesis by simp
qed

definition vocab_req :: "int \<Rightarrow> Request \<Rightarrow> bool" where
  "vocab_req v r \<longleftrightarrow> (\<forall>t\<in>set (prompt_tokens r) \<union> set (forced_tokens r) \<union> set (output_tokens r). 0 \<le> t \<and> t < v)"

definition vocab_ok :: "int \<Rightarrow> Scheduler \<Rightarrow> bool" where
  "vocab_ok v s \<longleftrightarrow> (\<forall>p\<in>queued s. \<forall>r. heap s p = Some r \<longrightarrow> vocab_req v r)"

lemma vocab_content: "content r' = content r \<Longrightarrow> vocab_req v r' = vocab_req v r"
  by (simp add: vocab_req_def content_def)

lemma vocab_planned:
  assumes "vocab_ok v s" and "planned s plan s1"
  shows "vocab_ok v s1"
  unfolding vocab_ok_def
proof (intro ballI allI impI)
  fix p r
  assume p: "p \<in> queued s1" "heap s1 p = Some r"
  have "p \<in> queued s" using assms(2) p(1) by (auto simp: planned_def queued_def)
  moreover have "map_option content (heap s p) = map_option content (heap s1 p)"
    using assms(2) by (simp add: planned_def same_content_def)
  then obtain r0 where r0: "heap s p = Some r0" "content r0 = content r" using p(2) by (cases "heap s p") auto
  ultimately have "vocab_req v r0" using assms(1) by (simp add: vocab_ok_def)
  then show "vocab_req v r" using vocab_content[OF r0(2)] by simp
qed

lemma vocab_token:
  assumes "vocab_req v r" and "0 \<le> t" "t < v"
  shows "vocab_req v (token_req opts r t)"
  using assms by (auto simp: vocab_req_def token_req_def released_def with_token_def appended_token_def Let_def)

lemma vocab_progress [simp]: "vocab_req v (r\<lparr>prefill_progress := n\<rparr>) = vocab_req v r"
  by (simp add: vocab_req_def)

lemma in_tl: "x \<in> set (tl xs) \<Longrightarrow> x \<in> set xs"
  by (cases xs) auto

lemma vocab_completed:
  assumes "vocab_ok v s" and inv: "sched_inv s" and "plan_ok s plan" and "completed s plan toks ems s'"
    and toks: "\<forall>t\<in>set toks. 0 \<le> t \<and> t < v"
  shows "vocab_ok v s'"
  unfolding vocab_ok_def
proof (intro ballI allI impI)
  fix p r
  assume p: "p \<in> queued s'" "heap s' p = Some r"
  show "vocab_req v r"
  proof (cases "prefill plan")
    case None
    then have rd: "rows_done s (zip (decode plan) toks) s'" using assms(4) by (simp add: completed_def)
    then have q: "p \<in> queued s" using p(1) assms(4) by (auto simp: rows_done_def queued_def completed_def)
    show ?thesis
    proof (cases "p \<in> fst ` set (zip (decode plan) toks)")
      case True
      then obtain t where t: "(p, t) \<in> set (zip (decode plan) toks)" by force
      then obtain r0 where "heap s p = Some r0" "heap s' p = Some (token_req (options s) r0 t)"
        using rd by (fastforce simp: rows_done_def)
      then show ?thesis using assms(1) q p(2) toks set_zip_rightD[OF t] vocab_token by (auto simp: vocab_ok_def)
    next
      case False
      then show ?thesis using rd assms(1) q p(2) by (auto simp: rows_done_def vocab_ok_def)
    qed
  next
    case (Some p0)
    then have pq: "p0 \<in> set (prefill_queue s)" and r0: "\<exists>r. heap s p0 = Some r"
      using assms(3) by (auto simp: plan_ok_def intro: hd_in_set)
    have sub: "p \<in> queued s"
      using Some p(1) pq assms(4) by (auto simp: completed_def queued_def Let_def split: if_splits dest: in_tl)
    show ?thesis
    proof (cases "p = p0")
      case True
      obtain r1 where r1: "heap s p0 = Some r1" using r0 by blast
      have v1: "vocab_req v r1" using assms(1) sub True r1 by (auto simp: vocab_ok_def)
      show ?thesis
      proof (cases "toks = []")
        case True
        then show ?thesis using assms(4) Some \<open>p = p0\<close> r1 v1 p(2) by (auto simp: completed_def Let_def)
      next
        case False
        then have "hd toks \<in> set toks" by simp
        then have "vocab_req v (token_req (options s) (r1\<lparr>prefill_progress := prefill_end plan\<rparr>) (hd toks))"
          using toks v1 by (intro vocab_token) auto
        then show ?thesis using assms(4) Some \<open>p = p0\<close> r1 p(2) False by (auto simp: completed_def Let_def)
      qed
    next
      case False
      then have "heap s' p = heap s p" using assms(4) Some by (auto simp: completed_def Let_def split: if_splits)
      then show ?thesis using assms(1) sub p(2) by (simp add: vocab_ok_def)
    qed
  qed
qed

end
