(* ===== verification/Engine_Props.thy ===== *)
theory Engine_Props
  imports Engine_Contract
begin

text \<open>
  The model executor meets the contracts of theory \<open>Engine_Contract\<close>, so the engine's steps are
  events of the scheduler and its queues drain; and what the engine adds on top: the live map of
  requests, the ids, and the state after a failure.
\<close>

section \<open>The model executor as a plan executor\<close>

definition engine_run ::
  "'d Cuda \<Rightarrow> 'd ModelExecutor \<Rightarrow> Scheduler \<Rightarrow> StepPlan \<Rightarrow> (exn + token_id list) \<times> 'd ModelExecutor" where
  "engine_run cu x s plan =
     (case execute_plan cu (heap s) plan x of
        (Inl e, x') \<Rightarrow> (Inl e, x')
      | (Inr run, x') \<Rightarrow> (Inr (ran_tokens run), x'))"

lemma snd_bindS_returnS: "snd (bindS m (\<lambda>x. returnS (f x)) s) = snd (m s)"
  by (auto simp: bindS_def returnS_def split: prod.splits sum.splits)

lemma execute_plan_reachable:
  assumes "exec_reachable cu mc opts x"
  shows "exec_reachable cu mc opts (snd (execute_plan cu h plan x))"
  using exec_reachable.eager[OF assms] exec_reachable.graph[OF assms] exec_reachable.chunk[OF assms] assms
  by (auto simp: execute_plan_def snd_bindS_returnS Let_def) (simp_all add: returnS_def)

lemma snd_engine_run: "snd (engine_run cu x s plan) = snd (execute_plan cu (heap s) plan x)"
  by (auto simp: engine_run_def split: prod.splits sum.splits)

text \<open>The tokens of an executed plan: their number, and where they come from.\<close>

lemma execute_plan_tokens:
  assumes "exec_reachable cu mc opts x" and "plan_ok s plan" and "execute_plan cu (heap s) plan x = (Inr run, x')"
  shows "length (ran_tokens run) = wants s plan \<and> (\<forall>t\<in>set (ran_tokens run). \<exists>d i. t = argmax_out cu d i)"
proof (cases "prefill plan")
  case None
  have inv: "exec_inv x" using exec_reachable_inv[OF assms(1)] by simp
  show ?thesis
  proof (cases "decode plan = []")
    case True
    then show ?thesis using assms(3) None by (auto simp: execute_plan_def is_prefill_def wants_def returnS_eq)
  next
    case False
    then obtain out where "ran_tokens run = out_tokens out"
      "(\<exists>y. DecodeGraph cu (heap s) (decode plan) x = (Inr out, y)) \<or> (\<exists>y. DecodeEager cu (heap s) (decode plan) x = (Inr out, y))"
      using assms(3) None by (auto simp: execute_plan_def is_prefill_def action_eqs Let_def split: if_splits)
    then show ?thesis
      using DecodeGraph_tokens[OF inv] DecodeEager_tokens[OF inv] None by (fastforce simp: wants_def sampled_def)
  qed
next
  case (Some p)
  then obtain out y where o: "PrefillChunk cu (heap s) (Some p) (prefill_begin plan) (prefill_end plan) x = (Inr out, y)"
    "ran_tokens run = (if pre_final_chunk out then [pre_first_token out] else [])"
    using assms(3) by (auto simp: execute_plan_def is_prefill_def action_eqs)
  obtain r where r: "heap s p = Some r" "prefill_end plan \<le> num_prompt_tokens r"
    using assms(2) Some by (auto simp: plan_ok_def)
  show ?thesis using PrefillChunk_tokens[OF o(1)] o(2) r Some by (auto simp: wants_def)
qed

interpretation exec: plan_executor "engine_run cu" "exec_reachable cu mc opts" for cu mc opts
proof unfold_locales
  fix x s plan
  show "exec_reachable cu mc opts x \<Longrightarrow> exec_reachable cu mc opts (snd (engine_run cu x s plan))"
    unfolding snd_engine_run by (rule execute_plan_reachable)
next
  fix x s plan toks x'
  assume "exec_reachable cu mc opts x" "plan_ok s plan" "engine_run cu x s plan = (Inr toks, x')"
  then show "length toks = wants s plan"
    using execute_plan_tokens by (fastforce simp: engine_run_def split: prod.splits sum.splits)
qed

section \<open>Valid plans are executed\<close>

text \<open>The executor and the scheduler are built from the same options and share the pool.\<close>

definition agrees :: "EngineOptions \<Rightarrow> ModelConfig \<Rightarrow> 'd ModelExecutor \<Rightarrow> Scheduler \<Rightarrow> bool" where
  "agrees opts mc x s \<longleftrightarrow>
     options s = scheduler_options opts mc \<and> total_blocks (allocator s) = num_kv_blocks (me_budget x) \<and>
     vocab_ok (vocab_size mc) s"

definition exec_live :: "'d Cuda \<Rightarrow> ModelConfig \<Rightarrow> ExecutorOptions \<Rightarrow> 'd ModelExecutor \<Rightarrow> bool" where
  "exec_live cu mc opts x \<longleftrightarrow>
     exec_reachable cu mc opts x \<and> live_cuda cu \<and> (\<forall>d i. 0 \<le> argmax_out cu d i \<and> argmax_out cu d i < vocab_size mc)"

lemma scheduler_options_simps [simp]:
  "max_batch (scheduler_options opts mc) = eo_max_batch opts"
  "prefill_chunk_tokens (scheduler_options opts mc) = eo_prefill_chunk_tokens opts"
  "max_seq_len (scheduler_options opts mc) = eo_max_seq_len opts"
  "admission_policy (scheduler_options opts mc) = eo_admission_policy opts"
  by (simp_all add: scheduler_options_def)

lemma MakeExecutorOptions_simps [simp]:
  "ex_max_batch (MakeExecutorOptions opts) = eo_max_batch opts"
  "ex_prefill_chunk_tokens (MakeExecutorOptions opts) = eo_prefill_chunk_tokens opts"
  "ex_max_seq_len (MakeExecutorOptions opts) = eo_max_seq_len opts"
  by (simp_all add: MakeExecutorOptions_def)

lemma running_row_ok:
  assumes "agrees opts mc x s" and inv: "sched_inv s" and "p \<in> set (running s)" and "heap s p = Some r"
    and "covered r" and "me_config x = mc" and "me_options x = MakeExecutorOptions opts"
  shows "row_ok x r"
proof -
  have rr: "running_req s r" using all_reqsD[OF sched_invD(6)[OF inv] assms(3)] assms(4) by simp
  note adm = admissible_bounds[of s r]
  have len: "seq_len r \<le> eo_max_seq_len opts"
    using rr adm assms(1) by (simp add: running_req_def seq_len_def agrees_def)
  have out: "output_tokens r \<noteq> []" using rr by (auto simp: running_req_def num_output_tokens_def)
  have v: "vocab_req (vocab_size mc) r" using assms(1,3,4) by (auto simp: agrees_def vocab_ok_def queued_def)
  have "BlocksForTokens (seq_len r) \<le> num_blocks (block_table r)"
    using assms(5) by (simp add: covered_def BlocksForTokens_le_iff token_capacity_def kKvBlockSize_def)
  moreover have "num_blocks (block_table r) \<le> BlocksForTokens (eo_max_seq_len opts)"
    using rr BlocksForTokens_mono[OF len] by (simp add: running_req_def)
  moreover have "\<forall>b\<in>set (blocks (block_table r)). 0 < b \<and> b < num_kv_blocks (me_budget x)"
    using admitted_blocks[OF inv _ assms(4)] assms(1,3) by (auto simp: agrees_def)
  moreover have "1 \<le> seq_len r" using rr adm by (simp add: running_req_def seq_len_def)
  ultimately show ?thesis
    using out v len assms(6,7) last_in_set[OF out] by (auto simp: row_ok_def vocab_req_def max_blocks_per_seq_def)
qed

lemma prefill_chunk_ok:
  assumes "agrees opts mc x s" and inv: "sched_inv s" and "plan_ok s plan" and "prefill plan = Some p"
    and "me_config x = mc" and "me_options x = MakeExecutorOptions opts"
  shows "\<exists>r. heap s p = Some r \<and> chunk_ok x r (prefill_begin plan) (prefill_end plan)"
proof -
  obtain r where p: "p \<in> set (prefill_queue s)" and r: "heap s p = Some r" "prefill_begin plan = prefill_progress r"
    "prefill_end plan = min (prefill_progress r + prefill_chunk_tokens (options s)) (num_prompt_tokens r)"
    "prefill_begin plan < prefill_end plan" "prefill_end plan \<le> token_capacity (block_table r)"
    using assms(3,4) by (auto simp: plan_ok_def intro: hd_in_set)
  have pr: "prefill_req s r" using all_reqsD[OF sched_invD(5)[OF inv] p] r(1) by simp
  note adm = admissible_bounds[of s r]
  have len: "num_prompt_tokens r \<le> eo_max_seq_len opts"
    using pr adm assms(1) by (simp add: prefill_req_def agrees_def)
  have v: "vocab_req (vocab_size mc) r" using assms(1) p r(1) by (auto simp: agrees_def vocab_ok_def queued_def)
  have "BlocksForTokens (prefill_end plan) \<le> num_blocks (block_table r)"
    using r(5) by (simp add: BlocksForTokens_le_iff token_capacity_def kKvBlockSize_def)
  moreover have "num_blocks (block_table r) \<le> BlocksForTokens (eo_max_seq_len opts)"
    using pr BlocksForTokens_mono[OF len] by (simp add: prefill_req_def)
  moreover have "\<forall>b\<in>set (blocks (block_table r)). 0 < b \<and> b < num_kv_blocks (me_budget x)"
    using admitted_blocks[OF inv _ r(1)] assms(1) p by (auto simp: agrees_def)
  ultimately have "chunk_ok x r (prefill_begin plan) (prefill_end plan)"
    using pr r v len assms(1,5,6) by (auto simp: chunk_ok_def prefill_req_def agrees_def vocab_req_def max_blocks_per_seq_def)
  with r(1) show ?thesis by blast
qed

lemma runs_getS: "runs (bindS (getS g) f) x = runs (f (g x)) x"
  by (simp add: runs_def)

lemma runs_execute_plan:
  assumes x: "exec_live cu mc (MakeExecutorOptions opts) x" and inv: "sched_inv s" and agr: "agrees opts mc x s"
    and ok: "plan_ok s plan"
  shows "runs (execute_plan cu (heap s) plan) x"
proof -
  have live: "live_cuda cu" and reach: "exec_reachable cu mc (MakeExecutorOptions opts) x"
    using x by (simp_all add: exec_live_def)
  have e: "exec_inv x" "me_config x = mc" "me_options x = MakeExecutorOptions opts" and f: "full x"
    using exec_reachable_inv[OF reach] exec_reachable_full[OF reach live] by simp_all
  show ?thesis
  proof (cases "prefill plan")
    case (Some p)
    obtain r where r: "heap s p = Some r" "chunk_ok x r (prefill_begin plan) (prefill_end plan)"
      using prefill_chunk_ok[OF agr inv ok Some e(2,3)] by blast
    have "runs (PrefillChunk cu (heap s) (prefill plan) (prefill_begin plan) (prefill_end plan)) x"
      unfolding Some by (rule runs_PrefillChunk[where r = r]) (use e(1) f live r in auto)
    then show ?thesis using Some by (auto simp: execute_plan_def is_prefill_def intro: runs_bindS)
  next
    case None
    then have dec: "decode plan = running s" "all_reqs (heap s) (running s) covered" using ok by (auto simp: plan_ok_def)
    have rows: "list_all2 (\<lambda>p r. heap s p = Some r \<and> row_ok x r) (running s) (map (\<lambda>p. the (heap s p)) (running s))"
    proof (intro list_all2_all_nthI)
      fix i
      assume "i < length (running s)"
      then have i: "running s ! i \<in> set (running s)" "i < length (running s)" by simp_all
      obtain r where "heap s (running s ! i) = Some r" "covered r" using all_reqsD[OF dec(2) i(1)] by blast
      with running_row_ok[OF agr inv i(1) _ _ e(2,3)] i(2)
      show "heap s (running s ! i) = Some (map (\<lambda>p. the (heap s p)) (running s) ! i) \<and>
          row_ok x (map (\<lambda>p. the (heap s p)) (running s) ! i)" by simp
    qed simp
    have "num_running s \<le> max_batch (options s)" using sched_inv_num_running[OF inv] by linarith
    then have len: "int (length (running s)) \<le> ex_max_batch (me_options x)"
      using agr e(3) by (simp add: num_running_def agrees_def)
    have ret: "runs (returnS y) z" for y :: Execution and z :: "'a ModelExecutor" by (simp add: runs_def returnS_def)
    show ?thesis
    proof (cases "running s = []")
      case True
      then show ?thesis using None dec(1) ret by (simp add: execute_plan_def is_prefill_def)
    next
      case False
      let ?cond = "0 \<le> SelectBucket (int (length (running s))) (me_buckets x) \<and> has_decode_graphs x"
      have g: "runs (DecodeGraph cu (heap s) (running s)) x" if ?cond
        using runs_DecodeGraph[OF e(1) f live _ False _ rows] that by (auto simp: has_decode_graphs_def)
      have d: "runs (DecodeEager cu (heap s) (running s)) x" by (rule runs_DecodeEager[OF e(1) f live len rows])
      show ?thesis
        using None dec(1) False runs_bindS[OF g ret] runs_bindS[OF d ret]
        by (auto simp: execute_plan_def is_prefill_def Let_def runs_getS)
    qed
  qed
qed

interpretation live: live_executor "engine_run cu" "exec_live cu mc (MakeExecutorOptions opts)" "agrees opts mc" for cu mc opts
proof unfold_locales
  fix x s plan
  assume a: "exec_live cu mc (MakeExecutorOptions opts) x"
  then have "exec_reachable cu mc (MakeExecutorOptions opts) x" unfolding exec_live_def by (elim conjE)
  then have "exec_reachable cu mc (MakeExecutorOptions opts) (snd (engine_run cu x s plan))" by (rule exec.run_keeps)
  with a show "exec_live cu mc (MakeExecutorOptions opts) (snd (engine_run cu x s plan))"
    unfolding exec_live_def by (elim conjE) (intro conjI)
next
  fix x s plan toks x'
  assume "exec_live cu mc (MakeExecutorOptions opts) x" "sched_inv s" "plan_ok s plan" "engine_run cu x s plan = (Inr toks, x')"
  then show "length toks = wants s plan" using exec.run_tokens unfolding exec_live_def by blast
next
  fix x s plan
  assume "exec_live cu mc (MakeExecutorOptions opts) x" "sched_inv s" "agrees opts mc x s" "plan_ok s plan"
  from runs_execute_plan[OF this] show "\<exists>toks x'. engine_run cu x s plan = (Inr toks, x')"
    by (auto simp: runs_def engine_run_def)
next
  fix x s plan s'
  show "agrees opts mc x s \<Longrightarrow> planned s plan s' \<Longrightarrow> agrees opts mc x s'"
    using vocab_planned[of "vocab_size mc" s plan s'] by (simp add: agrees_def) (simp add: planned_def)
next
  fix x s plan toks x' ems s'
  assume a: "exec_live cu mc (MakeExecutorOptions opts) x" "sched_inv s" "agrees opts mc x s" "plan_ok s plan"
    "engine_run cu x s plan = (Inr toks, x')" "completed s plan toks ems s'"
  have reach: "exec_reachable cu mc (MakeExecutorOptions opts) x" using a(1) by (simp add: exec_live_def)
  have "exec_reachable cu mc (MakeExecutorOptions opts) x'" using exec.run_keeps[OF reach, of s plan] a(5) by simp
  from exec_reachable_inv[OF this] exec_reachable_inv[OF reach] have b: "me_budget x' = me_budget x"
    by (auto simp: exec_inv_def)
  have "\<forall>t\<in>set toks. 0 \<le> t \<and> t < vocab_size mc"
    using execute_plan_tokens[OF reach a(4)] a(1,5)
    by (fastforce simp: engine_run_def exec_live_def split: prod.splits sum.splits)
  from vocab_completed[OF _ a(2,4,6) this] a(3,6) b show "agrees opts mc x' s'"
    by (auto simp: agrees_def completed_def)
qed

section \<open>The engine's step is the step loop\<close>

lemma EngineStep_serve:
  assumes "serve (engine_run cu) (eng_executor eng) (eng_scheduler eng) = (r, x, s)"
  shows "\<exists>eng'. EngineStep cu eng = (r, eng') \<and> eng_executor eng' = x \<and> eng_scheduler eng' = s \<and>
    eng_options eng' = eng_options eng \<and> eng_config eng' = eng_config eng \<and> eng_next_id eng' = eng_next_id eng"
proof (cases "PlanStep (eng_scheduler eng)")
  case (Inl e)
  then show ?thesis using assms by (auto simp: EngineStep_def bindS_def onSched_def serve_def)
next
  case (Inr ps)
  obtain plan s1 where p: "PlanStep (eng_scheduler eng) = Inr (plan, s1)" using Inr by (cases ps) auto
  show ?thesis
  proof (cases "plan_empty plan")
    case True
    then show ?thesis using assms p by (auto simp: EngineStep_def bindS_def onSched_def serve_def returnS_def)
  next
    case False
    obtain o1 x1 where e: "execute_plan cu (heap s1) plan (eng_executor eng) = (o1, x1)" by fastforce
    show ?thesis
    proof (cases o1)
      case (Inl err)
      then show ?thesis using assms p False e
        by (auto simp: EngineStep_def bindS_def onSched_def onExec_def getS_def serve_def engine_run_def)
    next
      case (Inr run)
      show ?thesis
      proof (cases "CompleteStep s1 plan (ran_tokens run)")
        case (Inl err)
        then show ?thesis using assms p False e \<open>o1 = Inr run\<close>
          by (auto simp: EngineStep_def bindS_def onSched_def onExec_def getS_def serve_def engine_run_def)
      next
        case (Inr es)
        then show ?thesis using assms p False e \<open>o1 = Inr run\<close>
          by (cases es) (auto simp: EngineStep_def bindS_def onSched_def onExec_def getS_def serve_def engine_run_def
              modifyS_def returnS_def count_step_def drop_finished_def Let_def)
      qed
    qed
  qed
qed

end
