(* ===== verification/Engine_Reach.thy ===== *)
theory Engine_Reach
  imports Engine_Props
begin

text \<open>
  The engine as a state machine: the states after construction and any sequence of \<open>AddRequest\<close>
  and \<open>EngineStep\<close> calls, whether each returned or threw, and the invariant of those states.
\<close>

section \<open>Reachable engines\<close>

inductive engine_reachable ::
  "'d Cuda \<Rightarrow> ModelConfig \<Rightarrow> EngineOptions \<Rightarrow> 'd Engine \<Rightarrow> bool" for cu mc opts where
  made: "new_ModelExecutor cu mc n (MakeExecutorOptions opts) d0 = Inr ex \<Longrightarrow> assemble opts mc ex = Inr eng \<Longrightarrow>
    engine_reachable cu mc opts eng"
| add: "engine_reachable cu mc opts eng \<Longrightarrow>
    engine_reachable cu mc opts (snd (AddRequest prompt max_new ignore forced eng))"
| step: "engine_reachable cu mc opts eng \<Longrightarrow> engine_reachable cu mc opts (snd (EngineStep cu eng))"

text \<open>
  The map of live requests: every id that is queued is in it, and what is in it is queued, or,
  under the watermark policy, was aborted by a step that then threw.
\<close>

definition live_map :: "Scheduler \<Rightarrow> (request_id \<Rightarrow> ptr option) \<Rightarrow> request_id \<Rightarrow> bool" where
  "live_map s m n \<longleftrightarrow>
     (\<forall>p r. heap s p = Some r \<longrightarrow> 1 \<le> p \<and> p < n \<and> req_id r = p) \<and>
     (\<forall>i p. m i = Some p \<longrightarrow> p = i) \<and> (\<forall>i\<in>queued s. m i \<noteq> None) \<and>
     (\<forall>i. m i \<noteq> None \<longrightarrow> i \<in> queued s \<or>
        admission_policy (options s) \<noteq> kReserveFull \<and> (\<exists>r. heap s i = Some r \<and> is_aborted r))"

definition finished_ids :: "StepResult list \<Rightarrow> request_id set" where
  "finished_ids ems = request_id ` {res \<in> set ems. finished res}"

lemma drop_fold:
  "fold (\<lambda>res m. if finished res then m(request_id res := None) else m) ems m =
     (\<lambda>i. if i \<in> finished_ids ems then None else m i)"
  by (induction ems arbitrary: m) (auto simp: finished_ids_def fun_eq_iff)

section \<open>Planning and completing, seen from the queues\<close>

lemma queued_state:
  assumes "sched_inv s" and "p \<in> queued s"
  shows "\<exists>r. heap s p = Some r \<and> state r \<noteq> kFinished"
proof -
  have "p \<in> set (waiting s) \<or> p \<in> set (prefill_queue s) \<or> p \<in> set (running s)" using assms(2) by (auto simp: queued_def)
  then show ?thesis
    using all_reqsD[OF sched_invD(4)[OF assms(1)], of p] all_reqsD[OF sched_invD(5)[OF assms(1)], of p]
      all_reqsD[OF sched_invD(6)[OF assms(1)], of p]
    by (auto simp: waiting_req_def prefill_req_def running_req_def)
qed

lemma planned_queued:
  assumes "planned s plan s1" shows "queued s = queued s1 \<union> set (aborted plan)"
  using assms by (auto simp: planned_def queued_def)

lemma planned_live:
  assumes lm: "live_map s m n" and pl: "planned s plan s1" and ok: "plan_ok s1 plan"
  shows "live_map s1 m n"
proof -
  have q: "queued s = queued s1 \<union> set (aborted plan)" by (rule planned_queued[OF pl])
  have ids: "1 \<le> p \<and> p < n \<and> req_id r = p" if "heap s1 p = Some r" for p r
  proof -
    have "map_option content (heap s p) = map_option content (heap s1 p)"
      using pl by (simp add: planned_def same_content_def)
    with that obtain r0 where "heap s p = Some r0" "content r0 = content r" by (cases "heap s p") auto
    then show ?thesis using lm by (auto simp: live_map_def content_def)
  qed
  have ab: "\<exists>r. heap s1 p = Some r \<and> is_aborted r" if "p \<in> set (aborted plan)" for p
    using ok that by (cases "prefill plan") (auto simp: plan_ok_def all_reqs_def)
  have pol: "admission_policy (options s1) = admission_policy (options s)"
    "aborted plan \<noteq> [] \<longrightarrow> admission_policy (options s) \<noteq> kReserveFull" using pl by (auto simp: planned_def)
  have "i \<in> queued s1 \<or> admission_policy (options s1) \<noteq> kReserveFull \<and> (\<exists>r. heap s1 i = Some r \<and> is_aborted r)"
    if "m i \<noteq> None" for i
  proof (cases "i \<in> queued s")
    case True
    then show ?thesis using q ab pol by (cases "aborted plan = []") auto
  next
    case False
    then have "heap s1 i = heap s i" using pl by (simp add: planned_def)
    then show ?thesis using lm that False pol by (auto simp: live_map_def)
  qed
  then show ?thesis using lm ids q by (auto simp: live_map_def)
qed

lemma zip_ids:
  assumes "length toks = length ps" and "\<And>p. p \<in> set ps \<Longrightarrow> req_id (the (heap s p)) = p"
  shows "map request_id (map (row_result s) (zip ps toks)) = ps"
  using assms
  by (induction ps toks rule: list_induct2') (auto simp: row_result_def token_result_def)

lemma rows_results:
  assumes inv: "sched_inv s" and rd: "rows_done s (zip (running s) toks) s'" and len: "length toks = length (running s)"
    and ids: "\<And>p r. heap s p = Some r \<Longrightarrow> req_id r = p" and pq: "prefill_queue s = []"
  shows "finished_ids (map (row_result s) (zip (running s) toks)) = queued s - queued s' \<and> queued s' \<subseteq> queued s \<and>
    map request_id (map (row_result s) (zip (running s) toks)) = running s"
proof -
  have mem: "\<exists>r. heap s p = Some r \<and> req_id r = p" if "p \<in> set (running s)" for p
    using queued_state[OF inv, of p] ids that by (auto simp: queued_def)
  have d: "set (waiting s) \<inter> set (running s) = {}" using sched_invD(3)[OF inv] by auto
  have q: "queued s = set (waiting s) \<union> set (running s)" "queued s' = set (waiting s) \<union> {p \<in> set (running s). is_running (heap s') p}"
    using rd pq by (auto simp: queued_def rows_done_def)
  have row: "request_id (row_result s (p, t)) = p \<and> (finished (row_result s (p, t)) \<longleftrightarrow> \<not> is_running (heap s') p)"
    if "(p, t) \<in> set (zip (running s) toks)" for p t
  proof -
    have "\<forall>(q, tok) \<in> set (zip (running s) toks). \<exists>r. heap s q = Some r \<and> heap s' q = Some (token_req (options s) r tok)"
      using rd by (simp add: rows_done_def)
    from bspec[OF this that] obtain r where r: "heap s p = Some r" "heap s' p = Some (token_req (options s) r t)" by auto
    then show ?thesis using ids[OF r(1)]
      by (auto simp: row_result_def token_result_def is_running_def token_req_state)
  qed
  have "finished_ids (map (row_result s) (zip (running s) toks)) = {p \<in> set (running s). \<not> is_running (heap s') p}"
  proof (intro equalityI subsetI)
    fix p
    assume "p \<in> finished_ids (map (row_result s) (zip (running s) toks))"
    then obtain q t where "(q, t) \<in> set (zip (running s) toks)" "finished (row_result s (q, t))" "p = request_id (row_result s (q, t))"
      by (auto simp: finished_ids_def)
    then show "p \<in> {p \<in> set (running s). \<not> is_running (heap s') p}" using row[of q t] by (auto dest: set_zip_leftD)
  next
    fix p
    assume p: "p \<in> {p \<in> set (running s). \<not> is_running (heap s') p}"
    then obtain t where t: "(p, t) \<in> set (zip (running s) toks)" using len by (metis (lifting) in_set_impl_in_set_zip1 mem_Collect_eq)
    then have "row_result s (p, t) \<in> set (map (row_result s) (zip (running s) toks))" by simp
    then show "p \<in> finished_ids (map (row_result s) (zip (running s) toks))"
      using row[OF t] p by (force simp: finished_ids_def)
  qed
  moreover have "map request_id (map (row_result s) (zip (running s) toks)) = running s"
    by (rule zip_ids[OF len]) (use mem in fastforce)
  ultimately show ?thesis using q d by auto
qed

lemma completed_results:
  assumes inv: "sched_inv s" and ok: "plan_ok s plan" and len: "length toks = wants s plan"
    and c: "completed s plan toks ems s'" and ids: "\<And>p r. heap s p = Some r \<Longrightarrow> req_id r = p"
  shows "finished_ids ems = set (aborted plan) \<union> (queued s - queued s')" and "queued s' \<subseteq> queued s"
    and "prefill plan = None \<Longrightarrow> map request_id ems = aborted plan @ running s"
    and "prefill plan \<noteq> None \<Longrightarrow> length ems \<le> 1"
proof -
  have "finished_ids ems = set (aborted plan) \<union> (queued s - queued s') \<and> queued s' \<subseteq> queued s \<and>
    (prefill plan = None \<longrightarrow> map request_id ems = aborted plan @ running s) \<and> (prefill plan \<noteq> None \<longrightarrow> length ems \<le> 1)"
  proof (cases "prefill plan")
    case None
    have p: "prefill_queue s = []" "decode plan = running s" "length toks = length (running s)"
      and ab: "all_reqs (heap s) (aborted plan) is_aborted"
      and e: "ems = map (abort_result s) (aborted plan) @ map (row_result s) (zip (running s) toks)"
      and rd: "rows_done s (zip (running s) toks) s'"
      using ok len c None by (simp_all add: plan_ok_def wants_def completed_def)
    have a: "request_id (abort_result s p) = p" if "p \<in> set (aborted plan)" for p
      using all_reqsD[OF ab that] ids by (auto simp: abort_result_def)
    then have "map request_id (map (abort_result s) (aborted plan)) = aborted plan"
      unfolding map_map by (intro map_idI) simp
    moreover have "finished_ids ems = set (aborted plan) \<union> finished_ids (map (row_result s) (zip (running s) toks))"
      using a unfolding e finished_ids_def by (force simp: abort_result_def image_iff)
    ultimately show ?thesis using rows_results[OF inv rd p(3) ids p(1)] None e by simp
  next
    case (Some p)
    obtain qs r where q: "prefill_queue s = p # qs" and r: "heap s p = Some r" and ab: "aborted plan = []"
      using ok Some by (auto simp: plan_ok_def neq_Nil_conv)
    have "p \<notin> set qs" "p \<notin> set (running s)" "p \<notin> set (waiting s)" using sched_invD(3)[OF inv] q by auto
    moreover have w: "waiting s' = waiting s" using c by (simp add: completed_def)
    let ?r = "r\<lparr>prefill_progress := prefill_end plan\<rparr>"
    have c': "if toks = [] then ems = [] \<and> prefill_queue s' = prefill_queue s \<and> running s' = running s
      else ems = [token_result (options s) ?r (hd toks)] \<and> prefill_queue s' = qs \<and>
        running s' = (if token_reason (options s) ?r (hd toks) = kNone then running s @ [p] else running s)"
      using c by (simp add: completed_def Some q r Let_def split: if_splits)
    have "request_id (token_result (options s) ?r (hd toks)) = p"
      "finished (token_result (options s) ?r (hd toks)) \<longleftrightarrow> token_reason (options s) ?r (hd toks) \<noteq> kNone"
      using ids[OF r] by (simp_all add: token_result_def)
    ultimately show ?thesis
      using c' w q ab Some by (cases "toks = []") (auto simp: queued_def finished_ids_def)
  qed
  then show "finished_ids ems = set (aborted plan) \<union> (queued s - queued s')" and "queued s' \<subseteq> queued s"
    and "prefill plan = None \<Longrightarrow> map request_id ems = aborted plan @ running s"
    and "prefill plan \<noteq> None \<Longrightarrow> length ems \<le> 1" by simp_all
qed

lemma completed_live:
  assumes lm: "live_map s m n" and inv: "sched_inv s" and ok: "plan_ok s plan" and len: "length toks = wants s plan"
    and c: "completed s plan toks ems s'"
  shows "live_map s' (\<lambda>i. if i \<in> finished_ids ems then None else m i) n"
proof -
  have ids: "req_id r = p" if "heap s p = Some r" for p r using lm that by (simp add: live_map_def)
  note res = completed_results[OF inv ok len c ids]
  have ids': "1 \<le> p \<and> p < n \<and> req_id r = p" if h: "heap s' p = Some r" for p r
  proof -
    obtain r0 where "heap s p = Some r0" "req_id r = req_id r0"
    proof (cases "prefill plan")
      case None
      have rd: "rows_done s (zip (decode plan) toks) s'" using c None by (simp add: completed_def)
      show thesis
      proof (cases "p \<in> fst ` set (zip (decode plan) toks)")
        case True
        then obtain tk where "(p, tk) \<in> set (zip (decode plan) toks)" by force
        with rd obtain r1 where "heap s p = Some r1" "heap s' p = Some (token_req (options s) r1 tk)"
          by (fastforce simp: rows_done_def)
        then show thesis using that h by (simp add: token_req_def released_def split: if_splits)
      qed (use rd h that in \<open>auto simp: rows_done_def\<close>)
    next
      case (Some p0)
      then obtain r1 where "heap s p0 = Some r1" using ok by (auto simp: plan_ok_def)
      then show thesis using c Some h that
        by (cases "p = p0") (auto simp: completed_def Let_def token_req_def released_def split: if_splits)
    qed
    then show ?thesis using lm by (auto simp: live_map_def)
  qed
  have queued_not: "\<not> is_aborted r" if "p \<in> queued s" "heap s p = Some r" for p r
    using queued_state[OF inv that(1)] that(2) by (auto simp: is_aborted_def)
  have ab: "set (aborted plan) \<inter> queued s = {}"
    using ok queued_not by (cases "prefill plan") (auto simp: plan_ok_def all_reqs_def)
  have "i \<in> queued s' \<or> admission_policy (options s') \<noteq> kReserveFull \<and> (\<exists>r. heap s' i = Some r \<and> is_aborted r)"
    if "m i \<noteq> None" "i \<notin> finished_ids ems" for i
  proof (cases "i \<in> queued s")
    case True
    then show ?thesis using res(1) that by auto
  next
    case False
    then have "heap s' i = heap s i" using completed_finishes(2)[OF inv ok len c] by blast
    then show ?thesis using lm that(1) False c by (auto simp: live_map_def completed_def)
  qed
  moreover have "\<forall>i\<in>queued s'. i \<notin> finished_ids ems \<and> m i \<noteq> None"
    using res(1,2) ab lm by (auto simp: live_map_def)
  ultimately show ?thesis using lm ids' by (auto simp: live_map_def)
qed

section \<open>Adding a request\<close>

definition in_vocab :: "'d Engine \<Rightarrow> token_id list \<Rightarrow> bool" where
  "in_vocab eng ts \<longleftrightarrow> list_all (\<lambda>t. 0 \<le> t \<and> t < vocab_size (eng_config eng)) ts"

definition arriving :: "'d Engine \<Rightarrow> token_id list \<Rightarrow> int \<Rightarrow> bool \<Rightarrow> token_id list \<Rightarrow> Request" where
  "arriving eng prompt max_new ignore forced =
     new_Request\<lparr>req_id := eng_next_id eng, prompt_tokens := prompt, max_new_tokens := max_new,
       ignore_eos := ignore, forced_tokens := forced\<rparr>"

text \<open>The engine after it accepted the request \<open>r\<close>.\<close>

definition accepted :: "'d Engine \<Rightarrow> Request \<Rightarrow> 'd Engine" where
  "accepted eng r =
     (let n = eng_next_id eng; s = eng_scheduler eng in
      eng\<lparr>eng_scheduler := (set_req s n r)\<lparr>waiting := waiting s @ [n]\<rparr>, eng_next_id := n + 1,
          eng_requests := (eng_requests eng)(n \<mapsto> n)\<rparr>)"

lemma check_tokens_eq:
  "check_tokens ts what eng =
     (if in_vocab eng ts then Inr () else Inl (InvalidArgument (what @ '' contains a token id outside the vocabulary'')), eng)"
  by (induction ts) (auto simp: check_tokens_def in_vocab_def bindS_def checkS_def)

lemma ValidateRequest_set [simp]: "ValidateRequest (set_req s p r) r' = ValidateRequest s r'"
  by (rule fun_cong[OF ValidateRequest_cong]) simp_all

lemma AddRequest_eq:
  "AddRequest prompt max_new ignore forced eng =
     (if \<not> in_vocab eng prompt
      then (Inl (InvalidArgument (''prompt_tokens'' @ '' contains a token id outside the vocabulary'')), eng)
      else if \<not> in_vocab eng forced
      then (Inl (InvalidArgument (''forced_tokens'' @ '' contains a token id outside the vocabulary'')), eng)
      else case ValidateRequest (eng_scheduler eng) (arriving eng prompt max_new ignore forced) of
             Inl e \<Rightarrow> (Inl e, eng)
           | Inr _ \<Rightarrow> (Inr (eng_next_id eng), accepted eng (arriving eng prompt max_new ignore forced)))"
  unfolding AddRequest_def
  by (simp add: bindS_def check_tokens_eq getS_def Let_def onSched_def Enqueue_def deref_def assertE_def
      arriving_def[symmetric] split: sum.splits prod.splits)
    (auto simp: arriving_def accepted_def new_Request_def modifyS_def returnS_def Let_def set_req_def)

section \<open>The outcomes of a step\<close>

lemma EngineStep_eq:
  "EngineStep cu eng =
     (case PlanStep (eng_scheduler eng) of
        Inl e \<Rightarrow> (Inl e, eng)
      | Inr (plan, s1) \<Rightarrow>
          if plan_empty plan then (Inr [], eng\<lparr>eng_scheduler := s1\<rparr>)
          else (case execute_plan cu (heap s1) plan (eng_executor eng) of
                  (Inl e, x) \<Rightarrow> (Inl e, eng\<lparr>eng_executor := x, eng_scheduler := s1\<rparr>)
                | (Inr run, x) \<Rightarrow>
                    (case CompleteStep s1 plan (ran_tokens run) of
                       Inl e \<Rightarrow> (Inl e, eng\<lparr>eng_executor := x, eng_scheduler := s1\<rparr>)
                     | Inr (ems, s2) \<Rightarrow>
                         (Inr ems, drop_finished ems (count_step plan run (eng\<lparr>eng_executor := x, eng_scheduler := s2\<rparr>))))))"
  by (auto simp: EngineStep_def bindS_def onSched_def onExec_def getS_def returnS_def modifyS_def split: sum.splits prod.splits)

lemma count_step_frame [simp]:
  "eng_options (count_step plan run eng) = eng_options eng" "eng_config (count_step plan run eng) = eng_config eng"
  "eng_executor (count_step plan run eng) = eng_executor eng" "eng_scheduler (count_step plan run eng) = eng_scheduler eng"
  "eng_requests (count_step plan run eng) = eng_requests eng" "eng_next_id (count_step plan run eng) = eng_next_id eng"
  by (simp_all add: count_step_def Let_def)

lemma drop_finished_frame [simp]:
  "eng_options (drop_finished ems eng) = eng_options eng" "eng_config (drop_finished ems eng) = eng_config eng"
  "eng_executor (drop_finished ems eng) = eng_executor eng" "eng_scheduler (drop_finished ems eng) = eng_scheduler eng"
  "eng_requests (drop_finished ems eng) = (\<lambda>i. if i \<in> finished_ids ems then None else eng_requests eng i)"
  "eng_next_id (drop_finished ems eng) = eng_next_id eng"
  by (simp_all add: drop_finished_def drop_fold)

text \<open>
  A step plans; then it stops there, because there is nothing to do or because execution throws,
  or it completes the plan with the executor's tokens.
\<close>

definition stopped :: "'d Engine \<Rightarrow> StepPlan \<Rightarrow> exn + StepResult list \<Rightarrow> 'd Engine \<Rightarrow> bool" where
  "stopped eng plan r eng' \<longleftrightarrow>
     eng_requests eng' = eng_requests eng \<and>
     (if plan_empty plan then r = Inr [] \<and> queued (eng_scheduler eng) = {} else \<exists>e. r = Inl e)"

lemma EngineStep_outcome:
  assumes x: "exec_reachable cu mc opts (eng_executor eng)" and inv: "sched_inv (eng_scheduler eng)"
    and e: "EngineStep cu eng = (r, eng')"
  obtains plan s1 where "PlanStep (eng_scheduler eng) = Inr (plan, s1)" and "sched_inv s1" and "plan_ok s1 plan"
    and "planned (eng_scheduler eng) plan s1" and "exec_reachable cu mc opts (eng_executor eng')"
    and "eng_options eng' = eng_options eng" and "eng_config eng' = eng_config eng" and "eng_next_id eng' = eng_next_id eng"
    and "(stopped eng plan r eng' \<and> eng_scheduler eng' = s1) \<or>
      (\<exists>toks ems. r = Inr ems \<and> length toks = wants s1 plan \<and> (\<forall>t\<in>set toks. \<exists>d i. t = argmax_out cu d i) \<and>
         completed s1 plan toks ems (eng_scheduler eng') \<and> CompleteStep s1 plan toks = Inr (ems, eng_scheduler eng') \<and>
         eng_requests eng' = (\<lambda>i. if i \<in> finished_ids ems then None else eng_requests eng i))"
proof -
  obtain plan s1 where p: "PlanStep (eng_scheduler eng) = Inr (plan, s1)" "sched_inv s1" "plan_ok s1 plan"
    "planned (eng_scheduler eng) plan s1" "plan_empty plan \<longrightarrow> queued (eng_scheduler eng) = {}"
    using PlanStep_ok[OF inv] by (auto elim: wpE)
  note eq = e[unfolded EngineStep_eq p(1), simplified]
  show thesis
  proof (cases "plan_empty plan")
    case True
    show thesis by (rule that[OF p(1-4)]) (use eq True p(5) x in \<open>auto simp: stopped_def\<close>)
  next
    case False
    obtain o1 x1 where ex: "execute_plan cu (heap s1) plan (eng_executor eng) = (o1, x1)" by fastforce
    have x1: "exec_reachable cu mc opts x1" using execute_plan_reachable[OF x, of "heap s1" plan] ex by simp
    show thesis
    proof (cases o1)
      case (Inl err)
      show thesis by (rule that[OF p(1-4)]) (use eq False ex Inl x1 in \<open>auto simp: stopped_def\<close>)
    next
      case (Inr run)
      note toks = execute_plan_tokens[OF x p(3) ex[unfolded Inr]]
      obtain ems s2 where c: "CompleteStep s1 plan (ran_tokens run) = Inr (ems, s2)" "completed s1 plan (ran_tokens run) ems s2"
        using CompleteStep_ok[OF p(2,3) conjunct1[OF toks]] by (auto elim: wpE)
      have "r = Inr ems" "eng' = drop_finished ems (count_step plan run (eng\<lparr>eng_executor := x1, eng_scheduler := s2\<rparr>))"
        using eq False ex Inr c(1) by auto
      moreover have "eng_requests (drop_finished ems (count_step plan run (eng\<lparr>eng_executor := x1, eng_scheduler := s2\<rparr>))) =
          (\<lambda>i. if i \<in> finished_ids ems then None else eng_requests eng i)"
        by (simp add: fun_eq_iff)
      ultimately show thesis using toks c x1
        by (intro that[OF p(1-4)]) (simp_all del: drop_finished_frame(5), blast)
    qed
  qed
qed

section \<open>The invariant of the engine\<close>

definition samples_in_vocab :: "'d Cuda \<Rightarrow> ModelConfig \<Rightarrow> bool" where
  "samples_in_vocab cu mc \<longleftrightarrow> (\<forall>d i. 0 \<le> argmax_out cu d i \<and> argmax_out cu d i < vocab_size mc)"

definition pool_blocks :: "'d Engine \<Rightarrow> int" where
  "pool_blocks eng = num_kv_blocks (me_budget (eng_executor eng))"

definition engine_inv :: "'d Cuda \<Rightarrow> ModelConfig \<Rightarrow> EngineOptions \<Rightarrow> 'd Engine \<Rightarrow> bool" where
  "engine_inv cu mc opts eng \<longleftrightarrow>
     eng_options eng = opts \<and> eng_config eng = mc \<and>
     exec_reachable cu mc (MakeExecutorOptions opts) (eng_executor eng) \<and>
     reachable (scheduler_options opts mc) (pool_blocks eng) (eng_scheduler eng) \<and>
     live_map (eng_scheduler eng) (eng_requests eng) (eng_next_id eng) \<and>
     1 \<le> eng_next_id eng \<and> (samples_in_vocab cu mc \<longrightarrow> vocab_ok (vocab_size mc) (eng_scheduler eng))"

lemma same_pool:
  assumes "exec_reachable cu mc opts (eng_executor eng)" and "exec_reachable cu mc opts (eng_executor eng')"
  shows "pool_blocks eng' = pool_blocks eng"
  using exec_reachable_inv[OF assms(1)] exec_reachable_inv[OF assms(2)] by (auto simp: exec_inv_def pool_blocks_def)

lemma assemble_inv:
  assumes "exec_reachable cu mc (MakeExecutorOptions opts) ex" and "assemble opts mc ex = Inr eng"
  shows "engine_inv cu mc opts eng"
proof -
  obtain a s where a: "new_BlockAllocator (num_kv_blocks (me_budget ex)) = Inr a"
    "new_Scheduler a (scheduler_options opts mc) (\<lambda>_. None) = Inr s"
    and eng: "eng_options eng = opts" "eng_config eng = mc" "eng_executor eng = ex" "eng_scheduler eng = s"
      "eng_requests eng = (\<lambda>_. None)" "eng_next_id eng = 1"
    using assms(2) by (auto simp: assemble_def bindE_Inr_iff)
  have "heap s = (\<lambda>_. None)" "waiting s = []" "prefill_queue s = []" "running s = []"
    using a(2) by (auto simp: new_Scheduler_def bindE_Inr_iff)
  then show ?thesis
    using assms(1) reachable.init[OF a] eng by (auto simp: engine_inv_def pool_blocks_def live_map_def queued_def vocab_ok_def)
qed

lemma arriving_fresh [simp]: "fresh_req (arriving eng prompt max_new ignore forced)"
  by (simp add: fresh_req_def arriving_def new_Request_def)

lemma AddRequest_inv:
  assumes inv: "engine_inv cu mc opts eng"
  shows "engine_inv cu mc opts (snd (AddRequest prompt max_new ignore forced eng))"
proof -
  define r where "r = arriving eng prompt max_new ignore forced"
  define n where "n = eng_next_id eng"
  define s where "s = eng_scheduler eng"
  have i: "reachable (scheduler_options opts mc) (pool_blocks eng) s" "live_map s (eng_requests eng) n" "1 \<le> n"
    "samples_in_vocab cu mc \<longrightarrow> vocab_ok (vocab_size mc) s" and si: "sched_inv s"
    using inv reachable_sched_inv by (auto simp: engine_inv_def s_def n_def)
  have new: "n \<notin> queued s" using i(2) queued_state[OF si] by (fastforce simp: live_map_def)
  show ?thesis
  proof (cases "in_vocab eng prompt \<and> in_vocab eng forced \<and> ValidateRequest s r = Inr ()")
    case True
    then have eq: "snd (AddRequest prompt max_new ignore forced eng) = accepted eng r"
      by (simp add: AddRequest_eq r_def[symmetric] s_def[symmetric])
    let ?s = "(set_req s n r)\<lparr>waiting := waiting s @ [n]\<rparr>"
    have "fresh_req r" by (simp add: r_def)
    then have "exec_event s (Arrive n r) = Inr ?s"
      using exec_Arrive(1)[OF si new, of r] True by (simp add: admissible_def)
    then have "reachable (scheduler_options opts mc) (pool_blocks eng) ?s"
      using reachable.event[OF i(1), of "Arrive n r"] new \<open>fresh_req r\<close> by (simp del: exec_event.simps)
    moreover have "live_map ?s ((eng_requests eng)(n \<mapsto> n)) (n + 1)"
    proof -
      have q: "queued ?s = insert n (queued s)" by (auto simp: queued_def)
      have "req_id r = n" by (simp add: r_def n_def arriving_def)
      then show ?thesis using i(2,3) unfolding live_map_def q by (auto intro: less_SucI)
    qed
    moreover have "vocab_ok (vocab_size mc) ?s" if "samples_in_vocab cu mc"
      using i(4) that True inv new
      by (auto simp: vocab_ok_def queued_def vocab_req_def r_def arriving_def in_vocab_def list_all_iff engine_inv_def new_Request_def)
    ultimately show ?thesis
      using inv by (simp add: eq engine_inv_def accepted_def Let_def n_def s_def pool_blocks_def)
  next
    case False
    then have "snd (AddRequest prompt max_new ignore forced eng) = eng"
      by (auto simp: AddRequest_eq r_def[symmetric] s_def[symmetric] split: sum.splits)
    then show ?thesis using inv by simp
  qed
qed

lemma EngineStep_inv:
  assumes inv: "engine_inv cu mc opts eng"
  shows "engine_inv cu mc opts (snd (EngineStep cu eng))"
proof -
  obtain r eng' where e: "EngineStep cu eng = (r, eng')" by fastforce
  let ?s = "eng_scheduler eng" and ?s' = "eng_scheduler eng'"
  have i: "exec_reachable cu mc (MakeExecutorOptions opts) (eng_executor eng)"
    "reachable (scheduler_options opts mc) (pool_blocks eng) ?s" "live_map ?s (eng_requests eng) (eng_next_id eng)"
    "samples_in_vocab cu mc \<longrightarrow> vocab_ok (vocab_size mc) ?s"
    using inv by (auto simp: engine_inv_def)
  obtain plan s1 where p: "PlanStep ?s = Inr (plan, s1)" "sched_inv s1" "plan_ok s1 plan" "planned ?s plan s1"
    and x: "exec_reachable cu mc (MakeExecutorOptions opts) (eng_executor eng')"
    and f: "eng_options eng' = eng_options eng" "eng_config eng' = eng_config eng" "eng_next_id eng' = eng_next_id eng"
    and o: "(stopped eng plan r eng' \<and> ?s' = s1) \<or>
      (\<exists>toks ems. r = Inr ems \<and> length toks = wants s1 plan \<and> (\<forall>t\<in>set toks. \<exists>d i. t = argmax_out cu d i) \<and>
         completed s1 plan toks ems ?s' \<and> CompleteStep s1 plan toks = Inr (ems, ?s') \<and>
         eng_requests eng' = (\<lambda>i. if i \<in> finished_ids ems then None else eng_requests eng i))"
    by (rule EngineStep_outcome[OF i(1) reachable_sched_inv[OF i(2)] e]) blast
  note lm1 = planned_live[OF i(3) p(4,3)]
  have v1: "samples_in_vocab cu mc \<longrightarrow> vocab_ok (vocab_size mc) s1" using i(4) vocab_planned[OF _ p(4)] by blast
  have "reachable (scheduler_options opts mc) (pool_blocks eng) ?s' \<and> live_map ?s' (eng_requests eng') (eng_next_id eng) \<and>
    (samples_in_vocab cu mc \<longrightarrow> vocab_ok (vocab_size mc) ?s')"
    using o
  proof
    assume s: "stopped eng plan r eng' \<and> ?s' = s1"
    have "exec_event ?s FailedStep = Inr s1" using p(1) by simp
    then have "reachable (scheduler_options opts mc) (pool_blocks eng) s1" using reachable.event[OF i(2), of FailedStep] by simp
    then show ?thesis using s lm1 v1 by (simp add: stopped_def)
  next
    assume "\<exists>toks ems. r = Inr ems \<and> length toks = wants s1 plan \<and> (\<forall>t\<in>set toks. \<exists>d i. t = argmax_out cu d i) \<and>
         completed s1 plan toks ems ?s' \<and> CompleteStep s1 plan toks = Inr (ems, ?s') \<and>
         eng_requests eng' = (\<lambda>i. if i \<in> finished_ids ems then None else eng_requests eng i)"
    then obtain toks ems where c: "length toks = wants s1 plan" "\<forall>t\<in>set toks. \<exists>d i. t = argmax_out cu d i"
      "completed s1 plan toks ems ?s'" "CompleteStep s1 plan toks = Inr (ems, ?s')"
      "eng_requests eng' = (\<lambda>i. if i \<in> finished_ids ems then None else eng_requests eng i)" by blast
    have "legal ?s (Step toks)" "exec_event ?s (Step toks) = Inr ?s'" using p(1) c(1,4) by (simp_all add: run_step_def)
    then have "reachable (scheduler_options opts mc) (pool_blocks eng) ?s'" by (rule reachable.event[OF i(2)])
    moreover have "vocab_ok (vocab_size mc) ?s'" if "samples_in_vocab cu mc"
      using vocab_completed[OF _ p(2,3) c(3)] v1 that c(2) by (fastforce simp: samples_in_vocab_def)
    ultimately show ?thesis using completed_live[OF lm1 p(2,3) c(1,3)] c(5) by simp
  qed
  then show ?thesis using e x f inv same_pool[OF i(1) x] by (simp add: engine_inv_def)
qed

lemma engine_reachable_inv: "engine_reachable cu mc opts eng \<Longrightarrow> engine_inv cu mc opts eng"
  by (induction rule: engine_reachable.induct)
    (auto intro: assemble_inv exec_reachable.built AddRequest_inv EngineStep_inv)

end
