(* ===== verification/Engine_Theorems.thy ===== *)
theory Engine_Theorems
  imports Engine_Reach Scheduler_Theorems
begin

text \<open>
  The properties of the engine, over every state an engine can reach: it runs the scheduler's
  own transition system, keeps its map of live requests, reports each request that leaves the
  queues, decides arrivals without side effects, and finishes what is queued.
\<close>

section \<open>Steps in a row\<close>

fun EngineSteps :: "'d Cuda \<Rightarrow> nat \<Rightarrow> 'd Engine \<Rightarrow> 'd Engine option" where
  "EngineSteps cu 0 eng = Some eng"
| "EngineSteps cu (Suc k) eng =
     (case EngineStep cu eng of (Inl _, _) \<Rightarrow> None | (Inr _, eng') \<Rightarrow> EngineSteps cu k eng')"

lemma EngineSteps_serve_all:
  "live_executor.serve_all (engine_run cu) k (eng_executor eng) (eng_scheduler eng) = Some (x, s) \<Longrightarrow>
     live_executor (engine_run cu) P Q \<Longrightarrow>
     \<exists>eng'. EngineSteps cu k eng = Some eng' \<and> eng_executor eng' = x \<and> eng_scheduler eng' = s"
proof (induction k arbitrary: eng)
  case 0
  then show ?case by (simp add: live_executor.serve_all.simps)
next
  case (Suc k)
  obtain r x' s' where v: "serve (engine_run cu) (eng_executor eng) (eng_scheduler eng) = (r, x', s')"
    by (rule prod_cases3)
  obtain eng1 where e: "EngineStep cu eng = (r, eng1)" "eng_executor eng1 = x'" "eng_scheduler eng1 = s'"
    using EngineStep_serve[OF v] by blast
  obtain ems where r: "r = Inr ems"
    using Suc.prems v by (cases r) (auto simp: live_executor.serve_all.simps)
  then have "live_executor.serve_all (engine_run cu) k (eng_executor eng1) (eng_scheduler eng1) = Some (x, s)"
    using Suc.prems v e by (simp add: live_executor.serve_all.simps)
  from Suc.IH[OF this Suc.prems(2)] show ?case using e(1) r by simp
qed

lemma EngineSteps_first: "EngineSteps cu (Suc k) eng = Some eng' \<Longrightarrow> \<exists>ems eng1. EngineStep cu eng = (Inr ems, eng1)"
  by (auto split: prod.splits sum.splits)

section \<open>What a step reports\<close>

lemma step_reports:
  assumes inv: "engine_inv cu mc opts eng" and e: "EngineStep cu eng = (Inr ems, eng')"
  shows "finished_ids ems = queued (eng_scheduler eng) - queued (eng_scheduler eng') \<and>
    queued (eng_scheduler eng') \<subseteq> queued (eng_scheduler eng) \<and> distinct (map request_id ems) \<and>
    eng_requests eng' = (\<lambda>i. if i \<in> finished_ids ems then None else eng_requests eng i)"
proof -
  let ?s = "eng_scheduler eng" and ?s' = "eng_scheduler eng'"
  have i: "exec_reachable cu mc (MakeExecutorOptions opts) (eng_executor eng)" "sched_inv ?s"
    "live_map ?s (eng_requests eng) (eng_next_id eng)"
    using inv reachable_sched_inv by (auto simp: engine_inv_def)
  obtain plan s1 where p: "sched_inv s1" "plan_ok s1 plan" "planned ?s plan s1"
    and o: "(stopped eng plan (Inr ems) eng' \<and> ?s' = s1) \<or>
      (\<exists>toks. length toks = wants s1 plan \<and> completed s1 plan toks ems ?s' \<and>
         eng_requests eng' = (\<lambda>i. if i \<in> finished_ids ems then None else eng_requests eng i))"
    by (rule EngineStep_outcome[OF i(1,2) e]) blast
  note q = planned_queued[OF p(3)]
  have ab: "set (aborted plan) \<inter> queued s1 = {}"
  proof -
    have "\<exists>r. heap s1 x = Some r \<and> is_aborted r" if "x \<in> set (aborted plan)" for x
      using p(2) that by (cases "prefill plan") (auto simp: plan_ok_def all_reqs_def)
    then show ?thesis using queued_state[OF p(1)] by (fastforce simp: is_aborted_def)
  qed
  have ids: "req_id r = x" if "heap s1 x = Some r" for x r
    using planned_live[OF i(3) p(3,2)] that by (simp add: live_map_def)
  show ?thesis
    using o
  proof
    assume s: "stopped eng plan (Inr ems) eng' \<and> ?s' = s1"
    then have "ems = []" "queued ?s = {}" "eng_requests eng' = eng_requests eng"
      by (auto simp: stopped_def split: if_splits)
    then show ?thesis using q s by (auto simp: finished_ids_def)
  next
    assume "\<exists>toks. length toks = wants s1 plan \<and> completed s1 plan toks ems ?s' \<and>
         eng_requests eng' = (\<lambda>i. if i \<in> finished_ids ems then None else eng_requests eng i)"
    then obtain toks where c: "length toks = wants s1 plan" "completed s1 plan toks ems ?s'"
      "eng_requests eng' = (\<lambda>i. if i \<in> finished_ids ems then None else eng_requests eng i)" by blast
    note res = completed_results[OF p(1,2) c(1,2) ids]
    have "distinct (map request_id ems)"
    proof (cases "prefill plan")
      case None
      have "running ?s = running s1 @ rev (aborted plan)" using p(3) by (simp add: planned_def)
      moreover have "distinct (running ?s)" using sched_invD(3)[OF i(2)] by auto
      ultimately show ?thesis using res(3) None by auto
    next
      case (Some x)
      then have "length ems \<le> 1" using res(4) by simp
      then show ?thesis by (cases ems) auto
    qed
    then show ?thesis using res(1,2) q ab c(3) by auto
  qed
qed

lemma removed_stays:
  "engine_reachable cu mc opts eng \<Longrightarrow> EngineSteps cu k eng = Some eng' \<Longrightarrow> eng_requests eng i = None \<Longrightarrow>
     eng_requests eng' i = None"
proof (induction k arbitrary: eng)
  case (Suc k)
  obtain ems eng1 where e: "EngineStep cu eng = (Inr ems, eng1)" "EngineSteps cu k eng1 = Some eng'"
    using Suc.prems(2) by (auto split: prod.splits sum.splits)
  have r1: "engine_reachable cu mc opts eng1" using engine_reachable.step[OF Suc.prems(1)] e(1) by simp
  show ?case
    using Suc.IH[OF r1 e(2)] step_reports[OF engine_reachable_inv[OF Suc.prems(1)] e(1)] Suc.prems(3) by auto
qed simp

lemma kept_stays:
  "engine_inv cu mc opts eng \<Longrightarrow> EngineSteps cu k eng = Some eng' \<Longrightarrow> eng_requests eng i = Some i \<Longrightarrow>
     i \<notin> queued (eng_scheduler eng) \<Longrightarrow> eng_requests eng' i = Some i"
proof (induction k arbitrary: eng)
  case (Suc k)
  obtain ems eng1 where e: "EngineStep cu eng = (Inr ems, eng1)" "EngineSteps cu k eng1 = Some eng'"
    using Suc.prems(2) by (auto split: prod.splits sum.splits)
  have r1: "engine_inv cu mc opts eng1" using EngineStep_inv[OF Suc.prems(1)] e(1) by simp
  show ?case
    using Suc.IH[OF r1 e(2)] step_reports[OF Suc.prems(1) e(1)] Suc.prems(3,4) by auto
qed simp

lemma steps_report:
  "engine_reachable cu mc opts eng \<Longrightarrow> EngineSteps cu k eng = Some eng' \<Longrightarrow> i \<in> queued (eng_scheduler eng) \<Longrightarrow>
     i \<notin> queued (eng_scheduler eng') \<Longrightarrow> eng_requests eng' i = None"
proof (induction k arbitrary: eng)
  case (Suc k)
  obtain ems eng1 where e: "EngineStep cu eng = (Inr ems, eng1)" "EngineSteps cu k eng1 = Some eng'"
    using Suc.prems(2) by (auto split: prod.splits sum.splits)
  have r1: "engine_reachable cu mc opts eng1" using engine_reachable.step[OF Suc.prems(1)] e(1) by simp
  note rep = step_reports[OF engine_reachable_inv[OF Suc.prems(1)] e(1)]
  show ?case
  proof (cases "i \<in> queued (eng_scheduler eng1)")
    case True
    then show ?thesis using Suc.IH[OF r1 e(2)] Suc.prems(4) by blast
  next
    case False
    then have "eng_requests eng1 i = None" using rep Suc.prems(3) by auto
    then show ?thesis using removed_stays[OF r1 e(2)] by blast
  qed
qed simp

lemma drains:
  assumes "engine_reachable cu mc opts eng" and "live_cuda cu" and "samples_in_vocab cu mc"
  shows "\<exists>eng'. EngineSteps cu (nat (work (eng_scheduler eng))) eng = Some eng' \<and> queued (eng_scheduler eng') = {} \<and>
    (\<forall>i\<in>queued (eng_scheduler eng). finished_at (eng_scheduler eng') i \<and> eng_requests eng' i = None)"
proof -
  let ?x = "eng_executor eng" and ?s = "eng_scheduler eng"
  have i: "exec_reachable cu mc (MakeExecutorOptions opts) ?x" "vocab_ok (vocab_size mc) ?s"
    and s: "sched_inv ?s" "options ?s = scheduler_options opts mc" "total_blocks (allocator ?s) = pool_blocks eng"
    using engine_reachable_inv[OF assms(1)] assms(3) reachable_inv by (auto simp: engine_inv_def)
  have live: "exec_live cu mc (MakeExecutorOptions opts) ?x"
    using i(1) assms(2,3) by (simp add: exec_live_def samples_in_vocab_def)
  have int_nat: "work ?s \<le> int (nat (work ?s))" by simp
  have agr: "agrees opts mc ?x ?s" using i(2) s by (simp add: agrees_def pool_blocks_def)
  obtain x s' where v: "live_executor.serve_all (engine_run cu) (nat (work ?s)) ?x ?s = Some (x, s')" "queued s' = {}"
    "\<forall>p. p \<in> queued ?s \<or> finished_at ?s p \<longrightarrow> finished_at s' p"
    using live.serve_drains[OF live s(1) agr int_nat] by blast
  obtain eng' where e: "EngineSteps cu (nat (work ?s)) eng = Some eng'" "eng_scheduler eng' = s'"
    using EngineSteps_serve_all[OF v(1) live.live_executor_axioms] by blast
  have "eng_requests eng' i = None" if "i \<in> queued ?s" for i
    using steps_report[OF assms(1) e(1) that] v(2) e(2) by simp
  then show ?thesis using e v(2,3) by auto
qed

section \<open>Properties\<close>

text \<open>
  C19: The engine runs the scheduler's transition system. In every state an engine can be in, for
  any behaviour of CUDA and cuBLASLt and any sequence of calls, returning or throwing, its
  executor and its scheduler are in reachable states of their own systems, over the same pool of
  blocks; and each further call of \<open>EngineStep\<close>, whatever its outcome, is a legal event of the
  scheduler.
\<close>

theorem engine_refines_scheduler:
  assumes "engine_reachable cu mc opts eng"
  shows "exec_reachable cu mc (MakeExecutorOptions opts) (eng_executor eng) \<and>
    reachable (scheduler_options opts mc) (pool_blocks eng) (eng_scheduler eng) \<and>
    (\<exists>ev. legal (eng_scheduler eng) ev \<and>
       exec_event (eng_scheduler eng) ev = Inr (eng_scheduler (snd (EngineStep cu eng))))"
proof -
  have i: "exec_reachable cu mc (MakeExecutorOptions opts) (eng_executor eng)"
    "reachable (scheduler_options opts mc) (pool_blocks eng) (eng_scheduler eng)"
    using engine_reachable_inv[OF assms] by (simp_all add: engine_inv_def)
  obtain r x s where v: "serve (engine_run cu) (eng_executor eng) (eng_scheduler eng) = (r, x, s)" by (rule prod_cases3)
  then have "eng_scheduler (snd (EngineStep cu eng)) = s" using EngineStep_serve[OF v] by auto
  moreover have "\<exists>ev. legal (eng_scheduler eng) ev \<and> exec_event (eng_scheduler eng) ev = Inr s"
    using exec.serve_event[OF i(1) reachable_sched_inv[OF i(2)] v]
    by (metis (no_types, lifting) bindE.simps(2) case_prod_conv exec_event.simps(2))
  ultimately show ?thesis using i by simp
qed

text \<open>
  C20: The map of live requests. In every reachable state every queued request is in the map
  under its own id, ids are positive and below the next id, a request at an address carries that
  id, and an entry that is not queued is a request aborted by a step that threw; under the
  reserve-full policy the map holds exactly the queued requests.
\<close>

theorem live_requests:
  assumes "engine_reachable cu mc opts eng"
  shows "live_map (eng_scheduler eng) (eng_requests eng) (eng_next_id eng) \<and>
    (eo_admission_policy opts = kReserveFull \<longrightarrow> dom (eng_requests eng) = queued (eng_scheduler eng))"
proof -
  have i: "live_map (eng_scheduler eng) (eng_requests eng) (eng_next_id eng)"
    "options (eng_scheduler eng) = scheduler_options opts mc"
    using engine_reachable_inv[OF assms] reachable_inv by (auto simp: engine_inv_def)
  then show ?thesis by (auto simp: live_map_def)
qed

text \<open>
  What a step reports. A step that returns reports as finished exactly the requests that
  left the queues during it, aborted ones included, names no request twice, adds nothing to the
  queues, and erases exactly the reported requests from the map.
\<close>

theorem step_reports_departures:
  assumes "engine_reachable cu mc opts eng" and "EngineStep cu eng = (Inr ems, eng')"
  shows "finished_ids ems = queued (eng_scheduler eng) - queued (eng_scheduler eng') \<and>
    queued (eng_scheduler eng') \<subseteq> queued (eng_scheduler eng) \<and> distinct (map request_id ems) \<and>
    eng_requests eng' = (\<lambda>i. if i \<in> finished_ids ems then None else eng_requests eng i)"
  using engine_reachable_inv[OF assms(1)] assms(2) by (rule step_reports)

text \<open>
  C21: Everything accepted finishes. When no runtime call fails, cuBLASLt offers algorithms and
  the argmax kernel yields ids of the vocabulary, then from every reachable state at most as many
  steps as there are prompt positions and tokens to produce run without a throw to empty queues;
  every request that was queued is finished, and its map entry is erased.
\<close>

theorem engine_drains:
  assumes "engine_reachable cu mc opts eng" and "live_cuda cu" and "samples_in_vocab cu mc"
  shows "\<exists>eng'. EngineSteps cu (nat (work (eng_scheduler eng))) eng = Some eng' \<and> queued (eng_scheduler eng') = {} \<and>
    (\<forall>i\<in>queued (eng_scheduler eng). finished_at (eng_scheduler eng') i \<and> eng_requests eng' i = None)"
  using assms by (rule drains)

text \<open>
  Arrivals are decided without side effects. In every reachable state \<open>AddRequest\<close> throws
  \<^verbatim>\<open>std::invalid_argument\<close> for a prompt or forced token outside the vocabulary, then for a
  request the scheduler's validation rejects, and leaves the engine as it was, the next id
  included; otherwise it returns the next id, which no live request and no earlier request has,
  queues the request last, enters it in the map and advances the id.
\<close>

theorem add_request_decides:
  assumes "engine_reachable cu mc opts eng"
  shows "eng_requests eng (eng_next_id eng) = None \<and> heap (eng_scheduler eng) (eng_next_id eng) = None \<and>
    AddRequest prompt max_new ignore forced eng =
      (if \<not> list_all (\<lambda>t. 0 \<le> t \<and> t < vocab_size mc) prompt
       then (Inl (InvalidArgument (''prompt_tokens'' @ '' contains a token id outside the vocabulary'')), eng)
       else if \<not> list_all (\<lambda>t. 0 \<le> t \<and> t < vocab_size mc) forced
       then (Inl (InvalidArgument (''forced_tokens'' @ '' contains a token id outside the vocabulary'')), eng)
       else case ValidateRequest (eng_scheduler eng) (arriving eng prompt max_new ignore forced) of
              Inl e \<Rightarrow> (Inl e, eng)
            | Inr _ \<Rightarrow> (Inr (eng_next_id eng), accepted eng (arriving eng prompt max_new ignore forced)))"
proof -
  have i: "live_map (eng_scheduler eng) (eng_requests eng) (eng_next_id eng)" "eng_config eng = mc"
    and s: "sched_inv (eng_scheduler eng)"
    using engine_reachable_inv[OF assms] reachable_sched_inv by (auto simp: engine_inv_def)
  have h: "heap (eng_scheduler eng) (eng_next_id eng) = None"
    using i(1) by (cases "heap (eng_scheduler eng) (eng_next_id eng)") (auto simp: live_map_def)
  then have "eng_requests eng (eng_next_id eng) = None"
    using i(1) queued_state[OF s] by (fastforce simp: live_map_def)
  then show ?thesis using h i(2) by (simp add: AddRequest_eq in_vocab_def)
qed

text \<open>
  C22: A step that throws after planning loses its abort reports. In a state with the engine's
  invariant, when the plan aborted a request and the step throws, the request is finished with
  \<open>kAborted\<close> and in no queue, but its map entry is still there, and no sequence of later steps
  erases it: the step that would have reported it was the one that threw.
\<close>

theorem failed_step_loses_aborts:
  assumes "engine_inv cu mc opts eng" and "PlanStep (eng_scheduler eng) = Inr (plan, s1)"
    and "EngineStep cu eng = (Inl e, eng')" and "i \<in> set (aborted plan)" and "EngineSteps cu k eng' = Some eng''"
  shows "i \<notin> queued (eng_scheduler eng') \<and> (\<exists>r. heap (eng_scheduler eng') i = Some r \<and> is_aborted r) \<and>
    eng_requests eng'' i = Some i"
proof -
  have i: "exec_reachable cu mc (MakeExecutorOptions opts) (eng_executor eng)" "sched_inv (eng_scheduler eng)"
    "live_map (eng_scheduler eng) (eng_requests eng) (eng_next_id eng)"
    using assms(1) reachable_sched_inv by (auto simp: engine_inv_def)
  have inv': "engine_inv cu mc opts eng'" using EngineStep_inv[OF assms(1)] assms(3) by simp
  obtain plan' s1' where p: "PlanStep (eng_scheduler eng) = Inr (plan', s1')" "sched_inv s1'" "plan_ok s1' plan'"
    "planned (eng_scheduler eng) plan' s1'" and o: "stopped eng plan' (Inl e) eng'" "eng_scheduler eng' = s1'"
    by (rule EngineStep_outcome[OF i(1,2) assms(3)]) blast
  have eq: "plan' = plan" "s1' = s1" using p(1) assms(2) by simp_all
  obtain r where r: "heap s1 i = Some r" "is_aborted r"
    using p(3) assms(4) eq by (cases "prefill plan") (auto simp: plan_ok_def all_reqs_def)
  then have nq: "i \<notin> queued s1" using queued_state[OF p(2)] eq by (fastforce simp: is_aborted_def)
  have "i \<in> queued (eng_scheduler eng)" using planned_queued[OF p(4)] assms(4) eq by simp
  then have m: "eng_requests eng' i = Some i" using i(3) o(1) by (fastforce simp: live_map_def stopped_def)
  have "eng_requests eng'' i = Some i"
    using kept_stays[OF inv' assms(5) m] nq o(2) eq by simp
  then show ?thesis using r nq o(2) eq by auto
qed

section \<open>A concrete engine\<close>

definition demo_live_cuda :: "nat Cuda" where
  "demo_live_cuda = demo_cuda\<lparr>argmax_out := (\<lambda>_ _. 5)\<rparr>"

lemma demo_live: "live_cuda demo_live_cuda" "samples_in_vocab demo_live_cuda (pinned_config [2])"
  using demo_cuda_ok demo_offers
  by (auto simp: live_cuda_def demo_live_cuda_def cuda_ok_def demo_cuda_def samples_in_vocab_def pinned_config_def)

lemma demo_engine_options: "MakeExecutorOptions default_EngineOptions = demo_options"
  by (simp add: MakeExecutorOptions_def default_EngineOptions_def demo_options_def default_ExecutorOptions_def)

text \<open>An engine with the default options to which one request was added.\<close>

lemma demo_engine:
  "\<exists>eng. engine_reachable demo_live_cuda (pinned_config [2]) default_EngineOptions eng \<and>
     queued (eng_scheduler eng) = {1} \<and> eng_next_id eng = 2 \<and> work (eng_scheduler eng) = 7"
proof -
  let ?mc = "pinned_config [2]"
  obtain b where b: "ComputeBudget ?mc demo_options = Inr b" "num_kv_blocks b = 2340"
    by (auto simp: ComputeBudget_def ValidateGeometry_def pinned_config_def default_ExecutorOptions_def demo_options_def
        KvBytesPerToken_def kKvBlockSize_def Let_def to_int32_def)
  have off: "\<forall>c. offers (cu_lt demo_live_cuda) kDefaultWorkspaceBytes c" and ok: "cuda_ok demo_live_cuda"
    using demo_live(1) by (simp_all add: live_cuda_def)
  obtain ex where ex: "new_ModelExecutor demo_live_cuda ?mc (num_layers ?mc) (MakeExecutorOptions default_EngineOptions) 0 = Inr ex"
    using init_captures[OF b(1) off ok, of 0] by (auto simp: demo_engine_options demo_options_def)
  have bud: "num_kv_blocks (me_budget ex) = 2340"
    using construction_built[OF ex] b by (auto simp: exec_inv_def demo_engine_options)
  obtain a where a: "new_BlockAllocator 2340 = Inr a" "alloc_inv a" "total_blocks a = 2340" "reserved a = 0"
    "set (free_list a) = {1..<total_blocks a}" using new_BlockAllocator_ok[of 2340] by (auto elim!: wpE)
  have "options_ok (scheduler_options default_EngineOptions ?mc)"
    by (simp add: options_ok_def scheduler_options_def default_EngineOptions_def default_SchedulerOptions_def)
  from new_Scheduler_ok[OF this a(2,4,5), of "\<lambda>_. None"]
  obtain s where s: "new_Scheduler a (scheduler_options default_EngineOptions ?mc) (\<lambda>_. None) = Inr s"
    "options s = scheduler_options default_EngineOptions ?mc" "allocator s = a" "heap s = (\<lambda>_. None)"
    "waiting s = []" "prefill_queue s = []" "running s = []" by (auto elim: wpE)
  obtain eng where eng: "assemble default_EngineOptions ?mc ex = Inr eng" "eng_next_id eng = 1" "eng_config eng = ?mc"
    "eng_scheduler eng = s" using s(1) a(1) by (simp add: assemble_def bud)
  note s = s(2-7) eng(2-4) a(3)
  have r0: "engine_reachable demo_live_cuda ?mc default_EngineOptions eng" by (rule engine_reachable.made[OF ex eng(1)])
  let ?r = "arriving eng [5, 6, 7] 4 False []"
  have "ValidateRequest (eng_scheduler eng) ?r = Inr ()"
    using s by (simp add: ValidateRequest_def arriving_def new_Request_def size_defs default_EngineOptions_def usable_blocks_def
        scheduler_options_def default_SchedulerOptions_def)
  then have a: "snd (AddRequest [5, 6, 7] 4 False [] eng) = accepted eng ?r"
    using s by (simp add: AddRequest_eq in_vocab_def pinned_config_def)
  have "engine_reachable demo_live_cuda ?mc default_EngineOptions (accepted eng ?r)"
    using engine_reachable.add[OF r0, of "[5, 6, 7]" 4 False "[]"] a by simp
  moreover have "queued (eng_scheduler (accepted eng ?r)) = {1}" "eng_next_id (accepted eng ?r) = 2"
    "work (eng_scheduler (accepted eng ?r)) = 7"
    using s by (simp_all add: accepted_def queued_def work_def work_of_def work_req_def arriving_def new_Request_def size_defs Let_def)
  ultimately show ?thesis by blast
qed

theorem engine_refines_scheduler_witness:
  "\<exists>eng :: nat Engine. queued (eng_scheduler eng) = {1} \<and>
     reachable (scheduler_options default_EngineOptions (pinned_config [2])) (pool_blocks eng) (eng_scheduler eng)"
  using demo_engine engine_refines_scheduler by blast

theorem live_requests_witness:
  "\<exists>eng :: nat Engine. queued (eng_scheduler eng) = {1} \<and> dom (eng_requests eng) = {1}"
proof -
  obtain eng where e: "engine_reachable demo_live_cuda (pinned_config [2]) default_EngineOptions eng"
    "queued (eng_scheduler eng) = {1}" using demo_engine by blast
  have "eo_admission_policy default_EngineOptions = kReserveFull" by (simp add: default_EngineOptions_def)
  then show ?thesis using live_requests[OF e(1)] e(2) by auto
qed

theorem engine_drains_witness:
  "\<exists>eng eng'. queued (eng_scheduler eng) = {1} \<and> EngineSteps demo_live_cuda 7 eng = Some eng' \<and>
     queued (eng_scheduler eng') = {} \<and> finished_at (eng_scheduler eng') 1 \<and> eng_requests eng' 1 = None"
proof -
  obtain eng where e: "engine_reachable demo_live_cuda (pinned_config [2]) default_EngineOptions eng"
    "queued (eng_scheduler eng) = {1}" "work (eng_scheduler eng) = 7" using demo_engine by blast
  from engine_drains[OF e(1) demo_live] e(2,3) show ?thesis by auto
qed

theorem step_reports_departures_witness:
  "\<exists>eng ems eng'. queued (eng_scheduler eng) = {1} \<and> EngineStep demo_live_cuda eng = (Inr ems, eng') \<and>
     finished_ids ems = {1} - queued (eng_scheduler eng') \<and> distinct (map request_id ems)"
proof -
  obtain eng where e: "engine_reachable demo_live_cuda (pinned_config [2]) default_EngineOptions eng"
    "queued (eng_scheduler eng) = {1}" "work (eng_scheduler eng) = 7" using demo_engine by blast
  obtain eng' where "EngineSteps demo_live_cuda 7 eng = Some eng'" using drains[OF e(1) demo_live] e(3) by auto
  then obtain ems eng1 where s: "EngineStep demo_live_cuda eng = (Inr ems, eng1)"
    using EngineSteps_first[of demo_live_cuda 6 eng eng'] by auto
  from step_reports_departures[OF e(1) s] e(2) s show ?thesis by auto
qed

theorem add_request_decides_witness:
  "\<exists>eng :: nat Engine. eng_next_id eng = 2 \<and> eng_requests eng 2 = None \<and>
     AddRequest [5, 151936] 4 False [] eng =
       (Inl (InvalidArgument ''prompt_tokens contains a token id outside the vocabulary''), eng)"
proof -
  obtain eng where e: "engine_reachable demo_live_cuda (pinned_config [2]) default_EngineOptions eng"
    "eng_next_id eng = 2" using demo_engine by blast
  have "vocab_size (pinned_config [2]) = 151936" by (simp add: pinned_config_def)
  with add_request_decides[OF e(1), of "[5, 151936]" 4 False "[]"] e(2) show ?thesis by auto
qed

section \<open>A step that aborts and then throws\<close>

text \<open>
  A watermark pool of three usable blocks, two requests of one block each, and a sampler that
  produced a token outside the vocabulary: the next plan aborts the younger request, and
  executing the other one throws.
\<close>

lemma decode_rejected:
  assumes "prefill plan = None" and "p \<in> set (decode plan)" and "h p = Some r" and "\<not> row_ok x r"
  shows "\<exists>e x'. execute_plan cu h plan x = (Inl e, x')"
proof -
  have fill: "\<not> (\<exists>rows x'. FillDecodeMirrors h (decode plan) pad y = (Inr rows, x'))" if "me_options y = me_options x"
    "me_config y = me_config x" "me_budget y = me_budget x" for pad y
  proof
    assume "\<exists>rows x'. FillDecodeMirrors h (decode plan) pad y = (Inr rows, x')"
    then obtain rs where "list_all2 (\<lambda>p q. h p = Some q \<and> row_ok y q) (decode plan) rs" using FillDecode_checked by blast
    moreover obtain i where "i < length (decode plan)" "decode plan ! i = p" using assms(2) by (auto simp: in_set_conv_nth)
    ultimately have "row_ok y r" using assms(3) by (auto simp: list_all2_conv_all_nth)
    then show False using assms(4) that by (simp add: row_ok_def)
  qed
  have "\<not> (\<exists>out x'. DecodeEager cu h (decode plan) x = (Inr out, x'))" "\<not> (\<exists>out x'. DecodeGraph cu h (decode plan) x = (Inr out, x'))"
    using fill[of x] assms(2) by (auto simp: DecodeEager_def DecodeGraph_def bindS_Inr_iff split: if_splits)
  then have "\<not> (\<exists>run x'. execute_plan cu h plan x = (Inr run, x'))"
    using assms(1,2) by (auto simp: execute_plan_def is_prefill_def bindS_Inr_iff getS_eq Let_def split: if_splits)
  then show ?thesis by (metis old.sum.exhaust surj_pair)
qed

lemma event_frame:
  assumes inv: "sched_inv s" and leg: "legal s ev" and ev: "exec_event s ev = Inr s'" and q: "q \<notin> queued s"
    and new: "\<forall>r. ev \<noteq> Arrive q r"
  shows "heap s' q = heap s q \<and> q \<notin> queued s'"
proof (cases ev)
  case (Arrive p r)
  then have "s' = (if admissible s r then (set_req s p r)\<lparr>waiting := waiting s @ [p]\<rparr> else s)" "p \<noteq> q"
    using exec_Arrive(1)[OF inv, of p r] leg ev new by (auto simp del: exec_event.simps)
  then show ?thesis using q by (auto simp: queued_def)
next
  case (Step toks)
  obtain plan ems s1 where p: "sched_inv s1" "plan_ok s1 plan" "planned s plan s1" "completed s1 plan toks ems s'"
    "PlanStep s = Inr (plan, s1)"
    using run_step_ok[OF inv, of toks] leg ev Step by (auto simp: bindE_Inr_iff elim!: wpE)
  have len: "length toks = wants s1 plan" using leg Step p(5) by simp
  have ids: "queued s' \<subseteq> queued s1"
    using p(4,2) by (auto simp: completed_def queued_def rows_done_def plan_ok_def Let_def split: option.splits if_splits dest: in_tl)
  show ?thesis using planned_finishes(2)[OF p(2,3) q] completed_finishes(2)[OF p(1,2) len p(4)] ids by auto
next
  case FailedStep
  obtain plan s1 where p: "PlanStep s = Inr (plan, s1)" "plan_ok s1 plan" "planned s plan s1"
    using PlanStep_ok[OF inv] by (auto elim: wpE)
  then show ?thesis using planned_finishes(2)[OF p(2,3) q] ev FailedStep by simp
qed

lemma run_events_frame:
  "sched_inv s \<Longrightarrow> run_events s evs = Some s' \<Longrightarrow> q \<notin> queued s \<Longrightarrow> \<forall>r. Arrive q r \<notin> set evs \<Longrightarrow>
     heap s' q = heap s q \<and> q \<notin> queued s'"
proof (induction evs arbitrary: s)
  case (Cons ev evs)
  obtain t where t: "legal s ev" "exec_event s ev = Inr t" "run_events t evs = Some s'"
    using Cons.prems(2) by (auto split: if_splits sum.splits)
  have inv: "sched_inv t" using exec_event_ok[OF Cons.prems(1) t(1)] t(2) by (auto elim: wpE)
  have "\<forall>r. ev \<noteq> Arrive q r" using Cons.prems(4) by auto
  from event_frame[OF Cons.prems(1) t(1,2) Cons.prems(3) this] Cons.IH[OF inv t(3)] Cons.prems(4) show ?case by simp
qed simp

definition tight_options :: EngineOptions where
  "tight_options = default_EngineOptions
     \<lparr>eo_admission_policy := kWatermark, kv_pool_gb := Some (1835008 / 2 ^ 30)\<rparr>"

definition tight_sched :: Scheduler where
  "tight_sched = the (case start (scheduler_options tight_options (pinned_config [2])) 4 of None \<Rightarrow> None
     | Some s \<Rightarrow> run_events s [Arrive 1 (demo_req 1 16 4), Arrive 2 (demo_req 2 16 4), Step [-1], Step [-1]])"

lemma tight_run:
  "(case start (scheduler_options tight_options (pinned_config [2])) 4 of None \<Rightarrow> None
     | Some s \<Rightarrow> run_events s [Arrive 1 (demo_req 1 16 4), Arrive 2 (demo_req 2 16 4), Step [-1], Step [-1]]) \<noteq> None"
  by code_simp

lemma tight_reachable:
  "reachable (scheduler_options tight_options (pinned_config [2])) 4 tight_sched"
  "p \<noteq> 1 \<Longrightarrow> p \<noteq> 2 \<Longrightarrow> heap tight_sched p = None"
proof -
  obtain s where s: "start (scheduler_options tight_options (pinned_config [2])) 4 = Some s"
    and r: "run_events s [Arrive 1 (demo_req 1 16 4), Arrive 2 (demo_req 2 16 4), Step [-1], Step [-1]] = Some tight_sched"
    using tight_run by (auto simp: tight_sched_def split: option.splits)
  note reach = reachable_start[OF s]
  show "reachable (scheduler_options tight_options (pinned_config [2])) 4 tight_sched"
    by (rule reachable_run_events[OF reach r])
  have s0: "heap s = (\<lambda>_. None)" "queued s = {}"
    using s by (auto simp: start_def new_Scheduler_def bindE_Inr_iff queued_def split: sum.splits)
  show "heap tight_sched p = None" if "p \<noteq> 1" "p \<noteq> 2"
    using run_events_frame[OF reachable_sched_inv[OF reach] r, of p] s0 that by simp
qed

lemma tight_queues: "(waiting tight_sched, prefill_queue tight_sched, running tight_sched) = ([], [], [1, 2])"
  by code_simp

lemma tight_ids: "(req_id (the (heap tight_sched 1)), req_id (the (heap tight_sched 2))) = (1, 2)"
  by code_simp

lemma tight_plan:
  "wp (PlanStep tight_sched) (\<lambda>(plan, s1). (prefill plan, decode plan, aborted plan) = (None, [1], [2]) \<and>
     heap s1 1 \<noteq> None \<and> output_tokens (the (heap s1 1)) = [-1])"
  by code_simp

theorem failed_step_loses_aborts_witness:
  "\<exists>(eng :: nat Engine) e eng'. EngineStep demo_cuda eng = (Inl e, eng') \<and> 2 \<in> queued (eng_scheduler eng) \<and>
     2 \<notin> queued (eng_scheduler eng') \<and> eng_requests eng' 2 = Some 2"
proof -
  let ?mc = "pinned_config [2]" and ?o = "MakeExecutorOptions tight_options"
  have o: "?o = demo_options\<lparr>ex_kv_pool_bytes := 1835008\<rparr>"
    by (simp add: MakeExecutorOptions_def tight_options_def default_EngineOptions_def demo_options_def default_ExecutorOptions_def)
  obtain b where b: "ComputeBudget ?mc ?o = Inr b" "num_kv_blocks b = 4"
    by (auto simp: o ComputeBudget_def ValidateGeometry_def pinned_config_def default_ExecutorOptions_def demo_options_def
        KvBytesPerToken_def kKvBlockSize_def Let_def to_int32_def)
  have "\<forall>c. offers (cu_lt demo_cuda) kDefaultWorkspaceBytes c" using demo_offers by (simp add: demo_cuda_def)
  from init_captures[OF b(1) this demo_cuda_ok, of 0]
  obtain ex where ex: "new_ModelExecutor demo_cuda ?mc (num_layers ?mc) ?o 0 = Inr ex" by (auto simp: o demo_options_def)
  have x: "exec_reachable demo_cuda ?mc ?o ex" by (rule exec_reachable.built[OF ex])
  have bud: "num_kv_blocks (me_budget ex) = 4" "me_config ex = ?mc"
    using construction_built[OF ex] b by (auto simp: exec_inv_def)
  define eng where "eng = \<lparr>eng_options = tight_options, eng_config = ?mc, eng_executor = ex, eng_scheduler = tight_sched,
    eng_requests = [1 \<mapsto> 1, 2 \<mapsto> 2], eng_next_id = 3, eng_steps = 2, eng_prefill_tokens = 32, eng_decode_tokens = 0,
    eng_graph_replays = 0, eng_eager_decodes = 0, eng_aborts = 0, eng_bucket_steps = [0, 0, 0, 0]\<rparr>"
  have "\<not> samples_in_vocab demo_cuda ?mc"
    by (auto simp: samples_in_vocab_def demo_cuda_def pinned_config_def intro!: exI[of _ 151936])
  moreover have "1 \<le> p \<and> p < 3 \<and> req_id r = p" if "heap tight_sched p = Some r" for p r
    using tight_reachable(2)[of p] tight_ids that by (cases "p = 1"; cases "p = 2") auto
  then have "live_map tight_sched [1 \<mapsto> 1, 2 \<mapsto> 2] 3"
    using tight_queues by (auto simp: live_map_def queued_def split: if_splits)
  ultimately have inv: "engine_inv demo_cuda ?mc tight_options eng"
    using x tight_reachable(1) bud(1) by (simp add: engine_inv_def eng_def pool_blocks_def)
  obtain plan s1 r where p: "PlanStep tight_sched = Inr (plan, s1)" "prefill plan = None" "decode plan = [1]" "aborted plan = [2]"
    "heap s1 1 = Some r" "output_tokens r = [-1]"
    using tight_plan by (auto elim!: wpE)
  have "\<not> row_ok ex r" using p(6) by (simp add: row_ok_def)
  then obtain e x' where "execute_plan demo_cuda (heap s1) plan ex = (Inl e, x')"
    using decode_rejected[OF p(2), of 1 "heap s1" r ex demo_cuda] p(3,5) by auto
  then obtain eng' where e: "EngineStep demo_cuda eng = (Inl e, eng')"
    using p by (simp add: EngineStep_eq eng_def plan_empty_def)
  have "PlanStep (eng_scheduler eng) = Inr (plan, s1)" using p(1) by (simp add: eng_def)
  from failed_step_loses_aborts[OF inv this e _ EngineSteps.simps(1), of 2] p(4) e tight_queues show ?thesis
    by (fastforce simp: eng_def queued_def)
qed

end
