(* ===== verification/Convert.thy ===== *)
theory Convert
  imports Core_Types "HOL-Library.Word"
begin

unbundle bit_operations_syntax

text \<open>
  \<^verbatim>\<open>src/src/loader/convert.{hpp,cpp}\<close>: BF16 to FP16 conversion and the staged upload.

  Bit patterns are words of the code's width. Host memory at a pointer is a function from the
  byte index to the byte.
\<close>

section \<open>Scalar conversion\<close>

definition Bf16BitsToFp32Bits :: "16 word \<Rightarrow> 32 word" where
  "Bf16BitsToFp32Bits bf16_bits = push_bit 16 (ucast bf16_bits)"

definition Fp32BitsToFp16BitsRne :: "32 word \<Rightarrow> 16 word" where
  "Fp32BitsToFp16BitsRne fp32_bits =
     (let sign = (ucast (drop_bit 16 fp32_bits AND 0x8000) :: 16 word);
          mag = fp32_bits AND 0x7FFFFFFF in
      if mag > 0x7F800000 then sign OR 0x7E00
      else if mag \<ge> 0x47800000 then sign OR 0x7C00
      else
        let exp32 = drop_bit 23 mag in
        if exp32 \<ge> 113 then
          let rebased = mag - push_bit 23 112;
              lsb = drop_bit 13 rebased AND 1;
              rounded = rebased + 0x0FFF + lsb
          in sign OR ucast (drop_bit 13 rounded)
        else if exp32 \<ge> 102 then
          let sig = 0x00800000 OR (mag AND 0x007FFFFF);
              shift = unat (126 - exp32);
              q = drop_bit shift sig;
              rem = sig AND (push_bit shift 1 - 1);
              halfway = push_bit (shift - 1) 1;
              round_up = (rem > halfway \<or> rem = halfway \<and> q AND 1 \<noteq> 0)
          in sign OR ucast (q + (if round_up then 1 else 0))
        else sign)"

definition Bf16BitsToFp16BitsRne :: "16 word \<Rightarrow> 16 word" where
  "Bf16BitsToFp16BitsRne bf16_bits = Fp32BitsToFp16BitsRne (Bf16BitsToFp32Bits bf16_bits)"

definition Bf16OverflowsFp16 :: "16 word \<Rightarrow> bool" where
  "Bf16OverflowsFp16 bf16_bits =
     (let mag = bf16_bits AND 0x7FFF in mag \<ge> 0x4780 \<and> mag \<le> 0x7F80)"

definition IsNanFp16Bits :: "16 word \<Rightarrow> bool" where
  "IsNanFp16Bits fp16_bits \<longleftrightarrow> fp16_bits AND 0x7FFF > 0x7C00"

definition IsInfFp16Bits :: "16 word \<Rightarrow> bool" where
  "IsInfFp16Bits fp16_bits \<longleftrightarrow> fp16_bits AND 0x7FFF = 0x7C00"

section \<open>The conversion on natural numbers\<close>

definition round_shift :: "nat \<Rightarrow> nat \<Rightarrow> nat" where
  "round_shift k n =
     n div 2 ^ k + (if 2 ^ k < 2 * (n mod 2 ^ k) \<or> 2 ^ k = 2 * (n mod 2 ^ k) \<and> odd (n div 2 ^ k) then 1 else 0)"

definition fp16_mag :: "nat \<Rightarrow> nat" where
  "fp16_mag a =
     (if a \<ge> 0x47800000 then 0x7C00
      else if a \<ge> 113 * 2 ^ 23 then round_shift 13 (a - 112 * 2 ^ 23)
      else if a \<ge> 102 * 2 ^ 23 then round_shift (126 - a div 2 ^ 23) (2 ^ 23 + a mod 2 ^ 23)
      else 0)"

lemma mask31: "w AND 0x7FFFFFFF = take_bit 31 (w :: 32 word)"
  by (simp add: take_bit_eq_mask mask_eq_exp_minus_1)

lemma mask15: "w AND 0x7FFF = take_bit 15 (w :: 16 word)"
  by (simp add: take_bit_eq_mask mask_eq_exp_minus_1)

lemma mask23: "w AND 0x007FFFFF = take_bit 23 (w :: 32 word)"
  by (simp add: take_bit_eq_mask mask_eq_exp_minus_1)

lemma mask_shift: "w AND (push_bit n 1 - 1) = take_bit n (w :: 32 word)"
  by (simp add: take_bit_eq_mask mask_eq_exp_minus_1 push_bit_eq_mult)

lemma round_half_add:
  "(n + 0xFFF + n div 2 ^ 13 mod 2) div 2 ^ 13 = round_shift 13 n"
proof -
  define q where "q = n div 2 ^ 13"
  define r where "r = n mod 2 ^ 13"
  have n: "n = q * 8192 + r" and r: "r < 8192" by (simp_all add: q_def r_def)
  have "(n + 0xFFF + q mod 2) div 8192 = q + (r + 4095 + q mod 2) div 8192" by (simp add: n)
  moreover have "(r + 4095 + q mod 2) div 8192 = (if 8192 < 2 * r \<or> 8192 = 2 * r \<and> odd q then 1 else 0)"
  proof (cases "odd q")
    case True
    then have "q mod 2 = 1" by presburger
    then show ?thesis using True r by auto
  next
    case False
    then have "q mod 2 = 0" by presburger
    then show ?thesis using False r by auto
  qed
  ultimately show ?thesis by (simp add: round_shift_def q_def r_def)
qed

lemma bit_32768: "bit (0x8000 :: 'a::len word) n \<longleftrightarrow> n < LENGTH('a) \<and> n = 15"
  using bit_exp_iff[of 15 n, where 'a = "'a word"] by auto

lemma bit_32768_int: "bit (0x8000 :: int) n \<longleftrightarrow> n = 15"
  using bit_exp_iff[of 15 n, where 'a = int] by auto

lemma bit_8388608: "bit (0x00800000 :: int) n \<longleftrightarrow> n = 23"
  using bit_exp_iff[of 23 n, where 'a = int] by auto

lemma sign_bit: "(ucast (drop_bit 16 w AND 0x8000) :: 16 word) = (if bit (w :: 32 word) 31 then 0x8000 else 0)"
proof (rule bit_word_eqI)
  fix n
  assume "n < LENGTH(16)"
  then have n: "n < 16" by simp
  have "bit (ucast (drop_bit 16 w AND 0x8000) :: 16 word) n \<longleftrightarrow> bit w (16 + n) \<and> n = 15"
    using n by (auto simp: bit_simps bit_32768 bit_32768_int)
  then show "bit (ucast (drop_bit 16 w AND 0x8000) :: 16 word) n = bit (if bit w 31 then 0x8000 else 0 :: 16 word) n"
    using n by (auto simp: bit_32768 bit_32768_int)
qed

lemma unat_sign_or:
  assumes "unat (r :: 16 word) < 2 ^ 15"
  shows "unat ((if s then 0x8000 else 0) OR r) = (if s then 2 ^ 15 else 0) + unat r"
proof -
  have "\<not> bit (unat r) 15" using assms by (simp add: bit_iff_odd)
  then have "\<not> bit r 15" by (simp add: bit_unsigned_iff)
  then have "0x8000 AND r = 0" by (intro bit_word_eqI) (auto simp: bit_simps bit_32768 bit_32768_int)
  then have "0x8000 OR r = 0x8000 + r" by (simp add: disjunctive_add_eq_or)
  moreover have "unat (0x8000 + r) = 2 ^ 15 + unat r" using assms by (simp add: unat_plus_if')
  ultimately show ?thesis by simp
qed

lemma round_shift_le: "n < m * 2 ^ k \<Longrightarrow> round_shift k n \<le> m"
proof -
  assume "n < m * 2 ^ k"
  then have "n div 2 ^ k < m" by (simp add: less_mult_imp_div_less)
  then show ?thesis by (simp add: round_shift_def)
qed

lemma unat_drop: "unat (drop_bit k w) = unat w div 2 ^ k"
  by (subst unat_drop_bit_eq) (rule drop_bit_eq_div)

lemma unat_take: "unat (take_bit k w) = unat w mod 2 ^ k"
  by (subst unsigned_take_bit_eq) (rule take_bit_eq_mod)

lemma unat_pow2: "n < 32 \<Longrightarrow> unat (2 ^ n :: 32 word) = 2 ^ n"
proof -
  assume "n < 32"
  then have "(2 :: nat) ^ n < 2 ^ 32" by (intro power_strict_increasing) simp_all
  then show ?thesis using unat_of_nat[of "2 ^ n", where 'a = 32] by simp
qed

lemma unat_narrow: "unat (x :: 32 word) < 2 ^ 16 \<Longrightarrow> unat (ucast x :: 16 word) = unat x"
  by (simp add: unsigned_ucast_eq take_bit_nat_eq_self)

lemma Rne_unat:
  assumes "unat w mod 2 ^ 31 \<le> 0x7F800000"
  shows "unat (Fp32BitsToFp16BitsRne w) = (if bit w 31 then 2 ^ 15 else 0) + fp16_mag (unat w mod 2 ^ 31)"
proof -
  define mag where "mag = take_bit 31 w"
  define a where "a = unat w mod 2 ^ 31"
  have ua: "unat mag = a" by (simp only: mag_def a_def unat_take)
  have a: "a < 2 ^ 31" by (simp add: a_def)
  have e: "unat (drop_bit 23 mag) = a div 2 ^ 23" by (simp only: unat_drop ua)
  have c: "\<not> mag > 0x7F800000" "mag \<ge> 0x47800000 \<longleftrightarrow> a \<ge> 0x47800000"
    "drop_bit 23 mag \<ge> 113 \<longleftrightarrow> a \<ge> 113 * 2 ^ 23" "drop_bit 23 mag \<ge> 102 \<longleftrightarrow> a \<ge> 102 * 2 ^ 23"
    using assms[folded a_def] by (simp_all add: word_less_nat_alt word_le_nat_alt ua e less_eq_div_iff_mult_less_eq)
  note unf = Fp32BitsToFp16BitsRne_def sign_bit mask31 mag_def[symmetric] Let_def c
  consider "a \<ge> 0x47800000" | "113 * 2 ^ 23 \<le> a" "a < 0x47800000" | "102 * 2 ^ 23 \<le> a" "a < 113 * 2 ^ 23" | "a < 102 * 2 ^ 23"
    by linarith
  then show ?thesis
  proof cases
    case 1
    then show ?thesis unfolding a_def[symmetric] by (simp add: unf unat_sign_or fp16_mag_def)
  next
    case 2
    define rb where "rb = mag - push_bit 23 112"
    let ?n = "a - 112 * 2 ^ 23"
    have reb: "unat rb = ?n"
      using 2 ua by (simp add: rb_def unat_sub word_le_nat_alt push_bit_eq_mult)
    have lsb: "unat (drop_bit 13 rb AND 1) = ?n div 2 ^ 13 mod 2"
      by (simp add: and_one_eq unat_mod_distrib unat_drop reb)
    have "unat (rb + 0x0FFF + (drop_bit 13 rb AND 1)) = ?n + 0xFFF + ?n div 2 ^ 13 mod 2"
      using 2 by (simp add: unat_word_ariths reb lsb)
    then have r: "unat (drop_bit 13 (rb + 0x0FFF + (drop_bit 13 rb AND 1))) = round_shift 13 ?n"
      by (simp only: unat_drop round_half_add[of ?n])
    have "round_shift 13 ?n \<le> 31744" using 2 by (intro round_shift_le) simp
    then show ?thesis
      unfolding a_def[symmetric] using 2 r[unfolded rb_def]
      by (simp add: unf unat_sign_or unat_narrow fp16_mag_def)
  next
    case 3
    define e where "e = a div 2 ^ 23"
    define m where "m = 2 ^ 23 + a mod 2 ^ 23"
    define k where "k = 126 - e"
    have er: "102 \<le> e" "e < 113" using 3 by (simp_all add: e_def less_eq_div_iff_mult_less_eq div_less_iff_less_mult)
    then have k: "14 \<le> k" "k \<le> 24" by (auto simp: k_def)
    define sig where "sig = 0x00800000 OR (mag AND 0x007FFFFF)"
    have "0x00800000 AND take_bit 23 mag = 0"
      by (intro bit_word_eqI) (auto simp: bit_simps bit_8388608)
    then have "sig = 0x00800000 + take_bit 23 mag" by (simp add: sig_def mask23 disjunctive_add_eq_or)
    moreover have "unat (take_bit 23 mag) = a mod 2 ^ 23" by (simp only: unat_take ua)
    moreover have "a mod 2 ^ 23 < 2 ^ 23" by simp
    ultimately have sig: "unat sig = m" by (simp add: unat_plus_if' m_def)
    have m: "m < 2 ^ 24" by (simp add: m_def)
    have sh: "unat (126 - drop_bit 23 mag) = k"
      using er e[folded e_def] by (subst unat_sub) (simp_all add: word_le_nat_alt k_def)
    have q: "unat (drop_bit k sig) = m div 2 ^ k" by (simp only: unat_drop sig)
    have rem: "unat (sig AND (push_bit k 1 - 1)) = m mod 2 ^ k" by (simp only: mask_shift unat_take sig)
    have half: "unat (push_bit (k - 1) 1 :: 32 word) = 2 ^ (k - 1)"
      using k by (simp add: push_bit_eq_mult unat_pow2)
    have up: "(sig AND (push_bit k 1 - 1) > push_bit (k - 1) 1 \<or>
        sig AND (push_bit k 1 - 1) = push_bit (k - 1) 1 \<and> drop_bit k sig AND 1 \<noteq> 0) \<longleftrightarrow>
      2 ^ k < 2 * (m mod 2 ^ k) \<or> 2 ^ k = 2 * (m mod 2 ^ k) \<and> odd (m div 2 ^ k)"
    proof -
      have "drop_bit k sig AND 1 \<noteq> 0 \<longleftrightarrow> odd (m div 2 ^ k)"
        using q by (simp add: unat_eq_0[symmetric] and_one_eq unat_mod_distrib odd_iff_mod_2_eq_one del: unat_eq_0)
      moreover have "2 * 2 ^ (k - 1) = (2 :: nat) ^ k" using k by (cases k) simp_all
      ultimately show ?thesis by (simp only: word_less_nat_alt word_unat_eq_iff rem half) linarith
    qed
    have "m < 1024 * 2 ^ 14" using m by simp
    also have "\<dots> \<le> 1024 * 2 ^ k" using k(1) by (intro mult_left_mono power_increasing) simp_all
    finally have le: "round_shift k m \<le> 1024" by (rule round_shift_le)
    let ?b = "if 2 ^ k < 2 * (m mod 2 ^ k) \<or> 2 ^ k = 2 * (m mod 2 ^ k) \<and> odd (m div 2 ^ k) then 1 else 0"
    have "unat (drop_bit k sig + ?b) = round_shift k m"
      using le q by (auto simp: round_shift_def unat_plus_if')
    then have v: "unat (ucast (drop_bit k sig + ?b) :: 16 word) = round_shift k m"
      using unat_narrow[of "drop_bit k sig + ?b"] le by simp
    have f: "fp16_mag a = round_shift k m" using 3 by (simp add: fp16_mag_def m_def k_def e_def)
    have c': "mag \<ge> 0x47800000 \<longleftrightarrow> False" "drop_bit 23 mag \<ge> 113 \<longleftrightarrow> False" "drop_bit 23 mag \<ge> 102 \<longleftrightarrow> True"
      using 3 by (simp_all add: c)
    have "Fp32BitsToFp16BitsRne w = (if bit w 31 then 0x8000 else 0) OR ucast (drop_bit k sig + ?b)"
      unfolding Fp32BitsToFp16BitsRne_def sign_bit mask31 mag_def[symmetric] Let_def c' sig_def[symmetric] sh up
      using c(1) by simp
    then show ?thesis
      unfolding a_def[symmetric] f using unat_sign_or[of "ucast (drop_bit k sig + ?b)" "bit w 31"] v le by simp
  next
    case 4
    then show ?thesis unfolding a_def[symmetric] using unat_sign_or[of 0 "bit w 31"] by (simp add: unf fp16_mag_def)
  qed
qed

section \<open>Values, and rounding to nearest even\<close>

text \<open>
  The magnitudes as integers: of an FP32 pattern in units of \<open>2 ^ -149\<close>, of an FP16 pattern in
  units of \<open>2 ^ -24\<close>. Pattern \<open>0x7C00\<close>, infinity, has the value \<open>2 ^ 16\<close> that its exponent
  would denote: it is where finite values round to when the format runs out.
\<close>

definition fp32_value :: "nat \<Rightarrow> nat" where
  "fp32_value a = (if a < 2 ^ 23 then a else (2 ^ 23 + a mod 2 ^ 23) * 2 ^ (a div 2 ^ 23 - 1))"

definition fp16_value :: "nat \<Rightarrow> nat" where
  "fp16_value h = (if h < 2 ^ 10 then h else (2 ^ 10 + h mod 2 ^ 10) * 2 ^ (h div 2 ^ 10 - 1))"

definition distance :: "nat \<Rightarrow> nat \<Rightarrow> nat" where
  "distance x y = (if x \<le> y then y - x else x - y)"

text \<open>\<open>h\<close> is nearest to \<open>x\<close> on the grid \<open>f\<close>, and even if another point is as near.\<close>

definition nearest_even :: "(nat \<Rightarrow> nat) \<Rightarrow> nat \<Rightarrow> nat \<Rightarrow> bool" where
  "nearest_even f x h \<longleftrightarrow>
     (\<forall>h'. distance x (f h) \<le> distance x (f h') \<and> (h' \<noteq> h \<and> distance x (f h') = distance x (f h) \<longrightarrow> even h))"

lemma nearest_even_neighbours:
  assumes step: "\<And>h. f h < f (Suc h)" and q: "f q \<le> x" "x < f (Suc q)"
    and h: "h = (if f (Suc q) - f q < 2 * (x - f q) \<or> f (Suc q) - f q = 2 * (x - f q) \<and> odd q then Suc q else q)"
  shows "nearest_even f x h"
  unfolding nearest_even_def
proof
  fix h'
  have mono: "f a \<le> f b" if "a \<le> b" for a b
    using that step by (metis less_imp_le lift_Suc_mono_le)
  have smono: "f a < f b" if "a < b" for a b
    by (rule lift_Suc_mono_less[of f, OF step that])
  have "(h' < q \<and> f h' < f q) \<or> h' = q \<or> h' = Suc q \<or> (Suc q < h' \<and> f (Suc q) < f h')"
    using smono by (metis linorder_neqE_nat not_less_eq)
  then show "distance x (f h) \<le> distance x (f h') \<and> (h' \<noteq> h \<and> distance x (f h') = distance x (f h) \<longrightarrow> even h)"
    using q h by (auto simp: distance_def)
qed

lemma fp16_value_Suc: "fp16_value (Suc h) = fp16_value h + 2 ^ (h div 2 ^ 10 - 1)"
proof (cases "h < 2 ^ 10")
  case True
  show ?thesis
  proof (cases "h = 1023")
    case False
    then have "Suc h < 1024" using True by simp
    then show ?thesis using True by (simp add: fp16_value_def)
  qed (simp add: fp16_value_def)
next
  case False
  define q where "q = h div 2 ^ 10"
  define r where "r = h mod 2 ^ 10"
  have h: "h = q * 1024 + r" and r: "r < 1024" by (simp_all add: q_def r_def)
  have q: "1 \<le> q" using False by (simp add: q_def less_eq_div_iff_mult_less_eq)
  show ?thesis
  proof (cases "r = 1023")
    case True
    then have "Suc h = (q + 1) * 1024" using h by simp
    then have "fp16_value (Suc h) = 1024 * 2 ^ q" using q by (simp add: fp16_value_def)
    moreover have "fp16_value h = 2047 * 2 ^ (q - 1)" using h True q False by (simp add: fp16_value_def)
    moreover have "(2 :: nat) ^ q = 2 * 2 ^ (q - 1)" using q by (cases q) simp_all
    ultimately show ?thesis by (simp add: q_def)
  next
    case f: False
    then have "Suc h = q * 1024 + (r + 1)" "r + 1 < 1024" using h r by simp_all
    then have "Suc h div 1024 = q" "Suc h mod 1024 = r + 1" by (simp_all only: div_mult_self3 mod_mult_self3) simp_all
    then show ?thesis using False q_def r_def by (simp add: fp16_value_def algebra_simps)
  qed
qed

text \<open>Rounding away the low \<open>k\<close> bits of a significand, in units of \<open>u\<close>, is rounding to nearest.\<close>

lemma nearest_even_shift:
  assumes step: "\<And>h. f h < f (Suc h)" and u: "0 < (u :: nat)" and x: "x = n * u"
    and q: "f q = n div 2 ^ k * 2 ^ k * u" "f (Suc q) = f q + 2 ^ k * u"
  shows "nearest_even f x (q + (if 2 ^ k < 2 * (n mod 2 ^ k) \<or> 2 ^ k = 2 * (n mod 2 ^ k) \<and> odd q then 1 else 0))"
proof (rule nearest_even_neighbours[of f q, OF step])
  have n: "n * u = n div 2 ^ k * 2 ^ k * u + n mod 2 ^ k * u"
    by (metis add_mult_distrib div_mult_mod_eq)
  show "f q \<le> x" using n q(1) x by simp
  show "x < f (Suc q)" using n q x u by simp
  have "x - f q = n mod 2 ^ k * u" "f (Suc q) - f q = 2 ^ k * u" using n q x by simp_all
  then have "f (Suc q) - f q < 2 * (x - f q) \<longleftrightarrow> 2 ^ k < 2 * (n mod 2 ^ k)" "f (Suc q) - f q = 2 * (x - f q) \<longleftrightarrow> 2 ^ k = 2 * (n mod 2 ^ k)"
    using u by (simp_all add: mult.assoc[symmetric])
  then show "q + (if 2 ^ k < 2 * (n mod 2 ^ k) \<or> 2 ^ k = 2 * (n mod 2 ^ k) \<and> odd q then 1 else 0) =
    (if f (Suc q) - f q < 2 * (x - f q) \<or> f (Suc q) - f q = 2 * (x - f q) \<and> odd q then Suc q else q)" by simp
qed

lemma fp16_mag_nearest:
  assumes "a < 0x47800000"
  shows "nearest_even (\<lambda>h. fp16_value h * 2 ^ 125) (fp32_value a) (fp16_mag a)"
proof -
  let ?f = "\<lambda>h. fp16_value h * 2 ^ 125"
  have step: "?f h < ?f (Suc h)" for h by (simp add: fp16_value_Suc)
  define e where "e = a div 2 ^ 23"
  define r where "r = a mod 2 ^ 23"
  have a: "a = e * 2 ^ 23 + r" and r: "r < 2 ^ 23" by (simp_all add: e_def r_def)
  have x: "fp32_value a = (2 ^ 23 + r) * 2 ^ (e - 1)" if "1 \<le> e"
  proof -
    have "\<not> a < 2 ^ 23" using that a by simp
    then show ?thesis by (simp add: fp32_value_def e_def r_def)
  qed
  consider "113 \<le> e" "e < 143" | "102 \<le> e" "e < 113" | "e < 102"
    using assms a r by fastforce
  then show ?thesis
  proof cases
    case 1
    define d where "d = e - 112"
    define q where "q = (a - 112 * 2 ^ 23) div 2 ^ 13"
    have d: "1 \<le> d" "e - 1 = d + 111" using 1 by (simp_all add: d_def)
    have n: "a - 112 * 2 ^ 23 = d * 2 ^ 23 + r" using a 1 by (simp add: d_def diff_mult_distrib)
    have q: "q = d * 2 ^ 10 + r div 2 ^ 13" unfolding q_def n by simp
    have rq: "r div 2 ^ 13 < 2 ^ 10" using r by (simp add: div_less_iff_less_mult)
    have qd: "q div 2 ^ 10 = d" "q mod 2 ^ 10 = r div 2 ^ 13" using q rq by simp_all
    have lo: "(a - 112 * 2 ^ 23) mod 2 ^ 13 = (2 ^ 23 + r) mod 2 ^ 13"
      unfolding n using mod_mult_self1[of r "d * 2 ^ 10" "2 ^ 13"] mod_mult_self1[of r "2 ^ 10" "2 ^ 13"] by (simp add: ac_simps)
    have "\<not> q < 2 ^ 10" using q d by simp
    then have v: "fp16_value q = (2 ^ 10 + r div 2 ^ 13) * 2 ^ (d - 1)" by (simp only: fp16_value_def qd if_False)
    have w: "(2 ^ 23 + r) div 2 ^ 13 = 2 ^ 10 + r div 2 ^ 13" by simp
    have p: "2 ^ (d - 1) * 2 ^ 125 = 2 ^ 13 * (2 :: nat) ^ (d + 111)"
      unfolding power_add[symmetric] using d by (intro arg_cong[of _ _ "\<lambda>n. 2 ^ n"]) simp
    have f: "?f q = (2 ^ 23 + r) div 2 ^ 13 * 2 ^ 13 * 2 ^ (d + 111)" by (simp only: v w mult.assoc p)
    have s: "?f (Suc q) = ?f q + 2 ^ 13 * 2 ^ (d + 111)"
      unfolding fp16_value_Suc qd p[symmetric] by (simp add: add_mult_distrib)
    have "fp16_mag a = q + (if 2 ^ 13 < 2 * ((2 ^ 23 + r) mod 2 ^ 13) \<or> 2 ^ 13 = 2 * ((2 ^ 23 + r) mod 2 ^ 13) \<and> odd q then 1 else 0)"
    proof -
      have "113 * 2 ^ 23 \<le> a" using 1 a by simp
      then show ?thesis using assms unfolding fp16_mag_def round_shift_def lo q_def[symmetric] by simp
    qed
    moreover have "fp32_value a = (2 ^ 23 + r) * 2 ^ (d + 111)" using x d 1 by simp
    ultimately show ?thesis using nearest_even_shift[of ?f, OF step _ _ f s] by simp
  next
    case 2
    define k where "k = 126 - e"
    define q where "q = (2 ^ 23 + r) div 2 ^ k"
    have k: "14 \<le> k" "125 = k + (e - 1)" using 2 by (simp_all add: k_def)
    have "(2 ^ 23 + r) < 2 ^ 10 * 2 ^ 14" using r by simp
    also have "\<dots> \<le> 2 ^ 10 * 2 ^ k" using k(1) by (intro mult_left_mono power_increasing) simp_all
    finally have q: "q < 2 ^ 10" by (simp add: q_def less_mult_imp_div_less)
    have p: "(2 :: nat) ^ 125 = 2 ^ k * 2 ^ (e - 1)" by (simp only: k(2) power_add)
    have f: "?f q = (2 ^ 23 + r) div 2 ^ k * 2 ^ k * 2 ^ (e - 1)"
    proof -
      have v: "fp16_value q = q" using q by (simp add: fp16_value_def)
      show ?thesis by (simp only: v p q_def[symmetric] mult.assoc)
    qed
    have s: "?f (Suc q) = ?f q + 2 ^ k * 2 ^ (e - 1)"
    proof -
      have "q div 2 ^ 10 = 0" using q by (simp only: div_less)
      then show ?thesis unfolding p[symmetric] by (simp only: fp16_value_Suc) simp
    qed
    have "fp16_mag a = q + (if 2 ^ k < 2 * ((2 ^ 23 + r) mod 2 ^ k) \<or> 2 ^ k = 2 * ((2 ^ 23 + r) mod 2 ^ k) \<and> odd q then 1 else 0)"
    proof -
      have "102 * 2 ^ 23 \<le> a" "a < 113 * 2 ^ 23" using 2 a r by simp_all
      then show ?thesis unfolding fp16_mag_def round_shift_def k_def q_def r_def e_def by simp
    qed
    then show ?thesis using nearest_even_shift[of ?f, OF step _ x f s] 2 by simp
  next
    case 3
    have "fp32_value a < 2 ^ 24 * 2 ^ 100"
    proof (cases "1 \<le> e")
      case True
      have "(2 ^ 23 + r) * 2 ^ (e - 1) \<le> (2 ^ 23 + r) * 2 ^ 100" using 3 by (intro mult_left_mono power_increasing) simp_all
      also have "\<dots> < 2 ^ 24 * 2 ^ 100" using r by simp
      finally show ?thesis using x[OF True] by simp
    next
      case False
      then show ?thesis using a r by (simp add: fp32_value_def)
    qed
    moreover have "fp16_mag a = 0" using 3 a r by (simp add: fp16_mag_def)
    ultimately show ?thesis
      by (intro nearest_even_neighbours[of ?f 0, OF step]) (simp_all add: fp16_value_def)
  qed
qed

section \<open>Properties of the scalar conversion\<close>

lemma split_sign:
  assumes "unat (r :: 16 word) = (if s then 2 ^ 15 else 0) + h" and "h < 2 ^ 15"
  shows "unat r mod 2 ^ 15 = h" and "bit r 15 \<longleftrightarrow> s"
proof -
  show "unat r mod 2 ^ 15 = h" using assms by auto
  have "(32768 + h) div 32768 = Suc (h div 32768)" using div_add_self1[of 32768 h] by simp
  then have "bit (unat r) 15 \<longleftrightarrow> s" using assms by (auto simp: bit_iff_odd)
  then show "bit r 15 \<longleftrightarrow> s" by (simp add: bit_unsigned_iff)
qed

lemma fp16_mag_finite: "a < 0x477FE000 \<Longrightarrow> fp16_mag a < 0x7C00"
proof -
  assume a: "a < 0x477FE000"
  show ?thesis
  proof (cases "a \<ge> 113 * 2 ^ 23")
    case True
    then have "round_shift 13 (a - 112 * 2 ^ 23) \<le> 0x7BFF" using a by (intro round_shift_le) simp
    then show ?thesis using True a by (simp add: fp16_mag_def)
  next
    case False
    have e: "a div 2 ^ 23 < 113" using False by (simp add: div_less_iff_less_mult)
    have "2 ^ 23 + a mod 2 ^ 23 < 2 ^ 11 * (2 :: nat) ^ 13" by simp
    also have "\<dots> \<le> 2 ^ 11 * 2 ^ (126 - a div 2 ^ 23)" using e by (intro mult_left_mono power_increasing) simp_all
    finally have "round_shift (126 - a div 2 ^ 23) (2 ^ 23 + a mod 2 ^ 23) \<le> 2 ^ 11" by (rule round_shift_le)
    then show ?thesis using False a by (simp add: fp16_mag_def)
  qed
qed

lemma Rne_nan:
  assumes "unat w mod 2 ^ 31 > 0x7F800000"
  shows "unat (Fp32BitsToFp16BitsRne w) = (if bit w 31 then 2 ^ 15 else 0) + 0x7E00"
proof -
  have "unat (take_bit 31 w) = unat w mod 2 ^ 31" by (rule unat_take)
  then have "w AND 0x7FFFFFFF > 0x7F800000" unfolding mask31 word_less_nat_alt using assms by simp
  then have "Fp32BitsToFp16BitsRne w = (if bit w 31 then 0x8000 else 0) OR 0x7E00"
    unfolding Fp32BitsToFp16BitsRne_def sign_bit Let_def by simp
  then show ?thesis using unat_sign_or[of "0x7E00" "bit w 31"] by simp
qed

lemma fp16_mag_large: "0x47800000 \<le> a \<Longrightarrow> fp16_mag a = 0x7C00"
  by (simp add: fp16_mag_def)

lemma fp16_mag_le: "fp16_mag a \<le> 0x7C00"
proof -
  consider "a < 0x477FE000" | "0x477FE000 \<le> a" "a < 0x47800000" | "0x47800000 \<le> a" by linarith
  then show ?thesis
  proof cases
    case 2
    then have "round_shift 13 (a - 112 * 2 ^ 23) \<le> 0x7C00" by (intro round_shift_le) simp
    then show ?thesis using 2 by (simp add: fp16_mag_def)
  qed (use fp16_mag_finite[of a] fp16_mag_large[of a] in simp_all)
qed

text \<open>
  C23: FP32 to FP16 is rounding to nearest even. For every one of the \<open>2 ^ 32\<close> patterns the sign
  bit is kept; a NaN becomes the quiet NaN \<open>0x7E00\<close>; a magnitude of at least \<open>2 ^ 16\<close> becomes
  infinity; and any other magnitude becomes the nearest point of the FP16 grid, the even one on a
  tie, subnormal results included.
\<close>

theorem fp32_to_fp16_nearest_even:
  "let a = unat w mod 2 ^ 31; r = Fp32BitsToFp16BitsRne w; h = unat r mod 2 ^ 15 in
     (bit r 15 \<longleftrightarrow> bit w 31) \<and>
     (if 0x7F800000 < a then h = 0x7E00
      else if 0x47800000 \<le> a then h = 0x7C00
      else h \<le> 0x7C00 \<and> nearest_even (\<lambda>h. fp16_value h * 2 ^ 125) (fp32_value a) h)"
proof (cases "0x7F800000 < unat w mod 2 ^ 31")
  case True
  then show ?thesis using split_sign[OF Rne_nan[OF True]] by (simp add: Let_def)
next
  case False
  let ?a = "unat w mod 2 ^ 31"
  have h: "fp16_mag ?a < 2 ^ 15" using fp16_mag_le[of ?a] by simp
  have s: "unat (Fp32BitsToFp16BitsRne w) mod 2 ^ 15 = fp16_mag ?a" "bit (Fp32BitsToFp16BitsRne w) 15 \<longleftrightarrow> bit w 31"
    using split_sign[OF Rne_unat h] False by simp_all
  show ?thesis
    unfolding Let_def s using False fp16_mag_nearest[of ?a] fp16_mag_le[of ?a] fp16_mag_large[of ?a] by simp
qed

lemma Bf16_magnitude:
  "unat (Bf16BitsToFp32Bits b) mod 2 ^ 31 = (unat b mod 2 ^ 15) * 2 ^ 16" "bit (Bf16BitsToFp32Bits b) 31 = bit b 15"
proof -
  have u: "unat b < 2 ^ 16" using unsigned_less[of b] by simp
  have "unat (ucast b :: 32 word) = unat b" using u by (simp add: unsigned_ucast_eq take_bit_nat_eq_self)
  then have "unat (Bf16BitsToFp32Bits b) = unat b * 2 ^ 16"
    using u by (simp add: Bf16BitsToFp32Bits_def push_bit_eq_mult unat_word_ariths)
  then show "unat (Bf16BitsToFp32Bits b) mod 2 ^ 31 = (unat b mod 2 ^ 15) * 2 ^ 16"
    using mult_mod_left[of "unat b" "2 ^ 15" "2 ^ 16"] by simp
  show "bit (Bf16BitsToFp32Bits b) 31 = bit b 15" by (simp add: Bf16BitsToFp32Bits_def bit_simps)
qed

section \<open>Checked conversion\<close>

type_synonym memory = "nat \<Rightarrow> 8 word"

datatype convert_error =
    Fp16Overflow string nat "16 word"
  | ConvertError string

text \<open>A \<^verbatim>\<open>memcpy\<close> of two bytes on a little-endian host.\<close>

definition load16 :: "memory \<Rightarrow> nat \<Rightarrow> 16 word" where
  "load16 src i = ucast (src (2 * i)) OR push_bit 8 (ucast (src (2 * i + 1)))"

definition ConvertBf16ToFp16 :: "memory \<Rightarrow> nat \<Rightarrow> string \<Rightarrow> nat \<Rightarrow> convert_error + 16 word list" where
  "ConvertBf16ToFp16 src n tensor_name index_base =
     foldE (\<lambda>dst i.
       let bf16 = load16 src i in
       if Bf16OverflowsFp16 bf16 then Inl (Fp16Overflow tensor_name (index_base + i) bf16)
       else Inr (dst @ [Bf16BitsToFp16BitsRne bf16])) [0..<n] []"

lemma ConvertBf16ToFp16_eq:
  "ConvertBf16ToFp16 src n name base =
     (case find (\<lambda>i. Bf16OverflowsFp16 (load16 src i)) [0..<n] of
        None \<Rightarrow> Inr (map (\<lambda>i. Bf16BitsToFp16BitsRne (load16 src i)) [0..<n])
      | Some i \<Rightarrow> Inl (Fp16Overflow name (base + i) (load16 src i)))"
proof -
  have "foldE (\<lambda>dst i. let bf16 = load16 src i in
       if Bf16OverflowsFp16 bf16 then Inl (Fp16Overflow name (base + i) bf16)
       else Inr (dst @ [Bf16BitsToFp16BitsRne bf16])) xs dst =
     (case find (\<lambda>i. Bf16OverflowsFp16 (load16 src i)) xs of
        None \<Rightarrow> Inr (dst @ map (\<lambda>i. Bf16BitsToFp16BitsRne (load16 src i)) xs)
      | Some i \<Rightarrow> Inl (Fp16Overflow name (base + i) (load16 src i)))" for xs dst
    by (induction xs arbitrary: dst) (auto simp: Let_def split: option.splits)
  then show ?thesis by (simp add: ConvertBf16ToFp16_def split: option.splits)
qed

lemma overflow_unat: "Bf16OverflowsFp16 b \<longleftrightarrow> 0x4780 \<le> unat b mod 2 ^ 15 \<and> unat b mod 2 ^ 15 \<le> 0x7F80"
  unfolding Bf16OverflowsFp16_def Let_def mask15 word_le_nat_alt unat_take by simp

lemma fp32_value_mono: "a \<le> b \<Longrightarrow> fp32_value a \<le> fp32_value b"
proof (rule lift_Suc_mono_le[of fp32_value])
  fix n
  show "fp32_value n \<le> fp32_value (Suc n)"
  proof (cases "Suc n < 2 ^ 23")
    case False
    define e where "e = Suc n div 2 ^ 23"
    have e: "1 \<le> e" using False by (simp add: e_def less_eq_div_iff_mult_less_eq)
    have S: "fp32_value (Suc n) = (2 ^ 23 + Suc n mod 2 ^ 23) * 2 ^ (e - 1)" using False by (simp add: fp32_value_def e_def)
    show ?thesis
    proof (cases "Suc n mod 2 ^ 23 = 0")
      case True
      then have n: "n = (e - 1) * 2 ^ 23 + (2 ^ 23 - 1)" using e_def e by auto
      show ?thesis
      proof (cases "e = 1")
        case True
        then show ?thesis using n S by (simp add: fp32_value_def)
      next
        case f: False
        have "(2 ^ 23 + (2 ^ 23 - 1)) * 2 ^ (e - 1 - 1) \<le> 2 ^ 24 * (2 :: nat) ^ (e - 1 - 1)" by simp
        also have "\<dots> = 2 ^ 23 * 2 ^ (e - 1)" using e f by (cases "e - 1") simp_all
        moreover have "n div 2 ^ 23 = e - 1" "n mod 2 ^ 23 = 2 ^ 23 - 1" using n by simp_all
        moreover have "\<not> n < 2 ^ 23" using n e f by simp
        ultimately show ?thesis unfolding S True by (simp add: fp32_value_def)
      qed
    next
      case nz: False
      then have "Suc n mod 2 ^ 23 = Suc (n mod 2 ^ 23)" by (metis mod_Suc)
      moreover from this have "n div 2 ^ 23 = e" unfolding e_def by (metis div_Suc nz)
      ultimately show ?thesis using S e by (auto simp: fp32_value_def)
    qed
  qed (simp add: fp32_value_def)
qed

lemma overflow_value:
  "Bf16OverflowsFp16 b \<longleftrightarrow>
     unat (Bf16BitsToFp32Bits b) mod 2 ^ 31 \<le> 0x7F800000 \<and>
     65504 * 2 ^ 149 < fp32_value (unat (Bf16BitsToFp32Bits b) mod 2 ^ 31)"
proof -
  define m where "m = unat b mod 2 ^ 15"
  have "fp32_value (m * 2 ^ 16) \<le> fp32_value 0x477F0000" if "m < 0x4780" using that by (intro fp32_value_mono) simp
  moreover have "fp32_value 0x47800000 \<le> fp32_value (m * 2 ^ 16)" if "0x4780 \<le> m" using that by (intro fp32_value_mono) simp
  moreover have "fp32_value 0x477F0000 = 65280 * 2 ^ 149" "fp32_value 0x47800000 = 65536 * 2 ^ 149" by (simp_all add: fp32_value_def)
  ultimately have "65504 * 2 ^ 149 < fp32_value (m * 2 ^ 16) \<longleftrightarrow> 0x4780 \<le> m" by (cases "m < 0x4780") simp_all
  moreover have "m * 2 ^ 16 \<le> 0x7F800000 \<longleftrightarrow> m \<le> 0x7F80" by simp
  ultimately show ?thesis unfolding overflow_unat Bf16_magnitude(1) m_def[symmetric] by blast
qed

lemma no_overflow_finite: "\<not> (\<not> Bf16OverflowsFp16 b \<and> IsInfFp16Bits (Bf16BitsToFp16BitsRne b))"
proof
  assume a: "\<not> Bf16OverflowsFp16 b \<and> IsInfFp16Bits (Bf16BitsToFp16BitsRne b)"
  let ?w = "Bf16BitsToFp32Bits b" and ?m = "unat b mod 2 ^ 15"
  have "unat (Bf16BitsToFp16BitsRne b AND 0x7FFF) = 0x7C00" using a by (simp add: IsInfFp16Bits_def)
  then have inf: "unat (Fp32BitsToFp16BitsRne ?w) mod 2 ^ 15 = 0x7C00"
    unfolding Bf16BitsToFp16BitsRne_def mask15 unat_take .
  have mag: "unat ?w mod 2 ^ 31 = ?m * 2 ^ 16" by (rule Bf16_magnitude)
  consider "?m < 0x4780" | "0x7F80 < ?m" using a by (auto simp: overflow_unat)
  then show False
  proof cases
    case 1
    then have f: "fp16_mag (unat ?w mod 2 ^ 31) < 0x7C00" unfolding mag by (intro fp16_mag_finite) simp
    have "unat ?w mod 2 ^ 31 \<le> 0x7F800000" unfolding mag using 1 by simp
    from split_sign(1)[OF Rne_unat[OF this]] f inf show False by simp
  next
    case 2
    have "unat ?w mod 2 ^ 31 > 0x7F800000" unfolding mag using 2 by simp
    from split_sign(1)[OF Rne_nan[OF this]] inf show False by simp
  qed
qed

text \<open>
  The checked conversion. \<open>ConvertBf16ToFp16\<close> returns the converted elements, or throws for
  the first element that overflows, with its absolute index and its bits; an element overflows
  exactly when it is not a NaN and its magnitude exceeds 65504; and an element that does not
  overflow never converts to an infinity.
\<close>

theorem convert_checked:
  "ConvertBf16ToFp16 src n name base =
     (case find (\<lambda>i. Bf16OverflowsFp16 (load16 src i)) [0..<n] of
        None \<Rightarrow> Inr (map (\<lambda>i. Bf16BitsToFp16BitsRne (load16 src i)) [0..<n])
      | Some i \<Rightarrow> Inl (Fp16Overflow name (base + i) (load16 src i))) \<and>
   (Bf16OverflowsFp16 b \<longleftrightarrow>
     unat (Bf16BitsToFp32Bits b) mod 2 ^ 31 \<le> 0x7F800000 \<and>
     65504 * 2 ^ 149 < fp32_value (unat (Bf16BitsToFp32Bits b) mod 2 ^ 31)) \<and>
   \<not> (\<not> Bf16OverflowsFp16 b \<and> IsInfFp16Bits (Bf16BitsToFp16BitsRne b))"
  using ConvertBf16ToFp16_eq overflow_value no_overflow_finite by blast

end
