(* ===== verification/Loops.thy ===== *)
theory Loops
  imports Prelude
begin

text \<open>
  Loops with a stride: \<^verbatim>\<open>for (i = begin; i < bound; i += stride)\<close>, the chunk loop of the
  staged upload and the loops of the device kernels, in which each thread of a block takes every
  \<open>stride\<close>-th index.
\<close>

function strided :: "nat \<Rightarrow> nat \<Rightarrow> nat \<Rightarrow> nat list" where
  "strided stride bound i =
     (if i < bound \<and> 0 < stride then i # strided stride bound (i + stride) else [])"
  by pat_completeness auto
termination
  by (relation "measure (\<lambda>(stride, bound, i). bound - i)") auto

declare strided.simps [simp del]

lemma strided_step: "i < bound \<Longrightarrow> 0 < stride \<Longrightarrow> strided stride bound i = i # strided stride bound (i + stride)"
  by (subst strided.simps) simp

lemma strided_done: "\<not> i < bound \<Longrightarrow> strided stride bound i = []"
  by (subst strided.simps) simp

lemma strided_ge: "w \<in> set (strided stride bound i) \<Longrightarrow> i \<le> w"
proof (induction stride bound i rule: strided.induct)
  case (1 stride bound i)
  show ?case
  proof (cases "i < bound \<and> 0 < stride")
    case True
    then show ?thesis using 1 by (auto simp: strided_step)
  qed (use 1 in \<open>auto simp: strided.simps[of stride bound i]\<close>)
qed

lemma dvd_step: "0 < s \<Longrightarrow> (i + s \<le> w \<and> s dvd w - (i + s)) \<longleftrightarrow> (i < w \<and> s dvd w - i)" for s w i :: nat
proof
  assume s: "0 < s" and a: "i + s \<le> w \<and> s dvd w - (i + s)"
  then have "w - i = s + (w - (i + s))" by simp
  then show "i < w \<and> s dvd w - i" using a s by (metis dvd_add_triv_left_iff add_gr_0 zero_less_diff)
next
  assume s: "0 < s" and a: "i < w \<and> s dvd w - i"
  then have "s \<le> w - i" by (simp add: dvd_imp_le)
  moreover have "w - (i + s) = (w - i) - s" by simp
  ultimately show "i + s \<le> w \<and> s dvd w - (i + s)" using a by (metis dvd_diff_nat dvd_refl le_diff_conv2 less_imp_le_nat add.commute)
qed

lemma set_strided: "0 < stride \<Longrightarrow> w \<in> set (strided stride bound i) \<longleftrightarrow> i \<le> w \<and> w < bound \<and> stride dvd w - i"
proof (induction stride bound i rule: strided.induct)
  case (1 stride bound i)
  show ?case
  proof (cases "i < bound")
    case True
    have "w \<in> set (strided stride bound (i + stride)) \<longleftrightarrow> w < bound \<and> (i < w \<and> stride dvd w - i)"
      using 1 True dvd_step[OF "1.prems"] by blast
    then show ?thesis using True by (auto simp: strided_step[OF True "1.prems"] le_less)
  qed (auto simp: strided_done)
qed

lemma distinct_strided: "distinct (strided stride bound i)"
proof (induction stride bound i rule: strided.induct)
  case (1 stride bound i)
  show ?case
  proof (cases "i < bound \<and> 0 < stride")
    case True
    have "i \<notin> set (strided stride bound (i + stride))" using strided_ge[of i stride bound "i + stride"] True by auto
    then show ?thesis using 1 True by (simp add: strided_step)
  next
    case False
    then have "strided stride bound i = []" by (subst strided.simps) auto
    then show ?thesis by simp
  qed
qed

text \<open>The threads of a block share the indices of a strided loop: each index belongs to one thread.\<close>

lemma strided_mod: "0 < stride \<Longrightarrow> i < stride \<Longrightarrow> w \<in> set (strided stride bound i) \<longleftrightarrow> w < bound \<and> w mod stride = i"
proof -
  assume s: "0 < stride" "i < stride"
  have "i \<le> w \<and> stride dvd w - i \<longleftrightarrow> w mod stride = i"
  proof
    assume a: "i \<le> w \<and> stride dvd w - i"
    then obtain q where "w - i = stride * q" by (elim conjE dvdE)
    then have "w = i + stride * q" using a by simp
    then show "w mod stride = i" using s by simp
  next
    assume "w mod stride = i"
    then show "i \<le> w \<and> stride dvd w - i" by (metis mod_less_eq_dividend dvd_minus_mod)
  qed
  then show ?thesis using set_strided[OF s(1)] by auto
qed

lemma distinct_concat_map:
  "distinct xs \<Longrightarrow> (\<And>x. x \<in> set xs \<Longrightarrow> distinct (f x)) \<Longrightarrow>
   (\<And>x y. x \<in> set xs \<Longrightarrow> y \<in> set xs \<Longrightarrow> x \<noteq> y \<Longrightarrow> set (f x) \<inter> set (f y) = {}) \<Longrightarrow> distinct (concat (map f xs))"
proof (induction xs)
  case (Cons x xs)
  have "set (f x) \<inter> (\<Union>y\<in>set xs. set (f y)) = {}"
  proof -
    have "set (f x) \<inter> set (f y) = {}" if "y \<in> set xs" for y using Cons.prems(1) Cons.prems(3)[of x y] that by auto
    then show ?thesis by blast
  qed
  then show ?case using Cons by simp
qed simp

definition block_indices :: "nat \<Rightarrow> nat \<Rightarrow> nat list" where
  "block_indices threads bound = concat (map (strided threads bound) [0..<threads])"

lemma set_block_indices: "0 < threads \<Longrightarrow> set (block_indices threads bound) = {0..<bound}"
  using strided_mod[of threads] by (auto simp: block_indices_def)

lemma distinct_block_indices: "distinct (block_indices threads bound)"
proof (cases "0 < threads")
  case True
  show ?thesis unfolding block_indices_def
  proof (rule distinct_concat_map)
    fix i j
    assume "i \<in> set [0..<threads]" "j \<in> set [0..<threads]" "i \<noteq> j"
    then show "set (strided threads bound i) \<inter> set (strided threads bound j) = {}"
      using strided_mod[OF True] by auto
  qed (simp_all add: distinct_strided)
qed (simp add: block_indices_def)

end
