(* ===== verification/Upload.thy ===== *)
theory Upload
  imports Convert Loops
begin

text \<open>
  The staged upload of \<^verbatim>\<open>src/src/loader/convert.cpp\<close>: tensors stream through a pinned buffer of
  two slots while the DMA engine copies out of it.

  The CUDA stream is the list of work that was issued and not yet executed: one item per copied
  element, and event records. The copy engine runs concurrently: between any two host actions it
  executes as many items as the parameter \<open>dma\<close> says for that instant, and
  \<^verbatim>\<open>cudaEventSynchronize\<close> executes up to the last record of the event. Copies read the staging
  buffer when they execute, not when they are issued. The parameter \<open>ok\<close> tells which runtime
  calls succeed. Staging and device memory hold FP16 elements at even byte addresses.
\<close>

section \<open>Streams\<close>

datatype work = Move nat nat | Event nat

record StagedUploader =
  slot_bytes :: nat
  staging :: "nat \<Rightarrow> 16 word"
  slot_pending :: "nat \<Rightarrow> bool"
  next_slot :: nat
  stream :: "work list"
  device :: "nat \<Rightarrow> 16 word"
  clock :: nat

fun exec_work :: "(nat \<Rightarrow> 16 word) \<Rightarrow> work list \<Rightarrow> (nat \<Rightarrow> 16 word) \<Rightarrow> (nat \<Rightarrow> 16 word)" where
  "exec_work st [] d = d"
| "exec_work st (Move src dst # ws) d = exec_work st ws (d(dst := st src))"
| "exec_work st (Event sl # ws) d = exec_work st ws d"

definition drain_work :: "nat \<Rightarrow> StagedUploader \<Rightarrow> StagedUploader" where
  "drain_work k u =
     u\<lparr>device := exec_work (staging u) (take k (stream u)) (device u), stream := drop k (stream u)\<rparr>"

text \<open>How many items lie up to and including the last record of an event.\<close>

definition until_event :: "nat \<Rightarrow> work list \<Rightarrow> nat" where
  "until_event sl ws = length ws - length (takeWhile (\<lambda>w. w \<noteq> Event sl) (rev ws))"

type_synonym 'a uploader = "(StagedUploader, convert_error, 'a) action"

definition tick :: "(nat \<Rightarrow> nat) \<Rightarrow> unit uploader" where
  "tick dma = modifyS (\<lambda>u. drain_work (dma (clock u)) (u\<lparr>clock := clock u + 1\<rparr>))"

definition CudaCheckU :: "(string \<Rightarrow> nat \<Rightarrow> bool) \<Rightarrow> string \<Rightarrow> unit uploader" where
  "CudaCheckU ok what = checkS (\<lambda>u. ok what (clock u)) (ConvertError what)"

section \<open>The uploader\<close>

definition kDefaultStagingBytes :: nat where
  "kDefaultStagingBytes = 2 ^ 25"

definition kMinStagingBytes :: nat where
  "kMinStagingBytes = 4096"

definition chunk_elements :: "StagedUploader \<Rightarrow> nat" where
  "chunk_elements u = slot_bytes u div 2"

text \<open>Construction: the pinned buffer, then the two events; the stream and the device are given.\<close>

definition new_StagedUploader ::
  "(string \<Rightarrow> nat \<Rightarrow> bool) \<Rightarrow> nat \<Rightarrow> (nat \<Rightarrow> 16 word) \<Rightarrow> (nat \<Rightarrow> 16 word) \<Rightarrow> convert_error + StagedUploader" where
  "new_StagedUploader ok staging_bytes pinned dev =
     bindE (assertE (staging_bytes \<noteq> 0) (ConvertError ''pinned staging buffer size must be non-zero'')) (\<lambda>_.
     bindE (assertE (ok ''cudaHostAlloc(staging)'' 0) (ConvertError ''cudaHostAlloc(staging)'')) (\<lambda>_.
     bindE (assertE (\<not> staging_bytes < kMinStagingBytes) (ConvertError ''staging buffer too small'')) (\<lambda>_.
     bindE (assertE (ok ''cudaEventCreateWithFlags(slot event)'' 0) (ConvertError ''cudaEventCreateWithFlags'')) (\<lambda>_.
     bindE (assertE (ok ''cudaEventCreateWithFlags(slot event)'' 1) (ConvertError ''cudaEventCreateWithFlags'')) (\<lambda>_.
     Inr \<lparr>slot_bytes = (staging_bytes div 2) div 2 * 2, staging = pinned, slot_pending = (\<lambda>_. False),
          next_slot = 0, stream = [], device = dev, clock = 0\<rparr>)))))"

definition WaitSlot :: "(string \<Rightarrow> nat \<Rightarrow> bool) \<Rightarrow> (nat \<Rightarrow> nat) \<Rightarrow> nat \<Rightarrow> unit uploader" where
  "WaitSlot ok dma sl =
     bindS (tick dma) (\<lambda>_.
     bindS (getS (\<lambda>u. slot_pending u sl)) (\<lambda>pending.
     if pending then
       bindS (CudaCheckU ok ''cudaEventSynchronize(slot event)'') (\<lambda>_.
       modifyS (\<lambda>u. (drain_work (until_event sl (stream u)) u)\<lparr>slot_pending := (slot_pending u)(sl := False)\<rparr>))
     else returnS ()))"

text \<open>Writing an element into the staging buffer; the engine may run after each.\<close>

definition stage_element :: "(nat \<Rightarrow> nat) \<Rightarrow> nat \<Rightarrow> nat \<times> 16 word \<Rightarrow> unit uploader" where
  "stage_element dma base = (\<lambda>(i, x).
     bindS (modifyS (\<lambda>u. u\<lparr>staging := (staging u)(base + 2 * i := x)\<rparr>)) (\<lambda>_. tick dma))"

definition source_chunk :: "memory \<Rightarrow> nat \<Rightarrow> Dtype \<Rightarrow> string \<Rightarrow> nat \<Rightarrow> convert_error + 16 word list" where
  "source_chunk src n src_dtype name base =
     (if src_dtype = kBF16 then ConvertBf16ToFp16 src n name base else Inr (map (load16 src) [0..<n]))"

text \<open>What the conversion has written when it meets an element it refuses.\<close>

definition converted_before :: "memory \<Rightarrow> nat \<Rightarrow> 16 word list" where
  "converted_before src n =
     map Bf16BitsToFp16BitsRne (takeWhile (\<lambda>b. \<not> Bf16OverflowsFp16 b) (map (load16 src) [0..<n]))"

definition issue_copy :: "(string \<Rightarrow> nat \<Rightarrow> bool) \<Rightarrow> (nat \<Rightarrow> nat) \<Rightarrow> nat \<Rightarrow> nat \<Rightarrow> nat \<Rightarrow> unit uploader" where
  "issue_copy ok dma base dst n =
     bindS (CudaCheckU ok ''cudaMemcpyAsync(H2D weight chunk)'') (\<lambda>_.
     bindS (modifyS (\<lambda>u. u\<lparr>stream := stream u @ map (\<lambda>i. Move (base + 2 * i) (dst + 2 * i)) [0..<n]\<rparr>)) (\<lambda>_.
     tick dma))"

definition upload_chunk ::
  "(string \<Rightarrow> nat \<Rightarrow> bool) \<Rightarrow> (nat \<Rightarrow> nat) \<Rightarrow> nat \<Rightarrow> memory \<Rightarrow> nat \<Rightarrow> Dtype \<Rightarrow> string \<Rightarrow> nat \<Rightarrow> nat \<Rightarrow> unit uploader" where
  "upload_chunk ok dma dst_device src n_total src_dtype name index_base offset =
     bindS (getS chunk_elements) (\<lambda>chunk.
     let n = min chunk (n_total - offset) in
     bindS (getS next_slot) (\<lambda>sl.
     bindS (WaitSlot ok dma sl) (\<lambda>_.
     bindS (getS (\<lambda>u. sl * slot_bytes u)) (\<lambda>stage.
     let chunk_src = (\<lambda>i. src (2 * offset + i)) in
     case source_chunk chunk_src n src_dtype name (index_base + offset) of
       Inl e \<Rightarrow>
         bindS (forS (stage_element dma stage) (enumerate 0 (converted_before chunk_src n))) (\<lambda>_. throwS e)
     | Inr xs \<Rightarrow>
         bindS (forS (stage_element dma stage) (enumerate 0 xs)) (\<lambda>_.
         bindS (issue_copy ok dma stage (dst_device + 2 * offset) n) (\<lambda>_.
         bindS (CudaCheckU ok ''cudaEventRecord(slot event)'') (\<lambda>_.
         bindS (modifyS (\<lambda>u. u\<lparr>stream := stream u @ [Event sl]\<rparr>)) (\<lambda>_.
         modifyS (\<lambda>u. u\<lparr>slot_pending := (slot_pending u)(sl := True), next_slot := 1 - sl\<rparr>))))))))) "

text \<open>The chunk loop runs over the offsets \<open>strided chunk count 0\<close>; the constructor guarantees a positive chunk.\<close>

definition Upload ::
  "(string \<Rightarrow> nat \<Rightarrow> bool) \<Rightarrow> (nat \<Rightarrow> nat) \<Rightarrow> nat \<Rightarrow> memory \<Rightarrow> nat \<Rightarrow> Dtype \<Rightarrow> string \<Rightarrow> nat \<Rightarrow> unit uploader" where
  "Upload ok dma dst_device src n_total src_dtype name index_base =
     (if src_dtype \<noteq> kBF16 \<and> src_dtype \<noteq> kF16 then throwS (ConvertError ''unsupported source dtype'')
      else
        bindS (getS chunk_elements) (\<lambda>chunk.
        forS (upload_chunk ok dma dst_device src n_total src_dtype name index_base) (strided chunk n_total 0)))"

definition Synchronize :: "(string \<Rightarrow> nat \<Rightarrow> bool) \<Rightarrow> (nat \<Rightarrow> nat) \<Rightarrow> unit uploader" where
  "Synchronize ok dma = bindS (WaitSlot ok dma 0) (\<lambda>_. WaitSlot ok dma 1)"

text \<open>Destruction waits for the slots that are in flight; a failed wait is ignored.\<close>

definition destroy_slot :: "nat \<Rightarrow> StagedUploader \<Rightarrow> StagedUploader" where
  "destroy_slot sl u = (if slot_pending u sl then drain_work (until_event sl (stream u)) u else u)"

definition destroy_StagedUploader :: "StagedUploader \<Rightarrow> StagedUploader" where
  "destroy_StagedUploader u = destroy_slot 1 (destroy_slot 0 u)"

section \<open>What the stream will leave on the device\<close>

definition final :: "StagedUploader \<Rightarrow> nat \<Rightarrow> 16 word" where
  "final u = exec_work (staging u) (stream u) (device u)"

lemma exec_work_append: "exec_work st (xs @ ys) d = exec_work st ys (exec_work st xs d)"
proof (induction xs arbitrary: d)
  case (Cons x xs)
  show ?case by (cases x) (simp_all only: append_Cons exec_work.simps Cons.IH)
qed simp

lemma final_drain [simp]: "final (drain_work k u) = final u"
  by (simp add: final_def drain_work_def exec_work_append[symmetric])

fun reads :: "work \<Rightarrow> nat set" where
  "reads (Move src dst) = {src}"
| "reads (Event sl) = {}"

lemma exec_work_cong: "(\<And>w a. w \<in> set ws \<Longrightarrow> a \<in> reads w \<Longrightarrow> st a = st' a) \<Longrightarrow> exec_work st ws d = exec_work st' ws d"
proof (induction ws arbitrary: d)
  case (Cons w ws)
  have "exec_work st ws d' = exec_work st' ws d'" for d' by (rule Cons.IH) (use Cons.prems in auto)
  then show ?case using Cons.prems[of w] by (cases w) auto
qed simp

definition slot_region :: "StagedUploader \<Rightarrow> nat \<Rightarrow> nat set" where
  "slot_region u sl = {sl * slot_bytes u..<(sl + 1) * slot_bytes u}"

lemma slot_regions_disjoint: "a \<in> slot_region u k \<Longrightarrow> a \<in> slot_region u k' \<Longrightarrow> k = k'"
proof -
  assume a: "a \<in> slot_region u k" "a \<in> slot_region u k'"
  then have "0 < slot_bytes u" by (cases "slot_bytes u") (auto simp: slot_region_def)
  with a have "a div slot_bytes u = k" "a div slot_bytes u = k'"
    by (auto simp: slot_region_def intro!: div_nat_eqI simp: mult.commute)
  then show "k = k'" by simp
qed

text \<open>
  The invariant that makes the double buffer safe: a copy still in the stream reads one of the two
  slots, and the event of that slot, marked pending, is recorded behind it. While a chunk is being
  issued, copies out of the slot \<open>current\<close> may lack their event.
\<close>

fun guarded :: "nat option \<Rightarrow> StagedUploader \<Rightarrow> work list \<Rightarrow> bool" where
  "guarded current u [] \<longleftrightarrow> True"
| "guarded current u (Event k # ws) \<longleftrightarrow> guarded current u ws"
| "guarded current u (Move src dst # ws) \<longleftrightarrow>
     (\<exists>k<2. src \<in> slot_region u k \<and> (slot_pending u k \<and> Event k \<in> set ws \<or> current = Some k)) \<and> guarded current u ws"

definition uploader_ok :: "nat option \<Rightarrow> StagedUploader \<Rightarrow> bool" where
  "uploader_ok current u \<longleftrightarrow>
     next_slot u < 2 \<and> 2 \<le> slot_bytes u \<and> even (slot_bytes u) \<and> guarded current u (stream u)"

definition free_slot :: "StagedUploader \<Rightarrow> nat \<Rightarrow> bool" where
  "free_slot u k \<longleftrightarrow> (\<forall>w\<in>set (stream u). reads w \<inter> slot_region u k = {})"

lemma guarded_drop: "guarded current u ws \<Longrightarrow> guarded current u (drop n ws)"
proof (induction ws arbitrary: n)
  case (Cons w ws)
  then show ?case by (cases n; cases w) auto
qed simp

lemma guarded_cong:
  "slot_bytes u' = slot_bytes u \<Longrightarrow> slot_pending u' = slot_pending u \<Longrightarrow> guarded current u' ws = guarded current u ws"
proof (induction ws)
  case (Cons w ws)
  then show ?case by (cases w) (auto simp: slot_region_def)
qed simp

lemma guarded_event: "guarded None u ws \<Longrightarrow> Move src dst \<in> set ws \<Longrightarrow> src \<in> slot_region u k \<Longrightarrow> slot_pending u k \<and> Event k \<in> set ws"
proof (induction ws)
  case (Cons w ws)
  then show ?case by (cases w) (auto dest: slot_regions_disjoint)
qed simp

lemma drop_until_event: "Event k \<notin> set (drop (until_event k ws) ws)"
proof -
  have "drop (until_event k ws) ws = rev (take (length ws - until_event k ws) (rev ws))"
    by (simp add: rev_take rev_drop[symmetric] until_event_def)
  also have "length ws - until_event k ws = length (takeWhile (\<lambda>w. w \<noteq> Event k) (rev ws))"
    using length_takeWhile_le[of "\<lambda>w. w \<noteq> Event k" "rev ws"] by (simp add: until_event_def)
  also have "rev (take (length (takeWhile (\<lambda>w. w \<noteq> Event k) (rev ws))) (rev ws)) = rev (takeWhile (\<lambda>w. w \<noteq> Event k) (rev ws))"
    by (metis takeWhile_eq_take)
  finally show ?thesis by (auto dest: set_takeWhileD)
qed

lemma free_after_sync:
  assumes "guarded None u (stream u)" and "\<not> slot_pending u k \<or> stream u' = drop (until_event k (stream u)) (stream u)"
    and "set (stream u') \<subseteq> set (stream u)" and "slot_bytes u' = slot_bytes u"
  shows "free_slot u' k"
proof -
  have reg: "slot_region u' k = slot_region u k" using assms(4) by (simp add: slot_region_def)
  have "src \<notin> slot_region u k" if w: "Move src dst \<in> set (stream u')" for src dst
  proof
    assume s: "src \<in> slot_region u k"
    show False
    proof (cases "slot_pending u k")
      case True
      then have u': "stream u' = drop (until_event k (stream u)) (stream u)" using assms(2) by simp
      then have "guarded None u (stream u')" using guarded_drop[OF assms(1)] by simp
      from guarded_event[OF this w s] drop_until_event[of k "stream u"] u' show False by simp
    next
      case False
      then show False using guarded_event[OF assms(1) _ s] w assms(3) by blast
    qed
  qed
  then have "reads w \<inter> slot_region u k = {}" if "w \<in> set (stream u')" for w using that by (cases w) auto
  then show ?thesis by (simp add: free_slot_def reg)
qed

section \<open>The steps of an upload\<close>

lemma bindS_out: "bindS m f u = (Inr y, t) \<longleftrightarrow> (\<exists>x s. m u = (Inr x, s) \<and> f x s = (Inr y, t))"
  by (auto simp: bindS_def split: prod.splits sum.splits)

lemma CudaCheckU_out: "CudaCheckU ok what u = (Inr x, t) \<longleftrightarrow> ok what (clock u) \<and> t = u"
  by (auto simp: CudaCheckU_def checkS_def)

lemmas out_simps = bindS_out CudaCheckU_out getS_def modifyS_def returnS_def throwS_def

text \<open>What the copy engine may do on its own: nothing that the host can tell from \<open>final\<close>.\<close>

definition progress :: "StagedUploader \<Rightarrow> StagedUploader \<Rightarrow> bool" where
  "progress u t \<longleftrightarrow> final t = final u \<and> slot_bytes t = slot_bytes u \<and> slot_pending t = slot_pending u \<and>
     next_slot t = next_slot u \<and> staging t = staging u \<and> (\<exists>n. stream t = drop n (stream u))"

lemma tick_out:
  assumes "tick dma u = (Inr x, t)" shows "progress u t"
proof -
  let ?u = "u\<lparr>clock := clock u + 1\<rparr>"
  have t: "t = drain_work (dma (clock u)) ?u" using assms by (simp add: tick_def modifyS_def)
  moreover have "final ?u = final u" by (simp add: final_def)
  ultimately show ?thesis unfolding t progress_def final_drain by (auto simp: drain_work_def)
qed

lemma progress_ok:
  assumes "progress u t" and "uploader_ok current u"
  shows "uploader_ok current t"
proof -
  obtain n where "stream t = drop n (stream u)" using assms(1) by (auto simp: progress_def)
  then have "guarded current t (stream t)"
    using assms guarded_drop guarded_cong[of t u] by (auto simp: progress_def uploader_ok_def)
  then show ?thesis using assms by (simp add: progress_def uploader_ok_def)
qed

lemma progress_free: "progress u t \<Longrightarrow> free_slot u k \<Longrightarrow> free_slot t k"
  by (auto simp: progress_def free_slot_def slot_region_def dest!: in_set_dropD)

lemma guarded_unpend:
  "guarded None u ws \<Longrightarrow> \<forall>w\<in>set ws. reads w \<inter> slot_region u k = {} \<Longrightarrow>
     guarded None (u\<lparr>slot_pending := (slot_pending u)(k := False)\<rparr>) ws"
proof (induction ws)
  case (Cons w ws)
  then show ?case by (cases w) (auto simp: slot_region_def)
qed simp

lemma WaitSlot_out:
  assumes "WaitSlot ok dma k u = (Inr x, t)" and "uploader_ok None u"
  shows "uploader_ok None t \<and> free_slot t k \<and> final t = final u \<and> slot_bytes t = slot_bytes u \<and> next_slot t = next_slot u \<and>
    set (stream t) \<subseteq> set (stream u)"
proof -
  obtain u1 where u1: "tick dma u = (Inr (), u1)"
    and r: "(if slot_pending u1 k then bindS (CudaCheckU ok ''cudaEventSynchronize(slot event)'') (\<lambda>_.
       modifyS (\<lambda>u. (drain_work (until_event k (stream u)) u)\<lparr>slot_pending := (slot_pending u)(k := False)\<rparr>))
     else returnS ()) u1 = (Inr x, t)"
    using assms(1) by (auto simp: WaitSlot_def bindS_out getS_def)
  note p = tick_out[OF u1]
  have ok1: "uploader_ok None u1" by (rule progress_ok[OF p assms(2)])
  then have g: "guarded None u1 (stream u1)" by (simp add: uploader_ok_def)
  show ?thesis
  proof (cases "slot_pending u1 k")
    case False
    then have "t = u1" using r by (simp add: returnS_def)
    moreover have "free_slot u1 k" by (rule free_after_sync[OF g]) (use False in simp_all)
    ultimately show ?thesis using ok1 p by (auto simp: progress_def dest: in_set_dropD)
  next
    case True
    let ?d = "drain_work (until_event k (stream u1)) u1"
    have t: "t = ?d\<lparr>slot_pending := (slot_pending u1)(k := False)\<rparr>" using True r by (auto simp: out_simps)
    have d: "stream ?d = drop (until_event k (stream u1)) (stream u1)" "slot_bytes ?d = slot_bytes u1"
      "slot_pending ?d = slot_pending u1" "next_slot ?d = next_slot u1"
      by (simp_all add: drain_work_def)
    have f: "free_slot ?d k" by (rule free_after_sync[OF g]) (use d in \<open>auto dest: in_set_dropD\<close>)
    have "guarded None ?d (stream ?d)" using guarded_drop[OF g] guarded_cong[of ?d u1] d by simp
    then have "guarded None t (stream t)" using guarded_unpend[of ?d "stream ?d" k] f d by (simp add: t free_slot_def)
    moreover have "final t = final u1" using final_drain[of "until_event k (stream u1)" u1] by (simp add: t final_def)
    moreover have "set (stream t) \<subseteq> set (stream u)" using p d by (auto simp: t progress_def dest!: in_set_dropD)
    ultimately show ?thesis using f ok1 p d by (simp add: t uploader_ok_def progress_def free_slot_def slot_region_def)
  qed
qed

lemma stage_elements_out:
  assumes "forS (stage_element dma base) (enumerate j xs) u = (Inr x, t)" and "uploader_ok None u" and "free_slot u k"
    and "base = k * slot_bytes u" and "2 * (j + length xs) \<le> slot_bytes u"
  shows "uploader_ok None t \<and> free_slot t k \<and> final t = final u \<and> slot_bytes t = slot_bytes u \<and> next_slot t = next_slot u \<and>
    (\<forall>i < length xs. staging t (base + 2 * (j + i)) = xs ! i) \<and> (\<forall>i < j. staging t (base + 2 * i) = staging u (base + 2 * i))"
  using assms
proof (induction xs arbitrary: j u)
  case (Cons y ys)
  let ?v = "u\<lparr>staging := (staging u)(base + 2 * j := y)\<rparr>"
  obtain s where s: "tick dma ?v = (Inr (), s)" "forS (stage_element dma base) (enumerate (Suc j) ys) s = (Inr x, t)"
    using Cons.prems(1) by (auto simp: stage_element_def out_simps)
  have "base + 2 * j \<in> slot_region u k" using Cons.prems(4,5) by (auto simp: slot_region_def)
  then have "final ?v = final u"
    using Cons.prems(3) unfolding final_def by (auto intro!: exec_work_cong simp: free_slot_def disjoint_iff)
  moreover have "uploader_ok None ?v" "free_slot ?v k"
    using Cons.prems(2,3) guarded_cong[of ?v u] by (simp_all add: uploader_ok_def free_slot_def slot_region_def)
  moreover note p = tick_out[OF s(1)]
  ultimately have s': "uploader_ok None s" "free_slot s k" "final s = final u" "slot_bytes s = slot_bytes u" "next_slot s = next_slot u"
    "staging s = staging ?v"
    using progress_ok[OF p] progress_free[OF p] p by (simp_all add: progress_def)
  have "base = k * slot_bytes s" "2 * (Suc j + length ys) \<le> slot_bytes s" using Cons.prems(4,5) s'(4) by simp_all
  note ih = Cons.IH[OF s(2) s'(1,2) this]
  have "staging t (base + 2 * (j + i)) = (y # ys) ! i" if "i < length (y # ys)" for i
  proof (cases i)
    case 0
    then show ?thesis using ih s'(6) by simp
  next
    case (Suc i')
    then show ?thesis using ih that by simp
  qed
  moreover have "\<forall>i < j. staging t (base + 2 * i) = staging u (base + 2 * i)" using ih s'(6) by simp
  ultimately show ?case using ih s' by simp
qed simp

section \<open>A chunk, a tensor\<close>

text \<open>Elements written to consecutive even addresses.\<close>

definition put_elements :: "nat \<Rightarrow> 'a list \<Rightarrow> (nat \<Rightarrow> 'a) \<Rightarrow> nat \<Rightarrow> 'a" where
  "put_elements dst xs d = fold (\<lambda>i d. d(dst + 2 * i := xs ! i)) [0..<length xs] d"

lemma put_elements_append:
  "put_elements dst (xs @ ys) d = put_elements (dst + 2 * length xs) ys (put_elements dst xs d)"
proof -
  have "[0..<length (xs @ ys)] = [0..<length xs] @ map (\<lambda>i. i + length xs) [0..<length ys]"
    by (simp add: map_add_upt upt_add_eq_append[symmetric] add.commute)
  moreover have "fold (\<lambda>i d. d(dst + 2 * i := (xs @ ys) ! i)) [0..<length xs] d = put_elements dst xs d"
    unfolding put_elements_def by (rule fold_cong) (auto simp: nth_append)
  moreover have "fold (\<lambda>i d. d(dst + 2 * i := (xs @ ys) ! i)) (map (\<lambda>i. i + length xs) [0..<length ys]) d' =
      put_elements (dst + 2 * length xs) ys d'" for d'
    unfolding put_elements_def fold_map by (rule fold_cong) (auto simp: nth_append algebra_simps)
  ultimately show ?thesis by (simp add: put_elements_def)
qed

lemma put_elements_at:
  "put_elements dst xs d a = (if \<exists>i < length xs. a = dst + 2 * i then xs ! ((a - dst) div 2) else d a)"
proof (induction xs rule: rev_induct)
  case (snoc x xs)
  show ?case unfolding put_elements_append snoc.IH[symmetric]
    by (auto simp: put_elements_def nth_append less_Suc_eq snoc.IH[unfolded put_elements_def])
qed (simp add: put_elements_def)

lemma exec_moves:
  assumes "\<forall>i < length xs. st (base + 2 * i) = xs ! i"
  shows "exec_work st (map (\<lambda>i. Move (base + 2 * i) (dst + 2 * i)) [0..<length xs]) d = put_elements dst xs d"
proof -
  have "exec_work st (map (\<lambda>i. Move (base + 2 * i) (dst + 2 * i)) is) d = fold (\<lambda>i d. d(dst + 2 * i := st (base + 2 * i))) is d" for "is" d
    by (induction "is" arbitrary: d) simp_all
  then show ?thesis unfolding put_elements_def using assms by (auto intro!: fold_cong)
qed

definition element :: "Dtype \<Rightarrow> memory \<Rightarrow> nat \<Rightarrow> 16 word" where
  "element src_dtype src i = (if src_dtype = kBF16 then Bf16BitsToFp16BitsRne (load16 src i) else load16 src i)"

lemma source_chunk_out:
  assumes "source_chunk (\<lambda>i. src (2 * off + i)) n dt name base = Inr xs"
  shows "xs = map (element dt src) [off..<off + n]"
proof -
  have l: "load16 (\<lambda>i. src (2 * off + i)) i = load16 src (off + i)" for i
    by (simp add: load16_def algebra_simps)
  have "xs = map (\<lambda>i. element dt src (off + i)) [0..<n]"
    using assms by (auto simp: source_chunk_def ConvertBf16ToFp16_eq element_def l split: if_splits option.splits)
  also have "\<dots> = map (element dt src) (map (\<lambda>i. i + off) [0..<n])" by (simp add: add.commute)
  also have "\<dots> = map (element dt src) [off..<off + n]" by (simp only: map_add_upt add.commute)
  finally show ?thesis .
qed

lemma guarded_moves:
  assumes "guarded None u ws" and "k < 2" and "\<And>w a. w \<in> set ms \<Longrightarrow> a \<in> reads w \<Longrightarrow> a \<in> slot_region u k"
  shows "guarded (Some k) u (ws @ ms)"
proof -
  have "guarded (Some k) u ms" using assms(3)
  proof (induction ms)
    case (Cons m ms)
    have "guarded (Some k) u ms" by (rule Cons.IH) (use Cons.prems in auto)
    then show ?case using Cons.prems[of m] assms(2) by (cases m) auto
  qed simp
  with assms(1) show ?thesis
  proof (induction ws)
    case (Cons w ws)
    then show ?case by (cases w) auto
  qed simp
qed

lemma guarded_record:
  assumes "guarded (Some k) u ws"
  shows "guarded None (u\<lparr>slot_pending := (slot_pending u)(k := True), next_slot := n\<rparr>) (ws @ [Event k])"
  using assms
proof (induction ws)
  case (Cons w ws)
  then show ?case by (cases w) (auto simp: slot_region_def)
qed simp

lemma upload_chunk_out:
  assumes "upload_chunk ok dma dst src total_n dt name base off u = (Inr x, t)" and "uploader_ok None u" and "off < total_n"
  shows "uploader_ok None t \<and> slot_bytes t = slot_bytes u \<and>
    final t = put_elements (dst + 2 * off) (map (element dt src) [off..<min (off + chunk_elements u) total_n]) (final u)"
proof -
  let ?k = "next_slot u" and ?n = "min (chunk_elements u) (total_n - off)"
  have k: "?k < 2" and sb: "2 \<le> slot_bytes u" "even (slot_bytes u)" using assms(2) by (simp_all add: uploader_ok_def)
  obtain xs where xs: "source_chunk (\<lambda>i. src (2 * off + i)) ?n dt name (base + off) = Inr xs"
    using assms(1) by (cases "source_chunk (\<lambda>i. src (2 * off + i)) ?n dt name (base + off)")
      (auto simp: upload_chunk_def out_simps Let_def)
  obtain u1 u2 u3 where w: "WaitSlot ok dma ?k u = (Inr (), u1)"
    and st: "forS (stage_element dma (?k * slot_bytes u1)) (enumerate 0 xs) u1 = (Inr (), u2)"
    and isq: "issue_copy ok dma (?k * slot_bytes u1) (dst + 2 * off) ?n u2 = (Inr (), u3)"
    and t: "t = u3\<lparr>stream := stream u3 @ [Event ?k], slot_pending := (slot_pending u3)(?k := True), next_slot := 1 - ?k\<rparr>"
    using assms(1) xs by (auto simp: upload_chunk_def out_simps Let_def)
  note w' = WaitSlot_out[OF w assms(2)]
  have xs': "xs = map (element dt src) [off..<off + ?n]" by (rule source_chunk_out[OF xs])
  then have len: "length xs = ?n" by simp
  have fit: "2 * (0 + length xs) \<le> slot_bytes u1" using w' by (auto simp: len chunk_elements_def)
  have s': "uploader_ok None u2" "free_slot u2 ?k" "final u2 = final u1" "slot_bytes u2 = slot_bytes u1" "next_slot u2 = next_slot u1"
    "\<forall>i < length xs. staging u2 (?k * slot_bytes u1 + 2 * i) = xs ! i"
    using stage_elements_out[OF st, of ?k] w' fit by auto
  let ?ms = "map (\<lambda>i. Move (?k * slot_bytes u1 + 2 * i) (dst + 2 * off + 2 * i)) [0..<length xs]"
  let ?v = "u2\<lparr>stream := stream u2 @ ?ms\<rparr>"
  have tk: "tick dma ?v = (Inr (), u3)" using isq by (auto simp: issue_copy_def out_simps len)
  have fin: "final ?v = put_elements (dst + 2 * off) xs (final u2)"
    using exec_moves[OF s'(6)] by (simp add: final_def exec_work_append)
  have "guarded (Some ?k) u2 (stream u2 @ ?ms)"
    by (rule guarded_moves) (use s'(1,4) fit k in \<open>auto simp: uploader_ok_def slot_region_def\<close>)
  then have "uploader_ok (Some ?k) ?v" using s'(1) guarded_cong[of ?v u2] by (simp add: uploader_ok_def)
  note ok3 = progress_ok[OF tick_out[OF tk] this]
  have p: "final u3 = final ?v" "slot_bytes u3 = slot_bytes u2" using tick_out[OF tk] by (simp_all add: progress_def)
  have "guarded None t (stream t)"
    using guarded_record[of ?k u3 "stream u3" "1 - ?k"] ok3 guarded_cong[of t "u3\<lparr>slot_pending := (slot_pending u3)(?k := True), next_slot := 1 - ?k\<rparr>"]
    by (simp add: t uploader_ok_def)
  then have "uploader_ok None t" using ok3 k by (simp add: t uploader_ok_def)
  moreover have "final t = final u3" by (simp add: t final_def exec_work_append)
  moreover have "off + ?n = min (off + chunk_elements u) total_n" using assms(3) by simp
  ultimately show ?thesis using fin s' w' p xs' by (simp add: t)
qed

lemma chunks_out:
  "forS (upload_chunk ok dma dst src total_n dt name base) (strided chunk total_n off) u = (Inr x, t) \<Longrightarrow>
   uploader_ok None u \<Longrightarrow> chunk = chunk_elements u \<Longrightarrow>
     uploader_ok None t \<and> slot_bytes t = slot_bytes u \<and>
     final t = put_elements (dst + 2 * off) (map (element dt src) [off..<total_n]) (final u)"
proof (induction chunk total_n off arbitrary: u rule: strided.induct)
  case (1 chunk total_n off)
  have "0 < chunk" using "1.prems"(2,3) by (auto simp: uploader_ok_def chunk_elements_def)
  show ?case
  proof (cases "off < total_n")
    case False
    then have "u = t" using "1.prems"(1) by (simp add: strided.simps)
    then show ?thesis using "1.prems"(2) False by (simp add: put_elements_def)
  next
    case True
    then obtain s where s: "upload_chunk ok dma dst src total_n dt name base off u = (Inr (), s)"
      "forS (upload_chunk ok dma dst src total_n dt name base) (strided chunk total_n (off + chunk)) s = (Inr x, t)"
      using "1.prems"(1) \<open>0 < chunk\<close> by (subst (asm) strided.simps) (auto simp: bindS_out)
    note c = upload_chunk_out[OF s(1) "1.prems"(2) True]
    have "chunk = chunk_elements s" using c "1.prems"(3) by (simp add: chunk_elements_def)
    note ih = "1.IH"[OF conjI[OF True \<open>0 < chunk\<close>] s(2) conjunct1[OF c] this]
    show ?thesis
    proof (cases "off + chunk \<le> total_n")
      case le: True
      have "[off..<total_n] = [off..<off + chunk] @ [off + chunk..<total_n]" using le upt_add_eq_append[of off "off + chunk" "total_n - (off + chunk)"] by simp
      then have "put_elements (dst + 2 * off) (map (element dt src) [off..<total_n]) (final u) =
          put_elements (dst + 2 * (off + chunk)) (map (element dt src) [off + chunk..<total_n])
            (put_elements (dst + 2 * off) (map (element dt src) [off..<off + chunk]) (final u))"
        by (simp add: put_elements_append algebra_simps)
      then show ?thesis using ih c le "1.prems"(3) by (simp add: min_absorb1)
    next
      case False
      then show ?thesis using ih c "1.prems"(3) by (simp add: put_elements_def min_absorb2)
    qed
  qed
qed

lemma Upload_out:
  assumes "Upload ok dma dst src n dt name base u = (Inr x, t)" and "uploader_ok None u"
  shows "uploader_ok None t \<and> slot_bytes t = slot_bytes u \<and> final t = put_elements dst (map (element dt src) [0..<n]) (final u)"
  using chunks_out[of ok dma dst src n dt name base _ 0 u x t] assms
  by (auto simp: Upload_def out_simps split: if_splits)

lemma exec_no_moves: "(\<And>w. w \<in> set ws \<Longrightarrow> reads w = {}) \<Longrightarrow> exec_work st ws d = d"
proof (induction ws)
  case (Cons w ws)
  have "exec_work st ws d = d" by (rule Cons.IH) (use Cons.prems in auto)
  then show ?case using Cons.prems[of w] by (cases w) auto
qed simp

lemma guarded_reads: "guarded None u ws \<Longrightarrow> w \<in> set ws \<Longrightarrow> a \<in> reads w \<Longrightarrow> \<exists>k<2. a \<in> slot_region u k"
proof (induction ws)
  case (Cons v ws)
  then show ?case by (cases v) auto
qed simp

lemma Synchronize_out:
  assumes "Synchronize ok dma u = (Inr x, t)" and "uploader_ok None u"
  shows "uploader_ok None t \<and> device t = final u \<and> final t = final u \<and> device (destroy_StagedUploader t) = final u"
proof -
  obtain s where s: "WaitSlot ok dma 0 u = (Inr (), s)" "WaitSlot ok dma 1 s = (Inr x, t)"
    using assms(1) by (auto simp: Synchronize_def bindS_out)
  note a = WaitSlot_out[OF s(1) assms(2)]
  note b = WaitSlot_out[OF s(2) conjunct1[OF a]]
  have g: "guarded None t (stream t)" using b by (simp add: uploader_ok_def)
  have "reads w = {}" if w: "w \<in> set (stream t)" for w
  proof (rule equals0I)
    fix c
    assume c: "c \<in> reads w"
    then obtain k where k: "k < 2" "c \<in> slot_region t k" using guarded_reads[OF g w] by blast
    have "w \<in> set (stream s)" using b w by blast
    then have "c \<notin> slot_region t 0" using a b c by (auto simp: free_slot_def slot_region_def disjoint_iff)
    moreover have "c \<notin> slot_region t 1" using b c w by (auto simp: free_slot_def disjoint_iff)
    moreover have "k = 0 \<or> k = 1" using k(1) by auto
    ultimately show False using k(2) by blast
  qed
  note quiet = this
  then have f: "final t = device t" unfolding final_def by (rule exec_no_moves)
  have dr: "device (drain_work k v) = device t \<and> (\<forall>w\<in>set (stream (drain_work k v)). reads w = {})"
    if v: "device v = device t" "\<forall>w\<in>set (stream v). reads w = {}" for k v
  proof -
    have "reads w = {}" if "w \<in> set (take k (stream v)) \<or> w \<in> set (drop k (stream v))" for w
      using v(2) that by (meson in_set_takeD in_set_dropD)
    then show ?thesis using v(1) exec_no_moves[of "take k (stream v)"] by (simp add: drain_work_def)
  qed
  have "device (destroy_slot k v) = device t \<and> (\<forall>w\<in>set (stream (destroy_slot k v)). reads w = {})"
    if "device v = device t" "\<forall>w\<in>set (stream v). reads w = {}" for k v
    using dr[OF that] that by (simp add: destroy_slot_def)
  then have "device (destroy_StagedUploader t) = device t" using quiet unfolding destroy_StagedUploader_def by blast
  then show ?thesis using a b f by simp
qed

text \<open>
  C24: The double-buffered upload is free of races. However the copy engine interleaves with the
  host, element by element, and whatever was in flight before: when \<open>Upload\<close> returns, what the
  stream will leave on the device is exactly the converted tensor at its destination over what it
  would have left before, the buffer is again in a safe state, and once \<open>Synchronize\<close> returns the
  device holds it.
\<close>

theorem staged_upload_race_free:
  assumes "uploader_ok None u" and "Upload ok dma dst src n dt name base u = (Inr x, t)"
  shows "uploader_ok None t \<and> final t = put_elements dst (map (element dt src) [0..<n]) (final u) \<and>
    (case Synchronize ok dma t of (Inl _, _) \<Rightarrow> True | (Inr _, s) \<Rightarrow> device s = final t)"
  using Upload_out[OF assms(2,1)] Synchronize_out[of ok dma t] by (auto split: prod.splits sum.splits)

lemma new_uploader_ok:
  assumes "new_StagedUploader ok n pinned dev = Inr u"
  shows "uploader_ok None u \<and> final u = dev"
proof -
  have "4096 \<le> n" using assms by (auto simp: new_StagedUploader_def bindE_Inr_iff kMinStagingBytes_def)
  then have "1 \<le> n div 2 div 2" by (simp add: div_mult2_eq[symmetric] less_eq_div_iff_mult_less_eq)
  then show ?thesis
    using assms by (auto simp: new_StagedUploader_def bindE_Inr_iff uploader_ok_def final_def)
qed

section \<open>When uploads succeed\<close>

lemma fst_tick [simp]: "fst (tick dma u) = Inr ()"
  by (simp add: tick_def modifyS_def)

lemma fst_WaitSlot: "\<forall>what k. ok what k \<Longrightarrow> fst (WaitSlot ok dma k u) = Inr ()"
  by (auto simp: WaitSlot_def bindS_def getS_def modifyS_def returnS_def CudaCheckU_def checkS_def tick_def)

lemma fst_stage: "fst (forS (stage_element dma base) xs u) = Inr ()"
proof (induction xs arbitrary: u)
  case (Cons x xs)
  obtain s where "stage_element dma base x u = (Inr (), s)"
    by (cases x) (simp add: stage_element_def bindS_def modifyS_def tick_def)
  then show ?case using Cons.IH[of s] by (simp add: bindS_def)
qed simp

text \<open>The first element from \<open>lo\<close> on that a tensor cannot be converted at.\<close>

definition first_overflow :: "Dtype \<Rightarrow> memory \<Rightarrow> nat \<Rightarrow> nat \<Rightarrow> nat option" where
  "first_overflow dt src lo hi = find (\<lambda>i. dt = kBF16 \<and> Bf16OverflowsFp16 (load16 src i)) [lo..<hi]"

definition overflow_error :: "memory \<Rightarrow> string \<Rightarrow> nat \<Rightarrow> nat option \<Rightarrow> convert_error + unit" where
  "overflow_error src name base found =
     (case found of None \<Rightarrow> Inr () | Some i \<Rightarrow> Inl (Fp16Overflow name (base + i) (load16 src i)))"

lemma find_map: "find P (map f xs) = map_option f (find (P \<circ> f) xs)"
  by (induction xs) auto

lemma source_chunk_error:
  "(case source_chunk (\<lambda>i. src (2 * off + i)) n dt name (base + off) of Inl e \<Rightarrow> Inl e | Inr xs \<Rightarrow> Inr ()) =
     overflow_error src name base (first_overflow dt src off (off + n))"
proof -
  have l: "load16 (\<lambda>i. src (2 * off + i)) i = load16 src (i + off)" for i
    by (simp add: load16_def algebra_simps)
  have "[off..<off + n] = map (\<lambda>i. i + off) [0..<n]" by (simp add: map_add_upt add.commute)
  moreover have "find (\<lambda>i. False) xs = None" for xs :: "nat list" by (induction xs) auto
  ultimately show ?thesis
    by (auto simp: source_chunk_def ConvertBf16ToFp16_eq first_overflow_def overflow_error_def find_map l comp_def
        split: option.splits)
qed

lemma fst_upload_chunk:
  assumes "\<forall>what k. ok what k"
  shows "fst (upload_chunk ok dma dst src total_n dt name base off u) =
    overflow_error src name base (first_overflow dt src off (off + min (chunk_elements u) (total_n - off)))"
proof -
  let ?n = "min (chunk_elements u) (total_n - off)"
  obtain u1 where w: "WaitSlot ok dma (next_slot u) u = (Inr (), u1)"
    using fst_WaitSlot[OF assms, of dma "next_slot u" u] by (metis prod.collapse)
  show ?thesis
  proof (cases "source_chunk (\<lambda>i. src (2 * off + i)) ?n dt name (base + off)")
    case (Inl e)
    let ?src = "\<lambda>i. src (2 * off + i)"
    obtain u2 where "forS (stage_element dma (next_slot u * slot_bytes u1)) (enumerate 0 (converted_before ?src ?n)) u1 = (Inr (), u2)"
      using fst_stage[of dma "next_slot u * slot_bytes u1" "enumerate 0 (converted_before ?src ?n)" u1] by (metis prod.collapse)
    then show ?thesis using Inl source_chunk_error[of src off ?n dt name base]
      by (simp add: upload_chunk_def bindS_def getS_def w Let_def throwS_def)
  next
    case (Inr xs)
    obtain u2 where s: "forS (stage_element dma (next_slot u * slot_bytes u1)) (enumerate 0 xs) u1 = (Inr (), u2)"
      using fst_stage[of dma "next_slot u * slot_bytes u1" "enumerate 0 xs" u1] by (metis prod.collapse)
    have oe: "overflow_error src name base (first_overflow dt src off (off + ?n)) = Inr ()"
      using source_chunk_error[of src off ?n dt name base] Inr by simp
    show ?thesis unfolding oe using Inr assms
      by (simp add: upload_chunk_def bindS_def getS_def w s Let_def issue_copy_def CudaCheckU_def checkS_def modifyS_def tick_def)
  qed
qed

lemma find_append: "find P (xs @ ys) = (case find P xs of None \<Rightarrow> find P ys | Some x \<Rightarrow> Some x)"
  by (induction xs) auto

lemma first_overflow_split:
  "lo \<le> mid \<Longrightarrow> mid \<le> hi \<Longrightarrow> first_overflow dt src lo hi =
     (case first_overflow dt src lo mid of None \<Rightarrow> first_overflow dt src mid hi | Some i \<Rightarrow> Some i)"
  using upt_add_eq_append[of lo mid "hi - mid"] by (simp add: first_overflow_def find_append split: option.splits)

lemma fst_chunks:
  assumes "\<forall>what k. ok what k"
  shows "uploader_ok None u \<Longrightarrow> chunk = chunk_elements u \<Longrightarrow> off \<le> total_n \<Longrightarrow>
    fst (forS (upload_chunk ok dma dst src total_n dt name base) (strided chunk total_n off) u) =
      overflow_error src name base (first_overflow dt src off total_n)"
proof (induction chunk total_n off arbitrary: u rule: strided.induct)
  case (1 chunk total_n off)
  have pos: "0 < chunk" using "1.prems"(1,2) by (auto simp: uploader_ok_def chunk_elements_def)
  show ?case
  proof (cases "off < total_n")
    case False
    then show ?thesis using "1.prems"(3) by (simp add: strided.simps first_overflow_def overflow_error_def)
  next
    case True
    let ?mid = "off + min chunk (total_n - off)"
    obtain r s where rs: "upload_chunk ok dma dst src total_n dt name base off u = (r, s)" by fastforce
    then have r: "r = overflow_error src name base (first_overflow dt src off ?mid)"
      using fst_upload_chunk[OF assms, of dma dst src total_n dt name base off u] "1.prems"(2) by simp
    have sp: "first_overflow dt src off total_n =
        (case first_overflow dt src off ?mid of None \<Rightarrow> first_overflow dt src ?mid total_n | Some i \<Rightarrow> Some i)"
      using True by (intro first_overflow_split) simp_all
    have unf: "strided chunk total_n off = off # strided chunk total_n (off + chunk)"
      using True pos by (subst strided.simps) simp
    show ?thesis
    proof (cases "first_overflow dt src off ?mid")
      case (Some i)
      then show ?thesis using rs r sp by (simp add: unf bindS_def overflow_error_def)
    next
      case None
      then have rs': "upload_chunk ok dma dst src total_n dt name base off u = (Inr (), s)" using rs r by (simp add: overflow_error_def)
      note c = upload_chunk_out[OF rs' "1.prems"(1) True]
      have ce: "chunk = chunk_elements s" using c "1.prems"(2) by (simp add: chunk_elements_def)
      show ?thesis
      proof (cases "off + chunk \<le> total_n")
        case le: True
        then have m: "?mid = off + chunk" by simp
        from "1.IH"[OF conjI[OF True pos] conjunct1[OF c] ce le] show ?thesis
          using rs' sp None by (simp add: unf bindS_def m)
      next
        case False
        then have "strided chunk total_n (off + chunk) = []" by (simp add: strided.simps)
        moreover have "first_overflow dt src ?mid total_n = None" using False by (simp add: first_overflow_def)
        ultimately show ?thesis using rs' sp None by (simp add: unf bindS_def overflow_error_def)
      qed
    qed
  qed
qed

lemma fst_Upload:
  assumes "\<forall>what k. ok what k" and "uploader_ok None u" and "dt = kBF16 \<or> dt = kF16"
  shows "fst (Upload ok dma dst src n dt name base u) = overflow_error src name base (first_overflow dt src 0 n)"
  using fst_chunks[OF assms(1,2) refl, of 0 n] assms(3) by (auto simp: Upload_def bindS_def getS_def)

section \<open>A concrete upload\<close>

definition demo_uploader :: StagedUploader where
  "demo_uploader = \<lparr>slot_bytes = 4, staging = (\<lambda>_. 0), slot_pending = (\<lambda>_. False), next_slot = 0, stream = [],
     device = (\<lambda>_. 0), clock = 0\<rparr>"

text \<open>Five elements through slots of two, with the engine two items behind at most times.\<close>

theorem staged_upload_race_free_witness:
  "\<exists>t. Upload (\<lambda>_ _. True) (\<lambda>k. k mod 2) 100 (\<lambda>i. of_nat i) 5 kF16 ''w'' 0 demo_uploader = (Inr (), t) \<and>
     final t 102 = 0x0302 \<and> final t 108 = 0x0908 \<and> final t 110 = 0"
proof -
  have ok: "uploader_ok None demo_uploader" by (simp add: uploader_ok_def demo_uploader_def)
  have "first_overflow kF16 src 0 5 = None" for src by (simp add: first_overflow_def upt_rec)
  then have "fst (Upload (\<lambda>_ _. True) (\<lambda>k. k mod 2) 100 (\<lambda>i. of_nat i) 5 kF16 ''w'' 0 demo_uploader) = Inr ()"
    using fst_Upload[OF _ ok, of "\<lambda>_ _. True" kF16] by (simp add: overflow_error_def)
  then obtain t where t: "Upload (\<lambda>_ _. True) (\<lambda>k. k mod 2) 100 (\<lambda>i. of_nat i) 5 kF16 ''w'' 0 demo_uploader = (Inr (), t)"
    by (metis prod.collapse)
  have f: "final t = put_elements 100 (map (element kF16 (\<lambda>i. of_nat i)) [0..<5]) (final demo_uploader)"
    using staged_upload_race_free[OF ok t] by blast
  have "put_elements 100 (map (element kF16 (\<lambda>i. of_nat i)) [0..<5]) (\<lambda>_. 0) 102 = 0x0302 \<and>
    put_elements 100 (map (element kF16 (\<lambda>i. of_nat i)) [0..<5]) (\<lambda>_. 0) 108 = 0x0908 \<and>
    put_elements 100 (map (element kF16 (\<lambda>i. of_nat i)) [0..<5]) (\<lambda>_. 0) 110 = 0" by code_simp
  moreover have "final demo_uploader = (\<lambda>_. 0)" by (simp add: final_def demo_uploader_def)
  ultimately show ?thesis using t f by simp
qed

end
