(* ===== verification/Safetensors.thy ===== *)
theory Safetensors
  imports Config Core_Types "HOL-Library.Word" "HOL-Library.List_Lexorder" "HOL-Library.Char_ord"
begin

unbundle bit_operations_syntax

text \<open>
  \<^verbatim>\<open>src/src/loader/safetensors.{hpp,cpp}\<close>: the checkpoint parser.

  Outside the repository, and parameters here: the JSON parser (nlohmann/json), which returns the
  value and the key events of its callback, each with its depth, or \<open>None\<close> for an exception; and
  the file system, a record of the contents of files that can be opened and mapped, of what
  exists, and of the operations on paths. A pointer into a mapping is the mapping and an offset.
  \<^verbatim>\<open>std::uint64_t\<close> values are \<open>nat\<close> with the wrap-around of the one product written out.
  Messages are shortened.
\<close>

section \<open>Errors and data\<close>

datatype Kind =
    kIo
  | kTruncatedHeader
  | kMalformedHeader
  | kMalformedIndex
  | kOffsetsOutOfBounds
  | kUnknownDtype
  | kDuplicateName
  | kMissingTensor

datatype st_error = SafetensorsError Kind string

record TensorView =
  tv_dtype :: Dtype
  tv_shape :: "int list"
  tv_base :: "8 word list"
  tv_offset :: nat
  tv_nbytes :: nat

type_synonym tensors = "(string \<times> TensorView) list"

type_synonym json_parser = "8 word list \<Rightarrow> (json \<times> (nat \<times> string) list) option"

record FileSystem =
  fs_bytes :: "string \<Rightarrow> 8 word list option"
  fs_exists :: "string \<Rightarrow> bool"
  fs_join :: "string \<Rightarrow> string \<Rightarrow> string"
  fs_parent :: "string \<Rightarrow> string"

record SafetensorsFile =
  sf_path :: string
  sf_tensors :: tensors

record SafetensorsModel =
  sm_shards :: "SafetensorsFile list"
  sm_merged :: tensors

section \<open>Scalars\<close>

definition ReadLeU64 :: "8 word list \<Rightarrow> 64 word" where
  "ReadLeU64 bytes = fold (\<lambda>i value. push_bit 8 value OR ucast (bytes ! i)) [7, 6, 5, 4, 3, 2, 1, 0] 0"

definition DtypeFromString :: "string \<Rightarrow> Dtype" where
  "DtypeFromString s =
     (if s = ''F16'' then kF16
      else if s = ''BF16'' then kBF16
      else if s = ''F32'' then kF32
      else if s = ''F64'' then kF64
      else if s = ''I32'' then kI32
      else if s = ''I64'' then kI64
      else if s = ''U8'' then kU8
      else kUnknown)"

definition RequireU64 :: "json \<Rightarrow> st_error + nat" where
  "RequireU64 v =
     (case v of
        JInt n \<Rightarrow> if n \<ge> 0 then Inr (nat n mod 2 ^ 64)
                  else Inl (SafetensorsError kMalformedHeader ''must be a non-negative integer'')
      | _ \<Rightarrow> Inl (SafetensorsError kMalformedHeader ''must be a non-negative integer''))"

section \<open>The header of one file\<close>

text \<open>
  The parser callback: the depth of the first key is that of the root object; a repeated key at
  that depth is remembered. No duplicate is the empty string, as in the code.
\<close>

record KeyWatch =
  seen :: "string list"
  duplicate :: string
  root_key_depth :: "nat option"

definition watch_key :: "nat \<times> string \<Rightarrow> KeyWatch \<Rightarrow> KeyWatch" where
  "watch_key = (\<lambda>(depth, key) w.
     let w1 = (if root_key_depth w = None then w\<lparr>root_key_depth := Some depth\<rparr> else w) in
     if Some depth = root_key_depth w1 then
       if key \<in> set (seen w1)
       then (if duplicate w1 = [] then w1\<lparr>duplicate := key\<rparr> else w1)
       else w1\<lparr>seen := key # seen w1\<rparr>
     else w1)"

definition watch_keys :: "(nat \<times> string) list \<Rightarrow> KeyWatch" where
  "watch_keys events = fold watch_key events \<lparr>seen = [], duplicate = [], root_key_depth = None\<rparr>"

definition shape_dim :: "nat \<times> int list \<Rightarrow> json \<Rightarrow> st_error + (nat \<times> int list)" where
  "shape_dim = (\<lambda>(elem_count, shape) dim_json.
     bindE (RequireU64 dim_json) (\<lambda>dim.
     bindE (assertE (\<not> (dim > 2 ^ 63 - 1 \<or> dim \<noteq> 0 \<and> elem_count > (2 ^ 64 - 1) div dim))
              (SafetensorsError kMalformedHeader ''shape overflows'')) (\<lambda>_.
     Inr (elem_count * dim mod 2 ^ 64, shape @ [int dim]))))"

definition parse_offsets :: "json \<Rightarrow> st_error + (nat \<times> nat)" where
  "parse_offsets v =
     (case v of
        JArr [b, e] \<Rightarrow>
          bindE (RequireU64 b) (\<lambda>first.
          bindE (RequireU64 e) (\<lambda>last_end. Inr (first, last_end)))
      | _ \<Rightarrow> Inl (SafetensorsError kMalformedHeader ''data_offsets must be [begin, end]''))"

definition parse_tensor :: "8 word list \<Rightarrow> nat \<Rightarrow> nat \<Rightarrow> json \<Rightarrow> st_error + TensorView" where
  "parse_tensor bytes data_section data_size spec =
     bindE (case spec of JObj kvs \<Rightarrow> Inr () | _ \<Rightarrow> Inl (SafetensorsError kMalformedHeader ''entry must be an object'')) (\<lambda>_.
     case (find_key spec ''dtype'', find_key spec ''shape'', find_key spec ''data_offsets'') of
       (Some dtype_json, Some shape_json, Some offsets_json) \<Rightarrow>
         bindE (case dtype_json of JStr s \<Rightarrow> Inr s | _ \<Rightarrow> Inl (SafetensorsError kMalformedHeader ''dtype must be a string'')) (\<lambda>dtype_str.
         let dtype = DtypeFromString dtype_str in
         bindE (assertE (dtype \<noteq> kUnknown) (SafetensorsError kUnknownDtype ''unknown dtype'')) (\<lambda>_.
         bindE (case shape_json of JArr dims \<Rightarrow> Inr dims | _ \<Rightarrow> Inl (SafetensorsError kMalformedHeader ''shape must be an array'')) (\<lambda>dims.
         bindE (foldE shape_dim dims (1, [])) (\<lambda>(elem_count, shape).
         bindE (parse_offsets offsets_json) (\<lambda>(begin_off, end_off).
         bindE (assertE (\<not> (begin_off > end_off \<or> end_off > data_size))
                  (SafetensorsError kOffsetsOutOfBounds ''data_offsets outside the data section'')) (\<lambda>_.
         let dtype_size = DtypeSize dtype in
         bindE (assertE (\<not> elem_count > (2 ^ 64 - 1) div dtype_size)
                  (SafetensorsError kMalformedHeader ''shape overflows'')) (\<lambda>_.
         let expected_bytes = elem_count * dtype_size mod 2 ^ 64 in
         bindE (assertE (\<not> end_off - begin_off \<noteq> expected_bytes)
                  (SafetensorsError kMalformedHeader ''span disagrees with shape x dtype'')) (\<lambda>_.
         Inr \<lparr>tv_dtype = dtype, tv_shape = shape, tv_base = bytes, tv_offset = data_section + begin_off,
              tv_nbytes = end_off - begin_off\<rparr>))))))))
     | _ \<Rightarrow> Inl (SafetensorsError kMalformedHeader ''needs dtype, shape and data_offsets''))"

text \<open>\<^verbatim>\<open>emplace\<close> keeps an entry that is already there.\<close>

definition emplace :: "tensors \<Rightarrow> string \<Rightarrow> TensorView \<Rightarrow> tensors" where
  "emplace ts name view = (if map_of ts name = None then ts @ [(name, view)] else ts)"

definition parse_entry ::
  "8 word list \<Rightarrow> nat \<Rightarrow> nat \<Rightarrow> tensors \<Rightarrow> string \<times> json \<Rightarrow> st_error + tensors" where
  "parse_entry bytes data_section data_size = (\<lambda>ts (name, spec).
     if name = ''__metadata__'' then Inr ts
     else bindE (parse_tensor bytes data_section data_size spec) (\<lambda>view. Inr (emplace ts name view)))"

definition ParseHeader :: "json_parser \<Rightarrow> 8 word list \<Rightarrow> st_error + tensors" where
  "ParseHeader parse bytes =
     (let header_size = unat (ReadLeU64 bytes) in
      bindE (assertE (\<not> header_size > length bytes - 8)
               (SafetensorsError kTruncatedHeader ''header runs past the end'')) (\<lambda>_.
      let data_section = 8 + header_size; data_size = length bytes - 8 - header_size in
      case parse (take header_size (drop 8 bytes)) of
        None \<Rightarrow> Inl (SafetensorsError kMalformedHeader ''header is not valid JSON'')
      | Some (header, events) \<Rightarrow>
          bindE (assertE (\<not> duplicate (watch_keys events) \<noteq> []) (SafetensorsError kDuplicateName ''duplicate tensor name'')) (\<lambda>_.
          case header of
            JObj items \<Rightarrow> foldE (parse_entry bytes data_section data_size) items []
          | _ \<Rightarrow> Inl (SafetensorsError kMalformedHeader ''header must be a JSON object''))))"

definition OpenFile :: "json_parser \<Rightarrow> FileSystem \<Rightarrow> string \<Rightarrow> st_error + SafetensorsFile" where
  "OpenFile parse fs path =
     (case fs_bytes fs path of
        None \<Rightarrow> Inl (SafetensorsError kIo ''open failed'')
      | Some bytes \<Rightarrow>
          bindE (assertE (\<not> length bytes < 8) (SafetensorsError kTruncatedHeader ''smaller than the length prefix'')) (\<lambda>_.
          bindE (ParseHeader parse bytes) (\<lambda>ts. Inr \<lparr>sf_path = path, sf_tensors = ts\<rparr>)))"

definition FileContains :: "SafetensorsFile \<Rightarrow> string \<Rightarrow> bool" where
  "FileContains f name \<longleftrightarrow> map_of (sf_tensors f) name \<noteq> None"

definition FileTensor :: "SafetensorsFile \<Rightarrow> string \<Rightarrow> st_error + TensorView" where
  "FileTensor f name =
     (case map_of (sf_tensors f) name of
        None \<Rightarrow> Inl (SafetensorsError kMissingTensor ''missing tensor'') | Some v \<Rightarrow> Inr v)"

section \<open>A checkpoint of one or several files\<close>

definition kSingleFileName :: string where "kSingleFileName = ''model.safetensors''"
definition kIndexFileName :: string where "kIndexFileName = ''model.safetensors.index.json''"

definition OpenSingle :: "json_parser \<Rightarrow> FileSystem \<Rightarrow> string \<Rightarrow> st_error + SafetensorsModel" where
  "OpenSingle parse fs safetensors_path =
     bindE (OpenFile parse fs safetensors_path) (\<lambda>f. Inr \<lparr>sm_shards = [f], sm_merged = sf_tensors f\<rparr>)"

text \<open>
  \<^verbatim>\<open>shard_slot\<close> is a \<^verbatim>\<open>std::map\<close>: the distinct shard names in the order of their bytes. The error
  branches of \<open>resolve_entry\<close> other than the missing tensor are not reached: every entry was
  checked by \<open>add_shard_name\<close>.
\<close>

definition add_shard_name :: "string list \<Rightarrow> string \<times> json \<Rightarrow> st_error + string list" where
  "add_shard_name names = (\<lambda>(tensor_name, shard_json).
     case shard_json of
       JStr shard \<Rightarrow> Inr (if shard \<in> set names then names else insort shard names)
     | _ \<Rightarrow> Inl (SafetensorsError kMalformedIndex ''weight_map entry must name a shard file''))"

definition merge_tensor :: "tensors \<Rightarrow> string \<times> TensorView \<Rightarrow> st_error + tensors" where
  "merge_tensor merged = (\<lambda>(name, view).
     if map_of merged name = None then Inr (merged @ [(name, view)])
     else Inl (SafetensorsError kDuplicateName ''tensor appears in more than one shard''))"

definition merge_shard :: "tensors \<Rightarrow> SafetensorsFile \<Rightarrow> st_error + tensors" where
  "merge_shard merged shard = foldE merge_tensor (sf_tensors shard) merged"

definition resolve_entry :: "(string \<times> SafetensorsFile) list \<Rightarrow> unit \<Rightarrow> string \<times> json \<Rightarrow> st_error + unit" where
  "resolve_entry slots u = (\<lambda>(tensor_name, shard_json).
     case shard_json of
       JStr name \<Rightarrow>
         (case map_of slots name of
            Some shard \<Rightarrow> assertE (FileContains shard tensor_name)
                            (SafetensorsError kMissingTensor ''the shard does not contain the tensor'')
          | None \<Rightarrow> Inl (SafetensorsError kMalformedIndex ''out_of_range''))
     | _ \<Rightarrow> Inl (SafetensorsError kMalformedIndex ''type_error''))"

definition OpenIndex :: "json_parser \<Rightarrow> FileSystem \<Rightarrow> string \<Rightarrow> st_error + SafetensorsModel" where
  "OpenIndex parse fs index_path =
     (case fs_bytes fs index_path of
        None \<Rightarrow> Inl (SafetensorsError kIo ''cannot open'')
      | Some text \<Rightarrow>
          (case parse text of
             None \<Rightarrow> Inl (SafetensorsError kMalformedIndex ''not valid JSON'')
           | Some (index, events) \<Rightarrow>
               (case find_key index ''weight_map'' of
                  Some (JObj weight_map) \<Rightarrow>
                    let base_dir = fs_parent fs index_path in
                    bindE (foldE add_shard_name weight_map []) (\<lambda>names.
                    bindE (mapE (\<lambda>name. OpenFile parse fs (fs_join fs base_dir name)) names) (\<lambda>shards.
                    bindE (foldE merge_shard shards []) (\<lambda>merged.
                    bindE (foldE (resolve_entry (zip names shards)) weight_map ()) (\<lambda>_.
                    Inr \<lparr>sm_shards = shards, sm_merged = merged\<rparr>))))
                | _ \<Rightarrow> Inl (SafetensorsError kMalformedIndex ''expected a weight_map object''))))"

definition OpenDir :: "json_parser \<Rightarrow> FileSystem \<Rightarrow> string \<Rightarrow> st_error + SafetensorsModel" where
  "OpenDir parse fs model_dir =
     (let single = fs_join fs model_dir kSingleFileName; index = fs_join fs model_dir kIndexFileName in
      if fs_exists fs single then OpenSingle parse fs single
      else if fs_exists fs index then OpenIndex parse fs index
      else Inl (SafetensorsError kIo ''neither file found''))"

definition ModelContains :: "SafetensorsModel \<Rightarrow> string \<Rightarrow> bool" where
  "ModelContains m name \<longleftrightarrow> map_of (sm_merged m) name \<noteq> None"

definition ModelTensor :: "SafetensorsModel \<Rightarrow> string \<Rightarrow> st_error + TensorView" where
  "ModelTensor m name =
     (case map_of (sm_merged m) name of
        None \<Rightarrow> Inl (SafetensorsError kMissingTensor ''model: missing tensor'') | Some v \<Rightarrow> Inr v)"

section \<open>The views of an opened checkpoint\<close>

definition in_bounds :: "TensorView \<Rightarrow> bool" where
  "in_bounds v \<longleftrightarrow>
     8 \<le> tv_offset v \<and> tv_offset v + tv_nbytes v \<le> length (tv_base v) \<and> tv_dtype v \<noteq> kUnknown \<and>
     (\<forall>d\<in>set (tv_shape v). 0 \<le> d \<and> d < 2 ^ 63) \<and>
     int (tv_nbytes v) = prod_list (tv_shape v) * int (DtypeSize (tv_dtype v))"

lemma DtypeSize_pos: "dt \<noteq> kUnknown \<Longrightarrow> 0 < DtypeSize dt"
  by (cases dt) simp_all

lemma shape_dim_exact:
  assumes "shape_dim (c, sh) j = Inr (c', sh')" and "c < 2 ^ 64" and "int c = prod_list sh"
    and "\<forall>d\<in>set sh. 0 \<le> d \<and> d < 2 ^ 63"
  shows "c' < 2 ^ 64 \<and> int c' = prod_list sh' \<and> (\<forall>d\<in>set sh'. 0 \<le> d \<and> d < 2 ^ 63)"
proof -
  from assms(1) obtain dim where d: "\<not> dim > 2 ^ 63 - 1" "\<not> (dim \<noteq> 0 \<and> c > (2 ^ 64 - 1) div dim)"
    and r: "c' = c * dim mod 2 ^ 64" "sh' = sh @ [int dim]"
    by (auto simp: shape_dim_def bindE_Inr_iff)
  have "c * dim < 2 ^ 64"
  proof (cases "dim = 0")
    case False
    with d(2) have "c \<le> (2 ^ 64 - 1) div dim" by simp
    then have "c * dim \<le> 2 ^ 64 - 1" using False by (simp add: less_eq_div_iff_mult_less_eq)
    then show ?thesis by simp
  qed simp
  then have "c' = c * dim" by (simp add: r)
  moreover from \<open>c * dim < 2 ^ 64\<close> have "c' < 2 ^ 64" by (simp add: r)
  ultimately show ?thesis using assms(3,4) d(1) by (simp add: r(2))
qed

lemma shape_fold_exact:
  "foldE shape_dim js (c, sh) = Inr (c', sh') \<Longrightarrow> c < 2 ^ 64 \<Longrightarrow> int c = prod_list sh \<Longrightarrow>
     \<forall>d\<in>set sh. 0 \<le> d \<and> d < 2 ^ 63 \<Longrightarrow>
     c' < 2 ^ 64 \<and> int c' = prod_list sh' \<and> (\<forall>d\<in>set sh'. 0 \<le> d \<and> d < 2 ^ 63)"
proof (induction js arbitrary: c sh)
  case (Cons j js)
  then obtain c1 sh1 where s: "shape_dim (c, sh) j = Inr (c1, sh1)" "foldE shape_dim js (c1, sh1) = Inr (c', sh')"
    by (auto simp: bindE_Inr_iff)
  show ?case using Cons.IH[OF s(2)] shape_dim_exact[OF s(1) Cons.prems(2-)] by blast
qed simp

lemma parse_tensor_ok:
  assumes "parse_tensor bytes sec sz spec = Inr v" and "8 \<le> sec" and "sec + sz = length bytes"
  shows "in_bounds v \<and> tv_base v = bytes"
proof -
  from assms(1) obtain js c where
    f: "foldE shape_dim js (1, []) = Inr (c, tv_shape v)" and dt: "tv_dtype v \<noteq> kUnknown" and base: "tv_base v = bytes"
    and o: "\<not> (2 ^ 64 - 1) div DtypeSize (tv_dtype v) < c"
    and n: "tv_nbytes v = c * DtypeSize (tv_dtype v) mod 2 ^ 64"
    and b: "sec \<le> tv_offset v" "tv_offset v + tv_nbytes v \<le> sec + sz"
    by (auto simp: parse_tensor_def bindE_Inr_iff Let_def intro!: that split: option.splits)
  note s = shape_fold_exact[OF f]
  have "c \<le> (2 ^ 64 - 1) div DtypeSize (tv_dtype v)" using o by simp
  then have "c * DtypeSize (tv_dtype v) \<le> 2 ^ 64 - 1"
    using DtypeSize_pos[OF dt] by (simp add: less_eq_div_iff_mult_less_eq)
  then have "tv_nbytes v = c * DtypeSize (tv_dtype v)" using n by simp
  then show ?thesis using s b dt base assms(2,3) by (simp add: in_bounds_def)
qed

definition file_ok :: "FileSystem \<Rightarrow> SafetensorsFile \<Rightarrow> bool" where
  "file_ok fs f \<longleftrightarrow> distinct (map fst (sf_tensors f)) \<and>
     (\<forall>(name, v)\<in>set (sf_tensors f). in_bounds v \<and> fs_bytes fs (sf_path f) = Some (tv_base v))"

lemma parse_entries_ok:
  assumes "8 \<le> sec" and "sec + sz = length bytes"
  shows "foldE (parse_entry bytes sec sz) items ts = Inr ts' \<Longrightarrow> distinct (map fst ts) \<Longrightarrow>
    \<forall>(name, v)\<in>set ts. in_bounds v \<and> tv_base v = bytes \<Longrightarrow>
    distinct (map fst ts') \<and> (\<forall>(name, v)\<in>set ts'. in_bounds v \<and> tv_base v = bytes)"
proof (induction items arbitrary: ts)
  case (Cons i items)
  obtain name spec where i: "i = (name, spec)" by (cases i)
  from Cons.prems(1) obtain us where us: "parse_entry bytes sec sz ts i = Inr us"
    "foldE (parse_entry bytes sec sz) items us = Inr ts'" by (auto simp: bindE_Inr_iff)
  have "distinct (map fst us) \<and> (\<forall>(name, v)\<in>set us. in_bounds v \<and> tv_base v = bytes)"
    using us(1) Cons.prems(2,3) parse_tensor_ok[OF _ assms]
    by (auto simp: i parse_entry_def emplace_def bindE_Inr_iff map_of_eq_None_iff split: if_splits)
  then show ?case using Cons.IH[OF us(2)] by blast
qed simp

lemma OpenFile_ok:
  assumes "OpenFile parse fs path = Inr f"
  shows "file_ok fs f \<and> sf_path f = path"
proof -
  from assms obtain bytes ts where b: "fs_bytes fs path = Some bytes" "\<not> length bytes < 8"
    and p: "ParseHeader parse bytes = Inr ts" and f: "f = \<lparr>sf_path = path, sf_tensors = ts\<rparr>"
    by (auto simp: OpenFile_def bindE_Inr_iff split: option.splits)
  let ?h = "unat (ReadLeU64 bytes)"
  from p obtain items where h: "\<not> ?h > length bytes - 8"
    and i: "foldE (parse_entry bytes (8 + ?h) (length bytes - 8 - ?h)) items [] = Inr ts"
    by (auto simp: ParseHeader_def bindE_Inr_iff Let_def split: option.splits json.splits)
  have "8 + ?h + (length bytes - 8 - ?h) = length bytes" using h b(2) by simp
  from parse_entries_ok[OF _ this i] b show ?thesis by (auto simp: file_ok_def f)
qed

lemma mapE_files: "mapE (\<lambda>name. OpenFile parse fs (p name)) names = Inr shards \<Longrightarrow> \<forall>f\<in>set shards. file_ok fs f"
proof (induction names arbitrary: shards)
  case (Cons n names)
  then show ?case using OpenFile_ok by (auto simp: bindE_Inr_iff)
qed simp

lemma merge_tensors:
  "foldE merge_tensor ts merged = Inr m \<Longrightarrow> distinct (map fst merged) \<Longrightarrow> m = merged @ ts \<and> distinct (map fst m)"
proof (induction ts arbitrary: merged)
  case (Cons x ts)
  from Cons.prems(1) obtain m1 where m1: "merge_tensor merged x = Inr m1" "foldE merge_tensor ts m1 = Inr m"
    by (auto simp: bindE_Inr_iff)
  then have s: "map_of merged (fst x) = None" "foldE merge_tensor ts (merged @ [x]) = Inr m"
    by (auto simp: merge_tensor_def[of merged] split: prod.splits if_splits)
  have "distinct (map fst (merged @ [x]))" using s(1) Cons.prems(2) by (simp add: map_of_eq_None_iff)
  from Cons.IH[OF s(2) this] show ?case by (metis append.assoc append_Cons append_Nil)
qed simp

lemma merge_shards:
  "foldE merge_shard shards merged = Inr m \<Longrightarrow> distinct (map fst merged) \<Longrightarrow>
     m = merged @ concat (map sf_tensors shards) \<and> distinct (map fst m)"
proof (induction shards arbitrary: merged)
  case (Cons f shards)
  from Cons.prems(1) obtain m1 where "merge_shard merged f = Inr m1" and s2: "foldE merge_shard shards m1 = Inr m"
    by (auto simp: bindE_Inr_iff)
  then have s: "foldE merge_tensor (sf_tensors f) merged = Inr m1" by (simp add: merge_shard_def)
  note a = merge_tensors[OF s Cons.prems(2)]
  show ?case using Cons.IH[OF s2 conjunct2[OF a]] conjunct1[OF a]
    by (metis append.assoc concat.simps(2) list.simps(9))
qed simp

definition model_ok :: "FileSystem \<Rightarrow> SafetensorsModel \<Rightarrow> bool" where
  "model_ok fs m \<longleftrightarrow> sm_merged m = concat (map sf_tensors (sm_shards m)) \<and>
     distinct (map fst (sm_merged m)) \<and> (\<forall>f\<in>set (sm_shards m). file_ok fs f)"

lemma OpenDir_ok:
  assumes "OpenDir parse fs dir = Inr m" shows "model_ok fs m"
proof (cases "fs_exists fs (fs_join fs dir kSingleFileName)")
  case True
  then obtain f where f: "OpenFile parse fs (fs_join fs dir kSingleFileName) = Inr f" "m = \<lparr>sm_shards = [f], sm_merged = sf_tensors f\<rparr>"
    using assms by (auto simp: OpenDir_def Let_def OpenSingle_def bindE_Inr_iff)
  have "file_ok fs f" using OpenFile_ok[OF f(1)] by (rule conjunct1)
  then show ?thesis by (simp add: f(2) model_ok_def file_ok_def)
next
  case False
  with assms have o: "OpenIndex parse fs (fs_join fs dir kIndexFileName) = Inr m"
    by (simp add: OpenDir_def Let_def split: if_splits)
  obtain names shards merged where
    s: "mapE (\<lambda>name. OpenFile parse fs (fs_join fs (fs_parent fs (fs_join fs dir kIndexFileName)) name)) names = Inr shards"
       "foldE merge_shard shards [] = Inr merged"
       "m = \<lparr>sm_shards = shards, sm_merged = merged\<rparr>"
    using o unfolding OpenIndex_def Let_def
    by (auto simp: bindE_Inr_iff split: option.splits prod.splits json.splits)
  have "merged = [] @ concat (map sf_tensors shards) \<and> distinct (map fst merged)" by (rule merge_shards[OF s(2)]) simp
  then show ?thesis using mapE_files[OF s(1)] unfolding s(3) model_ok_def SafetensorsModel.simps append_Nil by blast
qed

lemma distinct_concat_unique:
  "distinct (concat xss) \<Longrightarrow> i < length xss \<Longrightarrow> j < length xss \<Longrightarrow> x \<in> set (xss ! i) \<Longrightarrow> x \<in> set (xss ! j) \<Longrightarrow> i = j"
proof (induction xss arbitrary: i j)
  case (Cons xs xss)
  have "x \<notin> set (xss ! k)" if "x \<in> set xs" "k < length xss" for k
    using that(1) Cons.prems(1) nth_mem[OF that(2)] by (auto simp: disjoint_iff)
  then show ?case using Cons by (cases i; cases j) auto
qed simp

lemma FileContains_iff: "FileContains f name \<longleftrightarrow> name \<in> set (map fst (sf_tensors f))"
  by (simp add: FileContains_def map_of_eq_None_iff)

lemma ModelTensor_ok:
  assumes "model_ok fs m" and "ModelTensor m name = Inr v"
  shows "in_bounds v \<and>
    (\<exists>i<length (sm_shards m). FileTensor (sm_shards m ! i) name = Inr v \<and>
       fs_bytes fs (sf_path (sm_shards m ! i)) = Some (tv_base v) \<and>
       (\<forall>j<length (sm_shards m). FileContains (sm_shards m ! j) name \<longrightarrow> j = i))"
proof -
  let ?ss = "sm_shards m"
  have "map_of (sm_merged m) name = Some v" using assms(2) by (simp add: ModelTensor_def split: option.splits)
  then have "(name, v) \<in> set (concat (map sf_tensors ?ss))" using assms(1) by (metis map_of_SomeD model_ok_def)
  then obtain i where i: "i < length ?ss" "(name, v) \<in> set (sf_tensors (?ss ! i))"
    using in_set_conv_nth[of _ ?ss] by fastforce
  have f: "file_ok fs (?ss ! i)" using assms(1) i(1) by (simp add: model_ok_def)
  have "distinct (concat (map (\<lambda>f. map fst (sf_tensors f)) ?ss))"
    using assms(1) unfolding model_ok_def by (metis (no_types, lifting) map_concat map_map comp_def map_eq_conv)
  from distinct_concat_unique[OF this] i
  have "j = i" if "j < length ?ss" "FileContains (?ss ! j) name" for j
    using that by (force simp: FileContains_iff)
  moreover have "FileTensor (?ss ! i) name = Inr v"
    using f i(2) by (simp add: FileTensor_def file_ok_def)
  moreover have "in_bounds v \<and> fs_bytes fs (sf_path (?ss ! i)) = Some (tv_base v)"
    using f i(2) by (auto simp: file_ok_def)
  ultimately show ?thesis using i(1) by blast
qed

text \<open>
  C25: Every tensor view of an opened checkpoint is inside its file. Whatever bytes the files hold
  and whatever the JSON parser returns: a view that a model opened by \<open>OpenDir\<close> hands out for a
  name comes from exactly one of its shards, points into the mapping of that shard behind the
  length prefix, ends inside the mapping, has a known data type and non-negative dimensions, and its
  byte count is the product of its shape and the size of the type, with no wrap-around anywhere.
\<close>

theorem safetensors_views_in_bounds:
  assumes "OpenDir parse fs dir = Inr m" and "ModelTensor m name = Inr v"
  shows "8 \<le> tv_offset v \<and> tv_offset v + tv_nbytes v \<le> length (tv_base v) \<and> tv_dtype v \<noteq> kUnknown \<and>
    (\<forall>d\<in>set (tv_shape v). 0 \<le> d \<and> d < 2 ^ 63) \<and>
    int (tv_nbytes v) = prod_list (tv_shape v) * int (DtypeSize (tv_dtype v)) \<and>
    (\<exists>i<length (sm_shards m). FileTensor (sm_shards m ! i) name = Inr v \<and>
       fs_bytes fs (sf_path (sm_shards m ! i)) = Some (tv_base v) \<and>
       (\<forall>j<length (sm_shards m). FileContains (sm_shards m ! j) name \<longrightarrow> j = i))"
  using ModelTensor_ok[OF OpenDir_ok[OF assms(1)] assms(2)] by (simp add: in_bounds_def)

text \<open>A file of a one-byte header and four bytes of data; the parser stands for its JSON text.\<close>

definition demo_bytes :: "8 word list" where
  "demo_bytes = [1, 0, 0, 0, 0, 0, 0, 0, 123, 10, 20, 30, 40]"

definition demo_entry :: "int \<Rightarrow> json" where
  "demo_entry e = JObj [(''dtype'', JStr ''BF16''), (''shape'', JArr [JInt 2, JInt 1]),
     (''data_offsets'', JArr [JInt 0, JInt e])]"

definition demo_header :: json_parser where
  "demo_header text = (if text = [123] then
     Some (JObj [(''w'', demo_entry 4)], [(1, ''w''), (2, ''dtype''), (2, ''shape''), (2, ''data_offsets'')])
     else None)"

definition demo_fs :: FileSystem where
  "demo_fs = \<lparr>fs_bytes = (\<lambda>p. if p = ''d/model.safetensors'' then Some demo_bytes else None),
     fs_exists = (\<lambda>p. p = ''d/model.safetensors''), fs_join = (\<lambda>d f. d @ ''/'' @ f), fs_parent = (\<lambda>p. ''d'')\<rparr>"

definition demo_view :: TensorView where
  "demo_view = \<lparr>tv_dtype = kBF16, tv_shape = [2, 1], tv_base = demo_bytes, tv_offset = 9, tv_nbytes = 4\<rparr>"

lemma demo_header_size: "unat (ReadLeU64 demo_bytes) = 1" by code_simp

lemma demo_ParseHeader: "ParseHeader demo_header demo_bytes = Inr [(''w'', demo_view)]"
proof -
  have k: "duplicate (watch_keys [(1, ''w''), (2, ''dtype''), (2, ''shape''), (2, ''data_offsets'')]) = []" by code_simp
  have t: "parse_tensor demo_bytes 9 4 (demo_entry 4) = Inr demo_view"
    by (simp add: parse_tensor_def demo_entry_def DtypeFromString_def shape_dim_def parse_offsets_def RequireU64_def
        Let_def demo_view_def)
  have "demo_header [123] = Some (JObj [(''w'', demo_entry 4)], [(1, ''w''), (2, ''dtype''), (2, ''shape''), (2, ''data_offsets'')])"
    by (simp add: demo_header_def)
  moreover have "take 1 (drop 8 demo_bytes) = [123]" "length demo_bytes = 13" by (simp_all add: demo_bytes_def)
  ultimately show ?thesis using k t
    by (simp add: ParseHeader_def demo_header_size parse_entry_def emplace_def)
qed

lemma demo_open:
  "OpenDir demo_header demo_fs ''d'' =
     Inr \<lparr>sm_shards = [\<lparr>sf_path = ''d/model.safetensors'', sf_tensors = [(''w'', demo_view)]\<rparr>],
       sm_merged = [(''w'', demo_view)]\<rparr>"
proof -
  have "\<not> length demo_bytes < 8" by (simp add: demo_bytes_def)
  then show ?thesis
    by (simp add: OpenDir_def Let_def OpenSingle_def OpenFile_def demo_fs_def kSingleFileName_def demo_ParseHeader)
qed

theorem safetensors_views_in_bounds_witness:
  "\<exists>m. OpenDir demo_header demo_fs ''d'' = Inr m \<and> ModelTensor m ''w'' = Inr demo_view \<and>
     tv_offset demo_view + tv_nbytes demo_view \<le> 13"
proof -
  have o: "OpenDir demo_header demo_fs ''d'' =
      Inr \<lparr>sm_shards = [\<lparr>sf_path = ''d/model.safetensors'', sf_tensors = [(''w'', demo_view)]\<rparr>],
        sm_merged = [(''w'', demo_view)]\<rparr>"
    by (rule demo_open)
  let ?m = "\<lparr>sm_shards = [\<lparr>sf_path = ''d/model.safetensors'', sf_tensors = [(''w'', demo_view)]\<rparr>],
        sm_merged = [(''w'', demo_view)]\<rparr>"
  have t: "ModelTensor ?m ''w'' = Inr demo_view" by (simp add: ModelTensor_def)
  from safetensors_views_in_bounds[OF o t] have "tv_offset demo_view + tv_nbytes demo_view \<le> length (tv_base demo_view)" by blast
  then show ?thesis using o t by (auto simp: demo_view_def demo_bytes_def)
qed

end
