(* ===== verification/Weights.thy ===== *)
theory Weights
  imports Upload Safetensors
begin

text \<open>
  \<^verbatim>\<open>src/src/loader/weights.{hpp,cpp}\<close>: the fused device layout of the weights and their load.

  The state of a load is the staged uploader (with the device memory it writes) and the slabs that
  are allocated. \<^verbatim>\<open>cudaMalloc\<close> is a parameter: the address it returns for a size, or \<open>None\<close>.
  \<^verbatim>\<open>std::int64_t\<close> values are \<open>int\<close>; every one that occurs is bounded by the size of the slab.
\<close>

section \<open>The geometry\<close>

definition wl_kHiddenSize :: int where "wl_kHiddenSize = 1536"
definition wl_kNumLayers :: int where "wl_kNumLayers = 28"
definition wl_kVocabSize :: int where "wl_kVocabSize = 151936"
definition wl_kIntermediateSize :: int where "wl_kIntermediateSize = 8960"
definition kQRows :: int where "kQRows = 1536"
definition kKvRows :: int where "kKvRows = 256"
definition kQRowBegin :: int where "kQRowBegin = 0"
definition kKRowBegin :: int where "kKRowBegin = 1536"
definition kVRowBegin :: int where "kVRowBegin = 1792"
definition kQkvRows :: int where "kQkvRows = 2048"
definition kGateRows :: int where "kGateRows = 8960"
definition kGateRowBegin :: int where "kGateRowBegin = 0"
definition kUpRowBegin :: int where "kUpRowBegin = 8960"
definition kGateUpRows :: int where "kGateUpRows = 17920"

definition kTotalWeightBytesTied :: int where
  "kTotalWeightBytesTied =
     2 * (wl_kVocabSize * wl_kHiddenSize
          + wl_kNumLayers * (kQkvRows * wl_kHiddenSize + kQkvRows
                             + wl_kHiddenSize * wl_kHiddenSize
                             + kGateUpRows * wl_kHiddenSize
                             + wl_kHiddenSize * wl_kIntermediateSize
                             + 2 * wl_kHiddenSize)
          + wl_kHiddenSize)"

lemmas wl_defs = wl_kHiddenSize_def wl_kNumLayers_def wl_kVocabSize_def wl_kIntermediateSize_def
  kQRows_def kKvRows_def kQRowBegin_def kKRowBegin_def kVRowBegin_def kQkvRows_def
  kGateRows_def kGateRowBegin_def kUpRowBegin_def kGateUpRows_def

datatype DeviceTensorKind =
    kEmbed | kWqkv | kBqkv | kWo | kWgateup | kWdown | kInputNorm | kPostAttnNorm | kFinalNorm | kLmHead

record WeightMapEntry =
  hf_name :: string
  dest :: DeviceTensorKind
  wm_layer :: int
  dest_row_begin :: int
  expected_shape :: "int list"

definition num_elements :: "WeightMapEntry \<Rightarrow> int" where
  "num_elements e = fold (\<lambda>dim n. n * dim) (expected_shape e) 1"

definition dest_rows :: "WeightMapEntry \<Rightarrow> int" where
  "dest_rows e = (case expected_shape e of [] \<Rightarrow> 0 | d # ds \<Rightarrow> d)"

datatype weights_error =
    WeightsError string
  | WeightsAssert string
  | UploadError convert_error
  | OpenError st_error

definition CheckGeometry :: "int \<Rightarrow> int \<Rightarrow> string \<Rightarrow> weights_error + unit" where
  "CheckGeometry actual expected_value what = assertE (\<not> actual \<noteq> expected_value) (WeightsError what)"

definition RequireDesignGeometry :: "ModelConfig \<Rightarrow> weights_error + unit" where
  "RequireDesignGeometry config =
     bindE (CheckGeometry (hidden_size config) wl_kHiddenSize ''hidden_size'') (\<lambda>_.
     bindE (CheckGeometry (num_layers config) wl_kNumLayers ''num_hidden_layers'') (\<lambda>_.
     bindE (CheckGeometry (vocab_size config) wl_kVocabSize ''vocab_size'') (\<lambda>_.
     bindE (CheckGeometry (intermediate_size config) wl_kIntermediateSize ''intermediate_size'') (\<lambda>_.
     bindE (CheckGeometry (num_q_heads config * head_dim config) kQRows ''num_attention_heads * head_dim'') (\<lambda>_.
     bindE (CheckGeometry (num_kv_heads config * head_dim config) kKvRows ''num_key_value_heads * head_dim'') (\<lambda>_.
     assertE (\<not> \<not> qkv_bias config) (WeightsError ''qkv_bias = false'')))))))"

section \<open>The map of checkpoint tensors\<close>

definition LayerTensorName :: "int \<Rightarrow> string \<Rightarrow> string" where
  "LayerTensorName layer suffix = ''model.layers.'' @ to_string layer @ suffix"

definition DestRowWidth :: "DeviceTensorKind \<Rightarrow> ModelConfig \<Rightarrow> int" where
  "DestRowWidth kind config =
     (case kind of
        kEmbed \<Rightarrow> hidden_size config | kLmHead \<Rightarrow> hidden_size config | kWqkv \<Rightarrow> hidden_size config
      | kWo \<Rightarrow> hidden_size config | kWgateup \<Rightarrow> hidden_size config
      | kWdown \<Rightarrow> intermediate_size config
      | kBqkv \<Rightarrow> 1 | kInputNorm \<Rightarrow> 1 | kPostAttnNorm \<Rightarrow> 1 | kFinalNorm \<Rightarrow> 1)"

definition entry :: "string \<Rightarrow> DeviceTensorKind \<Rightarrow> int \<Rightarrow> int \<Rightarrow> int list \<Rightarrow> WeightMapEntry" where
  "entry name kind l row shape =
     \<lparr>hf_name = name, dest = kind, wm_layer = l, dest_row_begin = row, expected_shape = shape\<rparr>"

definition layer_entries :: "int \<Rightarrow> int \<Rightarrow> int \<Rightarrow> int \<Rightarrow> int \<Rightarrow> WeightMapEntry list" where
  "layer_entries hidden intermediate q_rows kv_rows l =
     [entry (LayerTensorName l ''.input_layernorm.weight'') kInputNorm l 0 [hidden],
      entry (LayerTensorName l ''.self_attn.q_proj.weight'') kWqkv l kQRowBegin [q_rows, hidden],
      entry (LayerTensorName l ''.self_attn.q_proj.bias'') kBqkv l kQRowBegin [q_rows],
      entry (LayerTensorName l ''.self_attn.k_proj.weight'') kWqkv l kKRowBegin [kv_rows, hidden],
      entry (LayerTensorName l ''.self_attn.k_proj.bias'') kBqkv l kKRowBegin [kv_rows],
      entry (LayerTensorName l ''.self_attn.v_proj.weight'') kWqkv l kVRowBegin [kv_rows, hidden],
      entry (LayerTensorName l ''.self_attn.v_proj.bias'') kBqkv l kVRowBegin [kv_rows],
      entry (LayerTensorName l ''.self_attn.o_proj.weight'') kWo l 0 [hidden, hidden],
      entry (LayerTensorName l ''.post_attention_layernorm.weight'') kPostAttnNorm l 0 [hidden],
      entry (LayerTensorName l ''.mlp.gate_proj.weight'') kWgateup l kGateRowBegin [intermediate, hidden],
      entry (LayerTensorName l ''.mlp.up_proj.weight'') kWgateup l kUpRowBegin [intermediate, hidden],
      entry (LayerTensorName l ''.mlp.down_proj.weight'') kWdown l 0 [hidden, intermediate]]"

definition BuildWeightMap :: "ModelConfig \<Rightarrow> bool \<Rightarrow> weights_error + WeightMapEntry list" where
  "BuildWeightMap config has_lm_head =
     bindE (RequireDesignGeometry config) (\<lambda>_.
     let hidden = hidden_size config; intermediate = intermediate_size config; vocab = vocab_size config;
         q_rows = num_q_heads config * head_dim config; kv_rows = num_kv_heads config * head_dim config in
     Inr ([entry ''model.embed_tokens.weight'' kEmbed (-1) 0 [vocab, hidden]]
          @ concat (map (layer_entries hidden intermediate q_rows kv_rows) (map int [0..<nat (num_layers config)]))
          @ [entry ''model.norm.weight'' kFinalNorm (-1) 0 [hidden]]
          @ (if has_lm_head then [entry ''lm_head.weight'' kLmHead (-1) 0 [vocab, hidden]] else [])))"

section \<open>The layout of the slab\<close>

record LayerOffsets =
  w_qkv :: int
  b_qkv :: int
  w_o :: int
  w_gateup :: int
  w_down :: int
  input_norm :: int
  post_attn_norm :: int

record WeightsLayout =
  wly_embed :: int
  wly_layers :: "LayerOffsets list"
  wly_final_norm :: int
  wly_lm_head :: int
  lm_head_aliases_embed :: bool
  wly_total_bytes :: int

definition OffsetFor :: "WeightsLayout \<Rightarrow> DeviceTensorKind \<Rightarrow> int \<Rightarrow> weights_error + int" where
  "OffsetFor layout kind layer =
     (if kind = kEmbed then Inr (wly_embed layout)
      else if kind = kLmHead then Inr (wly_lm_head layout)
      else if kind = kFinalNorm then Inr (wly_final_norm layout)
      else
        bindE (assertE (layer \<ge> 0 \<and> nat layer < length (wly_layers layout))
                 (WeightsAssert ''layer >= 0 && layer < layers.size()'')) (\<lambda>_.
        let off = wly_layers layout ! nat layer in
        case kind of
          kWqkv \<Rightarrow> Inr (w_qkv off) | kBqkv \<Rightarrow> Inr (b_qkv off) | kWo \<Rightarrow> Inr (w_o off)
        | kWgateup \<Rightarrow> Inr (w_gateup off) | kWdown \<Rightarrow> Inr (w_down off)
        | kInputNorm \<Rightarrow> Inr (input_norm off) | kPostAttnNorm \<Rightarrow> Inr (post_attn_norm off)
        | _ \<Rightarrow> Inl (WeightsAssert ''unhandled DeviceTensorKind'')))"

text \<open>The region that starts at the running offset, and the offset behind it.\<close>

definition place :: "int \<Rightarrow> int \<Rightarrow> int \<times> int" where
  "place offset bytes = (offset, (offset + bytes + 256 - 1) div 256 * 256)"

definition place_layer :: "int \<Rightarrow> int \<Rightarrow> int \<Rightarrow> LayerOffsets \<times> int" where
  "place_layer hidden intermediate offset =
     (let (qkv, offset) = place offset (kQkvRows * hidden * 2);
          (bqkv, offset) = place offset (kQkvRows * 2);
          (wo, offset) = place offset (hidden * hidden * 2);
          (gateup, offset) = place offset (kGateUpRows * hidden * 2);
          (down, offset) = place offset (hidden * intermediate * 2);
          (inorm, offset) = place offset (hidden * 2);
          (pnorm, offset) = place offset (hidden * 2) in
      (\<lparr>w_qkv = qkv, b_qkv = bqkv, w_o = wo, w_gateup = gateup, w_down = down,
        input_norm = inorm, post_attn_norm = pnorm\<rparr>, offset))"

fun place_layers :: "int \<Rightarrow> int \<Rightarrow> nat \<Rightarrow> int \<Rightarrow> LayerOffsets list \<times> int" where
  "place_layers hidden intermediate 0 offset = ([], offset)"
| "place_layers hidden intermediate (Suc n) offset =
     (let (l, offset1) = place_layer hidden intermediate offset;
          (ls, offset2) = place_layers hidden intermediate n offset1 in
      (l # ls, offset2))"

definition ComputeWeightsLayout :: "ModelConfig \<Rightarrow> bool \<Rightarrow> weights_error + WeightsLayout" where
  "ComputeWeightsLayout config has_lm_head =
     bindE (RequireDesignGeometry config) (\<lambda>_.
     let hidden = hidden_size config; intermediate = intermediate_size config; vocab = vocab_size config;
         (embed, offset) = place 0 (vocab * hidden * 2);
         (layers, offset) = place_layers hidden intermediate (nat (num_layers config)) offset;
         (fnorm, offset) = place offset (hidden * 2);
         (lm_head, offset) = (if has_lm_head then place offset (vocab * hidden * 2) else (embed, offset)) in
     Inr \<lparr>wly_embed = embed, wly_layers = layers, wly_final_norm = fnorm, wly_lm_head = lm_head,
          lm_head_aliases_embed = (\<not> has_lm_head), wly_total_bytes = offset\<rparr>)"

definition EntryByteOffset :: "WeightsLayout \<Rightarrow> WeightMapEntry \<Rightarrow> ModelConfig \<Rightarrow> weights_error + int" where
  "EntryByteOffset layout e config =
     bindE (OffsetFor layout (dest e) (wm_layer e)) (\<lambda>base.
     Inr (base + dest_row_begin e * DestRowWidth (dest e) config * 2))"

definition TotalDeviceBytes :: "ModelConfig \<Rightarrow> bool \<Rightarrow> weights_error + int" where
  "TotalDeviceBytes config has_separate_lm_head =
     bindE (ComputeWeightsLayout config has_separate_lm_head) (\<lambda>layout. Inr (wly_total_bytes layout))"

section \<open>The load\<close>

definition ValidateEntry :: "SafetensorsModel \<Rightarrow> unit \<Rightarrow> WeightMapEntry \<Rightarrow> weights_error + unit" where
  "ValidateEntry model u e =
     bindE (assertE (ModelContains model (hf_name e)) (WeightsError (hf_name e @ '' is missing''))) (\<lambda>_.
     case ModelTensor model (hf_name e) of
       Inl err \<Rightarrow> Inl (OpenError err)
     | Inr view \<Rightarrow>
         bindE (assertE (\<not> tv_shape view \<noteq> expected_shape e) (WeightsError (hf_name e @ '' has a wrong shape''))) (\<lambda>_.
         assertE (\<not> (tv_dtype view \<noteq> kBF16 \<and> tv_dtype view \<noteq> kF16))
           (WeightsError (hf_name e @ '' has an unsupported dtype''))))"

record LoadState =
  up :: StagedUploader
  slabs :: "nat set"

record DeviceWeights =
  dw_layout :: WeightsLayout
  dw_num_layers :: int
  dw_slab :: nat

type_synonym 'a load = "(LoadState, weights_error, 'a) action"

definition with_uploader :: "'a uploader \<Rightarrow> 'a load" where
  "with_uploader m s =
     (case m (up s) of
        (Inl e, u) \<Rightarrow> (Inl (UploadError e), s\<lparr>up := u\<rparr>)
      | (Inr x, u) \<Rightarrow> (Inr x, s\<lparr>up := u\<rparr>))"

definition liftW :: "weights_error + 'a \<Rightarrow> 'a load" where
  "liftW r s = (r, s)"

definition view_memory :: "TensorView \<Rightarrow> memory" where
  "view_memory v i = tv_base v ! (tv_offset v + i)"

definition upload_entry ::
  "(string \<Rightarrow> nat \<Rightarrow> bool) \<Rightarrow> (nat \<Rightarrow> nat) \<Rightarrow> SafetensorsModel \<Rightarrow> ModelConfig \<Rightarrow> WeightsLayout \<Rightarrow> nat \<Rightarrow>
     WeightMapEntry \<Rightarrow> unit load" where
  "upload_entry ok dma model config layout slab e =
     (case ModelTensor model (hf_name e) of
        Inl err \<Rightarrow> throwS (OpenError err)
      | Inr view \<Rightarrow>
          bindS (liftW (EntryByteOffset layout e config)) (\<lambda>off.
          with_uploader (Upload ok dma (nat (int slab + off)) (view_memory view) (nat (num_elements e))
            (tv_dtype view) (hf_name e) 0)))"

text \<open>The handler of a failed load: drain what is in flight, free the slab, rethrow.\<close>

definition release_slab :: "(string \<Rightarrow> nat \<Rightarrow> bool) \<Rightarrow> (nat \<Rightarrow> nat) \<Rightarrow> nat \<Rightarrow> weights_error \<Rightarrow> 'a load" where
  "release_slab ok dma slab e s =
     (let (r, u) = Synchronize ok dma (up s) in (Inl e, s\<lparr>up := u, slabs := slabs s - {slab}\<rparr>))"

definition catchS :: "('s, 'e, 'a) action \<Rightarrow> ('e \<Rightarrow> ('s, 'e, 'a) action) \<Rightarrow> ('s, 'e, 'a) action" where
  "catchS m h s = (case m s of (Inl e, t) \<Rightarrow> h e t | (Inr x, t) \<Rightarrow> (Inr x, t))"

definition transfer_weights ::
  "(string \<Rightarrow> nat \<Rightarrow> bool) \<Rightarrow> (nat \<Rightarrow> nat) \<Rightarrow> SafetensorsModel \<Rightarrow> ModelConfig \<Rightarrow> WeightsLayout \<Rightarrow> nat \<Rightarrow>
     WeightMapEntry list \<Rightarrow> unit load" where
  "transfer_weights ok dma model config layout slab entries =
     catchS (bindS (forS (upload_entry ok dma model config layout slab) entries) (\<lambda>_. with_uploader (Synchronize ok dma)))
       (release_slab ok dma slab)"

definition new_DeviceWeights ::
  "(string \<Rightarrow> nat \<Rightarrow> bool) \<Rightarrow> (nat \<Rightarrow> nat) \<Rightarrow> (int \<Rightarrow> nat option) \<Rightarrow> SafetensorsModel \<Rightarrow> ModelConfig \<Rightarrow> DeviceWeights load" where
  "new_DeviceWeights ok dma malloc model config =
     (let has_lm_head = ModelContains model ''lm_head.weight'' in
      if \<not> has_lm_head \<and> \<not> tie_word_embeddings config then
        throwS (WeightsError ''tie_word_embeddings is false but the checkpoint has no lm_head.weight'')
      else
        bindS (liftW (ComputeWeightsLayout config has_lm_head)) (\<lambda>layout.
        bindS (liftW (BuildWeightMap config has_lm_head)) (\<lambda>map.
        bindS (liftW (foldE (ValidateEntry model) map ())) (\<lambda>_.
        case malloc (wly_total_bytes layout) of
          None \<Rightarrow> throwS (WeightsError ''cudaMalloc'')
        | Some slab \<Rightarrow>
            bindS (modifyS (\<lambda>s. s\<lparr>slabs := insert slab (slabs s)\<rparr>)) (\<lambda>_.
            bindS (transfer_weights ok dma model config layout slab map) (\<lambda>_.
            returnS \<lparr>dw_layout = layout, dw_num_layers = num_layers config, dw_slab = slab\<rparr>))))))"

section \<open>Accessors\<close>

definition AtByte :: "DeviceWeights \<Rightarrow> int \<Rightarrow> int" where
  "AtByte w byte_offset = int (dw_slab w) + byte_offset"

definition LayerAt :: "DeviceWeights \<Rightarrow> int \<Rightarrow> weights_error + LayerOffsets" where
  "LayerAt w layer =
     bindE (assertE (layer \<ge> 0 \<and> layer < dw_num_layers w) (WeightsAssert ''layer >= 0 && layer < num_layers_'')) (\<lambda>_.
     Inr (wly_layers (dw_layout w) ! nat layer))"

text \<open>The pointer that the accessor of a fused tensor returns.\<close>

definition weight_pointer :: "DeviceWeights \<Rightarrow> DeviceTensorKind \<Rightarrow> int \<Rightarrow> weights_error + int" where
  "weight_pointer w kind layer =
     (case kind of
        kEmbed \<Rightarrow> Inr (AtByte w (wly_embed (dw_layout w)))
      | kLmHead \<Rightarrow> Inr (AtByte w (wly_lm_head (dw_layout w)))
      | kFinalNorm \<Rightarrow> Inr (AtByte w (wly_final_norm (dw_layout w)))
      | kWqkv \<Rightarrow> bindE (LayerAt w layer) (\<lambda>l. Inr (AtByte w (w_qkv l)))
      | kBqkv \<Rightarrow> bindE (LayerAt w layer) (\<lambda>l. Inr (AtByte w (b_qkv l)))
      | kWo \<Rightarrow> bindE (LayerAt w layer) (\<lambda>l. Inr (AtByte w (w_o l)))
      | kWgateup \<Rightarrow> bindE (LayerAt w layer) (\<lambda>l. Inr (AtByte w (w_gateup l)))
      | kWdown \<Rightarrow> bindE (LayerAt w layer) (\<lambda>l. Inr (AtByte w (w_down l)))
      | kInputNorm \<Rightarrow> bindE (LayerAt w layer) (\<lambda>l. Inr (AtByte w (input_norm l)))
      | kPostAttnNorm \<Rightarrow> bindE (LayerAt w layer) (\<lambda>l. Inr (AtByte w (post_attn_norm l))))"

section \<open>The pinned geometry\<close>

lemma geometry_iff:
  "RequireDesignGeometry config = Inr u \<longleftrightarrow>
     hidden_size config = 1536 \<and> num_layers config = 28 \<and> vocab_size config = 151936 \<and>
     intermediate_size config = 8960 \<and> num_q_heads config * head_dim config = 1536 \<and>
     num_kv_heads config * head_dim config = 256 \<and> qkv_bias config"
  by (auto simp: RequireDesignGeometry_def CheckGeometry_def bindE_Inr_iff wl_defs)

abbreviation layer_bytes :: int where "layer_bytes \<equiv> 93595648"
abbreviation embed_bytes :: int where "embed_bytes \<equiv> 466747392"

definition layer_at :: "int \<Rightarrow> LayerOffsets" where
  "layer_at off =
     \<lparr>w_qkv = off, b_qkv = off + 6291456, w_o = off + 6295552, w_gateup = off + 11014144,
      w_down = off + 66064384, input_norm = off + 93589504, post_attn_norm = off + 93592576\<rparr>"

lemma place_aligned: "off mod 256 = 0 \<Longrightarrow> bytes mod 256 = 0 \<Longrightarrow> place off bytes = (off, off + bytes)"
proof -
  assume "off mod 256 = 0" "bytes mod 256 = 0"
  then obtain q where q: "off + bytes = 256 * q" by (metis dvd_add dvdE mod_0_imp_dvd)
  show ?thesis unfolding place_def q by simp
qed

lemma aligned_add: "off mod 256 = 0 \<Longrightarrow> k mod 256 = 0 \<Longrightarrow> (off + k) mod 256 = (0 :: int)"
  by (simp add: mod_eq_0_iff_dvd)

lemma place_layer_eq:
  assumes "off mod 256 = 0"
  shows "place_layer 1536 8960 off = (layer_at off, off + layer_bytes)"
proof -
  have "place off 6291456 = (off, off + 6291456)" "place (off + 6291456) 4096 = (off + 6291456, off + 6295552)"
    "place (off + 6295552) 4718592 = (off + 6295552, off + 11014144)"
    "place (off + 11014144) 55050240 = (off + 11014144, off + 66064384)"
    "place (off + 66064384) 27525120 = (off + 66064384, off + 93589504)"
    "place (off + 93589504) 3072 = (off + 93589504, off + 93592576)"
    "place (off + 93592576) 3072 = (off + 93592576, off + 93595648)"
    using place_aligned[OF assms, of 6291456] place_aligned[OF aligned_add[OF assms, of 6291456], of 4096]
      place_aligned[OF aligned_add[OF assms, of 6295552], of 4718592] place_aligned[OF aligned_add[OF assms, of 11014144], of 55050240]
      place_aligned[OF aligned_add[OF assms, of 66064384], of 27525120] place_aligned[OF aligned_add[OF assms, of 93589504], of 3072]
      place_aligned[OF aligned_add[OF assms, of 93592576], of 3072]
    by simp_all
  then show ?thesis by (simp add: place_layer_def Let_def kQkvRows_def kGateUpRows_def layer_at_def)
qed

lemma place_layers_eq:
  "off mod 256 = 0 \<Longrightarrow>
     place_layers 1536 8960 n off = (map (\<lambda>i. layer_at (off + int i * layer_bytes)) [0..<n], off + int n * layer_bytes)"
proof (induction n arbitrary: off)
  case (Suc n)
  have "(off + layer_bytes) mod 256 = 0" by (rule aligned_add[OF Suc.prems]) simp
  note ih = Suc.IH[OF this]
  have u: "[0..<Suc n] = 0 # map Suc [0..<n]" by (metis map_Suc_upt upt_conv_Cons zero_less_Suc)
  have s: "off + layer_bytes + int i * layer_bytes = off + int (Suc i) * layer_bytes" for i by simp
  have z: "off + int 0 * layer_bytes = off" by simp
  show ?case
    by (simp only: place_layers.simps place_layer_eq[OF Suc.prems] ih prod.case Let_def u list.map map_map comp_def s z)
qed simp

definition pinned_layout :: "bool \<Rightarrow> WeightsLayout" where
  "pinned_layout b =
     \<lparr>wly_embed = 0, wly_layers = map (\<lambda>i. layer_at (embed_bytes + int i * layer_bytes)) [0..<28],
      wly_final_norm = 3087425536, wly_lm_head = (if b then 3087428608 else 0),
      lm_head_aliases_embed = (\<not> b), wly_total_bytes = 3087428608 + (if b then embed_bytes else 0)\<rparr>"

lemma layout_pinned:
  assumes "RequireDesignGeometry config = Inr ()"
  shows "ComputeWeightsLayout config b = Inr (pinned_layout b)"
proof -
  have e: "place 0 466747392 = (0, 466747392)" "place 3087425536 3072 = (3087425536, 3087428608)"
    "place 3087428608 466747392 = (3087428608, 3554176000)" by (simp_all add: place_def)
  show ?thesis using assms[unfolded geometry_iff] place_layers_eq[of embed_bytes 28]
    by (simp add: ComputeWeightsLayout_def assms Let_def e pinned_layout_def)
qed

abbreviation pinned_layer :: "int \<Rightarrow> WeightMapEntry list" where
  "pinned_layer \<equiv> layer_entries 1536 8960 1536 256"

definition pinned_map :: "bool \<Rightarrow> WeightMapEntry list" where
  "pinned_map b =
     [entry ''model.embed_tokens.weight'' kEmbed (-1) 0 [151936, 1536]]
     @ concat (map (\<lambda>i. pinned_layer (int i)) [0..<28])
     @ [entry ''model.norm.weight'' kFinalNorm (-1) 0 [1536]]
     @ (if b then [entry ''lm_head.weight'' kLmHead (-1) 0 [151936, 1536]] else [])"

lemma map_pinned:
  assumes "RequireDesignGeometry config = Inr ()"
  shows "BuildWeightMap config b = Inr (pinned_map b)"
  using assms[unfolded geometry_iff]
  by (simp add: BuildWeightMap_def assms Let_def pinned_map_def comp_def del: upt_Suc)

section \<open>The entries tile the slab\<close>

text \<open>Consecutive entries: each starts where the one before it ends.\<close>

fun tiles :: "ModelConfig \<Rightarrow> WeightsLayout \<Rightarrow> int \<Rightarrow> WeightMapEntry list \<Rightarrow> int \<Rightarrow> bool" where
  "tiles config layout lo [] hi \<longleftrightarrow> lo = hi"
| "tiles config layout lo (e # es) hi \<longleftrightarrow>
     EntryByteOffset layout e config = Inr lo \<and> 0 \<le> num_elements e \<and>
     tiles config layout (lo + 2 * num_elements e) es hi"

lemma tiles_append:
  "tiles config layout lo (xs @ ys) hi \<longleftrightarrow> (\<exists>mid. tiles config layout lo xs mid \<and> tiles config layout mid ys hi)"
  by (induction xs arbitrary: lo) auto

lemma tiles_concat:
  "(\<And>i. i < n \<Longrightarrow> tiles config layout (lo + int i * k) (f i) (lo + int (Suc i) * k)) \<Longrightarrow>
     tiles config layout lo (concat (map f [0..<n])) (lo + int n * k)"
proof (induction n)
  case (Suc n)
  have "tiles config layout lo (concat (map f [0..<n])) (lo + int n * k)" by (rule Suc.IH) (rule Suc.prems, simp)
  with Suc.prems[of n] show ?case by (auto simp: tiles_append)
qed simp

lemma tiles_inside:
  "tiles config layout lo es hi \<Longrightarrow>
     lo \<le> hi \<and> (\<forall>e\<in>set es. \<exists>off. EntryByteOffset layout e config = Inr off \<and> lo \<le> off \<and> off + 2 * num_elements e \<le> hi)"
proof (induction es arbitrary: lo)
  case (Cons e es)
  from Cons.IH[of "lo + 2 * num_elements e"] Cons.prems show ?case by fastforce
qed simp

definition apart :: "ModelConfig \<Rightarrow> WeightsLayout \<Rightarrow> WeightMapEntry \<Rightarrow> WeightMapEntry \<Rightarrow> bool" where
  "apart config layout e e' \<longleftrightarrow>
     (\<exists>off off'. EntryByteOffset layout e config = Inr off \<and> EntryByteOffset layout e' config = Inr off' \<and>
        (off + 2 * num_elements e \<le> off' \<or> off' + 2 * num_elements e' \<le> off))"

lemma tiles_apart:
  "tiles config layout lo es hi \<Longrightarrow> e \<in> set es \<Longrightarrow> e' \<in> set es \<Longrightarrow> e \<noteq> e' \<Longrightarrow> apart config layout e e'"
proof (induction es arbitrary: lo)
  case (Cons x es)
  then have t: "tiles config layout (lo + 2 * num_elements x) es hi" and x: "EntryByteOffset layout x config = Inr lo"
    by simp_all
  from tiles_inside[OF t] x have "apart config layout x y \<and> apart config layout y x" if "y \<in> set es" for y
    using that by (fastforce simp: apart_def)
  with Cons.IH[OF t] Cons.prems(2-) show ?case by auto
qed simp

lemma tiles_sum: "tiles config layout lo es hi \<Longrightarrow> lo + (\<Sum>e\<leftarrow>es. 2 * num_elements e) = hi"
proof (induction es arbitrary: lo)
  case (Cons e es)
  from Cons.IH[of "lo + 2 * num_elements e"] Cons.prems show ?case by simp
qed simp

definition slab_order :: "'a list \<Rightarrow> 'a list" where
  "slab_order xs = map ((!) xs) [1, 3, 5, 2, 4, 6, 7, 9, 10, 11, 0, 8]"

lemma mset_slab_order: "length xs = 12 \<Longrightarrow> mset (slab_order xs) = mset xs"
proof -
  assume l: "length xs = 12"
  have "[0..<12] = [0, 1, 2, 3, 4, 5, 6, 7, 8, 9, 10, 11]" by code_simp
  then have "mset [1, 3, 5, 2, 4, 6, 7, 9, 10, 11, 0, 8 :: nat] = mset [0..<12]" by simp
  then have "mset (slab_order xs) = mset (map ((!) xs) [0..<length xs])"
    unfolding slab_order_def mset_map l by presburger
  then show ?thesis by (simp add: map_nth)
qed

definition tiled_map :: "bool \<Rightarrow> WeightMapEntry list" where
  "tiled_map b =
     [entry ''model.embed_tokens.weight'' kEmbed (-1) 0 [151936, 1536]]
     @ concat (map (\<lambda>i. slab_order (pinned_layer (int i))) [0..<28])
     @ [entry ''model.norm.weight'' kFinalNorm (-1) 0 [1536]]
     @ (if b then [entry ''lm_head.weight'' kLmHead (-1) 0 [151936, 1536]] else [])"

lemma mset_concat_cong: "(\<And>i. mset (f i) = mset (g i)) \<Longrightarrow> mset (concat (map f xs)) = mset (concat (map g xs))"
  by (induction xs) simp_all

lemma mset_tiled_map: "mset (tiled_map b) = mset (pinned_map b)"
proof -
  have "mset (slab_order (pinned_layer (int i))) = mset (pinned_layer (int i))" for i
    by (rule mset_slab_order) (simp add: layer_entries_def)
  then have "mset (concat (map (\<lambda>i. slab_order (pinned_layer (int i))) xs)) = mset (concat (map (\<lambda>i. pinned_layer (int i)) xs))" for xs
    by (rule mset_concat_cong)
  then show ?thesis unfolding tiled_map_def pinned_map_def mset_append by (simp only:)
qed

lemma pinned_OffsetFor:
  assumes "i < 28" and "c = embed_bytes + int i * layer_bytes"
  shows "OffsetFor (pinned_layout b) kWqkv (int i) = Inr c"
    "OffsetFor (pinned_layout b) kBqkv (int i) = Inr (c + 6291456)"
    "OffsetFor (pinned_layout b) kWo (int i) = Inr (c + 6295552)"
    "OffsetFor (pinned_layout b) kWgateup (int i) = Inr (c + 11014144)"
    "OffsetFor (pinned_layout b) kWdown (int i) = Inr (c + 66064384)"
    "OffsetFor (pinned_layout b) kInputNorm (int i) = Inr (c + 93589504)"
    "OffsetFor (pinned_layout b) kPostAttnNorm (int i) = Inr (c + 93592576)"
proof -
  have "wly_layers (pinned_layout b) ! i = layer_at c" "length (wly_layers (pinned_layout b)) = 28"
    using assms by (simp_all add: pinned_layout_def del: upt_Suc)
  then show "OffsetFor (pinned_layout b) kWqkv (int i) = Inr c"
    "OffsetFor (pinned_layout b) kBqkv (int i) = Inr (c + 6291456)"
    "OffsetFor (pinned_layout b) kWo (int i) = Inr (c + 6295552)"
    "OffsetFor (pinned_layout b) kWgateup (int i) = Inr (c + 11014144)"
    "OffsetFor (pinned_layout b) kWdown (int i) = Inr (c + 66064384)"
    "OffsetFor (pinned_layout b) kInputNorm (int i) = Inr (c + 93589504)"
    "OffsetFor (pinned_layout b) kPostAttnNorm (int i) = Inr (c + 93592576)"
    using assms(1) by (simp_all add: OffsetFor_def Let_def layer_at_def)
qed

lemma layer_tiled:
  assumes "RequireDesignGeometry config = Inr ()" and "i < 28"
  shows "tiles config (pinned_layout b) (embed_bytes + int i * layer_bytes) (slab_order (pinned_layer (int i)))
    (embed_bytes + int (Suc i) * layer_bytes)"
proof -
  define c where "c = embed_bytes + int i * layer_bytes"
  have e: "embed_bytes + int (Suc i) * layer_bytes = c + layer_bytes" by (simp add: c_def)
  show ?thesis unfolding e c_def[symmetric] using assms(1)[unfolded geometry_iff]
    by (simp add: slab_order_def layer_entries_def entry_def EntryByteOffset_def pinned_OffsetFor[OF assms(2) c_def]
        DestRowWidth_def num_elements_def wl_defs)
qed

lemma map_tiles:
  assumes "RequireDesignGeometry config = Inr ()"
  shows "tiles config (pinned_layout b) 0 (tiled_map b) (wly_total_bytes (pinned_layout b))"
proof -
  have l: "tiles config (pinned_layout b) embed_bytes (concat (map (\<lambda>i. slab_order (pinned_layer (int i))) [0..<28]))
      (embed_bytes + int 28 * layer_bytes)"
    by (rule tiles_concat) (rule layer_tiled[OF assms])
  have e: "tiles config (pinned_layout b) 0 [entry ''model.embed_tokens.weight'' kEmbed (-1) 0 [151936, 1536]] embed_bytes"
    and n: "tiles config (pinned_layout b) 3087425536 [entry ''model.norm.weight'' kFinalNorm (-1) 0 [1536]] 3087428608"
    and h: "tiles config (pinned_layout b) 3087428608 (if b then [entry ''lm_head.weight'' kLmHead (-1) 0 [151936, 1536]] else [])
      (wly_total_bytes (pinned_layout b))"
    by (simp_all add: entry_def EntryByteOffset_def OffsetFor_def pinned_layout_def num_elements_def)
  show ?thesis unfolding tiled_map_def tiles_append
    using e l n h by (intro exI conjI; simp)
qed

section \<open>Distinct names\<close>

definition layer_suffixes :: "string list" where
  "layer_suffixes =
     [''.input_layernorm.weight'', ''.self_attn.q_proj.weight'', ''.self_attn.q_proj.bias'',
      ''.self_attn.k_proj.weight'', ''.self_attn.k_proj.bias'', ''.self_attn.v_proj.weight'',
      ''.self_attn.v_proj.bias'', ''.self_attn.o_proj.weight'', ''.post_attention_layernorm.weight'',
      ''.mlp.gate_proj.weight'', ''.mlp.up_proj.weight'', ''.mlp.down_proj.weight'']"

lemma layer_names: "map hf_name (pinned_layer l) = map (LayerTensorName l) layer_suffixes"
  by (simp add: layer_entries_def entry_def layer_suffixes_def)

lemma suffix_facts: "distinct layer_suffixes" "\<forall>s\<in>set layer_suffixes. \<exists>r. s = CHR ''.'' # r"
  by (simp_all add: layer_suffixes_def)

lemma layer_number_facts:
  "distinct (map (\<lambda>i. to_string (int i)) [0..<28])" "list_all (\<lambda>i. CHR ''.'' \<notin> set (to_string (int i))) [0..<28]"
  by code_simp+

lemma layer_number_inj: "i < 28 \<Longrightarrow> j < 28 \<Longrightarrow> to_string (int i) = to_string (int j) \<Longrightarrow> i = j"
proof -
  assume a: "i < 28" "j < 28" "to_string (int i) = to_string (int j)"
  have "inj_on (\<lambda>i. to_string (int i)) (set [0..<28])" using layer_number_facts(1) unfolding distinct_map by blast
  with a show "i = j" by (auto dest: inj_onD)
qed

lemma split_at_dot:
  assumes "xs @ CHR ''.'' # r = ys @ CHR ''.'' # r'" and "CHR ''.'' \<notin> set xs" and "CHR ''.'' \<notin> set ys"
  shows "xs = ys \<and> r = r'"
proof -
  have t: "takeWhile (\<lambda>c. c \<noteq> CHR ''.'') (zs @ CHR ''.'' # q) = zs" if "CHR ''.'' \<notin> set zs" for zs q
    using that by (induction zs) auto
  from assms(1) have "takeWhile (\<lambda>c. c \<noteq> CHR ''.'') (xs @ CHR ''.'' # r) = takeWhile (\<lambda>c. c \<noteq> CHR ''.'') (ys @ CHR ''.'' # r')"
    by (simp only:)
  then have "xs = ys" unfolding t[OF assms(2)] t[OF assms(3)] .
  with assms(1) show ?thesis by simp
qed

lemma LayerTensorName_inj:
  assumes "i < 28" and "j < 28" and "s \<in> set layer_suffixes" and "s' \<in> set layer_suffixes"
    and "LayerTensorName (int i) s = LayerTensorName (int j) s'"
  shows "i = j \<and> s = s'"
proof -
  from bspec[OF suffix_facts(2) assms(3)] bspec[OF suffix_facts(2) assms(4)]
  obtain r r' where r: "s = CHR ''.'' # r" "s' = CHR ''.'' # r'" by (elim exE)
  have n: "CHR ''.'' \<notin> set (to_string (int k))" if "k < 28" for k
    using layer_number_facts(2) that unfolding list_all_iff by simp
  have "to_string (int i) @ CHR ''.'' # r = to_string (int j) @ CHR ''.'' # r'"
    using assms(5) by (simp add: LayerTensorName_def r)
  from split_at_dot[OF this n[OF assms(1)] n[OF assms(2)]] have "to_string (int i) = to_string (int j)" "r = r'" by simp_all
  with layer_number_inj[OF assms(1,2)] r show ?thesis by simp
qed

lemma distinct_layer_names: "distinct (concat (map (\<lambda>i. map (LayerTensorName (int i)) layer_suffixes) [0..<28]))"
proof (rule distinct_concat_map)
  fix i :: nat
  assume i: "i \<in> set [0..<28]"
  have "inj_on (LayerTensorName (int i)) (set layer_suffixes)"
    using LayerTensorName_inj[of i i] i by (intro inj_onI) auto
  then show "distinct (map (LayerTensorName (int i)) layer_suffixes)" using suffix_facts(1) by (simp add: distinct_map)
next
  fix i j :: nat
  assume "i \<in> set [0..<28]" "j \<in> set [0..<28]" "i \<noteq> j"
  then show "set (map (LayerTensorName (int i)) layer_suffixes) \<inter> set (map (LayerTensorName (int j)) layer_suffixes) = {}"
    using LayerTensorName_inj[of i j] by auto
qed simp

lemma distinct_names: "distinct (map hf_name (pinned_map b))"
proof -
  have m: "map hf_name (pinned_map b) =
      ''model.embed_tokens.weight'' # concat (map (\<lambda>i. map (LayerTensorName (int i)) layer_suffixes) [0..<28])
      @ ''model.norm.weight'' # (if b then [''lm_head.weight''] else [])"
    by (simp add: pinned_map_def map_concat comp_def layer_names entry_def del: upt_Suc)
  have "take 13 x = ''model.layers.''"
    if "x \<in> set (concat (map (\<lambda>i. map (LayerTensorName (int i)) layer_suffixes) [0..<28]))" for x
    using that by (auto simp: LayerTensorName_def)
  then have "x \<notin> set (concat (map (\<lambda>i. map (LayerTensorName (int i)) layer_suffixes) [0..<28]))"
    if "x \<in> {''model.embed_tokens.weight'', ''model.norm.weight'', ''lm_head.weight''}" for x
    using that by force
  with distinct_layer_names show ?thesis unfolding m by (simp del: set_concat set_map)
qed

section \<open>What the load leaves on the device\<close>

definition entry_element :: "SafetensorsModel \<Rightarrow> WeightMapEntry \<Rightarrow> nat \<Rightarrow> 16 word" where
  "entry_element model e i =
     (case ModelTensor model (hf_name e) of Inl _ \<Rightarrow> 0 | Inr v \<Rightarrow> element (tv_dtype v) (view_memory v) i)"

text \<open>The bytes of an entry, and what it must hold.\<close>

definition entry_range :: "ModelConfig \<Rightarrow> WeightsLayout \<Rightarrow> nat \<Rightarrow> WeightMapEntry \<Rightarrow> nat set" where
  "entry_range config layout slab e =
     (case EntryByteOffset layout e config of
        Inl _ \<Rightarrow> {} | Inr off \<Rightarrow> {slab + nat off..<slab + nat off + 2 * nat (num_elements e)})"

definition entry_loaded ::
  "SafetensorsModel \<Rightarrow> ModelConfig \<Rightarrow> WeightsLayout \<Rightarrow> nat \<Rightarrow> (nat \<Rightarrow> 16 word) \<Rightarrow> WeightMapEntry \<Rightarrow> bool" where
  "entry_loaded model config layout slab d e \<longleftrightarrow>
     (\<exists>off. EntryByteOffset layout e config = Inr off \<and>
        (\<forall>i<nat (num_elements e). d (slab + nat off + 2 * i) = entry_element model e i))"

lemma with_uploader_out: "with_uploader m s = (Inr x, t) \<longleftrightarrow> (\<exists>u. m (up s) = (Inr x, u) \<and> t = s\<lparr>up := u\<rparr>)"
  by (auto simp: with_uploader_def split: prod.splits sum.splits)

lemma upload_entry_out:
  assumes "upload_entry ok dma model config layout slab e s = (Inr x, t)" and "uploader_ok None (up s)"
    and "EntryByteOffset layout e config = Inr off" and "0 \<le> off"
  shows "uploader_ok None (up t) \<and> slabs t = slabs s \<and>
    final (up t) = put_elements (slab + nat off) (map (entry_element model e) [0..<nat (num_elements e)]) (final (up s))"
proof -
  from assms(1,3) obtain v u where v: "ModelTensor model (hf_name e) = Inr v"
    and u: "Upload ok dma (nat (int slab + off)) (view_memory v) (nat (num_elements e)) (tv_dtype v) (hf_name e) 0 (up s) = (Inr x, u)"
    and t: "t = s\<lparr>up := u\<rparr>"
    by (auto simp: upload_entry_def bindS_out liftW_def with_uploader_out throwS_def split: sum.splits)
  have e: "entry_element model e = element (tv_dtype v) (view_memory v)" by (rule ext) (simp add: entry_element_def v)
  have "nat (int slab + off) = slab + nat off" using assms(4) by simp
  with Upload_out[OF u assms(2)] t show ?thesis by (simp add: e)
qed

lemma put_elements_outside:
  "a \<notin> {dst..<dst + 2 * length xs} \<Longrightarrow> put_elements dst xs d a = d a"
  by (auto simp: put_elements_at)

lemma put_elements_inside: "i < length xs \<Longrightarrow> put_elements dst xs d (dst + 2 * i) = xs ! i"
  by (auto simp: put_elements_at)

lemma upload_entries_out:
  "forS (upload_entry ok dma model config layout slab) es s = (Inr x, t) \<Longrightarrow> uploader_ok None (up s) \<Longrightarrow> distinct es \<Longrightarrow>
   (\<And>e. e \<in> set es \<Longrightarrow> \<exists>off. EntryByteOffset layout e config = Inr off \<and> 0 \<le> off) \<Longrightarrow>
   (\<And>e e'. e \<in> set es \<Longrightarrow> e' \<in> set es \<Longrightarrow> e \<noteq> e' \<Longrightarrow> apart config layout e e') \<Longrightarrow>
   uploader_ok None (up t) \<and> slabs t = slabs s \<and>
   (\<forall>e\<in>set es. entry_loaded model config layout slab (final (up t)) e) \<and>
   (\<forall>a. (\<forall>e\<in>set es. a \<notin> entry_range config layout slab e) \<longrightarrow> final (up t) a = final (up s) a)"
proof (induction es arbitrary: s)
  case (Cons e es)
  from Cons.prems(1) obtain s1 where s1: "upload_entry ok dma model config layout slab e s = (Inr (), s1)"
    "forS (upload_entry ok dma model config layout slab) es s1 = (Inr x, t)" by (auto simp: bindS_out)
  from Cons.prems(4)[of e] obtain off where off: "EntryByteOffset layout e config = Inr off" "0 \<le> off" by auto
  note h = upload_entry_out[OF s1(1) Cons.prems(2) off]
  have ih: "uploader_ok None (up t) \<and> slabs t = slabs s1 \<and>
     (\<forall>e\<in>set es. entry_loaded model config layout slab (final (up t)) e) \<and>
     (\<forall>a. (\<forall>e\<in>set es. a \<notin> entry_range config layout slab e) \<longrightarrow> final (up t) a = final (up s1) a)"
    by (rule Cons.IH[OF s1(2)]) (use h Cons.prems in auto)
  let ?n = "nat (num_elements e)"
  have keep: "final (up t) (slab + nat off + 2 * i) = entry_element model e i" if i: "i < ?n" for i
  proof -
    have "slab + nat off + 2 * i \<notin> entry_range config layout slab e'" if e': "e' \<in> set es" for e'
    proof -
      have "e \<noteq> e'" using Cons.prems(3) e' by auto
      then have "apart config layout e e'" using Cons.prems(5) e' by simp
      moreover obtain off' where "EntryByteOffset layout e' config = Inr off'" "0 \<le> off'" using Cons.prems(4)[of e'] e' by auto
      ultimately show ?thesis using off i by (auto simp: apart_def entry_range_def)
    qed
    then have "final (up t) (slab + nat off + 2 * i) = final (up s1) (slab + nat off + 2 * i)" using ih by blast
    then show ?thesis using h i by (simp add: put_elements_inside)
  qed
  have "final (up t) a = final (up s) a" if "\<forall>e\<in>set (e # es). a \<notin> entry_range config layout slab e" for a
  proof -
    have "final (up t) a = final (up s1) a" using ih that by simp
    moreover have "a \<notin> {slab + nat off..<slab + nat off + 2 * ?n}" using that off(1) by (simp add: entry_range_def)
    ultimately show ?thesis using h by (simp add: put_elements_outside)
  qed
  moreover have "entry_loaded model config layout slab (final (up t)) e" using keep off(1) by (auto simp: entry_loaded_def)
  ultimately show ?case using ih h by simp
qed simp

section \<open>The load as a whole\<close>

lemma pinned_apart:
  assumes "RequireDesignGeometry config = Inr ()" and "e \<in> set (pinned_map b)" and "e' \<in> set (pinned_map b)" and "e \<noteq> e'"
  shows "apart config (pinned_layout b) e e'"
proof -
  have "set (tiled_map b) = set (pinned_map b)" using mset_tiled_map by (metis mset_eq_setD)
  with tiles_apart[OF map_tiles[OF assms(1)]] assms(2-) show ?thesis by blast
qed

lemma pinned_inside:
  assumes "RequireDesignGeometry config = Inr ()" and "e \<in> set (pinned_map b)"
  shows "\<exists>off. EntryByteOffset (pinned_layout b) e config = Inr off \<and> 0 \<le> off \<and>
    off + 2 * num_elements e \<le> wly_total_bytes (pinned_layout b)"
proof -
  have "set (tiled_map b) = set (pinned_map b)" using mset_tiled_map by (metis mset_eq_setD)
  with tiles_inside[OF map_tiles[OF assms(1), of b]] assms(2) show ?thesis by blast
qed

lemma pinned_sum:
  assumes "RequireDesignGeometry config = Inr ()"
  shows "(\<Sum>e\<leftarrow>pinned_map b. 2 * num_elements e) = wly_total_bytes (pinned_layout b)"
proof -
  have "mset (map (\<lambda>e. 2 * num_elements e) (pinned_map b)) = mset (map (\<lambda>e. 2 * num_elements e) (tiled_map b))"
    by (simp only: mset_map mset_tiled_map)
  then have "(\<Sum>e\<leftarrow>pinned_map b. 2 * num_elements e) = (\<Sum>e\<leftarrow>tiled_map b. 2 * num_elements e)"
    by (metis sum_mset_sum_list)
  with tiles_sum[OF map_tiles[OF assms, of b]] show ?thesis by simp
qed

lemma apart_ranges: "apart config layout e e' \<Longrightarrow> 
  EntryByteOffset layout e config = Inr off \<Longrightarrow> 0 \<le> off \<Longrightarrow> EntryByteOffset layout e' config = Inr off' \<Longrightarrow> 0 \<le> off' \<Longrightarrow>
  entry_range config layout slab e \<inter> entry_range config layout slab e' = {}"
  by (auto simp: apart_def entry_range_def)

lemma validated:
  "foldE (ValidateEntry model) es () = Inr () \<Longrightarrow> e \<in> set es \<Longrightarrow>
     \<exists>v. ModelTensor model (hf_name e) = Inr v \<and> tv_shape v = expected_shape e"
proof (induction es)
  case (Cons x es)
  then have "ValidateEntry model () x = Inr ()" "foldE (ValidateEntry model) es () = Inr ()" by (auto simp: bindE_Inr_iff)
  with Cons show ?case by (auto simp: ValidateEntry_def bindE_Inr_iff split: sum.splits)
qed simp

lemma slabs_upload_entry: "slabs (snd (upload_entry ok dma model config layout slab e s)) = slabs s"
  by (auto simp: upload_entry_def bindS_def liftW_def with_uploader_def throwS_def split: sum.splits prod.splits)

lemma slabs_entries: "slabs (snd (forS (upload_entry ok dma model config layout slab) es s)) = slabs s"
proof (induction es arbitrary: s)
  case (Cons e es)
  obtain r s1 where s1: "upload_entry ok dma model config layout slab e s = (r, s1)" by fastforce
  then have "slabs s1 = slabs s" using slabs_upload_entry[of ok dma model config layout slab e s] by simp
  then show ?case using s1 Cons.IH[of s1] by (cases r) (simp_all add: bindS_def)
qed simp

lemma transfer_cases:
  assumes "transfer_weights ok dma model config layout slab es s = (r, t)"
  shows "(\<exists>e. r = Inl e \<and> slabs t = slabs s - {slab}) \<or>
    (\<exists>s1. r = Inr () \<and> forS (upload_entry ok dma model config layout slab) es s = (Inr (), s1) \<and>
       with_uploader (Synchronize ok dma) s1 = (Inr (), t))"
proof -
  obtain r1 s1 where s1: "forS (upload_entry ok dma model config layout slab) es s = (r1, s1)" by fastforce
  then have k: "slabs s1 = slabs s" using slabs_entries[of ok dma model config layout slab es s] by simp
  obtain r2 s2 where s2: "with_uploader (Synchronize ok dma) s1 = (r2, s2)" by fastforce
  then have k2: "slabs s2 = slabs s1" by (auto simp: with_uploader_def split: prod.splits sum.splits)
  show ?thesis using assms s1 s2 k k2
    by (cases r1; cases r2) (auto simp: transfer_weights_def bindS_def catchS_def release_slab_def split: prod.splits)
qed

lemma bind_lift [simp]:
  "bindS (liftW (Inr x)) f s = f x s" "bindS (liftW (Inl e)) f s = (Inl e, s)" "bindS (modifyS g) h s = h () (g s)"
  by (simp_all add: bindS_def liftW_def modifyS_def)

lemma new_DeviceWeights_eq:
  assumes g: "RequireDesignGeometry config = Inr ()"
    and tie: "\<not> (\<not> ModelContains model ''lm_head.weight'' \<and> \<not> tie_word_embeddings config)"
  shows "new_DeviceWeights ok dma malloc model config s =
    (let b = ModelContains model ''lm_head.weight'' in
     bindS (liftW (foldE (ValidateEntry model) (pinned_map b) ())) (\<lambda>_.
       case malloc (wly_total_bytes (pinned_layout b)) of
         None \<Rightarrow> throwS (WeightsError ''cudaMalloc'')
       | Some slab \<Rightarrow>
           bindS (modifyS (\<lambda>s. s\<lparr>slabs := insert slab (slabs s)\<rparr>)) (\<lambda>_.
           bindS (transfer_weights ok dma model config (pinned_layout b) slab (pinned_map b)) (\<lambda>_.
           returnS \<lparr>dw_layout = pinned_layout b, dw_num_layers = num_layers config, dw_slab = slab\<rparr>))) s)"
proof -
  have "(\<not> ModelContains model ''lm_head.weight'' \<and> \<not> tie_word_embeddings config) = False" using tie by blast
  then show ?thesis
    unfolding new_DeviceWeights_def Let_def
    by (simp only: if_False layout_pinned[OF g] map_pinned[OF g] bind_lift(1))
qed

lemma load_cases:
  assumes "new_DeviceWeights ok dma malloc model config s = (r, t)"
  defines "b \<equiv> ModelContains model ''lm_head.weight''"
  shows "(\<exists>e. r = Inl e \<and> slabs t \<subseteq> slabs s) \<or>
    (\<exists>slab s1. RequireDesignGeometry config = Inr () \<and> foldE (ValidateEntry model) (pinned_map b) () = Inr () \<and>
       r = Inr \<lparr>dw_layout = pinned_layout b, dw_num_layers = num_layers config, dw_slab = slab\<rparr> \<and>
       forS (upload_entry ok dma model config (pinned_layout b) slab) (pinned_map b) (s\<lparr>slabs := insert slab (slabs s)\<rparr>) = (Inr (), s1) \<and>
       with_uploader (Synchronize ok dma) s1 = (Inr (), t))"
proof (cases "\<not> b \<and> \<not> tie_word_embeddings config")
  case True
  then show ?thesis using assms by (simp add: new_DeviceWeights_def throwS_def) auto
next
  case tie: False
  show ?thesis
  proof (cases "RequireDesignGeometry config")
    case (Inl e)
    then have "ComputeWeightsLayout config b = Inl e" by (simp add: ComputeWeightsLayout_def)
    then have "new_DeviceWeights ok dma malloc model config s = (Inl e, s)"
      using tie by (auto simp: new_DeviceWeights_def b_def[symmetric])
    then show ?thesis using assms(1) by simp
  next
    case (Inr u)
    then have g: "RequireDesignGeometry config = Inr ()" by simp
    note n = new_DeviceWeights_eq[OF g, of model ok dma malloc s, folded b_def, OF tie, unfolded Let_def]
    show ?thesis
    proof (cases "foldE (ValidateEntry model) (pinned_map b) ()")
      case (Inl e)
      then show ?thesis using assms(1) by (auto simp: n)
    next
      case v: (Inr v)
      show ?thesis
      proof (cases "malloc (wly_total_bytes (pinned_layout b))")
        case None
        then show ?thesis using assms(1) v by (simp add: n throwS_def) auto
      next
        case (Some slab)
        let ?s = "s\<lparr>slabs := insert slab (slabs s)\<rparr>"
        obtain r1 t1 where m: "transfer_weights ok dma model config (pinned_layout b) slab (pinned_map b) ?s = (r1, t1)" by fastforce
        have "(r, t) = (case r1 of Inl e \<Rightarrow> (Inl e, t1)
            | Inr x \<Rightarrow> (Inr \<lparr>dw_layout = pinned_layout b, dw_num_layers = num_layers config, dw_slab = slab\<rparr>, t1))"
          using assms(1) v Some m by (simp add: n bindS_def[of "transfer_weights _ _ _ _ _ _ _"] returnS_def split: sum.splits)
        then show ?thesis using transfer_cases[OF m] g v by (cases r1) auto
      qed
    qed
  qed
qed

lemma load_success:
  assumes "new_DeviceWeights ok dma malloc model config s = (Inr w, t)"
  defines "b \<equiv> ModelContains model ''lm_head.weight''"
  shows "\<exists>s1. RequireDesignGeometry config = Inr () \<and> foldE (ValidateEntry model) (pinned_map b) () = Inr () \<and>
    dw_layout w = pinned_layout b \<and> dw_num_layers w = num_layers config \<and>
    forS (upload_entry ok dma model config (pinned_layout b) (dw_slab w)) (pinned_map b)
      (s\<lparr>slabs := insert (dw_slab w) (slabs s)\<rparr>) = (Inr (), s1) \<and>
    with_uploader (Synchronize ok dma) s1 = (Inr (), t)"
  using load_cases[OF assms(1)] unfolding b_def[symmetric] by (elim disjE exE conjE) simp_all

lemma entries_ok:
  assumes g: "RequireDesignGeometry config = Inr ()" and "uploader_ok None (up s)"
    and "forS (upload_entry ok dma model config (pinned_layout b) slab) (pinned_map b) s = (Inr (), s1)"
  shows "uploader_ok None (up s1) \<and> (\<forall>e\<in>set (pinned_map b). entry_loaded model config (pinned_layout b) slab (final (up s1)) e)"
proof -
  have "distinct (pinned_map b)" using distinct_names[of b] by (simp add: distinct_map)
  from upload_entries_out[OF assms(3,2) this] pinned_inside[OF g] pinned_apart[OF g] show ?thesis by blast
qed

lemma loaded_state:
  assumes "new_DeviceWeights ok dma malloc model config s = (Inr w, t)" and "uploader_ok None (up s)"
  shows "slabs t = insert (dw_slab w) (slabs s) \<and> device (destroy_StagedUploader (up t)) = device (up t) \<and>
    dw_num_layers w = num_layers config \<and> dw_layout w = pinned_layout (ModelContains model ''lm_head.weight'')"
proof -
  let ?b = "ModelContains model ''lm_head.weight''" and ?s = "s\<lparr>slabs := insert (dw_slab w) (slabs s)\<rparr>"
  from load_success[OF assms(1)] obtain s1 where g: "RequireDesignGeometry config = Inr ()" and w: "dw_layout w = pinned_layout ?b"
    and nl: "dw_num_layers w = num_layers config"
    and f: "forS (upload_entry ok dma model config (pinned_layout ?b) (dw_slab w)) (pinned_map ?b) ?s = (Inr (), s1)"
    and sy: "with_uploader (Synchronize ok dma) s1 = (Inr (), t)" by (elim exE conjE)
  have "slabs s1 = insert (dw_slab w) (slabs s)"
    using slabs_entries[of ok dma model config "pinned_layout ?b" "dw_slab w" "pinned_map ?b" ?s] f by simp
  moreover obtain u2 where u2: "Synchronize ok dma (up s1) = (Inr (), u2)" "t = s1\<lparr>up := u2\<rparr>"
    using sy unfolding with_uploader_out by (elim exE conjE)
  moreover have "uploader_ok None (up s1)" using entries_ok[OF g _ f] assms(2) by simp
  ultimately show ?thesis using Synchronize_out[OF u2(1)] w nl by simp
qed

lemma loaded_weights:
  assumes "new_DeviceWeights ok dma malloc model config s = (Inr w, t)" and "uploader_ok None (up s)"
    and "BuildWeightMap config (ModelContains model ''lm_head.weight'') = Inr m" and "e \<in> set m"
  shows "\<exists>v off. ModelTensor model (hf_name e) = Inr v \<and> tv_shape v = expected_shape e \<and>
    EntryByteOffset (dw_layout w) e config = Inr off \<and> 0 \<le> off \<and> off + 2 * num_elements e \<le> wly_total_bytes (dw_layout w) \<and>
    (\<forall>i<nat (num_elements e). device (up t) (dw_slab w + nat off + 2 * i) = element (tv_dtype v) (view_memory v) i)"
proof -
  let ?b = "ModelContains model ''lm_head.weight''"
  let ?slab = "dw_slab w"
  from load_success[OF assms(1)] obtain s1 where g: "RequireDesignGeometry config = Inr ()"
    and v: "foldE (ValidateEntry model) (pinned_map ?b) () = Inr ()" and w: "dw_layout w = pinned_layout ?b"
    and f: "forS (upload_entry ok dma model config (pinned_layout ?b) ?slab) (pinned_map ?b) (s\<lparr>slabs := insert ?slab (slabs s)\<rparr>) = (Inr (), s1)"
    and sy: "with_uploader (Synchronize ok dma) s1 = (Inr (), t)" by (elim exE conjE)
  have m: "m = pinned_map ?b" using assms(3) map_pinned[OF g] by simp
  have "uploader_ok None (up s1) \<and> entry_loaded model config (pinned_layout ?b) ?slab (final (up s1)) e"
    using entries_ok[OF g _ f] assms(2,4) m by simp
  moreover obtain u2 where "Synchronize ok dma (up s1) = (Inr (), u2)" "t = s1\<lparr>up := u2\<rparr>" using sy by (auto simp: with_uploader_out)
  ultimately have l: "entry_loaded model config (pinned_layout ?b) ?slab (device (up t)) e"
    using Synchronize_out[of ok dma "up s1"] by auto
  from validated[OF v] assms(4) m obtain vw where vw: "ModelTensor model (hf_name e) = Inr vw" "tv_shape vw = expected_shape e" by blast
  obtain off where off: "EntryByteOffset (pinned_layout ?b) e config = Inr off" "0 \<le> off"
    "off + 2 * num_elements e \<le> wly_total_bytes (pinned_layout ?b)" using pinned_inside[OF g] assms(4) m by blast
  show ?thesis using l vw off by (auto simp: w entry_loaded_def entry_element_def)
qed

text \<open>
  C26: A load either fails and leaves no slab allocated, or puts every weight where the layout says.
  Whatever the checkpoint, the runtime failures and the interleaving of the copy engine: when the
  constructor of \<open>DeviceWeights\<close> returns, the slab has the size of the layout, the entries of the
  weight map have different names and together exactly fill it, and each of them was found in the
  checkpoint with its expected shape and lies, converted to FP16, at its offset in the slab.
\<close>

theorem weights_resident:
  assumes "uploader_ok None (up s)"
  shows "case new_DeviceWeights ok dma malloc model config s of
      (Inl err, t) \<Rightarrow> slabs t \<subseteq> slabs s
    | (Inr w, t) \<Rightarrow>
        (\<exists>m. BuildWeightMap config (ModelContains model ''lm_head.weight'') = Inr m \<and> distinct (map hf_name m) \<and>
           slabs t = insert (dw_slab w) (slabs s) \<and>
           wly_total_bytes (dw_layout w) = (\<Sum>e\<leftarrow>m. 2 * num_elements e) \<and>
           (\<forall>e\<in>set m. \<exists>v off. ModelTensor model (hf_name e) = Inr v \<and> tv_shape v = expected_shape e \<and>
              EntryByteOffset (dw_layout w) e config = Inr off \<and> 0 \<le> off \<and>
              off + 2 * num_elements e \<le> wly_total_bytes (dw_layout w) \<and>
              (\<forall>i<nat (num_elements e).
                 device (up t) (dw_slab w + nat off + 2 * i) = element (tv_dtype v) (view_memory v) i)))"
proof -
  obtain r t where rt: "new_DeviceWeights ok dma malloc model config s = (r, t)" by fastforce
  let ?b = "ModelContains model ''lm_head.weight''"
  show ?thesis
  proof (cases r)
    case (Inl err)
    have "slabs t \<subseteq> slabs s" using load_cases[OF rt[unfolded Inl]] by (elim disjE exE conjE) simp_all
    then show ?thesis unfolding rt Inl sum.case prod.case .
  next
    case (Inr w)
    let ?slab = "dw_slab w"
    from load_success[OF rt[unfolded Inr]] obtain s1 where g: "RequireDesignGeometry config = Inr ()"
      and w: "dw_layout w = pinned_layout ?b"
      and "with_uploader (Synchronize ok dma) s1 = (Inr (), t)" by (elim exE conjE) (rule that)
    have "slabs t = insert ?slab (slabs s)" using loaded_state[OF rt[unfolded Inr] assms] by blast
    moreover have "wly_total_bytes (dw_layout w) = (\<Sum>e\<leftarrow>pinned_map ?b. 2 * num_elements e)" using pinned_sum[OF g] by (simp add: w)
    ultimately show ?thesis
      unfolding rt Inr sum.case prod.case
      by (intro exI[of _ "pinned_map ?b"] conjI ballI map_pinned[OF g] distinct_names
          loaded_weights[OF rt[unfolded Inr] assms map_pinned[OF g]])
  qed
qed

section \<open>A load that succeeds\<close>

lemma entries_succeed:
  assumes ok: "\<forall>what k. ok what k"
  shows "uploader_ok None (up s) \<Longrightarrow>
    (\<And>e. e \<in> set es \<Longrightarrow> (\<exists>off. EntryByteOffset layout e config = Inr off \<and> 0 \<le> off) \<and>
       (\<exists>v. ModelTensor model (hf_name e) = Inr v \<and> tv_dtype v = kF16)) \<Longrightarrow>
    \<exists>t. forS (upload_entry ok dma model config layout slab) es s = (Inr (), t) \<and> uploader_ok None (up t)"
proof (induction es arbitrary: s)
  case (Cons e es)
  from Cons.prems(2)[of e] obtain off v where e: "EntryByteOffset layout e config = Inr off" "0 \<le> off"
    "ModelTensor model (hf_name e) = Inr v" "tv_dtype v = kF16" by auto
  have "find (\<lambda>i. False) xs = None" for xs :: "nat list" by (induction xs) auto
  then have "fst (Upload ok dma (nat (int slab + off)) (view_memory v) (nat (num_elements e)) (tv_dtype v) (hf_name e) 0 (up s)) = Inr ()"
    using fst_Upload[OF ok Cons.prems(1), of "tv_dtype v"] e(4) by (simp add: first_overflow_def overflow_error_def)
  then obtain u where "Upload ok dma (nat (int slab + off)) (view_memory v) (nat (num_elements e)) (tv_dtype v) (hf_name e) 0 (up s) = (Inr (), u)"
    by (metis prod.collapse)
  then have h: "upload_entry ok dma model config layout slab e s = (Inr (), s\<lparr>up := u\<rparr>)"
    using e by (simp add: upload_entry_def with_uploader_def)
  have "uploader_ok None (up (s\<lparr>up := u\<rparr>))" using upload_entry_out[OF h Cons.prems(1) e(1,2)] by blast
  from Cons.IH[OF this] Cons.prems(2) h show ?case by (simp add: bindS_def)
qed (simp add: returnS_def)

lemma load_succeeds:
  assumes ok: "\<forall>what k. ok what k" and u: "uploader_ok None (up s)" and g: "RequireDesignGeometry config = Inr ()"
    and tie: "tie_word_embeddings config" and m: "malloc (wly_total_bytes (pinned_layout b)) = Some slab"
    and b: "b = ModelContains model ''lm_head.weight''"
    and es: "\<And>e. e \<in> set (pinned_map b) \<Longrightarrow> ModelContains model (hf_name e) \<and>
      (\<exists>v. ModelTensor model (hf_name e) = Inr v \<and> tv_shape v = expected_shape e \<and> tv_dtype v = kF16)"
  shows "\<exists>t. new_DeviceWeights ok dma malloc model config s =
    (Inr \<lparr>dw_layout = pinned_layout b, dw_num_layers = num_layers config, dw_slab = slab\<rparr>, t)"
proof -
  have f: "foldE (ValidateEntry model) xs () = Inr ()" if "\<And>e. e \<in> set xs \<Longrightarrow> ValidateEntry model () e = Inr ()" for xs
    using that by (induction xs) simp_all
  have v: "foldE (ValidateEntry model) (pinned_map b) () = Inr ()"
  proof (rule f)
    fix e
    assume "e \<in> set (pinned_map b)"
    from es[OF this] obtain v where "ModelContains model (hf_name e)" "ModelTensor model (hf_name e) = Inr v"
      "tv_shape v = expected_shape e" "tv_dtype v = kF16" by blast
    then show "ValidateEntry model () e = Inr ()" by (simp add: ValidateEntry_def)
  qed
  let ?s = "s\<lparr>slabs := insert slab (slabs s)\<rparr>"
  obtain s1 where s1: "forS (upload_entry ok dma model config (pinned_layout b) slab) (pinned_map b) ?s = (Inr (), s1)"
    using entries_succeed[OF ok, of ?s "pinned_map b" "pinned_layout b" config model dma slab] u es pinned_inside[OF g] by fastforce
  have "fst (Synchronize ok dma (up s1)) = Inr ()"
  proof -
    obtain u1 where "WaitSlot ok dma 0 (up s1) = (Inr (), u1)" using fst_WaitSlot[OF ok] by (metis prod.collapse)
    then show ?thesis using fst_WaitSlot[OF ok, of dma 1 u1] by (simp add: Synchronize_def bindS_def)
  qed
  then obtain u2 where "Synchronize ok dma (up s1) = (Inr (), u2)" by (metis prod.collapse)
  then have "transfer_weights ok dma model config (pinned_layout b) slab (pinned_map b) ?s = (Inr (), s1\<lparr>up := u2\<rparr>)"
    using s1 by (simp add: transfer_weights_def catchS_def bindS_def with_uploader_def)
  then show ?thesis using v m tie b
    by (simp add: new_DeviceWeights_eq[OF g] Let_def bindS_def[of "transfer_weights _ _ _ _ _ _ _"] returnS_def)
qed

definition demo_weight :: "WeightMapEntry \<Rightarrow> TensorView" where
  "demo_weight e =
     \<lparr>tv_dtype = kF16, tv_shape = expected_shape e, tv_base = replicate (nat (2 * num_elements e)) 7, tv_offset = 0,
      tv_nbytes = nat (2 * num_elements e)\<rparr>"

definition demo_model :: SafetensorsModel where
  "demo_model = \<lparr>sm_shards = [], sm_merged = map (\<lambda>e. (hf_name e, demo_weight e)) (pinned_map False)\<rparr>"

lemma demo_tensor: "e \<in> set (pinned_map False) \<Longrightarrow> map_of (sm_merged demo_model) (hf_name e) = Some (demo_weight e)"
  using distinct_names[of False] by (intro map_of_is_SomeI) (auto simp: demo_model_def comp_def)

lemma demo_no_head: "\<not> ModelContains demo_model ''lm_head.weight''"
proof -
  have "map hf_name (pinned_map True) = map hf_name (pinned_map False) @ [''lm_head.weight'']"
    by (simp add: pinned_map_def entry_def del: upt_Suc)
  with distinct_names[of True] have "''lm_head.weight'' \<notin> hf_name ` set (pinned_map False)" by auto
  then show ?thesis by (auto simp: ModelContains_def demo_model_def map_of_eq_None_iff image_image)
qed

text \<open>A checkpoint of 338 tensors of the pinned shapes, every byte 7, loaded through slots of two elements.\<close>

theorem weights_resident_witness:
  "\<exists>w t. new_DeviceWeights (\<lambda>_ _. True) (\<lambda>k. k mod 3) (\<lambda>_. Some 4096) demo_model (pinned_config [])
       \<lparr>up = demo_uploader, slabs = {}\<rparr> = (Inr w, t) \<and>
     dw_slab w = 4096 \<and> wly_total_bytes (dw_layout w) = 3087428608 \<and> slabs t = {4096} \<and>
     device (up t) (4096 + 466747390) = 0x0707"
proof -
  let ?s = "\<lparr>up = demo_uploader, slabs = {}\<rparr>" and ?c = "pinned_config []"
  have u: "uploader_ok None (up ?s)" by (simp add: uploader_ok_def demo_uploader_def)
  have g: "RequireDesignGeometry ?c = Inr ()" by (simp add: geometry_iff pinned_config_def)
  obtain t where t: "new_DeviceWeights (\<lambda>_ _. True) (\<lambda>k. k mod 3) (\<lambda>_. Some 4096) demo_model ?c ?s =
      (Inr \<lparr>dw_layout = pinned_layout False, dw_num_layers = num_layers ?c, dw_slab = 4096\<rparr>, t)"
    using load_succeeds[OF _ u g, of "\<lambda>_ _. True" "\<lambda>_. Some 4096" False 4096 demo_model "\<lambda>k. k mod 3"] demo_no_head demo_tensor
    by (fastforce simp: pinned_config_def ModelContains_def ModelTensor_def demo_weight_def)
  let ?e = "entry ''model.embed_tokens.weight'' kEmbed (-1) 0 [151936, 1536]"
  have e: "?e \<in> set (pinned_map False)" by (simp add: pinned_map_def)
  have off: "EntryByteOffset (pinned_layout False) ?e ?c = Inr 0" "nat (num_elements ?e) = 233373696"
    by (simp_all add: entry_def EntryByteOffset_def OffsetFor_def pinned_layout_def num_elements_def)
  have v: "ModelTensor demo_model (hf_name ?e) = Inr (demo_weight ?e)" using demo_tensor[OF e] by (simp add: ModelTensor_def)
  have m: "BuildWeightMap ?c (ModelContains demo_model ''lm_head.weight'') = Inr (pinned_map False)"
    using map_pinned[OF g] demo_no_head by simp
  note r = weights_resident[OF u, where ok = "\<lambda>_ _. True" and dma = "\<lambda>k. k mod 3" and malloc = "\<lambda>_. Some 4096" and
      model = demo_model and config = ?c, unfolded t sum.case prod.case m sum.inject simp_thms DeviceWeights.simps LoadState.simps]
  then have sl: "slabs t = {4096}" by (elim conjE)
  from r obtain vv offv where vv: "ModelTensor demo_model (hf_name ?e) = Inr vv" "EntryByteOffset (pinned_layout False) ?e ?c = Inr offv"
    "\<forall>i<nat (num_elements ?e). device (up t) (4096 + nat offv + 2 * i) = element (tv_dtype vv) (view_memory vv) i"
    using e by (elim conjE) (drule bspec, assumption, elim exE conjE, rule that)
  have "vv = demo_weight ?e" "offv = 0" using vv(1,2) v off(1) by simp_all
  moreover have "(233373695 :: nat) < nat (num_elements ?e)" unfolding off(2) by simp
  ultimately have "device (up t) (4096 + nat 0 + 2 * 233373695) = element (tv_dtype (demo_weight ?e)) (view_memory (demo_weight ?e)) 233373695"
    using vv(3) by blast
  moreover have "tv_dtype (demo_weight ?e) = kF16" by (simp add: demo_weight_def)
  moreover have "element kF16 (view_memory (demo_weight ?e)) 233373695 = 0x0707"
    by (simp add: element_def load16_def view_memory_def demo_weight_def num_elements_def entry_def)
  ultimately show ?thesis using t sl by (simp add: pinned_layout_def)
qed

end
