(* ===== verification/Engine_Init.thy ===== *)
theory Engine_Init
  imports Engine_Theorems Weights
begin

text \<open>
  The constructor of \<^verbatim>\<open>Engine\<close> in \<^verbatim>\<open>src/src/core/engine.cpp\<close>: the configuration, the checkpoint,
  the memory preflight, the load of the weights and the executor, in the order of the code, with
  every error that stops it and what is released then.

  The environment is a record of parameters: the two JSON parsers, the file system, the free memory
  that \<^verbatim>\<open>cudaMemGetInfo\<close> reports (\<open>None\<close> when it fails), the runtime calls, the copy engine,
  \<^verbatim>\<open>cudaMalloc\<close>, the pinned memory, the device as the executor sees it once the weights are there,
  and the CUDA runtime of the executor. The state is the device memory and the slabs in use. Timing
  and log lines are omitted.
\<close>

section \<open>Environment\<close>

datatype init_error =
    ConfigFailed config_error
  | InvalidOption string
  | OpenFailed st_error
  | LoadFailed weights_error
  | StagingFailed convert_error
  | ExecutorFailed exn
  | InitRuntimeError string

record 'd InitEnv =
  env_parse_config :: "string \<Rightarrow> json option"
  env_read_text :: "string \<Rightarrow> string option"
  env_parse :: json_parser
  env_fs :: FileSystem
  env_mem_info :: "nat option"
  env_ok :: "string \<Rightarrow> nat \<Rightarrow> bool"
  env_dma :: "nat \<Rightarrow> nat"
  env_malloc :: "int \<Rightarrow> nat option"
  env_pinned :: "nat \<Rightarrow> 16 word"
  env_device :: "(nat \<Rightarrow> 16 word) \<Rightarrow> 'd"
  env_cuda :: "'d Cuda"

record InitState =
  in_device :: "nat \<Rightarrow> 16 word"
  in_slabs :: "nat set"

type_synonym 'a init = "(InitState, init_error, 'a) action"

definition liftI :: "('e \<Rightarrow> init_error) \<Rightarrow> 'e + 'a \<Rightarrow> 'a init" where
  "liftI f r s = (case r of Inl e \<Rightarrow> (Inl (f e), s) | Inr x \<Rightarrow> (Inr x, s))"

section \<open>The preflight\<close>

definition kMiB :: int where "kMiB = 2 ^ 20"
definition kContextSlackBytes :: int where "kContextSlackBytes = 512 * kMiB"
definition kGraphBudgetPerBucketBytes :: int where "kGraphBudgetPerBucketBytes = 16 * kMiB"

text \<open>A comparison with a NaN is false.\<close>

definition check_kv_pool_gb :: "EngineOptions \<Rightarrow> init_error + unit" where
  "check_kv_pool_gb opts =
     assertE (\<not> (\<not> (case kv_pool_gb opts of None \<Rightarrow> False | Some gb \<Rightarrow> gb > 0) \<or>
                 (case kv_pool_gb opts of None \<Rightarrow> False | Some gb \<Rightarrow> gb > 1024)))
       (InvalidOption ''kv_pool_gb must be in (0, 1024]'')"

definition graph_budget :: "EngineOptions \<Rightarrow> int" where
  "graph_budget opts =
     (let num_buckets = int (length (MakeDecodeBuckets (eo_max_batch opts))) in
      if eo_enable_cuda_graphs opts then num_buckets * kGraphBudgetPerBucketBytes else 0)"

definition required_bytes :: "EngineOptions \<Rightarrow> int \<Rightarrow> ExecutorMemoryBudget \<Rightarrow> int" where
  "required_bytes opts weight_bytes budget =
     weight_bytes + total_device_bytes budget + graph_budget opts + kContextSlackBytes"

definition check_memory :: "'d InitEnv \<Rightarrow> int \<Rightarrow> init_error + unit" where
  "check_memory env required =
     (case env_mem_info env of
        None \<Rightarrow> Inl (InitRuntimeError ''cudaMemGetInfo preflight'')
      | Some free_bytes \<Rightarrow>
          assertE (\<not> required > get_int64 (int free_bytes))
            (InitRuntimeError ''configuration does not fit device memory''))"

section \<open>Loading\<close>

text \<open>
  The staged uploader lives for the load; its destructor runs on success and on failure. The load
  stream is destroyed after it, with the result ignored when the load failed.
\<close>

definition load_weights :: "'d InitEnv \<Rightarrow> SafetensorsModel \<Rightarrow> ModelConfig \<Rightarrow> DeviceWeights init" where
  "load_weights env model mc s =
     (case new_StagedUploader (env_ok env) kDefaultStagingBytes (env_pinned env) (in_device s) of
        Inl e \<Rightarrow> (Inl (StagingFailed e), s)
      | Inr u \<Rightarrow>
          (case new_DeviceWeights (env_ok env) (env_dma env) (env_malloc env) model mc \<lparr>up = u, slabs = in_slabs s\<rparr> of
             (r, t) \<Rightarrow>
               (case r of Inl e \<Rightarrow> Inl (LoadFailed e) | Inr w \<Rightarrow> Inr w,
                \<lparr>in_device = device (destroy_StagedUploader (up t)), in_slabs = slabs t\<rparr>)))"

text \<open>\<^verbatim>\<open>DeviceWeights::~DeviceWeights\<close>, which runs when a later part of the constructor throws.\<close>

definition destroy_DeviceWeights :: "DeviceWeights \<Rightarrow> InitState \<Rightarrow> InitState" where
  "destroy_DeviceWeights w s = s\<lparr>in_slabs := in_slabs s - {dw_slab w}\<rparr>"

definition build_engine :: "'d InitEnv \<Rightarrow> EngineOptions \<Rightarrow> ModelConfig \<Rightarrow> DeviceWeights \<Rightarrow> 'd Engine init" where
  "build_engine env opts mc w =
     bindS (liftI id (assertE (env_ok env ''destroy weight-load stream'' 0) (InitRuntimeError ''destroy weight-load stream''))) (\<lambda>_.
     bindS (getS in_device) (\<lambda>dev.
     bindS (liftI ExecutorFailed
              (new_ModelExecutor (env_cuda env) mc (dw_num_layers w) (MakeExecutorOptions opts) (env_device env dev))) (\<lambda>ex.
     liftI ExecutorFailed (assemble opts mc ex))))"

definition new_Engine :: "'d InitEnv \<Rightarrow> EngineOptions \<Rightarrow> ('d Engine \<times> DeviceWeights) init" where
  "new_Engine env opts =
     bindS (liftI ConfigFailed (FromModelDir (env_parse_config env) (env_read_text env) (model_dir opts))) (\<lambda>mc.
     bindS (liftI id (check_kv_pool_gb opts)) (\<lambda>_.
     let exec_options = MakeExecutorOptions opts in
     bindS (liftI OpenFailed (OpenDir (env_parse env) (env_fs env) (model_dir opts))) (\<lambda>model.
     let has_separate_lm_head = ModelContains model ''lm_head.weight'' in
     bindS (liftI LoadFailed (TotalDeviceBytes mc has_separate_lm_head)) (\<lambda>weight_bytes.
     bindS (liftI ExecutorFailed (ComputeBudget mc exec_options)) (\<lambda>budget.
     bindS (liftI id (check_memory env (required_bytes opts weight_bytes budget))) (\<lambda>_.
     bindS (liftI id (assertE (env_ok env ''create weight-load stream'' 0) (InitRuntimeError ''create weight-load stream''))) (\<lambda>_.
     bindS (load_weights env model mc) (\<lambda>w.
     bindS (catchS (build_engine env opts mc w) (\<lambda>e s. (Inl e, destroy_DeviceWeights w s))) (\<lambda>eng.
     returnS (eng, w))))))))))"

section \<open>What a construction leaves behind\<close>

lemma liftI_out: "liftI f r s = (Inr x, t) \<longleftrightarrow> r = Inr x \<and> t = s"
  by (auto simp: liftI_def split: sum.splits)

lemma bind_liftI_out: "bindS (liftI f r) g s = (Inr y, t) \<longleftrightarrow> (\<exists>x. r = Inr x \<and> g x s = (Inr y, t))"
  by (auto simp: bindS_out liftI_out)

lemma snd_liftI [simp]: "snd (liftI f r s) = s"
  by (simp add: liftI_def split: sum.splits)

text \<open>Errors: a step that leaves at most the slabs it found.\<close>

definition no_leak :: "'a init \<Rightarrow> bool" where
  "no_leak m \<longleftrightarrow> (\<forall>s e t. m s = (Inl e, t) \<longrightarrow> in_slabs t \<subseteq> in_slabs s)"

definition keeps :: "'a init \<Rightarrow> bool" where
  "keeps m \<longleftrightarrow> (\<forall>s. in_slabs (snd (m s)) = in_slabs s)"

lemma keeps_liftI [simp]: "keeps (liftI f r)"
  by (simp add: keeps_def)

lemma keeps_getS [simp]: "keeps (getS f)"
  by (simp add: keeps_def getS_def)

lemma keeps_bindS: "keeps m \<Longrightarrow> (\<And>x. keeps (f x)) \<Longrightarrow> keeps (bindS m f)"
  by (auto simp: keeps_def bindS_def split: prod.splits sum.splits) (metis snd_conv)+

lemma no_leak_bindS: "keeps m \<Longrightarrow> (\<And>x. no_leak (f x)) \<Longrightarrow> no_leak (bindS m f)"
  by (auto simp: no_leak_def keeps_def bindS_def split: prod.splits sum.splits) (metis snd_conv subsetD)+


lemma no_leak_liftI [simp]: "no_leak (liftI f r)"
  by (auto simp: no_leak_def liftI_def split: sum.splits)

lemma load_weights_out:
  assumes "load_weights env model mc s = (Inr w, t)"
  obtains u t' where "new_StagedUploader (env_ok env) kDefaultStagingBytes (env_pinned env) (in_device s) = Inr u"
    and "uploader_ok None u"
    and "new_DeviceWeights (env_ok env) (env_dma env) (env_malloc env) model mc \<lparr>up = u, slabs = in_slabs s\<rparr> = (Inr w, t')"
    and "in_slabs t = insert (dw_slab w) (in_slabs s)" and "in_device t = device (up t')"
proof -
  from assms obtain u t' where u: "new_StagedUploader (env_ok env) kDefaultStagingBytes (env_pinned env) (in_device s) = Inr u"
    and d: "new_DeviceWeights (env_ok env) (env_dma env) (env_malloc env) model mc \<lparr>up = u, slabs = in_slabs s\<rparr> = (Inr w, t')"
    and t: "t = \<lparr>in_device = device (destroy_StagedUploader (up t')), in_slabs = slabs t'\<rparr>"
    by (auto simp: load_weights_def split: sum.splits prod.splits)
  have ok: "uploader_ok None u" using new_uploader_ok[OF u] by blast
  note l = loaded_state[OF d]
  show ?thesis by (rule that[OF u ok d]) (use l ok t in simp_all)
qed

lemma load_weights_fails:
  assumes "load_weights env model mc s = (Inl e, t)" shows "in_slabs t \<subseteq> in_slabs s"
proof (cases "new_StagedUploader (env_ok env) kDefaultStagingBytes (env_pinned env) (in_device s)")
  case (Inl e')
  then show ?thesis using assms by (simp add: load_weights_def)
next
  case (Inr u)
  with assms obtain e' t' where d: "new_DeviceWeights (env_ok env) (env_dma env) (env_malloc env) model mc \<lparr>up = u, slabs = in_slabs s\<rparr> = (Inl e', t')"
    and t: "in_slabs t = slabs t'"
    by (auto simp: load_weights_def split: sum.splits prod.splits)
  from load_cases[OF d] t show ?thesis by (elim disjE exE conjE) simp_all
qed

lemma keeps_build: "keeps (build_engine env opts mc w)"
  unfolding build_engine_def by (intro keeps_bindS keeps_liftI keeps_getS)

lemma no_leak_load_build:
  "no_leak (bindS (load_weights env model mc) (\<lambda>w.
     bindS (catchS (build_engine env opts mc w) (\<lambda>e s. (Inl e, destroy_DeviceWeights w s))) (\<lambda>eng. returnS (eng, w))))"
proof -
  have "in_slabs t \<subseteq> in_slabs s"
    if "bindS (load_weights env model mc) (\<lambda>w.
      bindS (catchS (build_engine env opts mc w) (\<lambda>e s. (Inl e, destroy_DeviceWeights w s))) (\<lambda>eng. returnS (eng, w))) s = (Inl e, t)"
    for s e t
  proof -
    obtain r s1 where l: "load_weights env model mc s = (r, s1)" by fastforce
    show ?thesis
    proof (cases r)
      case (Inl e')
      then show ?thesis using that l load_weights_fails[of env model mc s e' s1] by (simp add: bindS_def)
    next
      case (Inr w)
      have sl: "in_slabs s1 = insert (dw_slab w) (in_slabs s)" using load_weights_out[OF l[unfolded Inr]] by blast
      obtain r2 s2 where b: "build_engine env opts mc w s1 = (r2, s2)" by fastforce
      then have "in_slabs s2 = in_slabs s1" using keeps_build[of env opts mc w] by (metis keeps_def snd_conv)
      then show ?thesis using that l Inr b sl
        by (cases r2) (auto simp: bindS_def catchS_def destroy_DeviceWeights_def returnS_def)
    qed
  qed
  then show ?thesis by (simp add: no_leak_def)
qed

lemma new_Engine_no_leak: "no_leak (new_Engine env opts)"
  unfolding new_Engine_def Let_def
  by (intro no_leak_bindS keeps_liftI no_leak_load_build)

lemma new_Engine_out:
  assumes "new_Engine env opts st = (Inr (eng, w), t)"
  obtains mc model weight_bytes budget s1 ex where
    "FromModelDir (env_parse_config env) (env_read_text env) (model_dir opts) = Inr mc"
    and "check_kv_pool_gb opts = Inr ()"
    and "OpenDir (env_parse env) (env_fs env) (model_dir opts) = Inr model"
    and "TotalDeviceBytes mc (ModelContains model ''lm_head.weight'') = Inr weight_bytes"
    and "ComputeBudget mc (MakeExecutorOptions opts) = Inr budget"
    and "check_memory env (required_bytes opts weight_bytes budget) = Inr ()"
    and "load_weights env model mc st = (Inr w, t)"
    and "new_ModelExecutor (env_cuda env) mc (dw_num_layers w) (MakeExecutorOptions opts) (env_device env (in_device t)) = Inr ex"
    and "assemble opts mc ex = Inr eng"
proof -
  from assms obtain mc model weight_bytes budget u1 u2 where 1:
    "FromModelDir (env_parse_config env) (env_read_text env) (model_dir opts) = Inr mc"
    "check_kv_pool_gb opts = Inr u1"
    "OpenDir (env_parse env) (env_fs env) (model_dir opts) = Inr model"
    "TotalDeviceBytes mc (ModelContains model ''lm_head.weight'') = Inr weight_bytes"
    "ComputeBudget mc (MakeExecutorOptions opts) = Inr budget"
    "check_memory env (required_bytes opts weight_bytes budget) = Inr u2"
    "bindS (load_weights env model mc) (\<lambda>w.
       bindS (catchS (build_engine env opts mc w) (\<lambda>e s. (Inl e, destroy_DeviceWeights w s))) (\<lambda>eng. returnS (eng, w))) st = (Inr (eng, w), t)"
    unfolding new_Engine_def Let_def bind_liftI_out by (elim exE conjE) (rule that)
  then obtain w' s1 eng' where l: "load_weights env model mc st = (Inr w', s1)"
    "catchS (build_engine env opts mc w') (\<lambda>e s. (Inl e, destroy_DeviceWeights w' s)) s1 = (Inr eng', t)" "eng' = eng" "w' = w"
    unfolding bindS_out returnS_def by auto
  then have "build_engine env opts mc w s1 = (Inr eng, t)" by (auto simp: catchS_def split: prod.splits sum.splits)
  then obtain ex where "s1 = t" "assemble opts mc ex = Inr eng"
    "new_ModelExecutor (env_cuda env) mc (dw_num_layers w) (MakeExecutorOptions opts) (env_device env (in_device t)) = Inr ex"
    unfolding build_engine_def bindS_out liftI_out getS_def by auto
  with 1 l that show ?thesis by auto
qed

section \<open>A constructed engine\<close>


section \<open>A concrete construction\<close>

text \<open>
  A checkpoint in one file: the length prefix, a header of one byte that the parser below reads as
  the 338 entries of the weight map, and data bytes that are all 7. The entries share their bytes.
\<close>

definition demo_checkpoint :: "8 word list" where
  "demo_checkpoint = [1, 0, 0, 0, 0, 0, 0, 0, 123] @ replicate 466747392 7"

definition header_entry :: "WeightMapEntry \<Rightarrow> string \<times> json" where
  "header_entry e = (hf_name e,
     JObj [(''dtype'', JStr ''F16''), (''shape'', JArr (map JInt (expected_shape e))),
           (''data_offsets'', JArr [JInt 0, JInt (2 * num_elements e)])])"

definition header_view :: "WeightMapEntry \<Rightarrow> TensorView" where
  "header_view e = \<lparr>tv_dtype = kF16, tv_shape = expected_shape e, tv_base = demo_checkpoint, tv_offset = 9,
     tv_nbytes = nat (2 * num_elements e)\<rparr>"

definition checkpoint_parser :: json_parser where
  "checkpoint_parser text =
     (if text = [123]
      then Some (JObj (map header_entry (pinned_map False)), map (\<lambda>e. (1, hf_name e)) (pinned_map False))
      else None)"

definition checkpoint_fs :: FileSystem where
  "checkpoint_fs = \<lparr>fs_bytes = (\<lambda>p. if p = ''m/model.safetensors'' then Some demo_checkpoint else None),
     fs_exists = (\<lambda>p. p = ''m/model.safetensors''), fs_join = (\<lambda>d f. d @ ''/'' @ f), fs_parent = (\<lambda>p. ''m'')\<rparr>"

definition checkpoint_model :: SafetensorsModel where
  "checkpoint_model =
     (let ts = map (\<lambda>e. (hf_name e, header_view e)) (pinned_map False) in
      \<lparr>sm_shards = [\<lparr>sf_path = ''m/model.safetensors'', sf_tensors = ts\<rparr>], sm_merged = ts\<rparr>)"

lemma watch_distinct:
  "distinct names \<Longrightarrow> set names \<inter> set (seen w) = {} \<Longrightarrow> root_key_depth w \<in> {None, Some 1} \<Longrightarrow>
     duplicate (fold watch_key (map (\<lambda>n. (1, n)) names) w) = duplicate w"
proof (induction names arbitrary: w)
  case (Cons n names)
  let ?w = "watch_key (1, n) w"
  have w: "seen ?w = n # seen w" "root_key_depth ?w = Some 1" "duplicate ?w = duplicate w"
    using Cons.prems by (auto simp: watch_key_def Let_def)
  then have "duplicate (fold watch_key (map (\<lambda>n. (1, n)) names) ?w) = duplicate ?w"
    using Cons.prems by (intro Cons.IH) auto
  then show ?case using w by simp
qed simp

lemma pinned_shapes:
  "e \<in> set (pinned_map b) \<Longrightarrow>
     expected_shape e \<in> {[151936, 1536], [1536], [1536, 1536], [256, 1536], [256], [8960, 1536], [1536, 8960]} \<and>
     (\<exists>c r. hf_name e = c # r \<and> c \<noteq> CHR ''_'')"
  by (auto simp: pinned_map_def layer_entries_def entry_def LayerTensorName_def split: if_splits)

lemma header_entry_parses:
  assumes "e \<in> set (pinned_map False)"
  shows "parse_tensor demo_checkpoint 9 466747392 (snd (header_entry e)) = Inr (header_view e)"
proof -
  have "expected_shape e \<in> {[151936, 1536], [1536], [1536, 1536], [256, 1536], [256], [8960, 1536], [1536, 8960]}"
    using pinned_shapes[OF assms] by blast
  then show ?thesis
    by (elim insertE emptyE)
      (simp_all add: parse_tensor_def header_entry_def header_view_def num_elements_def DtypeFromString_def shape_dim_def
        RequireU64_def parse_offsets_def Let_def)
qed

lemma entries_parse:
  "distinct (map hf_name es) \<Longrightarrow> set es \<subseteq> set (pinned_map False) \<Longrightarrow> hf_name ` set es \<inter> fst ` set ts = {} \<Longrightarrow>
     foldE (parse_entry demo_checkpoint 9 466747392) (map header_entry es) ts =
       Inr (ts @ map (\<lambda>e. (hf_name e, header_view e)) es)"
proof (induction es arbitrary: ts)
  case (Cons e es)
  have e: "e \<in> set (pinned_map False)" using Cons.prems by simp
  have h: "header_entry e = (hf_name e, snd (header_entry e))" by (simp add: header_entry_def)
  have "hf_name e \<noteq> ''__metadata__''" using pinned_shapes[OF e] by auto
  moreover have "map_of ts (hf_name e) = None" using Cons.prems(3) by (auto simp: map_of_eq_None_iff)
  ultimately have "parse_entry demo_checkpoint 9 466747392 ts (hf_name e, snd (header_entry e)) = Inr (ts @ [(hf_name e, header_view e)])"
    using header_entry_parses[OF e] by (simp add: parse_entry_def emplace_def)
  then have "parse_entry demo_checkpoint 9 466747392 ts (header_entry e) = Inr (ts @ [(hf_name e, header_view e)])"
    by (subst h)
  moreover have "foldE (parse_entry demo_checkpoint 9 466747392) (map header_entry es) (ts @ [(hf_name e, header_view e)]) =
      Inr ((ts @ [(hf_name e, header_view e)]) @ map (\<lambda>e. (hf_name e, header_view e)) es)"
    by (rule Cons.IH) (use Cons.prems in auto)
  ultimately show ?case by simp
qed simp

lemma checkpoint_opens: "OpenDir checkpoint_parser checkpoint_fs ''m'' = Inr checkpoint_model"
proof -
  have len: "length demo_checkpoint = 466747401" by (simp add: demo_checkpoint_def)
  have "\<forall>i<8. demo_checkpoint ! i = [1, 0, 0, 0, 0, 0, 0, 0 :: 8 word] ! i"
    by (simp add: demo_checkpoint_def nth_append nth_Cons split: nat.splits)
  then have "ReadLeU64 demo_checkpoint = ReadLeU64 [1, 0, 0, 0, 0, 0, 0, 0]" by (simp add: ReadLeU64_def)
  also have "\<dots> = 1" by code_simp
  finally have h: "unat (ReadLeU64 demo_checkpoint) = 1" by simp
  have t: "take 1 (drop 8 demo_checkpoint) = [123]" by (simp add: demo_checkpoint_def)
  have k: "duplicate (watch_keys (map (\<lambda>e. (1, hf_name e)) (pinned_map False))) = []"
    using watch_distinct[OF distinct_names[of False], of "\<lparr>seen = [], duplicate = [], root_key_depth = None\<rparr>"]
    by (simp add: watch_keys_def comp_def)
  have "ParseHeader checkpoint_parser demo_checkpoint = Inr (map (\<lambda>e. (hf_name e, header_view e)) (pinned_map False))"
    using entries_parse[OF distinct_names[of False], of "[]"] k
    by (simp add: ParseHeader_def h t t[unfolded One_nat_def] k[unfolded One_nat_def] len checkpoint_parser_def Let_def)
  then have "OpenFile checkpoint_parser checkpoint_fs ''m/model.safetensors'' =
      Inr \<lparr>sf_path = ''m/model.safetensors'', sf_tensors = map (\<lambda>e. (hf_name e, header_view e)) (pinned_map False)\<rparr>"
    by (simp add: OpenFile_def checkpoint_fs_def len)
  then show ?thesis by (simp add: OpenDir_def OpenSingle_def checkpoint_fs_def kSingleFileName_def checkpoint_model_def Let_def)
qed

abbreviation demo_mc :: ModelConfig where "demo_mc \<equiv> pinned_config [151645, 151643]"

lemma demo_required:
  "\<exists>b. ComputeBudget demo_mc demo_options = Inr b \<and> num_kv_blocks b = 2340 \<and> total_device_bytes b \<le> 2 ^ 32"
  by (simp add: ComputeBudget_def ValidateGeometry_def pinned_config_def default_ExecutorOptions_def demo_options_def
      KvBytesPerToken_def kKvBlockSize_def Let_def to_int32_def ComputeScratchLayout_def Take_def AlignUp_def kSlabAlign_def
      kDefaultWorkspaceBytes_def step_rows_def max_blocks_per_seq_def BlocksForTokens_def qkv_width_def gateup_width_def
      score_elems_def gather_elems_def table_elems_def)

definition demo_env :: "nat InitEnv" where
  "demo_env =
     \<lparr>env_parse_config = demo_parse,
      env_read_text = (\<lambda>p. if p = ''m/config.json'' then Some ''C'' else if p = ''m/generation_config.json'' then Some ''G'' else None),
      env_parse = checkpoint_parser, env_fs = checkpoint_fs, env_mem_info = Some (2 ^ 40), env_ok = (\<lambda>_ _. True),
      env_dma = (\<lambda>k. k mod 3), env_malloc = (\<lambda>_. Some 4096), env_pinned = (\<lambda>_. 0), env_device = (\<lambda>_. 0),
      env_cuda = demo_cuda\<rparr>"

definition demo_new_options :: EngineOptions where
  "demo_new_options = default_EngineOptions\<lparr>model_dir := ''m''\<rparr>"

lemma demo_new_options: "MakeExecutorOptions demo_new_options = demo_options"
  using demo_engine_options by (simp add: demo_new_options_def MakeExecutorOptions_def)

lemma demo_assembles:
  assumes "exec_reachable cu demo_mc demo_options ex"
  shows "\<exists>eng. assemble demo_new_options demo_mc ex = Inr eng"
proof -
  have bud: "num_kv_blocks (me_budget ex) = 2340"
    using exec_reachable_inv[OF assms] demo_required by (auto simp: exec_inv_def)
  obtain a where a: "new_BlockAllocator 2340 = Inr a" "alloc_inv a" "reserved a = 0"
    "set (free_list a) = {1..<total_blocks a}" using new_BlockAllocator_ok[of 2340] by (auto elim!: wpE)
  have "options_ok (scheduler_options demo_new_options demo_mc)"
    by (simp add: options_ok_def scheduler_options_def demo_new_options_def default_EngineOptions_def default_SchedulerOptions_def)
  from new_Scheduler_ok[OF this a(2,3,4), of "\<lambda>_. None"]
  obtain s where "new_Scheduler a (scheduler_options demo_new_options demo_mc) (\<lambda>_. None) = Inr s" by (auto elim: wpE)
  then show ?thesis using a(1) by (simp add: assemble_def bud)
qed

lemma demo_loads:
  "\<exists>w t. load_weights demo_env checkpoint_model demo_mc \<lparr>in_device = (\<lambda>_. 0), in_slabs = {}\<rparr> = (Inr w, t) \<and>
     dw_layout w = pinned_layout False \<and> dw_slab w = 4096 \<and> dw_num_layers w = num_layers demo_mc"
proof -
  obtain u where u: "new_StagedUploader (\<lambda>_ _. True) kDefaultStagingBytes (\<lambda>_. 0) (\<lambda>_. 0) = Inr u"
    by (simp add: new_StagedUploader_def kDefaultStagingBytes_def kMinStagingBytes_def)
  have ok: "uploader_ok None u" using new_uploader_ok[OF u] by blast
  have "''lm_head.weight'' \<notin> hf_name ` set (pinned_map False)"
  proof -
    have "map hf_name (pinned_map True) = map hf_name (pinned_map False) @ [''lm_head.weight'']"
      by (simp add: pinned_map_def entry_def del: upt_Suc)
    with distinct_names[of True] show ?thesis by auto
  qed
  then have b: "False = ModelContains checkpoint_model ''lm_head.weight''"
    by (auto simp: ModelContains_def checkpoint_model_def Let_def map_of_eq_None_iff image_image)
  have g: "RequireDesignGeometry demo_mc = Inr ()" by (simp add: geometry_iff pinned_config_def)
  have v: "ModelContains checkpoint_model (hf_name e) \<and>
      (\<exists>v. ModelTensor checkpoint_model (hf_name e) = Inr v \<and> tv_shape v = expected_shape e \<and> tv_dtype v = kF16)"
    if "e \<in> set (pinned_map False)" for e
  proof -
    have "map_of (map (\<lambda>e. (hf_name e, header_view e)) (pinned_map False)) (hf_name e) = Some (header_view e)"
      using distinct_names[of False] that by (auto intro!: map_of_is_SomeI simp: comp_def)
    then show ?thesis by (simp add: ModelContains_def ModelTensor_def checkpoint_model_def Let_def header_view_def)
  qed
  obtain t where "new_DeviceWeights (\<lambda>_ _. True) (\<lambda>k. k mod 3) (\<lambda>_. Some 4096) checkpoint_model demo_mc \<lparr>up = u, slabs = {}\<rparr> =
      (Inr \<lparr>dw_layout = pinned_layout False, dw_num_layers = num_layers demo_mc, dw_slab = 4096\<rparr>, t)"
    using load_succeeds[of "\<lambda>_ _. True" "\<lparr>up = u, slabs = {}\<rparr>" demo_mc "\<lambda>_. Some 4096" False 4096 checkpoint_model "\<lambda>k. k mod 3",
        OF _ _ g _ _ b v] ok by (auto simp: pinned_config_def)
  then show ?thesis using u by (simp add: load_weights_def demo_env_def)
qed

lemma demo_constructs_on:
  assumes cu: "cuda_ok cu" "\<forall>c. offers (cu_lt cu) kDefaultWorkspaceBytes c"
  shows "\<exists>eng w t. new_Engine (demo_env\<lparr>env_cuda := cu\<rparr>) demo_new_options \<lparr>in_device = (\<lambda>_. 0), in_slabs = {}\<rparr> = (Inr (eng, w), t) \<and>
     dw_layout w = pinned_layout False \<and> dw_slab w = 4096"
proof -
  let ?env = "demo_env\<lparr>env_cuda := cu\<rparr>"
  have f: "env_ok ?env = env_ok demo_env" "env_parse ?env = env_parse demo_env" "env_fs ?env = env_fs demo_env"
    "env_parse_config ?env = env_parse_config demo_env" "env_read_text ?env = env_read_text demo_env"
    "env_dma ?env = env_dma demo_env" "env_malloc ?env = env_malloc demo_env" "env_pinned ?env = env_pinned demo_env"
    "env_mem_info ?env = env_mem_info demo_env" by simp_all
  have "load_weights ?env m c s = load_weights demo_env m c s" for m c s by (simp only: load_weights_def f)
  moreover have "check_memory ?env k = check_memory demo_env k" for k by (simp only: check_memory_def f)
  ultimately have same: "load_weights ?env = load_weights demo_env" "check_memory ?env = check_memory demo_env"
    by (simp_all add: fun_eq_iff)
  obtain w t where l: "load_weights demo_env checkpoint_model demo_mc \<lparr>in_device = (\<lambda>_. 0), in_slabs = {}\<rparr> = (Inr w, t)"
    "dw_layout w = pinned_layout False" "dw_slab w = 4096" "dw_num_layers w = num_layers demo_mc" using demo_loads by blast
  have c: "FromModelDir (env_parse_config demo_env) (env_read_text demo_env) (model_dir demo_new_options) = Inr demo_mc"
  proof -
    have "FromJsonText demo_parse ''C'' ''G'' = Inr demo_mc" by code_simp
    then show ?thesis by (simp add: FromModelDir_def demo_env_def demo_new_options_def)
  qed
  have od: "OpenDir (env_parse demo_env) (env_fs demo_env) (model_dir demo_new_options) = Inr checkpoint_model"
    using checkpoint_opens by (simp add: demo_env_def demo_new_options_def)
  have kv: "check_kv_pool_gb demo_new_options = Inr ()"
    by (simp add: check_kv_pool_gb_def demo_new_options_def default_EngineOptions_def)
  obtain b where b: "ComputeBudget demo_mc demo_options = Inr b" "total_device_bytes b \<le> 2 ^ 32" using demo_required by blast
  obtain ex where ex: "new_ModelExecutor cu demo_mc (num_layers demo_mc) demo_options 0 = Inr ex"
    using init_captures[OF b(1) cu(2,1), of 0] by (force simp: demo_options_def)
  obtain eng where eng: "assemble demo_new_options demo_mc ex = Inr eng"
    using demo_assembles[OF exec_reachable.built[OF ex]] by blast
  have head: "ModelContains checkpoint_model ''lm_head.weight'' = False"
  proof -
    have "dw_layout w = pinned_layout (ModelContains checkpoint_model ''lm_head.weight'')"
      using load_weights_out[OF l(1)] load_success by metis
    then show ?thesis using l(2) by (cases "ModelContains checkpoint_model ''lm_head.weight''") (auto simp: pinned_layout_def)
  qed
  have g: "RequireDesignGeometry demo_mc = Inr ()" by (simp add: geometry_iff pinned_config_def)
  have wb: "TotalDeviceBytes demo_mc False = Inr 3087428608"
    by (simp add: TotalDeviceBytes_def layout_pinned[OF g] pinned_layout_def)
  have gr: "graph_budget demo_new_options \<le> 2 ^ 32" by code_simp
  have me: "check_memory demo_env (required_bytes demo_new_options 3087428608 b) = Inr ()"
    using b(2) gr by (simp add: check_memory_def demo_env_def required_bytes_def kContextSlackBytes_def kMiB_def)
  have b': "ComputeBudget demo_mc (MakeExecutorOptions demo_new_options) = Inr b" using b(1) by (simp add: demo_new_options)
  have ok: "env_ok demo_env what k" for what k by (simp add: demo_env_def)
  have "build_engine ?env demo_new_options demo_mc w t = (Inr eng, t)"
    using ex eng l(4) by (simp add: build_engine_def bindS_def liftI_def getS_def demo_env_def demo_new_options)
  then have "new_Engine ?env demo_new_options \<lparr>in_device = (\<lambda>_. 0), in_slabs = {}\<rparr> = (Inr (eng, w), t)"
    unfolding new_Engine_def Let_def same f c od kv head wb b' me
    using l(1) me ok by (simp add: bindS_def liftI_def catchS_def returnS_def head wb b')
  then show ?thesis using l by blast
qed

lemma demo_constructs:
  "\<exists>eng w t. new_Engine demo_env demo_new_options \<lparr>in_device = (\<lambda>_. 0), in_slabs = {}\<rparr> = (Inr (eng, w), t) \<and>
     dw_layout w = pinned_layout False \<and> dw_slab w = 4096"
proof -
  have "demo_env\<lparr>env_cuda := demo_cuda\<rparr> = demo_env" by (simp add: demo_env_def)
  moreover have "\<forall>c. offers (cu_lt demo_cuda) kDefaultWorkspaceBytes c" using demo_offers by (simp add: demo_cuda_def)
  ultimately show ?thesis using demo_constructs_on[OF demo_cuda_ok] by metis
qed


end
