(* ===== verification/Kernel_Launch.thy ===== *)
theory Kernel_Launch
  imports Loops
begin

text \<open>
  Device kernels as sets of memory operations. A kernel launch is a list of steps; a step reads some
  addresses into registers, computes, and writes some addresses. The GPU may run the steps of all
  threads in any order and may put the loads and stores of other steps between the load and the
  store of one: a schedule is any order of these events in which each step loads before it stores.
  Addresses count half elements, so the byte address of a pointer is twice its value.

  A step is undisturbed when no other step of the launch writes what it reads or writes. The lemmas
  below give the effect of an undisturbed step, whatever the schedule.
\<close>

datatype 'v step = Step (step_reads: "int list") (step_writes: "int list") (step_compute: "'v list \<Rightarrow> 'v list")

datatype event = Load nat | Store nat

type_synonym 'v device_memory = "int \<Rightarrow> 'v"

definition store_all :: "int list \<Rightarrow> 'v list \<Rightarrow> 'v device_memory \<Rightarrow> 'v device_memory" where
  "store_all ws vs m = fold (\<lambda>(a, v) m. m(a := v)) (zip ws vs) m"

fun do_event :: "'v step list \<Rightarrow> event \<Rightarrow> 'v device_memory \<times> (nat \<Rightarrow> 'v list) \<Rightarrow> 'v device_memory \<times> (nat \<Rightarrow> 'v list)" where
  "do_event ss (Load i) (m, regs) = (m, regs(i := map m (step_reads (ss ! i))))"
| "do_event ss (Store i) (m, regs) = (store_all (step_writes (ss ! i)) (step_compute (ss ! i) (regs i)) m, regs)"

definition run_events :: "'v step list \<Rightarrow> event list \<Rightarrow> 'v device_memory \<Rightarrow> 'v device_memory" where
  "run_events ss es m = fst (fold (do_event ss) es (m, \<lambda>_. []))"

definition schedule :: "nat \<Rightarrow> event list \<Rightarrow> bool" where
  "schedule n es \<longleftrightarrow> distinct es \<and> set es = set (map Load [0..<n] @ map Store [0..<n]) \<and>
     list_all (\<lambda>i. Load i \<in> set (takeWhile (\<lambda>e. e \<noteq> Store i) es)) [0..<n]"

text \<open>The schedule of a single thread that runs the steps one after the other.\<close>

definition sequential :: "nat \<Rightarrow> event list" where
  "sequential n = concat (map (\<lambda>i. [Load i, Store i]) [0..<n])"

lemma schedule_sequential [simp]: "schedule n (sequential n)"
proof -
  have d: "distinct (sequential n)"
    unfolding sequential_def by (rule distinct_concat_map) auto
  have t: "Load i \<in> set (takeWhile (\<lambda>e. e \<noteq> Store i) (sequential n))" if "i < n" for i
  proof -
    have "sequential n = sequential i @ [Load i] @ Store i # concat (map (\<lambda>i. [Load i, Store i]) [Suc i..<n])"
    proof -
      have "[0..<n] = [0..<i] @ i # [Suc i..<n]" using that by (metis upt_add_eq_append upt_conv_Cons le0 less_or_eq_imp_le add_diff_inverse_nat not_less_iff_gr_or_eq le_add_diff_inverse)
      then show ?thesis by (simp add: sequential_def)
    qed
    moreover have "\<And>e. e \<in> set (sequential i) \<Longrightarrow> e \<noteq> Store i" by (auto simp: sequential_def)
    ultimately show ?thesis by (simp add: takeWhile_append2)
  qed
  show ?thesis using d t by (auto simp: schedule_def list_all_iff sequential_def)
qed

section \<open>One store\<close>

lemma store_all_other: "a \<notin> set ws \<Longrightarrow> store_all ws vs m a = m a"
proof (induction ws arbitrary: vs m)
  case (Cons w ws)
  then show ?case by (cases vs) (auto simp: store_all_def)
qed (simp add: store_all_def)

lemma map_store_all: "distinct ws \<Longrightarrow> length vs = length ws \<Longrightarrow> map (store_all ws vs m) ws = vs"
proof (induction ws arbitrary: vs m)
  case (Cons w ws)
  then obtain v vs' where vs: "vs = v # vs'" "length vs' = length ws" by (cases vs) auto
  have "store_all (w # ws) vs m = store_all ws vs' (m(w := v))" by (simp add: store_all_def vs)
  then show ?case using Cons vs store_all_other[of w ws vs' "m(w := v)"] by simp
qed (simp add: store_all_def)

section \<open>Undisturbed steps\<close>

definition step_ok :: "'v step \<Rightarrow> bool" where
  "step_ok s \<longleftrightarrow> distinct (step_writes s) \<and>
     (\<forall>vs. length vs = length (step_reads s) \<longrightarrow> length (step_compute s vs) = length (step_writes s))"

definition undisturbed :: "'v step list \<Rightarrow> nat \<Rightarrow> bool" where
  "undisturbed ss i \<longleftrightarrow> (\<forall>j<length ss. j \<noteq> i \<longrightarrow>
     set (step_writes (ss ! j)) \<inter> (set (step_reads (ss ! i)) \<union> set (step_writes (ss ! i))) = {})"

lemma run_unwritten:
  assumes "\<forall>i. Store i \<in> set es \<longrightarrow> a \<notin> set (step_writes (ss ! i))"
  shows "fst (fold (do_event ss) es s) a = fst s a"
  using assms
proof (induction es arbitrary: s)
  case (Cons e es)
  obtain m regs where s: "s = (m, regs)" by fastforce
  have "fst (do_event ss e s) a = fst s a" using Cons.prems by (cases e) (auto simp: s store_all_other)
  moreover have "fst (fold (do_event ss) es (do_event ss e s)) a = fst (do_event ss e s) a"
    by (rule Cons.IH) (use Cons.prems in simp)
  ultimately show ?case by simp
qed simp

lemma regs_kept:
  "Load i \<notin> set es \<Longrightarrow> snd (fold (do_event ss) es s) i = snd s i"
proof (induction es arbitrary: s)
  case (Cons e es)
  obtain m regs where s: "s = (m, regs)" by fastforce
  show ?case using Cons by (cases e) (auto simp: s)
qed simp

text \<open>The events of a step split a schedule into three parts.\<close>

lemma schedule_split:
  assumes "schedule n es" and "i < n"
  obtains p q r where "es = p @ Load i # q @ Store i # r"
    and "Load i \<notin> set p \<union> set q \<union> set r" and "Store i \<notin> set p \<union> set q \<union> set r"
proof -
  have d: "distinct es" and l: "Load i \<in> set (takeWhile (\<lambda>e. e \<noteq> Store i) es)" and st: "Store i \<in> set es"
    using assms by (auto simp: schedule_def list_all_iff)
  let ?t = "takeWhile (\<lambda>e. e \<noteq> Store i) es"
  obtain p q where pq: "?t = p @ Load i # q" using split_list[OF l] by blast
  have "\<exists>r. dropWhile (\<lambda>e. e \<noteq> Store i) es = Store i # r"
  proof -
    have "dropWhile (\<lambda>e. e \<noteq> Store i) es \<noteq> []" using st by (simp add: dropWhile_eq_Nil_conv)
    then show ?thesis using hd_dropWhile[of "\<lambda>e. e \<noteq> Store i" es] by (cases "dropWhile (\<lambda>e. e \<noteq> Store i) es") auto
  qed
  then obtain r where "es = (p @ Load i # q) @ Store i # r" using pq takeWhile_dropWhile_id by metis
  then have es: "es = p @ Load i # q @ Store i # r" by simp
  show ?thesis by (rule that[OF es]) (use d in \<open>auto simp: es\<close>)
qed

lemma undisturbed_step:
  assumes "schedule (length ss) es" and "i < length ss" and "undisturbed ss i" and "step_ok (ss ! i)"
  shows "map (run_events ss es m) (step_writes (ss ! i)) = step_compute (ss ! i) (map m (step_reads (ss ! i)))"
proof -
  obtain p q r where es: "es = p @ Load i # q @ Store i # r"
    and n: "Load i \<notin> set p \<union> set q \<union> set r" "Store i \<notin> set p \<union> set q \<union> set r"
    by (rule schedule_split[OF assms(1,2)])
  have other: "a \<notin> set (step_writes (ss ! j))"
    if "Store j \<in> set p \<union> set q \<union> set r" "a \<in> set (step_reads (ss ! i)) \<union> set (step_writes (ss ! i))" for j a
  proof -
    have "j < length ss" using that(1) assms(1) by (auto simp: schedule_def es)
    moreover have "j \<noteq> i" using that(1) n(2) by auto
    ultimately show ?thesis using assms(3) that(2) by (auto simp: undisturbed_def)
  qed
  define s1 where "s1 = fold (do_event ss) p (m, \<lambda>_. [])"
  define s2 where "s2 = fold (do_event ss) q (do_event ss (Load i) s1)"
  define s3 where "s3 = do_event ss (Store i) s2"
  have run: "run_events ss es m = fst (fold (do_event ss) r s3)" by (simp add: run_events_def es s1_def s2_def s3_def)
  have "map (fst s1) (step_reads (ss ! i)) = map m (step_reads (ss ! i))"
    unfolding s1_def by (rule map_cong[OF refl], subst run_unwritten) (use other in auto)
  then have "snd (do_event ss (Load i) s1) i = map m (step_reads (ss ! i))" by (cases s1) simp
  then have regs: "snd s2 i = map m (step_reads (ss ! i))" using n(1) regs_kept[of i q ss] by (simp add: s2_def)
  have "fst s3 = store_all (step_writes (ss ! i)) (step_compute (ss ! i) (snd s2 i)) (fst s2)" by (cases s2) (simp add: s3_def)
  then have "map (fst s3) (step_writes (ss ! i)) = step_compute (ss ! i) (map m (step_reads (ss ! i)))"
    using assms(4) regs by (simp add: step_ok_def map_store_all)
  moreover have "map (run_events ss es m) (step_writes (ss ! i)) = map (fst s3) (step_writes (ss ! i))"
    unfolding run by (rule map_cong[OF refl], subst run_unwritten) (use other in auto)
  ultimately show ?thesis by simp
qed

lemma untouched:
  assumes "schedule (length ss) es" and "\<And>s. s \<in> set ss \<Longrightarrow> a \<notin> set (step_writes s)"
  shows "run_events ss es m a = m a"
  unfolding run_events_def
  by (subst run_unwritten) (use assms in \<open>auto simp: schedule_def\<close>)

section \<open>Launches that run one step per index\<close>

text \<open>
  The steps of an index list without repetition. For an index \<open>x\<close> whose step no other index
  disturbs, the step has its effect.
\<close>

lemma indexed_step:
  assumes "schedule (length xs) es" and "distinct xs" and "x \<in> set xs" and "step_ok (st x)"
    and "\<And>y. y \<in> set xs \<Longrightarrow> y \<noteq> x \<Longrightarrow> set (step_writes (st y)) \<inter> (set (step_reads (st x)) \<union> set (step_writes (st x))) = {}"
  shows "map (run_events (map st xs) es m) (step_writes (st x)) = step_compute (st x) (map m (step_reads (st x)))"
proof -
  obtain i where i: "i < length xs" "xs ! i = x" using assms(3) by (auto simp: in_set_conv_nth)
  have "undisturbed (map st xs) i"
    unfolding undisturbed_def
  proof (intro allI impI)
    fix j
    assume j: "j < length (map st xs)" "j \<noteq> i"
    then have "xs ! j \<in> set xs" "xs ! j \<noteq> x" using i assms(2) by (auto simp: nth_eq_iff_index_eq)
    then show "set (step_writes (map st xs ! j)) \<inter> (set (step_reads (map st xs ! i)) \<union> set (step_writes (map st xs ! i))) = {}"
      using assms(5)[of "xs ! j"] i j by simp
  qed
  then show ?thesis using undisturbed_step[of "map st xs" es i m] assms(1,4) i by simp
qed

lemma indexed_untouched:
  assumes "schedule (length xs) es" and "\<And>x. x \<in> set xs \<Longrightarrow> a \<notin> set (step_writes (st x))"
  shows "run_events (map st xs) es m a = m a"
  by (rule untouched) (use assms in auto)

text \<open>A grid of blocks: all pairs of a block and an index of its threads.\<close>

definition grid :: "'b list \<Rightarrow> 'w list \<Rightarrow> ('b \<times> 'w) list" where
  "grid bs ws = concat (map (\<lambda>b. map (Pair b) ws) bs)"

lemma set_grid [simp]: "set (grid bs ws) = set bs \<times> set ws"
  by (auto simp: grid_def)

lemma distinct_grid: "distinct bs \<Longrightarrow> distinct ws \<Longrightarrow> distinct (grid bs ws)"
  unfolding grid_def by (rule distinct_concat_map) (auto simp: distinct_map inj_on_def)

text \<open>Consecutive elements, as a vector access of a thread moves them.\<close>

definition vector :: "int \<Rightarrow> int \<Rightarrow> int list" where
  "vector n a = map (\<lambda>j. a + j) [0..n - 1]"

lemma set_vector [simp]: "set (vector n a) = {a..<a + n}"
proof -
  have "(\<lambda>j. a + j) ` {0..n - 1} = {a..<a + n}"
  proof (intro equalityI subsetI)
    fix x assume "x \<in> {a..<a + n}"
    then have "x - a \<in> {0..n - 1}" "x = a + (x - a)" by auto
    then show "x \<in> (\<lambda>j. a + j) ` {0..n - 1}" by blast
  qed auto
  then show ?thesis by (simp add: vector_def)
qed

lemma in_vectorE:
  assumes "a \<in> set (vector n b)" obtains j where "a = b + j" "0 \<le> j" "j < n"
  by (rule that[of "a - b"]) (use assms in auto)

lemma length_vector [simp]: "length (vector n a) = nat n"
  by (simp add: vector_def)

lemma distinct_vector [simp]: "distinct (vector n a)"
  by (simp add: vector_def distinct_map inj_on_def)

definition copy_step :: "int \<Rightarrow> int \<Rightarrow> int \<Rightarrow> 'v step" where
  "copy_step n src dst = Step (vector n src) (vector n dst) (\<lambda>vs. vs)"

lemma copy_step_simps [simp]:
  "step_reads (copy_step n src dst) = vector n src" "step_writes (copy_step n src dst) = vector n dst"
  "step_compute (copy_step n src dst) vs = vs" "step_ok (copy_step n src dst)"
  by (simp_all add: copy_step_def step_ok_def)

lemma copied:
  assumes "map (f :: int \<Rightarrow> 'v) (vector n dst) = map g (vector n src)" and "0 \<le> j" and "j < n"
  shows "f (dst + j) = g (src + j)"
proof -
  have "nat j < length [0..n - 1]" using assms(2,3) by simp
  moreover have "[0..n - 1] ! nat j = j" using assms(2,3) by (simp add: nth_upto)
  moreover have "map f (vector n dst) ! nat j = map g (vector n src) ! nat j" using assms(1) by simp
  ultimately show ?thesis by (simp add: vector_def)
qed

text \<open>A row-major address has one row and one column.\<close>

lemma digits_unique:
  fixes x d n :: int
  assumes "x * n + d = x' * n + d'" and "0 \<le> d" "d < n" and "0 \<le> d'" "d' < n"
  shows "x = x' \<and> d = d'"
proof -
  have "(x * n + d) div n = x" using assms(2,3) by (simp add: div_pos_pos_trivial)
  moreover have "(x' * n + d') div n = x'" using assms(4,5) by (simp add: div_pos_pos_trivial)
  ultimately have "x = x'" using assms(1) by metis
  then show ?thesis using assms(1) by simp
qed

end
