(* ===== verification/Kv_Pool.thy ===== *)
theory Kv_Pool
  imports Kernel_Launch Core_Types
begin

text \<open>
  The paged KV pool on the device: the scatter and gather kernels of
  \<^verbatim>\<open>src/src/kernels/kv_scatter.cu\<close> and \<^verbatim>\<open>src/src/kernels/kv_gather.cu\<close> with their launchers.

  One layer's pool slice has the shape \<^verbatim>\<open>[num_blocks, 2, num_kv_heads, 16, head_dim]\<close>. Both kernels
  run one block of 128 threads per token; the threads share the words of the token's K and V rows,
  a word being eight halves on the vector path and one on the scalar path. The block tables and the
  positions are read-only arrays of int32 and are given as functions.
\<close>

unbundle bit_operations_syntax

definition kv_kBlockThreads :: nat where "kv_kBlockThreads = 128"
definition kVecHalves :: int where "kVecHalves = 8"
definition kKvBlockShift :: nat where "kKvBlockShift = 4"

definition PoolRowBase :: "int \<Rightarrow> int \<Rightarrow> int \<Rightarrow> int \<Rightarrow> int \<Rightarrow> int \<Rightarrow> int" where
  "PoolRowBase block kv head pslot n_kv hdim =
     (let plane = block * 2 + kv in ((plane * n_kv + head) * kKvBlockSize + pslot) * hdim)"

text \<open>The plane, the word of that plane's row, the head and the word of the head's row.\<close>

definition word_coords :: "int \<Rightarrow> int \<Rightarrow> int \<Rightarrow> int \<times> int \<times> int \<times> int" where
  "word_coords words_per_head words_per_side w =
     (let kv = (if w < words_per_side then 0 else 1);
          r = w - kv * words_per_side;
          h = r div words_per_head;
          dw = r - h * words_per_head
      in (kv, r, h, dw))"

text \<open>A pointer to half elements is a multiple of 16 bytes.\<close>

definition IsUint4Aligned :: "int \<Rightarrow> bool" where
  "IsUint4Aligned p \<longleftrightarrow> (2 * p) mod 16 = 0"

section \<open>Scatter\<close>

record KvScatterArgs =
  sc_pool :: int
  sc_k :: int
  sc_v :: int
  sc_k_row_stride :: int
  sc_v_row_stride :: int
  sc_block_tables :: "int \<Rightarrow> int"
  sc_table_stride :: int
  sc_positions :: "int \<Rightarrow> int"
  sc_num_tokens :: int
  sc_num_kv_heads :: int
  sc_head_dim :: int

definition scatter_block :: "KvScatterArgs \<Rightarrow> int \<Rightarrow> int" where
  "scatter_block a t = sc_block_tables a (t * sc_table_stride a + drop_bit kKvBlockShift (sc_positions a t))"

definition scatter_slot :: "KvScatterArgs \<Rightarrow> int \<Rightarrow> int" where
  "scatter_slot a t = sc_positions a t AND (kKvBlockSize - 1)"

definition scatter_word :: "int \<Rightarrow> KvScatterArgs \<Rightarrow> int \<times> int \<Rightarrow> 'v step" where
  "scatter_word halves_per_word a tw =
     (case tw of (t, w) \<Rightarrow>
        let words_per_head = sc_head_dim a div halves_per_word;
            words_per_side = sc_num_kv_heads a * words_per_head;
            (kv, r, h, dw) = word_coords words_per_head words_per_side w;
            dst = PoolRowBase (scatter_block a t) kv h (scatter_slot a t) (sc_num_kv_heads a) (sc_head_dim a)
                    div halves_per_word + dw;
            words = (if kv = 0 then sc_k a + t * sc_k_row_stride a else sc_v a + t * sc_v_row_stride a)
        in copy_step halves_per_word (words + r * halves_per_word) (sc_pool a + dst * halves_per_word))"

definition scatter_indices :: "int \<Rightarrow> KvScatterArgs \<Rightarrow> (int \<times> int) list" where
  "scatter_indices halves_per_word a =
     (let words_per_token = 2 * (sc_num_kv_heads a * (sc_head_dim a div halves_per_word)) in
      grid [0..sc_num_tokens a - 1] (map int (block_indices kv_kBlockThreads (nat words_per_token))))"

definition KvScatterKernel :: "int \<Rightarrow> KvScatterArgs \<Rightarrow> 'v step list" where
  "KvScatterKernel halves_per_word a = map (scatter_word halves_per_word a) (scatter_indices halves_per_word a)"

definition LaunchKvScatter :: "KvScatterArgs \<Rightarrow> 'v step list" where
  "LaunchKvScatter a =
     (if sc_num_tokens a \<le> 0 \<or> sc_num_kv_heads a \<le> 0 \<or> sc_head_dim a \<le> 0 then []
      else if sc_head_dim a mod kVecHalves = 0 \<and> sc_k_row_stride a mod kVecHalves = 0 \<and>
              sc_v_row_stride a mod kVecHalves = 0 \<and> IsUint4Aligned (sc_pool a) \<and>
              IsUint4Aligned (sc_k a) \<and> IsUint4Aligned (sc_v a)
           then KvScatterKernel kVecHalves a
           else KvScatterKernel 1 a)"

section \<open>Gather\<close>

record KvGatherArgs =
  ga_khat :: int
  ga_vhat :: int
  ga_khat_head_stride :: int
  ga_khat_row_stride :: int
  ga_vhat_head_stride :: int
  ga_vhat_row_stride :: int
  ga_pool :: int
  ga_table_row :: "int \<Rightarrow> int"
  ga_ctx_len :: int
  ga_num_kv_heads :: int
  ga_head_dim :: int

definition gather_word :: "int \<Rightarrow> KvGatherArgs \<Rightarrow> int \<times> int \<Rightarrow> 'v step" where
  "gather_word halves_per_word a tw =
     (case tw of (t, w) \<Rightarrow>
        let block = ga_table_row a (drop_bit kKvBlockShift t);
            pslot = t AND (kKvBlockSize - 1);
            words_per_head = ga_head_dim a div halves_per_word;
            words_per_side = ga_num_kv_heads a * words_per_head;
            (kv, r, h, dw) = word_coords words_per_head words_per_side w;
            src = PoolRowBase block kv h pslot (ga_num_kv_heads a) (ga_head_dim a) div halves_per_word + dw;
            dst_row = (if kv = 0 then ga_khat a + h * ga_khat_head_stride a + t * ga_khat_row_stride a
                       else ga_vhat a + h * ga_vhat_head_stride a + t * ga_vhat_row_stride a)
        in copy_step halves_per_word (ga_pool a + src * halves_per_word) (dst_row + dw * halves_per_word))"

definition gather_indices :: "int \<Rightarrow> KvGatherArgs \<Rightarrow> (int \<times> int) list" where
  "gather_indices halves_per_word a =
     (let words_per_token = 2 * (ga_num_kv_heads a * (ga_head_dim a div halves_per_word)) in
      grid [0..ga_ctx_len a - 1] (map int (block_indices kv_kBlockThreads (nat words_per_token))))"

definition KvGatherKernel :: "int \<Rightarrow> KvGatherArgs \<Rightarrow> 'v step list" where
  "KvGatherKernel halves_per_word a = map (gather_word halves_per_word a) (gather_indices halves_per_word a)"

definition LaunchKvGather :: "KvGatherArgs \<Rightarrow> 'v step list" where
  "LaunchKvGather a =
     (if ga_ctx_len a \<le> 0 \<or> ga_num_kv_heads a \<le> 0 \<or> ga_head_dim a \<le> 0 then []
      else if ga_head_dim a mod kVecHalves = 0 \<and> ga_khat_head_stride a mod kVecHalves = 0 \<and>
              ga_khat_row_stride a mod kVecHalves = 0 \<and> ga_vhat_head_stride a mod kVecHalves = 0 \<and>
              ga_vhat_row_stride a mod kVecHalves = 0 \<and> IsUint4Aligned (ga_khat a) \<and>
              IsUint4Aligned (ga_vhat a) \<and> IsUint4Aligned (ga_pool a)
           then KvGatherKernel kVecHalves a
           else KvGatherKernel 1 a)"

section \<open>Coordinates\<close>

lemma slot_arith:
  "drop_bit kKvBlockShift p = p div 16" "p AND (kKvBlockSize - 1) = p mod 16" for p :: int
proof -
  show "drop_bit kKvBlockShift p = p div 16" by (simp add: drop_bit_eq_div kKvBlockShift_def)
  have "p AND (kKvBlockSize - 1) = take_bit 4 p"
    by (simp add: take_bit_eq_mask mask_eq_exp_minus_1 kKvBlockSize_def)
  then show "p AND (kKvBlockSize - 1) = p mod 16" by (simp add: take_bit_eq_mod)
qed

text \<open>An element of the pool has one block, plane, head, slot and dimension.\<close>

lemma PoolRowBase_inj:
  assumes "PoolRowBase b kv h s n hdim + d = PoolRowBase b' kv' h' s' n hdim + d'"
    and "kv \<in> {0, 1}" "0 \<le> h" "h < n" "0 \<le> s" "s < 16" "0 \<le> d" "d < hdim"
    and "kv' \<in> {0, 1}" "0 \<le> h'" "h' < n" "0 \<le> s'" "s' < 16" "0 \<le> d'" "d' < hdim"
  shows "b = b' \<and> kv = kv' \<and> h = h' \<and> s = s' \<and> d = d'"
proof -
  have 1: "((b * 2 + kv) * n + h) * 16 + s = ((b' * 2 + kv') * n + h') * 16 + s' \<and> d = d'"
    by (rule digits_unique) (use assms in \<open>simp_all add: PoolRowBase_def Let_def kKvBlockSize_def\<close>)
  then have 2: "(b * 2 + kv) * n + h = (b' * 2 + kv') * n + h' \<and> s = s'"
    by (intro digits_unique) (use assms in simp_all)
  then have 3: "b * 2 + kv = b' * 2 + kv' \<and> h = h'" by (intro digits_unique) (use assms in simp_all)
  then have "b = b' \<and> kv = kv'" by (intro digits_unique) (use assms in auto)
  with 1 2 3 show ?thesis by simp
qed

lemma PoolRowBase_range:
  assumes "0 \<le> b" "b < nb" "kv \<in> {0, 1}" "0 \<le> h" "h < n" "0 \<le> s" "s < 16" "0 \<le> d" "d < hdim"
  shows "0 \<le> PoolRowBase b kv h s n hdim + d" "PoolRowBase b kv h s n hdim + d < nb * 2 * n * 16 * hdim"
proof -
  have step: "x * m + e < y * m" if "x < y" "0 \<le> e" "e < m" for x y m e :: int
  proof -
    have "x * m + e < x * m + m" using that by simp
    also have "\<dots> = (x + 1) * m" by (simp add: algebra_simps)
    also have "\<dots> \<le> y * m" using that by (intro mult_right_mono) auto
    finally show ?thesis .
  qed
  have "b * 2 + kv < nb * 2" using assms by auto
  then have "(b * 2 + kv) * n + h < nb * 2 * n" using assms by (intro step) auto
  then have "((b * 2 + kv) * n + h) * 16 + s < nb * 2 * n * 16" using assms by (intro step) auto
  then show "PoolRowBase b kv h s n hdim + d < nb * 2 * n * 16 * hdim"
    using assms by (simp add: PoolRowBase_def Let_def kKvBlockSize_def step)
  show "0 \<le> PoolRowBase b kv h s n hdim + d" using assms by (auto simp: PoolRowBase_def Let_def kKvBlockSize_def)
qed

text \<open>The words of a token are the words of its rows: plane, head, word of the head.\<close>

lemma word_coords_at:
  assumes "kv \<in> {0, 1}" "0 \<le> h" "h < n" "0 \<le> dw" "dw < wph"
  shows "word_coords wph (n * wph) (kv * (n * wph) + (h * wph + dw)) = (kv, h * wph + dw, h, dw)"
    and "0 \<le> kv * (n * wph) + (h * wph + dw)" and "kv * (n * wph) + (h * wph + dw) < 2 * (n * wph)"
proof -
  have "h * wph + dw < (h + 1) * wph" using assms by (simp add: algebra_simps)
  also have "\<dots> \<le> n * wph" using assms by (intro mult_right_mono) auto
  finally have r: "h * wph + dw < n * wph" .
  have d: "(h * wph + dw) div wph = h" using assms by (simp add: div_pos_pos_trivial)
  have p: "0 \<le> h * wph + dw" using assms by simp
  show "word_coords wph (n * wph) (kv * (n * wph) + (h * wph + dw)) = (kv, h * wph + dw, h, dw)"
    using assms(1) r d p by (auto simp: word_coords_def Let_def)
  show "0 \<le> kv * (n * wph) + (h * wph + dw)" "kv * (n * wph) + (h * wph + dw) < 2 * (n * wph)"
    using assms(1) r p by auto
qed

lemma word_coords_cases:
  fixes w n wph :: int
  assumes "0 \<le> w" "w < 2 * (n * wph)" "0 < wph"
  obtains kv h dw where "kv \<in> {0, 1}" "0 \<le> h" "h < n" "0 \<le> dw" "dw < wph"
    and "w = kv * (n * wph) + (h * wph + dw)"
proof -
  define kv where "kv = (if w < n * wph then 0 else 1 :: int)"
  define r where "r = w - kv * (n * wph)"
  have r: "0 \<le> r" "r < n * wph" using assms by (auto simp: r_def kv_def)
  have "r div wph < n"
  proof (rule ccontr)
    assume "\<not> r div wph < n"
    then have "n * wph \<le> r div wph * wph" using assms(3) by (intro mult_right_mono) auto
    also have "\<dots> \<le> r" using assms(3) by (metis minus_mod_eq_div_mult pos_mod_sign diff_le_eq le_add_same_cancel1)
    finally show False using r by simp
  qed
  moreover have "w = kv * (n * wph) + (r div wph * wph + r mod wph)" by (simp add: r_def)
  ultimately show ?thesis
    using that[of kv "r div wph" "r mod wph"] r(1) assms(3) pos_imp_zdiv_nonneg_iff[OF assms(3), of r]
      pos_mod_sign[OF assms(3), of r] pos_mod_bound[OF assms(3), of r] by (cases "w < n * wph") (simp_all add: kv_def)
qed

section \<open>Kernels that copy rows\<close>

text \<open>
  What the two kernels share: token \<open>t\<close>, plane \<open>kv\<close> and head \<open>h\<close> have a source row \<open>S\<close> and a
  destination row \<open>D\<close>, which the threads copy word by word.
\<close>

definition copies_rows :: "int \<Rightarrow> int \<Rightarrow> int \<Rightarrow> int list \<Rightarrow> (int \<Rightarrow> int \<Rightarrow> int \<Rightarrow> int) \<Rightarrow> (int \<Rightarrow> int \<Rightarrow> int \<Rightarrow> int) \<Rightarrow> 'v step list \<Rightarrow> bool" where
  "copies_rows hpw n hdim ts S D ss \<longleftrightarrow> 0 < hpw \<and> hpw dvd hdim \<and> 0 < hdim \<and>
     (\<exists>xs st. ss = map st xs \<and> distinct xs \<and> set xs = set ts \<times> {0..<2 * (n * (hdim div hpw))} \<and>
        (\<forall>t kv h dw. kv \<in> {0, 1} \<and> 0 \<le> h \<and> h < n \<and> 0 \<le> dw \<and> dw < hdim div hpw \<longrightarrow>
           st (t, kv * (n * (hdim div hpw)) + (h * (hdim div hpw) + dw)) =
             copy_step hpw (S kv t h + dw * hpw) (D kv t h + dw * hpw)))"

definition element :: "int \<Rightarrow> int \<Rightarrow> int list \<Rightarrow> int \<Rightarrow> int \<Rightarrow> int \<Rightarrow> int \<Rightarrow> bool" where
  "element n hdim ts kv t h d \<longleftrightarrow> kv \<in> {0, 1} \<and> t \<in> set ts \<and> 0 \<le> h \<and> h < n \<and> 0 \<le> d \<and> d < hdim"

lemma step_writes_row:
  assumes "copies_rows hpw n hdim ts S D (map st xs)" and "set xs = set ts \<times> {0..<2 * (n * (hdim div hpw))}"
    and st: "\<forall>t kv h dw. kv \<in> {0, 1} \<and> 0 \<le> h \<and> h < n \<and> 0 \<le> dw \<and> dw < hdim div hpw \<longrightarrow>
           st (t, kv * (n * (hdim div hpw)) + (h * (hdim div hpw) + dw)) =
             copy_step hpw (S kv t h + dw * hpw) (D kv t h + dw * hpw)"
    and y: "y \<in> set xs" and a: "a \<in> set (step_writes (st y))"
  obtains kv t h dw j where "element n hdim ts kv t h (dw * hpw + j)" "0 \<le> dw" "dw < hdim div hpw" "0 \<le> j" "j < hpw"
    and "y = (t, kv * (n * (hdim div hpw)) + (h * (hdim div hpw) + dw))" "a = D kv t h + (dw * hpw + j)"
proof -
  have hpw: "0 < hpw" "hpw dvd hdim" "0 < hdim" using assms(1) by (auto simp: copies_rows_def)
  then have wph: "0 < hdim div hpw" by (simp add: pos_imp_zdiv_pos_iff zdvd_imp_le)
  obtain t w where tw: "y = (t, w)" "t \<in> set ts" "0 \<le> w" "w < 2 * (n * (hdim div hpw))"
    using y unfolding assms(2) by (cases y) auto
  obtain kv h dw where c: "kv \<in> {0, 1}" "0 \<le> h" "h < n" "0 \<le> dw" "dw < hdim div hpw"
    "w = kv * (n * (hdim div hpw)) + (h * (hdim div hpw) + dw)"
    by (rule word_coords_cases[OF tw(3,4) wph])
  have "step_writes (st y) = vector hpw (D kv t h + dw * hpw)" using st c tw(1) by simp
  with a have "a \<in> set (vector hpw (D kv t h + dw * hpw))" by (simp only:)
  then obtain j where j: "a = D kv t h + dw * hpw + j" "0 \<le> j" "j < hpw" by (rule in_vectorE)
  have "(dw + 1) * hpw \<le> hdim div hpw * hpw" using c(5) hpw(1) by (intro mult_right_mono) auto
  then have "dw * hpw + j < hdim" using j hpw(2) by (simp add: algebra_simps)
  moreover have "0 \<le> dw * hpw" using c(4) hpw(1) by simp
  ultimately have e: "element n hdim ts kv t h (dw * hpw + j)"
    using c(1,2,3) tw(2) j(2) unfolding element_def by simp
  show ?thesis by (rule that[OF e c(4,5) j(2,3)]) (use tw(1) c(6) j(1) in simp_all)
qed

lemma row_copied:
  assumes c: "copies_rows hpw n hdim ts S D ss" and sched: "schedule (length ss) es"
    and e: "element n hdim ts kv t h d"
    and dst: "\<And>kv' t' h' d' d0. element n hdim ts kv' t' h' d' \<Longrightarrow> 0 \<le> d0 \<Longrightarrow> d0 < hdim \<Longrightarrow>
       D kv' t' h' + d' = D kv t h + d0 \<Longrightarrow> kv' = kv \<and> t' = t \<and> h' = h \<and> d' = d0"
    and src: "\<And>kv' t' h' d' d0. element n hdim ts kv' t' h' d' \<Longrightarrow> 0 \<le> d0 \<Longrightarrow> d0 < hdim \<Longrightarrow>
       D kv' t' h' + d' \<noteq> S kv t h + d0"
  shows "run_events ss es m (D kv t h + d) = m (S kv t h + d)"
proof -
  obtain xs st where ss: "ss = map st xs" and dx: "distinct xs" and xs: "set xs = set ts \<times> {0..<2 * (n * (hdim div hpw))}"
    and st: "\<forall>t kv h dw. kv \<in> {0, 1} \<and> 0 \<le> h \<and> h < n \<and> 0 \<le> dw \<and> dw < hdim div hpw \<longrightarrow>
           st (t, kv * (n * (hdim div hpw)) + (h * (hdim div hpw) + dw)) =
             copy_step hpw (S kv t h + dw * hpw) (D kv t h + dw * hpw)"
    using c unfolding copies_rows_def by blast
  have hpw: "0 < hpw" "hpw dvd hdim" "0 < hdim" using c by (auto simp: copies_rows_def)
  define dw where "dw = d div hpw"
  define j where "j = d mod hpw"
  have d: "d = dw * hpw + j" "0 \<le> j" "j < hpw" "0 \<le> dw" using e hpw(1) by (auto simp: dw_def j_def element_def pos_imp_zdiv_nonneg_iff)
  have "dw < hdim div hpw"
  proof -
    obtain q where q: "hdim = hpw * q" using hpw(2) by blast
    have "dw * hpw + j < hpw * q" using d(1) e q by (simp add: element_def)
    then have "dw * hpw < q * hpw" using d(2) by (simp add: mult.commute)
    then show ?thesis using q hpw(1) by simp
  qed
  note dw = d(4) this
  let ?x = "(t, kv * (n * (hdim div hpw)) + (h * (hdim div hpw) + dw))"
  have range: "kv \<in> {0, 1}" "t \<in> set ts" "0 \<le> h" "h < n" using e by (auto simp: element_def)
  have x: "?x \<in> set xs"
    using word_coords_at(2,3)[OF range(1,3,4) dw] range(2) xs by auto
  have sx: "st ?x = copy_step hpw (S kv t h + dw * hpw) (D kv t h + dw * hpw)" using st range dw by blast
  have dwp: "0 \<le> dw * hpw" using dw(1) hpw(1) by simp
  have fit: "dw * hpw + i < hdim" if "i < hpw" for i
  proof -
    have "(dw + 1) * hpw \<le> hdim div hpw * hpw" using dw(2) hpw(1) by (intro mult_right_mono) auto
    then show ?thesis using that hpw(2) by (simp add: algebra_simps)
  qed
  have "map (run_events (map st xs) es m) (step_writes (st ?x)) = step_compute (st ?x) (map m (step_reads (st ?x)))"
  proof (rule indexed_step[OF _ dx x])
    show "schedule (length xs) es" using sched ss by simp
    show "step_ok (st ?x)" by (simp add: sx)
    fix y
    assume y: "y \<in> set xs" "y \<noteq> ?x"
    have "a \<notin> set (step_reads (st ?x)) \<union> set (step_writes (st ?x))" if a: "a \<in> set (step_writes (st y))" for a
    proof (rule step_writes_row[OF c[unfolded ss] xs st y(1) a])
      fix kv' t' h' dw' j'
      assume el: "element n hdim ts kv' t' h' (dw' * hpw + j')" and b: "0 \<le> dw'" "dw' < hdim div hpw" "0 \<le> j'" "j' < hpw"
        and yy: "y = (t', kv' * (n * (hdim div hpw)) + (h' * (hdim div hpw) + dw'))" and aa: "a = D kv' t' h' + (dw' * hpw + j')"
      show ?thesis
      proof
        assume "a \<in> set (step_reads (st ?x)) \<union> set (step_writes (st ?x))"
        then consider (r) "a \<in> set (vector hpw (S kv t h + dw * hpw))" | (w) "a \<in> set (vector hpw (D kv t h + dw * hpw))"
          by (auto simp: sx)
        then show False
        proof cases
          case r
          then obtain i where i: "a = S kv t h + dw * hpw + i" "0 \<le> i" "i < hpw" by (rule in_vectorE)
          have "D kv' t' h' + (dw' * hpw + j') \<noteq> S kv t h + (dw * hpw + i)"
            by (rule src[OF el]) (use i fit[of i] dwp in simp_all)
          then show False using aa i(1) by simp
        next
          case w
          then obtain i where i: "a = D kv t h + dw * hpw + i" "0 \<le> i" "i < hpw" by (rule in_vectorE)
          have "kv' = kv \<and> t' = t \<and> h' = h \<and> dw' * hpw + j' = dw * hpw + i"
            by (rule dst[OF el]) (use i fit[of i] dwp aa in simp_all)
          moreover from this have "dw' = dw" using digits_unique[of dw' hpw j' dw i] b i by simp
          ultimately show False using y(2) yy by simp
        qed
      qed
    qed
    then show "set (step_writes (st y)) \<inter> (set (step_reads (st ?x)) \<union> set (step_writes (st ?x))) = {}" by blast
  qed
  then have "map (run_events ss es m) (vector hpw (D kv t h + dw * hpw)) = map m (vector hpw (S kv t h + dw * hpw))"
    by (simp add: sx ss)
  from copied[OF this d(2,3)] show ?thesis by (simp add: d(1) add.assoc)
qed

lemma row_untouched:
  assumes c: "copies_rows hpw n hdim ts S D ss" and sched: "schedule (length ss) es"
    and a: "\<And>kv t h d. element n hdim ts kv t h d \<Longrightarrow> D kv t h + d \<noteq> a"
  shows "run_events ss es m a = m a"
proof -
  obtain xs st where ss: "ss = map st xs" and xs: "set xs = set ts \<times> {0..<2 * (n * (hdim div hpw))}"
    and st: "\<forall>t kv h dw. kv \<in> {0, 1} \<and> 0 \<le> h \<and> h < n \<and> 0 \<le> dw \<and> dw < hdim div hpw \<longrightarrow>
           st (t, kv * (n * (hdim div hpw)) + (h * (hdim div hpw) + dw)) =
             copy_step hpw (S kv t h + dw * hpw) (D kv t h + dw * hpw)"
    using c unfolding copies_rows_def by blast
  have "a \<notin> set (step_writes (st y))" if "y \<in> set xs" for y
  proof
    assume "a \<in> set (step_writes (st y))"
    then show False by (rule step_writes_row[OF c[unfolded ss] xs st that]) (use a in blast)
  qed
  then show ?thesis unfolding ss by (intro indexed_untouched) (use sched ss in auto)
qed

section \<open>The two kernels\<close>

definition scatter_src :: "KvScatterArgs \<Rightarrow> int \<Rightarrow> int \<Rightarrow> int \<Rightarrow> int" where
  "scatter_src a kv t h =
     (if kv = 0 then sc_k a + t * sc_k_row_stride a else sc_v a + t * sc_v_row_stride a) + h * sc_head_dim a"

definition pool_row :: "int \<Rightarrow> int \<Rightarrow> int \<Rightarrow> int \<Rightarrow> int \<Rightarrow> int \<Rightarrow> int \<Rightarrow> int" where
  "pool_row pool n_kv hdim block kv pslot h = pool + PoolRowBase block kv h pslot n_kv hdim"

definition scatter_dst :: "KvScatterArgs \<Rightarrow> int \<Rightarrow> int \<Rightarrow> int \<Rightarrow> int" where
  "scatter_dst a kv t h =
     pool_row (sc_pool a) (sc_num_kv_heads a) (sc_head_dim a) (scatter_block a t) kv (sc_positions a t mod 16) h"

definition gather_src :: "KvGatherArgs \<Rightarrow> int \<Rightarrow> int \<Rightarrow> int \<Rightarrow> int" where
  "gather_src a kv t h =
     pool_row (ga_pool a) (ga_num_kv_heads a) (ga_head_dim a) (ga_table_row a (t div 16)) kv (t mod 16) h"

definition gather_dst :: "KvGatherArgs \<Rightarrow> int \<Rightarrow> int \<Rightarrow> int \<Rightarrow> int" where
  "gather_dst a kv t h =
     (if kv = 0 then ga_khat a + h * ga_khat_head_stride a + t * ga_khat_row_stride a
      else ga_vhat a + h * ga_vhat_head_stride a + t * ga_vhat_row_stride a)"

lemma row_base_words:
  "hpw dvd hdim \<Longrightarrow> (PoolRowBase b kv h s n hdim div hpw + dw) * hpw = PoolRowBase b kv h s n hdim + dw * hpw"
  by (simp add: PoolRowBase_def Let_def algebra_simps)

lemma head_words: "hpw dvd hdim \<Longrightarrow> (h * (hdim div hpw) + dw) * hpw = h * hdim + dw * hpw" for hpw :: int
  by (simp add: algebra_simps)

lemma set_words: "set (map int (block_indices kv_kBlockThreads (nat b))) = {0..<b}"
proof -
  have "set (block_indices kv_kBlockThreads (nat b)) = {0..<nat b}" by (rule set_block_indices) (simp add: kv_kBlockThreads_def)
  then have "set (map int (block_indices kv_kBlockThreads (nat b))) = int ` {0..<nat b}" by simp
  also have "\<dots> = {0..<b}" by (cases "0 \<le> b") (simp_all add: image_int_atLeastLessThan)
  finally show ?thesis .
qed

lemma scatter_copies_rows:
  assumes "0 < hpw" "hpw dvd sc_head_dim a" "0 < sc_head_dim a"
  shows "copies_rows hpw (sc_num_kv_heads a) (sc_head_dim a) [0..sc_num_tokens a - 1] (scatter_src a) (scatter_dst a)
    (KvScatterKernel hpw a)"
  unfolding copies_rows_def KvScatterKernel_def
proof (intro conjI assms exI[of _ "scatter_indices hpw a"] exI[of _ "scatter_word hpw a"] refl allI impI)
  show "distinct (scatter_indices hpw a)"
    unfolding scatter_indices_def Let_def by (intro distinct_grid) (simp_all add: distinct_map distinct_block_indices)
  show "set (scatter_indices hpw a) = set [0..sc_num_tokens a - 1] \<times> {0..<2 * (sc_num_kv_heads a * (sc_head_dim a div hpw))}"
    by (simp only: scatter_indices_def Let_def set_grid set_words)
  fix t kv h dw :: int
  assume r: "kv \<in> {0, 1} \<and> 0 \<le> h \<and> h < sc_num_kv_heads a \<and> 0 \<le> dw \<and> dw < sc_head_dim a div hpw"
  then show "scatter_word hpw a (t, kv * (sc_num_kv_heads a * (sc_head_dim a div hpw)) + (h * (sc_head_dim a div hpw) + dw)) =
      copy_step hpw (scatter_src a kv t h + dw * hpw) (scatter_dst a kv t h + dw * hpw)"
    using word_coords_at(1)[of kv h "sc_num_kv_heads a" dw "sc_head_dim a div hpw"] assms(2)
    by (simp add: scatter_word_def Let_def scatter_src_def scatter_dst_def pool_row_def row_base_words head_words
        scatter_slot_def slot_arith(2) add.assoc)
qed

lemma gather_copies_rows:
  assumes "0 < hpw" "hpw dvd ga_head_dim a" "0 < ga_head_dim a"
  shows "copies_rows hpw (ga_num_kv_heads a) (ga_head_dim a) [0..ga_ctx_len a - 1] (gather_src a) (gather_dst a)
    (KvGatherKernel hpw a)"
  unfolding copies_rows_def KvGatherKernel_def
proof (intro conjI assms exI[of _ "gather_indices hpw a"] exI[of _ "gather_word hpw a"] refl allI impI)
  show "distinct (gather_indices hpw a)"
    unfolding gather_indices_def Let_def by (intro distinct_grid) (simp_all add: distinct_map distinct_block_indices)
  show "set (gather_indices hpw a) = set [0..ga_ctx_len a - 1] \<times> {0..<2 * (ga_num_kv_heads a * (ga_head_dim a div hpw))}"
    by (simp only: gather_indices_def Let_def set_grid set_words)
  fix t kv h dw :: int
  assume r: "kv \<in> {0, 1} \<and> 0 \<le> h \<and> h < ga_num_kv_heads a \<and> 0 \<le> dw \<and> dw < ga_head_dim a div hpw"
  then show "gather_word hpw a (t, kv * (ga_num_kv_heads a * (ga_head_dim a div hpw)) + (h * (ga_head_dim a div hpw) + dw)) =
      copy_step hpw (gather_src a kv t h + dw * hpw) (gather_dst a kv t h + dw * hpw)"
    using word_coords_at(1)[of kv h "ga_num_kv_heads a" dw "ga_head_dim a div hpw"] assms(2)
    by (simp add: gather_word_def Let_def gather_src_def gather_dst_def pool_row_def row_base_words
        slot_arith add.assoc)
qed

text \<open>Both paths of a launcher copy the same rows; a launch with nothing to do has no steps.\<close>

lemma LaunchKvScatter_rows:
  assumes "0 < sc_num_kv_heads a" "0 < sc_head_dim a" "0 < sc_num_tokens a"
  shows "\<exists>hpw. copies_rows hpw (sc_num_kv_heads a) (sc_head_dim a) [0..sc_num_tokens a - 1] (scatter_src a) (scatter_dst a)
    (LaunchKvScatter a)"
proof -
  have v: "copies_rows kVecHalves (sc_num_kv_heads a) (sc_head_dim a) [0..sc_num_tokens a - 1] (scatter_src a) (scatter_dst a)
    (KvScatterKernel kVecHalves a)" if "sc_head_dim a mod kVecHalves = 0"
    by (rule scatter_copies_rows) (use that assms in \<open>auto simp: kVecHalves_def\<close>)
  have s: "copies_rows 1 (sc_num_kv_heads a) (sc_head_dim a) [0..sc_num_tokens a - 1] (scatter_src a) (scatter_dst a)
    (KvScatterKernel 1 a)" by (rule scatter_copies_rows) (use assms in auto)
  show ?thesis using v s assms unfolding LaunchKvScatter_def by (auto split: if_splits)
qed

lemma LaunchKvGather_rows:
  assumes "0 < ga_num_kv_heads a" "0 < ga_head_dim a" "0 < ga_ctx_len a"
  shows "\<exists>hpw. copies_rows hpw (ga_num_kv_heads a) (ga_head_dim a) [0..ga_ctx_len a - 1] (gather_src a) (gather_dst a)
    (LaunchKvGather a)"
proof -
  have v: "copies_rows kVecHalves (ga_num_kv_heads a) (ga_head_dim a) [0..ga_ctx_len a - 1] (gather_src a) (gather_dst a)
    (KvGatherKernel kVecHalves a)" if "ga_head_dim a mod kVecHalves = 0"
    by (rule gather_copies_rows) (use that assms in \<open>auto simp: kVecHalves_def\<close>)
  have s: "copies_rows 1 (ga_num_kv_heads a) (ga_head_dim a) [0..ga_ctx_len a - 1] (gather_src a) (gather_dst a)
    (KvGatherKernel 1 a)" by (rule gather_copies_rows) (use assms in auto)
  show ?thesis using v s assms unfolding LaunchKvGather_def by (auto split: if_splits)
qed

section \<open>Scatter, then gather\<close>

text \<open>
  The contract of the two launches: one pool slice of \<open>nb\<close> blocks that overlaps neither the source
  rows nor the staging planes, block tables that point into it, and staging planes that do not
  overlap each other and whose strides keep rows and heads apart.
\<close>

definition pool_slice :: "KvScatterArgs \<Rightarrow> int \<Rightarrow> int set" where
  "pool_slice a nb = {sc_pool a..<sc_pool a + nb * 2 * sc_num_kv_heads a * 16 * sc_head_dim a}"

definition scatter_ok :: "KvScatterArgs \<Rightarrow> int \<Rightarrow> bool" where
  "scatter_ok a nb \<longleftrightarrow> 0 < sc_num_kv_heads a \<and> 0 < sc_head_dim a \<and>
     (\<forall>t\<in>{0..<sc_num_tokens a}. 0 \<le> scatter_block a t \<and> scatter_block a t < nb \<and>
        {sc_k a + t * sc_k_row_stride a..<sc_k a + t * sc_k_row_stride a + sc_num_kv_heads a * sc_head_dim a} \<inter> pool_slice a nb = {} \<and>
        {sc_v a + t * sc_v_row_stride a..<sc_v a + t * sc_v_row_stride a + sc_num_kv_heads a * sc_head_dim a} \<inter> pool_slice a nb = {})"

definition gather_ok :: "KvScatterArgs \<Rightarrow> KvGatherArgs \<Rightarrow> int \<Rightarrow> bool" where
  "gather_ok a g nb \<longleftrightarrow>
     ga_pool g = sc_pool a \<and> ga_num_kv_heads g = sc_num_kv_heads a \<and> ga_head_dim g = sc_head_dim a \<and>
     (\<forall>t\<in>{0..<ga_ctx_len g}. 0 \<le> ga_table_row g (t div 16) \<and> ga_table_row g (t div 16) < nb) \<and>
     ga_head_dim g \<le> ga_khat_row_stride g \<and> ga_ctx_len g * ga_khat_row_stride g \<le> ga_khat_head_stride g \<and>
     ga_head_dim g \<le> ga_vhat_row_stride g \<and> ga_ctx_len g * ga_vhat_row_stride g \<le> ga_vhat_head_stride g \<and>
     {ga_khat g..<ga_khat g + ga_num_kv_heads g * ga_khat_head_stride g} \<inter> pool_slice a nb = {} \<and>
     {ga_vhat g..<ga_vhat g + ga_num_kv_heads g * ga_vhat_head_stride g} \<inter> pool_slice a nb = {} \<and>
     {ga_khat g..<ga_khat g + ga_num_kv_heads g * ga_khat_head_stride g} \<inter>
       {ga_vhat g..<ga_vhat g + ga_num_kv_heads g * ga_vhat_head_stride g} = {}"

lemma below_product: "x * n + d < m * n" if "x < m" "d < n" "0 \<le> n" for x n d m :: int
proof -
  have "(x + 1) * n \<le> m * n" using that by (intro mult_right_mono) auto
  then show ?thesis using that by (simp add: algebra_simps)
qed

lemma in_pool:
  assumes "0 \<le> b" "b < nb" "kv \<in> {0, 1}" "0 \<le> h" "h < sc_num_kv_heads a" "0 \<le> d" "d < sc_head_dim a"
  shows "pool_row (sc_pool a) (sc_num_kv_heads a) (sc_head_dim a) b kv (s mod 16) h + d \<in> pool_slice a nb"
  using PoolRowBase_range[of b nb kv h "sc_num_kv_heads a" "s mod 16" d "sc_head_dim a"] assms
  by (simp add: pool_slice_def pool_row_def)

lemma scatter_dst_in_pool:
  assumes "scatter_ok a nb" and "element (sc_num_kv_heads a) (sc_head_dim a) [0..sc_num_tokens a - 1] kv t h d"
  shows "scatter_dst a kv t h + d \<in> pool_slice a nb"
  unfolding scatter_dst_def by (rule in_pool) (use assms in \<open>auto simp: scatter_ok_def element_def\<close>)

lemma scatter_src_outside:
  assumes "scatter_ok a nb" and "t \<in> {0..<sc_num_tokens a}" "0 \<le> h" "h < sc_num_kv_heads a" "0 \<le> d" "d < sc_head_dim a"
  shows "scatter_src a kv t h + d \<notin> pool_slice a nb"
proof -
  have "0 \<le> h * sc_head_dim a + d" "h * sc_head_dim a + d < sc_num_kv_heads a * sc_head_dim a"
    using assms below_product[of h "sc_num_kv_heads a" d "sc_head_dim a"] by auto
  moreover have "{sc_k a + t * sc_k_row_stride a..<sc_k a + t * sc_k_row_stride a + sc_num_kv_heads a * sc_head_dim a} \<inter> pool_slice a nb = {}"
    "{sc_v a + t * sc_v_row_stride a..<sc_v a + t * sc_v_row_stride a + sc_num_kv_heads a * sc_head_dim a} \<inter> pool_slice a nb = {}"
    using assms(1,2) by (auto simp: scatter_ok_def)
  ultimately show ?thesis unfolding scatter_src_def by (simp add: disjoint_iff add.assoc)
qed

lemma scatter_effect:
  assumes ok: "scatter_ok a nb" and sched: "schedule (length (LaunchKvScatter a :: 'v step list)) es"
    and t: "t \<in> {0..<sc_num_tokens a}" and kv: "kv \<in> {0, 1}" and h: "0 \<le> h" "h < sc_num_kv_heads a" and d: "0 \<le> d" "d < sc_head_dim a"
    and alone: "\<And>t'. t' \<in> {0..<sc_num_tokens a} \<Longrightarrow> t' \<noteq> t \<Longrightarrow>
      scatter_block a t' \<noteq> scatter_block a t \<or> sc_positions a t' mod 16 \<noteq> sc_positions a t mod 16"
  shows "run_events (LaunchKvScatter a :: 'v step list) es m (scatter_dst a kv t h + d) = m (scatter_src a kv t h + d)"
proof -
  have pos: "0 < sc_num_kv_heads a" "0 < sc_head_dim a" "0 < sc_num_tokens a" using ok t by (auto simp: scatter_ok_def)
  obtain hpw where c: "copies_rows hpw (sc_num_kv_heads a) (sc_head_dim a) [0..sc_num_tokens a - 1] (scatter_src a) (scatter_dst a)
    (LaunchKvScatter a :: 'v step list)" using LaunchKvScatter_rows[OF pos] by blast
  show ?thesis
  proof (rule row_copied[OF c sched])
    show "element (sc_num_kv_heads a) (sc_head_dim a) [0..sc_num_tokens a - 1] kv t h d"
      using t kv h d by (simp add: element_def)
    fix kv' t' h' d' d0
    assume e: "element (sc_num_kv_heads a) (sc_head_dim a) [0..sc_num_tokens a - 1] kv' t' h' d'" and d0: "0 \<le> d0" "d0 < sc_head_dim a"
    show "scatter_dst a kv' t' h' + d' \<noteq> scatter_src a kv t h + d0"
      using scatter_dst_in_pool[OF ok e] scatter_src_outside[OF ok t h d0, of kv] by metis
    assume eq: "scatter_dst a kv' t' h' + d' = scatter_dst a kv t h + d0"
    have "scatter_block a t' = scatter_block a t \<and> kv' = kv \<and> h' = h \<and> sc_positions a t' mod 16 = sc_positions a t mod 16 \<and> d' = d0"
      by (rule PoolRowBase_inj[where n = "sc_num_kv_heads a" and hdim = "sc_head_dim a"])
        (use eq e d0 kv h in \<open>auto simp: scatter_dst_def pool_row_def element_def\<close>)
    then show "kv' = kv \<and> t' = t \<and> h' = h \<and> d' = d0" using alone[of t'] e by (auto simp: element_def)
  qed
qed

lemma scatter_keeps:
  assumes ok: "scatter_ok a nb" and sched: "schedule (length (LaunchKvScatter a :: 'v step list)) es"
    and kv: "kv \<in> {0, 1}" and h: "0 \<le> h" "h < sc_num_kv_heads a" and d: "0 \<le> d" "d < sc_head_dim a"
    and alone: "\<And>t'. t' \<in> {0..<sc_num_tokens a} \<Longrightarrow> scatter_block a t' \<noteq> b \<or> sc_positions a t' mod 16 \<noteq> p mod 16"
  shows "run_events (LaunchKvScatter a :: 'v step list) es m
      (pool_row (sc_pool a) (sc_num_kv_heads a) (sc_head_dim a) b kv (p mod 16) h + d) =
    m (pool_row (sc_pool a) (sc_num_kv_heads a) (sc_head_dim a) b kv (p mod 16) h + d)"
proof (cases "0 < sc_num_tokens a")
  case False
  then show ?thesis using sched by (simp add: LaunchKvScatter_def run_events_def schedule_def)
next
  case True
  have pos: "0 < sc_num_kv_heads a" "0 < sc_head_dim a" "0 < sc_num_tokens a" using ok True by (auto simp: scatter_ok_def)
  obtain hpw where c: "copies_rows hpw (sc_num_kv_heads a) (sc_head_dim a) [0..sc_num_tokens a - 1] (scatter_src a) (scatter_dst a)
    (LaunchKvScatter a :: 'v step list)" using LaunchKvScatter_rows[OF pos] by blast
  show ?thesis
  proof (rule row_untouched[OF c sched])
    fix kv' t' h' d'
    assume e: "element (sc_num_kv_heads a) (sc_head_dim a) [0..sc_num_tokens a - 1] kv' t' h' d'"
    show "scatter_dst a kv' t' h' + d' \<noteq> pool_row (sc_pool a) (sc_num_kv_heads a) (sc_head_dim a) b kv (p mod 16) h + d"
    proof
      assume eq: "scatter_dst a kv' t' h' + d' = pool_row (sc_pool a) (sc_num_kv_heads a) (sc_head_dim a) b kv (p mod 16) h + d"
      have "scatter_block a t' = b \<and> kv' = kv \<and> h' = h \<and> sc_positions a t' mod 16 = p mod 16 \<and> d' = d"
        by (rule PoolRowBase_inj[where n = "sc_num_kv_heads a" and hdim = "sc_head_dim a"])
          (use eq e d kv h in \<open>auto simp: scatter_dst_def pool_row_def element_def\<close>)
      then show False using alone[of t'] e by (auto simp: element_def)
    qed
  qed
qed

lemma gather_dst_plane:
  assumes "gather_ok a g nb" and "element (ga_num_kv_heads g) (ga_head_dim g) [0..ga_ctx_len g - 1] kv t h d"
  shows "kv = 0 \<Longrightarrow> gather_dst g kv t h + d \<in> {ga_khat g..<ga_khat g + ga_num_kv_heads g * ga_khat_head_stride g}"
    and "kv \<noteq> 0 \<Longrightarrow> gather_dst g kv t h + d \<in> {ga_vhat g..<ga_vhat g + ga_num_kv_heads g * ga_vhat_head_stride g}"
proof -
  have e: "0 \<le> h" "h < ga_num_kv_heads g" "0 \<le> t" "t < ga_ctx_len g" "0 \<le> d" "d < ga_head_dim g"
    using assms(2) by (auto simp: element_def)
  have row: "0 \<le> h * hs + (t * rs + d)" "h * hs + (t * rs + d) < ga_num_kv_heads g * hs"
    if "ga_head_dim g \<le> rs" "ga_ctx_len g * rs \<le> hs" for hs rs
  proof -
    have rs: "0 \<le> rs" using e that(1) by simp
    then have hs: "0 \<le> hs" using e(3,4) that(2) mult_nonneg_nonneg[of "ga_ctx_len g" rs] by linarith
    have "t * rs + d < ga_ctx_len g * rs" using e that(1) by (intro below_product) auto
    then show "h * hs + (t * rs + d) < ga_num_kv_heads g * hs" using e that hs by (intro below_product) auto
    show "0 \<le> h * hs + (t * rs + d)" using e rs hs by (intro add_nonneg_nonneg mult_nonneg_nonneg)
  qed
  show "kv = 0 \<Longrightarrow> gather_dst g kv t h + d \<in> {ga_khat g..<ga_khat g + ga_num_kv_heads g * ga_khat_head_stride g}"
    using row[of "ga_khat_row_stride g" "ga_khat_head_stride g"] assms(1) by (simp add: gather_dst_def gather_ok_def add.assoc)
  show "kv \<noteq> 0 \<Longrightarrow> gather_dst g kv t h + d \<in> {ga_vhat g..<ga_vhat g + ga_num_kv_heads g * ga_vhat_head_stride g}"
    using row[of "ga_vhat_row_stride g" "ga_vhat_head_stride g"] assms(1) by (simp add: gather_dst_def gather_ok_def add.assoc)
qed

lemma strided_unique:
  fixes h hs t rs d :: int
  assumes "h * hs + t * rs + d = h' * hs + t' * rs + d'" and "hdim \<le> rs" "ctx * rs \<le> hs"
    and "0 \<le> t" "t < ctx" "0 \<le> d" "d < hdim" and "0 \<le> t'" "t' < ctx" "0 \<le> d'" "d' < hdim"
  shows "h = h' \<and> t = t' \<and> d = d'"
proof -
  have b: "0 \<le> x * rs + y" "x * rs + y < hs" if "0 \<le> x" "x < ctx" "0 \<le> y" "y < hdim" for x y
    using that assms(2,3) below_product[of x ctx y rs] by auto
  have 1: "h = h' \<and> t * rs + d = t' * rs + d'"
    by (rule digits_unique) (use assms b[of t d] b[of t' d'] in \<open>auto simp: add.assoc\<close>)
  then have "t = t' \<and> d = d'" using assms by (intro digits_unique[where n = rs]) auto
  then show ?thesis using 1 by simp
qed

lemma gather_effect:
  assumes ok: "scatter_ok a nb" "gather_ok a g nb" and sched: "schedule (length (LaunchKvGather g :: 'v step list)) es"
    and p: "p \<in> {0..<ga_ctx_len g}" and kv: "kv \<in> {0, 1}" and h: "0 \<le> h" "h < sc_num_kv_heads a" and d: "0 \<le> d" "d < sc_head_dim a"
  shows "run_events (LaunchKvGather g :: 'v step list) es m (gather_dst g kv p h + d) = m (gather_src g kv p h + d)"
proof -
  have same: "ga_pool g = sc_pool a" "ga_num_kv_heads g = sc_num_kv_heads a" "ga_head_dim g = sc_head_dim a"
    using ok(2) by (auto simp: gather_ok_def)
  have pos: "0 < ga_num_kv_heads g" "0 < ga_head_dim g" "0 < ga_ctx_len g" using ok p by (auto simp: scatter_ok_def gather_ok_def)
  obtain hpw where c: "copies_rows hpw (ga_num_kv_heads g) (ga_head_dim g) [0..ga_ctx_len g - 1] (gather_src g) (gather_dst g)
    (LaunchKvGather g :: 'v step list)" using LaunchKvGather_rows[OF pos] by blast
  have el: "element (ga_num_kv_heads g) (ga_head_dim g) [0..ga_ctx_len g - 1] kv p h d0" if "0 \<le> d0" "d0 < ga_head_dim g" for d0
    using p kv h same that by (simp add: element_def)
  show ?thesis
  proof (rule row_copied[OF c sched])
    show "element (ga_num_kv_heads g) (ga_head_dim g) [0..ga_ctx_len g - 1] kv p h d" using el d same by simp
    fix kv' t' h' d' d0
    assume e: "element (ga_num_kv_heads g) (ga_head_dim g) [0..ga_ctx_len g - 1] kv' t' h' d'" and d0: "0 \<le> d0" "d0 < ga_head_dim g"
    have "gather_src g kv p h + d0 \<in> pool_slice a nb"
      unfolding gather_src_def same by (rule in_pool) (use ok(2) p kv h d0 same in \<open>auto simp: gather_ok_def\<close>)
    then show "gather_dst g kv' t' h' + d' \<noteq> gather_src g kv p h + d0"
      using gather_dst_plane[OF ok(2) e] ok(2) by (cases "kv' = 0") (auto simp: gather_ok_def disjoint_iff)
    assume eq: "gather_dst g kv' t' h' + d' = gather_dst g kv p h + d0"
    have k: "kv' = kv"
      using gather_dst_plane[OF ok(2) e] gather_dst_plane[OF ok(2) el[OF d0]] ok(2) eq kv e
      unfolding gather_ok_def disjoint_iff element_def by (cases "kv' = 0"; cases "kv = 0") (metis insertE singletonD)+
    show "kv' = kv \<and> t' = p \<and> h' = h \<and> d' = d0"
    proof (cases "kv = 0")
      case True
      have "h' = h \<and> t' = p \<and> d' = d0"
        by (rule strided_unique[where hs = "ga_khat_head_stride g" and rs = "ga_khat_row_stride g" and ctx = "ga_ctx_len g" and hdim = "ga_head_dim g"])
          (use eq k True e p d0 ok(2) in \<open>auto simp: gather_dst_def gather_ok_def element_def\<close>)
      then show ?thesis using k by simp
    next
      case False
      have "h' = h \<and> t' = p \<and> d' = d0"
        by (rule strided_unique[where hs = "ga_vhat_head_stride g" and rs = "ga_vhat_row_stride g" and ctx = "ga_ctx_len g" and hdim = "ga_head_dim g"])
          (use eq k False e p d0 ok(2) in \<open>auto simp: gather_dst_def gather_ok_def element_def\<close>)
      then show ?thesis using k by simp
    qed
  qed
qed

text \<open>
  C28: The KV cache is a faithful store, on both paths of both kernels and for every order in which
  the GPU runs their threads. After a scatter and a gather of the same layer the staging planes hold,
  for every position of the context, bit for bit: the K and V row of the token that was scattered to
  that position, if its slot is its own among the tokens of the launch; and otherwise, if no token of
  the launch has the slot, what the pool held before, so the tokens of earlier chunks survive. Tokens
  that share a slot, the padded rows, race with each other and disturb nothing else.
\<close>

theorem kv_cache_roundtrip:
  assumes "scatter_ok a nb" and "gather_ok a g nb"
    and "schedule (length (LaunchKvScatter a :: 'v step list)) es1" and "schedule (length (LaunchKvGather g :: 'v step list)) es2"
    and "p \<in> {0..<ga_ctx_len g}" and "0 \<le> h" "h < sc_num_kv_heads a" and "0 \<le> d" "d < sc_head_dim a"
    and "m2 = run_events (LaunchKvGather g :: 'v step list) es2 (run_events (LaunchKvScatter a :: 'v step list) es1 m)"
    and "here = (\<lambda>t. t \<in> {0..<sc_num_tokens a} \<and> scatter_block a t = ga_table_row g (p div 16) \<and> sc_positions a t mod 16 = p mod 16)"
  shows "(\<forall>t. (\<forall>t'. here t' \<longleftrightarrow> t' = t) \<longrightarrow>
            m2 (ga_khat g + h * ga_khat_head_stride g + p * ga_khat_row_stride g + d) = m (sc_k a + t * sc_k_row_stride a + h * sc_head_dim a + d) \<and>
            m2 (ga_vhat g + h * ga_vhat_head_stride g + p * ga_vhat_row_stride g + d) = m (sc_v a + t * sc_v_row_stride a + h * sc_head_dim a + d)) \<and>
    ((\<forall>t. \<not> here t) \<longrightarrow>
       m2 (ga_khat g + h * ga_khat_head_stride g + p * ga_khat_row_stride g + d) =
         m (sc_pool a + PoolRowBase (ga_table_row g (p div 16)) 0 h (p mod 16) (sc_num_kv_heads a) (sc_head_dim a) + d) \<and>
       m2 (ga_vhat g + h * ga_vhat_head_stride g + p * ga_vhat_row_stride g + d) =
         m (sc_pool a + PoolRowBase (ga_table_row g (p div 16)) 1 h (p mod 16) (sc_num_kv_heads a) (sc_head_dim a) + d))"
proof -
  let ?m1 = "run_events (LaunchKvScatter a :: 'v step list) es1 m"
  have same: "ga_pool g = sc_pool a" "ga_num_kv_heads g = sc_num_kv_heads a" "ga_head_dim g = sc_head_dim a"
    using assms(2) by (auto simp: gather_ok_def)
  have g: "m2 (gather_dst g kv p h + d) = ?m1 (pool_row (sc_pool a) (sc_num_kv_heads a) (sc_head_dim a) (ga_table_row g (p div 16)) kv (p mod 16) h + d)"
    if "kv \<in> {0, 1}" for kv
    using gather_effect[OF assms(1,2,4,5) that assms(6-9)] by (simp add: assms(10) gather_src_def same)
  have new: "m2 (gather_dst g kv p h + d) = m (scatter_src a kv t h + d)" if kv: "kv \<in> {0, 1}" and t: "\<forall>t'. here t' \<longleftrightarrow> t' = t" for kv t
  proof -
    have ht: "here t" using t by simp
    then have "pool_row (sc_pool a) (sc_num_kv_heads a) (sc_head_dim a) (ga_table_row g (p div 16)) kv (p mod 16) h = scatter_dst a kv t h"
      by (simp add: assms(11) scatter_dst_def)
    moreover have "?m1 (scatter_dst a kv t h + d) = m (scatter_src a kv t h + d)"
    proof (rule scatter_effect[OF assms(1,3) _ kv assms(6-9)])
      show "t \<in> {0..<sc_num_tokens a}" using ht by (simp add: assms(11))
      fix t'
      assume t': "t' \<in> {0..<sc_num_tokens a}" "t' \<noteq> t"
      then have "\<not> here t'" using t by blast
      then show "scatter_block a t' \<noteq> scatter_block a t \<or> sc_positions a t' mod 16 \<noteq> sc_positions a t mod 16"
        using t' ht unfolding assms(11) by metis
    qed
    ultimately show ?thesis using g[OF kv] by simp
  qed
  have old: "m2 (gather_dst g kv p h + d) = m (pool_row (sc_pool a) (sc_num_kv_heads a) (sc_head_dim a) (ga_table_row g (p div 16)) kv (p mod 16) h + d)"
    if kv: "kv \<in> {0, 1}" and n: "\<forall>t. \<not> here t" for kv
    using g[OF kv] scatter_keeps[OF assms(1,3) kv assms(6-9), of "ga_table_row g (p div 16)" p m] n by (simp add: assms(11))
  show ?thesis
  proof (intro conjI allI impI)
    fix t
    assume t: "\<forall>t'. here t' \<longleftrightarrow> t' = t"
    show "m2 (ga_khat g + h * ga_khat_head_stride g + p * ga_khat_row_stride g + d) = m (sc_k a + t * sc_k_row_stride a + h * sc_head_dim a + d)"
      using new[OF _ t, of 0] by (simp add: gather_dst_def scatter_src_def)
    show "m2 (ga_vhat g + h * ga_vhat_head_stride g + p * ga_vhat_row_stride g + d) = m (sc_v a + t * sc_v_row_stride a + h * sc_head_dim a + d)"
      using new[OF _ t, of 1] by (simp add: gather_dst_def scatter_src_def)
  next
    assume n: "\<forall>t. \<not> here t"
    show "m2 (ga_khat g + h * ga_khat_head_stride g + p * ga_khat_row_stride g + d) =
         m (sc_pool a + PoolRowBase (ga_table_row g (p div 16)) 0 h (p mod 16) (sc_num_kv_heads a) (sc_head_dim a) + d)"
      using old[OF _ n, of 0] by (simp add: gather_dst_def pool_row_def)
    show "m2 (ga_vhat g + h * ga_vhat_head_stride g + p * ga_vhat_row_stride g + d) =
         m (sc_pool a + PoolRowBase (ga_table_row g (p div 16)) 1 h (p mod 16) (sc_num_kv_heads a) (sc_head_dim a) + d)"
      using old[OF _ n, of 1] by (simp add: gather_dst_def pool_row_def)
  qed
qed

text \<open>A chunk of two tokens at positions 16 and 17 of a sequence whose second block is block 3.\<close>

definition demo_scatter :: KvScatterArgs where
  "demo_scatter = \<lparr>sc_pool = 0, sc_k = 100000, sc_v = 100256, sc_k_row_stride = 2048, sc_v_row_stride = 2048,
     sc_block_tables = (\<lambda>i. if i = 0 then 5 else 3), sc_table_stride = 0, sc_positions = (\<lambda>t. 16 + t),
     sc_num_tokens = 2, sc_num_kv_heads = 2, sc_head_dim = 128\<rparr>"

definition demo_gather :: KvGatherArgs where
  "demo_gather = \<lparr>ga_khat = 200000, ga_vhat = 300000, ga_khat_head_stride = 4096, ga_khat_row_stride = 128,
     ga_vhat_head_stride = 4096, ga_vhat_row_stride = 128, ga_pool = 0, ga_table_row = (\<lambda>i. if i = 0 then 5 else 3),
     ga_ctx_len = 18, ga_num_kv_heads = 2, ga_head_dim = 128\<rparr>"

theorem kv_cache_roundtrip_witness:
  "(let m1 = run_events (LaunchKvScatter demo_scatter) (sequential (length (LaunchKvScatter demo_scatter :: int step list))) (\<lambda>a. a);
        m2 = run_events (LaunchKvGather demo_gather) (sequential (length (LaunchKvGather demo_gather :: int step list))) m1
    in m2 (200000 + 1 * 4096 + 17 * 128 + 5) = 100000 + 2048 + 128 + 5 \<and>
       m2 (200000 + 1 * 4096 + 7 * 128 + 5) = PoolRowBase 5 0 1 7 2 128 + 5)"
proof -
  have a: "scatter_ok demo_scatter 8"
    by (auto simp: scatter_ok_def demo_scatter_def scatter_block_def pool_slice_def slot_arith)
  have g: "gather_ok demo_scatter demo_gather 8" by (simp add: gather_ok_def demo_gather_def demo_scatter_def pool_slice_def)
  have f: "sc_pool demo_scatter = 0" "sc_k demo_scatter = 100000" "sc_k_row_stride demo_scatter = 2048" "sc_num_kv_heads demo_scatter = 2"
    "sc_head_dim demo_scatter = 128" "ga_khat demo_gather = 200000" "ga_khat_head_stride demo_gather = 4096"
    "ga_khat_row_stride demo_gather = 128" "ga_ctx_len demo_gather = 18" "ga_table_row demo_gather 0 = 5"
    by (simp_all add: demo_scatter_def demo_gather_def)
  note r = kv_cache_roundtrip[OF a g schedule_sequential schedule_sequential _ _ _ _ _ refl refl, where h = 1 and d = 5 and m = "\<lambda>a. a", unfolded f]
  have 1: "1 \<in> {0..<sc_num_tokens demo_scatter} \<and> scatter_block demo_scatter 1 = ga_table_row demo_gather (17 div 16) \<and>
      sc_positions demo_scatter 1 mod 16 = 17 mod 16"
    by (simp add: demo_scatter_def demo_gather_def scatter_block_def slot_arith)
  have 2: "t' \<in> {0..<sc_num_tokens demo_scatter} \<and> scatter_block demo_scatter t' = ga_table_row demo_gather (17 div 16) \<and>
      sc_positions demo_scatter t' mod 16 = 17 mod 16 \<longleftrightarrow> t' = 1" for t'
  proof
    assume "t' \<in> {0..<sc_num_tokens demo_scatter} \<and> scatter_block demo_scatter t' = ga_table_row demo_gather (17 div 16) \<and>
      sc_positions demo_scatter t' mod 16 = 17 mod 16"
    then have "t' = 0 \<or> t' = 1" "(16 + t') mod 16 = 1" by (auto simp: demo_scatter_def)
    then show "t' = 1" by auto
  qed (use 1 in simp)
  have 3: "\<not> (t' \<in> {0..<sc_num_tokens demo_scatter} \<and> scatter_block demo_scatter t' = ga_table_row demo_gather (7 div 16) \<and>
      sc_positions demo_scatter t' mod 16 = 7 mod 16)" for t'
  proof
    assume "t' \<in> {0..<sc_num_tokens demo_scatter} \<and> scatter_block demo_scatter t' = ga_table_row demo_gather (7 div 16) \<and>
      sc_positions demo_scatter t' mod 16 = 7 mod 16"
    then have "t' = 0 \<or> t' = 1" "(16 + t') mod 16 = 7" by (auto simp: demo_scatter_def)
    then show False by auto
  qed
  have "(17 :: int) \<in> {0..<18}" "(7 :: int) \<in> {0..<18}" "(0 :: int) \<le> 1" "(1 :: int) < 2" "(0 :: int) \<le> 5" "(5 :: int) < 128" by simp_all
  note r17 = r[OF this(1,3-6), THEN conjunct1, rule_format, of 1, OF 2[unfolded f], THEN conjunct1]
    and r7 = r[OF this(2,3-6), THEN conjunct2, rule_format, OF 3[unfolded f], THEN conjunct1]
  show ?thesis unfolding Let_def using r17 r7 f by simp
qed

end
