(* ===== verification/Row_Kernels.thy ===== *)
theory Row_Kernels
  imports Kernel_Launch
begin

text \<open>
  Kernels that compute every element of a set of rows from the elements at the same column of other
  rows: the embedding gather, the activation. A thread handles one word of a row, of one or more
  consecutive elements; the lemmas here give the effect of such a launch for any word size and any
  schedule, in place or not.
\<close>

definition lane_step :: "int \<Rightarrow> int list \<Rightarrow> int \<Rightarrow> ('v list \<Rightarrow> 'v) \<Rightarrow> 'v step" where
  "lane_step n srcs dst f = Step (concat (map (vector n) srcs)) (vector n dst)
     (\<lambda>vs. map (\<lambda>j. f (map (\<lambda>k. vs ! (k * nat n + j)) [0..<length srcs])) [0..<nat n])"

lemma lane_step_simps [simp]:
  "step_writes (lane_step n srcs dst f) = vector n dst" "step_ok (lane_step n srcs dst f)"
  "set (step_reads (lane_step n srcs dst f)) = (\<Union>s\<in>set srcs. {s..<s + n})"
  by (simp_all add: lane_step_def step_ok_def)

lemma nth_lanes:
  "k < length srcs \<Longrightarrow> j < nat n \<Longrightarrow> concat (map (vector n) srcs) ! (k * nat n + j) = srcs ! k + int j"
proof (induction srcs arbitrary: k)
  case (Cons s srcs)
  show ?case
  proof (cases k)
    case 0
    then show ?thesis using Cons.prems by (simp add: nth_append vector_def nth_upto)
  next
    case (Suc k')
    then show ?thesis using Cons.IH[of k'] Cons.prems by (simp add: nth_append)
  qed
qed simp

lemma lane_compute:
  "step_compute (lane_step n srcs dst f) (map m (step_reads (lane_step n srcs dst f))) =
     map (\<lambda>j. f (map (\<lambda>s. m (s + int j)) srcs)) [0..<nat n]"
proof -
  have "map (\<lambda>k. map m (concat (map (vector n) srcs)) ! (k * nat n + j)) [0..<length srcs] = map (\<lambda>s. m (s + int j)) srcs"
    if "j < nat n" for j
  proof (rule nth_equalityI)
    fix k
    assume "k < length (map (\<lambda>k. map m (concat (map (vector n) srcs)) ! (k * nat n + j)) [0..<length srcs])"
    then have k: "k < length srcs" by simp
    have len: "length (concat (map (vector n) srcs)) = length srcs * nat n" by (simp add: length_concat sum_list_triv comp_def)
    have "k * nat n + j < Suc k * nat n" using that by simp
    also have "\<dots> \<le> length srcs * nat n" using k by (intro mult_le_mono1) simp
    finally have "k * nat n + j < length (concat (map (vector n) srcs))" by (simp only: len)
    then show "map (\<lambda>k. map m (concat (map (vector n) srcs)) ! (k * nat n + j)) [0..<length srcs] ! k = map (\<lambda>s. m (s + int j)) srcs ! k"
      using k that nth_lanes[of k srcs j n] by simp
  qed simp
  then show ?thesis by (simp add: lane_step_def)
qed

text \<open>Row \<open>r\<close> of the destination begins at \<open>D r\<close> and is computed from the rows \<open>Ss r\<close>.\<close>

definition row_kernel ::
  "int \<Rightarrow> int \<Rightarrow> 'r list \<Rightarrow> ('r \<Rightarrow> int) \<Rightarrow> ('r \<Rightarrow> int list) \<Rightarrow> ('v list \<Rightarrow> 'v) \<Rightarrow> 'v step list \<Rightarrow> bool" where
  "row_kernel n width rows D Ss f ss \<longleftrightarrow> 0 < n \<and> n dvd width \<and>
     (\<exists>xs st. ss = map st xs \<and> distinct xs \<and> set xs = set rows \<times> {0..<width div n} \<and>
        (\<forall>r w. st (r, w) = lane_step n (map (\<lambda>s. s + w * n) (Ss r)) (D r + w * n) f))"

lemma word_in_row:
  fixes n :: int
  assumes "0 < n" "n dvd width" "0 \<le> w" "w < width div n" "0 \<le> j" "j < n"
  shows "0 \<le> w * n + j" "w * n + j < width"
proof -
  have "(w + 1) * n \<le> width div n * n" using assms by (intro mult_right_mono) auto
  then show "w * n + j < width" using assms by (simp add: algebra_simps)
qed (use assms in simp)

lemma row_computed:
  assumes k: "row_kernel n width rows D Ss f ss" and sched: "schedule (length ss) es"
    and r: "r \<in> set rows" and c: "0 \<le> c" "c < width"
    and dst: "\<And>r' c' c0. r' \<in> set rows \<Longrightarrow> 0 \<le> c' \<Longrightarrow> c' < width \<Longrightarrow> 0 \<le> c0 \<Longrightarrow> c0 < width \<Longrightarrow>
       D r' + c' = D r + c0 \<Longrightarrow> r' = r \<and> c' = c0"
    and src: "\<And>r' c' c0 s. r' \<in> set rows \<Longrightarrow> 0 \<le> c' \<Longrightarrow> c' < width \<Longrightarrow> 0 \<le> c0 \<Longrightarrow> c0 < width \<Longrightarrow> s \<in> set (Ss r) \<Longrightarrow>
       D r' + c' = s + c0 \<Longrightarrow> r' = r \<and> c' = c0"
  shows "run_events ss es m (D r + c) = f (map (\<lambda>s. m (s + c)) (Ss r))"
proof -
  have n: "0 < n" "n dvd width" using k by (auto simp: row_kernel_def)
  obtain xs st where ss: "ss = map st xs" and dx: "distinct xs" and xs: "set xs = set rows \<times> {0..<width div n}"
    and st: "\<And>r w. st (r, w) = lane_step n (map (\<lambda>s. s + w * n) (Ss r)) (D r + w * n) f"
    using k unfolding row_kernel_def by blast
  define w where "w = c div n"
  define j where "j = c mod n"
  have cw: "c = w * n + j" "0 \<le> j" "j < n" by (simp_all add: w_def j_def n)
  have w: "0 \<le> w" "w < width div n"
  proof -
    obtain q where q: "width = q * n" using n(2) by (metis dvdE mult.commute)
    have "w * n < q * n" using cw(1,2) c(2) unfolding q by linarith
    then show "w < width div n" using q n(1) by simp
    show "0 \<le> w" using c n(1) by (simp add: w_def pos_imp_zdiv_nonneg_iff)
  qed
  let ?x = "(r, w)"
  have "map (run_events (map st xs) es m) (step_writes (st ?x)) = step_compute (st ?x) (map m (step_reads (st ?x)))"
  proof (rule indexed_step[OF _ dx])
    show "schedule (length xs) es" using sched ss by simp
    show "?x \<in> set xs" using r w xs by simp
    show "step_ok (st ?x)" by (simp add: st)
    fix y
    assume y: "y \<in> set xs" "y \<noteq> ?x"
    obtain r' w' where y': "y = (r', w')" "r' \<in> set rows" "0 \<le> w'" "w' < width div n" using y(1) unfolding xs by auto
    have "a \<notin> set (step_reads (st ?x)) \<union> set (step_writes (st ?x))" if a: "a \<in> set (step_writes (st y))" for a
    proof
      from a have "a \<in> set (vector n (D r' + w' * n))" by (simp only: y'(1) st lane_step_simps)
      then obtain j' where j': "a = D r' + w' * n + j'" "0 \<le> j'" "j' < n" by (rule in_vectorE)
      note in' = word_in_row[OF n y'(3,4) j'(2,3)]
      assume "a \<in> set (step_reads (st ?x)) \<union> set (step_writes (st ?x))"
      then have "\<exists>b\<in>insert (D r) (set (Ss r)). a \<in> {b + w * n..<b + w * n + n}" by (auto simp: st)
      then obtain b where b: "b \<in> insert (D r) (set (Ss r))" "a \<in> {b + w * n..<b + w * n + n}" ..
      define i where "i = a - (b + w * n)"
      have i: "a = b + (w * n + i)" "0 \<le> i" "i < n" using b(2) by (auto simp: i_def)
      note inx = word_in_row[OF n w i(2,3)]
      have eq: "D r' + (w' * n + j') = b + (w * n + i)" using i(1) j'(1) by simp
      have "r' = r \<and> w' * n + j' = w * n + i"
        using b(1) dst[OF y'(2) in' inx] src[OF y'(2) in' inx] eq by auto
      moreover have "(w' * n + j') div n = w'" "(w * n + i) div n = w" using j' i n(1) by (simp_all add: div_pos_pos_trivial)
      ultimately show False using y(2) y'(1) by metis
    qed
    then show "set (step_writes (st y)) \<inter> (set (step_reads (st ?x)) \<union> set (step_writes (st ?x))) = {}" by blast
  qed
  then have "map (run_events ss es m) (vector n (D r + w * n)) =
      map (\<lambda>j. f (map (\<lambda>s. m (s + int j)) (map (\<lambda>s. s + w * n) (Ss r)))) [0..<nat n]"
    by (simp only: st lane_compute lane_step_simps ss)
  then have "map (run_events ss es m) (vector n (D r + w * n)) ! nat j =
      map (\<lambda>j. f (map (\<lambda>s. m (s + int j)) (map (\<lambda>s. s + w * n) (Ss r)))) [0..<nat n] ! nat j" by simp
  then show ?thesis using cw by (simp add: vector_def nth_upto comp_def add.assoc)
qed

lemma rows_untouched:
  assumes k: "row_kernel n width rows D Ss f ss" and sched: "schedule (length ss) es"
    and a: "\<And>r c. r \<in> set rows \<Longrightarrow> 0 \<le> c \<Longrightarrow> c < width \<Longrightarrow> D r + c \<noteq> a"
  shows "run_events ss es m a = m a"
proof -
  have n: "0 < n" "n dvd width" using k by (auto simp: row_kernel_def)
  obtain xs st where ss: "ss = map st xs" and xs: "set xs = set rows \<times> {0..<width div n}"
    and st: "\<And>r w. st (r, w) = lane_step n (map (\<lambda>s. s + w * n) (Ss r)) (D r + w * n) f"
    using k unfolding row_kernel_def by blast
  have "a \<notin> set (step_writes (st y))" if y: "y \<in> set xs" for y
  proof
    obtain r' w' where y': "y = (r', w')" "r' \<in> set rows" "0 \<le> w'" "w' < width div n" using y unfolding xs by auto
    assume "a \<in> set (step_writes (st y))"
    then have "a \<in> set (vector n (D r' + w' * n))" by (simp only: y'(1) st lane_step_simps)
    then obtain j' where j': "a = D r' + w' * n + j'" "0 \<le> j'" "j' < n" by (rule in_vectorE)
    then show False using assms(3)[OF y'(2) word_in_row[OF n y'(3,4) j'(2,3)]] by simp
  qed
  then show ?thesis unfolding ss by (intro indexed_untouched) (use sched ss in auto)
qed

end
