(* ===== verification/Device_Float.thy ===== *)
theory Device_Float
  imports "HOL-Library.Word"
begin

text \<open>
  The floating-point operations the device kernels use: the conversions between half and float, the
  IEEE operations on float and the functions of the CUDA math library. They are hardware and library
  code and a parameter of the model; a theorem names the laws of them that it needs.
\<close>

record 'f FloatOps =
  half2float :: "16 word \<Rightarrow> 'f"
  float2half :: "'f \<Rightarrow> 16 word"
  int2float :: "int \<Rightarrow> 'f"
  f_add :: "'f \<Rightarrow> 'f \<Rightarrow> 'f"
  f_sub :: "'f \<Rightarrow> 'f \<Rightarrow> 'f"
  f_mul :: "'f \<Rightarrow> 'f \<Rightarrow> 'f"
  f_div :: "'f \<Rightarrow> 'f \<Rightarrow> 'f"
  f_fma :: "'f \<Rightarrow> 'f \<Rightarrow> 'f \<Rightarrow> 'f"
  f_max :: "'f \<Rightarrow> 'f \<Rightarrow> 'f"
  f_neg :: "'f \<Rightarrow> 'f"
  f_exp :: "'f \<Rightarrow> 'f"
  f_rsqrt :: "'f \<Rightarrow> 'f"
  f_sincos :: "'f \<Rightarrow> 'f \<times> 'f"
  f_pow :: "'f \<Rightarrow> 'f \<Rightarrow> 'f"
  f_less :: "'f \<Rightarrow> 'f \<Rightarrow> bool"
  f_equal :: "'f \<Rightarrow> 'f \<Rightarrow> bool"
  f_zero :: 'f
  f_one :: 'f
  f_neg_inf :: 'f
  f_lowest :: 'f

text \<open>Operations on the integers, for evaluation.\<close>

definition int_ops :: "int FloatOps" where
  "int_ops = \<lparr>half2float = uint, float2half = word_of_int, int2float = (\<lambda>n. n), f_add = (+), f_sub = (-), f_mul = (*),
     f_div = (div), f_fma = (\<lambda>x y z. x * y + z), f_max = max, f_neg = uminus, f_exp = (\<lambda>x. x), f_rsqrt = (\<lambda>x. x),
     f_sincos = (\<lambda>x. (x, 1)), f_pow = (\<lambda>x y. x + y), f_less = (<), f_equal = (=), f_zero = 0, f_one = 1, f_neg_inf = -1000, f_lowest = -1000\<rparr>"

end
