(* ===== verification/Elementwise.thy ===== *)
theory Elementwise
  imports Row_Kernels Device_Float
begin

text \<open>
  The embedding gather of \<^verbatim>\<open>src/src/kernels/embed_gather.cu\<close> and the SwiGLU activation of
  \<^verbatim>\<open>src/src/kernels/silu_mul.cu\<close>: their vector and scalar kernels and the launchers that choose
  between them. Pointers are addresses of half elements; \<open>input_ids\<close> is a read-only array.
\<close>

definition IsHalf2Aligned :: "int \<Rightarrow> bool" where "IsHalf2Aligned p \<longleftrightarrow> (2 * p) mod 4 = 0"
definition IsVec8Aligned :: "int \<Rightarrow> bool" where "IsVec8Aligned p \<longleftrightarrow> (2 * p) mod 16 = 0"

section \<open>Embedding gather\<close>

record EmbedArgs =
  em_out :: int
  em_out_row_stride :: int
  em_embed :: int
  em_input_ids :: "int \<Rightarrow> int"
  em_num_tokens :: int
  em_hidden_size :: int

definition em_kBlockThreads :: nat where "em_kBlockThreads = 256"
definition kVec8BlockThreads :: nat where "kVec8BlockThreads = 192"

text \<open>One word of \<open>n\<close> halves: \<^verbatim>\<open>dst[i] = src[i]\<close>.\<close>

definition embed_word :: "int \<Rightarrow> EmbedArgs \<Rightarrow> int \<times> int \<Rightarrow> 'v step" where
  "embed_word n a ri =
     (case ri of (row, i) \<Rightarrow>
        let tok = em_input_ids a row;
            src = em_embed a + tok * em_hidden_size a;
            dst = em_out a + row * em_out_row_stride a
        in lane_step n [src + i * n] (dst + i * n) (\<lambda>vs. vs ! 0))"

definition embed_kernel :: "int \<Rightarrow> nat \<Rightarrow> int \<Rightarrow> EmbedArgs \<Rightarrow> 'v step list" where
  "embed_kernel n threads width a =
     map (embed_word n a) (grid [0..em_num_tokens a - 1] (map int (block_indices threads (nat width))))"

definition EmbedGatherVec8Kernel :: "EmbedArgs \<Rightarrow> 'v step list" where
  "EmbedGatherVec8Kernel a = embed_kernel 8 kVec8BlockThreads (drop_bit 3 (em_hidden_size a)) a"

definition EmbedGatherHalf2Kernel :: "EmbedArgs \<Rightarrow> 'v step list" where
  "EmbedGatherHalf2Kernel a = embed_kernel 2 em_kBlockThreads (drop_bit 1 (em_hidden_size a)) a"

definition EmbedGatherScalarKernel :: "EmbedArgs \<Rightarrow> 'v step list" where
  "EmbedGatherScalarKernel a = embed_kernel 1 em_kBlockThreads (em_hidden_size a) a"

definition LaunchEmbedGather :: "EmbedArgs \<Rightarrow> 'v step list" where
  "LaunchEmbedGather a =
     (if em_num_tokens a \<le> 0 \<or> em_hidden_size a \<le> 0 then []
      else if em_hidden_size a mod 8 = 0 \<and> em_out_row_stride a mod 8 = 0 \<and> IsVec8Aligned (em_out a) \<and> IsVec8Aligned (em_embed a)
           then EmbedGatherVec8Kernel a
           else if em_hidden_size a mod 2 = 0 \<and> em_out_row_stride a mod 2 = 0 \<and> IsHalf2Aligned (em_out a) \<and> IsHalf2Aligned (em_embed a)
                then EmbedGatherHalf2Kernel a
                else EmbedGatherScalarKernel a)"

section \<open>SwiGLU activation\<close>

definition SiluF32 :: "'f FloatOps \<Rightarrow> 'f \<Rightarrow> 'f" where
  "SiluF32 F x = f_div F x (f_add F (f_one F) (f_exp F (f_neg F x)))"

definition SiluMulOne :: "'f FloatOps \<Rightarrow> 16 word \<Rightarrow> 16 word \<Rightarrow> 16 word" where
  "SiluMulOne F gate up = float2half F (f_mul F (SiluF32 F (half2float F gate)) (half2float F up))"

definition SiluMulTwo :: "'f FloatOps \<Rightarrow> 16 word \<times> 16 word \<Rightarrow> 16 word \<times> 16 word \<Rightarrow> 16 word \<times> 16 word" where
  "SiluMulTwo F gate up =
     (let g = (half2float F (fst gate), half2float F (snd gate));
          u = (half2float F (fst up), half2float F (snd up))
      in (float2half F (f_mul F (SiluF32 F (fst g)) (fst u)), float2half F (f_mul F (SiluF32 F (snd g)) (snd u))))"

definition silu_kBlockThreads :: int where "silu_kBlockThreads = 256"
definition kMaxGridY :: int where "kMaxGridY = 65535"

text \<open>
  The rows and columns of a two-dimensional grid: each dimension is walked with the size of the grid
  as the stride.
\<close>

definition silu_indices :: "int \<Rightarrow> int \<Rightarrow> int \<Rightarrow> int \<Rightarrow> (int \<times> int) list" where
  "silu_indices grid_x grid_y n_rows columns =
     grid (map int (block_indices (nat grid_y) (nat n_rows)))
       (map int (block_indices (nat (grid_x * silu_kBlockThreads)) (nat columns)))"

definition SiluMulScalarKernel :: "'f FloatOps \<Rightarrow> int \<Rightarrow> int \<Rightarrow> int \<Rightarrow> int \<Rightarrow> int \<Rightarrow> int \<Rightarrow> int \<Rightarrow> 16 word step list" where
  "SiluMulScalarKernel F grid_x grid_y out gate_up out_row_stride n_rows isize =
     map (\<lambda>(row, c).
        let in_row_stride = 2 * isize;
            gate_row = gate_up + row * in_row_stride;
            up_row = gate_row + isize;
            out_row = out + row * out_row_stride
        in Step [gate_row + c, up_row + c] [out_row + c] (\<lambda>vs. [SiluMulOne F (vs ! 0) (vs ! 1)]))
       (silu_indices grid_x grid_y n_rows isize)"

text \<open>Pointers and strides of the half2 kernel count pairs.\<close>

definition SiluMulHalf2Kernel :: "'f FloatOps \<Rightarrow> int \<Rightarrow> int \<Rightarrow> int \<Rightarrow> int \<Rightarrow> int \<Rightarrow> int \<Rightarrow> int \<Rightarrow> 16 word step list" where
  "SiluMulHalf2Kernel F grid_x grid_y out gate_up out_row_stride n_rows pairs =
     map (\<lambda>(row, p).
        let in_row_stride = 2 * pairs;
            gate_row = row * in_row_stride;
            up_row = gate_row + pairs;
            out_row = row * out_row_stride
        in Step (vector 2 (gate_up + (gate_row + p) * 2) @ vector 2 (gate_up + (up_row + p) * 2)) (vector 2 (out + (out_row + p) * 2))
             (\<lambda>vs. case SiluMulTwo F (vs ! 0, vs ! 1) (vs ! 2, vs ! 3) of (x, y) \<Rightarrow> [x, y]))
       (silu_indices grid_x grid_y n_rows pairs)"

definition LaunchSiluMul :: "'f FloatOps \<Rightarrow> int \<Rightarrow> int \<Rightarrow> int \<Rightarrow> int \<Rightarrow> 16 word step list" where
  "LaunchSiluMul F out gate_up n_rows isize =
     (if n_rows \<le> 0 \<or> isize \<le> 0 then []
      else
        let aliased = (out = gate_up);
            grid_y = (if n_rows > kMaxGridY then kMaxGridY else n_rows);
            vectorize = (isize mod 2 = 0 \<and> (2 * out) mod 4 = 0 \<and> (2 * gate_up) mod 4 = 0)
        in if vectorize
           then let pairs = isize div 2;
                    out_row_stride = (if aliased then 2 * pairs else pairs);
                    grid_x = (pairs + silu_kBlockThreads - 1) div silu_kBlockThreads
                in SiluMulHalf2Kernel F grid_x grid_y out gate_up out_row_stride n_rows pairs
           else let out_row_stride = (if aliased then 2 * isize else isize);
                    grid_x = (isize + silu_kBlockThreads - 1) div silu_kBlockThreads
                in SiluMulScalarKernel F grid_x grid_y out gate_up out_row_stride n_rows isize)"

section \<open>The launches are row kernels\<close>

lemma set_int_indices: "0 < threads \<Longrightarrow> set (map int (block_indices threads (nat b))) = {0..<b}"
proof -
  assume "0 < threads"
  then have "set (map int (block_indices threads (nat b))) = int ` {0..<nat b}" using set_block_indices[of threads "nat b"] by simp
  also have "\<dots> = {0..<b}" by (cases "0 \<le> b") (simp_all add: image_int_atLeastLessThan)
  finally show ?thesis .
qed

lemma distinct_int_indices: "distinct (map int (block_indices threads b))"
  by (simp add: distinct_map distinct_block_indices)

lemma embed_kernel_rows:
  assumes "0 < threads" "0 < n" "n dvd em_hidden_size a" "width = em_hidden_size a div n"
  shows "row_kernel n (em_hidden_size a) [0..em_num_tokens a - 1] (\<lambda>r. em_out a + r * em_out_row_stride a)
     (\<lambda>r. [em_embed a + em_input_ids a r * em_hidden_size a]) (\<lambda>vs. vs ! 0) (embed_kernel n threads width a)"
  unfolding row_kernel_def embed_kernel_def
proof (intro conjI assms exI[of _ "grid [0..em_num_tokens a - 1] (map int (block_indices threads (nat width)))"]
    exI[of _ "embed_word n a"] refl allI)
  show "distinct (grid [0..em_num_tokens a - 1] (map int (block_indices threads (nat width))))"
    by (intro distinct_grid distinct_int_indices) simp
  show "set (grid [0..em_num_tokens a - 1] (map int (block_indices threads (nat width)))) =
      set [0..em_num_tokens a - 1] \<times> {0..<em_hidden_size a div n}"
    by (simp only: set_grid set_int_indices[OF assms(1)] assms(4))
qed (simp add: embed_word_def Let_def)

lemma LaunchEmbedGather_rows:
  assumes "0 < em_num_tokens a" "0 < em_hidden_size a"
  shows "\<exists>n. row_kernel n (em_hidden_size a) [0..em_num_tokens a - 1] (\<lambda>r. em_out a + r * em_out_row_stride a)
     (\<lambda>r. [em_embed a + em_input_ids a r * em_hidden_size a]) (\<lambda>vs. vs ! 0) (LaunchEmbedGather a)"
proof -
  have 8: "\<exists>n. row_kernel n (em_hidden_size a) [0..em_num_tokens a - 1] (\<lambda>r. em_out a + r * em_out_row_stride a)
     (\<lambda>r. [em_embed a + em_input_ids a r * em_hidden_size a]) (\<lambda>vs. vs ! 0) (EmbedGatherVec8Kernel a)" if "em_hidden_size a mod 8 = 0"
    unfolding EmbedGatherVec8Kernel_def
    by (rule exI, rule embed_kernel_rows) (use that in \<open>auto simp: kVec8BlockThreads_def drop_bit_eq_div\<close>)
  have 2: "\<exists>n. row_kernel n (em_hidden_size a) [0..em_num_tokens a - 1] (\<lambda>r. em_out a + r * em_out_row_stride a)
     (\<lambda>r. [em_embed a + em_input_ids a r * em_hidden_size a]) (\<lambda>vs. vs ! 0) (EmbedGatherHalf2Kernel a)" if "em_hidden_size a mod 2 = 0"
    unfolding EmbedGatherHalf2Kernel_def
    by (rule exI, rule embed_kernel_rows) (use that in \<open>auto simp: em_kBlockThreads_def drop_bit_eq_div\<close>)
  have 1: "\<exists>n. row_kernel n (em_hidden_size a) [0..em_num_tokens a - 1] (\<lambda>r. em_out a + r * em_out_row_stride a)
     (\<lambda>r. [em_embed a + em_input_ids a r * em_hidden_size a]) (\<lambda>vs. vs ! 0) (EmbedGatherScalarKernel a)"
    unfolding EmbedGatherScalarKernel_def
    by (rule exI, rule embed_kernel_rows) (auto simp: em_kBlockThreads_def)
  show ?thesis using 8 2 1 assms unfolding LaunchEmbedGather_def by (auto split: if_splits)
qed

lemma scalar_lane:
  "Step [g + c, u + c] [dst + c] (\<lambda>vs. [SiluMulOne F (vs ! 0) (vs ! 1)]) =
     lane_step 1 [g + c * 1, u + c * 1] (dst + c * 1) (\<lambda>vs. SiluMulOne F (vs ! 0) (vs ! 1))"
  by (simp add: lane_step_def vector_def)

lemma half2_lane:
  "Step (vector 2 g @ vector 2 u) (vector 2 dst) (\<lambda>vs. case SiluMulTwo F (vs ! 0, vs ! 1) (vs ! 2, vs ! 3) of (x, y) \<Rightarrow> [x, y]) =
     lane_step 2 [g, u] dst (\<lambda>vs. SiluMulOne F (vs ! 0) (vs ! 1))"
  by (simp add: lane_step_def SiluMulTwo_def SiluMulOne_def upt_rec numeral_2_eq_2 numeral_3_eq_3)

definition silu_stride :: "int \<Rightarrow> int \<Rightarrow> int \<Rightarrow> int" where
  "silu_stride out gate_up isize = (if out = gate_up then 2 * isize else isize)"

lemma set_silu_indices:
  "0 < grid_x \<Longrightarrow> 0 < grid_y \<Longrightarrow> set (silu_indices grid_x grid_y n_rows columns) = set [0..n_rows - 1] \<times> {0..<columns}"
proof -
  assume g: "0 < grid_x" "0 < grid_y"
  have "set (map int (block_indices (nat grid_y) (nat n_rows))) = {0..<n_rows}" by (rule set_int_indices) (use g in simp)
  moreover have "set (map int (block_indices (nat (grid_x * silu_kBlockThreads)) (nat columns))) = {0..<columns}"
    by (rule set_int_indices) (use g in \<open>simp add: silu_kBlockThreads_def\<close>)
  ultimately show ?thesis unfolding silu_indices_def by (auto simp del: set_map)
qed

lemma distinct_silu_indices: "distinct (silu_indices grid_x grid_y n_rows columns)"
  unfolding silu_indices_def by (intro distinct_grid distinct_int_indices)

lemma LaunchSiluMul_rows:
  assumes "0 < n_rows" "0 < isize"
  shows "\<exists>n. row_kernel n isize [0..n_rows - 1] (\<lambda>r. out + r * silu_stride out gate_up isize)
     (\<lambda>r. [gate_up + r * (2 * isize), gate_up + r * (2 * isize) + isize]) (\<lambda>vs. SiluMulOne F (vs ! 0) (vs ! 1))
     (LaunchSiluMul F out gate_up n_rows isize)"
proof -
  let ?gy = "if n_rows > kMaxGridY then kMaxGridY else n_rows"
  have gy: "0 < ?gy" using assms by (simp add: kMaxGridY_def)
  show ?thesis
  proof (cases "isize mod 2 = 0 \<and> (2 * out) mod 4 = 0 \<and> (2 * gate_up) mod 4 = 0")
    case True
    then obtain pairs where pairs: "isize = 2 * pairs" "isize div 2 = pairs" by (metis dvd_eq_mod_eq_0 dvd_mult_div_cancel)
    let ?gx = "(pairs + silu_kBlockThreads - 1) div silu_kBlockThreads"
    have gx: "0 < ?gx" using assms pairs by (simp add: silu_kBlockThreads_def pos_imp_zdiv_pos_iff)
    let ?stride = "if out = gate_up then 2 * pairs else pairs"
    have l: "LaunchSiluMul F out gate_up n_rows isize = SiluMulHalf2Kernel F ?gx ?gy out gate_up ?stride n_rows pairs"
      using True assms pairs(2) unfolding LaunchSiluMul_def Let_def by simp
    have s: "silu_stride out gate_up isize = ?stride * 2" by (simp add: silu_stride_def pairs)
    have "row_kernel 2 isize [0..n_rows - 1] (\<lambda>r. out + r * silu_stride out gate_up isize)
     (\<lambda>r. [gate_up + r * (2 * isize), gate_up + r * (2 * isize) + isize]) (\<lambda>vs. SiluMulOne F (vs ! 0) (vs ! 1))
     (SiluMulHalf2Kernel F ?gx ?gy out gate_up ?stride n_rows pairs)"
      unfolding row_kernel_def SiluMulHalf2Kernel_def
    proof (intro conjI exI refl allI)
      show "set (silu_indices ?gx ?gy n_rows pairs) = set [0..n_rows - 1] \<times> {0..<isize div 2}"
        unfolding pairs(2) by (rule set_silu_indices[OF gx gy])
      fix r w
      have e: "gate_up + (r * (2 * pairs) + w) * 2 = gate_up + r * (2 * isize) + w * 2"
        "gate_up + (r * (2 * pairs) + pairs + w) * 2 = gate_up + r * (2 * isize) + isize + w * 2"
        "out + (r * ?stride + w) * 2 = out + r * silu_stride out gate_up isize + w * 2"
        unfolding s by (simp_all add: pairs algebra_simps)
      show "(\<lambda>(row, p). let in_row_stride = 2 * pairs; gate_row = row * in_row_stride; up_row = gate_row + pairs; out_row = row * ?stride
          in Step (vector 2 (gate_up + (gate_row + p) * 2) @ vector 2 (gate_up + (up_row + p) * 2)) (vector 2 (out + (out_row + p) * 2))
             (\<lambda>vs. case SiluMulTwo F (vs ! 0, vs ! 1) (vs ! 2, vs ! 3) of (x, y) \<Rightarrow> [x, y])) (r, w) =
        lane_step 2 (map (\<lambda>s. s + w * 2) [gate_up + r * (2 * isize), gate_up + r * (2 * isize) + isize])
          (out + r * silu_stride out gate_up isize + w * 2) (\<lambda>vs. SiluMulOne F (vs ! 0) (vs ! 1))"
        unfolding prod.case Let_def e half2_lane by simp
    qed (use pairs in \<open>simp_all add: distinct_silu_indices\<close>)
    then show ?thesis unfolding l by blast
  next
    case False
    let ?gx = "(isize + silu_kBlockThreads - 1) div silu_kBlockThreads"
    have gx: "0 < ?gx" using assms by (simp add: silu_kBlockThreads_def pos_imp_zdiv_pos_iff)
    have l: "LaunchSiluMul F out gate_up n_rows isize =
        SiluMulScalarKernel F ?gx ?gy out gate_up (silu_stride out gate_up isize) n_rows isize"
      using False assms unfolding LaunchSiluMul_def Let_def silu_stride_def by (auto simp del: mod_mult_self1_is_0)
    have "row_kernel 1 isize [0..n_rows - 1] (\<lambda>r. out + r * silu_stride out gate_up isize)
     (\<lambda>r. [gate_up + r * (2 * isize), gate_up + r * (2 * isize) + isize]) (\<lambda>vs. SiluMulOne F (vs ! 0) (vs ! 1))
     (SiluMulScalarKernel F ?gx ?gy out gate_up (silu_stride out gate_up isize) n_rows isize)"
      unfolding row_kernel_def SiluMulScalarKernel_def
    proof (intro conjI exI refl allI)
      show "set (silu_indices ?gx ?gy n_rows isize) = set [0..n_rows - 1] \<times> {0..<isize div 1}"
        using set_silu_indices[OF gx gy] by simp
      fix r w
      show "(\<lambda>(row, c). let in_row_stride = 2 * isize; gate_row = gate_up + row * in_row_stride; up_row = gate_row + isize;
          out_row = out + row * silu_stride out gate_up isize
          in Step [gate_row + c, up_row + c] [out_row + c] (\<lambda>vs. [SiluMulOne F (vs ! 0) (vs ! 1)])) (r, w) =
        lane_step 1 (map (\<lambda>s. s + w * 1) [gate_up + r * (2 * isize), gate_up + r * (2 * isize) + isize])
          (out + r * silu_stride out gate_up isize + w * 1) (\<lambda>vs. SiluMulOne F (vs ! 0) (vs ! 1))"
        unfolding prod.case Let_def scalar_lane by simp
    qed (simp_all add: distinct_silu_indices)
    then show ?thesis unfolding l by blast
  qed
qed

section \<open>What the launches compute\<close>

lemma row_digits:
  fixes r c s :: int
  assumes "r * s + c = r' * s + c'" "0 \<le> c" "c < width" "0 \<le> c'" "c' < width" "width \<le> s"
  shows "r = r' \<and> c = c'"
  using digits_unique[of r s c r' c'] assms by simp

lemma in_rows: "0 \<le> r * s + c \<and> r * s + c < n * s" if "0 \<le> r" "r < n" "0 \<le> c" "c < s" for r s c n :: int
proof -
  have "(r + 1) * s \<le> n * s" using that by (intro mult_right_mono) auto
  then show ?thesis using that by (simp add: algebra_simps)
qed

text \<open>
  C29: The activation is exact in every mode. For every row and column, on the scalar and the half2
  path, dense or in place over the gate half, and for every order of the threads, the output element
  is the activation of the gate and up elements as they were before the launch, and every address
  that is not an output element keeps its value, the up halves included.
\<close>

theorem silu_mul_exact:
  assumes "schedule (length (LaunchSiluMul F out gate_up n_rows isize)) es"
    and "out = gate_up \<or> {out..<out + n_rows * isize} \<inter> {gate_up..<gate_up + n_rows * (2 * isize)} = {}"
    and "stride = (if out = gate_up then 2 * isize else isize)"
    and "m' = run_events (LaunchSiluMul F out gate_up n_rows isize) es m"
  shows "(\<forall>r\<in>{0..<n_rows}. \<forall>c\<in>{0..<isize}.
       m' (out + r * stride + c) = SiluMulOne F (m (gate_up + r * (2 * isize) + c)) (m (gate_up + r * (2 * isize) + isize + c))) \<and>
    (\<forall>a. (\<forall>r\<in>{0..<n_rows}. \<forall>c\<in>{0..<isize}. a \<noteq> out + r * stride + c) \<longrightarrow> m' a = m a)"
proof (cases "0 < n_rows \<and> 0 < isize")
  case False
  then have "LaunchSiluMul F out gate_up n_rows isize = []" by (auto simp: LaunchSiluMul_def)
  then show ?thesis using assms(1,4) False by (auto simp: schedule_def run_events_def)
next
  case True
  have st: "stride = silu_stride out gate_up isize" by (simp add: silu_stride_def assms(3))
  obtain n where k: "row_kernel n isize [0..n_rows - 1] (\<lambda>r. out + r * stride)
     (\<lambda>r. [gate_up + r * (2 * isize), gate_up + r * (2 * isize) + isize]) (\<lambda>vs. SiluMulOne F (vs ! 0) (vs ! 1))
     (LaunchSiluMul F out gate_up n_rows isize)" using LaunchSiluMul_rows[of n_rows isize] True st by blast
  have sle: "isize \<le> stride" using True by (simp add: assms(3))
  have "m' (out + r * stride + c) = SiluMulOne F (m (gate_up + r * (2 * isize) + c)) (m (gate_up + r * (2 * isize) + isize + c))"
    if r: "r \<in> {0..<n_rows}" and c: "c \<in> {0..<isize}" for r c
  proof -
    have "m' (out + r * stride + c) = (\<lambda>vs. SiluMulOne F (vs ! 0) (vs ! 1))
      (map (\<lambda>s. m (s + c)) [gate_up + r * (2 * isize), gate_up + r * (2 * isize) + isize])"
      unfolding assms(4)
    proof (rule row_computed[OF k assms(1)])
      fix r' c' c0
      assume r': "r' \<in> set [0..n_rows - 1]" and b: "0 \<le> c'" "c' < isize" "0 \<le> c0" "c0 < isize"
      show "out + r' * stride + c' = out + r * stride + c0 \<Longrightarrow> r' = r \<and> c' = c0"
        using row_digits[OF _ b sle, of r' r] by simp
      fix s
      assume s: "s \<in> set [gate_up + r * (2 * isize), gate_up + r * (2 * isize) + isize]" and eq: "out + r' * stride + c' = s + c0"
      show "r' = r \<and> c' = c0"
      proof (cases "out = gate_up")
        case True
        then have stride: "stride = 2 * isize" by (simp add: assms(3))
        consider "r' * stride + c' = r * stride + c0" | "r' * stride + c' = r * stride + (isize + c0)"
          using s eq True stride by auto
        then show ?thesis
        proof cases
          case 1
          then show ?thesis using row_digits[OF 1 b sle] by simp
        next
          case 2
          have "r' = r \<and> c' = isize + c0" by (rule row_digits[OF 2, where width = "2 * isize"]) (use b stride in auto)
          then show ?thesis using b by simp
        qed
      next
        case False
        then have stride: "stride = isize" by (simp add: assms(3))
        have "0 \<le> r' * isize + c' \<and> r' * isize + c' < n_rows * isize" by (rule in_rows) (use r' b in auto)
        moreover have "0 \<le> r * (2 * isize) + c0 \<and> r * (2 * isize) + c0 < n_rows * (2 * isize)" by (rule in_rows) (use r b in auto)
        moreover have "0 \<le> r * (2 * isize) + (isize + c0) \<and> r * (2 * isize) + (isize + c0) < n_rows * (2 * isize)"
          by (rule in_rows) (use r b in auto)
        ultimately have "out + r' * stride + c' \<in> {out..<out + n_rows * isize}" "s + c0 \<in> {gate_up..<gate_up + n_rows * (2 * isize)}"
          using s by (auto simp: stride)
        then have "s + c0 \<in> {out..<out + n_rows * isize} \<inter> {gate_up..<gate_up + n_rows * (2 * isize)}" using eq by (simp only: Int_iff)
        then show ?thesis using False assms(2) by blast
      qed
    qed (use r c in auto)
    then show ?thesis by simp
  qed
  moreover have "m' a = m a" if "\<forall>r\<in>{0..<n_rows}. \<forall>c\<in>{0..<isize}. a \<noteq> out + r * stride + c" for a
    unfolding assms(4) by (rule rows_untouched[OF k assms(1)]) (use that in fastforce)
  ultimately show ?thesis by blast
qed

theorem silu_mul_exact_witness:
  "(let m' = run_events (LaunchSiluMul int_ops 8 8 2 2) (sequential (length (LaunchSiluMul int_ops 8 8 2 2))) (\<lambda>a. word_of_int a)
    in m' (8 + 1 * 4 + 1) = SiluMulOne int_ops 13 15 \<and> m' (8 + 1 * 4 + 3) = 15)"
proof -
  note r = silu_mul_exact[OF schedule_sequential _ refl refl, where out = 8 and gate_up = 8 and F = int_ops and n_rows = 2 and isize = 2 and m = "\<lambda>a. word_of_int a", simplified]
  have "\<forall>r\<in>{0..<2}. \<forall>c\<in>{0..<2}. (15 :: int) \<noteq> 8 + r * 4 + c"
  proof (intro ballI)
    fix r c :: int
    assume "r \<in> {0..<2}" "c \<in> {0..<2}"
    then have "r = 0 \<or> r = 1" "c = 0 \<or> c = 1" by auto
    then show "15 \<noteq> 8 + r * 4 + c" by auto
  qed
  then have "run_events (LaunchSiluMul int_ops 8 8 2 2) (sequential (length (LaunchSiluMul int_ops 8 8 2 2))) (\<lambda>a. word_of_int a) 15 = 15"
    using r[THEN conjunct2, THEN spec, of 15] by simp
  moreover note r[THEN conjunct1, THEN bspec, of 1, THEN bspec, of 1]
  ultimately show ?thesis by (simp add: Let_def)
qed

text \<open>
  The embedding gather. On each of its three paths the output rows are the rows of the table that the
  ids select and nothing else changes.
\<close>

theorem embed_gather_exact:
  assumes "schedule (length (LaunchEmbedGather a :: 'v step list)) es" and "em_hidden_size a \<le> em_out_row_stride a"
    and "\<And>r r' c c'. r \<in> {0..<em_num_tokens a} \<Longrightarrow> r' \<in> {0..<em_num_tokens a} \<Longrightarrow> c \<in> {0..<em_hidden_size a} \<Longrightarrow> c' \<in> {0..<em_hidden_size a} \<Longrightarrow>
      em_out a + r * em_out_row_stride a + c \<noteq> em_embed a + em_input_ids a r' * em_hidden_size a + c'"
    and "r \<in> {0..<em_num_tokens a}" "c \<in> {0..<em_hidden_size a}"
  shows "run_events (LaunchEmbedGather a :: 'v step list) es m (em_out a + r * em_out_row_stride a + c) =
    m (em_embed a + em_input_ids a r * em_hidden_size a + c)"
proof -
  obtain n where k: "row_kernel n (em_hidden_size a) [0..em_num_tokens a - 1] (\<lambda>r. em_out a + r * em_out_row_stride a)
     (\<lambda>r. [em_embed a + em_input_ids a r * em_hidden_size a]) (\<lambda>vs. vs ! 0) (LaunchEmbedGather a :: 'v step list)"
    using LaunchEmbedGather_rows[of a] assms(4,5) by force
  have "run_events (LaunchEmbedGather a :: 'v step list) es m (em_out a + r * em_out_row_stride a + c) =
      (\<lambda>vs. vs ! 0) (map (\<lambda>s. m (s + c)) [em_embed a + em_input_ids a r * em_hidden_size a])"
  proof (rule row_computed[OF k assms(1)])
    fix r' c' c0
    assume r': "r' \<in> set [0..em_num_tokens a - 1]" and b: "0 \<le> c'" "c' < em_hidden_size a" "0 \<le> c0" "c0 < em_hidden_size a"
    show "em_out a + r' * em_out_row_stride a + c' = em_out a + r * em_out_row_stride a + c0 \<Longrightarrow> r' = r \<and> c' = c0"
      using row_digits[OF _ b assms(2), of r' r] by simp
    fix s
    assume "s \<in> set [em_embed a + em_input_ids a r * em_hidden_size a]" "em_out a + r' * em_out_row_stride a + c' = s + c0"
    then show "r' = r \<and> c' = c0" using assms(3)[of r' r c' c0] assms(4) r' b by auto
  qed (use assms in auto)
  then show ?thesis by simp
qed

end
