(* ===== verification/Rope.thy ===== *)
theory Rope
  imports Kernel_Launch Device_Float
begin

text \<open>
  Rotary position embeddings, \<^verbatim>\<open>src/src/kernels/rope.cu\<close>: the cached table of frequencies, the
  rotation of one pair, the mapping that shares the angles of a row among seven heads, the mapping
  with one block per head, and the launcher. The state is the host record of what the constant table
  holds and the table itself; \<open>sync_ok\<close> and \<open>copy_ok\<close> say whether the two CUDA calls of an upload
  succeed. The debug assertions of the launcher repeat its release guards.
\<close>

definition kMaxRotaryPairs :: int where "kMaxRotaryPairs = 64"
definition kHeadsPerBlockSm80 :: int where "kHeadsPerBlockSm80 = 7"

record 'f InvFreqCacheState =
  if_theta :: 'f
  if_num_pairs :: int
  g_inv_freq :: "int \<Rightarrow> 'f"

definition inv_freq :: "'f FloatOps \<Rightarrow> 'f \<Rightarrow> int \<Rightarrow> int \<Rightarrow> 'f" where
  "inv_freq F theta hdim d =
     (let exponent = f_div F (int2float F (2 * d)) (int2float F hdim) in f_div F (f_one F) (f_pow F theta exponent))"

definition EnsureInvFreqTable ::
  "'f FloatOps \<Rightarrow> bool \<Rightarrow> bool \<Rightarrow> 'f \<Rightarrow> int \<Rightarrow> 'f InvFreqCacheState \<Rightarrow> bool \<times> 'f InvFreqCacheState" where
  "EnsureInvFreqTable F sync_ok copy_ok theta hdim st =
     (let n_pairs = hdim div 2 in
      if f_equal F (if_theta st) theta \<and> if_num_pairs st = n_pairs then (True, st)
      else if \<not> sync_ok then (False, st)
      else if \<not> copy_ok then (False, st)
      else (True, \<lparr>if_theta = theta, if_num_pairs = n_pairs,
                   g_inv_freq = (\<lambda>d. if 0 \<le> d \<and> d < n_pairs then inv_freq F theta hdim d else g_inv_freq st d)\<rparr>))"

text \<open>The new values of a pair.\<close>

definition rotated :: "'f FloatOps \<Rightarrow> 'f \<Rightarrow> 'f \<Rightarrow> 16 word \<Rightarrow> 16 word \<Rightarrow> 16 word \<times> 16 word" where
  "rotated F cos_h sin_h lo hi =
     (let x1 = half2float F lo; x2 = half2float F hi;
          lo_cos_term = float2half F (f_mul F x1 cos_h);
          lo_sin_term = float2half F (f_mul F (f_neg F x2) sin_h);
          hi_cos_term = float2half F (f_mul F x2 cos_h);
          hi_sin_term = float2half F (f_mul F x1 sin_h)
      in (float2half F (f_add F (half2float F lo_cos_term) (half2float F lo_sin_term)),
          float2half F (f_add F (half2float F hi_cos_term) (half2float F hi_sin_term))))"

definition RotatePair :: "'f FloatOps \<Rightarrow> int \<Rightarrow> int \<Rightarrow> int \<Rightarrow> 'f \<Rightarrow> 'f \<Rightarrow> 16 word step" where
  "RotatePair F head_base d half_dim cos_h sin_h =
     (let i_lo = d; i_hi = d + half_dim in
      Step [head_base + i_lo, head_base + i_hi] [head_base + i_lo, head_base + i_hi]
        (\<lambda>vs. case rotated F cos_h sin_h (vs ! 0) (vs ! 1) of (lo, hi) \<Rightarrow> [lo, hi]))"

record RopeArgs =
  ro_q :: int
  ro_k :: int
  ro_q_row_stride :: int
  ro_k_row_stride :: int
  ro_positions :: "int \<Rightarrow> int"
  ro_num_tokens :: int
  ro_num_q_heads :: int
  ro_num_kv_heads :: int
  ro_head_dim :: int

definition HeadBase :: "RopeArgs \<Rightarrow> int \<Rightarrow> int \<Rightarrow> int" where
  "HeadBase a row head =
     (if head < ro_num_q_heads a then ro_q a + row * ro_q_row_stride a + head * ro_head_dim a
      else ro_k a + row * ro_k_row_stride a + (head - ro_num_q_heads a) * ro_head_dim a)"

text \<open>The cosine and sine of an angle, rounded to half.\<close>

definition rounded_sincos :: "'f FloatOps \<Rightarrow> 'f \<Rightarrow> 'f \<times> 'f" where
  "rounded_sincos F angle =
     (case f_sincos F angle of (sin32, cos32) \<Rightarrow> (half2float F (float2half F cos32), half2float F (float2half F sin32)))"

text \<open>
  The shared mapping. After the barrier the shared array holds the entries that the threads below
  \<open>half_dim\<close> have written; the threads of a trailing block that have no head retire.
\<close>

definition shared_rot :: "'f FloatOps \<Rightarrow> (int \<Rightarrow> 'f) \<Rightarrow> 'f \<Rightarrow> int \<Rightarrow> ('f \<times> 'f) list" where
  "shared_rot F table pos half_dim =
     map (\<lambda>tid. rounded_sincos F (f_mul F pos (table tid)))
       (filter (\<lambda>tid. tid < half_dim) [0..kHeadsPerBlockSm80 * half_dim - 1])"

definition RopeInplaceSharedKernel :: "'f FloatOps \<Rightarrow> (int \<Rightarrow> 'f) \<Rightarrow> RopeArgs \<Rightarrow> int \<Rightarrow> int \<Rightarrow> 16 word step list" where
  "RopeInplaceSharedKernel F table a total_heads head_groups =
     (let half_dim = drop_bit 1 (ro_head_dim a) in
      concat (map (\<lambda>(row, by, tid).
          let pos = int2float F (ro_positions a row);
              rot = shared_rot F table pos half_dim;
              head = by * kHeadsPerBlockSm80 + tid div half_dim
          in if head \<ge> total_heads then []
             else let d = tid mod half_dim; (cos_h, sin_h) = rot ! nat d
                  in [RotatePair F (HeadBase a row head) d half_dim cos_h sin_h])
        (grid [0..ro_num_tokens a - 1] (grid [0..head_groups - 1] [0..kHeadsPerBlockSm80 * half_dim - 1]))))"

definition RopeInplaceKernel :: "'f FloatOps \<Rightarrow> (int \<Rightarrow> 'f) \<Rightarrow> RopeArgs \<Rightarrow> int \<Rightarrow> 16 word step list" where
  "RopeInplaceKernel F table a total_heads =
     (let half_dim = drop_bit 1 (ro_head_dim a) in
      map (\<lambda>(row, head, d).
          let pos = int2float F (ro_positions a row);
              (cos_h, sin_h) = rounded_sincos F (f_mul F pos (table d))
          in RotatePair F (HeadBase a row head) d half_dim cos_h sin_h)
        (grid [0..ro_num_tokens a - 1] (grid [0..total_heads - 1] [0..half_dim - 1])))"

definition not_positive :: "'f FloatOps \<Rightarrow> 'f \<Rightarrow> bool" where
  "not_positive F x \<longleftrightarrow> f_less F x (f_zero F) \<or> f_equal F x (f_zero F)"

definition LaunchRopeInplace ::
  "'f FloatOps \<Rightarrow> int \<Rightarrow> bool \<Rightarrow> bool \<Rightarrow> RopeArgs \<Rightarrow> 'f \<Rightarrow> 'f InvFreqCacheState \<Rightarrow> 16 word step list \<times> 'f InvFreqCacheState" where
  "LaunchRopeInplace F compute_major sync_ok copy_ok a rope_theta st =
     (let total_heads = ro_num_q_heads a + ro_num_kv_heads a in
      if ro_num_tokens a \<le> 0 \<or> total_heads \<le> 0 then ([], st)
      else if ro_num_q_heads a < 0 \<or> ro_num_kv_heads a < 0 \<or> ro_head_dim a \<le> 0 \<or> ro_head_dim a mod 2 \<noteq> 0 \<or>
              ro_head_dim a div 2 > kMaxRotaryPairs \<or> not_positive F rope_theta then ([], st)
      else case EnsureInvFreqTable F sync_ok copy_ok rope_theta (ro_head_dim a) st of
             (False, st') \<Rightarrow> ([], st')
           | (True, st') \<Rightarrow>
               if compute_major \<ge> 8 \<and> kHeadsPerBlockSm80 > 1
               then let head_groups = (total_heads + kHeadsPerBlockSm80 - 1) div kHeadsPerBlockSm80
                    in (RopeInplaceSharedKernel F (g_inv_freq st') a total_heads head_groups, st')
               else (RopeInplaceKernel F (g_inv_freq st') a total_heads, st'))"

section \<open>Both mappings rotate every pair once\<close>

definition rope_pair :: "'f FloatOps \<Rightarrow> (int \<Rightarrow> 'f) \<Rightarrow> RopeArgs \<Rightarrow> int \<times> int \<times> int \<Rightarrow> 16 word step" where
  "rope_pair F table a p =
     (case p of (row, head, d) \<Rightarrow>
        case rounded_sincos F (f_mul F (int2float F (ro_positions a row)) (table d)) of (c, s) \<Rightarrow>
          RotatePair F (HeadBase a row head) d (ro_head_dim a div 2) c s)"

definition rope_pairs :: "RopeArgs \<Rightarrow> (int \<times> int \<times> int) set" where
  "rope_pairs a = {0..<ro_num_tokens a} \<times> {0..<ro_num_q_heads a + ro_num_kv_heads a} \<times> {0..<ro_head_dim a div 2}"

lemma RopeInplaceKernel_pairs:
  "\<exists>ps. distinct ps \<and> set ps = rope_pairs a \<and>
     RopeInplaceKernel F table a (ro_num_q_heads a + ro_num_kv_heads a) = map (rope_pair F table a) ps"
proof (intro exI conjI)
  let ?ps = "grid [0..ro_num_tokens a - 1] (grid [0..ro_num_q_heads a + ro_num_kv_heads a - 1] [0..ro_head_dim a div 2 - 1])"
  show "distinct ?ps" by (intro distinct_grid) simp_all
  show "set ?ps = rope_pairs a" by (auto simp: rope_pairs_def)
  show "RopeInplaceKernel F table a (ro_num_q_heads a + ro_num_kv_heads a) = map (rope_pair F table a) ?ps"
    by (simp add: RopeInplaceKernel_def rope_pair_def Let_def drop_bit_eq_div split_def)
qed

lemma concat_map_if: "concat (map (\<lambda>x. if P x then [] else [f x]) xs) = map f (filter (\<lambda>x. \<not> P x) xs)"
  by (induction xs) auto

lemma shared_rot_nth:
  assumes "0 \<le> d" "d < half_dim"
  shows "shared_rot F table pos half_dim ! nat d = rounded_sincos F (f_mul F pos (table d))"
proof -
  have "[0..kHeadsPerBlockSm80 * half_dim - 1] = [0..half_dim - 1] @ [half_dim..kHeadsPerBlockSm80 * half_dim - 1]"
    using upto_split1[of 0 "half_dim" "kHeadsPerBlockSm80 * half_dim - 1"] assms by (simp add: kHeadsPerBlockSm80_def upto_split1)
  then have "filter (\<lambda>tid. tid < half_dim) [0..kHeadsPerBlockSm80 * half_dim - 1] = [0..half_dim - 1]"
    by (simp add: filter_id_conv filter_empty_conv)
  then show ?thesis using assms by (simp add: shared_rot_def nth_upto)
qed

lemma shared_coords:
  fixes half_dim n_heads :: int
  assumes "0 < half_dim" and "0 < n_heads"
  shows "(\<lambda>(by, tid). (by * 7 + tid div half_dim, tid mod half_dim)) `
      {p \<in> {0..<(6 + n_heads) div 7} \<times> {0..<7 * half_dim}. fst p * 7 + snd p div half_dim < n_heads} =
    {0..<n_heads} \<times> {0..<half_dim}" (is "?f ` ?A = ?B")
proof (intro equalityI subsetI)
  fix x
  assume "x \<in> ?f ` ?A"
  then obtain b t where bt: "x = (b * 7 + t div half_dim, t mod half_dim)" "0 \<le> b" "0 \<le> t" "b * 7 + t div half_dim < n_heads" by auto
  then show "x \<in> ?B" using assms by (simp add: pos_imp_zdiv_nonneg_iff)
next
  fix x
  assume "x \<in> ?B"
  then obtain h d where x: "x = (h, d)" "0 \<le> h" "h < n_heads" "0 \<le> d" "d < half_dim" by auto
  let ?t = "h mod 7 * half_dim + d"
  have t: "?t div half_dim = h mod 7" "?t mod half_dim = d" using x by (simp_all add: div_pos_pos_trivial)
  have "h mod 7 * half_dim + d < (h mod 7 + 1) * half_dim" using x by (simp add: algebra_simps)
  also have "\<dots> \<le> 7 * half_dim" using assms by (intro mult_right_mono) auto
  finally have "?t < 7 * half_dim" .
  moreover have "0 \<le> ?t" using x assms by simp
  moreover have "h div 7 < (6 + n_heads) div 7" using x(2,3) by presburger
  ultimately have "(h div 7, ?t) \<in> ?A" using x t by (simp add: pos_imp_zdiv_nonneg_iff)
  moreover have "x = ?f (h div 7, ?t)" using x t by simp
  ultimately show "x \<in> ?f ` ?A" by (rule image_eqI[rotated])
qed

lemma base7:
  fixes b u b' u' :: int
  assumes "b * 7 + u = b' * 7 + u'" "0 \<le> u" "u < 7" "0 \<le> u'" "u' < 7"
  shows "b = b' \<and> u = u'"
  using assms by presburger

lemma shared_coords_inj:
  assumes "0 < half_dim"
  shows "inj_on (\<lambda>(by, tid). (by * 7 + tid div half_dim, tid mod half_dim)) ({0..} \<times> {0..<7 * half_dim :: int})"
proof (rule inj_onI, clarify)
  fix b t b' t' :: int
  assume r: "0 \<le> b" "0 \<le> b'" "t \<in> {0..<7 * half_dim}" "t' \<in> {0..<7 * half_dim}"
    and e: "b * 7 + t div half_dim = b' * 7 + t' div half_dim" "t mod half_dim = t' mod half_dim"
  have lt: "s div half_dim < 7" if "s \<in> {0..<7 * half_dim}" for s
  proof (rule ccontr)
    assume "\<not> s div half_dim < 7"
    then have "7 * half_dim \<le> s div half_dim * half_dim" using assms by (intro mult_right_mono) auto
    also have "\<dots> \<le> s" using assms by (metis minus_mod_eq_div_mult pos_mod_sign diff_le_eq le_add_same_cancel1)
    finally show False using that by simp
  qed
  have "0 \<le> t div half_dim" "0 \<le> t' div half_dim" using r assms by (simp_all add: pos_imp_zdiv_nonneg_iff)
  then have "b = b'" "t div half_dim = t' div half_dim" using base7[OF e(1)] lt[OF r(3)] lt[OF r(4)] by blast+
  moreover from this have "t = t'" using e(2) by (metis div_mult_mod_eq)
  ultimately show "b = b' \<and> t = t'" by simp
qed

lemma RopeInplaceSharedKernel_pairs:
  assumes "0 < ro_head_dim a div 2" and "0 < ro_num_q_heads a + ro_num_kv_heads a"
  shows "\<exists>ps. distinct ps \<and> set ps = rope_pairs a \<and>
     RopeInplaceSharedKernel F table a (ro_num_q_heads a + ro_num_kv_heads a)
       ((ro_num_q_heads a + ro_num_kv_heads a + kHeadsPerBlockSm80 - 1) div kHeadsPerBlockSm80) = map (rope_pair F table a) ps"
proof -
  let ?total = "ro_num_q_heads a + ro_num_kv_heads a" and ?half = "ro_head_dim a div 2"
  let ?xs = "filter (\<lambda>x. \<not> (case x of (row, by, tid) \<Rightarrow> by * 7 + tid div ?half \<ge> ?total))
    (grid [0..ro_num_tokens a - 1] (grid [0..(6 + ?total) div 7 - 1] [0..7 * ?half - 1]))"
  let ?c = "\<lambda>(row, by, tid). (row, by * 7 + tid div ?half, tid mod ?half)"
  have k: "RopeInplaceSharedKernel F table a ?total ((?total + kHeadsPerBlockSm80 - 1) div kHeadsPerBlockSm80) = map (rope_pair F table a \<circ> ?c) ?xs"
  proof -
    have "RopeInplaceSharedKernel F table a ?total ((?total + kHeadsPerBlockSm80 - 1) div kHeadsPerBlockSm80) =
      concat (map (\<lambda>x. if case x of (row, by, tid) \<Rightarrow> by * 7 + tid div ?half \<ge> ?total then [] else [(rope_pair F table a \<circ> ?c) x])
        (grid [0..ro_num_tokens a - 1] (grid [0..(6 + ?total) div 7 - 1] [0..7 * ?half - 1])))"
      unfolding RopeInplaceSharedKernel_def Let_def
      using assms(1)
      by (intro arg_cong[where f = concat] map_cong)
        (auto simp: kHeadsPerBlockSm80_def drop_bit_eq_div rope_pair_def shared_rot_nth split_def)
    then show ?thesis by (simp only: concat_map_if)
  qed
  show ?thesis
  proof (intro exI conjI)
    show "RopeInplaceSharedKernel F table a ?total ((?total + kHeadsPerBlockSm80 - 1) div kHeadsPerBlockSm80) =
        map (rope_pair F table a) (map ?c ?xs)" by (simp only: k map_map)
    have "inj_on ?c (set ?xs)"
    proof (rule inj_onI)
      fix x y
      assume xy: "x \<in> set ?xs" "y \<in> set ?xs" "?c x = ?c y"
      obtain r b t r' b' t' where d: "x = (r, b, t)" "y = (r', b', t')" by (cases x, cases y)
      have "(b, t) \<in> {0..} \<times> {0..<7 * ?half}" "(b', t') \<in> {0..} \<times> {0..<7 * ?half}" using xy(1,2) d by auto
      moreover have e: "r = r'" "b * 7 + t div ?half = b' * 7 + t' div ?half" "t mod ?half = t' mod ?half"
        using xy(3) unfolding d prod.case Pair_inject by blast+
      then have "(\<lambda>(by, tid). (by * 7 + tid div ?half, tid mod ?half)) (b, t) = (\<lambda>(by, tid). (by * 7 + tid div ?half, tid mod ?half)) (b', t')"
        by (simp only: prod.case)
      ultimately have "(b, t) = (b', t')" using inj_onD[OF shared_coords_inj[OF assms(1)]] by blast
      then show "x = y" unfolding d using e(1) by blast
    qed
    moreover have "distinct ?xs" by (intro distinct_filter distinct_grid) simp_all
    ultimately show "distinct (map ?c ?xs)" by (simp add: distinct_map)
    have s: "set ?xs = {0..<ro_num_tokens a} \<times> {p \<in> {0..<(6 + ?total) div 7} \<times> {0..<7 * ?half}. fst p * 7 + snd p div ?half < ?total}"
      by auto
    have mp: "?c = map_prod (\<lambda>r. r) (\<lambda>(by, tid). (by * 7 + tid div ?half, tid mod ?half))" by (auto simp: fun_eq_iff)
    have "?c ` (R \<times> A) = R \<times> ((\<lambda>(by, tid). (by * 7 + tid div ?half, tid mod ?half)) ` A)" for R A
      unfolding mp by (rule map_prod_surj_on) simp_all
    then show "set (map ?c ?xs) = rope_pairs a" unfolding set_map s rope_pairs_def shared_coords[OF assms, symmetric] by simp
  qed
qed

section \<open>The table\<close>

text \<open>Floats that compare equal to a positive one are that one.\<close>

definition equal_positive :: "'f FloatOps \<Rightarrow> bool" where
  "equal_positive F \<longleftrightarrow> (\<forall>x y. f_equal F x y \<and> \<not> not_positive F y \<longrightarrow> x = y)"

text \<open>The record tells the truth about the constant table.\<close>

definition table_ok :: "'f FloatOps \<Rightarrow> 'f InvFreqCacheState \<Rightarrow> bool" where
  "table_ok F st \<longleftrightarrow>
     (\<forall>theta hdim. f_equal F (if_theta st) theta \<and> \<not> not_positive F theta \<and> 0 < hdim \<and> hdim mod 2 = 0 \<and>
        if_num_pairs st = hdim div 2 \<longrightarrow> (\<forall>d\<in>{0..<hdim div 2}. g_inv_freq st d = inv_freq F theta hdim d))"

lemma EnsureInvFreqTable_ok:
  assumes "table_ok F st" "equal_positive F" "\<not> not_positive F theta" "0 < hdim" "hdim mod 2 = 0"
    and "EnsureInvFreqTable F sync_ok copy_ok theta hdim st = (done', st')"
  shows "table_ok F st'" and "done' \<longleftrightarrow> sync_ok \<and> copy_ok \<or> f_equal F (if_theta st) theta \<and> if_num_pairs st = hdim div 2"
    and "done' \<Longrightarrow> d \<in> {0..<hdim div 2} \<Longrightarrow> g_inv_freq st' d = inv_freq F theta hdim d" and "\<not> done' \<Longrightarrow> st' = st"
proof -
  have up: "table_ok F \<lparr>if_theta = theta, if_num_pairs = hdim div 2,
      g_inv_freq = (\<lambda>d. if 0 \<le> d \<and> d < hdim div 2 then inv_freq F theta hdim d else g_inv_freq st d)\<rparr>"
    unfolding table_ok_def
  proof (intro allI impI ballI)
    fix theta' hdim' d
    assume a: "f_equal F (if_theta \<lparr>if_theta = theta, if_num_pairs = hdim div 2,
      g_inv_freq = (\<lambda>d. if 0 \<le> d \<and> d < hdim div 2 then inv_freq F theta hdim d else g_inv_freq st d)\<rparr>) theta' \<and>
      \<not> not_positive F theta' \<and> 0 < hdim' \<and> hdim' mod 2 = 0 \<and> if_num_pairs \<lparr>if_theta = theta, if_num_pairs = hdim div 2,
      g_inv_freq = (\<lambda>d. if 0 \<le> d \<and> d < hdim div 2 then inv_freq F theta hdim d else g_inv_freq st d)\<rparr> = hdim' div 2"
      and d: "d \<in> {0..<hdim' div 2}"
    then have "hdim' = hdim" using assms(5) by (auto elim!: evenE simp: even_iff_mod_2_eq_zero[symmetric])
    moreover have "theta = theta'" using a assms(2) by (auto simp: equal_positive_def)
    ultimately show "g_inv_freq \<lparr>if_theta = theta, if_num_pairs = hdim div 2,
      g_inv_freq = (\<lambda>d. if 0 \<le> d \<and> d < hdim div 2 then inv_freq F theta hdim d else g_inv_freq st d)\<rparr> d = inv_freq F theta' hdim' d"
      using d by simp
  qed
  show "table_ok F st'" using assms(1,6) up by (auto simp: EnsureInvFreqTable_def Let_def split: if_splits)
  show "done' \<longleftrightarrow> sync_ok \<and> copy_ok \<or> f_equal F (if_theta st) theta \<and> if_num_pairs st = hdim div 2"
    using assms(6) by (auto simp: EnsureInvFreqTable_def Let_def split: if_splits)
  show "\<not> done' \<Longrightarrow> st' = st" using assms(6) by (auto simp: EnsureInvFreqTable_def Let_def split: if_splits)
  assume "done'" and d: "d \<in> {0..<hdim div 2}"
  then show "g_inv_freq st' d = inv_freq F theta hdim d"
    using assms(1,3-6) by (auto simp: EnsureInvFreqTable_def Let_def table_ok_def split: if_splits)
qed

section \<open>What a launch does\<close>

text \<open>No two elements of the head rows share an address.\<close>

definition rope_apart :: "RopeArgs \<Rightarrow> bool" where
  "rope_apart a \<longleftrightarrow> inj_on (\<lambda>(r, h, i). HeadBase a r h + i)
     ({0..<ro_num_tokens a} \<times> {0..<ro_num_q_heads a + ro_num_kv_heads a} \<times> {0..<ro_head_dim a})"

lemma rope_pair_simps:
  "step_reads (rope_pair F table a (r, h, d)) = [HeadBase a r h + d, HeadBase a r h + (d + ro_head_dim a div 2)]"
  "step_writes (rope_pair F table a (r, h, d)) = [HeadBase a r h + d, HeadBase a r h + (d + ro_head_dim a div 2)]"
  by (simp_all add: rope_pair_def RotatePair_def Let_def split_def)

lemma rope_pairs_run:
  assumes "distinct ps" "set ps = rope_pairs a" "schedule (length ps) es" "rope_apart a" "ro_head_dim a mod 2 = 0"
    and x: "(r, h, d) \<in> rope_pairs a"
  shows "map (run_events (map (rope_pair F table a) ps) es m) [HeadBase a r h + d, HeadBase a r h + (d + ro_head_dim a div 2)] =
    step_compute (rope_pair F table a (r, h, d)) (map m [HeadBase a r h + d, HeadBase a r h + (d + ro_head_dim a div 2)])"
proof -
  have even: "2 * (ro_head_dim a div 2) = ro_head_dim a" using assms(5) by auto
  have "map (run_events (map (rope_pair F table a) ps) es m) (step_writes (rope_pair F table a (r, h, d))) =
      step_compute (rope_pair F table a (r, h, d)) (map m (step_reads (rope_pair F table a (r, h, d))))"
  proof (rule indexed_step[OF assms(3,1)])
    show "(r, h, d) \<in> set ps" using x assms(2) by simp
    have "ro_head_dim a div 2 \<noteq> 0" using x by (auto simp: rope_pairs_def)
    then show "step_ok (rope_pair F table a (r, h, d))"
      unfolding step_ok_def rope_pair_simps by (auto simp: rope_pair_def RotatePair_def Let_def split: prod.splits)
    fix y
    assume y: "y \<in> set ps" "y \<noteq> (r, h, d)"
    obtain r' h' d' where y': "y = (r', h', d')" by (cases y)
    have r: "(r', h', d') \<in> rope_pairs a" using y y' assms(2) by simp
    have ne: "HeadBase a r' h' + i' \<noteq> HeadBase a r h + i"
      if "i' \<in> {d', d' + ro_head_dim a div 2}" "i \<in> {d, d + ro_head_dim a div 2}" for i' i
    proof
      assume e: "HeadBase a r' h' + i' = HeadBase a r h + i"
      have "(r', h', i') = (r, h, i)"
        by (rule inj_onD[OF assms(4)[unfolded rope_apart_def]]) (use e r x that even in \<open>auto simp: rope_pairs_def\<close>)
      moreover from this have "d' = d" using that r x by (auto simp: rope_pairs_def)
      ultimately show False using y(2) y' by simp
    qed
    show "set (step_writes (rope_pair F table a y)) \<inter>
        (set (step_reads (rope_pair F table a (r, h, d))) \<union> set (step_writes (rope_pair F table a (r, h, d)))) = {}"
      unfolding y' rope_pair_simps using ne by (auto simp: add.assoc)
  qed
  then show ?thesis by (simp only: rope_pair_simps)
qed

definition rope_valid :: "'f FloatOps \<Rightarrow> RopeArgs \<Rightarrow> 'f \<Rightarrow> bool" where
  "rope_valid F a theta \<longleftrightarrow> 0 < ro_num_tokens a \<and> 0 \<le> ro_num_q_heads a \<and> 0 \<le> ro_num_kv_heads a \<and>
     0 < ro_num_q_heads a + ro_num_kv_heads a \<and> 0 < ro_head_dim a \<and> ro_head_dim a mod 2 = 0 \<and> ro_head_dim a div 2 \<le> 64 \<and>
     \<not> not_positive F theta"

text \<open>
  C30: The rotation does not depend on the mapping. When the record of the frequency table is true it
  stays true. A launch with valid arguments whose table is cached or can be uploaded rotates, on
  either mapping and in any order of the threads, each pair of each head row of Q and K exactly once,
  by the rounded cosine and sine of its position times the frequency of the pair, and changes no
  other address; any other launch does nothing.
\<close>

theorem rope_exact:
  assumes "table_ok F st" and "equal_positive F" and "rope_apart a"
    and "LaunchRopeInplace F major sync_ok copy_ok a theta st = (ss, st')" and "schedule (length ss) es"
    and "half_dim = ro_head_dim a div 2"
  shows "table_ok F st' \<and>
    (if rope_valid F a theta \<and>
        (sync_ok \<and> copy_ok \<or> f_equal F (if_theta st) theta \<and> if_num_pairs st = half_dim)
     then (\<forall>r\<in>{0..<ro_num_tokens a}. \<forall>h\<in>{0..<ro_num_q_heads a + ro_num_kv_heads a}. \<forall>d\<in>{0..<half_dim}.
             (run_events ss es m (HeadBase a r h + d), run_events ss es m (HeadBase a r h + (d + half_dim))) =
               (case rounded_sincos F (f_mul F (int2float F (ro_positions a r)) (inv_freq F theta (ro_head_dim a) d)) of
                  (c, s) \<Rightarrow> rotated F c s (m (HeadBase a r h + d)) (m (HeadBase a r h + (d + half_dim))))) \<and>
          (\<forall>x. (\<forall>r\<in>{0..<ro_num_tokens a}. \<forall>h\<in>{0..<ro_num_q_heads a + ro_num_kv_heads a}. \<forall>i\<in>{0..<ro_head_dim a}.
             x \<noteq> HeadBase a r h + i) \<longrightarrow> run_events ss es m x = m x)
     else ss = [] \<and> st' = st)"
proof (cases "rope_valid F a theta")
  case False
  then have "ss = [] \<and> st' = st"
    using assms(4) by (auto simp: LaunchRopeInplace_def Let_def kMaxRotaryPairs_def rope_valid_def split: if_splits)
  then show ?thesis using False assms(1) by simp
next
  case v: True
  then have valid: "0 < ro_num_tokens a" "0 \<le> ro_num_q_heads a" "0 \<le> ro_num_kv_heads a" "0 < ro_num_q_heads a + ro_num_kv_heads a"
    "0 < ro_head_dim a" "ro_head_dim a mod 2 = 0" "ro_head_dim a div 2 \<le> 64" "\<not> not_positive F theta"
    by (simp_all add: rope_valid_def)
  let ?total = "ro_num_q_heads a + ro_num_kv_heads a"
  obtain ok st1 where e: "EnsureInvFreqTable F sync_ok copy_ok theta (ro_head_dim a) st = (ok, st1)" by fastforce
  have t: "table_ok F st1" "ok \<longleftrightarrow> sync_ok \<and> copy_ok \<or> f_equal F (if_theta st) theta \<and> if_num_pairs st = half_dim"
    "\<And>d. ok \<Longrightarrow> d \<in> {0..<half_dim} \<Longrightarrow> g_inv_freq st1 d = inv_freq F theta (ro_head_dim a) d" "\<not> ok \<Longrightarrow> st1 = st"
    using EnsureInvFreqTable_ok[OF assms(1,2) _ _ _ e] valid by (auto simp: assms(6))
  have l: "(ss, st') = (if ok then if major \<ge> 8
         then (RopeInplaceSharedKernel F (g_inv_freq st1) a ?total ((?total + kHeadsPerBlockSm80 - 1) div kHeadsPerBlockSm80), st1)
         else (RopeInplaceKernel F (g_inv_freq st1) a ?total, st1) else ([], st1))"
    using assms(4) valid e by (auto simp: LaunchRopeInplace_def Let_def kMaxRotaryPairs_def kHeadsPerBlockSm80_def assms(6) split: if_splits)
  show ?thesis
  proof (cases ok)
    case False
    then have s: "ss = [] \<and> st' = st" using l t(4) by simp
    have c: "\<not> (rope_valid F a theta \<and> (sync_ok \<and> copy_ok \<or> f_equal F (if_theta st) theta \<and> if_num_pairs st = half_dim))"
      using t(2) False by blast
    show ?thesis unfolding if_not_P[OF c] using s assms(1) by blast
  next
    case True
    have "0 < ro_head_dim a div 2" using valid by auto
    then obtain ps where ps: "distinct ps" "set ps = rope_pairs a" "ss = map (rope_pair F (g_inv_freq st1) a) ps"
      using l True RopeInplaceSharedKernel_pairs[of a F "g_inv_freq st1"] RopeInplaceKernel_pairs[of a F "g_inv_freq st1"] valid
      by (cases "major \<ge> 8") auto
    have sched: "schedule (length ps) es" using assms(5) ps(3) by simp
    have pair: "(run_events ss es m (HeadBase a r h + d), run_events ss es m (HeadBase a r h + (d + half_dim))) =
               (case rounded_sincos F (f_mul F (int2float F (ro_positions a r)) (inv_freq F theta (ro_head_dim a) d)) of
                  (c, s) \<Rightarrow> rotated F c s (m (HeadBase a r h + d)) (m (HeadBase a r h + (d + half_dim))))"
      if "r \<in> {0..<ro_num_tokens a}" "h \<in> {0..<?total}" "d \<in> {0..<half_dim}" for r h d
    proof -
      have x: "(r, h, d) \<in> rope_pairs a" using that by (simp add: rope_pairs_def assms(6))
      show ?thesis
        using rope_pairs_run[OF ps(1,2) sched assms(3) _ x, of F "g_inv_freq st1" m] valid t(3)[OF True that(3)]
        by (simp add: ps(3) assms(6) rope_pair_def RotatePair_def Let_def split: prod.splits)
    qed
    have other: "run_events ss es m x = m x"
      if "\<forall>r\<in>{0..<ro_num_tokens a}. \<forall>h\<in>{0..<?total}. \<forall>i\<in>{0..<ro_head_dim a}. x \<noteq> HeadBase a r h + i" for x
      unfolding ps(3)
    proof (rule indexed_untouched[OF sched])
      fix y
      assume "y \<in> set ps"
      then have "y \<in> rope_pairs a" by (simp only: ps(2))
      then obtain r h d where y: "y = (r, h, d)" "(r, h, d) \<in> rope_pairs a" by (cases y) blast
      have "2 * (ro_head_dim a div 2) = ro_head_dim a" using valid by auto
      then have "d \<in> {0..<ro_head_dim a}" "d + ro_head_dim a div 2 \<in> {0..<ro_head_dim a}" using y(2) by (auto simp: rope_pairs_def)
      then show "x \<notin> set (step_writes (rope_pair F (g_inv_freq st1) a y))"
        unfolding y(1) rope_pair_simps using that y(2) by (auto simp: rope_pairs_def)
    qed
    show ?thesis using pair other t(1,2) True v l by (auto split: if_splits)
  qed
qed

definition demo_rope :: RopeArgs where
  "demo_rope = \<lparr>ro_q = 0, ro_k = 1536, ro_q_row_stride = 2048, ro_k_row_stride = 2048, ro_positions = (\<lambda>r. 10 + r),
     ro_num_tokens = 3, ro_num_q_heads = 12, ro_num_kv_heads = 2, ro_head_dim = 128\<rparr>"

theorem rope_exact_witness:
  "\<exists>ss st'. LaunchRopeInplace int_ops 8 True True demo_rope 1 \<lparr>if_theta = 0, if_num_pairs = 0, g_inv_freq = (\<lambda>_. 0)\<rparr> = (ss, st') \<and>
     table_ok int_ops st' \<and> run_events ss (sequential (length ss)) (\<lambda>a. word_of_int a) 3587 = 28962"
proof -
  let ?st = "\<lparr>if_theta = 0 :: int, if_num_pairs = 0, g_inv_freq = (\<lambda>_. 0)\<rparr>"
  obtain ss st' where l: "LaunchRopeInplace int_ops 8 True True demo_rope 1 ?st = (ss, st')" by fastforce
  have t: "table_ok int_ops ?st" and p: "equal_positive int_ops"
    by (auto simp: table_ok_def equal_positive_def int_ops_def not_positive_def)
  have hb: "HeadBase demo_rope r h = (r * 16 + h) * 128" for r h by (simp add: HeadBase_def demo_rope_def algebra_simps)
  have f: "ro_num_tokens demo_rope = 3" "ro_num_q_heads demo_rope + ro_num_kv_heads demo_rope = 14" "ro_head_dim demo_rope = 128"
    "ro_positions demo_rope 1 = 11" by (simp_all add: demo_rope_def)
  have apart: "rope_apart demo_rope"
    unfolding rope_apart_def hb f
  proof (rule inj_onI, elim SigmaE, hypsubst, unfold prod.case)
    fix r h i r' h' i' :: int
    assume a: "r \<in> {0..<3}" "h \<in> {0..<14}" "i \<in> {0..<128}" "r' \<in> {0..<3}" "h' \<in> {0..<14}" "i' \<in> {0..<128}"
      "(r * 16 + h) * 128 + i = (r' * 16 + h') * 128 + i'"
    have 1: "r * 16 + h = r' * 16 + h' \<and> i = i'" by (rule digits_unique[OF a(7)]) (use a in auto)
    then have "r = r' \<and> h = h'" by (intro digits_unique[of r 16 h r' h']) (use a in auto)
    then show "(r, h, i) = (r', h', i')" using 1 by simp
  qed
  have v: "rope_valid int_ops demo_rope 1" by (simp add: rope_valid_def demo_rope_def int_ops_def not_positive_def)
  note r = rope_exact[OF t p apart l schedule_sequential refl, where m = "\<lambda>a. word_of_int a"]
  have c: "rope_valid int_ops demo_rope 1 \<and>
      (True \<and> True \<or> f_equal int_ops (if_theta ?st) 1 \<and> if_num_pairs ?st = ro_head_dim demo_rope div 2)" using v by blast
  note r[THEN conjunct2, unfolded if_P[OF c], THEN conjunct1, THEN bspec, of 1, THEN bspec, of 12, THEN bspec, of 3]
  then have "run_events ss (sequential (length ss)) (\<lambda>a. word_of_int a) (HeadBase demo_rope 1 12 + 3) = 28962"
    by (simp add: f hb rounded_sincos_def int_ops_def inv_freq_def rotated_def Let_def)
  then show ?thesis using l r by (simp add: hb)
qed

end
