(* ===== verification/Warp.thy ===== *)
theory Warp
  imports Loops "HOL-Library.Word"
begin

text \<open>
  Lanes of a warp. A shuffle exchanges the values of the lanes \<open>t\<close> and \<open>t XOR offset\<close>; an offset
  below 32 keeps a thread in its warp of 32.
\<close>

unbundle bit_operations_syntax

lemma xor_div: "m < 32 \<Longrightarrow> (t XOR m) div 32 = t div 32" for t m :: nat
proof -
  assume "m < 32"
  then have "drop_bit 5 m = 0" by (simp add: drop_bit_eq_div)
  then have "drop_bit 5 (t XOR m) = drop_bit 5 t" by simp
  then show ?thesis by (simp add: drop_bit_eq_div)
qed

lemma xor_below: "32 dvd n \<Longrightarrow> t < n \<Longrightarrow> m < 32 \<Longrightarrow> t XOR m < n" for t m n :: nat
proof -
  assume a: "32 dvd n" "t < n" "m < 32"
  then obtain q where q: "n = 32 * q" by blast
  then have "(t XOR m) div 32 < q" using xor_div[OF a(3)] a(2) by (simp add: less_mult_imp_div_less mult.commute)
  then show ?thesis using q by (metis div_less_iff_less_mult mult.commute zero_less_numeral)
qed

lemma xor_cancel: "t XOR (t XOR m) = m" for t m :: nat
  by (simp flip: xor.assoc)

lemma xor_image: "(XOR) t ` {..<32} = {s. s div 32 = t div 32}" for t :: nat
proof (intro equalityI subsetI)
  fix s
  assume "s \<in> (XOR) t ` {..<32}"
  then show "s \<in> {s. s div 32 = t div 32}" using xor_div by auto
next
  fix s
  assume "s \<in> {s. s div 32 = t div 32}"
  then have "drop_bit 5 s = drop_bit 5 t" by (simp add: drop_bit_eq_div)
  then have "drop_bit 5 (t XOR s) = 0" by simp
  then have "t XOR s < 32" by (simp add: drop_bit_eq_div div_eq_0_iff)
  then show "s \<in> (XOR) t ` {..<32}" using xor_cancel[of t s] by (metis image_eqI lessThan_iff)
qed

end
