(* ===== verification/Argmax.thy ===== *)
theory Argmax
  imports Convert Warp "HOL-Library.Product_Lexorder"
begin

text \<open>
  Greedy sampling, \<^verbatim>\<open>src/src/kernels/argmax.cu\<close>: the ordering predicate, the two-stage block
  reduction, the vector kernel with its two block sizes, the scalar kernel and the launcher.

  A half converted to float is exact, so a float is modelled by its value in units of the smallest
  subnormal half; a NaN is \<open>None\<close>, and the infinities have the next value of the binade above the
  largest finite one, which orders them as IEEE does.
\<close>

unbundle bit_operations_syntax

type_synonym float_value = "int option"

definition half2float_value :: "16 word \<Rightarrow> float_value" where
  "half2float_value b =
     (if IsNanFp16Bits b then None
      else Some ((if bit b 15 then - 1 else 1) * int (fp16_value (unat (take_bit 15 b)))))"

definition neg_inf :: float_value where
  "neg_inf = Some (- int (fp16_value 0x7C00))"

fun ieee_greater :: "float_value \<Rightarrow> float_value \<Rightarrow> bool" where
  "ieee_greater (Some x) (Some y) = (x > y)"
| "ieee_greater _ _ = False"

fun ieee_equal :: "float_value \<Rightarrow> float_value \<Rightarrow> bool" where
  "ieee_equal (Some x) (Some y) = (x = y)"
| "ieee_equal _ _ = False"

type_synonym champion = "float_value \<times> nat"

definition Better :: "float_value \<Rightarrow> nat \<Rightarrow> float_value \<Rightarrow> nat \<Rightarrow> bool" where
  "Better v i best_v best_i \<longleftrightarrow> ieee_greater v best_v \<or> (ieee_equal v best_v \<and> i < best_i)"

definition adopt :: "champion \<Rightarrow> champion \<Rightarrow> champion" where
  "adopt other best = (if Better (fst other) (snd other) (fst best) (snd best) then other else best)"

section \<open>Block reduction\<close>

text \<open>
  One stage of the shuffle tree: every lane reads the champion of its partner before any lane adopts.
\<close>

definition shfl_stage :: "nat \<Rightarrow> champion list \<Rightarrow> champion list" where
  "shfl_stage offset xs = map (\<lambda>t. adopt (xs ! (t XOR offset)) (xs ! t)) [0..<length xs]"

definition BlockReduceArgmax :: "nat \<Rightarrow> champion list \<Rightarrow> champion" where
  "BlockReduceArgmax block champions =
     (let warps = block div 32;
          lanes = fold shfl_stage [16, 8, 4, 2, 1] champions;
          warp = map (\<lambda>w. lanes ! (32 * w)) [0..<warps]
      in fold (\<lambda>w best. adopt (warp ! w) best) [1..<warps] (lanes ! 0))"

section \<open>Kernels\<close>

definition kBlockThreadsSm80 :: nat where "kBlockThreadsSm80 = 1024"
definition argmax_kBlockThreads :: nat where "argmax_kBlockThreads = 256"

definition scan_word :: "(nat \<Rightarrow> float_value) \<Rightarrow> nat \<Rightarrow> champion \<Rightarrow> champion" where
  "scan_word row w best = (let base = push_bit 3 w in fold (\<lambda>l best. adopt (row (base + l), base + l) best) [0..<8] best)"

definition GreedyArgmaxVecKernel :: "nat \<Rightarrow> (nat \<Rightarrow> float_value) \<Rightarrow> nat \<Rightarrow> nat" where
  "GreedyArgmaxVecKernel block row vocab =
     (let words = drop_bit 3 vocab;
          champions = map (\<lambda>tid. fold (scan_word row) (strided block words tid) (neg_inf, vocab)) [0..<block];
          best_i = snd (BlockReduceArgmax block champions)
      in if best_i \<ge> vocab then 0 else best_i)"

definition GreedyArgmaxKernel :: "(nat \<Rightarrow> float_value) \<Rightarrow> nat \<Rightarrow> nat" where
  "GreedyArgmaxKernel row vocab =
     (let champions = map (\<lambda>tid. fold (\<lambda>c best. adopt (row c, c) best) (strided argmax_kBlockThreads vocab tid) (neg_inf, vocab))
                          [0..<argmax_kBlockThreads];
          best_i = snd (BlockReduceArgmax argmax_kBlockThreads champions)
      in if best_i \<ge> vocab then 0 else best_i)"

text \<open>Each block writes the token of its row.\<close>

definition LaunchGreedyArgmax :: "int \<Rightarrow> int \<Rightarrow> (int \<Rightarrow> 16 word) \<Rightarrow> int \<Rightarrow> int \<Rightarrow> (int \<Rightarrow> int) \<Rightarrow> int \<Rightarrow> int" where
  "LaunchGreedyArgmax compute_major logits m num_seqs vocab out =
     (if num_seqs \<le> 0 \<or> vocab \<le> 0 then out
      else
        let row = (\<lambda>r c. half2float_value (m (logits + r * vocab + int c)));
            vectorizable = (vocab mod 8 = 0 \<and> (2 * logits) mod 16 = 0);
            kernel = (if vectorizable
                      then if compute_major \<ge> 8 then GreedyArgmaxVecKernel kBlockThreadsSm80
                           else GreedyArgmaxVecKernel argmax_kBlockThreads
                      else GreedyArgmaxKernel)
        in fold (\<lambda>r out. out(r := int (kernel (row r) (nat vocab)))) [0..num_seqs - 1] out)"

section \<open>The order of champions\<close>

text \<open>
  An incumbent is never a NaN. Champions are ordered by value and then by the lower index; adopting is
  taking the maximum, and a NaN never wins.
\<close>

definition rank :: "champion \<Rightarrow> int \<times> int" where
  "rank c = (the (fst c), - int (snd c))"

lemma rank_inj: "fst a \<noteq> None \<Longrightarrow> fst b \<noteq> None \<Longrightarrow> rank a = rank b \<Longrightarrow> a = b"
  by (cases a; cases b) (auto simp: rank_def)

lemma adopt_real:
  assumes "fst best \<noteq> None" and "fst other \<noteq> None"
  shows "fst (adopt other best) \<noteq> None \<and> rank (adopt other best) = max (rank other) (rank best)"
proof -
  obtain x i y j where e: "other = (Some x, i)" "best = (Some y, j)" using assms by (cases other; cases best) auto
  show ?thesis by (auto simp: e adopt_def Better_def rank_def max_def less_eq_prod_def)
qed

lemma adopt_nan: "fst other = None \<Longrightarrow> adopt other best = best"
  by (cases other) (simp add: adopt_def Better_def)

lemma Max_insert_max:
  fixes A :: "'a::linorder set"
  assumes "finite A" shows "Max (insert (max a b) A) = Max (insert b (insert a A))"
  by (cases "A = {}") (use assms in \<open>simp_all add: max.assoc max.left_commute max.commute\<close>)

lemma Max_UN:
  fixes W :: "'i \<Rightarrow> 'a::linorder set"
  assumes "finite I" "I \<noteq> {}" "\<And>i. i \<in> I \<Longrightarrow> finite (W i) \<and> W i \<noteq> {}"
  shows "Max ((\<lambda>i. Max (W i)) ` I) = Max (\<Union>i\<in>I. W i)"
proof (rule Max_eqI[symmetric])
  show "finite (\<Union>i\<in>I. W i)" using assms by (intro finite_UN_I) auto
  show "y \<le> Max ((\<lambda>i. Max (W i)) ` I)" if y: "y \<in> (\<Union>i\<in>I. W i)" for y
  proof -
    from y obtain i where i: "i \<in> I" "y \<in> W i" by (elim UN_E)
    have "y \<le> Max (W i)" by (rule Max_ge) (use i assms(3) in simp_all)
    also have "\<dots> \<le> Max ((\<lambda>i. Max (W i)) ` I)" by (rule Max_ge) (use i(1) assms(1) in simp_all)
    finally show ?thesis .
  qed
  have "Max ((\<lambda>i. Max (W i)) ` I) \<in> (\<lambda>i. Max (W i)) ` I" by (rule Max_in) (use assms(1,2) in simp_all)
  then obtain i where i: "i \<in> I" "Max ((\<lambda>i. Max (W i)) ` I) = Max (W i)" by (elim imageE)
  have "Max (W i) \<in> W i" by (rule Max_in) (use i(1) assms(3) in simp_all)
  then show "Max ((\<lambda>i. Max (W i)) ` I) \<in> (\<Union>i\<in>I. W i)" unfolding i(2) by (rule UN_I[OF i(1)])
qed

lemma fold_adopt:
  assumes "fst best \<noteq> None"
  shows "fst (fold (\<lambda>x best. adopt (g x) best) xs best) \<noteq> None \<and>
    rank (fold (\<lambda>x best. adopt (g x) best) xs best) = Max (insert (rank best) {rank (g x) | x. x \<in> set xs \<and> fst (g x) \<noteq> None})"
  using assms
proof (induction xs arbitrary: best)
  case (Cons x xs)
  show ?case
  proof (cases "fst (g x) = None")
    case True
    have "{rank (g y) | y. y \<in> set (x # xs) \<and> fst (g y) \<noteq> None} = {rank (g y) | y. y \<in> set xs \<and> fst (g y) \<noteq> None}"
      using True by auto
    then show ?thesis using Cons.IH[OF Cons.prems] by (simp add: adopt_nan[OF True])
  next
    case False
    note a = adopt_real[OF Cons.prems False]
    have s: "{rank (g y) | y. y \<in> set (x # xs) \<and> fst (g y) \<noteq> None} = insert (rank (g x)) {rank (g y) | y. y \<in> set xs \<and> fst (g y) \<noteq> None}"
      using False by auto
    have "Max (insert (max (rank (g x)) (rank best)) {rank (g y) | y. y \<in> set xs \<and> fst (g y) \<noteq> None}) =
      Max (insert (rank best) (insert (rank (g x)) {rank (g y) | y. y \<in> set xs \<and> fst (g y) \<noteq> None}))"
      by (rule Max_insert_max) simp
    then have "Max (insert (max (rank (g x)) (rank best)) {rank (g y) | y. y \<in> set xs \<and> fst (g y) \<noteq> None}) =
      Max (insert (rank best) {rank (g y) | y. y \<in> set (x # xs) \<and> fst (g y) \<noteq> None})" by (simp only: s)
    moreover have "fst (fold (\<lambda>x best. adopt (g x) best) xs (adopt (g x) best)) \<noteq> None \<and>
      rank (fold (\<lambda>x best. adopt (g x) best) xs (adopt (g x) best)) =
        Max (insert (rank (adopt (g x) best)) {rank (g x) | x. x \<in> set xs \<and> fst (g x) \<noteq> None})"
      by (rule Cons.IH) (use a in blast)
    ultimately show ?thesis using a by (simp only: fold_simps comp_apply simp_thms)
  qed
qed simp

section \<open>The shuffle tree\<close>

text \<open>Lane \<open>t\<close> holds the best of the lanes \<open>t XOR m\<close>.\<close>

definition lanes_hold :: "champion list \<Rightarrow> nat set \<Rightarrow> champion list \<Rightarrow> bool" where
  "lanes_hold ys M xs \<longleftrightarrow> length xs = length ys \<and>
     (\<forall>t<length ys. fst (xs ! t) \<noteq> None \<and> rank (xs ! t) = Max ((\<lambda>m. rank (ys ! (t XOR m))) ` M))"

lemma shfl_stage_holds:
  assumes "lanes_hold ys M xs" and "32 dvd length ys" and "offset < 32" and "finite M" "M \<noteq> {}"
  shows "lanes_hold ys (M \<union> (XOR) offset ` M) (shfl_stage offset xs)"
  unfolding lanes_hold_def
proof (intro conjI allI impI)
  show "length (shfl_stage offset xs) = length ys" using assms(1) by (simp add: shfl_stage_def lanes_hold_def)
  fix t
  assume t: "t < length ys"
  have l: "length xs = length ys" using assms(1) by (simp add: lanes_hold_def)
  have to: "t XOR offset < length ys" by (rule xor_below[OF assms(2) t assms(3)])
  have h: "fst (xs ! s) \<noteq> None" "rank (xs ! s) = Max ((\<lambda>m. rank (ys ! (s XOR m))) ` M)" if "s < length ys" for s
    using assms(1) that by (auto simp: lanes_hold_def)
  have n: "shfl_stage offset xs ! t = adopt (xs ! (t XOR offset)) (xs ! t)" using t l by (simp add: shfl_stage_def)
  note a = adopt_real[OF h(1)[OF t] h(1)[OF to]]
  show "fst (shfl_stage offset xs ! t) \<noteq> None" using a n by simp
  have "(\<lambda>m. rank (ys ! (t XOR m))) ` (M \<union> (XOR) offset ` M) =
      (\<lambda>m. rank (ys ! ((t XOR offset) XOR m))) ` M \<union> (\<lambda>m. rank (ys ! (t XOR m))) ` M"
    by (auto simp: image_Un image_image xor.assoc)
  then have "Max ((\<lambda>m. rank (ys ! (t XOR m))) ` (M \<union> (XOR) offset ` M)) =
      max (Max ((\<lambda>m. rank (ys ! ((t XOR offset) XOR m))) ` M)) (Max ((\<lambda>m. rank (ys ! (t XOR m))) ` M))"
    using assms(4,5) by (simp add: Max_Un)
  then show "rank (shfl_stage offset xs ! t) = Max ((\<lambda>m. rank (ys ! (t XOR m))) ` (M \<union> (XOR) offset ` M))"
    using a n h(2)[OF t] h(2)[OF to] by simp
qed

lemma tree_holds:
  assumes "32 dvd length ys" and "\<forall>t<length ys. fst (ys ! t) \<noteq> None"
  shows "lanes_hold ys {..<32} (fold shfl_stage [16, 8, 4, 2, 1] ys)"
proof -
  define step where "step = (\<lambda>offset :: nat. \<lambda>M. M \<union> (XOR) offset ` M)"
  have s: "lanes_hold ys (step offset M) (shfl_stage offset xs) \<and> finite (step offset M) \<and> step offset M \<noteq> {}"
    if "lanes_hold ys M xs \<and> finite M \<and> M \<noteq> {}" "offset < 32" for offset M xs
    using shfl_stage_holds[OF _ assms(1) that(2)] that by (simp add: step_def)
  have "lanes_hold ys {0} ys \<and> finite {0 :: nat} \<and> {0 :: nat} \<noteq> {}" using assms(2) by (simp add: lanes_hold_def)
  then have "lanes_hold ys (step 1 (step 2 (step 4 (step 8 (step 16 {0})))))
      (shfl_stage 1 (shfl_stage 2 (shfl_stage 4 (shfl_stage 8 (shfl_stage 16 ys)))))"
    by (intro conjunct1[OF s] s) simp_all
  then have "lanes_hold ys (step 1 (step 2 (step 4 (step 8 (step 16 {0}))))) (fold shfl_stage [16, 8, 4, 2, 1] ys)"
    by (simp only: fold_simps)
  moreover have "step 1 (step 2 (step 4 (step 8 (step 16 {0})))) = {..<32}"
    unfolding step_def by code_simp
  ultimately show ?thesis by simp
qed

lemma BlockReduceArgmax_best:
  assumes "length ys = block" "32 dvd block" "0 < block" "\<forall>y\<in>set ys. fst y \<noteq> None"
  shows "fst (BlockReduceArgmax block ys) \<noteq> None \<and> rank (BlockReduceArgmax block ys) = Max (rank ` set ys)"
proof -
  define lanes where "lanes = fold shfl_stage [16, 8, 4, 2, 1] ys"
  have real: "\<forall>t<length ys. fst (ys ! t) \<noteq> None" using assms(4) by simp
  have lanes: "fst (lanes ! t) \<noteq> None" "rank (lanes ! t) = Max ((\<lambda>s. rank (ys ! s)) ` {s. s div 32 = t div 32})" if "t < block" for t
    using tree_holds[OF _ real] assms(1,2) that
    by (auto simp: lanes_hold_def lanes_def image_image[of "\<lambda>s. rank (ys ! s)" "(XOR) t", symmetric] xor_image)
  obtain q where q: "block = 32 * q" "0 < q" using assms(2,3) by (metis dvdE gr0I mult_0_right less_irrefl)
  define warp where "warp = map (\<lambda>w. lanes ! (32 * w)) [0..<q]"
  have res: "BlockReduceArgmax block ys = fold (\<lambda>w best. adopt (warp ! w) best) [1..<q] (lanes ! 0)"
    unfolding BlockReduceArgmax_def Let_def lanes_def[symmetric] by (simp add: warp_def q)
  define W where "W = (\<lambda>w. (\<lambda>s. rank (ys ! s)) ` {s. s div 32 = w})"
  have wk: "fst (warp ! w) \<noteq> None \<and> rank (warp ! w) = Max (W w)" if "w < q" for w
    using lanes[of "32 * w"] that q by (simp add: warp_def W_def)
  have 0: "fst (lanes ! 0) \<noteq> None" "rank (lanes ! 0) = Max (W 0)" using lanes[of 0] assms(3) by (simp_all add: W_def)
  have f: "fst (BlockReduceArgmax block ys) \<noteq> None \<and>
      rank (BlockReduceArgmax block ys) = Max (insert (rank (lanes ! 0)) {rank (warp ! w) | w. w \<in> set [1..<q] \<and> fst (warp ! w) \<noteq> None})"
    unfolding res by (rule fold_adopt[OF 0(1)])
  have "insert (rank (lanes ! 0)) {rank (warp ! w) | w. w \<in> set [1..<q] \<and> fst (warp ! w) \<noteq> None} = (\<lambda>w. Max (W w)) ` {0..<q}"
  proof -
    have "{rank (warp ! w) | w. w \<in> set [1..<q] \<and> fst (warp ! w) \<noteq> None} = (\<lambda>w. Max (W w)) ` {1..<q}"
      using wk by (auto simp: image_iff) (metis One_nat_def Suc_leI atLeastLessThan_iff)+
    moreover have "{0..<q} = insert 0 {1..<q}" using q(2) by auto
    ultimately show ?thesis using 0(2) by simp
  qed
  moreover have "Max ((\<lambda>w. Max (W w)) ` {0..<q}) = Max (\<Union>w\<in>{0..<q}. W w)"
  proof -
    have fin: "finite (W w) \<and> W w \<noteq> {}" for w
    proof -
      have "{s. s div 32 = w} = {32 * w..<32 * w + 32}" by auto
      then show ?thesis by (simp add: W_def)
    qed
    show ?thesis by (rule Max_UN) (use fin q(2) in simp_all)
  qed
  moreover have "(\<Union>w\<in>{0..<q}. W w) = rank ` set ys"
  proof -
    have "(\<Union>w\<in>{0..<q}. W w) = (\<lambda>s. rank (ys ! s)) ` {0..<block}"
    proof -
      have "(\<Union>w\<in>{0..<q}. {s. s div 32 = w}) = {0..<block}" by (auto simp: q div_less_iff_less_mult mult.commute)
      then show ?thesis unfolding W_def by (simp only: image_UN[symmetric])
    qed
    also have "\<dots> = rank ` ((!) ys ` {0..<length ys})" by (simp add: image_image assms(1))
    also have "(!) ys ` {0..<length ys} = set ys" by (metis list.set_map map_nth set_upt)
    finally show ?thesis .
  qed
  ultimately show ?thesis using f by simp
qed

section \<open>The kernels\<close>

definition candidates :: "(nat \<Rightarrow> float_value) \<Rightarrow> nat set \<Rightarrow> (int \<times> int) set" where
  "candidates row C = {rank (row c, c) | c. c \<in> C \<and> row c \<noteq> None}"

lemma finite_candidates: "finite C \<Longrightarrow> finite (candidates row C)"
  by (simp add: candidates_def)

text \<open>Threads whose columns cover the row leave the best champion, or the sentinel.\<close>

lemma block_best:
  assumes "length ys = block" "32 dvd block" "0 < block" "(\<Union>tid\<in>{0..<block}. C tid) = {0..<vocab}"
    and y: "\<And>tid. tid < block \<Longrightarrow> fst (ys ! tid) \<noteq> None \<and> rank (ys ! tid) = Max (insert (rank (neg_inf, vocab)) (candidates row (C tid)))"
  shows "fst (BlockReduceArgmax block ys) \<noteq> None \<and>
    rank (BlockReduceArgmax block ys) = Max (insert (rank (neg_inf, vocab)) (candidates row {0..<vocab}))"
proof -
  have "\<forall>y\<in>set ys. fst y \<noteq> None" using y assms(1) by (metis in_set_conv_nth)
  from BlockReduceArgmax_best[OF assms(1-3) this]
  have b: "fst (BlockReduceArgmax block ys) \<noteq> None" "rank (BlockReduceArgmax block ys) = Max (rank ` set ys)" by auto
  let ?B = "\<lambda>tid. insert (rank (neg_inf, vocab)) (candidates row (C tid))"
  have "rank ` set ys = (\<lambda>tid. Max (?B tid)) ` {0..<block}"
  proof -
    have "set ys = (!) ys ` {0..<block}" using assms(1) by (metis list.set_map map_nth set_upt)
    then show ?thesis using y by (auto simp: image_image)
  qed
  moreover have "Max ((\<lambda>tid. Max (?B tid)) ` {0..<block}) = Max (insert (rank (neg_inf, vocab)) (candidates row {0..<vocab}))"
  proof -
    have fin: "finite (?B tid)" if "tid \<in> {0..<block}" for tid
    proof -
      have "C tid \<subseteq> {0..<vocab}" using assms(4) that by blast
      then show ?thesis using finite_candidates finite_subset by blast
    qed
    have u: "insert (rank (neg_inf, vocab)) (candidates row {0..<vocab}) = (\<Union>tid\<in>{0..<block}. ?B tid)"
      unfolding assms(4)[symmetric] candidates_def using assms(3) by auto
    show ?thesis unfolding u
    proof (rule Max_UN)
      show "{0..<block} \<noteq> {}" using assms(3) by simp
      show "finite (?B tid) \<and> ?B tid \<noteq> {}" if "tid \<in> {0..<block}" for tid using fin[OF that] by blast
    qed simp
  qed
  ultimately show ?thesis using b by simp
qed

lemma sentinel: "fst (neg_inf, vocab) \<noteq> None" by (simp add: neg_inf_def)

lemma thread_scan:
  "fst (fold (\<lambda>c best. adopt (row c, c) best) cs (neg_inf, vocab)) \<noteq> None \<and>
   rank (fold (\<lambda>c best. adopt (row c, c) best) cs (neg_inf, vocab)) = Max (insert (rank (neg_inf, vocab)) (candidates row (set cs)))"
  using fold_adopt[OF sentinel, of "\<lambda>c. (row c, c)" cs vocab] by (simp add: candidates_def)

lemma scan_word_columns:
  "scan_word row w best = fold (\<lambda>c best. adopt (row c, c) best) [8 * w..<8 * w + 8] best"
proof -
  have "[8 * w..<8 * w + 8] = map (\<lambda>l. 8 * w + l) [0..<8]" by (simp add: map_add_upt add.commute)
  then have "fold (\<lambda>c best. adopt (row c, c) best) [8 * w..<8 * w + 8] best =
      fold (\<lambda>l best. adopt (row (8 * w + l), 8 * w + l) best) [0..<8] best" by (simp only: fold_map comp_def)
  then show ?thesis by (simp add: scan_word_def Let_def push_bit_eq_mult mult.commute)
qed

lemma vec_scan:
  "fold (scan_word row) ws (neg_inf, vocab) =
     fold (\<lambda>c best. adopt (row c, c) best) (concat (map (\<lambda>w. [8 * w..<8 * w + 8]) ws)) (neg_inf, vocab)"
proof -
  have "fold (scan_word row) ws b = fold (\<lambda>c best. adopt (row c, c) best) (concat (map (\<lambda>w. [8 * w..<8 * w + 8]) ws)) b" for b
    by (induction ws arbitrary: b) (simp_all add: scan_word_columns)
  then show ?thesis .
qed

lemma strided_cover: "0 < block \<Longrightarrow> (\<Union>tid\<in>{0..<block}. set (strided block bound tid)) = {0..<bound}"
  using set_block_indices[of block bound] by (simp add: block_indices_def)

lemma vec_best:
  assumes "8 dvd vocab" "32 dvd block" "0 < block"
    and "champions = map (\<lambda>tid. fold (scan_word row) (strided block (drop_bit 3 vocab) tid) (neg_inf, vocab)) [0..<block]"
  shows "fst (BlockReduceArgmax block champions) \<noteq> None \<and>
    rank (BlockReduceArgmax block champions) = Max (insert (rank (neg_inf, vocab)) (candidates row {0..<vocab}))"
proof (rule block_best[OF _ assms(2,3)])
  let ?cs = "\<lambda>tid. concat (map (\<lambda>w. [8 * w..<8 * w + 8]) (strided block (drop_bit 3 vocab) tid))"
  have v: "vocab = 8 * drop_bit 3 vocab" using assms(1) by (simp add: drop_bit_eq_div)
  have "(\<Union>tid\<in>{0..<block}. set (?cs tid)) = (\<Union>w\<in>(\<Union>tid\<in>{0..<block}. set (strided block (drop_bit 3 vocab) tid)). {8 * w..<8 * w + 8})"
    by auto
  also have "\<dots> = (\<Union>w\<in>{0..<drop_bit 3 vocab}. {8 * w..<8 * w + 8})" by (simp only: strided_cover[OF assms(3)])
  also have "\<dots> = {0..<8 * drop_bit 3 vocab}"
  proof (intro equalityI subsetI)
    fix c assume "c \<in> {0..<8 * drop_bit 3 vocab}"
    then have "c div 8 \<in> {0..<drop_bit 3 vocab}" "c \<in> {8 * (c div 8)..<8 * (c div 8) + 8}" by (auto simp: less_mult_imp_div_less mult.commute)
    then show "c \<in> (\<Union>w\<in>{0..<drop_bit 3 vocab}. {8 * w..<8 * w + 8})" by blast
  qed auto
  finally show "(\<Union>tid\<in>{0..<block}. set (?cs tid)) = {0..<vocab}" using v by simp
  fix tid assume "tid < block"
  then show "fst (champions ! tid) \<noteq> None \<and> rank (champions ! tid) = Max (insert (rank (neg_inf, vocab)) (candidates row (set (?cs tid))))"
    using thread_scan[of row "?cs tid" vocab] by (simp add: assms(4) vec_scan)
qed (simp add: assms(4))

lemma scalar_best:
  assumes "32 dvd block" "0 < block"
    and "champions = map (\<lambda>tid. fold (\<lambda>c best. adopt (row c, c) best) (strided block vocab tid) (neg_inf, vocab)) [0..<block]"
  shows "fst (BlockReduceArgmax block champions) \<noteq> None \<and>
    rank (BlockReduceArgmax block champions) = Max (insert (rank (neg_inf, vocab)) (candidates row {0..<vocab}))"
  by (rule block_best[OF _ assms(1,2) strided_cover[OF assms(2)]])
    (use thread_scan in \<open>simp_all add: assms(3)\<close>)

text \<open>The first column of the greatest value, or column 0.\<close>

definition first_max :: "(nat \<Rightarrow> float_value) \<Rightarrow> nat \<Rightarrow> nat \<Rightarrow> bool" where
  "first_max row vocab i \<longleftrightarrow>
     (if \<forall>c<vocab. row c = None then i = 0
      else i < vocab \<and> (\<exists>x. row i = Some x \<and> (\<forall>c<vocab. \<forall>y. row c = Some y \<longrightarrow> y < x \<or> (y = x \<and> i \<le> c))))"

lemma best_first_max:
  assumes "fst b \<noteq> None" "rank b = Max (insert (rank (neg_inf, vocab)) (candidates row {0..<vocab}))" "0 < vocab"
    and low: "\<And>c x. c < vocab \<Longrightarrow> row c = Some x \<Longrightarrow> - int (fp16_value 0x7C00) \<le> x"
  shows "first_max row vocab (if snd b \<ge> vocab then 0 else snd b)"
proof (cases "\<forall>c<vocab. row c = None")
  case True
  then have "candidates row {0..<vocab} = {}" by (auto simp: candidates_def)
  then have "rank b = rank (neg_inf, vocab)" using assms(2) by simp
  then have "snd b = vocab" by (simp add: rank_def)
  then show ?thesis using True by (simp add: first_max_def)
next
  case False
  let ?A = "insert (rank (neg_inf, vocab)) (candidates row {0..<vocab})"
  have fin: "finite ?A" by (simp add: finite_candidates)
  have in': "rank b \<in> ?A" unfolding assms(2) by (rule Max_in[OF fin]) blast
  have ge: "rank (row c, c) \<le> rank b" if "c < vocab" "row c \<noteq> None" for c
    unfolding assms(2) by (rule Max_ge[OF fin]) (use that in \<open>auto simp: candidates_def\<close>)
  have "rank b \<noteq> rank (neg_inf, vocab)"
  proof
    assume eq: "rank b = rank (neg_inf, vocab)"
    obtain c x where c: "c < vocab" "row c = Some x" using False by auto
    then have "rank (row c, c) \<le> rank (neg_inf, vocab)" using ge[of c] eq by simp
    then show False using low[OF c] c by (auto simp: rank_def neg_inf_def less_eq_prod_def)
  qed
  then obtain c where c: "c < vocab" "row c \<noteq> None" "rank b = rank (row c, c)" using in' by (auto simp: candidates_def)
  then have b: "b = (row c, c)" using assms(1) by (intro rank_inj) auto
  obtain x where x: "row c = Some x" using c(2) by blast
  have "y < x \<or> (y = x \<and> c \<le> c')" if "c' < vocab" "row c' = Some y" for c' y
    using ge[of c'] that x c(3) by (auto simp: rank_def less_eq_prod_def)
  then show ?thesis using b c(1) x False by (auto simp: first_max_def)
qed

lemma half_at_least:
  assumes "half2float_value h = Some x" shows "- int (fp16_value 0x7C00) \<le> x"
proof -
  have mono: "fp16_value a \<le> fp16_value b" if "a \<le> b" for a b
    by (rule lift_Suc_mono_le[OF _ that]) (simp add: fp16_value_Suc)
  have "\<not> IsNanFp16Bits h" using assms by (auto simp: half2float_value_def split: if_splits)
  then have "take_bit 15 h \<le> 0x7C00" by (simp add: IsNanFp16Bits_def mask15 not_less)
  then have "unat (take_bit 15 h) \<le> 0x7C00" by (simp add: word_le_nat_alt)
  from mono[OF this] show ?thesis using assms by (auto simp: half2float_value_def split: if_splits)
qed

text \<open>
  C31: Greedy sampling is the first maximum. For every row of the logits, on the vector path with
  either block size and on the scalar path, the token written is the lowest column whose value is
  the greatest of the row, NaNs excluded and both zeros equal; it is 0 when the whole row is NaN.
  Nothing else is written.
\<close>

theorem argmax_exact:
  assumes "row = (\<lambda>r c. half2float_value (m (logits + r * vocab + int c)))"
    and "out' = LaunchGreedyArgmax major logits m num_seqs vocab out"
  shows "(\<forall>r\<in>{0..<num_seqs}. 0 < vocab \<longrightarrow> (\<exists>i. out' r = int i \<and> first_max (row r) (nat vocab) i)) \<and>
    (\<forall>r. r \<notin> {0..<num_seqs} \<longrightarrow> out' r = out r)"
proof (cases "0 < num_seqs \<and> 0 < vocab")
  case False
  then show ?thesis using assms(2) by (auto simp: LaunchGreedyArgmax_def)
next
  case True
  have low: "- int (fp16_value 0x7C00) \<le> x" if "row r c = Some x" for r c x
    using that half_at_least by (simp add: assms(1))
  have vec: "first_max (row r) (nat vocab) (GreedyArgmaxVecKernel block (row r) (nat vocab))"
    if "vocab mod 8 = 0" "32 dvd block" "0 < block" for r block
  proof -
    have "8 dvd nat vocab" using that(1) True by (metis dvd_eq_mod_eq_0 int_nat_eq int_dvd_int_iff less_imp_le of_nat_numeral)
    from vec_best[OF this that(2,3) refl, of "row r"] show ?thesis
      unfolding GreedyArgmaxVecKernel_def Let_def by (elim conjE, intro best_first_max) (use True low in auto)
  qed
  have scalar: "first_max (row r) (nat vocab) (GreedyArgmaxKernel (row r) (nat vocab))" for r
  proof -
    have "32 dvd argmax_kBlockThreads" "0 < argmax_kBlockThreads" by (simp_all add: argmax_kBlockThreads_def)
    from scalar_best[OF this refl, of "row r" "nat vocab"] show ?thesis
      unfolding GreedyArgmaxKernel_def Let_def by (elim conjE, intro best_first_max) (use True low in auto)
  qed
  define kernel where "kernel = (if vocab mod 8 = 0 \<and> (2 * logits) mod 16 = 0
      then if major \<ge> 8 then GreedyArgmaxVecKernel kBlockThreadsSm80 else GreedyArgmaxVecKernel argmax_kBlockThreads
      else GreedyArgmaxKernel)"
  have k: "first_max (row r) (nat vocab) (kernel (row r) (nat vocab))" for r
    using vec[of kBlockThreadsSm80 r] vec[of argmax_kBlockThreads r] scalar[of r]
    by (simp add: kernel_def kBlockThreadsSm80_def argmax_kBlockThreads_def)
  have out: "out' = fold (\<lambda>r out. out(r := int (kernel (row r) (nat vocab)))) [0..num_seqs - 1] out"
    using True by (simp add: assms LaunchGreedyArgmax_def Let_def kernel_def)
  have f: "fold (\<lambda>r out. out(r := g r)) rs out r = (if r \<in> set rs then g r else out r)" for g :: "int \<Rightarrow> int" and rs r out
    by (induction rs arbitrary: out) auto
  show ?thesis unfolding out f using k by auto
qed

theorem argmax_exact_witness:
  "(let out' = LaunchGreedyArgmax 7 0 (\<lambda>a. if a = 9 \<or> a = 14 then 0x3C00 else if a = 11 then 0x7E00 else 0xBC00) 2 8 (\<lambda>_. - 1)
    in out' 1 = 1 \<and> out' 2 = - 1)"
proof -
  let ?m = "\<lambda>a :: int. (if a = 9 \<or> a = 14 then 0x3C00 else if a = 11 then 0x7E00 else 0xBC00) :: 16 word"
  note r = argmax_exact[OF refl refl, where m = ?m and logits = 0 and vocab = 8 and major = 7 and num_seqs = 2 and out = "\<lambda>_. - 1"]
  have "(1 :: int) \<in> {0..<2}" "(0 :: int) < 8" by simp_all
  from r[THEN conjunct1, THEN bspec, OF this(1), THEN mp, OF this(2)] obtain i where i: "LaunchGreedyArgmax 7 0 ?m 2 8 (\<lambda>_. - 1) 1 = int i"
    "first_max (\<lambda>c. half2float_value (?m (0 + 1 * 8 + int c))) (nat 8) i" by (elim exE conjE) (rule that)
  have v: "half2float_value 0x3C00 = Some 16777216" "half2float_value 0x7E00 = None" "half2float_value 0xBC00 = Some (- 16777216)"
    by (simp_all add: half2float_value_def IsNanFp16Bits_def fp16_value_def)
  have "i = 1"
  proof -
    have 1: "half2float_value (?m (0 + 1 * 8 + int 1)) = Some 16777216" by (simp add: v)
    have ne: "\<not> (\<forall>c<8. half2float_value (?m (0 + 1 * 8 + int c)) = None)"
    proof
      assume "\<forall>c<8. half2float_value (?m (0 + 1 * 8 + int c)) = None"
      from this[rule_format, of 1] show False using 1 by simp
    qed
    have n8: "nat 8 = 8" by simp
    from i(2)[unfolded n8] obtain x where x: "i < 8" "half2float_value (?m (0 + 1 * 8 + int i)) = Some x"
      "\<forall>c<8. \<forall>y. half2float_value (?m (0 + 1 * 8 + int c)) = Some y \<longrightarrow> y < x \<or> y = x \<and> i \<le> c"
      unfolding first_max_def if_not_P[OF ne] by blast
    have "16777216 < x \<or> 16777216 = x \<and> i \<le> 1" using x(3)[rule_format, of 1] 1 by simp
    moreover have "x = 16777216 \<or> x = - 16777216" using x(2) v by (auto split: if_splits)
    ultimately have "x = 16777216" "i \<le> 1" by auto
    moreover have "half2float_value (?m (0 + 1 * 8 + int 0)) = Some (- 16777216)" by (simp add: v)
    ultimately show ?thesis using x(2) by (cases i) auto
  qed
  then show ?thesis using i(1) r by (auto simp: Let_def)
qed

end
