(* ===== verification/Float_Sums.thy ===== *)
theory Float_Sums
  imports Warp Device_Float "HOL-Library.Multiset"
begin

text \<open>
  Sums of floats in an order that the code chooses. Float addition is not associative, so what a
  reduction promises is that its result is some sum of the given terms, each exactly once: \<open>summed\<close>.
  The warp shuffle tree and the scan of the warp results that the kernels share are here.
\<close>

unbundle bit_operations_syntax

inductive summed :: "'f FloatOps \<Rightarrow> 'f multiset \<Rightarrow> 'f \<Rightarrow> bool" for F where
  zero: "summed F {#} (f_zero F)"
| one: "summed F {#x#} x"
| add: "summed F A x \<Longrightarrow> summed F B y \<Longrightarrow> summed F (A + B) (f_add F x y)"

inductive_cases summed_empty: "summed F {#} x"

text \<open>In exact arithmetic the order does not matter.\<close>

lemma summed_exact:
  fixes F :: "'f::comm_monoid_add FloatOps"
  assumes "f_add F = (+)" "f_zero F = 0"
  shows "summed F A x \<Longrightarrow> x = sum_mset A"
  by (induction rule: summed.induct) (simp_all add: assms)

lemma summed_fold:
  "summed F A s \<Longrightarrow> summed F (A + image_mset f (mset xs)) (fold (\<lambda>x s. f_add F s (f x)) xs s)"
proof (induction xs arbitrary: A s)
  case (Cons x xs)
  from Cons.IH[OF summed.add[OF Cons.prems summed.one[of F "f x"]]] show ?case by (simp add: ac_simps)
qed simp

section \<open>The warp tree\<close>

definition shfl_add :: "'f FloatOps \<Rightarrow> nat \<Rightarrow> 'f list \<Rightarrow> 'f list" where
  "shfl_add F offset xs = map (\<lambda>t. f_add F (xs ! t) (xs ! (t XOR offset))) [0..<length xs]"

text \<open>Lane \<open>t\<close> holds a sum of the terms of the lanes \<open>t XOR m\<close>.\<close>

definition lanes_sum :: "'f FloatOps \<Rightarrow> (nat \<Rightarrow> 'f multiset) \<Rightarrow> nat \<Rightarrow> nat set \<Rightarrow> 'f list \<Rightarrow> bool" where
  "lanes_sum F A n M xs \<longleftrightarrow> length xs = n \<and> (\<forall>t<n. summed F (\<Sum>m\<in>M. A (t XOR m)) (xs ! t))"

lemma shfl_add_sums:
  assumes "lanes_sum F A n M xs" and "32 dvd n" and "offset < 32" and "finite M" and "M \<inter> (XOR) offset ` M = {}"
  shows "lanes_sum F A n (M \<union> (XOR) offset ` M) (shfl_add F offset xs)"
  unfolding lanes_sum_def
proof (intro conjI allI impI)
  show "length (shfl_add F offset xs) = n" using assms(1) by (simp add: shfl_add_def lanes_sum_def)
  fix t
  assume t: "t < n"
  have to: "t XOR offset < n" by (rule xor_below[OF assms(2) t assms(3)])
  have s: "summed F (\<Sum>m\<in>M. A (u XOR m)) (xs ! u)" if "u < n" for u using assms(1) that by (simp add: lanes_sum_def)
  have inj: "inj_on ((XOR) offset) M" by (rule inj_on_inverseI[where g = "(XOR) offset"]) (simp add: xor_cancel)
  have "(\<Sum>m\<in>M \<union> (XOR) offset ` M. A (t XOR m)) = (\<Sum>m\<in>M. A (t XOR m)) + (\<Sum>m\<in>(XOR) offset ` M. A (t XOR m))"
    by (rule sum.union_disjoint) (use assms(4,5) in auto)
  also have "(\<Sum>m\<in>(XOR) offset ` M. A (t XOR m)) = (\<Sum>m\<in>M. A ((t XOR offset) XOR m))"
    using inj by (simp add: sum.reindex xor.assoc)
  finally have "summed F (\<Sum>m\<in>M \<union> (XOR) offset ` M. A (t XOR m)) (f_add F (xs ! t) (xs ! (t XOR offset)))"
    using summed.add[OF s[OF t] s[OF to]] by simp
  then show "summed F (\<Sum>m\<in>M \<union> (XOR) offset ` M. A (t XOR m)) (shfl_add F offset xs ! t)"
    using t assms(1) by (simp add: shfl_add_def lanes_sum_def)
qed

lemma warp_tree_sums:
  assumes "32 dvd length xs" and "\<And>t. t < length xs \<Longrightarrow> summed F (A t) (xs ! t)"
  shows "length (fold (shfl_add F) [16, 8, 4, 2, 1] xs) = length xs"
    and "t < length xs \<Longrightarrow> summed F (\<Sum>s\<in>{s. s div 32 = t div 32}. A s) (fold (shfl_add F) [16, 8, 4, 2, 1] xs ! t)"
proof -
  define step where "step = (\<lambda>offset :: nat. \<lambda>M. M \<union> (XOR) offset ` M)"
  have 0: "lanes_sum F A (length xs) {0} xs" using assms(2) by (simp add: lanes_sum_def)
  have d: "{0} \<inter> (XOR) 16 ` {0 :: nat} = {}" "step 16 {0} \<inter> (XOR) 8 ` step 16 {0} = {}"
    "step 8 (step 16 {0}) \<inter> (XOR) 4 ` step 8 (step 16 {0}) = {}"
    "step 4 (step 8 (step 16 {0})) \<inter> (XOR) 2 ` step 4 (step 8 (step 16 {0})) = {}"
    "step 2 (step 4 (step 8 (step 16 {0}))) \<inter> (XOR) 1 ` step 2 (step 4 (step 8 (step 16 {0}))) = {}"
    unfolding step_def by code_simp+
  have s: "lanes_sum F A (length xs) (step offset M) (shfl_add F offset ys)"
    if "lanes_sum F A (length xs) M ys" "offset < 32" "finite M" "M \<inter> (XOR) offset ` M = {}" for offset M ys
    using shfl_add_sums[OF that(1) assms(1) that(2-4)] by (simp only: step_def)
  have "lanes_sum F A (length xs) (step 1 (step 2 (step 4 (step 8 (step 16 {0})))))
      (shfl_add F 1 (shfl_add F 2 (shfl_add F 4 (shfl_add F 8 (shfl_add F 16 xs)))))"
    by (intro s 0 d) (simp_all add: step_def)
  moreover have "step 1 (step 2 (step 4 (step 8 (step 16 {0})))) = {..<32}" unfolding step_def by code_simp
  ultimately have h: "lanes_sum F A (length xs) {..<32} (fold (shfl_add F) [16, 8, 4, 2, 1] xs)" by (simp only: fold_simps)
  then show "length (fold (shfl_add F) [16, 8, 4, 2, 1] xs) = length xs" by (simp only: lanes_sum_def)
  assume "t < length xs"
  then have "summed F (\<Sum>m\<in>{..<32}. A (t XOR m)) (fold (shfl_add F) [16, 8, 4, 2, 1] xs ! t)"
    using h by (simp only: lanes_sum_def)
  moreover have "(\<Sum>s\<in>{s. s div 32 = t div 32}. A s) = (\<Sum>m\<in>{..<32}. A (t XOR m))"
    unfolding xor_image[symmetric] by (rule sum.reindex_cong[where l = "(XOR) t"])
      (auto intro: inj_on_inverseI[where g = "(XOR) t"] simp: xor_cancel)
  ultimately show "summed F (\<Sum>s\<in>{s. s div 32 = t div 32}. A s) (fold (shfl_add F) [16, 8, 4, 2, 1] xs ! t)" by simp
qed

text \<open>The tree in each warp, then the scan of the warp results in ascending order.\<close>

definition warp_reduce :: "'f FloatOps \<Rightarrow> nat \<Rightarrow> 'f list \<Rightarrow> 'f" where
  "warp_reduce F block vs =
     (let lanes = fold (shfl_add F) [16, 8, 4, 2, 1] vs;
          warp_sums = map (\<lambda>w. lanes ! (32 * w)) [0..<block div 32]
      in fold (\<lambda>w s. f_add F s (warp_sums ! w)) [1..<block div 32] (warp_sums ! 0))"

lemma warp_reduce_sums:
  assumes "length vs = block" "32 dvd block" "0 < block" and "\<And>t. t < block \<Longrightarrow> summed F (A t) (vs ! t)"
  shows "summed F (\<Sum>t\<in>{0..<block}. A t) (warp_reduce F block vs)"
proof -
  obtain q where q: "block = 32 * q" "0 < q" using assms(2,3) by (metis dvdE gr0I mult_0_right less_irrefl)
  define lanes where "lanes = fold (shfl_add F) [16, 8, 4, 2, 1] vs"
  define W where "W = (\<lambda>w. \<Sum>s\<in>{s. s div 32 = w}. A s)"
  have lane: "summed F (W w) (lanes ! (32 * w))" if "w < q" for w
    using warp_tree_sums(2)[of vs F A "32 * w"] assms that q by (simp add: lanes_def W_def)
  have s: "summed F (\<Sum>w\<in>{0..<k}. W w) (fold (\<lambda>w s. f_add F s (lanes ! (32 * w))) [1..<k] (lanes ! 0))" if "0 < k" "k \<le> q" for k
    using that
  proof (induction k)
    case (Suc k)
    show ?case
    proof (cases "k = 0")
      case True
      then show ?thesis using lane[of 0] q(2) by simp
    next
      case False
      then have "summed F ((\<Sum>w\<in>{0..<k}. W w) + W k) (f_add F (fold (\<lambda>w s. f_add F s (lanes ! (32 * w))) [1..<k] (lanes ! 0)) (lanes ! (32 * k)))"
        using Suc lane[of k] by (intro summed.add) auto
      then show ?thesis using False by (simp add: upt_Suc_append)
    qed
  qed simp
  have "warp_reduce F block vs = fold (\<lambda>w s. f_add F s (lanes ! (32 * w))) [1..<q] (lanes ! 0)"
  proof -
    have "fold (\<lambda>w s. f_add F s (map (\<lambda>w. lanes ! (32 * w)) [0..<q] ! w)) [1..<q] x = fold (\<lambda>w s. f_add F s (lanes ! (32 * w))) [1..<q] x" for x
      by (rule fold_cong) auto
    then show ?thesis unfolding warp_reduce_def Let_def lanes_def[symmetric] using q by simp
  qed
  moreover have "(\<Sum>w\<in>{0..<q}. W w) = (\<Sum>t\<in>{0..<block}. A t)"
  proof -
    have "{0..<block} = (\<Union>w\<in>{0..<q}. {s. s div 32 = w})" by (auto simp: q div_less_iff_less_mult mult.commute)
    moreover have "finite {s. s div 32 = w}" for w :: nat
    proof -
      have "{s. s div 32 = w} = {32 * w..<32 * w + 32}" by auto
      then show ?thesis by simp
    qed
    ultimately show ?thesis unfolding W_def by (simp add: sum.UNION_disjoint disjoint_iff)
  qed
  ultimately show ?thesis using s[of q] q(2) by simp
qed

section \<open>Terms split over the threads of a block\<close>

lemma sum_mset_lists: "(\<Sum>t\<in>{0..<n}. image_mset f (mset (L t))) = image_mset f (mset (concat (map L [0..<n])))" for n :: nat
  by (induction n) (simp_all add: add.commute)

lemma scalar_columns: "0 < block \<Longrightarrow> mset (concat (map (strided block hidden) [0..<block])) = mset [0..<hidden]"
  using set_block_indices[of block hidden] distinct_block_indices[of block hidden]
  by (simp add: block_indices_def set_eq_iff_mset_eq_distinct[symmetric] del: mset_upt)

lemma fold_store:
  "fold (\<lambda>c b. b(base + c := f c)) cs b i = (if base \<le> i \<and> i - base \<in> set cs then f (i - base) else b i)" for base :: nat
  by (induction cs arbitrary: b) auto

text \<open>A block of a launch computes the elements of its region, as a function of constant inputs.\<close>

lemma fold_regions:
  assumes "\<And>x b i. x \<in> set xs \<Longrightarrow> K x b i = (if i \<in> R x then V x i else b i)"
    and "\<And>x y i. x \<in> set xs \<Longrightarrow> y \<in> set xs \<Longrightarrow> i \<in> R x \<Longrightarrow> i \<in> R y \<Longrightarrow> x = y"
  shows "x \<in> set xs \<Longrightarrow> i \<in> R x \<Longrightarrow> fold K xs b i = V x i"
    and "(\<And>x. x \<in> set xs \<Longrightarrow> i \<notin> R x) \<Longrightarrow> fold K xs b i = b i"
proof -
  have "fold K ys b i = (if \<exists>y\<in>set ys. i \<in> R y then V (SOME y. y \<in> set xs \<and> i \<in> R y) i else b i)" if "set ys \<subseteq> set xs" for ys
    using that
  proof (induction ys arbitrary: b)
    case (Cons y ys)
    have "(SOME z. z \<in> set xs \<and> i \<in> R z) = y" if "i \<in> R y"
      by (rule some_equality) (use that Cons.prems assms(2) in auto)
    then show ?case using Cons assms(1)[of y b i] by auto
  qed simp
  from this[of xs] have f: "fold K xs b i = (if \<exists>y\<in>set xs. i \<in> R y then V (SOME y. y \<in> set xs \<and> i \<in> R y) i else b i)" by simp
  show "fold K xs b i = V x i" if "x \<in> set xs" "i \<in> R x"
  proof -
    have "(SOME z. z \<in> set xs \<and> i \<in> R z) = x" by (rule some_equality) (use that assms(2) in auto)
    then show ?thesis using f that by auto
  qed
  show "fold K xs b i = b i" if "\<And>x. x \<in> set xs \<Longrightarrow> i \<notin> R x" using f that by auto
qed

section \<open>The halving tree\<close>

text \<open>Each step adds the upper half of the slots in use to the lower half.\<close>

definition halve_step :: "('f \<Rightarrow> 'f \<Rightarrow> 'f) \<Rightarrow> nat \<Rightarrow> 'f list \<Rightarrow> 'f list" where
  "halve_step op offset ps = map (\<lambda>t. if t < offset then op (ps ! t) (ps ! (t + offset)) else ps ! t) [0..<length ps]"

fun offsets :: "nat \<Rightarrow> nat list" where
  "offsets n = (if n = 0 then [] else n # offsets (n div 2))"

declare offsets.simps [simp del]

definition halving_tree :: "('f \<Rightarrow> 'f \<Rightarrow> 'f) \<Rightarrow> 'f list \<Rightarrow> 'f" where
  "halving_tree op ps = fold (halve_step op) (offsets (length ps div 2)) ps ! 0"

lemma halving_sums:
  assumes "length ps = 2 ^ k" "\<And>t. t < 2 ^ k \<Longrightarrow> summed F (A t) (ps ! t)"
  shows "summed F (\<Sum>t\<in>{0..<2 ^ k}. A t) (halving_tree (f_add F) ps)"
proof -
  have "summed F (\<Sum>t\<in>{0..<2 ^ k}. A t) (fold (halve_step (f_add F)) (offsets (2 ^ k div 2)) ps ! 0)"
    if "2 ^ k \<le> length ps" "\<And>t. t < 2 ^ k \<Longrightarrow> summed F (A t) (ps ! t)" for k ps and A :: "nat \<Rightarrow> 'a multiset"
    using that
  proof (induction k arbitrary: ps A)
    case 0
    then show ?case by (simp add: offsets.simps[of 0])
  next
    case (Suc k)
    let ?ps = "halve_step (f_add F) (2 ^ k) ps"
    have "summed F (\<Sum>t\<in>{0..<2 ^ k}. A t + A (t + 2 ^ k)) (fold (halve_step (f_add F)) (offsets (2 ^ k div 2)) ?ps ! 0)"
      by (rule Suc.IH) (use Suc.prems in \<open>auto simp: halve_step_def intro!: summed.add\<close>)
    moreover have "(\<Sum>t\<in>{0..<2 ^ Suc k}. A t) = (\<Sum>t\<in>{0..<2 ^ k}. A t + A (t + 2 ^ k))"
    proof -
      have "(\<Sum>t\<in>{0..<2 ^ Suc k}. A t) = (\<Sum>t\<in>{0..<2 ^ k}. A t) + (\<Sum>t\<in>{0 + 2 ^ k..<2 ^ k + 2 ^ k}. A t)"
        by (simp add: sum.atLeastLessThan_concat mult_2)
      then show ?thesis by (simp only: sum.shift_bounds_nat_ivl sum.distrib)
    qed
    moreover have "offsets (2 ^ Suc k div 2) = 2 ^ k # offsets (2 ^ k div 2)" by (simp add: offsets.simps[of "2 ^ k"])
    ultimately show ?case by simp
  qed
  then show ?thesis using assms unfolding halving_tree_def by simp
qed

end
