(* ===== verification/Rmsnorm.thy ===== *)
theory Rmsnorm
  imports Float_Sums
begin

text \<open>
  RMSNorm and the fused residual addition with RMSNorm, \<^verbatim>\<open>src/src/kernels/rmsnorm.cu\<close>: the vector
  kernels, the scalar kernels, and the launchers that choose the block size and the path.

  The launch contract forbids that the buffers overlap, so each buffer is a function from the element
  index to the half stored there; a pointer occurs only in the alignment tests. Within a block the
  threads meet at the barrier of the reduction: a thread reads and writes only its own words before
  and after it, and each word has one thread. The loops over rows, threads and words run in order.
\<close>

definition kBlockSm80 :: nat where "kBlockSm80 = 512"
definition kBlockPre80 :: nat where "kBlockPre80 = 256"
definition kMaxWordsPerThread :: nat where "kMaxWordsPerThread = 4"

type_synonym buffer = "nat \<Rightarrow> 16 word"

definition BlockReduceSum :: "'f FloatOps \<Rightarrow> nat \<Rightarrow> 'f list \<Rightarrow> 'f" where
  "BlockReduceSum F block vs = warp_reduce F block vs"

definition InvRms :: "'f FloatOps \<Rightarrow> 'f \<Rightarrow> nat \<Rightarrow> 'f \<Rightarrow> 'f" where
  "InvRms F sum_sq hidden eps = f_rsqrt F (f_add F (f_div F sum_sq (int2float F (int hidden))) eps)"

definition NormalizeAndWeight :: "'f FloatOps \<Rightarrow> 'f \<Rightarrow> 'f \<Rightarrow> 16 word \<Rightarrow> 16 word" where
  "NormalizeAndWeight F h32 inv_rms w =
     (let normed = float2half F (f_mul F h32 inv_rms)
      in float2half F (f_mul F (half2float F normed) (half2float F w)))"

definition NormalizeAndWeightTwo :: "'f FloatOps \<Rightarrow> 'f \<times> 'f \<Rightarrow> 'f \<Rightarrow> 16 word \<times> 16 word \<Rightarrow> 16 word \<times> 16 word" where
  "NormalizeAndWeightTwo F h32 inv_rms w =
     (NormalizeAndWeight F (fst h32) inv_rms (fst w), NormalizeAndWeight F (snd h32) inv_rms (snd w))"

section \<open>Vector kernels\<close>

text \<open>Word \<open>w\<close> of a buffer of half2 words.\<close>

definition load2 :: "buffer \<Rightarrow> nat \<Rightarrow> 16 word \<times> 16 word" where
  "load2 b w = (b (2 * w), b (2 * w + 1))"

definition store2 :: "nat \<Rightarrow> 16 word \<times> 16 word \<Rightarrow> buffer \<Rightarrow> buffer" where
  "store2 w v b = b(2 * w := fst v, 2 * w + 1 := snd v)"

definition half22float2 :: "'f FloatOps \<Rightarrow> 16 word \<times> 16 word \<Rightarrow> 'f \<times> 'f" where
  "half22float2 F v = (half2float F (fst v), half2float F (snd v))"

text \<open>The words of a thread, \<^verbatim>\<open>w = tid + i * kBlock\<close> for \<open>i\<close> below \<open>WPT\<close>, that lie in the row.\<close>

definition thread_words :: "nat \<Rightarrow> nat \<Rightarrow> nat \<Rightarrow> nat \<Rightarrow> nat list" where
  "thread_words block wpt words tid = filter (\<lambda>w. w < words) (map (\<lambda>i. tid + i * block) [0..<wpt])"

definition add_squares :: "'f FloatOps \<Rightarrow> 'f \<times> 'f \<Rightarrow> 'f \<Rightarrow> 'f" where
  "add_squares F v sum_sq = f_add F (f_add F sum_sq (f_mul F (fst v) (fst v))) (f_mul F (snd v) (snd v))"

definition RmsNormVecKernel ::
  "'f FloatOps \<Rightarrow> nat \<Rightarrow> nat \<Rightarrow> nat \<Rightarrow> nat \<Rightarrow> nat \<Rightarrow> 'f \<Rightarrow> buffer \<Rightarrow> buffer \<Rightarrow> nat \<Rightarrow> buffer \<Rightarrow> buffer" where
  "RmsNormVecKernel F block wpt n_rows words hidden eps inp weight row out =
     (if row \<ge> n_rows then out
      else
        let base = row * words;
            cache = (\<lambda>w. half22float2 F (load2 inp (base + w)));
            partial = (\<lambda>tid. fold (\<lambda>w. add_squares F (cache w)) (thread_words block wpt words tid) (f_zero F));
            inv_rms = InvRms F (BlockReduceSum F block (map partial [0..<block])) hidden eps
        in fold (\<lambda>w out. store2 (base + w) (NormalizeAndWeightTwo F (cache w) inv_rms (load2 weight w)) out)
             (concat (map (thread_words block wpt words) [0..<block])) out)"

definition residual_sum :: "'f FloatOps \<Rightarrow> 16 word \<Rightarrow> 16 word \<Rightarrow> 16 word" where
  "residual_sum F r x = float2half F (f_add F (half2float F r) (half2float F x))"

definition RmsNormResidualVecKernel ::
  "'f FloatOps \<Rightarrow> nat \<Rightarrow> nat \<Rightarrow> nat \<Rightarrow> nat \<Rightarrow> nat \<Rightarrow> 'f \<Rightarrow> buffer \<Rightarrow> buffer \<Rightarrow> nat \<Rightarrow> buffer \<times> buffer \<Rightarrow> buffer \<times> buffer" where
  "RmsNormResidualVecKernel F block wpt n_rows words hidden eps inp weight row s =
     (case s of (out, residual) \<Rightarrow>
      if row \<ge> n_rows then (out, residual)
      else
        let base = row * words;
            h = (\<lambda>w. let r = load2 residual (base + w); x = load2 inp (base + w)
                     in (residual_sum F (fst r) (fst x), residual_sum F (snd r) (snd x)));
            cache = (\<lambda>w. half22float2 F (h w));
            partial = (\<lambda>tid. fold (\<lambda>w. add_squares F (cache w)) (thread_words block wpt words tid) (f_zero F));
            residual' = fold (\<lambda>w res. store2 (base + w) (h w) res) (concat (map (thread_words block wpt words) [0..<block])) residual;
            inv_rms = InvRms F (BlockReduceSum F block (map partial [0..<block])) hidden eps
        in (fold (\<lambda>w out. store2 (base + w) (NormalizeAndWeightTwo F (cache w) inv_rms (load2 weight w)) out)
              (concat (map (thread_words block wpt words) [0..<block])) out, residual'))"

section \<open>Scalar kernels\<close>

definition RmsNormKernel ::
  "'f FloatOps \<Rightarrow> nat \<Rightarrow> nat \<Rightarrow> nat \<Rightarrow> 'f \<Rightarrow> buffer \<Rightarrow> buffer \<Rightarrow> nat \<Rightarrow> buffer \<Rightarrow> buffer" where
  "RmsNormKernel F block n_rows hidden eps inp weight row out =
     (if row \<ge> n_rows then out
      else
        let base = row * hidden;
            partial = (\<lambda>tid. fold (\<lambda>c sum_sq. let v = half2float F (inp (base + c)) in f_add F sum_sq (f_mul F v v))
                         (strided block hidden tid) (f_zero F));
            inv_rms = InvRms F (BlockReduceSum F block (map partial [0..<block])) hidden eps
        in fold (\<lambda>c out. out(base + c := NormalizeAndWeight F (half2float F (inp (base + c))) inv_rms (weight c)))
             (block_indices block hidden) out)"

definition RmsNormResidualKernel ::
  "'f FloatOps \<Rightarrow> nat \<Rightarrow> nat \<Rightarrow> nat \<Rightarrow> 'f \<Rightarrow> buffer \<Rightarrow> buffer \<Rightarrow> nat \<Rightarrow> buffer \<times> buffer \<Rightarrow> buffer \<times> buffer" where
  "RmsNormResidualKernel F block n_rows hidden eps inp weight row s =
     (case s of (out, residual) \<Rightarrow>
      if row \<ge> n_rows then (out, residual)
      else
        let base = row * hidden;
            h = (\<lambda>c. residual_sum F (residual (base + c)) (inp (base + c)));
            partial = (\<lambda>tid. fold (\<lambda>c sum_sq. let h32 = half2float F (h c) in f_add F sum_sq (f_mul F h32 h32))
                         (strided block hidden tid) (f_zero F));
            residual' = fold (\<lambda>c res. res(base + c := h c)) (block_indices block hidden) residual;
            inv_rms = InvRms F (BlockReduceSum F block (map partial [0..<block])) hidden eps
        in (fold (\<lambda>c out. out(base + c := NormalizeAndWeight F (half2float F (residual' (base + c))) inv_rms (weight c)))
              (block_indices block hidden) out, residual'))"

section \<open>Launchers\<close>

definition norm_IsHalf2Aligned :: "int \<Rightarrow> bool" where "norm_IsHalf2Aligned p \<longleftrightarrow> (2 * p) mod 4 = 0"

definition words_per_thread :: "nat \<Rightarrow> nat \<Rightarrow> nat" where
  "words_per_thread block hidden = (hidden div 2 + block - 1) div block"

text \<open>The instantiation for the number of words per thread.\<close>

definition dispatched_wpt :: "nat \<Rightarrow> nat" where
  "dispatched_wpt wpt = (if wpt = 1 then 1 else if wpt = 2 then 2 else if wpt = 3 then 3 else kMaxWordsPerThread)"

definition LaunchRmsNormImpl ::
  "'f FloatOps \<Rightarrow> nat \<Rightarrow> int \<Rightarrow> int \<Rightarrow> int \<Rightarrow> nat \<Rightarrow> nat \<Rightarrow> 'f \<Rightarrow> buffer \<Rightarrow> buffer \<Rightarrow> buffer \<Rightarrow> buffer" where
  "LaunchRmsNormImpl F block out_p inp_p weight_p n_rows hidden eps inp weight out =
     (let words = hidden div 2; wpt = words_per_thread block hidden in
      if hidden mod 2 = 0 \<and> wpt \<le> kMaxWordsPerThread \<and> norm_IsHalf2Aligned out_p \<and> norm_IsHalf2Aligned inp_p \<and>
         norm_IsHalf2Aligned weight_p
      then fold (RmsNormVecKernel F block (dispatched_wpt wpt) n_rows words hidden eps inp weight) [0..<n_rows] out
      else fold (RmsNormKernel F block n_rows hidden eps inp weight) [0..<n_rows] out)"

definition LaunchRmsNormResidualImpl ::
  "'f FloatOps \<Rightarrow> nat \<Rightarrow> int \<Rightarrow> int \<Rightarrow> int \<Rightarrow> int \<Rightarrow> nat \<Rightarrow> nat \<Rightarrow> 'f \<Rightarrow> buffer \<Rightarrow> buffer \<Rightarrow> buffer \<times> buffer \<Rightarrow> buffer \<times> buffer" where
  "LaunchRmsNormResidualImpl F block out_p residual_p inp_p weight_p n_rows hidden eps inp weight s =
     (let words = hidden div 2; wpt = words_per_thread block hidden in
      if hidden mod 2 = 0 \<and> wpt \<le> kMaxWordsPerThread \<and> norm_IsHalf2Aligned out_p \<and> norm_IsHalf2Aligned residual_p \<and>
         norm_IsHalf2Aligned inp_p \<and> norm_IsHalf2Aligned weight_p
      then fold (RmsNormResidualVecKernel F block (dispatched_wpt wpt) n_rows words hidden eps inp weight) [0..<n_rows] s
      else fold (RmsNormResidualKernel F block n_rows hidden eps inp weight) [0..<n_rows] s)"

definition LaunchRmsNorm ::
  "'f FloatOps \<Rightarrow> int \<Rightarrow> int \<Rightarrow> int \<Rightarrow> int \<Rightarrow> int \<Rightarrow> int \<Rightarrow> 'f \<Rightarrow> buffer \<Rightarrow> buffer \<Rightarrow> buffer \<Rightarrow> buffer" where
  "LaunchRmsNorm F compute_major out_p inp_p weight_p n_rows hidden eps inp weight out =
     (if n_rows \<le> 0 \<or> hidden \<le> 0 then out
      else if compute_major \<ge> 8
           then LaunchRmsNormImpl F kBlockSm80 out_p inp_p weight_p (nat n_rows) (nat hidden) eps inp weight out
           else LaunchRmsNormImpl F kBlockPre80 out_p inp_p weight_p (nat n_rows) (nat hidden) eps inp weight out)"

definition LaunchRmsNormResidual ::
  "'f FloatOps \<Rightarrow> int \<Rightarrow> int \<Rightarrow> int \<Rightarrow> int \<Rightarrow> int \<Rightarrow> int \<Rightarrow> int \<Rightarrow> 'f \<Rightarrow> buffer \<Rightarrow> buffer \<Rightarrow> buffer \<times> buffer \<Rightarrow> buffer \<times> buffer" where
  "LaunchRmsNormResidual F compute_major out_p residual_p inp_p weight_p n_rows hidden eps inp weight s =
     (if n_rows \<le> 0 \<or> hidden \<le> 0 then s
      else if compute_major \<ge> 8
           then LaunchRmsNormResidualImpl F kBlockSm80 out_p residual_p inp_p weight_p (nat n_rows) (nat hidden) eps inp weight s
           else LaunchRmsNormResidualImpl F kBlockPre80 out_p residual_p inp_p weight_p (nat n_rows) (nat hidden) eps inp weight s)"

section \<open>Stores\<close>

lemma fold_store2:
  "fold (\<lambda>w b. store2 (base + w) (f w) b) ws b i =
     (if base \<le> i div 2 \<and> i div 2 - base \<in> set ws
      then (if i mod 2 = 0 then fst (f (i div 2 - base)) else snd (f (i div 2 - base))) else b i)"
proof (induction ws arbitrary: b)
  case (Cons w ws)
  have i: "store2 (base + w) (f w) b i = (if i div 2 = base + w then (if i mod 2 = 0 then fst (f w) else snd (f w)) else b i)"
  proof -
    have "i = 2 * (base + w) \<longleftrightarrow> i div 2 = base + w \<and> i mod 2 = 0" "i = 2 * (base + w) + 1 \<longleftrightarrow> i div 2 = base + w \<and> i mod 2 = 1"
      by presburger+
    then show ?thesis by (auto simp: store2_def)
  qed
  show ?case using Cons.IH[of "store2 (base + w) (f w) b"] i by auto
qed simp

section \<open>The words of a row\<close>

lemma set_thread_words:
  assumes "0 < block" "words \<le> wpt * block"
  shows "set (concat (map (thread_words block wpt words) [0..<block])) = {0..<words}"
proof (intro equalityI subsetI)
  fix w
  assume "w \<in> {0..<words}"
  then have w: "w < words" by simp
  have "w mod block + w div block * block = w" by simp
  moreover have "w div block < wpt" using w assms by (simp add: less_mult_imp_div_less)
  moreover have "w mod block < block" using assms(1) by simp
  ultimately have "w \<in> set (thread_words block wpt words (w mod block))"
    using w unfolding thread_words_def by (auto intro!: image_eqI[of w _ "w div block"])
  then show "w \<in> set (concat (map (thread_words block wpt words) [0..<block]))" using \<open>w mod block < block\<close> by auto
qed (auto simp: thread_words_def)

lemma distinct_thread_words: "distinct (concat (map (thread_words block wpt words) [0..<block]))"
proof (rule distinct_concat_map)
  fix tid
  assume "tid \<in> set [0..<block]"
  then show "distinct (thread_words block wpt words tid)"
    unfolding thread_words_def by (intro distinct_filter) (auto simp: distinct_map inj_on_def)
next
  fix t u
  assume t: "t \<in> set [0..<block]" "u \<in> set [0..<block]" "t \<noteq> u"
  have "w mod block = t" if "w \<in> set (thread_words block wpt words t)" "t < block" for w t
    using that by (auto simp: thread_words_def)
  then show "set (thread_words block wpt words t) \<inter> set (thread_words block wpt words u) = {}" using t by auto
qed simp

lemma mset_two_columns:
  "distinct ws \<Longrightarrow> set ws = {0..<words} \<Longrightarrow> mset (concat (map (\<lambda>w. [2 * w, 2 * w + 1]) ws)) = mset [0..<2 * words]" for words :: nat
proof -
  assume d: "distinct ws" and s: "set ws = {0..<words}"
  have "distinct (concat (map (\<lambda>w. [2 * w, 2 * w + 1]) ws))"
    by (rule distinct_concat_map) (use d in \<open>auto; presburger\<close>)+
  moreover have "set (concat (map (\<lambda>w. [2 * w, 2 * w + 1]) ws)) = {0..<2 * words}"
  proof (intro equalityI subsetI)
    fix c
    assume "c \<in> {0..<2 * words}"
    then have "c div 2 \<in> set ws" "c = 2 * (c div 2) \<or> c = 2 * (c div 2) + 1" using s by auto
    then show "c \<in> set (concat (map (\<lambda>w. [2 * w, 2 * w + 1]) ws))" by auto
  qed (use s in auto)
  ultimately show ?thesis by (simp add: set_eq_iff_mset_eq_distinct[symmetric] del: mset_upt)
qed

section \<open>The sum of squares\<close>

definition squares :: "'f FloatOps \<Rightarrow> (nat \<Rightarrow> 16 word) \<Rightarrow> nat \<Rightarrow> 'f" where
  "squares F h c = f_mul F (half2float F (h c)) (half2float F (h c))"

lemma BlockReduceSum_once:
  assumes "32 dvd block" "0 < block" and "mset (concat (map L [0..<block])) = mset [0..<hidden]"
    and "\<And>tid. tid < block \<Longrightarrow> partial tid = fold (\<lambda>c s. f_add F s (squares F h c)) (L tid) (f_zero F)"
  shows "summed F (image_mset (squares F h) (mset [0..<hidden])) (BlockReduceSum F block (map partial [0..<block]))"
proof -
  have "summed F (image_mset (squares F h) (mset (L tid))) (map partial [0..<block] ! tid)" if "tid < block" for tid
    using summed_fold[OF summed.zero[of F], of "squares F h" "L tid"] that assms(4) by simp
  from warp_reduce_sums[OF _ assms(1,2) this] show ?thesis
    unfolding BlockReduceSum_def sum_mset_lists assms(3) by simp
qed

lemma vector_partial:
  "fold (\<lambda>w. add_squares F (half2float F (h (2 * w)), half2float F (h (2 * w + 1)))) ws s =
     fold (\<lambda>c s. f_add F s (squares F h c)) (concat (map (\<lambda>w. [2 * w, 2 * w + 1]) ws)) s"
  by (induction ws arbitrary: s) (simp_all add: add_squares_def squares_def)

lemma vector_columns:
  assumes "0 < block" "words \<le> wpt * block"
  shows "mset (concat (map (\<lambda>tid. concat (map (\<lambda>w. [2 * w, 2 * w + 1]) (thread_words block wpt words tid))) [0..<block])) = mset [0..<2 * words]"
proof -
  have "concat (map (\<lambda>tid. concat (map g (thread_words block wpt words tid))) xs) =
      concat (map g (concat (map (thread_words block wpt words) xs)))" for g :: "nat \<Rightarrow> nat list" and xs
    by (induction xs) simp_all
  then show ?thesis using mset_two_columns[OF distinct_thread_words set_thread_words[OF assms]] by simp
qed

section \<open>One row\<close>

definition norm_row :: "'f FloatOps \<Rightarrow> nat \<Rightarrow> 'f \<Rightarrow> (nat \<Rightarrow> 16 word) \<Rightarrow> buffer \<Rightarrow> (nat \<Rightarrow> 16 word) \<Rightarrow> bool" where
  "norm_row F hidden eps h weight outr \<longleftrightarrow>
     (\<exists>sum_sq. summed F (image_mset (squares F h) (mset [0..<hidden])) sum_sq \<and>
        (\<forall>c<hidden. outr c = NormalizeAndWeight F (half2float F (h c)) (InvRms F sum_sq hidden eps) (weight c)))"

definition residual_row :: "'f FloatOps \<Rightarrow> nat \<Rightarrow> 'f \<Rightarrow> buffer \<Rightarrow> buffer \<Rightarrow> nat \<Rightarrow> buffer \<times> buffer \<Rightarrow> buffer \<times> buffer \<Rightarrow> bool" where
  "residual_row F hidden eps inp weight row s s' \<longleftrightarrow>
     (let h = (\<lambda>c. residual_sum F (snd s (row * hidden + c)) (inp (row * hidden + c))) in
      (\<forall>c<hidden. snd s' (row * hidden + c) = h c) \<and> norm_row F hidden eps h weight (\<lambda>c. fst s' (row * hidden + c)))"

lemma half_index: "(row * (2 * words) + c) div 2 = row * words + c div 2" "(row * (2 * words) + c) mod 2 = c mod 2" for row words c :: nat
proof -
  have "row * (2 * words) + c = c + row * words * 2" by simp
  then show "(row * (2 * words) + c) div 2 = row * words + c div 2" "(row * (2 * words) + c) mod 2 = c mod 2"
    by (metis add.commute div_mult_self1 zero_neq_numeral, metis mod_mult_self1)
qed

lemma half_range: "row * words \<le> i div 2 \<and> i div 2 - row * words < words \<longleftrightarrow> i \<in> {row * (2 * words)..<row * (2 * words) + 2 * words}" for i :: nat
  by auto

lemma two_columns: "c mod 2 = 0 \<Longrightarrow> 2 * (c div 2) = c" "c mod 2 = Suc 0 \<Longrightarrow> Suc (2 * (c div 2)) = c" for c :: nat
  by presburger+

lemma residual_vec_row:
  assumes "32 dvd block" "0 < block" "words \<le> wpt * block" "row < n_rows" and hid: "hidden = 2 * words"
  shows "residual_row F hidden eps inp weight row s (RmsNormResidualVecKernel F block wpt n_rows words hidden eps inp weight row s) \<and>
    (\<forall>i. i \<notin> {row * hidden..<row * hidden + hidden} \<longrightarrow>
       fst (RmsNormResidualVecKernel F block wpt n_rows words hidden eps inp weight row s) i = fst s i \<and>
       snd (RmsNormResidualVecKernel F block wpt n_rows words hidden eps inp weight row s) i = snd s i)"
proof -
  obtain out residual where s: "s = (out, residual)" by fastforce
  define h where "h = (\<lambda>c. residual_sum F (residual (row * hidden + c)) (inp (row * hidden + c)))"
  define ws where "ws = concat (map (thread_words block wpt words) [0..<block])"
  have ws: "set ws = {0..<words}" unfolding ws_def by (rule set_thread_words[OF assms(2,3)])
  define hw where "hw = (\<lambda>w. (h (2 * w), h (2 * w + 1)))"
  have hw: "(let r = load2 residual (row * words + w); x = load2 inp (row * words + w)
      in (residual_sum F (fst r) (fst x), residual_sum F (snd r) (snd x))) = hw w" for w
    by (simp add: load2_def Let_def hw_def h_def hid algebra_simps)
  define sum_sq where "sum_sq = BlockReduceSum F block (map (\<lambda>tid. fold (\<lambda>w. add_squares F (half22float2 F (hw w))) (thread_words block wpt words tid) (f_zero F)) [0..<block])"
  have sum: "summed F (image_mset (squares F h) (mset [0..<hidden])) sum_sq"
    unfolding sum_sq_def
  proof (rule BlockReduceSum_once[OF assms(1,2), where L = "\<lambda>tid. concat (map (\<lambda>w. [2 * w, 2 * w + 1]) (thread_words block wpt words tid))"])
    show "mset (concat (map (\<lambda>tid. concat (map (\<lambda>w. [2 * w, 2 * w + 1]) (thread_words block wpt words tid))) [0..<block])) = mset [0..<hidden]"
      unfolding hid by (rule vector_columns[OF assms(2,3)])
  qed (unfold hw_def half22float2_def fst_conv snd_conv, rule vector_partial)
  define y where "y = (\<lambda>c. NormalizeAndWeight F (half2float F (h c)) (InvRms F sum_sq hidden eps) (weight c))"
  have nw: "NormalizeAndWeightTwo F (half22float2 F (hw w)) (InvRms F sum_sq hidden eps) (load2 weight w) = (y (2 * w), y (2 * w + 1))" for w
    by (simp add: NormalizeAndWeightTwo_def half22float2_def hw_def load2_def y_def)
  have k: "RmsNormResidualVecKernel F block wpt n_rows words hidden eps inp weight row s =
     (fold (\<lambda>w b. store2 (row * words + w) (y (2 * w), y (2 * w + 1)) b) ws out,
      fold (\<lambda>w b. store2 (row * words + w) (hw w) b) ws residual)"
    using assms(4) unfolding RmsNormResidualVecKernel_def s prod.case Let_def hw[unfolded Let_def] ws_def[symmetric] sum_sq_def[symmetric] nw by simp
  have val: "fold (\<lambda>w b. store2 (row * words + w) (f (2 * w), f (2 * w + 1)) b) ws b (row * hidden + c) = f c" if "c < hidden" for f b c
    using that by (auto simp: fold_store2 ws hid half_index two_columns)
  have out': "fold (\<lambda>w b. store2 (row * words + w) (f w) b) ws b i = b i" if "i \<notin> {row * hidden..<row * hidden + hidden}" for f b i
    using that half_range[of row words i] by (auto simp: fold_store2 ws hid)
  show ?thesis
    unfolding k
    unfolding residual_row_def Let_def s snd_conv fst_conv h_def[symmetric]
  proof (intro conjI allI impI)
    show "norm_row F hidden eps h weight (\<lambda>c. fold (\<lambda>w b. store2 (row * words + w) (y (2 * w), y (2 * w + 1)) b) ws out (row * hidden + c))"
      unfolding norm_row_def using sum val[of _ y] by (auto simp: y_def)
  qed (use val[of _ h] out' in \<open>simp_all add: hw_def\<close>)
qed

lemma residual_scalar_row:
  assumes "32 dvd block" "0 < block" "row < n_rows"
  shows "residual_row F hidden eps inp weight row s (RmsNormResidualKernel F block n_rows hidden eps inp weight row s) \<and>
    (\<forall>i. i \<notin> {row * hidden..<row * hidden + hidden} \<longrightarrow>
       fst (RmsNormResidualKernel F block n_rows hidden eps inp weight row s) i = fst s i \<and>
       snd (RmsNormResidualKernel F block n_rows hidden eps inp weight row s) i = snd s i)"
proof -
  obtain out residual where s: "s = (out, residual)" by fastforce
  define h where "h = (\<lambda>c. residual_sum F (residual (row * hidden + c)) (inp (row * hidden + c)))"
  define res' where "res' = fold (\<lambda>c b. b(row * hidden + c := h c)) (block_indices block hidden) residual"
  have set: "set (block_indices block hidden) = {0..<hidden}" by (rule set_block_indices[OF assms(2)])
  define sum_sq where "sum_sq = BlockReduceSum F block (map (\<lambda>tid. fold (\<lambda>c sum_sq. let h32 = half2float F (h c) in f_add F sum_sq (f_mul F h32 h32))
                         (strided block hidden tid) (f_zero F)) [0..<block])"
  have sum: "summed F (image_mset (squares F h) (mset [0..<hidden])) sum_sq"
    unfolding sum_sq_def
    by (rule BlockReduceSum_once[OF assms(1,2) scalar_columns[OF assms(2)]]) (simp add: squares_def Let_def)
  have res: "res' (row * hidden + c) = h c" if "c < hidden" for c using that by (simp add: res'_def fold_store set)
  have k: "RmsNormResidualKernel F block n_rows hidden eps inp weight row s =
     (fold (\<lambda>c b. b(row * hidden + c := NormalizeAndWeight F (half2float F (res' (row * hidden + c))) (InvRms F sum_sq hidden eps) (weight c)))
        (block_indices block hidden) out, res')"
    using assms(3) by (simp add: RmsNormResidualKernel_def s Let_def h_def res'_def sum_sq_def)
  have out': "fold (\<lambda>c b. b(row * hidden + c := f c)) (block_indices block hidden) b i = b i"
    if "i \<notin> {row * hidden..<row * hidden + hidden}" for f and b :: buffer and i
    using that by (auto simp: fold_store set)
  show ?thesis
    unfolding k
    unfolding residual_row_def Let_def s snd_conv fst_conv h_def[symmetric]
  proof (intro conjI allI impI)
    show "norm_row F hidden eps h weight (\<lambda>c. fold (\<lambda>c b. b(row * hidden + c :=
        NormalizeAndWeight F (half2float F (res' (row * hidden + c))) (InvRms F sum_sq hidden eps) (weight c))) (block_indices block hidden) out (row * hidden + c))"
      unfolding norm_row_def using sum res by (auto simp: fold_store set)
  qed (use res out' in \<open>simp_all add: res'_def\<close>)
qed

section \<open>All rows\<close>

lemma norm_row_cong:
  assumes "\<And>c. c < hidden \<Longrightarrow> h c = h' c" "\<And>c. c < hidden \<Longrightarrow> out c = out' c"
  shows "norm_row F hidden eps h weight out = norm_row F hidden eps h' weight out'"
proof -
  have "image_mset (squares F h) (mset [0..<hidden]) = image_mset (squares F h') (mset [0..<hidden])"
    by (rule image_mset_cong) (simp add: squares_def assms(1))
  then show ?thesis by (simp add: norm_row_def assms cong: conj_cong)
qed

lemma residual_row_cong:
  assumes "\<And>i. i \<in> {row * hidden..<row * hidden + hidden} \<Longrightarrow> snd s i = snd t i"
    and "\<And>i. i \<in> {row * hidden..<row * hidden + hidden} \<Longrightarrow> fst s' i = fst t' i \<and> snd s' i = snd t' i"
  shows "residual_row F hidden eps inp weight row s s' = residual_row F hidden eps inp weight row t t'"
proof -
  have "norm_row F hidden eps (\<lambda>c. residual_sum F (snd s (row * hidden + c)) (inp (row * hidden + c))) weight (\<lambda>c. fst s' (row * hidden + c)) =
      norm_row F hidden eps (\<lambda>c. residual_sum F (snd t (row * hidden + c)) (inp (row * hidden + c))) weight (\<lambda>c. fst t' (row * hidden + c))"
    by (rule norm_row_cong) (simp_all add: assms)
  then show ?thesis by (simp add: residual_row_def assms)
qed

lemma residual_rows:
  assumes "\<And>row s. row < n \<Longrightarrow> residual_row F hidden eps inp weight row s (K row s) \<and>
      (\<forall>i. i \<notin> {row * hidden..<row * hidden + hidden} \<longrightarrow> fst (K row s) i = fst s i \<and> snd (K row s) i = snd s i)"
  shows "(\<forall>row<n. residual_row F hidden eps inp weight row s (fold K [0..<n] s)) \<and>
    (\<forall>i\<ge>n * hidden. fst (fold K [0..<n] s) i = fst s i \<and> snd (fold K [0..<n] s) i = snd s i)"
  using assms
proof (induction n)
  case (Suc n)
  let ?t = "fold K [0..<n] s"
  have IH: "\<And>row. row < n \<Longrightarrow> residual_row F hidden eps inp weight row s ?t"
    "\<And>i. n * hidden \<le> i \<Longrightarrow> fst ?t i = fst s i \<and> snd ?t i = snd s i" using Suc by auto
  have K: "residual_row F hidden eps inp weight n ?t (K n ?t)"
    "\<And>i. i \<notin> {n * hidden..<n * hidden + hidden} \<Longrightarrow> fst (K n ?t) i = fst ?t i \<and> snd (K n ?t) i = snd ?t i"
    using Suc.prems[of n ?t] by auto
  have "residual_row F hidden eps inp weight row s (K n ?t)" if row: "row < Suc n" for row
  proof (cases "row = n")
    case True
    have "residual_row F hidden eps inp weight n s (K n ?t) = residual_row F hidden eps inp weight n ?t (K n ?t)"
      by (rule residual_row_cong) (simp_all add: IH(2))
    then show ?thesis using K(1) True by simp
  next
    case False
    then have "row * hidden + hidden \<le> n * hidden" using row by (metis add.commute less_SucE mult_Suc mult_le_mono1 Suc_leI)
    then have "residual_row F hidden eps inp weight row s (K n ?t) = residual_row F hidden eps inp weight row s ?t"
      by (intro residual_row_cong) (simp_all add: K(2))
    then show ?thesis using IH(1)[of row] row False by simp
  qed
  moreover have "fst (K n ?t) i = fst s i \<and> snd (K n ?t) i = snd s i" if "Suc n * hidden \<le> i" for i
    using K(2)[of i] IH(2)[of i] that by simp
  ultimately show ?case by simp
qed simp

text \<open>The words per thread of the launcher cover the row.\<close>

lemma dispatched_covers:
  assumes "hidden mod 2 = 0" "words_per_thread block hidden \<le> kMaxWordsPerThread" "0 < block" "0 < hidden"
  shows "hidden div 2 \<le> dispatched_wpt (words_per_thread block hidden) * block"
proof -
  let ?w = "words_per_thread block hidden"
  have "hidden div 2 \<le> ?w * block"
  proof -
    have "hidden div 2 + block - 1 < (?w + 1) * block"
      unfolding words_per_thread_def using assms(3) by (metis add.commute dividend_less_div_times mult.commute mult_Suc_right plus_1_eq_Suc add_mult_distrib mult_1)
    then show ?thesis using assms(3) by simp
  qed
  moreover have "?w \<le> dispatched_wpt ?w" using assms(2) by (simp add: dispatched_wpt_def kMaxWordsPerThread_def)
  ultimately show ?thesis by (meson le_trans mult_le_mono1)
qed

lemma LaunchRmsNormResidualImpl_rows:
  assumes "32 dvd block" "0 < block" "0 < hidden"
  shows "(\<forall>row<n. residual_row F hidden eps inp weight row s (LaunchRmsNormResidualImpl F block out_p residual_p inp_p weight_p n hidden eps inp weight s)) \<and>
    (\<forall>i\<ge>n * hidden. fst (LaunchRmsNormResidualImpl F block out_p residual_p inp_p weight_p n hidden eps inp weight s) i = fst s i \<and>
       snd (LaunchRmsNormResidualImpl F block out_p residual_p inp_p weight_p n hidden eps inp weight s) i = snd s i)"
proof (cases "hidden mod 2 = 0 \<and> words_per_thread block hidden \<le> kMaxWordsPerThread \<and> norm_IsHalf2Aligned out_p \<and>
    norm_IsHalf2Aligned residual_p \<and> norm_IsHalf2Aligned inp_p \<and> norm_IsHalf2Aligned weight_p")
  case True
  then have "LaunchRmsNormResidualImpl F block out_p residual_p inp_p weight_p n hidden eps inp weight s =
      fold (RmsNormResidualVecKernel F block (dispatched_wpt (words_per_thread block hidden)) n (hidden div 2) hidden eps inp weight) [0..<n] s"
    by (simp add: LaunchRmsNormResidualImpl_def)
  moreover have "hidden div 2 \<le> dispatched_wpt (words_per_thread block hidden) * block" "hidden = 2 * (hidden div 2)"
    using True dispatched_covers[OF _ _ assms(2,3)] by auto
  ultimately show ?thesis by (simp only:) (intro residual_rows residual_vec_row assms(1,2))
next
  case False
  then have "LaunchRmsNormResidualImpl F block out_p residual_p inp_p weight_p n hidden eps inp weight s =
      fold (RmsNormResidualKernel F block n hidden eps inp weight) [0..<n] s"
    unfolding LaunchRmsNormResidualImpl_def Let_def by (rule if_not_P)
  then show ?thesis by (simp only:) (intro residual_rows residual_scalar_row assms(1,2))
qed

text \<open>
  C32: For any sizes, any alignment of the pointers and either block size, the fused residual kernel
  leaves in row \<open>r\<close> of the residual the half sums of the residual and the input, and in row \<open>r\<close> of
  the output those sums normalised by a sum of squares in which each of the \<open>hidden\<close> squares of the
  stored sums occurs exactly once, and weighted; nothing past the rows changes.
\<close>

theorem rmsnorm_residual_exact:
  assumes "0 < hidden" "0 \<le> n_rows"
    and "s' = LaunchRmsNormResidual F compute_major out_p residual_p inp_p weight_p n_rows hidden eps inp weight s"
  shows "(\<forall>row<nat n_rows. residual_row F (nat hidden) eps inp weight row s s') \<and>
    (\<forall>i\<ge>nat n_rows * nat hidden. fst s' i = fst s i \<and> snd s' i = snd s i)"
  using LaunchRmsNormResidualImpl_rows[of kBlockSm80 "nat hidden" "nat n_rows" F eps inp weight s out_p residual_p inp_p weight_p]
    LaunchRmsNormResidualImpl_rows[of kBlockPre80 "nat hidden" "nat n_rows" F eps inp weight s out_p residual_p inp_p weight_p] assms
  by (simp add: LaunchRmsNormResidual_def kBlockSm80_def kBlockPre80_def)

theorem rmsnorm_residual_exact_witness:
  "\<exists>s'. s' = LaunchRmsNormResidual int_ops 8 0 64 128 192 2 4 0 (\<lambda>_. 1) (\<lambda>_. 1) (\<lambda>_. 0, \<lambda>i. word_of_nat i) \<and>
     snd s' 5 = 6 \<and> fst s' 5 = 258 \<and> snd s' 8 = 8 \<and> fst s' 8 = 0"
proof -
  define s' where "s' = LaunchRmsNormResidual int_ops 8 0 64 128 192 2 4 0 (\<lambda>_. 1) (\<lambda>_. 1) (\<lambda>_. 0, \<lambda>i. word_of_nat i)"
  note r = rmsnorm_residual_exact[OF _ _ s'_def, simplified]
  have "residual_row int_ops 4 0 (\<lambda>_. 1) (\<lambda>_. 1) 1 (\<lambda>_. 0, \<lambda>i. word_of_nat i) s'" using r by simp
  then obtain sum_sq where h: "\<forall>c<4. snd s' (4 + c) = residual_sum int_ops (word_of_nat (4 + c)) 1"
    and sum: "summed int_ops (image_mset (squares int_ops (\<lambda>c. residual_sum int_ops (word_of_nat (4 + c)) 1)) (mset [0..<4])) sum_sq"
    and o: "\<forall>c<4. fst s' (4 + c) = NormalizeAndWeight int_ops (half2float int_ops (residual_sum int_ops (word_of_nat (4 + c)) 1)) (InvRms int_ops sum_sq 4 0) 1"
    unfolding residual_row_def norm_row_def Let_def by auto
  have "sum_sq = 174"
    using summed_exact[OF _ _ sum] by (simp add: int_ops_def squares_def residual_sum_def upt_rec)
  then have "snd s' 5 = 6" "fst s' 5 = 258"
    using h[rule_format, of 1] o[rule_format, of 1] by (simp_all add: int_ops_def residual_sum_def NormalizeAndWeight_def InvRms_def)
  moreover have "snd s' 8 = 8 \<and> fst s' 8 = 0" using r by simp
  ultimately show ?thesis using s'_def by blast
qed

section \<open>The fused kernel is the addition followed by the norm\<close>

definition add_rows :: "'f FloatOps \<Rightarrow> nat \<Rightarrow> buffer \<Rightarrow> buffer \<Rightarrow> buffer" where
  "add_rows F n inp res i = (if i < n then residual_sum F (res i) (inp i) else res i)"

lemma add_rows_0 [simp]: "add_rows F 0 inp res = res"
  by (simp add: add_rows_def fun_eq_iff)

lemma row_below: "row < n \<Longrightarrow> c < hidden \<Longrightarrow> row * hidden + c < n * hidden" for row n c hidden :: nat
  by (metis add.commute mult_Suc nat_add_left_cancel_less less_le_trans mult_le_mono1 Suc_leI)

lemma thread_words_below: "w \<in> set (thread_words block wpt words tid) \<Longrightarrow> w < words"
  by (simp add: thread_words_def)

lemma vec_split:
  assumes "row < n" "hidden = 2 * words"
    and res: "\<And>c. c < hidden \<Longrightarrow> fin (row * hidden + c) = residual_sum F (res (row * hidden + c)) (inp (row * hidden + c))"
  shows "fst (RmsNormResidualVecKernel F block wpt n words hidden eps inp weight row (out, res)) =
    RmsNormVecKernel F block wpt n words hidden eps fin weight row out"
proof -
  define hw where "hw = (\<lambda>w. (residual_sum F (fst (load2 res (row * words + w))) (fst (load2 inp (row * words + w))),
      residual_sum F (snd (load2 res (row * words + w))) (snd (load2 inp (row * words + w)))))"
  have hwf: "(residual_sum F (fst (load2 res (row * words + w))) (fst (load2 inp (row * words + w))),
      residual_sum F (snd (load2 res (row * words + w))) (snd (load2 inp (row * words + w)))) = hw w" for w by (simp add: hw_def)
  have l: "hw w = load2 fin (row * words + w)" if "w < words" for w
    using res[of "2 * w"] res[of "2 * w + 1"] that assms(2) by (simp add: hw_def load2_def algebra_simps)
  have p: "(\<lambda>tid. fold (\<lambda>w. add_squares F (half22float2 F (hw w))) (thread_words block wpt words tid) (f_zero F)) =
      (\<lambda>tid. fold (\<lambda>w. add_squares F (half22float2 F (load2 fin (row * words + w)))) (thread_words block wpt words tid) (f_zero F))"
    by (intro ext fold_cong) (auto simp: l dest: thread_words_below)
  show ?thesis
    unfolding RmsNormResidualVecKernel_def RmsNormVecKernel_def Let_def prod.case hwf
    unfolding p
    using assms(1) by (auto simp: l dest!: thread_words_below intro!: fold_cong)
qed

lemma scalar_split:
  assumes "row < n" "0 < block"
    and res: "\<And>c. c < hidden \<Longrightarrow> fin (row * hidden + c) = residual_sum F (res (row * hidden + c)) (inp (row * hidden + c))"
  shows "fst (RmsNormResidualKernel F block n hidden eps inp weight row (out, res)) =
    RmsNormKernel F block n hidden eps fin weight row out"
proof -
  define h where "h = (\<lambda>c. residual_sum F (res (row * hidden + c)) (inp (row * hidden + c)))"
  have hf: "residual_sum F (res (row * hidden + c)) (inp (row * hidden + c)) = h c" for c by (simp add: h_def)
  have strided: "c < hidden" if "c \<in> set (strided block hidden tid)" "tid < block" for c tid
    using that set_block_indices[OF assms(2), of hidden] by (auto simp: block_indices_def)
  have p: "map (\<lambda>tid. fold (\<lambda>c sum_sq. f_add F sum_sq (f_mul F (half2float F (h c)) (half2float F (h c)))) (strided block hidden tid) (f_zero F)) [0..<block] =
      map (\<lambda>tid. fold (\<lambda>c sum_sq. f_add F sum_sq (f_mul F (half2float F (fin (row * hidden + c))) (half2float F (fin (row * hidden + c)))))
        (strided block hidden tid) (f_zero F)) [0..<block]"
    by (intro map_cong refl fold_cong) (auto simp: h_def res dest: strided)
  have f: "fold (\<lambda>c b. b(row * hidden + c := h c)) (block_indices block hidden) res (row * hidden + c) = fin (row * hidden + c)" if "c < hidden" for c
    using that by (simp add: fold_store set_block_indices[OF assms(2)] h_def res)
  show ?thesis
    unfolding RmsNormResidualKernel_def RmsNormKernel_def Let_def prod.case hf
    unfolding p
    using assms(1) by (auto simp: f set_block_indices[OF assms(2)] intro!: fold_cong)
qed

text \<open>Kernels that agree row by row agree on all rows.\<close>

lemma fused_rows:
  assumes rows: "\<And>row s. row < n \<Longrightarrow> residual_row F hidden eps inp weight row s (K row s) \<and>
      (\<forall>i. i \<notin> {row * hidden..<row * hidden + hidden} \<longrightarrow> fst (K row s) i = fst s i \<and> snd (K row s) i = snd s i)"
    and split: "\<And>row out res. row < n \<Longrightarrow>
      (\<And>c. c < hidden \<Longrightarrow> fin (row * hidden + c) = residual_sum F (res (row * hidden + c)) (inp (row * hidden + c))) \<Longrightarrow>
      fst (K row (out, res)) = P row out"
    and fin: "fin = add_rows F (n * hidden) inp (snd s)"
  shows "fold K [0..<n] s = (fold P [0..<n] (fst s), fin)"
proof -
  have r: "(\<forall>row<m. residual_row F hidden eps inp weight row s (fold K [0..<m] s)) \<and>
      (\<forall>i\<ge>m * hidden. fst (fold K [0..<m] s) i = fst s i \<and> snd (fold K [0..<m] s) i = snd s i)" if "m \<le> n" for m
    by (rule residual_rows) (use rows that in auto)
  have "fst (fold K [0..<m] s) = fold P [0..<m] (fst s)" if "m \<le> n" for m
    using that
  proof (induction m)
    case (Suc m)
    have "fst (K m (fst (fold K [0..<m] s), snd (fold K [0..<m] s))) = P m (fst (fold K [0..<m] s))"
      by (rule split) (use Suc.prems r[of m] in \<open>simp_all add: fin add_rows_def row_below\<close>)
    then have "fst (K m (fold K [0..<m] s)) = P m (fst (fold K [0..<m] s))" by (simp only: prod.collapse)
    moreover have "fst (fold K [0..<m] s) = fold P [0..<m] (fst s)" using Suc by simp
    ultimately show ?case by (simp only: upt_Suc_append[OF le0] fold_append fold_simps comp_def)
  qed simp
  moreover have "snd (fold K [0..<n] s) = fin"
  proof
    fix i
    show "snd (fold K [0..<n] s) i = fin i"
    proof (cases "i < n * hidden")
      case True
      then have h: "0 < hidden" and d: "i div hidden < n" by (auto simp: less_mult_imp_div_less intro: gr0I)
      have "i = i div hidden * hidden + i mod hidden" "i mod hidden < hidden" using h by simp_all
      moreover have "\<forall>c<hidden. snd (fold K [0..<n] s) (i div hidden * hidden + c) =
          residual_sum F (snd s (i div hidden * hidden + c)) (inp (i div hidden * hidden + c))"
        using r[of n] d by (simp add: residual_row_def Let_def)
      ultimately show ?thesis using True unfolding fin add_rows_def by metis
    next
      case False
      then show ?thesis using r[of n] by (simp add: fin add_rows_def)
    qed
  qed
  ultimately show ?thesis by (simp add: prod_eq_iff)
qed

lemma fused_impl:
  assumes "32 dvd block" "0 < block" "0 < hidden" and inp: "norm_IsHalf2Aligned inp_p"
  shows "LaunchRmsNormResidualImpl F block out_p residual_p inp_p weight_p n hidden eps inp weight s =
    (LaunchRmsNormImpl F block out_p residual_p weight_p n hidden eps (add_rows F (n * hidden) inp (snd s)) weight (fst s),
     add_rows F (n * hidden) inp (snd s))"
proof (cases "hidden mod 2 = 0 \<and> words_per_thread block hidden \<le> kMaxWordsPerThread \<and> norm_IsHalf2Aligned out_p \<and>
    norm_IsHalf2Aligned residual_p \<and> norm_IsHalf2Aligned weight_p")
  case True
  then have c: "hidden div 2 \<le> dispatched_wpt (words_per_thread block hidden) * block" "hidden = 2 * (hidden div 2)"
    using dispatched_covers[OF _ _ assms(2,3)] by auto
  show ?thesis
    using True inp unfolding LaunchRmsNormResidualImpl_def LaunchRmsNormImpl_def Let_def
    by simp (rule fused_rows[where eps = eps and weight = weight, OF residual_vec_row[OF assms(1,2) c(1) _ c(2)] vec_split[OF _ c(2)] refl])
next
  case False
  then have n: "\<not> (hidden mod 2 = 0 \<and> words_per_thread block hidden \<le> kMaxWordsPerThread \<and> norm_IsHalf2Aligned out_p \<and>
    norm_IsHalf2Aligned residual_p \<and> norm_IsHalf2Aligned inp_p \<and> norm_IsHalf2Aligned weight_p)" by simp
  show ?thesis
    unfolding LaunchRmsNormResidualImpl_def LaunchRmsNormImpl_def Let_def if_not_P[OF False] if_not_P[OF n]
    by (rule fused_rows[where eps = eps and weight = weight, OF residual_scalar_row[OF assms(1,2)] scalar_split[OF _ assms(2)] refl])
qed

text \<open>
  With the input aligned for half2 words, the fused residual kernel is bit for bit the addition of
  the input to the rows of the residual followed by the plain RMSNorm of the new residual.
\<close>

theorem rmsnorm_fused_equals_add_then_norm:
  assumes "norm_IsHalf2Aligned inp_p"
  shows "LaunchRmsNormResidual F compute_major out_p residual_p inp_p weight_p n_rows hidden eps inp weight (out, residual) =
    (let sum = add_rows F (nat n_rows * nat hidden) inp residual
     in (LaunchRmsNorm F compute_major out_p residual_p weight_p n_rows hidden eps sum weight out, sum))"
  using fused_impl[of kBlockSm80 "nat hidden", OF _ _ _ assms] fused_impl[of kBlockPre80 "nat hidden", OF _ _ _ assms]
  by (auto simp: LaunchRmsNormResidual_def LaunchRmsNorm_def kBlockSm80_def kBlockPre80_def Let_def)

theorem rmsnorm_fused_equals_add_then_norm_witness:
  "\<exists>s'. s' = LaunchRmsNormResidual int_ops 8 0 64 128 192 2 4 0 (\<lambda>_. 1) (\<lambda>_. 1) (\<lambda>_. 0, \<lambda>i. word_of_nat i) \<and>
     fst s' = LaunchRmsNorm int_ops 8 0 64 192 2 4 0 (snd s') (\<lambda>_. 1) (\<lambda>_. 0) \<and> snd s' 7 = 8"
  using rmsnorm_fused_equals_add_then_norm[of 128 int_ops 8 0 64 192 2 4 0 "\<lambda>_. 1" "\<lambda>_. 1" "\<lambda>_. 0" "\<lambda>i. word_of_nat i"]
  by (simp add: norm_IsHalf2Aligned_def Let_def add_rows_def residual_sum_def int_ops_def)

end
