(* ===== verification/Prefill_Softmax.thy ===== *)
theory Prefill_Softmax
  imports Float_Sums Complex_Main
begin

text \<open>
  The causal softmax of a prefill chunk, \<^verbatim>\<open>src/src/kernels/prefill_attention.cu\<close>: the
  block reductions, the kernel of one query row of one head, and the launcher. A block reads the
  scores, which no block writes, and writes its own row of probabilities; the blocks run in order. An
  assertion of the launcher that fails is \<open>None\<close>.
\<close>

definition pf_kBlockThreads :: nat where "pf_kBlockThreads = 256"

definition BlockReduceMax :: "'f FloatOps \<Rightarrow> 'f list \<Rightarrow> 'f" where
  "BlockReduceMax F partials = halving_tree (f_max F) partials"

definition pf_BlockReduceSum :: "'f FloatOps \<Rightarrow> 'f list \<Rightarrow> 'f" where
  "pf_BlockReduceSum F partials = halving_tree (f_add F) partials"

definition PrefillCausalSoftmaxKernel ::
  "'f FloatOps \<Rightarrow> (nat \<Rightarrow> 'f) \<Rightarrow> nat \<Rightarrow> nat \<Rightarrow> int \<Rightarrow> nat \<times> nat \<Rightarrow> (nat \<Rightarrow> 16 word) \<Rightarrow> (nat \<Rightarrow> 16 word)" where
  "PrefillCausalSoftmaxKernel F scores chunk_len kv_len chunk_start blk probs =
     (case blk of (head, row) \<Rightarrow>
      if row \<ge> chunk_len then probs
      else
        let row_offset = (head * chunk_len + row) * kv_len;
            s_row = (\<lambda>j. scores (row_offset + j));
            q_pos = chunk_start + int row;
            live = (if q_pos + 1 < int kv_len then q_pos + 1 else int kv_len);
            local_max = (\<lambda>tid. fold (\<lambda>j m. f_max F m (s_row j)) (strided pf_kBlockThreads (nat live) tid) (f_lowest F));
            row_max = BlockReduceMax F (map local_max [0..<pf_kBlockThreads]);
            local_sum = (\<lambda>tid. fold (\<lambda>j s. f_add F s (f_exp F (f_sub F (s_row j) row_max))) (strided pf_kBlockThreads (nat live) tid) (f_zero F));
            denom = pf_BlockReduceSum F (map local_sum [0..<pf_kBlockThreads])
        in fold (\<lambda>j p. p(row_offset + j := float2half F (if int j < live then f_div F (f_exp F (f_sub F (s_row j) row_max)) denom else f_zero F)))
             (block_indices pf_kBlockThreads kv_len) probs)"

definition LaunchPrefillSoftmax ::
  "'f FloatOps \<Rightarrow> (nat \<Rightarrow> 'f) \<Rightarrow> int \<Rightarrow> int \<Rightarrow> int \<Rightarrow> int \<Rightarrow> (nat \<Rightarrow> 16 word) \<Rightarrow> (nat \<Rightarrow> 16 word) option" where
  "LaunchPrefillSoftmax F scores num_q_heads chunk_len kv_len chunk_start probs =
     (if num_q_heads \<le> 0 \<or> chunk_len \<le> 0 \<or> kv_len \<le> 0 then Some probs
      else if \<not> 0 \<le> chunk_start then None
      else if \<not> chunk_start + chunk_len \<le> kv_len then None
      else Some (fold (PrefillCausalSoftmaxKernel F scores (nat chunk_len) (nat kv_len) chunk_start)
                  (List.product [0..<nat num_q_heads] [0..<nat chunk_len]) probs))"

section \<open>One row\<close>

text \<open>The operations with the maximum in the place of the sum.\<close>

definition max_ops :: "'f FloatOps \<Rightarrow> 'f FloatOps" where
  "max_ops F = F\<lparr>f_add := f_max F, f_zero := f_lowest F\<rparr>"

lemma max_ops_simps [simp]: "f_add (max_ops F) = f_max F" "f_zero (max_ops F) = f_lowest F"
  by (simp_all add: max_ops_def)

lemma block_sum:
  assumes "\<And>tid. tid < 256 \<Longrightarrow> part tid = fold (\<lambda>j s. f_add F s (f j)) (strided 256 n tid) (f_zero F)"
  shows "summed F (image_mset f (mset [0..<n])) (halving_tree (f_add F) (map part [0..<256]))"
proof -
  have "summed F (image_mset f (mset (strided 256 n tid))) (map part [0..<256] ! tid)" if "tid < 256" for tid
    using summed_fold[OF summed.zero[of F], of f "strided 256 n tid"] that assms by simp
  then have "summed F (\<Sum>t\<in>{0..<2 ^ 8}. image_mset f (mset (strided 256 n t))) (halving_tree (f_add F) (map part [0..<256]))"
    by (intro halving_sums) simp_all
  then show ?thesis unfolding sum_mset_lists using scalar_columns[of 256 n] by simp
qed

text \<open>The row of probabilities: the first \<open>live\<close> keys have the softmax of their scores, the others are zero.\<close>

definition softmax_row :: "'f FloatOps \<Rightarrow> (nat \<Rightarrow> 'f) \<Rightarrow> nat \<Rightarrow> nat \<Rightarrow> (nat \<Rightarrow> 16 word) \<Rightarrow> bool" where
  "softmax_row F s live kv_len p \<longleftrightarrow>
     (\<exists>row_max denom. summed (max_ops F) (image_mset s (mset [0..<live])) row_max \<and>
        summed F (image_mset (\<lambda>j. f_exp F (f_sub F (s j) row_max)) (mset [0..<live])) denom \<and>
        (\<forall>j<kv_len. p j = float2half F (if j < live then f_div F (f_exp F (f_sub F (s j) row_max)) denom else f_zero F)))"

definition softmax_value :: "'f FloatOps \<Rightarrow> (nat \<Rightarrow> 'f) \<Rightarrow> nat \<Rightarrow> nat \<Rightarrow> 16 word" where
  "softmax_value F s live j =
     (let row_max = halving_tree (f_max F) (map (\<lambda>tid. fold (\<lambda>j m. f_max F m (s j)) (strided 256 live tid) (f_lowest F)) [0..<256]);
          denom = halving_tree (f_add F) (map (\<lambda>tid. fold (\<lambda>j a. f_add F a (f_exp F (f_sub F (s j) row_max))) (strided 256 live tid) (f_zero F)) [0..<256])
      in float2half F (if j < live then f_div F (f_exp F (f_sub F (s j) row_max)) denom else f_zero F))"

lemma softmax_value_row: "softmax_row F s live kv_len (softmax_value F s live)"
proof -
  have m: "summed (max_ops F) (image_mset s (mset [0..<live]))
      (halving_tree (f_max F) (map (\<lambda>tid. fold (\<lambda>j m. f_max F m (s j)) (strided 256 live tid) (f_lowest F)) [0..<256]))"
    using block_sum[of _ "max_ops F" s live] by simp
  show ?thesis
    unfolding softmax_row_def softmax_value_def Let_def using m block_sum[OF refl, of F _ live] by blast
qed

lemma softmax_value_cong:
  assumes "\<And>j. j < live \<Longrightarrow> s j = s' j"
  shows "softmax_value F s live = softmax_value F s' live"
proof -
  have st: "j < live" if "j \<in> set (strided 256 live tid)" "tid < 256" for j tid
    using that set_block_indices[of 256 live] by (auto simp: block_indices_def)
  have f: "map (\<lambda>tid. fold (\<lambda>j a. op a (s j)) (strided 256 live tid) z) [0..<256] =
      map (\<lambda>tid. fold (\<lambda>j a. op a (s' j)) (strided 256 live tid) z) [0..<256]" for op :: "'a \<Rightarrow> 'a \<Rightarrow> 'a" and z
    by (intro map_cong refl fold_cong) (auto simp: assms dest: st)
  show ?thesis
    unfolding softmax_value_def Let_def f f[of "\<lambda>a s. f_add F a (f_exp F (f_sub F s _))"] by (rule ext) (simp add: assms)
qed

lemma PrefillCausalSoftmaxKernel_row:
  assumes "row < chunk_len" "0 \<le> chunk_start" "chunk_start + int chunk_len \<le> int kv_len"
  shows "PrefillCausalSoftmaxKernel F scores chunk_len kv_len chunk_start (head, row) probs i =
    (if i \<in> {(head * chunk_len + row) * kv_len..<(head * chunk_len + row) * kv_len + kv_len}
     then softmax_value F (\<lambda>j. scores ((head * chunk_len + row) * kv_len + j)) (nat chunk_start + row + 1) (i - (head * chunk_len + row) * kv_len)
     else probs i)"
proof -
  define live where "live = nat chunk_start + row + 1"
  have l: "(if chunk_start + int row + 1 < int kv_len then chunk_start + int row + 1 else int kv_len) = int live"
    using assms by (simp add: live_def)
  define base where "base = (head * chunk_len + row) * kv_len"
  have b: "set (block_indices 256 kv_len) = {0..<kv_len}" by (rule set_block_indices) simp
  have "PrefillCausalSoftmaxKernel F scores chunk_len kv_len chunk_start (head, row) probs i =
      (if base \<le> i \<and> i - base \<in> {0..<kv_len} then softmax_value F (\<lambda>j. scores (base + j)) live (i - base) else probs i)"
    unfolding PrefillCausalSoftmaxKernel_def prod.case Let_def l fold_store pf_kBlockThreads_def nat_int of_nat_less_iff
      base_def[symmetric] softmax_value_def BlockReduceMax_def pf_BlockReduceSum_def b
    using assms(1) by (simp only: not_le[symmetric] if_False)
  moreover have "base \<le> i \<and> i - base \<in> {0..<kv_len} \<longleftrightarrow> i \<in> {base..<base + kv_len}" by auto
  ultimately show ?thesis unfolding base_def live_def by (simp only:)
qed

section \<open>All rows\<close>

lemma same_row:
  fixes r r' width i :: nat
  assumes "i \<in> {r * width..<r * width + width}" "i \<in> {r' * width..<r' * width + width}"
  shows "r = r'"
proof -
  have "r = i div width" if "i \<in> {r * width..<r * width + width}" for r
    using that by (intro div_nat_eqI[symmetric]) (auto simp: algebra_simps)
  from this[OF assms(1)] this[OF assms(2)] show ?thesis by simp
qed

lemma same_block: "row < n \<Longrightarrow> row' < n \<Longrightarrow> head * n + row = head' * n + row' \<Longrightarrow> head = head' \<and> row = row'" for n :: nat
  by (metis div_mult_self3 mod_mult_self3 div_less mod_less add.right_neutral add_0 not_less_zero)

lemma softmax_rows:
  fixes F :: "'f FloatOps" and scores and probs and heads n kv :: nat and chunk_start :: int
  assumes "0 \<le> chunk_start" "chunk_start + int n \<le> int kv"
  defines "probs' \<equiv> fold (PrefillCausalSoftmaxKernel F scores n kv chunk_start) (List.product [0..<heads] [0..<n]) probs"
  shows "head < heads \<Longrightarrow> row < n \<Longrightarrow> j < kv \<Longrightarrow>
      probs' ((head * n + row) * kv + j) = softmax_value F (\<lambda>j. scores ((head * n + row) * kv + j)) (nat chunk_start + row + 1) j"
    and "heads * n * kv \<le> i \<Longrightarrow> probs' i = probs i"
proof -
  define base where "base = (\<lambda>(head, row). (head * n + row) * kv)"
  define R where "R = (\<lambda>x. {base x..<base x + kv})"
  define V where "V = (\<lambda>x i. softmax_value F (\<lambda>j. scores (base x + j)) (nat chunk_start + snd x + 1) (i - base x))"
  have K: "PrefillCausalSoftmaxKernel F scores n kv chunk_start x b i = (if i \<in> R x then V x i else b i)"
    if "x \<in> set (List.product [0..<heads] [0..<n])" for x b i
  proof -
    obtain head row where x: "x = (head, row)" "row < n" using \<open>x \<in> _\<close> by auto
    show ?thesis unfolding x R_def V_def base_def prod.case snd_conv
      by (rule PrefillCausalSoftmaxKernel_row[OF x(2) assms(1,2)])
  qed
  have D: "x = y" if "x \<in> set (List.product [0..<heads] [0..<n])" "y \<in> set (List.product [0..<heads] [0..<n])" "i \<in> R x" "i \<in> R y" for x y i
  proof -
    obtain head row where x: "x = (head, row)" "row < n" using \<open>x \<in> _\<close> by auto
    obtain head' row' where y: "y = (head', row')" "row' < n" using \<open>y \<in> _\<close> by auto
    have "head * n + row = head' * n + row'" using that(3,4) unfolding R_def base_def x y prod.case by (rule same_row)
    then show ?thesis using same_block[OF x(2) y(2)] x y by simp
  qed
  note f = fold_regions[where xs = "List.product [0..<heads] [0..<n]" and R = R and V = V
      and K = "PrefillCausalSoftmaxKernel F scores n kv chunk_start", OF K D]
  show "probs' ((head * n + row) * kv + j) = softmax_value F (\<lambda>j. scores ((head * n + row) * kv + j)) (nat chunk_start + row + 1) j"
    if "head < heads" "row < n" "j < kv"
    using f(1)[where x = "(head, row)" and i = "(head * n + row) * kv + j" and b = probs] that by (simp add: probs'_def R_def V_def base_def)
  show "probs' i = probs i" if "heads * n * kv \<le> i"
  proof -
    have "i \<notin> R x" if "x \<in> set (List.product [0..<heads] [0..<n])" for x
    proof -
      obtain head row where x: "x = (head, row)" "head < heads" "row < n" using \<open>x \<in> _\<close> by auto
      have "head * n + row + 1 \<le> heads * n" using x by (metis Suc_eq_plus1 Suc_leI add.commute mult_Suc nat_add_left_cancel_less less_le_trans mult_le_mono1)
      then have "(head * n + row + 1) * kv \<le> heads * n * kv" by (rule mult_le_mono1)
      then show ?thesis using \<open>heads * n * kv \<le> i\<close> by (simp add: R_def base_def x add_mult_distrib)
    qed
    then show ?thesis using f(2)[where i = i and b = probs] by (simp add: probs'_def)
  qed
qed

text \<open>In exact arithmetic the row is the softmax of the live scores.\<close>

lemma softmax_row_real:
  fixes F :: "real FloatOps"
  assumes ops: "f_add F = (+)" "f_zero F = 0" "f_sub F = (-)" "f_div F = (/)" "f_exp F = exp"
    and "softmax_row F s live kv_len p" "j < live" "j < kv_len"
  shows "p j = float2half F (exp (s j) / (\<Sum>k<live. exp (s k)))"
proof -
  obtain m denom where d: "summed F (image_mset (\<lambda>j. exp (s j - m)) (mset [0..<live])) denom"
    and p: "p j = float2half F (exp (s j - m) / denom)"
    using assms(6-8) unfolding softmax_row_def ops by auto
  have "denom = (\<Sum>k<live. exp (s k - m))" using summed_exact[OF ops(1,2) d] by (simp add: sum_unfold_sum_mset lessThan_atLeast0)
  also have "\<dots> = (\<Sum>k<live. exp (s k)) / exp m" by (simp add: exp_diff sum_divide_distrib)
  finally show ?thesis by (simp add: p exp_diff)
qed

text \<open>
  C33: When the launch of the causal softmax returns, the row of each query and head has for each key up
  to the query's own position the exponential of its score less the maximum, divided by a sum that
  holds the exponential of each of these keys once, rounded once, and zero for every later key; what
  lies past the rows is unchanged; and the scores of the masked keys have no influence on the result.
\<close>

theorem softmax_exact:
  fixes F :: "'f FloatOps" and num_q_heads chunk_len kv_len :: int
  assumes "0 < num_q_heads" "0 < chunk_len" "0 < kv_len"
    and "LaunchPrefillSoftmax F scores num_q_heads chunk_len kv_len chunk_start probs = Some probs'"
  defines "row_at \<equiv> \<lambda>head row. (head * nat chunk_len + row) * nat kv_len"
  shows "(\<forall>head<nat num_q_heads. \<forall>row<nat chunk_len.
      softmax_row F (\<lambda>j. scores (row_at head row + j)) (nat chunk_start + row + 1) (nat kv_len) (\<lambda>j. probs' (row_at head row + j))) \<and>
    (\<forall>i\<ge>nat num_q_heads * nat chunk_len * nat kv_len. probs' i = probs i) \<and>
    (\<forall>scores'. (\<forall>head<nat num_q_heads. \<forall>row<nat chunk_len. \<forall>j\<le>nat chunk_start + row. scores' (row_at head row + j) = scores (row_at head row + j)) \<longrightarrow>
      LaunchPrefillSoftmax F scores' num_q_heads chunk_len kv_len chunk_start probs = Some probs')"
proof -
  have c: "0 \<le> chunk_start" "chunk_start + chunk_len \<le> kv_len"
    and p': "probs' = fold (PrefillCausalSoftmaxKernel F scores (nat chunk_len) (nat kv_len) chunk_start)
      (List.product [0..<nat num_q_heads] [0..<nat chunk_len]) probs"
    using assms(1-4) by (auto simp: LaunchPrefillSoftmax_def split: if_splits)
  have c': "chunk_start + int (nat chunk_len) \<le> int (nat kv_len)" using c(2) assms(2,3) by simp
  note rows = softmax_rows[where F = F and scores = scores and probs = probs and heads = "nat num_q_heads", OF c(1) c', folded p']
  have "softmax_row F (\<lambda>j. scores (row_at head row + j)) (nat chunk_start + row + 1) (nat kv_len) (\<lambda>j. probs' (row_at head row + j))"
    if "head < nat num_q_heads" "row < nat chunk_len" for head row
    using softmax_value_row[of F "\<lambda>j. scores (row_at head row + j)" "nat chunk_start + row + 1" "nat kv_len"] rows(1)[OF that]
    unfolding softmax_row_def row_at_def by simp
  moreover have "\<forall>i\<ge>nat num_q_heads * nat chunk_len * nat kv_len. probs' i = probs i" using rows(2) by blast
  moreover have "LaunchPrefillSoftmax F scores' num_q_heads chunk_len kv_len chunk_start probs = Some probs'"
    if live: "\<forall>head<nat num_q_heads. \<forall>row<nat chunk_len. \<forall>j\<le>nat chunk_start + row. scores' (row_at head row + j) = scores (row_at head row + j)" for scores'
  proof -
    have k: "PrefillCausalSoftmaxKernel F scores' (nat chunk_len) (nat kv_len) chunk_start (head, row) =
        PrefillCausalSoftmaxKernel F scores (nat chunk_len) (nat kv_len) chunk_start (head, row)"
      if "head < nat num_q_heads" "row < nat chunk_len" for head row
    proof (intro ext)
      fix b i
      have "softmax_value F (\<lambda>j. scores' ((head * nat chunk_len + row) * nat kv_len + j)) (nat chunk_start + row + 1) =
          softmax_value F (\<lambda>j. scores ((head * nat chunk_len + row) * nat kv_len + j)) (nat chunk_start + row + 1)"
        by (rule softmax_value_cong) (use live that in \<open>auto simp: row_at_def\<close>)
      then show "PrefillCausalSoftmaxKernel F scores' (nat chunk_len) (nat kv_len) chunk_start (head, row) b i =
          PrefillCausalSoftmaxKernel F scores (nat chunk_len) (nat kv_len) chunk_start (head, row) b i"
        unfolding PrefillCausalSoftmaxKernel_row[OF that(2) c(1) c'] by (simp only:)
    qed
    have "probs' = fold (PrefillCausalSoftmaxKernel F scores' (nat chunk_len) (nat kv_len) chunk_start)
        (List.product [0..<nat num_q_heads] [0..<nat chunk_len]) probs"
      unfolding p' by (rule fold_cong) (use k in \<open>auto simp del: nat_less_iff\<close>)
    then show ?thesis using assms(1-3) c by (simp add: LaunchPrefillSoftmax_def)
  qed
  ultimately show ?thesis by blast
qed

text \<open>One head, two queries at positions 1 and 2 of three keys; the score of the masked key is any number.\<close>

theorem softmax_exact_witness:
  "\<exists>probs'. LaunchPrefillSoftmax int_ops (\<lambda>i. if i = 2 then 99999 else 2) 1 2 3 1 (\<lambda>_. 7) = Some probs' \<and>
     LaunchPrefillSoftmax int_ops (\<lambda>_. 2) 1 2 3 1 (\<lambda>_. 7) = Some probs' \<and> probs' 2 = 0 \<and> probs' 6 = 7"
proof -
  obtain probs' where l: "LaunchPrefillSoftmax int_ops (\<lambda>i. if i = 2 then 99999 else 2) 1 2 3 1 (\<lambda>_. 7) = Some probs'"
    by (simp add: LaunchPrefillSoftmax_def)
  note t = softmax_exact[OF _ _ _ l, simplified]
  have "LaunchPrefillSoftmax int_ops (\<lambda>_. 2) 1 2 3 1 (\<lambda>_. 7) = Some probs'"
    by (rule t[THEN conjunct2, THEN conjunct2, rule_format]) (auto simp: nat_eq_iff less_Suc_eq numeral_2_eq_2)
  moreover have "probs' 2 = 0" using t[THEN conjunct1, rule_format, of 0] by (auto simp: softmax_row_def int_ops_def)
  moreover have "probs' 6 = 7" using t by simp
  ultimately show ?thesis using l by blast
qed

end
