(* ===== verification/Paged_Attention.thy ===== *)
theory Paged_Attention
  imports Float_Sums
begin

text \<open>
  Paged decode attention, \<^verbatim>\<open>src/src/kernels/paged_attention.cu\<close>: the primary kernel, whose block
  serves the six query heads of one KV head of one sequence, the oracle kernel of one warp per query
  head, and the launchers with their contract checks.

  The phases of a block are separated by barriers; in each phase a thread writes only what belongs to
  it, so a phase is a function of the shared memory before it. A tile that is copied asynchronously is
  in flight from its issue until a wait has retired it; while it is in flight its buffer holds
  arbitrary values (\<open>junk\<close>). The shared memory starts with arbitrary contents. The buffers of a
  launch do not overlap and each is a function from the element index to the half stored there; the
  entries of a block table are block numbers.
\<close>

unbundle bit_operations_syntax

definition pa_kKvBlockSize :: nat where "pa_kKvBlockSize = 16"
definition kHeadDim :: nat where "kHeadDim = 128"
definition kGroupSize :: nat where "kGroupSize = 6"
definition kWarpSize :: nat where "kWarpSize = 32"
definition kDimsPerLane :: nat where "kDimsPerLane = kHeadDim div kWarpSize"
definition kThreadsPreAmpere :: nat where "kThreadsPreAmpere = 128"
definition kThreadsAmpere :: nat where "kThreadsAmpere = 256"
definition pa_kVecHalves :: nat where "pa_kVecHalves = 8"
definition kTileVecs :: nat where "kTileVecs = pa_kKvBlockSize * kHeadDim div pa_kVecHalves"
definition kScoreLanes :: nat where "kScoreLanes = 8"

lemmas pa_consts = pa_kKvBlockSize_def kHeadDim_def kGroupSize_def kWarpSize_def kDimsPerLane_def kThreadsPreAmpere_def
  kThreadsAmpere_def pa_kVecHalves_def kTileVecs_def kScoreLanes_def

definition PoolRowOffset :: "nat \<Rightarrow> nat \<Rightarrow> nat \<Rightarrow> nat \<Rightarrow> nat \<Rightarrow> nat" where
  "PoolRowOffset blk kv kv_head num_kv_heads pslot =
     (((blk * 2 + kv) * num_kv_heads + kv_head) * pa_kKvBlockSize + pslot) * kHeadDim"

type_synonym halves = "nat \<Rightarrow> 16 word"

text \<open>The arguments of a launch, without the data: element strides, the block tables and lengths.\<close>

record 'f AttnArgs =
  at_out_row_stride :: nat
  at_q_row_stride :: nat
  at_block_tables :: "nat \<Rightarrow> nat"
  at_seq_lens :: "nat \<Rightarrow> int"
  at_max_blocks :: nat
  at_num_kv_heads :: nat
  at_scale :: 'f

text \<open>A tile buffer is indexed by the linear element, \<^verbatim>\<open>slot * kHeadDim + dim\<close>.\<close>

record 'f SharedStorage =
  q_tile :: "nat \<Rightarrow> nat \<Rightarrow> 'f"
  k_tile :: "nat \<Rightarrow> halves"
  v_tile :: "nat \<Rightarrow> halves"
  sm_scores :: "nat \<Rightarrow> nat \<Rightarrow> 'f"
  sm_m :: "nat \<Rightarrow> 'f"
  sm_l :: "nat \<Rightarrow> 'f"
  sm_alpha :: "nat \<Rightarrow> 'f"

text \<open>With the registers \<open>acc\<close> of the threads and the copies in flight, as tile and buffer.\<close>

record 'f Cta = "'f SharedStorage" +
  acc :: "nat \<Rightarrow> nat \<Rightarrow> 'f"
  in_flight :: "(nat \<times> nat) list"

section \<open>Staging\<close>

text \<open>One vector of eight halves.\<close>

definition copy_vec :: "(nat \<Rightarrow> 16 word) \<Rightarrow> nat \<Rightarrow> halves \<Rightarrow> halves" where
  "copy_vec src i dst = (\<lambda>e. if e div pa_kVecHalves = i then src e else dst e)"

definition copy_tile :: "nat \<Rightarrow> halves \<Rightarrow> nat \<Rightarrow> halves \<Rightarrow> halves" where
  "copy_tile threads pool base dst = fold (copy_vec (\<lambda>e. pool (base + e))) (block_indices threads kTileVecs) dst"

definition table_entry :: "'f AttnArgs \<Rightarrow> nat \<Rightarrow> nat \<Rightarrow> nat" where
  "table_entry a sq tile = at_block_tables a (sq * at_max_blocks a + tile)"

definition stage_tile ::
  "nat \<Rightarrow> 'f AttnArgs \<Rightarrow> halves \<Rightarrow> nat \<times> nat \<Rightarrow> nat \<times> nat \<Rightarrow> 'f Cta \<Rightarrow> 'f Cta" where
  "stage_tile threads a pool cta tb st =
     (case (cta, tb) of ((sq, kv_head), (tile, buf)) \<Rightarrow>
      let blk = table_entry a sq tile;
          k4 = PoolRowOffset blk 0 kv_head (at_num_kv_heads a) 0;
          v4 = PoolRowOffset blk 1 kv_head (at_num_kv_heads a) 0
      in st\<lparr>k_tile := (k_tile st)(buf := copy_tile threads pool k4 (k_tile st buf)),
            v_tile := (v_tile st)(buf := copy_tile threads pool v4 (v_tile st buf))\<rparr>)"

definition stage_async :: "(nat \<Rightarrow> halves) \<Rightarrow> nat \<times> nat \<Rightarrow> 'f Cta \<Rightarrow> 'f Cta" where
  "stage_async junk tb st =
     st\<lparr>k_tile := (k_tile st)(snd tb := junk (2 * fst tb)), v_tile := (v_tile st)(snd tb := junk (2 * fst tb + 1)),
        in_flight := in_flight st @ [tb]\<rparr>"

text \<open>Wait until at most \<open>n\<close> groups are in flight; the older ones have landed.\<close>

definition wait_prior :: "nat \<Rightarrow> 'f AttnArgs \<Rightarrow> halves \<Rightarrow> nat \<times> nat \<Rightarrow> nat \<Rightarrow> 'f Cta \<Rightarrow> 'f Cta" where
  "wait_prior threads a pool cta n st =
     (let k = length (in_flight st) - n
      in (fold (stage_tile threads a pool cta) (take k (in_flight st)) st)\<lparr>in_flight := drop k (in_flight st)\<rparr>)"

text \<open>Step (a) of the loop: the buffer of the tile, and the state when it can be read.\<close>

definition acquire_tile ::
  "nat \<Rightarrow> bool \<Rightarrow> (nat \<Rightarrow> halves) \<Rightarrow> 'f AttnArgs \<Rightarrow> halves \<Rightarrow> nat \<times> nat \<Rightarrow> nat \<Rightarrow> nat \<Rightarrow> 'f Cta \<Rightarrow> nat \<times> 'f Cta" where
  "acquire_tile threads cpasync junk a pool cta num_tiles tile st =
     (if cpasync then
        (tile mod 2,
         if tile + 1 < num_tiles
         then wait_prior threads a pool cta 1 (stage_async junk (tile + 1, (tile + 1) mod 2) st)
         else wait_prior threads a pool cta 0 st)
      else (0, stage_tile threads a pool cta (tile, 0) st))"

section \<open>Scores\<close>

definition dot_partial :: "'f FloatOps \<Rightarrow> (nat \<Rightarrow> 'f) \<Rightarrow> (nat \<Rightarrow> 16 word) \<Rightarrow> nat \<Rightarrow> 'f" where
  "dot_partial F q k sub =
     fold (\<lambda>d dot. f_fma F (q d) (half2float F (k d)) dot)
       (concat (map (\<lambda>c. map (\<lambda>e. 64 * c + 8 * sub + e) [0..<8]) [0..<2])) (f_zero F)"

definition shfl_down :: "'f FloatOps \<Rightarrow> nat \<Rightarrow> (nat \<Rightarrow> 'f) \<Rightarrow> (nat \<Rightarrow> 'f)" where
  "shfl_down F off f = (\<lambda>lane. f_add F (f lane) (f (if lane + off < kWarpSize then lane + off else lane)))"

text \<open>One iteration of the pair loop of a warp whose first pair is \<open>p0\<close>: four pairs, eight lanes each.\<close>

definition score_step :: "'f FloatOps \<Rightarrow> nat \<Rightarrow> nat \<Rightarrow> nat \<Rightarrow> nat \<Rightarrow> 'f Cta \<Rightarrow> 'f Cta" where
  "score_step F buf tile_start seq_len p0 st =
     (let pair_of = (\<lambda>lane. p0 + lane div kScoreLanes);
          dots = fold (shfl_down F) [4, 2, 1]
            (\<lambda>lane. dot_partial F (q_tile st (pair_of lane div pa_kKvBlockSize))
               (\<lambda>d. k_tile st buf (pair_of lane mod pa_kKvBlockSize * kHeadDim + d)) (lane mod kScoreLanes))
      in fold (\<lambda>wpair st.
           let h = (p0 + wpair) div pa_kKvBlockSize; t = (p0 + wpair) mod pa_kKvBlockSize in
           st\<lparr>sm_scores := (sm_scores st)(h := (sm_scores st h)
                (t := if tile_start + t < seq_len then dots (kScoreLanes * wpair) else f_neg_inf F))\<rparr>)
         [0..<kWarpSize div kScoreLanes] st)"

definition warp_pairs :: "nat \<Rightarrow> nat list" where
  "warp_pairs threads =
     (let kWarps = threads div kWarpSize; per_warp = kWarpSize div kScoreLanes
      in concat (map (\<lambda>warp. strided (kWarps * per_warp) (kGroupSize * pa_kKvBlockSize) (warp * per_warp)) [0..<kWarps]))"

definition score_phase :: "'f FloatOps \<Rightarrow> nat \<Rightarrow> nat \<Rightarrow> nat \<Rightarrow> nat \<Rightarrow> 'f Cta \<Rightarrow> 'f Cta" where
  "score_phase F threads buf tile_start seq_len st = fold (score_step F buf tile_start seq_len) (warp_pairs threads) st"

section \<open>Online softmax\<close>

definition shfl_xor :: "('f \<Rightarrow> 'f \<Rightarrow> 'f) \<Rightarrow> nat \<Rightarrow> (nat \<Rightarrow> 'f) \<Rightarrow> (nat \<Rightarrow> 'f)" where
  "shfl_xor op off f = (\<lambda>tid. op (f tid) (f (tid XOR off)))"

definition softmax_phase :: "'f FloatOps \<Rightarrow> nat \<Rightarrow> 'f Cta \<Rightarrow> 'f Cta" where
  "softmax_phase F tile_valid st =
     (let head = (\<lambda>tid. tid div pa_kKvBlockSize); tok = (\<lambda>tid. tid mod pa_kKvBlockSize);
          sc = (\<lambda>tid. sm_scores st (head tid) (tok tid));
          tile_max = fold (shfl_xor (f_max F)) [8, 4, 2, 1] sc;
          m_new = (\<lambda>tid. f_max F (sm_m st (head tid)) (tile_max tid));
          prob = (\<lambda>tid. if tok tid < tile_valid then f_exp F (f_sub F (sc tid) (m_new tid)) else f_zero F);
          tile_sum = fold (shfl_xor (f_add F)) [8, 4, 2, 1] prob;
          alpha = (\<lambda>h. f_exp F (f_sub F (sm_m st h) (m_new (h * pa_kKvBlockSize))))
      in st\<lparr>sm_scores := (\<lambda>h t. if h < kGroupSize \<and> t < pa_kKvBlockSize then prob (h * pa_kKvBlockSize + t) else sm_scores st h t),
            sm_alpha := (\<lambda>h. if h < kGroupSize then alpha h else sm_alpha st h),
            sm_m := (\<lambda>h. if h < kGroupSize then m_new (h * pa_kKvBlockSize) else sm_m st h),
            sm_l := (\<lambda>h. if h < kGroupSize then f_add F (f_mul F (sm_l st h) (alpha h)) (tile_sum (h * pa_kKvBlockSize)) else sm_l st h)\<rparr>)"

section \<open>Accumulation\<close>

definition owned_head :: "nat \<Rightarrow> nat \<Rightarrow> nat \<Rightarrow> nat" where
  "owned_head threads tid j = tid div kHeadDim + j * (threads div kHeadDim)"

definition fold_token :: "'f FloatOps \<Rightarrow> nat \<Rightarrow> nat \<Rightarrow> nat \<Rightarrow> 'f Cta \<Rightarrow> 'f Cta" where
  "fold_token F threads buf t st =
     st\<lparr>acc := (\<lambda>tid j. f_fma F (sm_scores st (owned_head threads tid j) t)
          (half2float F (v_tile st buf (t * kHeadDim + tid mod kHeadDim))) (acc st tid j))\<rparr>"

definition accumulate_phase :: "'f FloatOps \<Rightarrow> nat \<Rightarrow> nat \<Rightarrow> nat \<Rightarrow> 'f Cta \<Rightarrow> 'f Cta" where
  "accumulate_phase F threads buf tile_valid st =
     (let st1 = st\<lparr>acc := (\<lambda>tid j. f_mul F (acc st tid j) (sm_alpha st (owned_head threads tid j)))\<rparr>
      in if tile_valid = pa_kKvBlockSize then fold (fold_token F threads buf) [0..<pa_kKvBlockSize] st1
         else fold (fold_token F threads buf) [0..<tile_valid] st1)"

section \<open>The primary kernel\<close>

definition tile_iteration ::
  "'f FloatOps \<Rightarrow> nat \<Rightarrow> bool \<Rightarrow> (nat \<Rightarrow> halves) \<Rightarrow> 'f AttnArgs \<Rightarrow> halves \<Rightarrow> nat \<times> nat \<Rightarrow> nat \<Rightarrow> nat \<Rightarrow> 'f Cta \<Rightarrow> 'f Cta" where
  "tile_iteration F threads cpasync junk a pool cta seq_len tile st =
     (let tile_start = tile * pa_kKvBlockSize;
          tile_valid = min pa_kKvBlockSize (seq_len - tile_start);
          num_tiles = (seq_len + pa_kKvBlockSize - 1) div pa_kKvBlockSize;
          (buf, st1) = acquire_tile threads cpasync junk a pool cta num_tiles tile st;
          st2 = score_phase F threads buf tile_start seq_len st1;
          st3 = softmax_phase F tile_valid st2
      in accumulate_phase F threads buf tile_valid st3)"

definition init_cta :: "'f FloatOps \<Rightarrow> nat \<Rightarrow> 'f AttnArgs \<Rightarrow> halves \<Rightarrow> nat \<times> nat \<Rightarrow> 'f Cta \<Rightarrow> 'f Cta" where
  "init_cta F threads a q cta st =
     (let q_row = fst cta * at_q_row_stride a + snd cta * kGroupSize * kHeadDim;
          st1 = fold (\<lambda>i st. st\<lparr>q_tile := (q_tile st)(i div kHeadDim := (q_tile st (i div kHeadDim))
                    (i mod kHeadDim := f_mul F (half2float F (q (q_row + i))) (at_scale a)))\<rparr>)
                  (block_indices threads (kGroupSize * kHeadDim)) st
      in st1\<lparr>sm_m := (\<lambda>h. if h < kGroupSize then f_neg_inf F else sm_m st1 h),
             sm_l := (\<lambda>h. if h < kGroupSize then f_zero F else sm_l st1 h),
             acc := (\<lambda>_ _. f_zero F), in_flight := []\<rparr>)"

definition PagedAttentionDecodeKernel ::
  "'f FloatOps \<Rightarrow> nat \<Rightarrow> bool \<Rightarrow> (nat \<Rightarrow> halves) \<Rightarrow> 'f Cta \<Rightarrow> 'f AttnArgs \<Rightarrow> halves \<Rightarrow> halves \<Rightarrow> nat \<times> nat \<Rightarrow> halves \<Rightarrow> halves" where
  "PagedAttentionDecodeKernel F threads cpasync junk smem a q pool cta out =
     (let seq_len = min (at_seq_lens a (fst cta)) (int (at_max_blocks a * pa_kKvBlockSize)) in
      if seq_len \<le> 0 then out
      else
        let n = nat seq_len;
            num_tiles = (n + pa_kKvBlockSize - 1) div pa_kKvBlockSize;
            st0 = init_cta F threads a q cta smem;
            st1 = (if cpasync then stage_async junk (0, 0) st0 else st0);
            st = fold (tile_iteration F threads cpasync junk a pool cta n) [0..<num_tiles] st1;
            out_row = fst cta * at_out_row_stride a + snd cta * kGroupSize * kHeadDim
        in fold (\<lambda>(tid, j) out. let h = owned_head threads tid j in
                   out(out_row + (h * kHeadDim + tid mod kHeadDim) := float2half F (f_div F (acc st tid j) (sm_l st h))))
             (List.product [0..<threads] [0..<kGroupSize * kHeadDim div threads]) out)"

section \<open>The oracle kernel\<close>

definition oracle_score :: "'f FloatOps \<Rightarrow> 'f AttnArgs \<Rightarrow> halves \<Rightarrow> (nat \<Rightarrow> nat \<Rightarrow> 'f) \<Rightarrow> nat \<Rightarrow> nat \<Rightarrow> nat \<Rightarrow> nat \<Rightarrow> 'f" where
  "oracle_score F a pool qv sq kv_head pos =
     (let k_base = PoolRowOffset (table_entry a sq (pos div pa_kKvBlockSize)) 0 kv_head (at_num_kv_heads a) (pos mod pa_kKvBlockSize)
      in fold (shfl_xor (f_add F)) [16, 8, 4, 2, 1]
           (\<lambda>lane. fold (\<lambda>j dot. f_fma F (qv lane j) (half2float F (pool (k_base + lane + j * kWarpSize))) dot) [0..<kDimsPerLane] (f_zero F)))"

definition PagedAttentionDecodeOracleKernel ::
  "'f FloatOps \<Rightarrow> nat \<Rightarrow> 'f AttnArgs \<Rightarrow> halves \<Rightarrow> halves \<Rightarrow> nat \<times> nat \<Rightarrow> halves \<Rightarrow> halves" where
  "PagedAttentionDecodeOracleKernel F q_heads_per_kv a q pool cta out =
     (case cta of (sq, q_head) \<Rightarrow>
      let seq_len = min (at_seq_lens a sq) (int (at_max_blocks a * pa_kKvBlockSize)) in
      if seq_len \<le> 0 then out
      else
        let n = nat seq_len;
            kv_head = q_head div q_heads_per_kv;
            q_row = sq * at_q_row_stride a + q_head * kHeadDim;
            qv = (\<lambda>lane j. f_mul F (half2float F (q (q_row + lane + j * kWarpSize))) (at_scale a));
            score_at = oracle_score F a pool qv sq kv_head;
            m = (\<lambda>lane. fold (\<lambda>pos m. f_max F m (score_at pos lane)) [0..<n] (f_neg_inf F));
            (l, ac) = fold (\<lambda>pos (l, ac).
               let p = (\<lambda>lane. f_exp F (f_sub F (score_at pos lane) (m lane)));
                   v_base = PoolRowOffset (table_entry a sq (pos div pa_kKvBlockSize)) 1 kv_head (at_num_kv_heads a) (pos mod pa_kKvBlockSize)
               in ((\<lambda>lane. f_add F (l lane) (p lane)),
                   (\<lambda>lane j. f_fma F (p lane) (half2float F (pool (v_base + lane + j * kWarpSize))) (ac lane j))))
               [0..<n] ((\<lambda>_. f_zero F), (\<lambda>_ _. f_zero F));
            out_row = sq * at_out_row_stride a + q_head * kHeadDim
        in fold (\<lambda>(lane, j) out. out(out_row + lane + j * kWarpSize := float2half F (f_div F (ac lane j) (l lane))))
             (List.product [0..<kWarpSize] [0..<kDimsPerLane]) out)"

section \<open>Launchers\<close>

text \<open>The arguments of the host functions; a violated contract aborts the process, \<open>None\<close>.\<close>

record 'f AttnCall =
  ac_pointers :: "int list"
  ac_out_row_stride :: int
  ac_q_row_stride :: int
  ac_block_tables :: "nat \<Rightarrow> nat"
  ac_seq_lens :: "nat \<Rightarrow> int"
  ac_num_seqs :: int
  ac_max_blocks_per_seq :: int
  ac_num_q_heads :: int
  ac_num_kv_heads :: int
  ac_head_dim :: int
  ac_scale :: 'f

definition RequireContract :: "bool \<Rightarrow> unit option" where
  "RequireContract ok = (if ok then Some () else None)"

definition CheckCommonContract :: "'f AttnCall \<Rightarrow> unit option" where
  "CheckCommonContract c =
     Option.bind (RequireContract (0 \<notin> set (ac_pointers c))) (\<lambda>_.
     Option.bind (RequireContract (ac_head_dim c = int kHeadDim)) (\<lambda>_.
     Option.bind (RequireContract (ac_num_kv_heads c \<ge> 1 \<and> ac_num_q_heads c \<ge> ac_num_kv_heads c \<and>
                     ac_num_q_heads c mod ac_num_kv_heads c = 0)) (\<lambda>_.
     Option.bind (RequireContract (ac_max_blocks_per_seq c \<ge> 1)) (\<lambda>_.
     let row_width = ac_num_q_heads c * ac_head_dim c in
     RequireContract (ac_q_row_stride c \<ge> row_width \<and> ac_out_row_stride c \<ge> row_width)))))"

definition kernel_args :: "'f AttnCall \<Rightarrow> 'f AttnArgs" where
  "kernel_args c = \<lparr>at_out_row_stride = nat (ac_out_row_stride c), at_q_row_stride = nat (ac_q_row_stride c),
     at_block_tables = ac_block_tables c, at_seq_lens = ac_seq_lens c, at_max_blocks = nat (ac_max_blocks_per_seq c),
     at_num_kv_heads = nat (ac_num_kv_heads c), at_scale = ac_scale c\<rparr>"

definition LaunchPagedAttentionDecode ::
  "'f FloatOps \<Rightarrow> int \<Rightarrow> bool \<Rightarrow> (nat \<times> nat \<Rightarrow> nat \<Rightarrow> halves) \<Rightarrow> (nat \<times> nat \<Rightarrow> 'f Cta) \<Rightarrow> 'f AttnCall \<Rightarrow> halves \<Rightarrow> halves \<Rightarrow> halves \<Rightarrow> halves option" where
  "LaunchPagedAttentionDecode F compute_major cpasync junk smem c q pool out =
     (if ac_num_seqs c \<le> 0 then Some out
      else
        Option.bind (CheckCommonContract c) (\<lambda>_.
        Option.bind (RequireContract (ac_num_q_heads c = ac_num_kv_heads c * int kGroupSize)) (\<lambda>_.
        let ctas = List.product [0..<nat (ac_num_seqs c)] [0..<nat (ac_num_kv_heads c)] in
        if compute_major \<ge> 8
        then Some (fold (\<lambda>cta. PagedAttentionDecodeKernel F kThreadsAmpere cpasync (junk cta) (smem cta) (kernel_args c) q pool cta) ctas out)
        else Some (fold (\<lambda>cta. PagedAttentionDecodeKernel F kThreadsPreAmpere cpasync (junk cta) (smem cta) (kernel_args c) q pool cta) ctas out))))"

definition LaunchPagedAttentionDecodeOracle ::
  "'f FloatOps \<Rightarrow> 'f AttnCall \<Rightarrow> halves \<Rightarrow> halves \<Rightarrow> halves \<Rightarrow> halves option" where
  "LaunchPagedAttentionDecodeOracle F c q pool out =
     (if ac_num_seqs c \<le> 0 then Some out
      else
        Option.bind (CheckCommonContract c) (\<lambda>_.
        Some (fold (PagedAttentionDecodeOracleKernel F (nat (ac_num_q_heads c div ac_num_kv_heads c)) (kernel_args c) q pool)
               (List.product [0..<nat (ac_num_seqs c)] [0..<nat (ac_num_q_heads c)]) out)))"

end
