(* ===== verification/Attention_Phases.thy ===== *)
theory Attention_Phases
  imports Paged_Attention
begin

text \<open>
  The phases of the decode attention block, one lemma each, and the reference they implement: the
  online softmax of one output element over the scores and values of the live positions, which knows
  no threads, buffers or tables.
\<close>

unbundle bit_operations_syntax

section \<open>The reference\<close>

definition tree16 :: "('f \<Rightarrow> 'f \<Rightarrow> 'f) \<Rightarrow> (nat \<Rightarrow> 'f) \<Rightarrow> nat \<Rightarrow> 'f" where
  "tree16 op f = fold (shfl_xor op) [8, 4, 2, 1] f"

definition dot8 :: "'f FloatOps \<Rightarrow> (nat \<Rightarrow> 'f) \<Rightarrow> (nat \<Rightarrow> 16 word) \<Rightarrow> 'f" where
  "dot8 F q k =
     (let p = dot_partial F q k
      in f_add F (f_add F (f_add F (p 0) (p 4)) (f_add F (p 2) (p 6))) (f_add F (f_add F (p 1) (p 5)) (f_add F (p 3) (p 7))))"

text \<open>The scores of a tile, masked, and what the lanes of a head compute from them and the maximum so far.\<close>

definition tile_scores :: "'f FloatOps \<Rightarrow> (nat \<Rightarrow> 'f) \<Rightarrow> nat \<Rightarrow> nat \<Rightarrow> nat \<Rightarrow> 'f" where
  "tile_scores F sc n tile t = (if 16 * tile + t < n then sc (16 * tile + t) else f_neg_inf F)"

definition new_max :: "'f FloatOps \<Rightarrow> 'f \<Rightarrow> (nat \<Rightarrow> 'f) \<Rightarrow> nat \<Rightarrow> 'f" where
  "new_max F m s t = f_max F m (tree16 (f_max F) s t)"

definition tile_prob :: "'f FloatOps \<Rightarrow> 'f \<Rightarrow> (nat \<Rightarrow> 'f) \<Rightarrow> nat \<Rightarrow> nat \<Rightarrow> 'f" where
  "tile_prob F m s valid t = (if t < valid then f_exp F (f_sub F (s t) (new_max F m s t)) else f_zero F)"

definition rescale :: "'f FloatOps \<Rightarrow> 'f \<Rightarrow> (nat \<Rightarrow> 'f) \<Rightarrow> 'f" where
  "rescale F m s = f_exp F (f_sub F m (new_max F m s 0))"

definition tile_step :: "'f FloatOps \<Rightarrow> (nat \<Rightarrow> 'f) \<Rightarrow> (nat \<Rightarrow> 'f) \<Rightarrow> nat \<Rightarrow> nat \<Rightarrow> 'f \<times> 'f \<times> 'f \<Rightarrow> 'f \<times> 'f \<times> 'f" where
  "tile_step F sc v n tile = (\<lambda>(m, l, a).
     let s = tile_scores F sc n tile; valid = min 16 (n - 16 * tile); p = tile_prob F m s valid
     in (new_max F m s 0, f_add F (f_mul F l (rescale F m s)) (tree16 (f_add F) p 0),
         fold (\<lambda>t a. f_fma F (p t) (v (16 * tile + t)) a) [0..<valid] (f_mul F a (rescale F m s))))"

definition online :: "'f FloatOps \<Rightarrow> (nat \<Rightarrow> 'f) \<Rightarrow> (nat \<Rightarrow> 'f) \<Rightarrow> nat \<Rightarrow> nat \<Rightarrow> 'f \<times> 'f \<times> 'f" where
  "online F sc v n tiles = fold (tile_step F sc v n) [0..<tiles] (f_neg_inf F, f_zero F, f_zero F)"

definition attend :: "'f FloatOps \<Rightarrow> (nat \<Rightarrow> 'f) \<Rightarrow> (nat \<Rightarrow> 'f) \<Rightarrow> nat \<Rightarrow> 16 word" where
  "attend F sc v n = (case online F sc v n ((n + 15) div 16) of (m, l, a) \<Rightarrow> float2half F (f_div F a l))"

section \<open>Lanes\<close>

lemma xor16:
  fixes h t off :: nat
  assumes "t < 16" "off < 16"
  shows "(16 * h + t) XOR off = 16 * h + (t XOR off)" and "t XOR off < 16"
proof -
  have "take_bit 4 (t XOR off) = t XOR off"
    using assms by (simp add: take_bit_xor take_bit_nat_eq_self)
  then show "t XOR off < 16" using take_bit_nat_less_exp[of 4 "t XOR off"] by simp
  have d: "((16 * h + t) XOR off) div 16 = h"
  proof -
    have "drop_bit 4 ((16 * h + t) XOR off) = drop_bit 4 (16 * h + t) XOR drop_bit 4 off" by (rule drop_bit_xor)
    then show ?thesis using assms by (simp add: drop_bit_eq_div)
  qed
  have "take_bit 4 ((16 * h + t) XOR off) = take_bit 4 (16 * h + t) XOR take_bit 4 off" by (rule take_bit_xor)
  then have m: "((16 * h + t) XOR off) mod 16 = t XOR off" using assms by (simp add: take_bit_eq_mod)
  show "(16 * h + t) XOR off = 16 * h + (t XOR off)" using d m by (metis mult_div_mod_eq)
qed

lemma shfl_xor_head:
  assumes "\<And>t. t < 16 \<Longrightarrow> g (16 * h + t) = f t" "off < 16" "t < 16"
  shows "shfl_xor op off g (16 * h + t) = shfl_xor op off f t"
  unfolding shfl_xor_def xor16(1)[OF assms(3,2)] using assms xor16(2)[OF assms(3,2)] by simp

lemma tree16_head:
  assumes "\<And>t. t < 16 \<Longrightarrow> g (16 * h + t) = f t" "t < 16"
  shows "fold (shfl_xor op) [8, 4, 2, 1] g (16 * h + t) = tree16 op f t"
proof -
  have 8: "shfl_xor op 8 g (16 * h + t) = shfl_xor op 8 f t" if "t < 16" for t
    by (rule shfl_xor_head[OF _ _ that]) (simp_all add: assms(1))
  have 4: "shfl_xor op 4 (shfl_xor op 8 g) (16 * h + t) = shfl_xor op 4 (shfl_xor op 8 f) t" if "t < 16" for t
    by (rule shfl_xor_head[OF _ _ that]) (simp_all add: 8)
  have 2: "shfl_xor op 2 (shfl_xor op 4 (shfl_xor op 8 g)) (16 * h + t) = shfl_xor op 2 (shfl_xor op 4 (shfl_xor op 8 f)) t" if "t < 16" for t
    by (rule shfl_xor_head[OF _ _ that]) (simp_all add: 4)
  show ?thesis unfolding tree16_def fold_simps
    by (rule shfl_xor_head[OF _ _ assms(2)]) (simp_all add: 2)
qed

lemma tree16_cong: "(\<And>t. t < 16 \<Longrightarrow> f t = g t) \<Longrightarrow> t < 16 \<Longrightarrow> tree16 op f t = tree16 op g t"
  using tree16_head[of f 0 g t op] by (simp add: tree16_def)

lemma shfl_down_lane:
  "w < 4 \<Longrightarrow> i + off < 8 \<Longrightarrow> shfl_down F off f (8 * w + i) = f_add F (f (8 * w + i)) (f (8 * w + (i + off)))"
  by (simp add: shfl_down_def kWarpSize_def add.assoc)

lemma shfl_down_dot:
  assumes w: "w < 4" and f: "\<And>sub. sub < 8 \<Longrightarrow> f (8 * w + sub) = dot_partial F q k sub"
  shows "fold (shfl_down F) [4, 2, 1] f (8 * w) = dot8 F q k"
proof -
  have "fold (shfl_down F) [4, 2, 1] f (8 * w) = shfl_down F 1 (shfl_down F 2 (shfl_down F 4 f)) (8 * w + 0)" by simp
  also have "\<dots> = dot8 F q k"
    by (simp only: shfl_down_lane[OF w] f dot8_def Let_def) (simp add: shfl_down_lane[OF w] f numeral_2_eq_2 numeral_3_eq_3)
  finally show ?thesis .
qed

section \<open>Staging\<close>

lemma copy_tile_all:
  assumes "0 < threads" "e < 2048"
  shows "copy_tile threads pool base dst e = pool (base + e)"
proof -
  have f: "fold (copy_vec src) is d e = (if e div 8 \<in> set is then src e else d e)" for src "is" d
    by (induction "is" arbitrary: d) (auto simp: copy_vec_def pa_kVecHalves_def)
  have "e div 8 < 256" using assms(2) by simp
  then show ?thesis
    by (simp add: copy_tile_def f set_block_indices[OF assms(1)] kTileVecs_def pa_consts)
qed

text \<open>The buffer holds the K and V rows of a tile.\<close>

definition holds_tile :: "'f AttnArgs \<Rightarrow> halves \<Rightarrow> nat \<times> nat \<Rightarrow> nat \<Rightarrow> nat \<Rightarrow> 'f Cta \<Rightarrow> bool" where
  "holds_tile a pool cta tile buf st \<longleftrightarrow>
     (\<forall>e<2048. k_tile st buf e = pool (PoolRowOffset (table_entry a (fst cta) tile) 0 (snd cta) (at_num_kv_heads a) 0 + e) \<and>
       v_tile st buf e = pool (PoolRowOffset (table_entry a (fst cta) tile) 1 (snd cta) (at_num_kv_heads a) 0 + e))"

text \<open>What the softmax computes with is not touched by staging.\<close>

definition same_math :: "'f Cta \<Rightarrow> 'f Cta \<Rightarrow> bool" where
  "same_math st st' \<longleftrightarrow> q_tile st' = q_tile st \<and> sm_m st' = sm_m st \<and> sm_l st' = sm_l st \<and> acc st' = acc st"

lemma stage_tile_holds:
  "0 < threads \<Longrightarrow> holds_tile a pool cta tile buf (stage_tile threads a pool cta (tile, buf) st)"
  by (cases cta) (simp add: holds_tile_def stage_tile_def Let_def copy_tile_all)

lemma stage_tile_math: "same_math st (stage_tile threads a pool cta tb st)"
  by (cases cta; cases tb) (simp add: same_math_def stage_tile_def Let_def)

lemma in_flight_stage [simp]: "in_flight (stage_tile threads a pool cta tb st) = in_flight st"
  by (cases cta; cases tb) (simp add: stage_tile_def Let_def)

text \<open>Before the iteration of a tile its copy is in flight, in the pipelined mode.\<close>

definition pipelined :: "bool \<Rightarrow> nat \<Rightarrow> 'f Cta \<Rightarrow> bool" where
  "pipelined cpasync tile st \<longleftrightarrow> (cpasync \<longrightarrow> in_flight st = [(tile, tile mod 2)])"

lemma holds_tile_fields:
  "k_tile st' buf = k_tile st buf \<Longrightarrow> v_tile st' buf = v_tile st buf \<Longrightarrow> holds_tile a pool cta tile buf st' = holds_tile a pool cta tile buf st"
  by (simp add: holds_tile_def)

lemma acquire_tile_ok:
  assumes "0 < threads" "pipelined cpasync tile st" "acquire_tile threads cpasync junk a pool cta num_tiles tile st = (buf, st')"
  shows "holds_tile a pool cta tile buf st'" "same_math st st'" "tile + 1 < num_tiles \<Longrightarrow> pipelined cpasync (tile + 1) st'"
proof -
  let ?stage = "stage_tile threads a pool cta (tile, tile mod 2)"
  let ?next = "stage_async junk (tile + 1, (tile + 1) mod 2) st"
  have st': "buf = (if cpasync then tile mod 2 else 0)" "st' = (if cpasync then
      if tile + 1 < num_tiles then (?stage ?next)\<lparr>in_flight := [(tile + 1, (tile + 1) mod 2)]\<rparr> else (?stage st)\<lparr>in_flight := []\<rparr>
      else stage_tile threads a pool cta (tile, 0) st)"
    using assms(2,3) by (auto simp: acquire_tile_def wait_prior_def pipelined_def stage_async_def Let_def split: if_splits)
  have h: "holds_tile a pool cta tile b (stage_tile threads a pool cta (tile, b) s)" for b s
    by (rule stage_tile_holds[OF assms(1)])
  show "holds_tile a pool cta tile buf st'"
    unfolding st' using h by (simp add: holds_tile_def)
  have n: "same_math st ?next" by (simp add: same_math_def stage_async_def)
  show "same_math st st'"
    using stage_tile_math[of _ threads a pool cta] n unfolding st' same_math_def by simp
  show "pipelined cpasync (tile + 1) st'" if "tile + 1 < num_tiles"
    using that by (simp add: st' pipelined_def)
qed

section \<open>Scores\<close>

lemma set_warp_pairs:
  "threads = 128 \<or> threads = 256 \<Longrightarrow> set (warp_pairs threads) = (\<lambda>i. 4 * i) ` {0..<24}"
proof -
  have "set (warp_pairs 128) = (\<lambda>i. 4 * i) ` {0..<24}" "set (warp_pairs 256) = (\<lambda>i. 4 * i) ` {0..<24}" by code_simp+
  then show "threads = 128 \<or> threads = 256 \<Longrightarrow> ?thesis" by blast
qed

text \<open>Only the scores change, and each pair of head and slot that is visited gets its score.\<close>

definition pair_score :: "'f FloatOps \<Rightarrow> nat \<Rightarrow> nat \<Rightarrow> nat \<Rightarrow> 'f Cta \<Rightarrow> nat \<Rightarrow> nat \<Rightarrow> 'f" where
  "pair_score F buf tile_start seq_len st h t =
     (if tile_start + t < seq_len then dot8 F (q_tile st h) (\<lambda>d. k_tile st buf (t * 128 + d)) else f_neg_inf F)"

lemma scores_cong: "f = g \<Longrightarrow> st\<lparr>sm_scores := f\<rparr> = st\<lparr>sm_scores := g\<rparr>"
  by simp

lemma score_step_eq:
  assumes "4 dvd p0"
  shows "score_step F buf tile_start seq_len p0 st = st\<lparr>sm_scores := (\<lambda>h t.
     if t < 16 \<and> 16 * h + t \<in> {p0..<p0 + 4} then pair_score F buf tile_start seq_len st h t else sm_scores st h t)\<rparr>"
proof -
  define dots where "dots = fold (shfl_down F) [4, 2, 1] (\<lambda>lane. dot_partial F (q_tile st ((p0 + lane div 8) div 16))
      (\<lambda>d. k_tile st buf ((p0 + lane div 8) mod 16 * 128 + d)) (lane mod 8))"
  have dots: "dots (8 * w) = dot8 F (q_tile st ((p0 + w) div 16)) (\<lambda>d. k_tile st buf ((p0 + w) mod 16 * 128 + d))" if "w < 4" for w
    unfolding dots_def by (rule shfl_down_dot[OF that]) simp
  define val where "val = (\<lambda>w. if tile_start + (p0 + w) mod 16 < seq_len then dots (8 * w) else f_neg_inf F)"
  have f: "fold (\<lambda>w st. st\<lparr>sm_scores := (sm_scores st)((p0 + w) div 16 := (sm_scores st ((p0 + w) div 16))((p0 + w) mod 16 := val w))\<rparr>) ws s =
      s\<lparr>sm_scores := (\<lambda>h t. if t < 16 \<and> p0 \<le> 16 * h + t \<and> 16 * h + t - p0 \<in> set ws then val (16 * h + t - p0) else sm_scores s h t)\<rparr>" for ws and s :: "'a Cta"
  proof (induction ws arbitrary: s)
    case (Cons w ws)
    have e: "h = (p0 + w) div 16 \<and> t = (p0 + w) mod 16 \<longleftrightarrow> t < 16 \<and> p0 \<le> 16 * h + t \<and> 16 * h + t - p0 = w" for h t by auto
    define g where "g = (sm_scores s)((p0 + w) div 16 := (sm_scores s ((p0 + w) div 16))((p0 + w) mod 16 := val w))"
    have u: "g h t = (if t < 16 \<and> p0 \<le> 16 * h + t \<and> 16 * h + t - p0 = w then val w else sm_scores s h t)" for h t
      unfolding e[symmetric] by (simp add: g_def)
    show ?case unfolding fold_simps comp_def g_def[symmetric] Cons.IH
      by (auto simp: u intro!: scores_cong ext)
  qed simp
  have "score_step F buf tile_start seq_len p0 st = st\<lparr>sm_scores := (\<lambda>h t. if t < 16 \<and> p0 \<le> 16 * h + t \<and> 16 * h + t - p0 \<in> set [0..<4] then val (16 * h + t - p0) else sm_scores st h t)\<rparr>"
    unfolding score_step_def Let_def pa_consts dots_def[symmetric] val_def[symmetric] f[symmetric] by (simp add: val_def)
  moreover have "val (16 * h + t - p0) = pair_score F buf tile_start seq_len st h t" if "t < 16" "p0 \<le> 16 * h + t" "16 * h + t - p0 < 4" for h t
    using that by (simp add: val_def dots pair_score_def)
  ultimately show ?thesis by (auto intro!: scores_cong ext)
qed

lemma score_phase_eq:
  assumes "threads = 128 \<or> threads = 256"
  shows "score_phase F threads buf tile_start seq_len st = st\<lparr>sm_scores := (\<lambda>h t.
     if h < 6 \<and> t < 16 then pair_score F buf tile_start seq_len st h t else sm_scores st h t)\<rparr>"
proof -
  have "\<forall>p\<in>set ps. 4 dvd p \<Longrightarrow> fold (score_step F buf tile_start seq_len) ps s = s\<lparr>sm_scores := (\<lambda>h t.
     if t < 16 \<and> (\<exists>p\<in>set ps. 16 * h + t \<in> {p..<p + 4}) then pair_score F buf tile_start seq_len s h t else sm_scores s h t)\<rparr>" for ps s
  proof (induction ps arbitrary: s)
    case (Cons p ps)
    have "fold (score_step F buf tile_start seq_len) (p # ps) s = fold (score_step F buf tile_start seq_len) ps (score_step F buf tile_start seq_len p s)" by simp
    also have "\<dots> = s\<lparr>sm_scores := (\<lambda>h t. if t < 16 \<and> (\<exists>p\<in>set (p # ps). 16 * h + t \<in> {p..<p + 4})
        then pair_score F buf tile_start seq_len s h t else sm_scores s h t)\<rparr>"
      using Cons by (subst Cons.IH) (auto simp: score_step_eq pair_score_def intro!: scores_cong ext)
    finally show ?case .
  qed simp
  moreover have "\<forall>p\<in>set (warp_pairs threads). 4 dvd p" unfolding set_warp_pairs[OF assms] by auto
  moreover have "t < 16 \<and> (\<exists>p\<in>set (warp_pairs threads). 16 * h + t \<in> {p..<p + 4}) \<longleftrightarrow> h < 6 \<and> t < 16" for h t :: nat
  proof
    assume "t < 16 \<and> (\<exists>p\<in>set (warp_pairs threads). 16 * h + t \<in> {p..<p + 4})"
    then obtain i where "t < 16" "i < 24" "16 * h + t < 4 * i + 4" unfolding set_warp_pairs[OF assms] by auto
    then show "h < 6 \<and> t < 16" by linarith
  next
    assume a: "h < 6 \<and> t < 16"
    then have "(16 * h + t) div 4 < 24" by linarith
    moreover have "16 * h + t \<in> {4 * ((16 * h + t) div 4)..<4 * ((16 * h + t) div 4) + 4}" by auto
    ultimately have "\<exists>i\<in>{0..<24}. 16 * h + t \<in> {4 * i..<4 * i + 4}" by (intro bexI[of _ "(16 * h + t) div 4"]) auto
    then show "t < 16 \<and> (\<exists>p\<in>set (warp_pairs threads). 16 * h + t \<in> {p..<p + 4})" unfolding set_warp_pairs[OF assms] using a by auto
  qed
  ultimately show ?thesis unfolding score_phase_def by simp
qed

section \<open>Softmax and accumulation\<close>

text \<open>
  The state of the six heads after some tiles, and of the element \<open>(h, d)\<close> in the register of the
  thread that owns it.
\<close>

definition tracks ::
  "'f FloatOps \<Rightarrow> nat \<Rightarrow> (nat \<Rightarrow> nat \<Rightarrow> 'f) \<Rightarrow> (nat \<Rightarrow> nat \<Rightarrow> 'f) \<Rightarrow> nat \<Rightarrow> nat \<Rightarrow> 'f Cta \<Rightarrow> bool" where
  "tracks F threads sc v n tiles st \<longleftrightarrow>
     (\<forall>tid<threads. \<forall>j<768 div threads. let h = owned_head threads tid j; d = tid mod 128 in
        online F (sc h) (v d) n tiles = (sm_m st h, sm_l st h, acc st tid j))"

lemma softmax_phase_values:
  fixes F :: "'f FloatOps" and valid h :: nat and st :: "'f Cta"
  assumes "h < 6" and s: "\<And>t. t < 16 \<Longrightarrow> sm_scores st h t = s t"
  defines "st' \<equiv> softmax_phase F valid st" and "m \<equiv> sm_m st h"
  shows "t < 16 \<Longrightarrow> sm_scores st' h t = tile_prob F m s valid t"
    and "sm_alpha st' h = rescale F m s"
    and "sm_m st' h = new_max F m s 0"
    and "sm_l st' h = f_add F (f_mul F (sm_l st h) (rescale F m s)) (tree16 (f_add F) (tile_prob F m s valid) 0)"
proof -
  define sc where "sc = (\<lambda>tid. sm_scores st (tid div 16) (tid mod 16))"
  define mx where "mx = fold (shfl_xor (f_max F)) [8, 4, 2, 1] sc"
  define prob where "prob = (\<lambda>tid. if tid mod 16 < valid then f_exp F (f_sub F (sm_scores st (tid div 16) (tid mod 16)) (f_max F (sm_m st (tid div 16)) (mx tid))) else f_zero F)"
  have at: "(16 * h + t) div 16 = h" "(16 * h + t) mod 16 = t" if "t < 16" for t using that by simp_all
  have sc: "sc (16 * h + t) = s t" if "t < 16" for t using s that by (simp add: sc_def at)
  have mx: "mx (16 * h + t) = tree16 (f_max F) s t" if "t < 16" for t
    unfolding mx_def by (rule tree16_head[where f = s, OF _ that]) (rule sc)
  have prob: "prob (16 * h + t) = tile_prob F m s valid t" if "t < 16" for t
    using that using s by (simp add: prob_def at tile_prob_def new_max_def mx m_def)
  have tsum: "fold (shfl_xor (f_add F)) [8, 4, 2, 1] prob (16 * h + 0) = tree16 (f_add F) (tile_prob F m s valid) 0"
    by (rule tree16_head) (simp_all add: prob)
  have alpha: "f_exp F (f_sub F (sm_m st h) (f_max F (sm_m st h) (mx (16 * h)))) = rescale F m s"
    using mx[of 0] by (simp add: rescale_def new_max_def m_def)
  have l: "h * 16 = 16 * h" by simp
  note phase = softmax_phase_def[of F valid st, unfolded Let_def pa_consts, folded sc_def, folded mx_def, folded prob_def]
  show "t < 16 \<Longrightarrow> sm_scores st' h t = tile_prob F m s valid t"
    unfolding st'_def phase using assms(1) s mx by (simp add: l at tile_prob_def new_max_def m_def)
  show "sm_alpha st' h = rescale F m s" "sm_m st' h = new_max F m s 0"
    "sm_l st' h = f_add F (f_mul F (sm_l st h) (rescale F m s)) (tree16 (f_add F) (tile_prob F m s valid) 0)"
    unfolding st'_def phase using assms(1) prob tsum alpha mx[of 0] by (simp_all add: l new_max_def m_def)
qed

lemma softmax_phase_frame:
  "k_tile (softmax_phase F valid st) = k_tile st" "v_tile (softmax_phase F valid st) = v_tile st"
  "q_tile (softmax_phase F valid st) = q_tile st" "acc (softmax_phase F valid st) = acc st"
  "in_flight (softmax_phase F valid st) = in_flight st"
  by (simp_all add: softmax_phase_def Let_def)

lemma accumulate_phase_eq:
  assumes "valid \<le> 16"
  shows "accumulate_phase F threads buf valid st = st\<lparr>acc := (\<lambda>tid j.
     fold (\<lambda>t a. f_fma F (sm_scores st (owned_head threads tid j) t) (half2float F (v_tile st buf (t * 128 + tid mod 128))) a)
       [0..<valid] (f_mul F (acc st tid j) (sm_alpha st (owned_head threads tid j))))\<rparr>"
proof -
  have "fold (fold_token F threads buf) ts s = s\<lparr>acc := (\<lambda>tid j.
     fold (\<lambda>t a. f_fma F (sm_scores s (owned_head threads tid j) t) (half2float F (v_tile s buf (t * 128 + tid mod 128))) a) ts (acc s tid j))\<rparr>" for ts s
    by (induction ts arbitrary: s) (simp_all add: fold_token_def pa_consts)
  then show ?thesis by (simp add: accumulate_phase_def Let_def pa_consts)
qed

section \<open>One tile\<close>

definition tile_rows :: "'f AttnArgs \<Rightarrow> nat \<times> nat \<Rightarrow> nat \<Rightarrow> nat \<Rightarrow> nat" where
  "tile_rows a cta kv pos =
     PoolRowOffset (table_entry a (fst cta) (pos div 16)) kv (snd cta) (at_num_kv_heads a) (pos mod 16)"

definition live_score :: "'f FloatOps \<Rightarrow> 'f AttnArgs \<Rightarrow> halves \<Rightarrow> nat \<times> nat \<Rightarrow> (nat \<Rightarrow> 'f) \<Rightarrow> nat \<Rightarrow> 'f" where
  "live_score F a pool cta q pos = dot8 F q (\<lambda>d. pool (tile_rows a cta 0 pos + d))"

definition live_value :: "'f FloatOps \<Rightarrow> 'f AttnArgs \<Rightarrow> halves \<Rightarrow> nat \<times> nat \<Rightarrow> nat \<Rightarrow> nat \<Rightarrow> 'f" where
  "live_value F a pool cta d pos = half2float F (pool (tile_rows a cta 1 pos + d))"

lemma dot_partial_cong: "sub < 8 \<Longrightarrow> (\<And>d. d < 128 \<Longrightarrow> k d = k' d) \<Longrightarrow> dot_partial F q k sub = dot_partial F q k' sub"
  unfolding dot_partial_def by (rule fold_cong) auto

lemma dot8_cong: "(\<And>d. d < 128 \<Longrightarrow> k d = k' d) \<Longrightarrow> dot8 F q k = dot8 F q k'"
  unfolding dot8_def Let_def by (simp add: dot_partial_cong[of _ k k'])

lemma owned_head_below:
  assumes "threads = 128 \<or> threads = 256" "tid < threads" "j < 768 div threads"
  shows "owned_head threads tid j < 6"
proof -
  from assms(1) show ?thesis
  proof
    assume "threads = 128"
    then show ?thesis using assms(2,3) by (simp add: owned_head_def pa_consts)
  next
    assume t: "threads = 256"
    then have "tid div 128 \<le> 1" "j \<le> 2" using assms(2,3) by simp_all
    then show ?thesis unfolding owned_head_def t pa_consts by simp
  qed
qed

lemma tile_iteration_tracks:
  fixes F :: "'f FloatOps" and threads n tile :: nat and cpasync :: bool and junk :: "nat \<Rightarrow> halves" and a :: "'f AttnArgs"
    and pool :: halves and cta :: "nat \<times> nat" and st :: "'f Cta"
  assumes th: "threads = 128 \<or> threads = 256" and tile: "16 * tile < n" and pipe: "pipelined cpasync tile st"
    and q: "q_tile st = q"
    and tr: "tracks F threads (\<lambda>h. live_score F a pool cta (q h)) (live_value F a pool cta) n tile st"
  defines "st' \<equiv> tile_iteration F threads cpasync junk a pool cta n tile st"
  shows "tracks F threads (\<lambda>h. live_score F a pool cta (q h)) (live_value F a pool cta) n (tile + 1) st'"
    and "q_tile st' = q" and "tile + 1 < (n + 15) div 16 \<Longrightarrow> pipelined cpasync (tile + 1) st'"
proof -
  define valid where "valid = min 16 (n - tile * 16)"
  obtain buf st1 where acq: "acquire_tile threads cpasync junk a pool cta ((n + 16 - 1) div 16) tile st = (buf, st1)" by fastforce
  have pos: "0 < threads" using th by auto
  note ok = acquire_tile_ok[OF pos pipe acq]
  define st2 where "st2 = score_phase F threads buf (tile * 16) n st1"
  define st3 where "st3 = softmax_phase F valid st2"
  have st': "st' = accumulate_phase F threads buf valid st3"
    by (simp only: st'_def tile_iteration_def pa_consts Let_def acq prod.case valid_def st2_def st3_def)
  have st1: "q_tile st1 = q" "sm_m st1 = sm_m st" "sm_l st1 = sm_l st" "acc st1 = acc st" using ok(2) q by (simp_all add: same_math_def)
  have row: "PoolRowOffset blk kv kvh nkv 0 + (t * 128 + d) = PoolRowOffset blk kv kvh nkv t + d" for blk kv kvh nkv t d
    by (simp add: PoolRowOffset_def pa_consts algebra_simps)
  have tl: "(16 * tile + t) div 16 = tile" "(16 * tile + t) mod 16 = t" if "t < 16" for t using that by simp_all
  have el: "t * 128 + d < 2048" if "t < 16" "d < 128" for t d :: nat using that by simp
  have kt: "k_tile st1 buf (t * 128 + d) = pool (tile_rows a cta 0 (16 * tile + t) + d)"
    "v_tile st1 buf (t * 128 + d) = pool (tile_rows a cta 1 (16 * tile + t) + d)" if "t < 16" "d < 128" for t d
    using ok(1) el[OF that] that unfolding holds_tile_def tile_rows_def by (simp_all add: tl row)
  let ?s = "\<lambda>h. tile_scores F (live_score F a pool cta (q h)) n tile"
  have s2: "sm_scores st2 h t = ?s h t" if "h < 6" "t < 16" for h t
  proof -
    have "dot8 F (q h) (\<lambda>d. k_tile st1 buf (t * 128 + d)) = live_score F a pool cta (q h) (16 * tile + t)"
      unfolding live_score_def by (rule dot8_cong) (simp add: kt that)
    then show ?thesis using that st1(1) by (simp add: st2_def score_phase_eq[OF th] pair_score_def tile_scores_def mult.commute)
  qed
  have f2: "k_tile st2 = k_tile st1" "v_tile st2 = v_tile st1" "q_tile st2 = q" "sm_m st2 = sm_m st" "sm_l st2 = sm_l st"
    "acc st2 = acc st" "in_flight st2 = in_flight st1"
    by (simp_all add: st2_def score_phase_eq[OF th] st1)
  note sp = softmax_phase_values[where st = st2 and F = F and valid = valid, OF _ s2, folded st3_def, unfolded f2]
  note f3 = softmax_phase_frame[of F valid st2, folded st3_def, unfolded f2]
  have acc': "st' = st3\<lparr>acc := (\<lambda>tid j.
     fold (\<lambda>t a. f_fma F (sm_scores st3 (owned_head threads tid j) t) (half2float F (v_tile st3 buf (t * 128 + tid mod 128))) a)
       [0..<valid] (f_mul F (acc st tid j) (sm_alpha st3 (owned_head threads tid j))))\<rparr>"
    unfolding st' by (subst accumulate_phase_eq) (simp_all add: valid_def f3)
  show "q_tile st' = q" by (simp add: acc' f3)
  show "pipelined cpasync (tile + 1) st'" if "tile + 1 < (n + 15) div 16" using ok(3) that by (simp add: acc' f3 pipelined_def)
  show "tracks F threads (\<lambda>h. live_score F a pool cta (q h)) (live_value F a pool cta) n (tile + 1) st'"
    unfolding tracks_def Let_def
  proof (intro allI impI)
    fix tid j
    assume t: "tid < threads" "j < 768 div threads"
    define h where "h = owned_head threads tid j"
    define d where "d = tid mod 128"
    have h: "h < 6" unfolding h_def by (rule owned_head_below[OF th t])
    have on: "online F (live_score F a pool cta (q h)) (live_value F a pool cta d) n tile = (sm_m st h, sm_l st h, acc st tid j)"
      using tr t unfolding tracks_def h_def d_def by (simp add: Let_def)
    have vd: "min 16 (n - 16 * tile) = valid" by (simp add: valid_def mult.commute)
    have al: "sm_alpha st3 h = rescale F (sm_m st h) (?s h)" by (rule sp(2)) (use h in simp_all)
    have mm: "sm_m st3 h = new_max F (sm_m st h) (?s h) 0" by (rule sp(3)) (use h in simp_all)
    have ll: "sm_l st3 h = f_add F (f_mul F (sm_l st h) (rescale F (sm_m st h) (?s h))) (tree16 (f_add F) (tile_prob F (sm_m st h) (?s h) valid) 0)"
      by (rule sp(4)) (use h in simp_all)
    have v: "fold (\<lambda>t. f_fma F (sm_scores st3 h t) (half2float F (v_tile st3 buf (t * 128 + d)))) [0..<valid] x =
        fold (\<lambda>t. f_fma F (tile_prob F (sm_m st h) (?s h) valid t) (live_value F a pool cta d (16 * tile + t))) [0..<valid] x" for x
    proof (rule fold_cong)
      fix t
      assume "t \<in> set [0..<valid]"
      then have t: "t < 16" by (simp add: valid_def)
      have "sm_scores st3 h t = tile_prob F (sm_m st h) (?s h) valid t" by (rule sp(1)) (use h t in simp_all)
      then show "f_fma F (sm_scores st3 h t) (half2float F (v_tile st3 buf (t * 128 + d))) =
          f_fma F (tile_prob F (sm_m st h) (?s h) valid t) (live_value F a pool cta d (16 * tile + t))"
        using t by (simp add: f3 kt(2) live_value_def d_def)
    qed simp_all
    show "online F (live_score F a pool cta (q (owned_head threads tid j))) (live_value F a pool cta (tid mod 128)) n (tile + 1) =
        (sm_m st' (owned_head threads tid j), sm_l st' (owned_head threads tid j), acc st' tid j)"
      unfolding h_def[symmetric] d_def[symmetric]
      using on by (simp add: online_def acc' h_def[symmetric] d_def[symmetric] v tile_step_def Let_def vd al mm ll)
  qed
qed

end
