(* ===== verification/Attention_Theorems.thy ===== *)
theory Attention_Theorems
  imports Attention_Phases
begin

text \<open>
  The decode attention kernel refines the reference \<open>attend\<close>, for both launch configurations, in the
  pipelined and in the synchronous mode, whatever the shared memory and the buffers in flight hold.
\<close>

lemma dot_partial_cong_q: "sub < 8 \<Longrightarrow> (\<And>d. d < 128 \<Longrightarrow> q d = q' d) \<Longrightarrow> dot_partial F q k sub = dot_partial F q' k sub"
  unfolding dot_partial_def by (rule fold_cong) auto

lemma dot8_cong_q: "(\<And>d. d < 128 \<Longrightarrow> q d = q' d) \<Longrightarrow> dot8 F q k = dot8 F q' k"
  unfolding dot8_def Let_def by (simp add: dot_partial_cong_q[of _ q q'])

section \<open>The loop over the tiles\<close>

definition group_query :: "'f FloatOps \<Rightarrow> 'f AttnArgs \<Rightarrow> halves \<Rightarrow> nat \<times> nat \<Rightarrow> nat \<Rightarrow> nat \<Rightarrow> 'f" where
  "group_query F a q cta h d =
     f_mul F (half2float F (q (fst cta * at_q_row_stride a + snd cta * 768 + (h * 128 + d)))) (at_scale a)"

lemma init_cta_fields:
  assumes "0 < threads"
  shows "h < 6 \<Longrightarrow> d < 128 \<Longrightarrow> q_tile (init_cta F threads a q cta st) h d = group_query F a q cta h d"
    and "h < 6 \<Longrightarrow> sm_m (init_cta F threads a q cta st) h = f_neg_inf F"
    and "h < 6 \<Longrightarrow> sm_l (init_cta F threads a q cta st) h = f_zero F"
    and "acc (init_cta F threads a q cta st) = (\<lambda>_ _. f_zero F)"
    and "in_flight (init_cta F threads a q cta st) = []"
proof -
  have f: "q_tile (fold (\<lambda>i st. st\<lparr>q_tile := (q_tile st)(i div 128 := (q_tile st (i div 128))(i mod 128 := g i))\<rparr>) is st) h d =
      (if h * 128 + d \<in> set is then g (h * 128 + d) else q_tile st h d)" if "d < 128" for g "is" h d and st :: "'a Cta"
  proof (induction "is" arbitrary: st)
    case (Cons i "is")
    have e: "h * 128 + d = i \<longleftrightarrow> h = i div 128 \<and> d = i mod 128" using that by auto
    show ?case unfolding fold_simps comp_def Cons.IH set_simps insert_iff e by auto
  qed simp
  show "h < 6 \<Longrightarrow> d < 128 \<Longrightarrow> q_tile (init_cta F threads a q cta st) h d = group_query F a q cta h d"
    by (simp add: init_cta_def Let_def pa_consts f set_block_indices[OF assms] group_query_def mult.commute[of 768])
qed (simp_all add: init_cta_def Let_def pa_consts)

lemma tiles_track:
  assumes th: "threads = 128 \<or> threads = 256" and q: "q_tile st = q" and pipe: "pipelined cpasync 0 st"
    and t0: "tracks F threads (\<lambda>h. live_score F a pool cta (q h)) (live_value F a pool cta) n 0 st"
    and "k \<le> (n + 15) div 16"
  shows "tracks F threads (\<lambda>h. live_score F a pool cta (q h)) (live_value F a pool cta) n k
      (fold (tile_iteration F threads cpasync junk a pool cta n) [0..<k] st)"
proof -
  let ?st = "\<lambda>k. fold (tile_iteration F threads cpasync junk a pool cta n) [0..<k] st"
  have "tracks F threads (\<lambda>h. live_score F a pool cta (q h)) (live_value F a pool cta) n k (?st k) \<and> q_tile (?st k) = q \<and>
      (k < (n + 15) div 16 \<longrightarrow> pipelined cpasync k (?st k))"
    using assms(5)
  proof (induction k)
    case (Suc k)
    have k: "16 * k < n" using Suc.prems by simp
    have "pipelined cpasync k (?st k)" "q_tile (?st k) = q"
      "tracks F threads (\<lambda>h. live_score F a pool cta (q h)) (live_value F a pool cta) n k (?st k)" using Suc by auto
    from tile_iteration_tracks[OF th k this, of junk] show ?case by simp
  qed (use q pipe t0 in simp)
  then show ?thesis by blast
qed

section \<open>One block\<close>

definition attended :: "'f FloatOps \<Rightarrow> 'f AttnArgs \<Rightarrow> halves \<Rightarrow> halves \<Rightarrow> nat \<times> nat \<Rightarrow> nat \<Rightarrow> nat \<Rightarrow> nat \<Rightarrow> 16 word" where
  "attended F a q pool cta n h d = attend F (live_score F a pool cta (group_query F a q cta h)) (live_value F a pool cta d) n"

definition clamped_len :: "'f AttnArgs \<Rightarrow> nat \<Rightarrow> int" where
  "clamped_len a sq = min (at_seq_lens a sq) (int (at_max_blocks a * 16))"

definition out_region :: "'f AttnArgs \<Rightarrow> nat \<times> nat \<Rightarrow> nat set" where
  "out_region a cta = {fst cta * at_out_row_stride a + snd cta * 768..<fst cta * at_out_row_stride a + snd cta * 768 + 768}"

lemma kernel_element:
  assumes th: "threads = 128 \<or> threads = 256"
  shows "PagedAttentionDecodeKernel F threads cpasync junk smem a q pool cta out i =
    (if 0 < clamped_len a (fst cta) \<and> i \<in> out_region a cta
     then attended F a q pool cta (nat (clamped_len a (fst cta))) ((i - (fst cta * at_out_row_stride a + snd cta * 768)) div 128)
       ((i - (fst cta * at_out_row_stride a + snd cta * 768)) mod 128)
     else out i)"
proof (cases "clamped_len a (fst cta) \<le> 0")
  case True
  then have "PagedAttentionDecodeKernel F threads cpasync junk smem a q pool cta out = out"
    unfolding PagedAttentionDecodeKernel_def pa_consts Let_def clamped_len_def by (rule if_P)
  then show ?thesis using True by simp
next
  case False
  define n where "n = nat (clamped_len a (fst cta))"
  define row where "row = fst cta * at_out_row_stride a + snd cta * 768"
  have pos: "0 < threads" using th by auto
  define st0 where "st0 = init_cta F threads a q cta smem"
  note i0 = init_cta_fields[OF pos, where F = F and a = a and q = q and cta = cta and st = smem, folded st0_def]
  define st1 where "st1 = (if cpasync then stage_async junk (0, 0) st0 else st0)"
  define N where "N = (n + 15) div 16"
  define st where "st = fold (tile_iteration F threads cpasync junk a pool cta n) [0..<N] st1"
  have s1: "q_tile st1 = q_tile st0" "sm_m st1 = sm_m st0" "sm_l st1 = sm_l st0" "acc st1 = acc st0"
    by (simp_all add: st1_def stage_async_def)
  have pipe: "pipelined cpasync 0 st1" by (simp add: st1_def pipelined_def stage_async_def i0)
  have t0: "tracks F threads (\<lambda>h. live_score F a pool cta (q_tile st0 h)) (live_value F a pool cta) n 0 st1"
    unfolding tracks_def Let_def using owned_head_below[OF th] by (simp add: online_def s1 i0)
  have tr: "tracks F threads (\<lambda>h. live_score F a pool cta (q_tile st0 h)) (live_value F a pool cta) n N st"
    unfolding st_def by (rule tiles_track[OF th s1(1) pipe t0]) (simp add: N_def)
  have val: "float2half F (f_div F (acc st tid j) (sm_l st (owned_head threads tid j))) = attended F a q pool cta n (owned_head threads tid j) (tid mod 128)"
    if "tid < threads" "j < 768 div threads" for tid j
  proof -
    have "online F (live_score F a pool cta (q_tile st0 (owned_head threads tid j))) (live_value F a pool cta (tid mod 128)) n N =
        (sm_m st (owned_head threads tid j), sm_l st (owned_head threads tid j), acc st tid j)"
      using tr that by (simp add: tracks_def Let_def)
    moreover have "live_score F a pool cta (q_tile st0 (owned_head threads tid j)) = live_score F a pool cta (group_query F a q cta (owned_head threads tid j))"
      unfolding live_score_def by (intro ext dot8_cong_q) (simp add: i0 owned_head_below[OF th that])
    ultimately show ?thesis by (simp add: attended_def attend_def N_def)
  qed
  have own: "owned_head threads tid j * 128 + tid mod 128 = tid + j * threads" for tid j
    using th by (auto simp: owned_head_def pa_consts)
  define e where "e = (\<lambda>(tid, j). row + (tid + j * threads))"
  define V where "V = (\<lambda>(tid, j) (_ :: nat). attended F a q pool cta n (owned_head threads tid j) (tid mod 128))"
  define xs where "xs = List.product [0..<threads] [0..<768 div threads]"
  have ker: "PagedAttentionDecodeKernel F threads cpasync junk smem a q pool cta out =
      fold (\<lambda>(tid, j) out. out(row + (owned_head threads tid j * 128 + tid mod 128) := float2half F (f_div F (acc st tid j) (sm_l st (owned_head threads tid j))))) xs out"
  proof -
    have nn: "(n + 16 - 1) div 16 = N" by (simp add: N_def add.commute)
    show ?thesis
      using False unfolding PagedAttentionDecodeKernel_def pa_consts Let_def clamped_len_def[symmetric] n_def[symmetric] st0_def[symmetric]
        st1_def[symmetric] nn st_def[symmetric] by (simp add: row_def xs_def mult.assoc)
  qed
  have K: "(case x of (tid, j) \<Rightarrow> \<lambda>out. out(row + (owned_head threads tid j * 128 + tid mod 128) :=
      float2half F (f_div F (acc st tid j) (sm_l st (owned_head threads tid j))))) b i = (if i \<in> {e x} then V x i else b i)"
    if "x \<in> set xs" for x b i
    using that val by (auto simp: xs_def e_def V_def own)
  have inj: "x = y" if xy: "x \<in> set xs" "y \<in> set xs" and "i \<in> {e x}" "i \<in> {e y}" for x y i
  proof -
    obtain t j u k where x: "x = (t, j)" "t < threads" "y = (u, k)" "u < threads" using xy by (auto simp: xs_def)
    have "t + j * threads = u + k * threads" using that(3,4) by (simp add: e_def x)
    then have "(t + j * threads) mod threads = (u + k * threads) mod threads" "(t + j * threads) div threads = (u + k * threads) div threads" by simp_all
    then show ?thesis using x by simp
  qed
  let ?K = "\<lambda>(tid, j) out. out(row + (owned_head threads tid j * 128 + tid mod 128) := float2half F (f_div F (acc st tid j) (sm_l st (owned_head threads tid j))))"
  have f1: "fold ?K xs b i = V x i" if "x \<in> set xs" "i \<in> {e x}" for b i x
    by (rule fold_regions(1)[where R = "\<lambda>x. {e x}"]) (fact K inj that)+
  have f2: "fold ?K xs b i = b i" if "\<And>x. x \<in> set xs \<Longrightarrow> i \<notin> {e x}" for b i
    by (rule fold_regions(2)[where R = "\<lambda>x. {e x}" and V = V]) (fact K inj that)+
  show ?thesis
  proof (cases "i \<in> out_region a cta")
    case True
    define c where "c = i - row"
    have c: "c < 768" "i = row + c" using True by (auto simp: c_def out_region_def row_def)
    define x where "x = (c mod threads, c div threads)"
    have x: "x \<in> set xs" "i = e x" using th c by (auto simp: xs_def x_def e_def)
    have "owned_head threads (c mod threads) (c div threads) * 128 + c mod threads mod 128 = c" unfolding own by simp
    then have hd: "owned_head threads (c mod threads) (c div threads) = c div 128" "c mod threads mod 128 = c mod 128"
      using th by (auto simp: mod_mod_cancel)
    have "fold ?K xs out i = V x i" by (rule f1) (use x in auto)
    moreover have "V x i = attended F a q pool cta n (c div 128) (c mod 128)" unfolding V_def x_def prod.case hd ..
    ultimately have "PagedAttentionDecodeKernel F threads cpasync junk smem a q pool cta out i = attended F a q pool cta n (c div 128) (c mod 128)"
      unfolding ker by (simp only:)
    moreover have "0 < clamped_len a (fst cta) \<and> i \<in> out_region a cta" using False True by simp
    ultimately show ?thesis unfolding row_def[symmetric] c_def[symmetric] n_def[symmetric] by (simp only: if_True simp_thms)
  next
    case out: False
    have "e x \<noteq> i" if "x \<in> set xs" for x
    proof -
      obtain t j where tj: "x = (t, j)" "t < threads" "j < 768 div threads" using \<open>x \<in> set xs\<close> by (auto simp: xs_def)
      then have "t + j * threads < 768" using th by auto
      then show ?thesis using out by (auto simp: out_region_def e_def tj row_def)
    qed
    then have "fold ?K xs out i = out i" by (intro f2) auto
    then show ?thesis using out unfolding ker by simp
  qed
qed

section \<open>The launch\<close>

definition contract :: "'f AttnCall \<Rightarrow> bool" where
  "contract c \<longleftrightarrow> 0 \<notin> set (ac_pointers c) \<and> ac_head_dim c = 128 \<and> 1 \<le> ac_num_kv_heads c \<and>
     ac_num_q_heads c = ac_num_kv_heads c * 6 \<and> 1 \<le> ac_max_blocks_per_seq c \<and>
     ac_num_q_heads c * 128 \<le> ac_q_row_stride c \<and> ac_num_q_heads c * 128 \<le> ac_out_row_stride c"

lemma contract_checks:
  "contract c \<Longrightarrow> CheckCommonContract c = Some ()"
  "CheckCommonContract c = Some () \<Longrightarrow> ac_num_q_heads c = ac_num_kv_heads c * 6 \<Longrightarrow> contract c"
  by (auto simp: contract_def CheckCommonContract_def RequireContract_def pa_consts Let_def split: if_splits)

lemma out_region_unique:
  assumes "kv * 768 + 768 \<le> at_out_row_stride a" "kv' * 768 + 768 \<le> at_out_row_stride a"
    and "i \<in> out_region a (sq, kv)" "i \<in> out_region a (sq', kv')"
  shows "(sq, kv) = (sq', kv')"
proof -
  define w where "w = at_out_row_stride a"
  obtain c where c: "i = sq * w + (kv * 768 + c)" "c < 768"
    using assms(3) unfolding out_region_def w_def[symmetric] by (auto simp: nat_le_iff_add)
  obtain c' where c': "i = sq' * w + (kv' * 768 + c')" "c' < 768"
    using assms(4) unfolding out_region_def w_def[symmetric] by (auto simp: nat_le_iff_add)
  have b: "kv * 768 + c < w" "kv' * 768 + c' < w" using assms(1,2) c(2) c'(2) by (simp_all add: w_def)
  have "i div w = sq" unfolding c(1) using b(1) by simp
  moreover have "i div w = sq'" unfolding c'(1) using b(2) by simp
  ultimately have sq: "sq = sq'" by simp
  have "kv * 768 + c = kv' * 768 + c'" using c(1) c'(1) sq by simp
  then have "(kv * 768 + c) div 768 = (kv' * 768 + c') div 768" by simp
  then show ?thesis using sq c(2) c'(2) by simp
qed

text \<open>What the launch is to write: element \<open>d\<close> of query head \<open>h\<close> of KV head \<open>kv\<close> of sequence \<open>sq\<close>.\<close>

definition attention_result :: "'f FloatOps \<Rightarrow> 'f AttnCall \<Rightarrow> halves \<Rightarrow> halves \<Rightarrow> nat \<Rightarrow> nat \<Rightarrow> nat \<Rightarrow> nat \<Rightarrow> 16 word" where
  "attention_result F c q pool sq kv h d = attended F (kernel_args c) q pool (sq, kv) (nat (clamped_len (kernel_args c) sq)) h d"

definition written :: "'f AttnCall \<Rightarrow> nat set" where
  "written c = (\<Union>sq\<in>{sq. sq < nat (ac_num_seqs c) \<and> 0 < clamped_len (kernel_args c) sq}.
     {sq * nat (ac_out_row_stride c)..<sq * nat (ac_out_row_stride c) + nat (ac_num_q_heads c) * 128})"

lemma kernel_args_simps [simp]:
  "at_out_row_stride (kernel_args c) = nat (ac_out_row_stride c)" "at_num_kv_heads (kernel_args c) = nat (ac_num_kv_heads c)"
  "at_block_tables (kernel_args c) = ac_block_tables c" "at_seq_lens (kernel_args c) = ac_seq_lens c"
  "at_max_blocks (kernel_args c) = nat (ac_max_blocks_per_seq c)" "at_q_row_stride (kernel_args c) = nat (ac_q_row_stride c)"
  "at_scale (kernel_args c) = ac_scale c"
  by (simp_all add: kernel_args_def)

lemma launch_elements:
  fixes F :: "'f FloatOps" and threads :: nat and cpasync :: bool and junk and smem and c :: "'f AttnCall" and q pool out :: halves
  assumes th: "threads = 128 \<or> threads = 256" and c: "contract c"
  defines "out' \<equiv> fold (\<lambda>cta. PagedAttentionDecodeKernel F threads cpasync (junk cta) (smem cta) (kernel_args c) q pool cta)
      (List.product [0..<nat (ac_num_seqs c)] [0..<nat (ac_num_kv_heads c)]) out"
  shows "sq < nat (ac_num_seqs c) \<Longrightarrow> 0 < clamped_len (kernel_args c) sq \<Longrightarrow> kv < nat (ac_num_kv_heads c) \<Longrightarrow> h < 6 \<Longrightarrow> d < 128 \<Longrightarrow>
      out' (sq * nat (ac_out_row_stride c) + ((kv * 6 + h) * 128 + d)) = attention_result F c q pool sq kv h d"
    and "i \<notin> written c \<Longrightarrow> out' i = out i"
proof -
  define xs where "xs = List.product [0..<nat (ac_num_seqs c)] [0..<nat (ac_num_kv_heads c)]"
  define R where "R = (\<lambda>x. if 0 < clamped_len (kernel_args c) (fst x) then out_region (kernel_args c) x else {})"
  define off where "off = (\<lambda>x i. i - (fst x * nat (ac_out_row_stride c) + snd x * 768))"
  define V where "V = (\<lambda>x i. attention_result F c q pool (fst x) (snd x) (off x i div 128) (off x i mod 128))"
  have stride: "kv * 768 + 768 \<le> nat (ac_out_row_stride c)" if "kv < nat (ac_num_kv_heads c)" for kv
  proof -
    have "int (kv * 768 + 768) \<le> ac_num_q_heads c * 128" using that c by (simp add: contract_def)
    then have "int (kv * 768 + 768) \<le> ac_out_row_stride c" using c by (simp add: contract_def)
    then show ?thesis by linarith
  qed
  have K: "PagedAttentionDecodeKernel F threads cpasync (junk x) (smem x) (kernel_args c) q pool x b i = (if i \<in> R x then V x i else b i)"
    if "x \<in> set xs" for x b i
    unfolding kernel_element[OF th] R_def V_def attention_result_def off_def by simp
  have D: "x = y" if xy: "x \<in> set xs" "y \<in> set xs" "i \<in> R x" "i \<in> R y" for x y i
  proof -
    obtain sq kv sq' kv' where p: "x = (sq, kv)" "kv < nat (ac_num_kv_heads c)" "y = (sq', kv')" "kv' < nat (ac_num_kv_heads c)"
      using xy(1,2) by (auto simp: xs_def)
    have "i \<in> out_region (kernel_args c) (sq, kv)" "i \<in> out_region (kernel_args c) (sq', kv')"
      using xy(3,4) by (auto simp: R_def p split: if_splits)
    then show ?thesis unfolding p by (intro out_region_unique) (use stride p in simp_all)
  qed
  let ?K = "\<lambda>cta. PagedAttentionDecodeKernel F threads cpasync (junk cta) (smem cta) (kernel_args c) q pool cta"
  have f1: "fold ?K xs b i = V x i" if "x \<in> set xs" "i \<in> R x" for b i x
    by (rule fold_regions(1)[where R = R]) (fact K D that)+
  have f2: "fold ?K xs b i = b i" if "\<And>x. x \<in> set xs \<Longrightarrow> i \<notin> R x" for b i
    by (rule fold_regions(2)[where R = R and V = V]) (fact K D that)+
  show "out' (sq * nat (ac_out_row_stride c) + ((kv * 6 + h) * 128 + d)) = attention_result F c q pool sq kv h d"
    if l: "sq < nat (ac_num_seqs c)" "0 < clamped_len (kernel_args c) sq" "kv < nat (ac_num_kv_heads c)" "h < 6" "d < 128"
  proof -
    let ?i = "sq * nat (ac_out_row_stride c) + ((kv * 6 + h) * 128 + d)"
    have hd: "h * 128 + d < 768" using l(4,5) by simp
    have i: "?i = sq * nat (ac_out_row_stride c) + kv * 768 + (h * 128 + d)" by simp
    have "(sq, kv) \<in> set xs" "?i \<in> R (sq, kv)" using l hd by (simp_all add: xs_def R_def out_region_def)
    from f1[OF this, of out] have "out' ?i = V (sq, kv) ?i" by (simp add: out'_def xs_def)
    moreover have "off (sq, kv) ?i = h * 128 + d" unfolding i off_def by simp
    ultimately show ?thesis using l(5) by (simp add: V_def)
  qed
  show "out' i = out i" if w: "i \<notin> written c"
  proof -
    have "i \<notin> R x" if x: "x \<in> set xs" for x
    proof
      assume "i \<in> R x"
      obtain sq kv where p: "x = (sq, kv)" "sq < nat (ac_num_seqs c)" "kv < nat (ac_num_kv_heads c)" using x by (auto simp: xs_def)
      have live: "0 < clamped_len (kernel_args c) sq" and i: "i \<in> out_region (kernel_args c) (sq, kv)"
        using \<open>i \<in> R x\<close> by (auto simp: R_def p split: if_splits)
      have "kv * 768 + 768 \<le> nat (ac_num_q_heads c) * 128" using p(3) c by (simp add: contract_def)
      then have "i \<in> {sq * nat (ac_out_row_stride c)..<sq * nat (ac_out_row_stride c) + nat (ac_num_q_heads c) * 128}"
        using i by (simp add: out_region_def)
      then show False using w p(2) live by (auto simp: written_def)
    qed
    then show ?thesis using f2[of i out] by (simp add: out'_def xs_def)
  qed
qed

section \<open>Only live positions matter\<close>

lemma online_cong:
  assumes "\<And>pos. pos < n \<Longrightarrow> sc pos = sc' pos" "\<And>pos. pos < n \<Longrightarrow> v pos = v' pos"
  shows "online F sc v n tiles = online F sc' v' n tiles"
proof -
  have ts: "tile_scores F sc n tile = tile_scores F sc' n tile" for tile
    by (rule ext) (simp add: tile_scores_def assms(1))
  have fd: "fold (\<lambda>t. f_fma F (p t) (v (16 * tile + t))) [0..<min 16 (n - 16 * tile)] x =
      fold (\<lambda>t. f_fma F (p t) (v' (16 * tile + t))) [0..<min 16 (n - 16 * tile)] x" for p tile x
  proof (rule fold_cong)
    fix t
    assume "t \<in> set [0..<min 16 (n - 16 * tile)]"
    then have "16 * tile + t < n" by auto
    then show "f_fma F (p t) (v (16 * tile + t)) = f_fma F (p t) (v' (16 * tile + t))" by (simp add: assms(2))
  qed simp_all
  have "tile_step F sc v n = tile_step F sc' v' n" unfolding tile_step_def Let_def ts fd ..
  then show ?thesis by (simp add: online_def)
qed

definition same_live_pool :: "'f AttnCall \<Rightarrow> halves \<Rightarrow> halves \<Rightarrow> bool" where
  "same_live_pool c pool pool' \<longleftrightarrow>
     (\<forall>sq<nat (ac_num_seqs c). \<forall>kv<nat (ac_num_kv_heads c). \<forall>pos<nat (clamped_len (kernel_args c) sq). \<forall>side<2. \<forall>d<128.
        pool' (tile_rows (kernel_args c) (sq, kv) side pos + d) = pool (tile_rows (kernel_args c) (sq, kv) side pos + d))"

lemma attention_result_live:
  assumes "same_live_pool c pool pool'" "sq < nat (ac_num_seqs c)" "kv < nat (ac_num_kv_heads c)" "d < 128"
  shows "attention_result F c q pool' sq kv h d = attention_result F c q pool sq kv h d"
proof -
  have row: "pool' (tile_rows (kernel_args c) (sq, kv) side pos + d) = pool (tile_rows (kernel_args c) (sq, kv) side pos + d)"
    if "pos < nat (clamped_len (kernel_args c) sq)" "side < 2" "d < 128" for pos side d
    using assms(1-3) that unfolding same_live_pool_def by blast
  show ?thesis
    unfolding attention_result_def attended_def attend_def
    by (subst online_cong[where sc' = "live_score F (kernel_args c) pool (sq, kv) (group_query F (kernel_args c) q (sq, kv) h)" and
          v' = "live_value F (kernel_args c) pool (sq, kv) d"])
      (simp_all add: live_score_def live_value_def row assms(4) cong: dot8_cong)
qed

lemma written_element:
  assumes c: "contract c" and i: "i \<in> written c"
  obtains sq kv h d where "sq < nat (ac_num_seqs c)" "0 < clamped_len (kernel_args c) sq" "kv < nat (ac_num_kv_heads c)" "h < 6" "d < 128"
    "i = sq * nat (ac_out_row_stride c) + ((kv * 6 + h) * 128 + d)"
proof -
  obtain sq where sq: "sq < nat (ac_num_seqs c)" "0 < clamped_len (kernel_args c) sq"
    and r: "i \<in> {sq * nat (ac_out_row_stride c)..<sq * nat (ac_out_row_stride c) + nat (ac_num_q_heads c) * 128}"
    using i unfolding written_def by blast
  define e where "e = i - sq * nat (ac_out_row_stride c)"
  have e: "i = sq * nat (ac_out_row_stride c) + e" "e < nat (ac_num_kv_heads c) * 768"
    using r c by (auto simp: e_def contract_def)
  have "e div 768 < nat (ac_num_kv_heads c)" using e(2) by (simp add: less_mult_imp_div_less)
  moreover have "e mod 768 div 128 < 6" by (simp add: less_mult_imp_div_less)
  moreover have "e = (e div 768 * 6 + e mod 768 div 128) * 128 + e mod 768 mod 128"
  proof -
    have a: "(x * 6 + y) * 128 + z = x * 768 + (y * 128 + z)" for x y z :: nat by simp
    show ?thesis unfolding a div_mult_mod_eq ..
  qed
  ultimately show ?thesis using that[OF sq, of "e div 768" "e mod 768 div 128" "e mod 768 mod 128"] e(1) by simp
qed

lemma LaunchPagedAttentionDecode_Some:
  assumes "LaunchPagedAttentionDecode F compute_major cpasync junk smem c q pool out = Some out'" "0 < ac_num_seqs c"
  obtains threads where "threads = 128 \<or> threads = 256" "contract c" "out' = fold (\<lambda>cta. PagedAttentionDecodeKernel F threads cpasync (junk cta) (smem cta) (kernel_args c) q pool cta)
      (List.product [0..<nat (ac_num_seqs c)] [0..<nat (ac_num_kv_heads c)]) out"
proof -
  have "contract c" using assms contract_checks(2)[of c]
    by (auto simp: LaunchPagedAttentionDecode_def RequireContract_def pa_consts bind_eq_Some_conv split: if_splits)
  then show ?thesis
    using assms that[of 128] that[of 256]
    by (auto simp: LaunchPagedAttentionDecode_def RequireContract_def pa_consts Let_def bind_eq_Some_conv split: if_splits)
qed

lemma LaunchPagedAttentionDecode_contract:
  assumes "contract c" "0 < ac_num_seqs c"
  shows "\<exists>out'. LaunchPagedAttentionDecode F compute_major cpasync junk smem c q pool out = Some out'"
  using assms contract_checks(1)[OF assms(1)]
  by (simp add: LaunchPagedAttentionDecode_def RequireContract_def pa_consts Let_def contract_def)

lemma launch_unique:
  assumes a: "LaunchPagedAttentionDecode F compute_major cpasync junk smem c q pool out = Some out'"
    and b: "LaunchPagedAttentionDecode F compute_major' cpasync' junk' smem' c q pool' out = Some out''"
    and n: "0 < ac_num_seqs c" and same: "same_live_pool c pool pool'"
  shows "out'' = out'"
proof
  fix i
  obtain t where t: "t = 128 \<or> t = 256" "contract c"
    and o: "out' = fold (\<lambda>cta. PagedAttentionDecodeKernel F t cpasync (junk cta) (smem cta) (kernel_args c) q pool cta)
      (List.product [0..<nat (ac_num_seqs c)] [0..<nat (ac_num_kv_heads c)]) out"
    by (rule LaunchPagedAttentionDecode_Some[OF a n])
  obtain t' where t': "t' = 128 \<or> t' = 256"
    and o': "out'' = fold (\<lambda>cta. PagedAttentionDecodeKernel F t' cpasync' (junk' cta) (smem' cta) (kernel_args c) q pool' cta)
      (List.product [0..<nat (ac_num_seqs c)] [0..<nat (ac_num_kv_heads c)]) out"
    by (rule LaunchPagedAttentionDecode_Some[OF b n])
  show "out'' i = out' i"
  proof (cases "i \<in> written c")
    case True
    obtain sq kv h d where e: "sq < nat (ac_num_seqs c)" "0 < clamped_len (kernel_args c) sq" "kv < nat (ac_num_kv_heads c)" "h < 6" "d < 128"
      and i: "i = sq * nat (ac_out_row_stride c) + ((kv * 6 + h) * 128 + d)"
      by (rule written_element[OF t(2) True])
    show ?thesis
      unfolding i o o' launch_elements(1)[OF t(1,2) e] launch_elements(1)[OF t' t(2) e]
      by (rule attention_result_live[OF same e(1,3,5)])
  next
    case False
    show ?thesis unfolding o o' launch_elements(2)[OF t(1,2) False] launch_elements(2)[OF t' t(2) False] ..
  qed
qed

text \<open>
  C34: Decode attention refines the online softmax of the live positions, bit for bit. When the launch
  returns, each element of each query head of each sequence with a positive length holds the reference
  \<open>attend\<close> of the scores and values of the positions below that length, found through the block table,
  and no other element changes. The result is the same on either block size, in the pipelined and in
  the synchronous mode, for any contents of shared memory and of buffers in flight, and for any
  contents of the pool outside the live positions.
\<close>

theorem paged_attention_refines:
  fixes F :: "'f FloatOps"
  assumes "LaunchPagedAttentionDecode F compute_major cpasync junk smem c q pool out = Some out'" "0 < ac_num_seqs c"
  shows "(\<forall>sq<nat (ac_num_seqs c). 0 < clamped_len (kernel_args c) sq \<longrightarrow>
       (\<forall>kv<nat (ac_num_kv_heads c). \<forall>h<6. \<forall>d<128.
          out' (sq * nat (ac_out_row_stride c) + ((kv * 6 + h) * 128 + d)) = attention_result F c q pool sq kv h d)) \<and>
    (\<forall>i. i \<notin> written c \<longrightarrow> out' i = out i) \<and>
    (\<forall>compute_major' cpasync' junk' smem' pool'. same_live_pool c pool pool' \<longrightarrow>
       LaunchPagedAttentionDecode F compute_major' cpasync' junk' smem' c q pool' out = Some out')"
proof -
  obtain t where t: "t = 128 \<or> t = 256" "contract c"
    and o: "out' = fold (\<lambda>cta. PagedAttentionDecodeKernel F t cpasync (junk cta) (smem cta) (kernel_args c) q pool cta)
      (List.product [0..<nat (ac_num_seqs c)] [0..<nat (ac_num_kv_heads c)]) out"
    by (rule LaunchPagedAttentionDecode_Some[OF assms])
  have "LaunchPagedAttentionDecode F compute_major' cpasync' junk' smem' c q pool' out = Some out'"
    if "same_live_pool c pool pool'" for compute_major' cpasync' junk' smem' pool'
    using LaunchPagedAttentionDecode_contract[OF t(2) assms(2)] launch_unique[OF assms(1) _ assms(2) that] by metis
  note same = this
  note e = launch_elements[OF t, where F = F and cpasync = cpasync and junk = junk and smem = smem and q = q and pool = pool and out = out, folded o]
  show ?thesis
  proof (intro conjI allI impI)
    show "LaunchPagedAttentionDecode F compute_major' cpasync' junk' smem' c q pool' out = Some out'"
      if "same_live_pool c pool pool'" for compute_major' cpasync' junk' smem' pool' by (rule same[OF that])
  qed (rule e; assumption)+
qed

text \<open>One sequence of two tokens in block 1; block 0 and the later slots of the block may hold anything.\<close>

definition demo_attention :: "int AttnCall" where
  "demo_attention = \<lparr>ac_pointers = [64, 128, 192, 256, 320], ac_out_row_stride = 768, ac_q_row_stride = 1024, ac_block_tables = (\<lambda>_. 1),
     ac_seq_lens = (\<lambda>_. 2), ac_num_seqs = 1, ac_max_blocks_per_seq = 4, ac_num_q_heads = 6, ac_num_kv_heads = 1, ac_head_dim = 128,
     ac_scale = 1\<rparr>"

lemma demo_attention_contract: "contract demo_attention" "0 < ac_num_seqs demo_attention" "clamped_len (kernel_args demo_attention) 0 = 2"
  by (simp_all add: contract_def demo_attention_def clamped_len_def)

theorem paged_attention_refines_witness:
  "\<forall>s s'. \<exists>out'. LaunchPagedAttentionDecode int_ops 7 False (\<lambda>_ _ _. 0) (\<lambda>_. s) demo_attention (\<lambda>_. 1) (\<lambda>_. 1) (\<lambda>_. 5) = Some out' \<and>
     LaunchPagedAttentionDecode int_ops 8 True (\<lambda>_ _ _. 9) (\<lambda>_. s') demo_attention (\<lambda>_. 1) (\<lambda>i. if i < 4096 then 7 else 1) (\<lambda>_. 5) = Some out' \<and>
     out' 130 = attention_result int_ops demo_attention (\<lambda>_. 1) (\<lambda>_. 1) 0 0 1 2 \<and> out' 768 = 5"
proof (intro allI)
  fix s s'
  obtain out' where l: "LaunchPagedAttentionDecode int_ops 7 False (\<lambda>_ _ _. 0) (\<lambda>_. s) demo_attention (\<lambda>_. 1) (\<lambda>_. 1) (\<lambda>_. 5) = Some out'"
    using LaunchPagedAttentionDecode_contract[OF demo_attention_contract(1,2)] by blast
  note r = paged_attention_refines[OF l demo_attention_contract(2)]
  have "same_live_pool demo_attention (\<lambda>_. 1) (\<lambda>i. if i < 4096 then 7 else 1)"
    by (auto simp: same_live_pool_def tile_rows_def table_entry_def PoolRowOffset_def pa_consts demo_attention_def)
  then have "LaunchPagedAttentionDecode int_ops 8 True (\<lambda>_ _ _. 9) (\<lambda>_. s') demo_attention (\<lambda>_. 1) (\<lambda>i. if i < 4096 then 7 else 1) (\<lambda>_. 5) = Some out'"
    using r by blast
  moreover have "out' (0 * nat (ac_out_row_stride demo_attention) + ((0 * 6 + 1) * 128 + 2)) = attention_result int_ops demo_attention (\<lambda>_. 1) (\<lambda>_. 1) 0 0 1 2"
    using r[THEN conjunct1, rule_format, of 0 0 1 2] by (simp only: demo_attention_contract(3)) (simp add: demo_attention_def)
  moreover have "768 \<notin> written demo_attention" by (simp add: written_def demo_attention_def)
  then have "out' 768 = 5" using r by blast
  ultimately show "\<exists>out'. LaunchPagedAttentionDecode int_ops 7 False (\<lambda>_ _ _. 0) (\<lambda>_. s) demo_attention (\<lambda>_. 1) (\<lambda>_. 1) (\<lambda>_. 5) = Some out' \<and>
     LaunchPagedAttentionDecode int_ops 8 True (\<lambda>_ _ _. 9) (\<lambda>_. s') demo_attention (\<lambda>_. 1) (\<lambda>i. if i < 4096 then 7 else 1) (\<lambda>_. 5) = Some out' \<and>
     out' 130 = attention_result int_ops demo_attention (\<lambda>_. 1) (\<lambda>_. 1) 0 0 1 2 \<and> out' 768 = 5"
    using l by (intro exI[of _ out']) simp
qed

end
