(* ===== verification/Attention_Exact.thy ===== *)
theory Attention_Exact
  imports Attention_Theorems Complex_Main
begin

text \<open>
  Decode attention in exact arithmetic. Over the reals with minus infinity, where no operation rounds,
  the online softmax of the primary kernel and the two passes of the oracle kernel compute the same
  function: the average of the values weighted by the exponentials of the scores.
\<close>

unbundle bit_operations_syntax

datatype extended = NegInf | Fin real

fun lift2 :: "(real \<Rightarrow> real \<Rightarrow> real) \<Rightarrow> extended \<Rightarrow> extended \<Rightarrow> extended" where
  "lift2 f (Fin x) (Fin y) = Fin (f x y)"
| "lift2 f _ _ = NegInf"

fun ext_max :: "extended \<Rightarrow> extended \<Rightarrow> extended" where
  "ext_max NegInf y = y"
| "ext_max x NegInf = x"
| "ext_max (Fin x) (Fin y) = Fin (max x y)"

fun ext_exp :: "extended \<Rightarrow> extended" where
  "ext_exp NegInf = Fin 0"
| "ext_exp (Fin x) = Fin (exp x)"

fun real_of :: "extended \<Rightarrow> real" where
  "real_of NegInf = 0"
| "real_of (Fin x) = x"

text \<open>\<open>value\<close> is the number a half denotes, \<open>rnd\<close> the rounding to half.\<close>

definition exact_ops :: "(16 word \<Rightarrow> real) \<Rightarrow> (real \<Rightarrow> 16 word) \<Rightarrow> extended FloatOps" where
  "exact_ops val rnd = \<lparr>half2float = (\<lambda>w. Fin (val w)), float2half = (\<lambda>x. rnd (real_of x)), int2float = (\<lambda>n. Fin (real_of_int n)),
     f_add = lift2 (+), f_sub = lift2 (-), f_mul = lift2 (*), f_div = lift2 (/),
     f_fma = (\<lambda>x y z. lift2 (+) (lift2 (*) x y) z), f_max = ext_max, f_neg = lift2 (-) (Fin 0), f_exp = ext_exp,
     f_rsqrt = (\<lambda>x. Fin (1 / sqrt (real_of x))), f_sincos = (\<lambda>x. (Fin (sin (real_of x)), Fin (cos (real_of x)))),
     f_pow = (\<lambda>x y. Fin (real_of x powr real_of y)), f_less = (\<lambda>x y. real_of x < real_of y), f_equal = (\<lambda>x y. x = y),
     f_zero = Fin 0, f_one = Fin 1, f_neg_inf = NegInf, f_lowest = NegInf\<rparr>"

lemma exact_ops_simps [simp]:
  "half2float (exact_ops val rnd) w = Fin (val w)" "float2half (exact_ops val rnd) x = rnd (real_of x)"
  "f_add (exact_ops val rnd) = lift2 (+)" "f_sub (exact_ops val rnd) = lift2 (-)" "f_mul (exact_ops val rnd) = lift2 (*)"
  "f_div (exact_ops val rnd) = lift2 (/)" "f_fma (exact_ops val rnd) x y z = lift2 (+) (lift2 (*) x y) z"
  "f_max (exact_ops val rnd) = ext_max" "f_exp (exact_ops val rnd) = ext_exp" "f_zero (exact_ops val rnd) = Fin 0"
  "f_neg_inf (exact_ops val rnd) = NegInf"
  by (simp_all add: exact_ops_def)

section \<open>Dot products\<close>

lemma fold_fma:
  "fold (\<lambda>d. f_fma (exact_ops val rnd) (Fin (x d)) (Fin (y d))) ds (Fin s) = Fin (s + (\<Sum>d\<leftarrow>ds. x d * y d))"
  by (induction ds arbitrary: s) (simp_all add: algebra_simps)

lemma sum_split: "(\<Sum>i<p + k. f i) = (\<Sum>i<p. f i) + (\<Sum>t<k. f (p + t))" for f :: "nat \<Rightarrow> real"
  by (induction k) simp_all

lemma sum_groups: "(\<Sum>m<n. \<Sum>e<k. f (m * k + e)) = (\<Sum>d<n * k. f d)" for f :: "nat \<Rightarrow> real"
  by (induction n) (simp_all add: sum_split add.commute[of k])

lemma dot8_exact:
  "dot8 (exact_ops val rnd) (\<lambda>d. Fin (x d)) k = Fin (\<Sum>d<128. x d * val (k d))"
proof -
  define g where "g = (\<lambda>d. x d * val (k d))"
  define S where "S = (\<lambda>sub. (\<Sum>e<8. g (sub * 8 + e)) + (\<Sum>e<8. g (64 + (sub * 8 + e))))"
  have p: "dot_partial (exact_ops val rnd) (\<lambda>d. Fin (x d)) k sub = Fin (S sub)" for sub
  proof -
    let ?ds = "concat (map (\<lambda>c. map (\<lambda>e. 64 * c + 8 * sub + e) [0..<8]) [0..<2 :: nat])"
    have "dot_partial (exact_ops val rnd) (\<lambda>d. Fin (x d)) k sub = Fin (0 + (\<Sum>d\<leftarrow>?ds. x d * val (k d)))"
      using fold_fma[of val rnd x "\<lambda>d. val (k d)" ?ds 0] by (simp only: dot_partial_def exact_ops_simps(1,10))
    also have "(\<Sum>d\<leftarrow>?ds. x d * val (k d)) = (\<Sum>d\<leftarrow>?ds. g d)" by (simp add: g_def)
    also have "\<dots> = S sub" by (simp add: S_def numeral_2_eq_2 comp_def interv_sum_list_conv_sum_set_nat lessThan_atLeast0 mult.commute add.assoc)
    finally show ?thesis by simp
  qed
  have "(\<Sum>sub<8. S sub) = (\<Sum>d<8 * 8. g d) + (\<Sum>d<8 * 8. g (64 + d))"
    unfolding S_def sum.distrib sum_groups sum_groups[of "\<lambda>d. g (64 + d)"] ..
  also have "\<dots> = (\<Sum>d<128. g d)" using sum_split[of g 64 64] by simp
  finally have "(\<Sum>sub<8. S sub) = (\<Sum>d<128. g d)" .
  moreover have "(\<Sum>sub<8. S sub) = S 0 + S 4 + (S 2 + S 6) + (S 1 + S 5 + (S 3 + S 7))"
    by (simp add: lessThan_nat_numeral lessThan_Suc add_ac)
  ultimately show ?thesis by (simp add: dot8_def Let_def p g_def)
qed

section \<open>Lanes that agree\<close>

text \<open>After the tree over a commutative operation all sixteen lanes hold the same value.\<close>

lemma shfl_xor_keeps:
  assumes "\<And>t. f (t XOR a) = f t"
  shows "shfl_xor op off f (t XOR a) = shfl_xor op off f t"
proof -
  have "(t XOR a) XOR off = (t XOR off) XOR a" by (simp only: ac_simps)
  then show ?thesis unfolding shfl_xor_def using assms by simp
qed

lemma shfl_xor_own:
  assumes "\<And>x y. op x y = op y x"
  shows "shfl_xor op off f (t XOR off) = shfl_xor op off f t"
proof -
  have "(t XOR off) XOR off = t" by (simp add: xor.assoc)
  then show ?thesis unfolding shfl_xor_def using assms by metis
qed

lemma tree16_lanes:
  assumes comm: "\<And>x y. op x y = op y x" and t: "t < 16"
  shows "tree16 op f t = tree16 op f 0"
proof -
  define g1 where "g1 = shfl_xor op 8 f"
  define g2 where "g2 = shfl_xor op 4 g1"
  define g3 where "g3 = shfl_xor op 2 g2"
  define g where "g = shfl_xor op 1 g3"
  have 1: "g1 (t XOR 8) = g1 t" for t unfolding g1_def by (rule shfl_xor_own) (rule comm)
  have 2: "g2 (t XOR 8) = g2 t" "g2 (t XOR 4) = g2 t" for t
    unfolding g2_def by (rule shfl_xor_keeps, rule 1, rule shfl_xor_own, rule comm)
  have 3: "g3 (t XOR 8) = g3 t" "g3 (t XOR 4) = g3 t" "g3 (t XOR 2) = g3 t" for t
    unfolding g3_def by (rule shfl_xor_keeps, rule 2, rule shfl_xor_keeps, rule 2, rule shfl_xor_own, rule comm)
  have 8: "g (t XOR 8) = g t" and 4: "g (t XOR 4) = g t" and 2: "g (t XOR 2) = g t" and 1: "g (t XOR 1) = g t" for t
    unfolding g_def by (rule shfl_xor_keeps, rule 3, rule shfl_xor_keeps, rule 3, rule shfl_xor_keeps, rule 3, rule shfl_xor_own, rule comm)
  have "g 8 = g 0" "g 4 = g 0" "g 12 = g 0" using 8[of 0] 4[of 0] 4[of 8] by simp_all
  then have e: "g 8 = g 0" "g 4 = g 0" "g 12 = g 0" "g 2 = g 0" "g 6 = g 0" "g 10 = g 0" "g 14 = g 0"
    using 2[of 0] 2[of 4] 2[of 8] 2[of 12] by simp_all
  then have o: "g 1 = g 0" "g 3 = g 0" "g 5 = g 0" "g 7 = g 0" "g 9 = g 0" "g 11 = g 0" "g 13 = g 0" "g 15 = g 0"
    using 1[of 0] 1[of 2] 1[of 4] 1[of 6] 1[of 8] 1[of 10] 1[of 12] 1[of 14] by simp_all
  have "t \<in> {0, 1, 2, 3, 4, 5, 6, 7, 8, 9, 10, 11, 12, 13, 14, 15}"
  proof -
    have "t \<in> set [0..<16]" using t by simp
    also have "set [0..<16 :: nat] = {0, 1, 2, 3, 4, 5, 6, 7, 8, 9, 10, 11, 12, 13, 14, 15}" by (simp add: upt_rec numeral_eq_Suc del: set_upt)
    finally show ?thesis .
  qed
  then have "g t = g 0" using e o by (elim insertE) simp_all
  then show ?thesis by (simp add: tree16_def g_def g3_def g2_def g1_def)
qed

lemma ext_max_comm: "ext_max x y = ext_max y x"
  by (cases x; cases y) simp_all

lemma ext_max_Fin: "\<exists>M. ext_max (Fin x) y = Fin M"
  by (cases y) simp_all

lemma tree16_max_Fin:
  assumes "f 0 = Fin x"
  shows "\<exists>M. tree16 ext_max f 0 = Fin M"
proof -
  have s: "\<exists>M. shfl_xor ext_max off g 0 = Fin M" if "\<exists>M. g 0 = Fin M" for off g
    using that ext_max_Fin by (auto simp: shfl_xor_def)
  show ?thesis unfolding tree16_def fold_simps by (intro s) (use assms in blast)
qed

lemma tree16_sum: "tree16 (lift2 (+)) (\<lambda>t. Fin (p t)) 0 = Fin (\<Sum>t<16. p t)"
  by (simp add: tree16_def shfl_xor_def lessThan_nat_numeral lessThan_Suc add_ac)

section \<open>The online softmax\<close>

definition softmax_average :: "(nat \<Rightarrow> real) \<Rightarrow> (nat \<Rightarrow> real) \<Rightarrow> nat \<Rightarrow> real" where
  "softmax_average s w n = (\<Sum>i<n. exp (s i) * w i) / (\<Sum>i<n. exp (s i))"

lemma softmax_average_shift:
  "(\<Sum>i<n. exp (s i - M) * w i) / (\<Sum>i<n. exp (s i - M)) = softmax_average s w n"
proof -
  have "(\<Sum>i<n. exp (s i - M) * w i) = (\<Sum>i<n. exp (s i) * w i) / exp M" "(\<Sum>i<n. exp (s i - M)) = (\<Sum>i<n. exp (s i)) / exp M"
    by (simp_all add: exp_diff sum_divide_distrib)
  then show ?thesis by (simp add: softmax_average_def)
qed

text \<open>After some positions: the sums relative to any finite maximum.\<close>

definition partial_softmax :: "(nat \<Rightarrow> real) \<Rightarrow> (nat \<Rightarrow> real) \<Rightarrow> nat \<Rightarrow> extended \<times> extended \<times> extended \<Rightarrow> bool" where
  "partial_softmax s w p st \<longleftrightarrow>
     (p = 0 \<and> st = (NegInf, Fin 0, Fin 0)) \<or>
     (\<exists>M. st = (Fin M, Fin (\<Sum>i<p. exp (s i - M)), Fin (\<Sum>i<p. exp (s i - M) * w i)))"

lemma tile_step_exact:
  assumes st: "partial_softmax s w (16 * tile) st" and tile: "16 * tile < n"
  shows "partial_softmax s w (min n (16 * (tile + 1))) (tile_step (exact_ops val rnd) (\<lambda>i. Fin (s i)) (\<lambda>i. Fin (w i)) n tile st)"
proof -
  let ?F = "exact_ops val rnd"
  obtain m l a where mla: "st = (m, l, a)" by (cases st)
  define valid where "valid = min 16 (n - 16 * tile)"
  have v: "0 < valid" "valid \<le> 16" "min n (16 * (tile + 1)) = 16 * tile + valid" using tile by (auto simp: valid_def)
  define ts where "ts = tile_scores ?F (\<lambda>i. Fin (s i)) n tile"
  have ts: "ts t = Fin (s (16 * tile + t))" if "t < valid" for t using that by (auto simp: ts_def tile_scores_def valid_def)
  obtain T where T: "tree16 ext_max ts 0 = Fin T" using tree16_max_Fin[of ts] ts[OF v(1)] by auto
  obtain M where M: "new_max ?F m ts 0 = Fin M"
    using ext_max_Fin[of T m] by (auto simp: new_max_def T ext_max_comm)
  have lane: "new_max ?F m ts t = Fin M" if "t < 16" for t
    using M tree16_lanes[where op = ext_max and f = ts, OF ext_max_comm that] by (simp add: new_max_def)
  define P where "P = (\<lambda>t. if t < valid then exp (s (16 * tile + t) - M) else 0)"
  have p: "tile_prob ?F m ts valid t = Fin (P t)" if "t < 16" for t
    using lane[OF that] ts by (simp add: tile_prob_def P_def)
  have psum: "(\<Sum>t<16. P t) = (\<Sum>t<valid. exp (s (16 * tile + t) - M))"
  proof -
    have "(\<Sum>t<16. P t) = (\<Sum>t\<in>{t\<in>{..<16}. t < valid}. exp (s (16 * tile + t) - M))"
      unfolding P_def by (rule sum.inter_filter[symmetric]) simp
    also have "{t\<in>{..<16}. t < valid} = {..<valid}" using v(2) by auto
    finally show ?thesis .
  qed
  have tree: "tree16 (lift2 (+)) (tile_prob ?F m ts valid) 0 = Fin (\<Sum>t<valid. exp (s (16 * tile + t) - M))"
    using tree16_cong[of "tile_prob ?F m ts valid" "\<lambda>t. Fin (P t)" 0 "lift2 (+)"] p tree16_sum[of P] by (simp add: psum)
  have facc: "fold (\<lambda>t. f_fma ?F (tile_prob ?F m ts valid t) (Fin (w (16 * tile + t)))) [0..<valid] (Fin A) =
      Fin (A + (\<Sum>t<valid. exp (s (16 * tile + t) - M) * w (16 * tile + t)))" for A
  proof -
    have "fold (\<lambda>t. f_fma ?F (tile_prob ?F m ts valid t) (Fin (w (16 * tile + t)))) [0..<valid] (Fin A) =
        fold (\<lambda>t. f_fma ?F (Fin (exp (s (16 * tile + t) - M))) (Fin (w (16 * tile + t)))) [0..<valid] (Fin A)"
      by (rule fold_cong) (use v(2) in \<open>simp_all add: p P_def del: exact_ops_simps(7)\<close>)
    then show ?thesis unfolding fold_fma by (simp add: interv_sum_list_conv_sum_set_nat lessThan_atLeast0)
  qed
  have step: "tile_step ?F (\<lambda>i. Fin (s i)) (\<lambda>i. Fin (w i)) n tile (m, l, a) =
      (Fin M, lift2 (+) (lift2 (*) l (ext_exp (lift2 (-) m (Fin M)))) (Fin (\<Sum>t<valid. exp (s (16 * tile + t) - M))),
       fold (\<lambda>t. f_fma ?F (tile_prob ?F m ts valid t) (Fin (w (16 * tile + t)))) [0..<valid] (lift2 (*) a (ext_exp (lift2 (-) m (Fin M)))))"
    by (simp add: tile_step_def Let_def ts_def[symmetric] valid_def[symmetric] M tree rescale_def del: exact_ops_simps(7))
  from st consider (none) "tile = 0" "m = NegInf" "l = Fin 0" "a = Fin 0"
    | (some) M0 where "m = Fin M0" "l = Fin (\<Sum>i<16 * tile. exp (s i - M0))" "a = Fin (\<Sum>i<16 * tile. exp (s i - M0) * w i)"
    unfolding partial_softmax_def mla by auto
  then show ?thesis
  proof cases
    case none
    have z: "lift2 (*) l (ext_exp (lift2 (-) m (Fin M))) = Fin 0" "lift2 (*) a (ext_exp (lift2 (-) m (Fin M))) = Fin 0"
      by (simp_all add: none)
    show ?thesis unfolding v(3) mla step z facc partial_softmax_def by (intro disjI2 exI[of _ M]) (simp add: none)
  next
    case some
    have z: "lift2 (*) l (ext_exp (lift2 (-) m (Fin M))) = Fin (\<Sum>i<16 * tile. exp (s i - M))"
      "lift2 (*) a (ext_exp (lift2 (-) m (Fin M))) = Fin (\<Sum>i<16 * tile. exp (s i - M) * w i)"
      by (simp_all add: some sum_distrib_right sum_divide_distrib exp_diff)
    show ?thesis unfolding v(3) mla step z facc partial_softmax_def by (intro disjI2 exI[of _ M]) (simp add: sum_split)
  qed
qed

lemma attend_exact:
  assumes "0 < n"
  shows "attend (exact_ops val rnd) (\<lambda>i. Fin (s i)) (\<lambda>i. Fin (w i)) n = rnd (softmax_average s w n)"
proof -
  let ?on = "online (exact_ops val rnd) (\<lambda>i. Fin (s i)) (\<lambda>i. Fin (w i)) n"
  have "partial_softmax s w (min n (16 * k)) (?on k)" if "k \<le> (n + 15) div 16" for k
    using that
  proof (induction k)
    case 0
    then show ?case by (simp add: online_def partial_softmax_def)
  next
    case (Suc k)
    then have "16 * k < n" "partial_softmax s w (16 * k) (?on k)" by auto
    from tile_step_exact[OF this(2,1)] show ?case by (simp add: online_def)
  qed
  from this[of "(n + 15) div 16"] have "partial_softmax s w n (?on ((n + 15) div 16))"
    by (simp add: min_absorb1)
  then obtain M where "?on ((n + 15) div 16) = (Fin M, Fin (\<Sum>i<n. exp (s i - M)), Fin (\<Sum>i<n. exp (s i - M) * w i))"
    using assms by (auto simp: partial_softmax_def)
  then show ?thesis by (simp add: attend_def softmax_average_shift)
qed

section \<open>The oracle\<close>

lemma lift_add_sum:
  assumes "finite M" "M \<inter> (XOR) off ` M = {}"
  shows "shfl_xor (lift2 (+)) off (\<lambda>t. Fin (\<Sum>m\<in>M. p (t XOR m))) = (\<lambda>t. Fin (\<Sum>m\<in>M \<union> (XOR) off ` M. p (t XOR m)))"
proof
  fix t :: nat
  have inj: "inj_on ((XOR) off) M" by (rule inj_on_inverseI[where g = "(XOR) off"]) (simp add: xor_cancel)
  have "(\<Sum>m\<in>M \<union> (XOR) off ` M. p (t XOR m)) = (\<Sum>m\<in>M. p (t XOR m)) + (\<Sum>m\<in>(XOR) off ` M. p (t XOR m))"
    by (rule sum.union_disjoint) (use assms in auto)
  also have "(\<Sum>m\<in>(XOR) off ` M. p (t XOR m)) = (\<Sum>m\<in>M. p ((t XOR off) XOR m))"
    using inj by (simp add: sum.reindex xor.assoc)
  finally show "shfl_xor (lift2 (+)) off (\<lambda>t. Fin (\<Sum>m\<in>M. p (t XOR m))) t = Fin (\<Sum>m\<in>M \<union> (XOR) off ` M. p (t XOR m))"
    by (simp add: shfl_xor_def)
qed

lemma warp_sum:
  assumes "lane < 32"
  shows "fold (shfl_xor (lift2 (+))) [16, 8, 4, 2, 1] (\<lambda>t. Fin (p t)) lane = Fin (\<Sum>t<32. p t)"
proof -
  define step where "step = (\<lambda>off :: nat. \<lambda>M. M \<union> (XOR) off ` M)"
  have d: "{0} \<inter> (XOR) 16 ` {0 :: nat} = {}" "step 16 {0} \<inter> (XOR) 8 ` step 16 {0} = {}"
    "step 8 (step 16 {0}) \<inter> (XOR) 4 ` step 8 (step 16 {0}) = {}"
    "step 4 (step 8 (step 16 {0})) \<inter> (XOR) 2 ` step 4 (step 8 (step 16 {0})) = {}"
    "step 2 (step 4 (step 8 (step 16 {0}))) \<inter> (XOR) 1 ` step 2 (step 4 (step 8 (step 16 {0}))) = {}"
    unfolding step_def by code_simp+
  have s: "shfl_xor (lift2 (+)) off (\<lambda>t. Fin (\<Sum>m\<in>M. p (t XOR m))) = (\<lambda>t. Fin (\<Sum>m\<in>step off M. p (t XOR m)))"
    if "finite M" "M \<inter> (XOR) off ` M = {}" for M off
    using lift_add_sum[OF that] by (simp only: step_def)
  have fin: "finite (step off M)" if "finite M" for off M using that by (simp add: step_def)
  have "fold (shfl_xor (lift2 (+))) [16, 8, 4, 2, 1] (\<lambda>t. Fin (\<Sum>m\<in>{0}. p (t XOR m))) =
      (\<lambda>t. Fin (\<Sum>m\<in>step 1 (step 2 (step 4 (step 8 (step 16 {0})))). p (t XOR m)))"
    unfolding fold_simps by (simp only: s d fin finite.intros)
  moreover have "step 1 (step 2 (step 4 (step 8 (step 16 {0})))) = {..<32}" unfolding step_def by code_simp
  ultimately have "fold (shfl_xor (lift2 (+))) [16, 8, 4, 2, 1] (\<lambda>t. Fin (p t)) lane = Fin (\<Sum>m\<in>{..<32}. p (lane XOR m))"
    by (simp only: sum.insert finite.intros sum.empty empty_iff xor.right_neutral add_0_right not_False_eq_True)
  also have "(\<Sum>m\<in>{..<32}. p (lane XOR m)) = (\<Sum>t\<in>(XOR) lane ` {..<32}. p t)"
    by (rule sum.reindex_cong[OF _ refl refl, symmetric]) (auto intro: inj_on_inverseI[where g = "(XOR) lane"] simp: xor_cancel)
  also have "(XOR) lane ` {..<32} = {..<32}" unfolding xor_image using assms by auto
  finally show ?thesis .
qed

text \<open>The score of a live position as a real number.\<close>

definition real_score :: "(16 word \<Rightarrow> real) \<Rightarrow> real \<Rightarrow> 'f AttnArgs \<Rightarrow> halves \<Rightarrow> halves \<Rightarrow> nat \<Rightarrow> nat \<Rightarrow> nat \<Rightarrow> nat \<Rightarrow> real" where
  "real_score val scl a q pool sq kv qh pos =
     (\<Sum>d<128. val (q (sq * at_q_row_stride a + qh * 128 + d)) * scl * val (pool (tile_rows a (sq, kv) 0 pos + d)))"

lemma oracle_score_exact:
  assumes "at_scale a = Fin scl" "lane < 32"
  shows "oracle_score (exact_ops val rnd) a pool
      (\<lambda>lane j. f_mul (exact_ops val rnd) (half2float (exact_ops val rnd) (q (sq * at_q_row_stride a + qh * 128 + lane + j * 32))) (at_scale a)) sq kv pos lane =
    Fin (real_score val scl a q pool sq kv qh pos)"
proof -
  define g where "g = (\<lambda>d. val (q (sq * at_q_row_stride a + qh * 128 + d)) * scl * val (pool (tile_rows a (sq, kv) 0 pos + d)))"
  have part: "fold (\<lambda>j. f_fma (exact_ops val rnd) (Fin (val (q (sq * at_q_row_stride a + qh * 128 + lane + j * 32)) * scl))
      (Fin (val (pool (tile_rows a (sq, kv) 0 pos + lane + j * 32))))) [0..<4] (Fin 0) = Fin (\<Sum>j<4. g (j * 32 + lane))" for lane
    unfolding fold_fma by (simp add: interv_sum_list_conv_sum_set_nat lessThan_atLeast0 g_def algebra_simps)
  have "(\<Sum>lane<32. \<Sum>j<4. g (j * 32 + lane)) = (\<Sum>j<4. \<Sum>lane<32. g (j * 32 + lane))" by (rule sum.swap)
  also have "\<dots> = (\<Sum>d<128. g d)" unfolding sum_groups by simp
  finally have "fold (shfl_xor (lift2 (+))) [16, 8, 4, 2, 1] (\<lambda>lane. Fin (\<Sum>j<4. g (j * 32 + lane))) lane = Fin (\<Sum>d<128. g d)"
    unfolding warp_sum[OF assms(2)] by simp
  then show ?thesis
    unfolding real_score_def g_def[symmetric] oracle_score_def Let_def
    using part by (simp add: tile_rows_def pa_consts assms(1) del: exact_ops_simps(7) fold_simps)
qed

lemma fold_scatter:
  assumes "inj_on g (set xs)"
  shows "x \<in> set xs \<Longrightarrow> fold (\<lambda>x b. b(g x := v x)) xs b (g x) = v x"
    and "i \<notin> g ` set xs \<Longrightarrow> fold (\<lambda>x b. b(g x := v x)) xs b i = b i"
proof -
  have 2: "fold (\<lambda>x b. b(g x := v x)) xs b i = b i" if "i \<notin> g ` set xs" for i xs b
    using that by (induction xs arbitrary: b) auto
  show "fold (\<lambda>x b. b(g x := v x)) xs b i = b i" if "i \<notin> g ` set xs" using 2[OF that] .
  have "fold (\<lambda>x b. b(g x := v x)) ys b (g x) = v x" if "x \<in> set ys" "inj_on g (set ys)" for ys b
    using that
  proof (induction ys arbitrary: b)
    case (Cons y ys)
    show ?case
    proof (cases "x \<in> set ys")
      case False
      then have "g x \<notin> g ` set ys" "x = y" using Cons.prems by (auto simp: inj_on_def)
      have "fold (\<lambda>x b. b(g x := v x)) (y # ys) b (g x) = fold (\<lambda>x b. b(g x := v x)) ys (b(g y := v y)) (g x)" by simp
      also have "\<dots> = (b(g y := v y)) (g x)" using \<open>g x \<notin> g ` set ys\<close> by (rule 2)
      finally show ?thesis by (simp only: \<open>x = y\<close> fun_upd_same)
    qed (use Cons in simp)
  qed simp
  then show "x \<in> set xs \<Longrightarrow> fold (\<lambda>x b. b(g x := v x)) xs b (g x) = v x" using assms by blast
qed

lemma fold_max_Fin: "0 < n \<Longrightarrow> \<exists>M. fold (\<lambda>pos m. ext_max m (Fin (s pos))) [0..<n] NegInf = Fin M"
proof (induction n)
  case (Suc n)
  then show ?case using ext_max_Fin by (cases "n = 0") auto
qed simp

definition oracle_value :: "(16 word \<Rightarrow> real) \<Rightarrow> (real \<Rightarrow> 16 word) \<Rightarrow> real \<Rightarrow> 'f AttnArgs \<Rightarrow> halves \<Rightarrow> halves \<Rightarrow> nat \<Rightarrow> nat \<Rightarrow> nat \<Rightarrow> nat \<Rightarrow> 16 word" where
  "oracle_value val rnd scl a q pool sq kv qh d =
     rnd (softmax_average (real_score val scl a q pool sq kv qh) (\<lambda>pos. val (pool (tile_rows a (sq, kv) 1 pos + d))) (nat (clamped_len a sq)))"

lemma oracle_element:
  assumes scl: "at_scale a = Fin scl" and kv: "kv = qh div r"
  shows "PagedAttentionDecodeOracleKernel (exact_ops val rnd) r a q pool (sq, qh) out i =
    (if 0 < clamped_len a sq \<and> i \<in> {sq * at_out_row_stride a + qh * 128..<sq * at_out_row_stride a + qh * 128 + 128}
     then oracle_value val rnd scl a q pool sq kv qh (i - (sq * at_out_row_stride a + qh * 128)) else out i)"
proof (cases "clamped_len a sq \<le> 0")
  case True
  then have "PagedAttentionDecodeOracleKernel (exact_ops val rnd) r a q pool (sq, qh) out = out"
    unfolding PagedAttentionDecodeOracleKernel_def pa_consts Let_def prod.case clamped_len_def by (rule if_P)
  then show ?thesis using True by simp
next
  case False
  let ?F = "exact_ops val rnd"
  define n where "n = nat (clamped_len a sq)"
  have n: "0 < n" using False by (simp add: n_def)
  define row where "row = sq * at_out_row_stride a + qh * 128"
  define s where "s = real_score val scl a q pool sq kv qh"
  define w where "w = (\<lambda>d pos. val (pool (tile_rows a (sq, kv) 1 pos + d)))"
  define score_at where "score_at = oracle_score ?F a pool
      (\<lambda>lane j. f_mul ?F (half2float ?F (q (sq * at_q_row_stride a + qh * 128 + lane + j * 32))) (at_scale a)) sq kv"
  have sc: "score_at pos lane = Fin (s pos)" if "lane < 32" for pos lane
    unfolding score_at_def s_def by (rule oracle_score_exact[OF scl that])
  define m where "m = (\<lambda>lane. fold (\<lambda>pos m. f_max ?F m (score_at pos lane)) [0..<n] (f_neg_inf ?F))"
  have m_at: "fold (\<lambda>pos m. f_max ?F m (score_at pos lane)) [0..<n] (f_neg_inf ?F) = m lane" for lane by (simp only: m_def)
  have m: "\<exists>M. m lane = Fin M" if "lane < 32" for lane
    using fold_max_Fin[OF n, of s] by (simp add: m_def sc[OF that])
  define body where "body = (\<lambda>pos (l, ac).
     ((\<lambda>lane. f_add ?F (l lane) (f_exp ?F (f_sub ?F (score_at pos lane) (m lane)))),
      (\<lambda>lane j :: nat. f_fma ?F (f_exp ?F (f_sub ?F (score_at pos lane) (m lane)))
         (half2float ?F (pool (tile_rows a (sq, kv) 1 pos + lane + j * 32))) (ac lane j))))"
  define g where "g = (\<lambda>k. fold body [0..<k] ((\<lambda>_. f_zero ?F), (\<lambda>_ _. f_zero ?F)))"
  have sums: "fst (g k) lane = Fin (\<Sum>pos<k. exp (s pos - M)) \<and> snd (g k) lane j = Fin (\<Sum>pos<k. exp (s pos - M) * w (lane + j * 32) pos)"
    if "lane < 32" "m lane = Fin M" for k lane j M
  proof (induction k)
    case (Suc k)
    have "g (Suc k) = body k (g k)" by (simp add: g_def)
    then show ?case using Suc.IH by (simp add: body_def split_beta sc[OF that(1)] that(2) w_def add.assoc)
  qed (simp add: g_def)
  define f where "f = (\<lambda>(lane, j). row + lane + j * 32)"
  define v where "v = (\<lambda>(lane, j). float2half ?F (f_div ?F (snd (g n) lane j) (fst (g n) lane)))"
  define xs where "xs = List.product [0..<32 :: nat] [0..<4 :: nat]"
  have ker: "PagedAttentionDecodeOracleKernel ?F r a q pool (sq, qh) out = fold (\<lambda>x b. b(f x := v x)) xs out"
  proof -
    have "PagedAttentionDecodeOracleKernel ?F r a q pool (sq, qh) out =
        (case g n of (l, ac) \<Rightarrow> fold (\<lambda>(lane, j) b. b(row + lane + j * 32 := float2half ?F (f_div ?F (ac lane j) (l lane)))) xs out)"
      unfolding PagedAttentionDecodeOracleKernel_def pa_consts Let_def prod.case clamped_len_def[symmetric] n_def[symmetric] kv[symmetric]
        score_at_def[symmetric] m_at g_def body_def row_def xs_def tile_rows_def fst_conv snd_conv
      using False by simp
    also have "\<dots> = fold (\<lambda>x b. b(f x := v x)) xs out"
      by (simp add: f_def v_def case_prod_unfold)
    finally show ?thesis .
  qed
  have inj: "inj_on f (set xs)"
  proof (rule inj_onI)
    fix x y
    assume xy: "x \<in> set xs" "y \<in> set xs" "f x = f y"
    obtain l j l' j' where p: "x = (l, j)" "l < 32" "y = (l', j')" "l' < 32" using xy(1,2) by (auto simp: xs_def)
    have "l + j * 32 = l' + j' * 32" using xy(3) by (simp add: f_def p)
    then have "(l + j * 32) mod 32 = (l' + j' * 32) mod 32" "(l + j * 32) div 32 = (l' + j' * 32) div 32" by simp_all
    then show "x = y" using p by simp
  qed
  show ?thesis
  proof (cases "i \<in> {row..<row + 128}")
    case True
    define c where "c = i - row"
    have c: "c < 128" "i = row + c" using True by (auto simp: c_def)
    let ?x = "(c mod 32, c div 32)"
    have "?x \<in> set xs" "f ?x = i" using c by (auto simp: xs_def f_def less_mult_imp_div_less)
    then have "fold (\<lambda>x b. b(f x := v x)) xs out i = v ?x" using fold_scatter(1)[OF inj, of ?x v out] by simp
    moreover obtain M where M: "m (c mod 32) = Fin M" using m[of "c mod 32"] by auto
    have "c mod 32 + c div 32 * 32 = c" by simp
    then have "v ?x = rnd (softmax_average s (w c) n)"
      using sums[OF _ M, of n "c div 32"] by (simp add: v_def softmax_average_shift)
    ultimately show ?thesis using False True c_def by (simp add: ker oracle_value_def s_def w_def n_def row_def)
  next
    case out: False
    have "i \<notin> f ` set xs" using out by (auto simp: xs_def f_def)
    then show ?thesis using out fold_scatter(2)[OF inj, of i v out] by (auto simp: ker row_def)
  qed
qed

section \<open>The launches agree\<close>

lemma oracle_launch_elements:
  fixes c :: "extended AttnCall" and q pool out :: halves and val and rnd
  assumes c: "contract c" and scl: "ac_scale c = Fin scl"
  defines "out' \<equiv> fold (PagedAttentionDecodeOracleKernel (exact_ops val rnd) 6 (kernel_args c) q pool)
      (List.product [0..<nat (ac_num_seqs c)] [0..<nat (ac_num_q_heads c)]) out"
  shows "sq < nat (ac_num_seqs c) \<Longrightarrow> 0 < clamped_len (kernel_args c) sq \<Longrightarrow> kv < nat (ac_num_kv_heads c) \<Longrightarrow> h < 6 \<Longrightarrow> d < 128 \<Longrightarrow>
      out' (sq * nat (ac_out_row_stride c) + ((kv * 6 + h) * 128 + d)) = oracle_value val rnd scl (kernel_args c) q pool sq kv (kv * 6 + h) d"
    and "i \<notin> written c \<Longrightarrow> out' i = out i"
proof -
  define xs where "xs = List.product [0..<nat (ac_num_seqs c)] [0..<nat (ac_num_q_heads c)]"
  define R where "R = (\<lambda>(sq, qh). if 0 < clamped_len (kernel_args c) sq
     then {sq * nat (ac_out_row_stride c) + qh * 128..<sq * nat (ac_out_row_stride c) + qh * 128 + 128} else {})"
  define V where "V = (\<lambda>(sq, qh) i. oracle_value val rnd scl (kernel_args c) q pool sq (qh div 6) qh (i - (sq * nat (ac_out_row_stride c) + qh * 128)))"
  have stride: "nat (ac_num_q_heads c) * 128 \<le> nat (ac_out_row_stride c)"
  proof -
    have "ac_num_q_heads c * 128 \<le> ac_out_row_stride c" using c by (simp add: contract_def)
    then show ?thesis by linarith
  qed
  have K: "PagedAttentionDecodeOracleKernel (exact_ops val rnd) 6 (kernel_args c) q pool x b i = (if i \<in> R x then V x i else b i)" for x b i
  proof -
    obtain sq qh where x: "x = (sq, qh)" by (cases x)
    have "at_scale (kernel_args c) = Fin scl" by (simp add: scl)
    from oracle_element[OF this refl, of val rnd 6 q pool sq qh b i] show ?thesis by (auto simp: x R_def V_def)
  qed
  have D: "x = y" if xy: "x \<in> set xs" "y \<in> set xs" "i \<in> R x" "i \<in> R y" for x y i
  proof -
    obtain sq qh sq' qh' where p: "x = (sq, qh)" "qh < nat (ac_num_q_heads c)" "y = (sq', qh')" "qh' < nat (ac_num_q_heads c)"
      using xy(1,2) by (auto simp: xs_def)
    define w where "w = nat (ac_out_row_stride c)"
    have b: "qh * 128 + 128 \<le> w" "qh' * 128 + 128 \<le> w" using p(2,4) stride by (simp_all add: w_def)
    have ix: "sq * w + qh * 128 \<le> i" "i < sq * w + qh * 128 + 128" "sq' * w + qh' * 128 \<le> i" "i < sq' * w + qh' * 128 + 128"
      using xy(3,4) by (auto simp: R_def p w_def split: if_splits)
    have "i div w = sq" by (rule div_nat_eqI) (use ix(1,2) b(1) in \<open>simp_all add: algebra_simps\<close>)
    moreover have "i div w = sq'" by (rule div_nat_eqI) (use ix(3,4) b(2) in \<open>simp_all add: algebra_simps\<close>)
    ultimately have "sq = sq'" by simp
    then show ?thesis using ix p by simp
  qed
  let ?K = "PagedAttentionDecodeOracleKernel (exact_ops val rnd) 6 (kernel_args c) q pool"
  have f1: "fold ?K xs b i = V x i" if "x \<in> set xs" "i \<in> R x" for b i x
    by (rule fold_regions(1)[where R = R]) (rule K | fact D that)+
  have f2: "fold ?K xs b i = b i" if "\<And>x. x \<in> set xs \<Longrightarrow> i \<notin> R x" for b i
    by (rule fold_regions(2)[where R = R and V = V]) (rule K | fact D that)+
  show "out' (sq * nat (ac_out_row_stride c) + ((kv * 6 + h) * 128 + d)) = oracle_value val rnd scl (kernel_args c) q pool sq kv (kv * 6 + h) d"
    if l: "sq < nat (ac_num_seqs c)" "0 < clamped_len (kernel_args c) sq" "kv < nat (ac_num_kv_heads c)" "h < 6" "d < 128"
  proof -
    let ?i = "sq * nat (ac_out_row_stride c) + ((kv * 6 + h) * 128 + d)"
    have "kv * 6 + h < nat (ac_num_q_heads c)" using l(3,4) c by (simp add: contract_def)
    then have "(sq, kv * 6 + h) \<in> set xs" "?i \<in> R (sq, kv * 6 + h)" using l by (simp_all add: xs_def R_def)
    from f1[OF this, of out] show ?thesis using l(4) by (simp add: out'_def xs_def V_def)
  qed
  show "out' i = out i" if w: "i \<notin> written c"
  proof -
    have "i \<notin> R x" if x: "x \<in> set xs" for x
    proof
      assume "i \<in> R x"
      obtain sq qh where p: "x = (sq, qh)" "sq < nat (ac_num_seqs c)" "qh < nat (ac_num_q_heads c)" using x by (auto simp: xs_def)
      have live: "0 < clamped_len (kernel_args c) sq" and i: "sq * nat (ac_out_row_stride c) + qh * 128 \<le> i" "i < sq * nat (ac_out_row_stride c) + qh * 128 + 128"
        using \<open>i \<in> R x\<close> by (auto simp: R_def p split: if_splits)
      have "qh * 128 + 128 \<le> nat (ac_num_q_heads c) * 128" using p(3) by simp
      then have "sq * nat (ac_out_row_stride c) \<le> i" "i < sq * nat (ac_out_row_stride c) + nat (ac_num_q_heads c) * 128" using i by linarith+
      then have "i \<in> written c" using p(2) live unfolding written_def by auto
      then show False using w by contradiction
    qed
    then show ?thesis using f2[of i out] by (simp add: out'_def xs_def)
  qed
qed

lemma attention_result_exact:
  assumes "ac_scale c = Fin scl" "0 < clamped_len (kernel_args c) sq"
  shows "attention_result (exact_ops val rnd) c q pool sq kv h d = oracle_value val rnd scl (kernel_args c) q pool sq kv (kv * 6 + h) d"
proof -
  let ?a = "kernel_args c"
  have "live_score (exact_ops val rnd) ?a pool (sq, kv) (group_query (exact_ops val rnd) ?a q (sq, kv) h) =
      (\<lambda>pos. Fin (real_score val scl ?a q pool sq kv (kv * 6 + h) pos))"
  proof
    fix pos
    have "group_query (exact_ops val rnd) ?a q (sq, kv) h = (\<lambda>d. Fin (val (q (sq * at_q_row_stride ?a + (kv * 6 + h) * 128 + d)) * scl))"
      by (rule ext) (simp add: group_query_def assms(1) add.assoc mult.commute[of 768])
    then show "live_score (exact_ops val rnd) ?a pool (sq, kv) (group_query (exact_ops val rnd) ?a q (sq, kv) h) pos =
        Fin (real_score val scl ?a q pool sq kv (kv * 6 + h) pos)"
      by (simp only: live_score_def dot8_exact real_score_def)
  qed
  moreover have "live_value (exact_ops val rnd) ?a pool (sq, kv) d = (\<lambda>pos. Fin (val (pool (tile_rows ?a (sq, kv) 1 pos + d))))"
    by (simp add: live_value_def fun_eq_iff)
  moreover have "0 < nat (clamped_len ?a sq)" using assms(2) by simp
  ultimately show ?thesis unfolding attention_result_def attended_def oracle_value_def by (simp only: attend_exact)
qed

text \<open>
  C35: The primary kernel equals the oracle. In exact arithmetic, with any values for the halves and any
  rounding of the result, a launch of the primary kernel and a launch of the oracle kernel with the same
  arguments leave the same output, on every configuration of the primary kernel: for each element the
  rounded average of the values of the live positions, weighted by the exponentials of the scaled dot
  products.
\<close>

theorem paged_attention_equals_oracle:
  fixes val :: "16 word \<Rightarrow> real"
  assumes "LaunchPagedAttentionDecode (exact_ops val rnd) compute_major cpasync junk smem c q pool out = Some out'"
    and "0 < ac_num_seqs c" and "ac_scale c = Fin scl"
  shows "LaunchPagedAttentionDecodeOracle (exact_ops val rnd) c q pool out = Some out' \<and>
    (\<forall>sq<nat (ac_num_seqs c). 0 < clamped_len (kernel_args c) sq \<longrightarrow> (\<forall>kv<nat (ac_num_kv_heads c). \<forall>h<6. \<forall>d<128.
       out' (sq * nat (ac_out_row_stride c) + ((kv * 6 + h) * 128 + d)) =
       rnd (softmax_average (real_score val scl (kernel_args c) q pool sq kv (kv * 6 + h))
         (\<lambda>pos. val (pool (tile_rows (kernel_args c) (sq, kv) 1 pos + d))) (nat (clamped_len (kernel_args c) sq)))))"
proof -
  obtain t where t: "t = 128 \<or> t = 256" "contract c"
    and o: "out' = fold (\<lambda>cta. PagedAttentionDecodeKernel (exact_ops val rnd) t cpasync (junk cta) (smem cta) (kernel_args c) q pool cta)
      (List.product [0..<nat (ac_num_seqs c)] [0..<nat (ac_num_kv_heads c)]) out"
    by (rule LaunchPagedAttentionDecode_Some[OF assms(1,2)])
  note e = launch_elements[OF t, where F = "exact_ops val rnd" and cpasync = cpasync and junk = junk and smem = smem and q = q and pool = pool
      and out = out, folded o]
  note oe = oracle_launch_elements[OF t(2) assms(3), where val = val and rnd = rnd and q = q and pool = pool and out = out]
  have "LaunchPagedAttentionDecodeOracle (exact_ops val rnd) c q pool out =
      Some (fold (PagedAttentionDecodeOracleKernel (exact_ops val rnd) 6 (kernel_args c) q pool)
        (List.product [0..<nat (ac_num_seqs c)] [0..<nat (ac_num_q_heads c)]) out)"
    using contract_checks(1)[OF t(2)] assms(2) t(2) by (simp add: LaunchPagedAttentionDecodeOracle_def contract_def)
  also have "\<dots> = Some out'"
  proof (rule arg_cong[of _ _ Some], rule ext)
    fix i
    show "fold (PagedAttentionDecodeOracleKernel (exact_ops val rnd) 6 (kernel_args c) q pool)
        (List.product [0..<nat (ac_num_seqs c)] [0..<nat (ac_num_q_heads c)]) out i = out' i"
    proof (cases "i \<in> written c")
      case True
      obtain sq kv h d where l: "sq < nat (ac_num_seqs c)" "0 < clamped_len (kernel_args c) sq" "kv < nat (ac_num_kv_heads c)" "h < 6" "d < 128"
        and i: "i = sq * nat (ac_out_row_stride c) + ((kv * 6 + h) * 128 + d)"
        by (rule written_element[OF t(2) True])
      show ?thesis unfolding i oe(1)[OF l] e(1)[OF l] attention_result_exact[OF assms(3) l(2)] ..
    next
      case False
      show ?thesis unfolding oe(2)[OF False] e(2)[OF False] ..
    qed
  qed
  finally show ?thesis
    using e(1) attention_result_exact[OF assms(3)] unfolding oracle_value_def by simp
qed

text \<open>The sequence of theory \<open>Attention_Theorems\<close>, with the halves as integers.\<close>

theorem paged_attention_equals_oracle_witness:
  "\<forall>s. \<exists>c out'. LaunchPagedAttentionDecode (exact_ops (\<lambda>w. real_of_int (uint w)) (\<lambda>x. word_of_int \<lfloor>x\<rfloor>)) 8 True (\<lambda>_ _ _. 9) (\<lambda>_. s) c (\<lambda>_. 0) (\<lambda>_. 3) (\<lambda>_. 5) = Some out' \<and>
     LaunchPagedAttentionDecodeOracle (exact_ops (\<lambda>w. real_of_int (uint w)) (\<lambda>x. word_of_int \<lfloor>x\<rfloor>)) c (\<lambda>_. 0) (\<lambda>_. 3) (\<lambda>_. 5) = Some out' \<and> out' 130 = 3"
proof
  fix s
  define c where "c = \<lparr>ac_pointers = [64], ac_out_row_stride = 768, ac_q_row_stride = 1024, ac_block_tables = (\<lambda>_. 1),
     ac_seq_lens = (\<lambda>_. 2), ac_num_seqs = 1, ac_max_blocks_per_seq = 4, ac_num_q_heads = 6, ac_num_kv_heads = 1, ac_head_dim = 128,
     ac_scale = Fin 1\<rparr>"
  have c: "contract c" "0 < ac_num_seqs c" "ac_scale c = Fin 1" "clamped_len (kernel_args c) 0 = 2"
    by (simp_all add: contract_def c_def clamped_len_def)
  let ?F = "exact_ops (\<lambda>w. real_of_int (uint w)) (\<lambda>x. word_of_int \<lfloor>x\<rfloor>)"
  obtain out' where l: "LaunchPagedAttentionDecode ?F 8 True (\<lambda>_ _ _. 9) (\<lambda>_. s) c (\<lambda>_. 0) (\<lambda>_. 3) (\<lambda>_. 5) = Some out'"
    using LaunchPagedAttentionDecode_contract[OF c(1,2)] by blast
  note r = paged_attention_equals_oracle[OF l c(2,3)]
  have "out' (0 * nat (ac_out_row_stride c) + ((0 * 6 + 1) * 128 + 2)) = word_of_int \<lfloor>softmax_average (\<lambda>_. 0) (\<lambda>_. 3) 2\<rfloor>"
    using r[THEN conjunct2, rule_format, of 0 0 1 2] by (simp only: c(4)) (simp add: c_def real_score_def[abs_def])
  then have "out' 130 = 3" by (simp add: softmax_average_def c_def numeral_2_eq_2)
  then show "\<exists>c out'. LaunchPagedAttentionDecode ?F 8 True (\<lambda>_ _ _. 9) (\<lambda>_. s) c (\<lambda>_. 0) (\<lambda>_. 3) (\<lambda>_. 5) = Some out' \<and>
     LaunchPagedAttentionDecodeOracle ?F c (\<lambda>_. 0) (\<lambda>_. 3) (\<lambda>_. 5) = Some out' \<and> out' 130 = 3"
    using l r by blast
qed

end
