(* ===== verification/Workload.thy ===== *)
theory Workload
  imports Core_Types "HOL-Library.Word"
begin

unbundle bit_operations_syntax

text \<open>
  The workload of \<^verbatim>\<open>src/src/bench_main.cpp\<close>: the splitmix64 mixer, the token ids of a request, and
  the self-test that prints the eight pinned ids. \<^verbatim>\<open>std::uint64_t\<close> is \<open>64 word\<close>, so that the sum, the
  products and the shifts wrap as in the code.
\<close>

section \<open>The generator\<close>

definition SplitMix64 :: "64 word \<Rightarrow> 64 word" where
  "SplitMix64 x0 =
     (let x1 = x0 + 0x9E3779B97F4A7C15;
          x2 = (x1 XOR drop_bit 30 x1) * 0xBF58476D1CE4E5B9;
          x3 = (x2 XOR drop_bit 27 x2) * 0x94D049BB133111EB
      in x3 XOR drop_bit 31 x3)"

text \<open>The cast to \<^verbatim>\<open>std::int32_t\<close> keeps the low 32 bits, read as a signed number.\<close>

definition WorkloadTokenId :: "64 word \<Rightarrow> 64 word \<Rightarrow> 64 word \<Rightarrow> token_id" where
  "WorkloadTokenId seed request position =
     (let x = (push_bit 40 seed XOR push_bit 20 request) XOR position
      in sint (ucast (1000 + SplitMix64 x mod 99000) :: 32 word))"

definition kSelftestRequests :: "int list" where
  "kSelftestRequests = [0, 1]"

definition kSelftestPositions :: "int list" where
  "kSelftestPositions = [0, 1, 2, 3]"

definition BuildPrompt :: "64 word \<Rightarrow> 64 word \<Rightarrow> int \<Rightarrow> token_id list" where
  "BuildPrompt seed request_index prompt_len =
     map (\<lambda>p. WorkloadTokenId seed request_index (word_of_int p)) [0..prompt_len - 1]"

section \<open>The self-test\<close>

definition selftest_line :: "64 word \<Rightarrow> int \<Rightarrow> int \<Rightarrow> string" where
  "selftest_line seed req pos =
     ''seed='' @ to_string (uint seed) @ '' req='' @ to_string req @ '' pos='' @ to_string pos @
     '' id='' @ to_string (WorkloadTokenId seed (word_of_int req) (word_of_int pos)) @ [CHR 0x0A]"

text \<open>The exit code and the text on the standard output.\<close>

definition RunSelftest :: "64 word \<Rightarrow> int \<times> string" where
  "RunSelftest seed =
     (0, concat (map (\<lambda>req. concat (map (selftest_line seed req) kSelftestPositions)) kSelftestRequests))"

section \<open>The range of the ids\<close>

lemma token_id_value:
  "WorkloadTokenId seed r p =
     1000 + uint (SplitMix64 ((push_bit 40 seed XOR push_bit 20 r) XOR p)) mod 99000"
proof -
  define m where "m = SplitMix64 ((push_bit 40 seed XOR push_bit 20 r) XOR p)"
  have lt: "uint m mod 99000 < 99000" "0 \<le> uint m mod 99000" by simp_all
  have v: "uint (1000 + m mod 99000) = 1000 + uint m mod 99000"
    using lt by (simp add: uint_word_ariths uint_mod)
  have u: "uint (ucast w :: 32 word) = uint w mod 2 ^ 32" for w :: "64 word"
    by (simp add: unsigned_ucast_eq take_bit_eq_mod)
  have "(1000 + uint m mod 99000) mod 2 ^ 32 = 1000 + uint m mod 99000"
    using lt by (intro mod_pos_pos_trivial) simp_all
  then have "uint (ucast (1000 + m mod 99000) :: 32 word) = 1000 + uint m mod 99000"
    by (simp only: u v)
  then show ?thesis
    using lt by (simp add: WorkloadTokenId_def Let_def m_def[symmetric] sint_uint signed_take_bit_int_eq_self)
qed

lemma token_id_range: "1000 \<le> WorkloadTokenId seed r p \<and> WorkloadTokenId seed r p < 100000"
proof -
  have "x mod 99000 < 99000 \<and> 0 \<le> x mod 99000" for x :: int by simp
  then show ?thesis unfolding token_id_value by (smt (verit))
qed

lemma BuildPrompt_length [simp]: "length (BuildPrompt seed r n) = nat n"
  by (simp add: BuildPrompt_def)

lemma BuildPrompt_range: "t \<in> set (BuildPrompt seed r n) \<Longrightarrow> 1000 \<le> t \<and> t < 100000"
  using token_id_range by (auto simp: BuildPrompt_def)

text \<open>The values that the source pins with \<^verbatim>\<open>static_assert\<close>.\<close>

lemma pinned_ids:
  "map (\<lambda>(r, p). WorkloadTokenId 0 r p) [(0, 0), (0, 1), (0, 2), (0, 3), (1, 0), (1, 1), (1, 2), (1, 3)] =
     [40535, 72465, 39110, 83053, 31861, 23711, 79207, 9130]"
  by code_simp

end
