(* ===== verification/Bench_Cli.thy ===== *)
theory Bench_Cli
  imports Workload Doubles
begin

text \<open>
  The command line of \<^verbatim>\<open>src/src/bench_main.cpp\<close>.

  The parsers of the C library are functions from the text to the value, the rest of the text (what
  \<^verbatim>\<open>end\<close> points to) and whether \<^verbatim>\<open>errno\<close> was set. \<^verbatim>\<open>strtoll\<close> and \<^verbatim>\<open>strtoull\<close> in base 10 are
  defined here; \<^verbatim>\<open>strtod\<close> is a parameter, whose value is \<open>None\<close> when it is not finite.
  \<^verbatim>\<open>std::exit\<close> is the value \<open>Exit\<close> with the status and the message for the standard error.
\<close>

section \<open>Leaving the program\<close>

datatype stop = Exit int string | EngineThrew exn

definition Fatal :: "string \<Rightarrow> stop" where
  "Fatal message = Exit 1 message"

definition UsageError :: "string \<Rightarrow> stop" where
  "UsageError message = Exit 2 message"

section \<open>Integers of the C library\<close>

definition space_char :: "char \<Rightarrow> bool" where
  "space_char c \<longleftrightarrow> c = CHR '' '' \<or> (of_char c :: nat) \<in> {9, 10, 11, 12, 13}"

definition decimal_digit :: "char \<Rightarrow> bool" where
  "decimal_digit c \<longleftrightarrow> (48 :: nat) \<le> of_char c \<and> of_char c \<le> (57 :: nat)"

fun read_digits :: "nat \<Rightarrow> string \<Rightarrow> nat \<times> string" where
  "read_digits v [] = (v, [])"
| "read_digits v (c # cs) = (if decimal_digit c then read_digits (10 * v + (of_char c - 48)) cs else (v, c # cs))"

text \<open>The sign and the digits after leading white space; \<open>None\<close> when no conversion is possible.\<close>

definition signed_digits :: "string \<Rightarrow> (bool \<times> nat \<times> string) option" where
  "signed_digits text =
     (let t = dropWhile space_char text;
          neg = (t \<noteq> [] \<and> hd t = CHR ''-'');
          u = (if t \<noteq> [] \<and> (hd t = CHR ''-'' \<or> hd t = CHR ''+'') then tl t else t)
      in if u \<noteq> [] \<and> decimal_digit (hd u)
         then (case read_digits 0 u of (v, rest) \<Rightarrow> Some (neg, v, rest)) else None)"

definition strtoll :: "string \<Rightarrow> int \<times> string \<times> bool" where
  "strtoll text =
     (case signed_digits text of
        None \<Rightarrow> (0, text, False)
      | Some (neg, v, rest) \<Rightarrow>
          let x = (if neg then - int v else int v) in
          if x > 2 ^ 63 - 1 then (2 ^ 63 - 1, rest, True)
          else if x < - (2 ^ 63) then (- (2 ^ 63), rest, True)
          else (x, rest, False))"

text \<open>A value with a minus sign is negated in the unsigned type.\<close>

definition strtoull :: "string \<Rightarrow> 64 word \<times> string \<times> bool" where
  "strtoull text =
     (case signed_digits text of
        None \<Rightarrow> (0, text, False)
      | Some (neg, v, rest) \<Rightarrow>
          if int v > 2 ^ 64 - 1 then (- 1, rest, True)
          else (if neg then - of_nat v else of_nat v, rest, False))"

type_synonym strtod = "string \<Rightarrow> rat option \<times> string \<times> bool"

section \<open>Values of flags\<close>

definition ParseInt :: "string \<Rightarrow> string \<Rightarrow> int \<Rightarrow> int \<Rightarrow> stop + int" where
  "ParseInt flag text lo hi =
     (case strtoll text of (value, rest, errno) \<Rightarrow>
        bindE (assertE (\<not> (errno \<or> rest = text \<or> rest \<noteq> []))
                 (UsageError (flag @ '' expects an integer, got '' @ [CHR 0x27] @ text @ [CHR 0x27]))) (\<lambda>_.
        bindE (assertE (\<not> (value < lo \<or> value > hi))
                 (UsageError (flag @ '' out of range ['' @ to_string lo @ '', '' @ to_string hi @ '']: '' @ text))) (\<lambda>_.
        Inr value)))"

definition ParseUint64 :: "string \<Rightarrow> string \<Rightarrow> stop + 64 word" where
  "ParseUint64 flag text =
     (let err = UsageError (flag @ '' expects a non-negative integer, got '' @ [CHR 0x27] @ text @ [CHR 0x27]) in
      bindE (assertE (\<not> (text \<noteq> [] \<and> hd text = CHR ''-'')) err) (\<lambda>_.
      case strtoull text of (value, rest, errno) \<Rightarrow>
        bindE (assertE (\<not> (errno \<or> rest = text \<or> rest \<noteq> [])) err) (\<lambda>_. Inr value)))"

definition ParseDouble :: "strtod \<Rightarrow> string \<Rightarrow> string \<Rightarrow> stop + rat" where
  "ParseDouble sd flag text =
     (let err = UsageError (flag @ '' expects a finite number, got '' @ [CHR 0x27] @ text @ [CHR 0x27]) in
      case sd text of (value, rest, errno) \<Rightarrow>
        bindE (assertE (\<not> (errno \<or> rest = text \<or> rest \<noteq> [])) err) (\<lambda>_.
        case value of None \<Rightarrow> Inl err | Some x \<Rightarrow> Inr x))"

definition ParseBool01 :: "string \<Rightarrow> string \<Rightarrow> stop + bool" where
  "ParseBool01 flag text =
     (if text = ''0'' then Inr False
      else if text = ''1'' then Inr True
      else Inl (UsageError (flag @ '' expects 0 or 1, got '' @ [CHR 0x27] @ text @ [CHR 0x27])))"

section \<open>The options\<close>

record CliOptions =
  co_model_dir :: string
  co_kv_gb :: rat
  co_max_batch :: int
  co_requests :: int
  co_prompt_len :: int
  co_gen_len :: int
  co_graphs :: bool
  co_ignore_eos :: bool
  co_seed :: "64 word"
  co_json_path :: string
  co_profile_after_init :: bool
  co_selftest :: bool

definition default_CliOptions :: CliOptions where
  "default_CliOptions =
     \<lparr>co_model_dir = [], co_kv_gb = 1, co_max_batch = 8, co_requests = 64, co_prompt_len = 1024,
      co_gen_len = 256, co_graphs = True, co_ignore_eos = True, co_seed = 0, co_json_path = [],
      co_profile_after_init = False, co_selftest = False\<rparr>"

text \<open>What a flag that takes a value does with it; \<open>None\<close> for any other flag.\<close>

definition flag_value :: "strtod \<Rightarrow> string \<Rightarrow> (string \<Rightarrow> CliOptions \<Rightarrow> stop + CliOptions) option" where
  "flag_value sd flag =
     (if flag = ''--model'' then Some (\<lambda>v opt. Inr (opt\<lparr>co_model_dir := v\<rparr>))
      else if flag = ''--kv-gb'' then Some (\<lambda>v opt.
        bindE (ParseDouble sd ''--kv-gb'' v) (\<lambda>x.
        if x \<le> 0 then Inl (UsageError ''--kv-gb must be > 0'') else Inr (opt\<lparr>co_kv_gb := x\<rparr>)))
      else if flag = ''--max-batch'' then Some (\<lambda>v opt.
        bindE (ParseInt ''--max-batch'' v 1 65536) (\<lambda>x. Inr (opt\<lparr>co_max_batch := x\<rparr>)))
      else if flag = ''--requests'' then Some (\<lambda>v opt.
        bindE (ParseInt ''--requests'' v 1 1000000) (\<lambda>x. Inr (opt\<lparr>co_requests := x\<rparr>)))
      else if flag = ''--prompt-len'' then Some (\<lambda>v opt.
        bindE (ParseInt ''--prompt-len'' v 1 100000000) (\<lambda>x. Inr (opt\<lparr>co_prompt_len := x\<rparr>)))
      else if flag = ''--gen-len'' then Some (\<lambda>v opt.
        bindE (ParseInt ''--gen-len'' v 1 100000000) (\<lambda>x. Inr (opt\<lparr>co_gen_len := x\<rparr>)))
      else if flag = ''--graphs'' then Some (\<lambda>v opt.
        bindE (ParseBool01 ''--graphs'' v) (\<lambda>x. Inr (opt\<lparr>co_graphs := x\<rparr>)))
      else if flag = ''--ignore-eos'' then Some (\<lambda>v opt.
        bindE (ParseBool01 ''--ignore-eos'' v) (\<lambda>x. Inr (opt\<lparr>co_ignore_eos := x\<rparr>)))
      else if flag = ''--seed'' then Some (\<lambda>v opt.
        bindE (ParseUint64 ''--seed'' v) (\<lambda>x. Inr (opt\<lparr>co_seed := x\<rparr>)))
      else if flag = ''--json'' then Some (\<lambda>v opt. Inr (opt\<lparr>co_json_path := v\<rparr>))
      else if flag = ''--profile-after-init'' then Some (\<lambda>v opt.
        bindE (ParseBool01 ''--profile-after-init'' v) (\<lambda>x. Inr (opt\<lparr>co_profile_after_init := x\<rparr>)))
      else None)"

fun parse_args :: "strtod \<Rightarrow> string list \<Rightarrow> CliOptions \<Rightarrow> stop + CliOptions" where
  "parse_args sd [] opt = Inr opt"
| "parse_args sd (flag # args) opt =
     (case flag_value sd flag of
        Some set_value \<Rightarrow>
          (case args of
             [] \<Rightarrow> Inl (UsageError (flag @ '' expects a value''))
           | value # rest \<Rightarrow> bindE (set_value value opt) (parse_args sd rest))
      | None \<Rightarrow>
          if flag = ''--selftest-workload'' then parse_args sd args (opt\<lparr>co_selftest := True\<rparr>)
          else if flag = ''-h'' \<or> flag = ''--help'' then Inl (Exit 0 [])
          else Inl (UsageError (''unknown flag: '' @ flag)))"

text \<open>\<open>argv\<close> without the name of the program.\<close>

definition ParseCli :: "strtod \<Rightarrow> string list \<Rightarrow> stop + CliOptions" where
  "ParseCli sd argv =
     bindE (parse_args sd argv default_CliOptions) (\<lambda>opt.
     bindE (assertE (\<not> (\<not> co_selftest opt \<and> co_model_dir opt = [])) (UsageError ''--model is required'')) (\<lambda>_.
     Inr opt))"

section \<open>Accepted options\<close>

definition in_ranges :: "CliOptions \<Rightarrow> bool" where
  "in_ranges opt \<longleftrightarrow>
     0 < co_kv_gb opt \<and> 1 \<le> co_max_batch opt \<and> co_max_batch opt \<le> 65536 \<and>
     1 \<le> co_requests opt \<and> co_requests opt \<le> 1000000 \<and>
     1 \<le> co_prompt_len opt \<and> co_prompt_len opt \<le> 100000000 \<and>
     1 \<le> co_gen_len opt \<and> co_gen_len opt \<le> 100000000"

lemma ParseInt_range: "ParseInt flag text lo hi = Inr x \<Longrightarrow> lo \<le> x \<and> x \<le> hi"
  by (auto simp: ParseInt_def bindE_Inr_iff split: prod.splits)

lemma flag_value_ranges:
  assumes "flag_value sd flag = Some set_value" and "set_value v opt = Inr opt'" and "in_ranges opt"
  shows "in_ranges opt'"
  using assms
  by (auto simp: flag_value_def in_ranges_def bindE_Inr_iff dest!: ParseInt_range split: if_splits)

lemma parse_args_ranges: "parse_args sd argv opt = Inr opt' \<Longrightarrow> in_ranges opt \<Longrightarrow> in_ranges opt'"
proof (induction argv opt rule: parse_args.induct)
  case (2 sd flag args opt)
  show ?case
  proof (cases "flag_value sd flag")
    case None
    then show ?thesis using 2 by (auto simp: in_ranges_def split: if_splits)
  next
    case (Some set_value)
    then obtain v rest opt1 where a: "args = v # rest" "set_value v opt = Inr opt1"
      "parse_args sd rest opt1 = Inr opt'" using "2.prems"(1) by (auto simp: bindE_Inr_iff split: list.splits)
    show ?thesis using "2.IH"(2)[OF Some a] flag_value_ranges[OF Some a(2) "2.prems"(2)] by simp
  qed
qed simp

lemma ParseCli_ranges:
  assumes "ParseCli sd argv = Inr opt"
  shows "in_ranges opt \<and> (\<not> co_selftest opt \<longrightarrow> co_model_dir opt \<noteq> [])"
proof -
  have "in_ranges default_CliOptions" by (simp add: in_ranges_def default_CliOptions_def)
  then show ?thesis using assms parse_args_ranges by (auto simp: ParseCli_def bindE_Inr_iff)
qed

section \<open>Integers in decimal are read back\<close>

lemma of_char_digit: "d < 10 \<Longrightarrow> of_char (char_of (48 + d :: nat)) = 48 + d"
  by (simp add: of_char_of)

lemma read_digit: "d < 10 \<Longrightarrow> read_digits v (char_of (48 + d) # cs) = read_digits (10 * v + d) cs"
  using of_char_digit[of d] by (simp add: decimal_digit_def)

lemma read_digits_append:
  "read_digits v (digits n @ cs) = read_digits (v * 10 ^ length (digits n) + n) cs"
proof (induction n arbitrary: v cs rule: digits.induct)
  case (1 n)
  show ?case
  proof (cases "n < 10")
    case True
    then show ?thesis using of_char_digit[of n] by (simp add: digits.simps[of n] decimal_digit_def mult.commute)
  next
    case False
    have "read_digits v (digits n @ cs) = read_digits v (digits (n div 10) @ char_of (48 + n mod 10) # cs)"
      using False by (simp add: digits.simps[of n])
    also have "\<dots> = read_digits (10 * (v * 10 ^ length (digits (n div 10)) + n div 10) + n mod 10) cs"
      by (simp only: "1.IH"[OF False] read_digit[of "n mod 10"] mod_less_divisor zero_less_numeral)
    also have "10 * (v * 10 ^ length (digits (n div 10)) + n div 10) + n mod 10 = v * 10 ^ length (digits n) + n"
      using False by (simp add: digits.simps[of n] algebra_simps)
    finally show ?thesis .
  qed
qed

lemma digits_hd: "digits n \<noteq> [] \<and> decimal_digit (hd (digits n))"
proof (induction n rule: digits.induct)
  case (1 n)
  then show ?case using of_char_digit[of n] by (cases "n < 10") (auto simp: digits.simps[of n] decimal_digit_def)
qed

lemma not_space: "decimal_digit c \<Longrightarrow> \<not> space_char c \<and> c \<noteq> CHR ''-'' \<and> c \<noteq> CHR ''+''"
  by (auto simp: decimal_digit_def space_char_def)

lemma signed_digits_to_string: "signed_digits (to_string x) = Some (x < 0, nat \<bar>x\<bar>, [])"
proof -
  have d: "digits n \<noteq> []" "decimal_digit (hd (digits n))" "dropWhile space_char (digits n) = digits n" for n
    using digits_hd[of n] not_space[of "hd (digits n)"] by (auto simp: dropWhile_eq_self_iff)
  have r: "read_digits 0 (digits n) = (n, [])" for n using read_digits_append[of 0 n "[]"] by simp
  have h: "hd (digits n) \<noteq> CHR ''-''" "hd (digits n) \<noteq> CHR ''+''" for n using not_space d(2) by blast+
  show ?thesis
  proof (cases "x < 0")
    case True
    have "\<not> space_char CHR ''-''" by (simp add: space_char_def)
    then show ?thesis using True d r by (simp add: signed_digits_def to_string_def Let_def)
  next
    case False
    then show ?thesis using d r h by (simp add: signed_digits_def to_string_def Let_def)
  qed
qed

lemma to_string_not_Nil: "to_string x \<noteq> []"
  using digits_hd by (simp add: to_string_def)

lemma to_string_sign: "0 \<le> x \<Longrightarrow> hd (to_string x) \<noteq> CHR ''-''"
  using digits_hd[of "nat x"] not_space by (auto simp: to_string_def)

text \<open>
  C39: Integer flags. A 64-bit integer written in decimal is read back by \<open>ParseInt\<close> as itself when it
  is in the range of its flag and is a usage error naming the range otherwise; a 64-bit unsigned
  integer is read back by \<open>ParseUint64\<close>; and a command line is accepted only with every number in
  its range, so that prompt and generation length add up in 32 bits.
\<close>

theorem integer_flags:
  assumes "- (2 ^ 63) \<le> x" and "x < 2 ^ 63" and "ParseCli sd argv = Inr opt"
  shows "ParseInt flag (to_string x) lo hi =
      (if lo \<le> x \<and> x \<le> hi then Inr x
       else Inl (UsageError (flag @ '' out of range ['' @ to_string lo @ '', '' @ to_string hi @ '']: '' @ to_string x))) \<and>
    ParseUint64 flag (to_string (uint w)) = Inr w \<and>
    in_ranges opt \<and> co_prompt_len opt + co_gen_len opt < 2 ^ 31 \<and> (co_selftest opt \<or> co_model_dir opt \<noteq> [])"
proof -
  have "strtoll (to_string x) = (x, [], False)" using assms(1,2) by (simp add: strtoll_def signed_digits_to_string Let_def)
  then have "ParseInt flag (to_string x) lo hi =
      (if lo \<le> x \<and> x \<le> hi then Inr x
       else Inl (UsageError (flag @ '' out of range ['' @ to_string lo @ '', '' @ to_string hi @ '']: '' @ to_string x)))"
    using to_string_not_Nil[of x] by (auto simp: ParseInt_def assertE_def)
  moreover have "unat w < 2 ^ 64" using unsigned_less[of w, where ?'a = nat] by simp
  then have "strtoull (to_string (uint w)) = (w, [], False)"
    by (simp add: strtoull_def signed_digits_to_string Let_def not_le)
  then have "ParseUint64 flag (to_string (uint w)) = Inr w"
    using to_string_not_Nil[of "uint w"] to_string_sign[of "uint w"] by (simp add: ParseUint64_def)
  moreover have "in_ranges opt" "co_selftest opt \<or> co_model_dir opt \<noteq> []" using ParseCli_ranges[OF assms(3)] by auto
  ultimately show ?thesis by (simp add: in_ranges_def)
qed

theorem integer_flags_witness:
  "ParseInt ''--gen-len'' ''256'' 1 100000000 = Inr 256 \<and>
     ParseInt ''--gen-len'' ''256'' 300 400 = Inl (UsageError ''--gen-len out of range [300, 400]: 256'')"
proof -
  have c: "ParseCli (\<lambda>_. (None, [], False)) [''--model'', ''m''] = Inr (default_CliOptions\<lparr>co_model_dir := ''m''\<rparr>)"
    by (simp add: ParseCli_def flag_value_def default_CliOptions_def)
  have s: "to_string 256 = ''256''" "to_string 300 = ''300''" "to_string 400 = ''400''" by code_simp+
  show ?thesis
    using integer_flags[of 256, OF _ _ c, where flag = "''--gen-len''" and lo = 1 and hi = 100000000]
      integer_flags[of 256, OF _ _ c, where flag = "''--gen-len''" and lo = 300 and hi = 400] by (simp add: s)
qed

text \<open>
  The check for a minus sign looks at the first character only, but \<^verbatim>\<open>strtoull\<close> skips white space
  before the sign: such a seed is accepted and wraps.
\<close>

theorem seed_accepts_negative: "ParseUint64 ''--seed'' '' -5'' = Inr (2 ^ 64 - 5)"
  by (simp add: ParseUint64_def strtoull_def signed_digits_def space_char_def decimal_digit_def Let_def)

end
