(* ===== verification/Bench.thy ===== *)
theory Bench
  imports Engine_Init Bench_Cli
begin

text \<open>
  The benchmark driver \<^verbatim>\<open>src/src/bench_main.cpp\<close> over the model engine: the warmup request, the
  loop that submits and steps, the metrics, the JSON report and the exit status.

  The state of the driver is a record: its engine, the number of times the clock was read, the
  traces, the map from request ids to traces, the step times, the two counters and the report once
  it is written. \<^verbatim>\<open>Clock::now()\<close> is a parameter, from the number of earlier readings to a time in
  nanoseconds. Conversions to \<^verbatim>\<open>double\<close> and arithmetic on doubles round with \<open>dbl\<close>. The profiler
  calls only print a warning and are omitted, as are the lines on the standard output.

  A loop that depends on the engine may run forever: the loops are partial functions, and not
  returning is the value \<open>None\<close>.
\<close>

section \<open>Names and times\<close>

fun FinishReasonName :: "FinishReason \<Rightarrow> string" where
  "FinishReasonName kNone = ''''"
| "FinishReasonName kEos = ''eos''"
| "FinishReasonName kLength = ''length''"
| "FinishReasonName kAborted = ''aborted''"

definition SecondsSince :: "int \<Rightarrow> int \<Rightarrow> rat" where
  "SecondsSince epoch t = dbl (dbl (of_int (t - epoch)) / 1000000000)"

definition milliseconds :: "int \<Rightarrow> int \<Rightarrow> rat" where
  "milliseconds t0 t1 = dbl (dbl (of_int (t1 - t0)) / 1000000)"

section \<open>Percentiles\<close>

text \<open>The ranks between which a percentile interpolates, for \<open>n\<close> sorted values.\<close>

definition percentile_rank :: "rat \<Rightarrow> nat \<Rightarrow> rat" where
  "percentile_rank p n = dbl (dbl (p / 100) * dbl (of_nat (n - 1)))"

definition percentile_low :: "rat \<Rightarrow> nat \<Rightarrow> nat" where
  "percentile_low p n = nat \<lfloor>percentile_rank p n\<rfloor>"

definition percentile_high :: "rat \<Rightarrow> nat \<Rightarrow> nat" where
  "percentile_high p n = min (percentile_low p n + 1) (n - 1)"

definition Percentile :: "rat list \<Rightarrow> rat \<Rightarrow> rat" where
  "Percentile values0 p =
     (let values = sort values0; n = length values in
      if n = 1 then hd values
      else
        let low = percentile_low p n; high = percentile_high p n;
            fraction = dbl (percentile_rank p n - dbl (of_nat low))
        in dbl (values ! low + dbl (fraction * dbl (values ! high - values ! low))))"

section \<open>Traces and metrics\<close>

record RequestTrace =
  tr_engine_id :: request_id
  tr_workload_index :: int
  tr_submit_s :: rat
  tr_token_times_s :: "rat list"
  tr_token_ids :: "token_id list"
  tr_finished :: bool
  tr_finish_reason :: string

definition new_RequestTrace :: RequestTrace where
  "new_RequestTrace =
     \<lparr>tr_engine_id = 0, tr_workload_index = -1, tr_submit_s = 0, tr_token_times_s = [], tr_token_ids = [],
      tr_finished = False, tr_finish_reason = ''''\<rparr>"

text \<open>\<open>has_itl\<close> and \<open>has_decode_rate\<close> are the options.\<close>

record Summary =
  wall_window_s :: rat
  total_new_tokens :: int
  requests_with_tokens :: int
  output_tok_s :: rat
  ttft_p50_ms :: rat
  ttft_p99_ms :: rat
  itl_ms :: "(rat \<times> rat) option"
  decode_rate_tok_s :: "(rat \<times> rat \<times> rat) option"
  step_p50_ms :: rat
  step_p99_ms :: rat
  step_mean_ms :: rat
  step_max_ms :: rat

text \<open>What the loop over the traces accumulates; an infinity is \<open>None\<close>.\<close>

record Samples =
  sa_ttft_ms :: "rat list"
  sa_itl_ms :: "rat list"
  sa_rates :: "rat list"
  sa_min_submit :: "rat option"
  sa_max_last :: "rat option"
  sa_tokens :: int
  sa_with_tokens :: int

definition gaps_ms :: "rat list \<Rightarrow> rat list" where
  "gaps_ms t = map (\<lambda>i. dbl (dbl (t ! i - t ! (i - 1)) * 1000)) [1..<length t]"

definition add_trace :: "Samples \<Rightarrow> RequestTrace \<Rightarrow> Samples" where
  "add_trace sa tr =
     (let sub = tr_submit_s tr;
          sa1 = sa\<lparr>sa_min_submit := Some (case sa_min_submit sa of None \<Rightarrow> sub | Some m \<Rightarrow> min m sub)\<rparr>;
          t = tr_token_times_s tr;
          sa2 = sa1\<lparr>sa_tokens := sa_tokens sa1 + int (length t)\<rparr>
      in if t = [] then sa2
         else
           let sa3 = sa2\<lparr>sa_with_tokens := sa_with_tokens sa2 + 1,
                  sa_max_last := Some (case sa_max_last sa2 of None \<Rightarrow> last t | Some m \<Rightarrow> max m (last t)),
                  sa_ttft_ms := sa_ttft_ms sa2 @ [dbl (dbl (hd t - sub) * 1000)],
                  sa_itl_ms := sa_itl_ms sa2 @ gaps_ms t\<rparr>
           in if 2 \<le> length t \<and> hd t < last t
              then sa3\<lparr>sa_rates := sa_rates sa3 @ [dbl (dbl (of_nat (length t - 1)) / dbl (last t - hd t))]\<rparr>
              else sa3)"

definition collect :: "RequestTrace list \<Rightarrow> Samples" where
  "collect traces =
     foldl add_trace \<lparr>sa_ttft_ms = [], sa_itl_ms = [], sa_rates = [], sa_min_submit = None, sa_max_last = None,
                      sa_tokens = 0, sa_with_tokens = 0\<rparr> traces"

definition Summarize :: "RequestTrace list \<Rightarrow> rat list \<Rightarrow> stop + Summary" where
  "Summarize traces step_ms =
     (let sa = collect traces in
      bindE (assertE (sa_with_tokens sa \<noteq> 0) (Fatal ''no request produced any token'')) (\<lambda>_.
      let window = dbl (the (sa_max_last sa) - the (sa_min_submit sa)) in
      bindE (assertE (window > 0) (Fatal ''non-positive wall window; timestamps are inconsistent'')) (\<lambda>_.
      Inr \<lparr>wall_window_s = window, total_new_tokens = sa_tokens sa, requests_with_tokens = sa_with_tokens sa,
           output_tok_s = dbl (dbl (of_int (sa_tokens sa)) / window),
           ttft_p50_ms = Percentile (sa_ttft_ms sa) 50, ttft_p99_ms = Percentile (sa_ttft_ms sa) 99,
           itl_ms = (if sa_itl_ms sa \<noteq> [] then Some (Percentile (sa_itl_ms sa) 50, Percentile (sa_itl_ms sa) 99) else None),
           decode_rate_tok_s =
             (if sa_rates sa \<noteq> [] then Some (Percentile (sa_rates sa) 50, Min (set (sa_rates sa)), Max (set (sa_rates sa))) else None),
           step_p50_ms = Percentile step_ms 50, step_p99_ms = Percentile step_ms 99,
           step_mean_ms = dbl (foldl (\<lambda>s v. dbl (s + v)) 0 step_ms / dbl (of_nat (length step_ms))),
           step_max_ms = foldl max 0 step_ms\<rparr>)))"

section \<open>The state of the driver\<close>

record BenchEnv =
  be_clock :: "nat \<Rightarrow> int"
  be_can_open :: "string \<Rightarrow> bool"
  be_can_write :: "string \<Rightarrow> bool"

record 'd Bench =
  bn_engine :: "'d Engine"
  bn_clock :: nat
  bn_traces :: "RequestTrace list"
  bn_index :: "request_id \<Rightarrow> nat option"
  bn_step_ms :: "rat list"
  bn_submitted :: int
  bn_finished :: int
  bn_report :: "json option"

type_synonym ('d, 'a) bench = "('d Bench, stop, 'a) action"

definition onEngine :: "('d, 'a) eng \<Rightarrow> ('d, 'a) bench" where
  "onEngine m b =
     (case m (bn_engine b) of
        (Inl e, eng) \<Rightarrow> (Inl (EngineThrew e), b\<lparr>bn_engine := eng\<rparr>)
      | (Inr x, eng) \<Rightarrow> (Inr x, b\<lparr>bn_engine := eng\<rparr>))"

definition liftB :: "stop + 'a \<Rightarrow> ('d, 'a) bench" where
  "liftB r b = (r, b)"

definition now :: "BenchEnv \<Rightarrow> ('d, int) bench" where
  "now env b = (Inr (be_clock env (bn_clock b)), b\<lparr>bn_clock := bn_clock b + 1\<rparr>)"

definition new_Bench :: "'d Engine \<Rightarrow> 'd Bench" where
  "new_Bench eng =
     \<lparr>bn_engine = eng, bn_clock = 0, bn_traces = [], bn_index = (\<lambda>_. None), bn_step_ms = [], bn_submitted = 0,
      bn_finished = 0, bn_report = None\<rparr>"

definition engine_options :: "CliOptions \<Rightarrow> EngineOptions" where
  "engine_options opt =
     (let eng = default_EngineOptions\<lparr>model_dir := co_model_dir opt, kv_pool_gb := Some (co_kv_gb opt),
                  eo_max_batch := co_max_batch opt, eo_enable_cuda_graphs := co_graphs opt\<rparr>;
          needed_seq_len = co_prompt_len opt + co_gen_len opt
      in if needed_seq_len > eo_max_seq_len eng then eng\<lparr>eo_max_seq_len := needed_seq_len\<rparr> else eng)"

definition idle :: "'d Bench \<Rightarrow> bool" where
  "idle b \<longleftrightarrow> (let s = Stats (bn_engine b) in st_num_waiting s + st_num_running s = 0)"

section \<open>Warmup\<close>

definition warmup_gen :: "CliOptions \<Rightarrow> int" where
  "warmup_gen opt = min 8 (co_gen_len opt)"

definition warmup_prompt :: "CliOptions \<Rightarrow> int" where
  "warmup_prompt opt = min (co_prompt_len opt) (eo_max_seq_len (engine_options opt) - warmup_gen opt)"

definition warm_result :: "request_id \<Rightarrow> bool \<times> int \<Rightarrow> StepResult \<Rightarrow> stop + (bool \<times> int)" where
  "warm_result warmup_id = (\<lambda>(warmup_done, warmup_tokens) res.
     bindE (assertE (\<not> request_id res \<noteq> warmup_id) (Fatal ''warmup: emission for an unknown request id'')) (\<lambda>_.
     Inr (warmup_done \<or> finished res,
          if result_reason res \<noteq> kAborted then warmup_tokens + 1 else warmup_tokens)))"

definition warmup_step :: "'d Cuda \<Rightarrow> request_id \<Rightarrow> bool \<times> int \<Rightarrow> ('d, bool \<times> int) bench" where
  "warmup_step cu warmup_id w =
     bindS (onEngine (EngineStep cu)) (\<lambda>results.
     bindS (liftB (foldE (warm_result warmup_id) results w)) (\<lambda>w'.
     bindS (checkS (\<lambda>b. \<not> (results = [] \<and> idle b))
              (Fatal ''warmup: engine idle before the warmup request finished'')) (\<lambda>_.
     returnS w')))"

partial_function (option) warmup_loop ::
  "'d Cuda \<Rightarrow> request_id \<Rightarrow> bool \<times> int \<Rightarrow> 'd Bench \<Rightarrow> ((stop + int) \<times> 'd Bench) option" where
  "warmup_loop cu warmup_id w b =
     (if fst w then Some (Inr (snd w), b)
      else case warmup_step cu warmup_id w b of
             (Inl e, b') \<Rightarrow> Some (Inl e, b')
           | (Inr w', b') \<Rightarrow> warmup_loop cu warmup_id w' b')"

definition warmup :: "'d Cuda \<Rightarrow> CliOptions \<Rightarrow> 'd Bench \<Rightarrow> ((stop + int) \<times> 'd Bench) option" where
  "warmup cu opt b =
     (case onEngine (AddRequest (BuildPrompt (co_seed opt) (word_of_int (co_requests opt)) (warmup_prompt opt))
                       (warmup_gen opt) True []) b of
        (Inl e, b') \<Rightarrow> Some (Inl e, b')
      | (Inr warmup_id, b') \<Rightarrow> warmup_loop cu warmup_id (False, 0) b')"

section \<open>The measured loop\<close>

definition update_trace :: "nat \<Rightarrow> (RequestTrace \<Rightarrow> RequestTrace) \<Rightarrow> 'd Bench \<Rightarrow> 'd Bench" where
  "update_trace i f b = b\<lparr>bn_traces := (bn_traces b)[i := f (bn_traces b ! i)]\<rparr>"

definition submit_one :: "BenchEnv \<Rightarrow> CliOptions \<Rightarrow> int \<Rightarrow> ('d, unit) bench" where
  "submit_one env opt epoch =
     bindS (getS bn_submitted) (\<lambda>submitted.
     bindS (modifyS (update_trace (nat submitted) (\<lambda>tr. tr\<lparr>tr_workload_index := submitted\<rparr>))) (\<lambda>_.
     let prompt = BuildPrompt (co_seed opt) (word_of_int submitted) (co_prompt_len opt) in
     bindS (now env) (\<lambda>t.
     bindS (modifyS (update_trace (nat submitted) (\<lambda>tr. tr\<lparr>tr_submit_s := SecondsSince epoch t\<rparr>))) (\<lambda>_.
     bindS (onEngine (AddRequest prompt (co_gen_len opt) (co_ignore_eos opt) [])) (\<lambda>new_id.
     bindS (modifyS (update_trace (nat submitted) (\<lambda>tr. tr\<lparr>tr_engine_id := new_id\<rparr>))) (\<lambda>_.
     modifyS (\<lambda>b. b\<lparr>bn_index := (case bn_index b new_id of
                                   None \<Rightarrow> (bn_index b)(new_id \<mapsto> nat submitted) | Some _ \<Rightarrow> bn_index b),
                   bn_submitted := bn_submitted b + 1\<rparr>)))))))"

lemma update_trace_frame [simp]:
  "bn_engine (update_trace i f b) = bn_engine b" "bn_clock (update_trace i f b) = bn_clock b"
  "bn_index (update_trace i f b) = bn_index b" "bn_step_ms (update_trace i f b) = bn_step_ms b"
  "bn_submitted (update_trace i f b) = bn_submitted b" "bn_finished (update_trace i f b) = bn_finished b"
  "bn_report (update_trace i f b) = bn_report b"
  "bn_traces (update_trace i f b) = (bn_traces b)[i := f (bn_traces b ! i)]"
  by (simp_all add: update_trace_def)

lemma submit_one_submitted:
  "submit_one env opt epoch b = (Inr u, b') \<Longrightarrow> bn_submitted b' = bn_submitted b + 1"
  by (auto simp: submit_one_def bindS_def getS_def modifyS_def now_def onEngine_def Let_def split: prod.splits sum.splits)

function submit_loop :: "BenchEnv \<Rightarrow> CliOptions \<Rightarrow> int \<Rightarrow> 'd Bench \<Rightarrow> (stop + unit) \<times> 'd Bench" where
  "submit_loop env opt epoch b =
     (if bn_submitted b < co_requests opt \<and> HasCapacity (bn_engine b)
      then (case submit_one env opt epoch b of
              (Inl e, b') \<Rightarrow> (Inl e, b')
            | (Inr _, b') \<Rightarrow> submit_loop env opt epoch b')
      else (Inr (), b))"
  by pat_completeness auto
termination
  by (relation "measure (\<lambda>(env, opt, epoch, b). nat (co_requests opt - bn_submitted b))")
    (auto dest!: submit_one_submitted[OF sym])

declare submit_loop.simps [simp del]

definition record_result :: "rat \<Rightarrow> StepResult \<Rightarrow> ('d, unit) bench" where
  "record_result token_time_s res =
     bindS (getS (\<lambda>b. bn_index b (request_id res))) (\<lambda>it.
     case it of
       None \<Rightarrow> throwS (Fatal ''Step() emitted an unknown request id'')
     | Some i \<Rightarrow>
         bindS (modifyS (\<lambda>b. if result_reason res \<noteq> kAborted
                              then update_trace i (\<lambda>tr. tr\<lparr>tr_token_times_s := tr_token_times_s tr @ [token_time_s],
                                     tr_token_ids := tr_token_ids tr @ [token res]\<rparr>) b
                              else b)) (\<lambda>_.
         modifyS (\<lambda>b. if finished res
                      then (update_trace i (\<lambda>tr. tr\<lparr>tr_finished := True,
                              tr_finish_reason := FinishReasonName (result_reason res)\<rparr>) b)
                             \<lparr>bn_finished := bn_finished b + 1\<rparr>
                      else b)))"

definition pump_step :: "'d Cuda \<Rightarrow> BenchEnv \<Rightarrow> CliOptions \<Rightarrow> int \<Rightarrow> ('d, unit) bench" where
  "pump_step cu env opt epoch =
     bindS (submit_loop env opt epoch) (\<lambda>_.
     bindS (now env) (\<lambda>t0.
     bindS (onEngine (EngineStep cu)) (\<lambda>results.
     bindS (now env) (\<lambda>t1.
     bindS (modifyS (\<lambda>b. b\<lparr>bn_step_ms := bn_step_ms b @ [milliseconds t0 t1]\<rparr>)) (\<lambda>_.
     bindS (forS (record_result (SecondsSince epoch t1)) results) (\<lambda>_.
     checkS (\<lambda>b. \<not> (results = [] \<and> bn_finished b < co_requests opt \<and> idle b))
       (Fatal ''engine idle with unfinished requests (lost emission)'')))))))"

partial_function (option) pump_loop ::
  "'d Cuda \<Rightarrow> BenchEnv \<Rightarrow> CliOptions \<Rightarrow> int \<Rightarrow> 'd Bench \<Rightarrow> ((stop + unit) \<times> 'd Bench) option" where
  "pump_loop cu env opt epoch b =
     (if bn_finished b < co_requests opt
      then (case pump_step cu env opt epoch b of
              (Inl e, b') \<Rightarrow> Some (Inl e, b')
            | (Inr _, b') \<Rightarrow> pump_loop cu env opt epoch b')
      else Some (Inr (), b))"

definition begin_measured :: "CliOptions \<Rightarrow> 'd Bench \<Rightarrow> 'd Bench" where
  "begin_measured opt b =
     b\<lparr>bn_traces := replicate (nat (co_requests opt)) new_RequestTrace, bn_index := (\<lambda>_. None), bn_step_ms := [],
       bn_submitted := 0, bn_finished := 0\<rparr>"

definition measure_all :: "'d Cuda \<Rightarrow> BenchEnv \<Rightarrow> CliOptions \<Rightarrow> 'd Bench \<Rightarrow> ((stop + unit) \<times> 'd Bench) option" where
  "measure_all cu env opt b =
     (case now env (begin_measured opt b) of
        (Inl e, b') \<Rightarrow> Some (Inl e, b')
      | (Inr epoch, b') \<Rightarrow> pump_loop cu env opt epoch b')"

section \<open>The report\<close>

text \<open>\<^verbatim>\<open>std::map<std::string, std::int64_t>\<close>: the count of each finish reason.\<close>

definition finish_reasons :: "RequestTrace list \<Rightarrow> string \<Rightarrow> int option" where
  "finish_reasons traces =
     foldl (\<lambda>m tr. m(tr_finish_reason tr \<mapsto> (case m (tr_finish_reason tr) of None \<Rightarrow> 0 | Some n \<Rightarrow> n) + 1))
       (\<lambda>_. None) traces"

text \<open>The keys of the map in its order; there are at most the four names.\<close>

definition reasons_json :: "(string \<Rightarrow> int option) \<Rightarrow> json" where
  "reasons_json m =
     JObj (concat (map (\<lambda>k. case m k of None \<Rightarrow> [] | Some n \<Rightarrow> [(k, JInt n)]) ['''', ''aborted'', ''eos'', ''length'']))"

definition StatsJson :: "EngineStats \<Rightarrow> json" where
  "StatsJson s =
     JObj [(''steps'', JInt (uint (st_steps s))), (''prefill_tokens'', JInt (uint (st_prefill_tokens s))),
           (''decode_tokens'', JInt (uint (st_decode_tokens s))), (''waiting'', JInt (st_num_waiting s)),
           (''running'', JInt (st_num_running s)), (''free_blocks'', JInt (st_free_kv_blocks s)),
           (''reserved_blocks'', JInt (st_reserved_kv_blocks s)), (''total_blocks'', JInt (st_total_kv_blocks s)),
           (''graph_replays'', JInt (uint (st_graph_replays s))), (''eager_decodes'', JInt (uint (st_eager_decodes s))),
           (''aborts'', JInt (uint (st_aborts s))),
           (''bucket_histogram'', JObj (map (\<lambda>(bucket, n). (to_string bucket, JInt (uint n))) (st_bucket_histogram s)))]"

definition config_json :: "CliOptions \<Rightarrow> json" where
  "config_json opt =
     (let eng = engine_options opt in
      JObj [(''model_dir'', JStr (co_model_dir opt)), (''kv_pool_gb'', JFloat (the (kv_pool_gb eng))),
            (''max_batch'', JInt (eo_max_batch eng)), (''enable_cuda_graphs'', JBool (eo_enable_cuda_graphs eng)),
            (''max_seq_len'', JInt (eo_max_seq_len eng)),
            (''max_seq_len_derived_from_workload'',
              JBool (co_prompt_len opt + co_gen_len opt > eo_max_seq_len default_EngineOptions)),
            (''prefill_chunk_tokens'', JInt (eo_prefill_chunk_tokens eng)),
            (''admission_policy'', JStr (if eo_admission_policy eng = kReserveFull then ''reserve_full'' else ''watermark'')),
            (''profile_after_init'', JBool (co_profile_after_init opt))])"

definition workload_json :: "CliOptions \<Rightarrow> json" where
  "workload_json opt =
     JObj [(''generator'', JStr ''splitmix64 (bench/FAIRNESS.md; bit-identical to bench/workload.py)''),
           (''seed'', JInt (uint (co_seed opt))), (''requests'', JInt (co_requests opt)),
           (''prompt_len'', JInt (co_prompt_len opt)), (''gen_len'', JInt (co_gen_len opt)),
           (''ignore_eos'', JBool (co_ignore_eos opt))]"

definition warmup_json :: "CliOptions \<Rightarrow> int \<Rightarrow> json" where
  "warmup_json opt warmup_tokens =
     JObj [(''prompt_len'', JInt (warmup_prompt opt)), (''gen_len'', JInt (warmup_gen opt)),
           (''tokens_produced'', JInt warmup_tokens),
           (''note'', JStr ''one unmeasured warmup request; excluded from metrics, included in stats'')]"

definition metrics_json :: "CliOptions \<Rightarrow> Summary \<Rightarrow> rat list \<Rightarrow> (string \<times> json) list" where
  "metrics_json opt sm step_ms =
     [(''output_tok_s'', JFloat (output_tok_s sm)),
      (''output_tok_s_definition'', JStr (''sum_i n_i / (max_i t_i,last - min_i t_i,submit) - total new tokens over the full wall '' @
         ''window, which includes all prefill work (docs/DESIGN.md section 13)'')),
      (''total_new_tokens'', JInt (total_new_tokens sm)), (''wall_window_s'', JFloat (wall_window_s sm)),
      (''num_requests'', JInt (co_requests opt)), (''requests_with_tokens'', JInt (requests_with_tokens sm)),
      (''ttft_p50_ms'', JFloat (ttft_p50_ms sm)), (''ttft_p99_ms'', JFloat (ttft_p99_ms sm))] @
     (case itl_ms sm of None \<Rightarrow> []
      | Some (p50, p99) \<Rightarrow> [(''itl_p50_ms'', JFloat p50), (''itl_p99_ms'', JFloat p99)]) @
     (case decode_rate_tok_s sm of None \<Rightarrow> []
      | Some (p50, mn, mx) \<Rightarrow> [(''decode_rate_p50_tok_s'', JFloat p50), (''decode_rate_min_tok_s'', JFloat mn),
                                (''decode_rate_max_tok_s'', JFloat mx)]) @
     [(''step_time_p50_ms'', JFloat (step_p50_ms sm)), (''step_time_p99_ms'', JFloat (step_p99_ms sm)),
      (''step_time_mean_ms'', JFloat (step_mean_ms sm)), (''step_time_max_ms'', JFloat (step_max_ms sm)),
      (''client_step_calls'', JInt (int (length step_ms))), (''step_times_ms'', JArr (map JFloat step_ms))]"

definition trace_json :: "RequestTrace \<Rightarrow> json" where
  "trace_json tr =
     JObj ([(''request_id'', JInt (int (tr_engine_id tr))), (''workload_index'', JInt (tr_workload_index tr)),
            (''submit_s'', JFloat (tr_submit_s tr)), (''num_tokens'', JInt (int (length (tr_token_times_s tr)))),
            (''finish_reason'', JStr (tr_finish_reason tr))] @
           (if tr_token_times_s tr \<noteq> []
            then [(''first_token_s'', JFloat (hd (tr_token_times_s tr))), (''last_token_s'', JFloat (last (tr_token_times_s tr)))]
            else []) @
           [(''token_times_s'', JArr (map JFloat (tr_token_times_s tr))), (''token_ids'', JArr (map JInt (tr_token_ids tr)))])"

text \<open>\<open>algo\<close> is the report of the chosen algorithms, parsed, or its text.\<close>

definition report_json :: "CliOptions \<Rightarrow> json \<Rightarrow> int \<Rightarrow> Summary \<Rightarrow> 'd Bench \<Rightarrow> json" where
  "report_json opt algo_report warmup_tokens sm b =
     JObj ([(''tool'', JStr ''redline_bench''),
            (''role'', JStr (''profiling driver; cross-engine numbers come from bench/run_bench.py only '' @
                            ''(bench/FAIRNESS.md client-path rule)'')),
            (''config'', config_json opt), (''workload'', workload_json opt), (''warmup'', warmup_json opt warmup_tokens)] @
           metrics_json opt sm (bn_step_ms b) @
           [(''finish_reasons'', reasons_json (finish_reasons (bn_traces b))), (''stats'', StatsJson (Stats (bn_engine b))),
            (''algo_report'', algo_report), (''per_request'', JArr (map trace_json (bn_traces b)))])"

definition write_report :: "BenchEnv \<Rightarrow> CliOptions \<Rightarrow> json \<Rightarrow> ('d, unit) bench" where
  "write_report env opt report =
     (if co_json_path opt \<noteq> [] then
        bindS (checkS (\<lambda>_. be_can_open env (co_json_path opt)) (Fatal (''cannot open --json path for writing: '' @ co_json_path opt))) (\<lambda>_.
        bindS (checkS (\<lambda>_. be_can_write env (co_json_path opt)) (Fatal (''failed writing --json file: '' @ co_json_path opt))) (\<lambda>_.
        modifyS (\<lambda>b. b\<lparr>bn_report := Some report\<rparr>)))
      else returnS ())"

section \<open>The gate and the whole run\<close>

definition forced_length_ok :: "CliOptions \<Rightarrow> RequestTrace \<Rightarrow> bool" where
  "forced_length_ok opt tr \<longleftrightarrow>
     tr_finished tr \<and> tr_finish_reason tr = ''length'' \<and> int (length (tr_token_times_s tr)) = co_gen_len opt"

definition gate :: "CliOptions \<Rightarrow> 'd Bench \<Rightarrow> int" where
  "gate opt b =
     (if co_ignore_eos opt then
        let violations = length (filter (\<lambda>tr. \<not> forced_length_ok opt tr) (bn_traces b)) in
        if violations > 0 then 1 else 0
      else 0)"

definition finish_run :: "BenchEnv \<Rightarrow> CliOptions \<Rightarrow> json \<Rightarrow> int \<Rightarrow> ('d, int) bench" where
  "finish_run env opt algo_report warmup_tokens =
     bindS (getS (\<lambda>b. b)) (\<lambda>b.
     bindS (liftB (Summarize (bn_traces b) (bn_step_ms b))) (\<lambda>sm.
     bindS (write_report env opt (report_json opt algo_report warmup_tokens sm b)) (\<lambda>_.
     getS (gate opt))))"

text \<open>\<open>Run\<close> after the engine was constructed.\<close>

definition run_on :: "'d Cuda \<Rightarrow> BenchEnv \<Rightarrow> CliOptions \<Rightarrow> json \<Rightarrow> 'd Bench \<Rightarrow> ((stop + int) \<times> 'd Bench) option" where
  "run_on cu env opt algo_report b =
     (case warmup cu opt b of
        None \<Rightarrow> None
      | Some (Inl e, b1) \<Rightarrow> Some (Inl e, b1)
      | Some (Inr warmup_tokens, b1) \<Rightarrow>
          (case measure_all cu env opt b1 of
             None \<Rightarrow> None
           | Some (Inl e, b2) \<Rightarrow> Some (Inl e, b2)
           | Some (Inr _, b2) \<Rightarrow> Some (finish_run env opt algo_report warmup_tokens b2)))"

text \<open>
  \<^verbatim>\<open>main\<close>: the exit status, and the state of the driver when there is one. Every exception that
  leaves \<^verbatim>\<open>Run\<close>, one of the constructor included, is caught and gives 1.
\<close>

definition bench_main ::
  "strtod \<Rightarrow> 'd InitEnv \<Rightarrow> BenchEnv \<Rightarrow> json \<Rightarrow> string list \<Rightarrow> InitState \<Rightarrow> (int \<times> 'd Bench option) option" where
  "bench_main sd ienv env algo_report argv st =
     (case ParseCli sd argv of
        Inl (Exit code _) \<Rightarrow> Some (code, None)
      | Inl (EngineThrew _) \<Rightarrow> Some (1, None)
      | Inr opt \<Rightarrow>
          if co_selftest opt then Some (fst (RunSelftest (co_seed opt)), None)
          else
            (case new_Engine ienv (engine_options opt) st of
               (Inl _, _) \<Rightarrow> Some (1, None)
             | (Inr (eng, _), _) \<Rightarrow>
                 (case run_on (env_cuda ienv) env opt algo_report (new_Bench eng) of
                    None \<Rightarrow> None
                  | Some (Inr code, b) \<Rightarrow> Some (code, Some b)
                  | Some (Inl (Exit code _), b) \<Rightarrow> Some (code, Some b)
                  | Some (Inl (EngineThrew _), b) \<Rightarrow> Some (1, Some b))))"

end
