(* ===== verification/Bench_Steps.thy ===== *)
theory Bench_Steps
  imports Bench
begin

text \<open>
  What one step of the engine does to the requests, seen from its client: each emission belongs to a
  queued request and extends its output by the reported token, and every other request keeps its
  output. \<open>core\<close> is the part of a request that the client can follow; \<open>logged\<close> relates a trace of
  the benchmark to the request it follows.
\<close>

section \<open>The observable part of a request\<close>

definition core :: "Request \<Rightarrow> request_id \<times> token_id list \<times> int \<times> bool \<times> token_id list" where
  "core r = (req_id r, output_tokens r, max_new_tokens r, ignore_eos r, forced_tokens r)"

lemma core_content: "content r' = content r \<Longrightarrow> core r' = core r"
  by (simp add: content_def core_def)

lemma core_progress [simp]: "core (r\<lparr>prefill_progress := n\<rparr>) = core r"
  by (simp add: core_def)

lemma appended_core: "core r' = core r \<Longrightarrow> appended_token r' t = appended_token r t"
  by (auto simp: core_def appended_token_def Let_def)

lemma with_token_core: "core r' = core r \<Longrightarrow> core (with_token r' t) = core (with_token r t)"
  using appended_core[of r' r t] by (simp add: core_def with_token_def)

lemma token_reason_core: "core r' = core r \<Longrightarrow> token_reason opts r' t = token_reason opts r t"
  using appended_core[of r' r t] by (simp add: core_def token_reason_def stop_reason_def with_token_def num_output_tokens_def)

lemma core_token_req: "core (token_req opts r t) = core (with_token r t)"
  by (simp add: token_req_def released_def core_def)

section \<open>Planning and completing\<close>

lemma planned_core: "planned s plan s1 \<Longrightarrow> heap s p = Some r \<Longrightarrow> \<exists>r1. heap s1 p = Some r1 \<and> core r1 = core r"
  by (auto simp: planned_def dest!: same_contentD intro: core_content)

text \<open>The emission \<open>res\<close> reports one sampled token of the request at its address.\<close>

definition reports :: "Scheduler \<Rightarrow> Scheduler \<Rightarrow> StepResult \<Rightarrow> bool" where
  "reports s s' res \<longleftrightarrow>
     (let p = request_id res in
      \<exists>r r'. p \<in> queued s \<and> heap s p = Some r \<and> heap s' p = Some r' \<and> core r' = core (with_token r (token res)) \<and>
        finished res = (p \<notin> queued s') \<and> result_reason res = token_reason (options s) r (token res) \<and>
        (finished res \<longleftrightarrow> result_reason res \<noteq> kNone))"

definition untouched :: "Scheduler \<Rightarrow> Scheduler \<Rightarrow> ptr \<Rightarrow> bool" where
  "untouched s s' p \<longleftrightarrow>
     (p \<in> queued s' \<longleftrightarrow> p \<in> queued s) \<and> (\<forall>r. heap s p = Some r \<longrightarrow> (\<exists>r'. heap s' p = Some r' \<and> core r' = core r))"

lemma completed_decode_effect:
  assumes inv: "sched_inv s" and ok: "plan_ok s plan" and len: "length toks = wants s plan"
    and c: "completed s plan toks ems s'" and none: "prefill plan = None" and ab: "aborted plan = []"
    and ids: "\<And>p r. heap s p = Some r \<Longrightarrow> req_id r = p"
  shows "list_all (reports s s') ems" and "p \<notin> request_id ` set ems \<Longrightarrow> untouched s s' p"
proof -
  have p: "prefill_queue s = []" "decode plan = running s" "length toks = length (running s)"
    and e: "ems = map (row_result s) (zip (running s) toks)"
    and rd: "rows_done s (zip (running s) toks) s'"
    using ok len c none ab by (simp_all add: plan_ok_def wants_def completed_def)
  have d: "set (waiting s) \<inter> set (running s) = {}" using sched_invD(3)[OF inv] by auto
  have q: "queued s = set (waiting s) \<union> set (running s)"
    "queued s' = set (waiting s) \<union> {p \<in> set (running s). is_running (heap s') p}"
    using rd p by (auto simp: queued_def rows_done_def)
  have row: "reports s s' (row_result s (k, t))" if "(k, t) \<in> set (zip (running s) toks)" for k t
  proof -
    have "\<forall>(q, tok) \<in> set (zip (running s) toks). \<exists>r. heap s q = Some r \<and> heap s' q = Some (token_req (options s) r tok)"
      using rd by (simp add: rows_done_def)
    from bspec[OF this that] obtain r where r: "heap s k = Some r" "heap s' k = Some (token_req (options s) r t)" by auto
    have k: "k \<in> set (running s)" using that by (rule set_zip_leftD)
    have kq: "k \<in> queued s' \<longleftrightarrow> token_reason (options s) r t = kNone"
      using q d k r(2) by (auto simp: is_running_def token_req_state split: if_splits)
    have "k \<in> queued s" using q(1) k by simp
    then show ?thesis
      using r kq ids[OF r(1)] by (auto simp: reports_def row_result_def token_result_def core_token_req Let_def)
  qed
  then show "list_all (reports s s') ems" by (auto simp: e list_all_iff)
  assume np: "p \<notin> request_id ` set ems"
  have "map request_id ems = running s" unfolding e
    by (rule zip_ids[OF p(3)]) (use queued_state[OF inv] ids in \<open>fastforce simp: queued_def\<close>)
  then have nr: "p \<notin> set (running s)" using np by (metis list.set_map)
  have "heap s' p = heap s p" using rd nr by (auto simp: rows_done_def dest!: spec[of _ p] set_zip_leftD)
  then show "untouched s s' p" using q nr by (auto simp: untouched_def)
qed

lemma completed_prefill_effect:
  assumes inv: "sched_inv s" and ok: "plan_ok s plan" and c: "completed s plan toks ems s'" and some: "prefill plan = Some k"
    and ids: "\<And>p r. heap s p = Some r \<Longrightarrow> req_id r = p"
  shows "list_all (reports s s') ems" and "p \<notin> request_id ` set ems \<Longrightarrow> untouched s s' p"
proof -
  obtain qs r where qr: "prefill_queue s = k # qs" and r: "heap s k = Some r"
    using ok some by (auto simp: plan_ok_def neq_Nil_conv)
  have d: "k \<notin> set qs" "k \<notin> set (running s)" "k \<notin> set (waiting s)" using sched_invD(3)[OF inv] qr by auto
  have w: "waiting s' = waiting s" using c by (simp add: completed_def)
  let ?r = "r\<lparr>prefill_progress := prefill_end plan\<rparr>"
  have c': "if toks = [] then ems = [] \<and> heap s' = (heap s)(k \<mapsto> ?r) \<and> prefill_queue s' = prefill_queue s \<and> running s' = running s
      else ems = [token_result (options s) ?r (hd toks)] \<and> heap s' = (heap s)(k \<mapsto> token_req (options s) ?r (hd toks)) \<and>
        prefill_queue s' = qs \<and> running s' = (if token_reason (options s) ?r (hd toks) = kNone then running s @ [k] else running s)"
    using c by (simp add: completed_def some qr r Let_def split: if_splits)
  have tr: "token_reason (options s) ?r t = token_reason (options s) r t" for t by (rule token_reason_core) simp
  have ct: "core (token_req (options s) ?r t) = core (with_token r t)" for t
    unfolding core_token_req by (rule with_token_core) simp
  have "list_all (reports s s') ems \<and> (p \<notin> request_id ` set ems \<longrightarrow> untouched s s' p)"
  proof (cases "toks = []")
    case True
    then show ?thesis using c' w qr r by (auto simp: untouched_def queued_def core_def)
  next
    case False
    then have e: "ems = [token_result (options s) ?r (hd toks)]" "heap s' = (heap s)(k \<mapsto> token_req (options s) ?r (hd toks))"
      "prefill_queue s' = qs" "running s' = (if token_reason (options s) r (hd toks) = kNone then running s @ [k] else running s)"
      using c' tr by simp_all
    have "reports s s' (token_result (options s) ?r (hd toks))"
      using e d w r qr ids[OF r] tr ct by (auto simp: reports_def token_result_def queued_def Let_def)
    moreover have "request_id (token_result (options s) ?r (hd toks)) = k" using ids[OF r] by (simp add: token_result_def)
    moreover have "p \<noteq> k \<Longrightarrow> untouched s s' p" using e w qr by (auto simp: untouched_def queued_def)
    ultimately show ?thesis using e by auto
  qed
  then show "list_all (reports s s') ems" and "p \<notin> request_id ` set ems \<Longrightarrow> untouched s s' p" by blast+
qed

lemma reports_planned:
  assumes pl: "planned s plan s1" and ab: "aborted plan = []" and "reports s1 s' res"
  shows "reports s s' res"
proof -
  have q: "queued s = queued s1" "options s1 = options s" using planned_queued[OF pl] ab pl by (simp_all add: planned_def)
  obtain r r' where r: "request_id res \<in> queued s1" "heap s1 (request_id res) = Some r" "heap s' (request_id res) = Some r'"
    "core r' = core (with_token r (token res))" "finished res = (request_id res \<notin> queued s')"
    "result_reason res = token_reason (options s1) r (token res)" "finished res \<longleftrightarrow> result_reason res \<noteq> kNone"
    using assms(3) unfolding reports_def Let_def by (elim exE conjE) (rule that)
  have "map_option content (heap s (request_id res)) = map_option content (heap s1 (request_id res))"
    using pl by (simp add: planned_def same_content_def)
  then obtain r0 where "heap s (request_id res) = Some r0" "content r0 = content r"
    using r(2) by (auto simp: map_option_eq_Some)
  then have r0: "heap s (request_id res) = Some r0" "core r = core r0" using core_content[of r r0] by simp_all
  have "core r' = core (with_token r0 (token res))" using r(4) with_token_core[OF r0(2)] by simp
  moreover have "result_reason res = token_reason (options s) r0 (token res)"
    using r(6) token_reason_core[OF r0(2)] q(2) by simp
  ultimately show ?thesis
    unfolding reports_def Let_def using r(1,3,5,7) r0(1) q(1) by blast
qed

lemma untouched_planned:
  assumes pl: "planned s plan s1" and ab: "aborted plan = []" and "untouched s1 s' p"
  shows "untouched s s' p"
  using planned_queued[OF pl] ab assms(3) planned_core[OF pl, of p] by (fastforce simp: untouched_def)

section \<open>One step of the engine\<close>

lemma step_effect:
  assumes inv: "engine_inv cu mc opts eng" and pol: "eo_admission_policy opts = kReserveFull"
    and e: "EngineStep cu eng = (Inr ems, eng')" and q: "queued (eng_scheduler eng) \<noteq> {}"
  shows "list_all (reports (eng_scheduler eng) (eng_scheduler eng')) ems"
    and "p \<notin> request_id ` set ems \<Longrightarrow> untouched (eng_scheduler eng) (eng_scheduler eng') p"
    and "work (eng_scheduler eng') < work (eng_scheduler eng)" and "eng_next_id eng' = eng_next_id eng"
    and "options (eng_scheduler eng') = options (eng_scheduler eng)"
proof -
  let ?s = "eng_scheduler eng" and ?s' = "eng_scheduler eng'"
  have i: "exec_reachable cu mc (MakeExecutorOptions opts) (eng_executor eng)" "sched_inv ?s"
    "live_map ?s (eng_requests eng) (eng_next_id eng)" "options ?s = scheduler_options opts mc"
    using inv reachable_inv by (auto simp: engine_inv_def)
  obtain plan s1 where pe: "PlanStep ?s = Inr (plan, s1)" and p: "sched_inv s1" "plan_ok s1 plan" "planned ?s plan s1" and n: "eng_next_id eng' = eng_next_id eng"
    and o: "(stopped eng plan (Inr ems) eng' \<and> ?s' = s1) \<or>
      (\<exists>toks. length toks = wants s1 plan \<and> completed s1 plan toks ems ?s')"
    by (rule EngineStep_outcome[OF i(1,2) e]) blast
  have ab: "aborted plan = []" using p(3) i(4) pol by (simp add: planned_def)
  obtain toks where c: "length toks = wants s1 plan" "completed s1 plan toks ems ?s'"
    using o q by (auto simp: stopped_def split: if_splits)
  have ids: "req_id r = p" if "heap s1 p = Some r" for p r
    using planned_live[OF i(3) p(3,2)] that by (simp add: live_map_def)
  have "plan_empty plan \<longrightarrow> queued ?s = {}" using PlanStep_ok[OF i(2)] pe by (auto elim!: wpE)
  then have ne: "prefill plan \<noteq> None \<or> decode plan \<noteq> []" using q ab by (simp add: plan_empty_def)
  have both: "list_all (reports s1 ?s') ems \<and> (p \<notin> request_id ` set ems \<longrightarrow> untouched s1 ?s' p)"
    using completed_decode_effect[OF p(1,2) c _ ab ids] completed_prefill_effect[OF p(1,2) c(2) _ ids]
    by (cases "prefill plan") blast+
  then show "list_all (reports ?s ?s') ems" using reports_planned[OF p(3) ab] by (auto simp: list_all_iff)
  show "untouched ?s ?s' p" if "p \<notin> request_id ` set ems" using both that untouched_planned[OF p(3) ab] by blast
  show "work ?s' < work ?s" using completed_work[OF p(1,2) c ne] planned_work[OF i(2) p(3)] by simp
  show "eng_next_id eng' = eng_next_id eng" by (rule n)
  show "options ?s' = options ?s" using p(3) c(2) by (simp add: planned_def completed_def)
qed

end
