(* ===== verification/Bench_Props.thy ===== *)
theory Bench_Props
  imports Bench_Steps
begin

text \<open>
  The invariant of the benchmark driver: each trace follows its request through the engine, the map
  from ids to traces is exact, and the counters count. Preservation by submitting, by recording the
  results of a step, and by an iteration of the loop.
\<close>

section \<open>A trace and its request\<close>

definition stopped_by :: "SchedulerOptions \<Rightarrow> Request \<Rightarrow> string \<Rightarrow> bool" where
  "stopped_by os r nm \<longleftrightarrow>
     nm = ''length'' \<and> num_output_tokens r = max_new_tokens r \<or>
     nm = ''eos'' \<and> \<not> ignore_eos r \<and> 1 \<le> num_output_tokens r \<and> num_output_tokens r \<le> max_new_tokens r \<and>
       IsEosToken os (last (output_tokens r))"

definition logged :: "SchedulerOptions \<Rightarrow> bool \<Rightarrow> RequestTrace \<Rightarrow> Request \<Rightarrow> bool" where
  "logged os q tr r \<longleftrightarrow>
     forced_tokens r = [] \<and> tr_token_ids tr = output_tokens r \<and> length (tr_token_times_s tr) = length (output_tokens r) \<and>
     tr_finished tr = (\<not> q) \<and>
     (if q then num_output_tokens r < max_new_tokens r else stopped_by os r (tr_finish_reason tr))"

lemma logged_core: "core r' = core r \<Longrightarrow> logged os q tr r' = logged os q tr r"
  by (simp add: core_def logged_def stopped_by_def num_output_tokens_def)

definition recorded :: "rat \<Rightarrow> StepResult \<Rightarrow> RequestTrace \<Rightarrow> RequestTrace" where
  "recorded time res tr =
     (let tr1 = tr\<lparr>tr_token_times_s := tr_token_times_s tr @ [time], tr_token_ids := tr_token_ids tr @ [token res]\<rparr> in
      if finished res then tr1\<lparr>tr_finished := True, tr_finish_reason := FinishReasonName (result_reason res)\<rparr> else tr1)"

lemma recorded_frame [simp]:
  "tr_engine_id (recorded time res tr) = tr_engine_id tr" "tr_workload_index (recorded time res tr) = tr_workload_index tr"
  by (simp_all add: recorded_def Let_def)

lemma token_reason_not_aborted: "token_reason opts r t \<noteq> kAborted"
  by (simp add: token_reason_def stop_reason_def)

lemma logged_token:
  assumes l: "logged os True tr r" and reason: "result_reason res = token_reason os r (token res)"
    and fin: "finished res \<longleftrightarrow> result_reason res \<noteq> kNone" and c: "core r' = core (with_token r (token res))"
  shows "logged os (\<not> finished res) (recorded time res tr) r'"
proof -
  have r: "forced_tokens r = []" "tr_token_ids tr = output_tokens r" "length (tr_token_times_s tr) = length (output_tokens r)"
    "num_output_tokens r < max_new_tokens r" "\<not> tr_finished tr" using l by (simp_all add: logged_def)
  then have a: "appended_token r (token res) = token res" by (simp add: appended_token_def)
  have out: "output_tokens (with_token r (token res)) = output_tokens r @ [token res]" by (simp add: with_token_def a)
  have "logged os (\<not> finished res) (recorded time res tr) (with_token r (token res))"
  proof (cases "finished res")
    case True
    have "result_reason res = kEos \<and> \<not> ignore_eos r \<and> IsEosToken os (token res) \<or>
        result_reason res = kLength \<and> num_output_tokens r + 1 = max_new_tokens r"
      using True fin reason r(4) by (auto simp: token_reason_def stop_reason_def a with_token_def num_output_tokens_def split: if_splits)
    then show ?thesis using True r out
      by (auto simp: logged_def recorded_def stopped_by_def with_token_def a num_output_tokens_def)
  next
    case False
    then have "num_output_tokens r + 1 < max_new_tokens r"
      using token_reason_continue[of os r "token res"] fin reason by simp
    then show ?thesis using False r out by (auto simp: logged_def recorded_def with_token_def a num_output_tokens_def)
  qed
  then show ?thesis using logged_core[OF c] by simp
qed

text \<open>Trace \<open>i\<close> follows the request \<open>base + i\<close>.\<close>

definition follows :: "SchedulerOptions \<Rightarrow> CliOptions \<Rightarrow> nat \<Rightarrow> Scheduler \<Rightarrow> nat \<Rightarrow> RequestTrace \<Rightarrow> bool" where
  "follows os opt base s i tr \<longleftrightarrow>
     (\<exists>r. heap s (base + i) = Some r \<and> max_new_tokens r = co_gen_len opt \<and> ignore_eos r = co_ignore_eos opt \<and>
        logged os (base + i \<in> queued s) tr r) \<and>
     tr_engine_id tr = base + i \<and> tr_workload_index tr = int i"

lemma follows_untouched:
  assumes "follows os opt base s i tr" and "untouched s s' (base + i)"
  shows "follows os opt base s' i tr"
proof -
  obtain r where r: "heap s (base + i) = Some r" "max_new_tokens r = co_gen_len opt" "ignore_eos r = co_ignore_eos opt"
    "logged os (base + i \<in> queued s) tr r" using assms(1) by (auto simp: follows_def)
  obtain r' where r': "heap s' (base + i) = Some r'" "core r' = core r" using assms(2) r(1) by (auto simp: untouched_def)
  have "max_new_tokens r' = max_new_tokens r" "ignore_eos r' = ignore_eos r" using r'(2) by (simp_all add: core_def)
  then show ?thesis using assms r r' logged_core[OF r'(2)] by (simp add: follows_def untouched_def)
qed

lemma follows_report:
  assumes f: "follows os opt base s i tr" and rep: "reports s s' res" and i: "request_id res = base + i"
    and os: "options s = os"
  shows "follows os opt base s' i (recorded time res tr)"
proof -
  obtain r r' where r: "base + i \<in> queued s" "heap s (base + i) = Some r" "heap s' (base + i) = Some r'"
    "core r' = core (with_token r (token res))" "finished res = (base + i \<notin> queued s')"
    "result_reason res = token_reason os r (token res)" "finished res \<longleftrightarrow> result_reason res \<noteq> kNone"
    using rep unfolding reports_def Let_def i os by (elim exE conjE) (rule that)
  have l: "logged os True tr r" "max_new_tokens r = co_gen_len opt" "ignore_eos r = co_ignore_eos opt"
    using f r(1,2) by (simp_all add: follows_def)
  have "logged os (\<not> finished res) (recorded time res tr) r'" by (rule logged_token[OF l(1) r(6,7,4)])
  moreover have "max_new_tokens r' = max_new_tokens r" "ignore_eos r' = ignore_eos r" using r(4) by (simp_all add: core_def with_token_def)
  ultimately show ?thesis using f r(3,5) l by (simp add: follows_def)
qed

section \<open>Recording the results of a step\<close>

lemma record_result_eq:
  assumes "bn_index b (request_id res) = Some i" and "result_reason res \<noteq> kAborted" and "i < length (bn_traces b)"
  shows "record_result time res b =
    (Inr (), b\<lparr>bn_traces := (bn_traces b)[i := recorded time res (bn_traces b ! i)],
               bn_finished := bn_finished b + (if finished res then 1 else 0)\<rparr>)"
  using assms by (simp add: record_result_def bindS_def getS_def modifyS_def update_trace_def recorded_def Let_def)

lemma record_all:
  assumes os: "options s = os" and sub: "queued s \<subseteq> {base..<base + N}"
  shows "list_all (reports s s') ems \<Longrightarrow> distinct (map request_id ems) \<Longrightarrow> N \<le> length (bn_traces b) \<Longrightarrow>
    (\<And>i. i < N \<Longrightarrow> bn_index b (base + i) = Some i) \<Longrightarrow>
    (\<And>i. i < N \<Longrightarrow> follows os opt base (if base + i \<in> request_id ` set ems then s else s') i (bn_traces b ! i)) \<Longrightarrow>
    \<exists>T. forS (record_result time) ems b =
        (Inr (), b\<lparr>bn_traces := T, bn_finished := bn_finished b + int (length (filter finished ems))\<rparr>) \<and>
      length T = length (bn_traces b) \<and> (\<forall>i<N. follows os opt base s' i (T ! i)) \<and> drop N T = drop N (bn_traces b)"
proof (induction ems arbitrary: b)
  case Nil
  then show ?case by (intro exI[of _ "bn_traces b"]) simp
next
  case (Cons res ems)
  have rep: "reports s s' res" using Cons.prems(1) by simp
  then have "request_id res \<in> queued s" by (auto simp: reports_def Let_def)
  then obtain k where k: "request_id res = base + k" "k < N"
    using sub by (metis atLeastLessThan_iff le_add_diff_inverse nat_add_left_cancel_less subsetD)
  have kl: "k < length (bn_traces b)" using k(2) Cons.prems(3) by simp
  have na: "result_reason res \<noteq> kAborted" using rep token_reason_not_aborted unfolding reports_def Let_def by metis
  let ?b = "b\<lparr>bn_traces := (bn_traces b)[k := recorded time res (bn_traces b ! k)],
              bn_finished := bn_finished b + (if finished res then 1 else 0)\<rparr>"
  have one: "record_result time res b = (Inr (), ?b)"
    by (rule record_result_eq) (use Cons.prems(4)[OF k(2)] k na kl in auto)
  have fo: "follows os opt base (if base + i \<in> request_id ` set ems then s else s') i (bn_traces ?b ! i)" if i: "i < N" for i
  proof (cases "i = k")
    case True
    have "base + k \<notin> request_id ` set ems" using Cons.prems(2) k(1) by auto
    moreover have "follows os opt base s k (bn_traces b ! k)" using Cons.prems(5)[OF k(2)] k(1) by simp
    from follows_report[OF this rep k(1) os] have "follows os opt base s' k (recorded time res (bn_traces b ! k))" .
    ultimately show ?thesis using True kl by simp
  next
    case False
    then have "base + i \<noteq> request_id res" using k(1) by simp
    then show ?thesis using Cons.prems(5)[OF i] False by simp
  qed
  have "\<exists>T. forS (record_result time) ems ?b =
        (Inr (), ?b\<lparr>bn_traces := T, bn_finished := bn_finished ?b + int (length (filter finished ems))\<rparr>) \<and>
      length T = length (bn_traces ?b) \<and> (\<forall>i<N. follows os opt base s' i (T ! i)) \<and> drop N T = drop N (bn_traces ?b)"
    by (rule Cons.IH) (use Cons.prems fo in auto)
  then obtain T where T: "forS (record_result time) ems ?b =
        (Inr (), ?b\<lparr>bn_traces := T, bn_finished := bn_finished ?b + int (length (filter finished ems))\<rparr>)"
    "length T = length (bn_traces b)" "\<forall>i<N. follows os opt base s' i (T ! i)" "drop N T = drop N (bn_traces b)"
    using k(2) by auto
  have "forS (record_result time) (res # ems) b = forS (record_result time) ems ?b" by (simp add: bindS_def one)
  then show ?case using T by (intro exI[of _ T]) auto
qed

section \<open>Counting the finished requests\<close>

lemma finished_card:
  assumes sub: "queued s \<subseteq> {base..<base + N}" and dist: "distinct (map request_id ems)"
    and rep: "list_all (reports s s') ems" and unt: "\<And>p. p \<notin> request_id ` set ems \<Longrightarrow> untouched s s' p"
  shows "queued s' \<subseteq> queued s" and
    "card {i. i < N \<and> base + i \<notin> queued s'} = card {i. i < N \<and> base + i \<notin> queued s} + length (filter finished ems)"
proof -
  have fin: "p \<in> queued s \<and> (finished res \<longleftrightarrow> p \<notin> queued s')" if "res \<in> set ems" "p = request_id res" for res p
    using rep that by (auto simp: list_all_iff reports_def Let_def dest!: bspec[of _ _ res])
  have other: "p \<in> queued s' \<longleftrightarrow> p \<in> queued s" if "p \<notin> request_id ` set ems" for p
    using unt[OF that] by (simp add: untouched_def)
  show q: "queued s' \<subseteq> queued s"
  proof
    fix p
    assume "p \<in> queued s'"
    then show "p \<in> queued s" using fin[of _ p] other[of p] by (cases "p \<in> request_id ` set ems") blast+
  qed
  let ?F = "request_id ` set (filter finished ems)"
  have F: "?F = queued s - queued s'"
  proof (intro equalityI subsetI)
    fix p
    assume "p \<in> ?F"
    then obtain res where res: "res \<in> set ems" "finished res" "p = request_id res" by auto
    then show "p \<in> queued s - queued s'" using fin[OF res(1,3)] by simp
  next
    fix p
    assume p: "p \<in> queued s - queued s'"
    then obtain res where res: "res \<in> set ems" "p = request_id res" using other[of p] by blast
    then have "finished res" using fin[OF res] p by simp
    then show "p \<in> ?F" using res by auto
  qed
  have "distinct (map request_id (filter finished ems))" using dist distinct_map_filter by blast
  then have cF: "card (queued s - queued s') = length (filter finished ems)"
    using distinct_card unfolding F[symmetric] by fastforce
  let ?D = "{i. i < N \<and> base + i \<in> queued s - queued s'}"
  have img: "(\<lambda>i. base + i) ` ?D = queued s - queued s'"
  proof (intro equalityI subsetI)
    fix p
    assume p: "p \<in> queued s - queued s'"
    then have "base \<le> p" "p < base + N" using sub by auto
    then show "p \<in> (\<lambda>i. base + i) ` ?D" using p by (intro image_eqI[of _ _ "p - base"]) auto
  qed auto
  have "card ((\<lambda>i. base + i) ` ?D) = card ?D" by (rule card_image) (simp add: inj_on_def)
  then have "card ?D = card (queued s - queued s')" unfolding img by (rule sym)
  moreover have "{i. i < N \<and> base + i \<notin> queued s'} = {i. i < N \<and> base + i \<notin> queued s} \<union> ?D"
    using q by blast
  moreover have "{i. i < N \<and> base + i \<notin> queued s} \<inter> ?D = {}" by blast
  ultimately show "card {i. i < N \<and> base + i \<notin> queued s'} = card {i. i < N \<and> base + i \<notin> queued s} + length (filter finished ems)"
    using cF by (simp add: card_Un_disjoint)
qed

end
