(* ===== verification/Bench_Loop.thy ===== *)
theory Bench_Loop
  imports Bench_Props
begin

text \<open>
  The two loops of the benchmark driver return, for any behaviour of CUDA: each iteration lowers the
  work that is queued or still to be submitted, or the engine throws. \<open>sound\<close> is what excludes a
  throw.
\<close>

section \<open>Arrivals and steps\<close>

lemma add_outcome:
  assumes "AddRequest prompt mn ig [] eng = (r, eng')"
  shows "(\<exists>e. r = Inl e \<and> \<not> (in_vocab eng prompt \<and> ValidateRequest (eng_scheduler eng) (arriving eng prompt mn ig []) = Inr ())) \<or>
    r = Inr (eng_next_id eng) \<and> eng' = accepted eng (arriving eng prompt mn ig [])"
  using assms by (auto simp: AddRequest_eq in_vocab_def split: if_splits sum.splits)

lemma accepted_effect:
  fixes eng :: "'d Engine" and r :: Request
  assumes inv: "engine_inv cu mc opts eng"
  defines "n \<equiv> eng_next_id eng" and "s \<equiv> eng_scheduler eng" and "s' \<equiv> eng_scheduler (accepted eng r)"
  shows "n \<notin> queued s" and "queued s' = insert n (queued s)" and "heap s' = (heap s)(n \<mapsto> r)" and "options s' = options s"
    and "work s' = work s + work_req r" and "p \<noteq> n \<Longrightarrow> untouched s s' p" and "eng_next_id (accepted eng r) = n + 1"
proof -
  have si: "sched_inv s" and lm: "live_map s (eng_requests eng) n"
    using inv reachable_sched_inv by (auto simp: engine_inv_def s_def n_def)
  show n: "n \<notin> queued s" using lm queued_state[OF si] by (fastforce simp: live_map_def)
  have s': "s' = (set_req s n r)\<lparr>waiting := waiting s @ [n]\<rparr>" by (simp add: s'_def accepted_def s_def n_def Let_def)
  show q: "queued s' = insert n (queued s)" by (auto simp: s' queued_def)
  show h: "heap s' = (heap s)(n \<mapsto> r)" and "options s' = options s" by (simp_all add: s')
  have "n \<notin> set (waiting s)" "n \<notin> set (prefill_queue s)" "n \<notin> set (running s)" using n by (auto simp: queued_def)
  then show "work s' = work s + work_req r" by (simp add: work_def s')
  show "p \<noteq> n \<Longrightarrow> untouched s s' p" by (simp add: untouched_def q h)
  show "eng_next_id (accepted eng r) = n + 1" by (simp add: accepted_def n_def Let_def)
qed

definition sound :: "'d Cuda \<Rightarrow> ModelConfig \<Rightarrow> EngineOptions \<Rightarrow> CliOptions \<Rightarrow> bool" where
  "sound cu mc eopts opt \<longleftrightarrow>
     live_cuda cu \<and> samples_in_vocab cu mc \<and> 100000 \<le> vocab_size mc \<and> 1 \<le> co_prompt_len opt \<and> 1 \<le> co_gen_len opt \<and>
     co_prompt_len opt + co_gen_len opt \<le> eo_max_seq_len eopts \<and>
     (\<exists>bu. ComputeBudget mc (MakeExecutorOptions eopts) = Inr bu \<and>
        BlocksForTokens (co_prompt_len opt + co_gen_len opt) < num_kv_blocks bu)"

lemma valid_arrival:
  assumes inv: "engine_inv cu mc eopts eng" and pol: "eo_admission_policy eopts = kReserveFull" and so: "sound cu mc eopts opt"
    and p: "1 \<le> pl" "pl \<le> co_prompt_len opt" and g: "1 \<le> gl" "gl \<le> co_gen_len opt"
  shows "in_vocab eng (BuildPrompt seed k pl) \<and>
    ValidateRequest (eng_scheduler eng) (arriving eng (BuildPrompt seed k pl) gl ig []) = Inr ()"
proof -
  obtain bu where bu: "ComputeBudget mc (MakeExecutorOptions eopts) = Inr bu"
    "BlocksForTokens (co_prompt_len opt + co_gen_len opt) < num_kv_blocks bu" using so by (auto simp: sound_def)
  have x: "exec_reachable cu mc (MakeExecutorOptions eopts) (eng_executor eng)" "eng_config eng = mc"
    using inv by (simp_all add: engine_inv_def)
  have "num_kv_blocks (me_budget (eng_executor eng)) = num_kv_blocks bu"
    using exec_reachable_inv[OF x(1)] bu(1) by (auto simp: exec_inv_def)
  then have t: "total_blocks (allocator (eng_scheduler eng)) = num_kv_blocks bu" "options (eng_scheduler eng) = scheduler_options eopts mc"
    using inv reachable_inv by (auto simp: engine_inv_def pool_blocks_def)
  have "BlocksForTokens (pl + gl) \<le> BlocksForTokens (co_prompt_len opt + co_gen_len opt)"
    by (rule BlocksForTokens_mono) (use p g in simp)
  moreover have "0 \<le> BlocksForTokens (pl + gl)" by (rule BlocksForTokens_nonneg) (use p g in simp)
  ultimately have "BlocksForTokens (pl + gl) \<le> usable_blocks (allocator (eng_scheduler eng))"
    using bu(2) t(1) by (simp add: usable_blocks_def)
  moreover have "t \<in> set (BuildPrompt seed k pl) \<Longrightarrow> 0 \<le> t \<and> t < vocab_size mc" for t
    using BuildPrompt_range[of t seed k pl] so by (simp add: sound_def)
  ultimately show ?thesis
    using p g so pol t(2) x(2)
    by (simp add: in_vocab_def list_all_iff ValidateRequest_def arriving_def new_Request_def num_prompt_tokens_def sound_def)
qed

lemma step_returns:
  assumes inv: "engine_inv cu mc eopts eng" and so: "sound cu mc eopts opt"
  shows "\<exists>ems eng'. EngineStep cu eng = (Inr ems, eng')"
proof -
  let ?x = "eng_executor eng" and ?s = "eng_scheduler eng"
  have i: "exec_reachable cu mc (MakeExecutorOptions eopts) ?x" "vocab_ok (vocab_size mc) ?s" "sched_inv ?s"
    "options ?s = scheduler_options eopts mc" "total_blocks (allocator ?s) = pool_blocks eng"
    using inv so reachable_inv by (auto simp: engine_inv_def sound_def)
  have live: "exec_live cu mc (MakeExecutorOptions eopts) ?x"
    using i(1) so by (simp add: exec_live_def samples_in_vocab_def sound_def)
  have agr: "agrees eopts mc ?x ?s" using i by (simp add: agrees_def pool_blocks_def)
  show ?thesis using live.serve_live[OF live i(3) agr] EngineStep_serve by blast
qed

section \<open>The invariant of the measured loop\<close>

definition bench_inv :: "'d Cuda \<Rightarrow> ModelConfig \<Rightarrow> EngineOptions \<Rightarrow> CliOptions \<Rightarrow> nat \<Rightarrow> 'd Bench \<Rightarrow> bool" where
  "bench_inv cu mc eopts opt base b \<longleftrightarrow>
     (let eng = bn_engine b; s = eng_scheduler eng; N = nat (bn_submitted b) in
      engine_inv cu mc eopts eng \<and> eo_admission_policy eopts = kReserveFull \<and>
      length (bn_traces b) = nat (co_requests opt) \<and> 0 \<le> bn_submitted b \<and> bn_submitted b \<le> co_requests opt \<and>
      eng_next_id eng = base + N \<and>
      (\<forall>p. bn_index b p = (if base \<le> p \<and> p < base + N then Some (p - base) else None)) \<and>
      queued s \<subseteq> {base..<base + N} \<and>
      (\<forall>i<N. follows (scheduler_options eopts mc) opt base s i (bn_traces b ! i)) \<and>
      drop N (bn_traces b) = replicate (nat (co_requests opt) - N) new_RequestTrace \<and>
      bn_finished b = int (card {i. i < N \<and> base + i \<notin> queued s}))"

definition potential :: "CliOptions \<Rightarrow> 'd Bench \<Rightarrow> int" where
  "potential opt b =
     work (eng_scheduler (bn_engine b)) + (co_requests opt - bn_submitted b) * (co_prompt_len opt + co_gen_len opt)"

text \<open>The outcome of a part of the driver: an exception of the engine, or \<open>Q\<close>.\<close>

definition outcome :: "bool \<Rightarrow> (stop + 'a) \<times> 'd Bench \<Rightarrow> ('a \<Rightarrow> 'd Bench \<Rightarrow> bool) \<Rightarrow> bool" where
  "outcome live = (\<lambda>(r, b') Q. case r of Inl e \<Rightarrow> (\<exists>x. e = EngineThrew x) \<and> \<not> live | Inr x \<Rightarrow> Q x b')"

lemma outcome_Inr [simp]: "outcome live (Inr x, b') Q \<longleftrightarrow> Q x b'"
  and outcome_Inl [simp]: "outcome live (Inl e, b') Q \<longleftrightarrow> (\<exists>x. e = EngineThrew x) \<and> \<not> live"
  by (simp_all add: outcome_def)

lemma submit_one_eq:
  assumes "bn_submitted b < int (length (bn_traces b))" and "0 \<le> bn_submitted b"
  shows "submit_one env opt epoch b =
    (let k = bn_submitted b; n = nat k;
         tr = (bn_traces b ! n)\<lparr>tr_workload_index := k, tr_submit_s := SecondsSince epoch (be_clock env (bn_clock b))\<rparr> in
     case AddRequest (BuildPrompt (co_seed opt) (word_of_int k) (co_prompt_len opt)) (co_gen_len opt) (co_ignore_eos opt) [] (bn_engine b) of
       (Inl e, eng') \<Rightarrow> (Inl (EngineThrew e), b\<lparr>bn_clock := bn_clock b + 1, bn_traces := (bn_traces b)[n := tr], bn_engine := eng'\<rparr>)
     | (Inr i, eng') \<Rightarrow> (Inr (), b\<lparr>bn_clock := bn_clock b + 1, bn_traces := (bn_traces b)[n := tr\<lparr>tr_engine_id := i\<rparr>],
           bn_engine := eng', bn_index := (case bn_index b i of None \<Rightarrow> (bn_index b)(i \<mapsto> n) | Some _ \<Rightarrow> bn_index b),
           bn_submitted := k + 1\<rparr>))"
  using assms
  by (simp add: submit_one_def bindS_def getS_def modifyS_def now_def onEngine_def Let_def update_trace_def cong: option.case_cong split: prod.splits sum.splits)

lemma follows_new:
  assumes "r = arriving eng prompt (co_gen_len opt) (co_ignore_eos opt) []" and "1 \<le> co_gen_len opt"
    and "heap s (base + i) = Some r" and "base + i \<in> queued s"
  shows "follows os opt base s i (new_RequestTrace\<lparr>tr_workload_index := int i, tr_submit_s := t, tr_engine_id := base + i\<rparr>)"
  using assms by (simp add: follows_def logged_def arriving_def new_Request_def new_RequestTrace_def num_output_tokens_def)

lemma work_arriving:
  "1 \<le> pl \<Longrightarrow> work_req (arriving eng (BuildPrompt seed k pl) gl ig []) = pl + gl"
  by (simp add: work_req_def arriving_def new_Request_def num_prompt_tokens_def num_output_tokens_def)

lemma submit_one_inv:
  assumes inv: "bench_inv cu mc eopts opt base b" and rng: "in_ranges opt" and lt: "bn_submitted b < co_requests opt"
  shows "outcome (sound cu mc eopts opt) (submit_one env opt epoch b)
    (\<lambda>_ b'. bench_inv cu mc eopts opt base b' \<and> potential opt b' = potential opt b \<and> bn_finished b' = bn_finished b)"
proof -
  define N where "N = nat (bn_submitted b)"
  let ?eng = "bn_engine b" and ?s = "eng_scheduler (bn_engine b)" and ?os = "scheduler_options eopts mc"
  have I: "engine_inv cu mc eopts ?eng" "eo_admission_policy eopts = kReserveFull" "length (bn_traces b) = nat (co_requests opt)"
    "0 \<le> bn_submitted b" "eng_next_id ?eng = base + N" "queued ?s \<subseteq> {base..<base + N}"
    "bn_finished b = int (card {i. i < N \<and> base + i \<notin> queued ?s})"
    and ix: "bn_index b p = (if base \<le> p \<and> p < base + N then Some (p - base) else None)"
    and fo: "i < N \<Longrightarrow> follows ?os opt base ?s i (bn_traces b ! i)"
    and dr: "drop N (bn_traces b) = replicate (nat (co_requests opt) - N) new_RequestTrace" for p i
    using inv by (simp_all add: bench_inv_def Let_def N_def)
  have R: "1 \<le> co_gen_len opt" "1 \<le> co_prompt_len opt" using rng by (simp_all add: in_ranges_def)
  have NR: "N < nat (co_requests opt)" "bn_submitted b = int N" using lt I(4) by (simp_all add: N_def)
  let ?p = "BuildPrompt (co_seed opt) (word_of_int (bn_submitted b)) (co_prompt_len opt)"
  let ?r = "arriving ?eng ?p (co_gen_len opt) (co_ignore_eos opt) []"
  obtain o1 eng' where a: "AddRequest ?p (co_gen_len opt) (co_ignore_eos opt) [] ?eng = (o1, eng')" by fastforce
  note eq = submit_one_eq[of b env opt epoch, unfolded a Let_def prod.case]
  have pre: "bn_submitted b < int (length (bn_traces b))" using lt I(3,4) by simp
  from add_outcome[OF a] show ?thesis
  proof (elim disjE exE conjE)
    fix e
    assume e: "o1 = Inl e" "\<not> (in_vocab ?eng ?p \<and> ValidateRequest ?s ?r = Inr ())"
    have "\<not> sound cu mc eopts opt"
      using valid_arrival[OF I(1,2) _ R(2) order_refl R(1) order_refl] e(2) by blast
    then show ?thesis using eq[OF pre I(4)] e(1) by simp
  next
    assume o: "o1 = Inr (eng_next_id ?eng)" "eng' = accepted ?eng ?r"
    note ef = accepted_effect(1)[OF I(1)] accepted_effect(2-)[OF I(1), where r = ?r, folded o(2)]
    define tr where "tr = new_RequestTrace\<lparr>tr_workload_index := int N,
        tr_submit_s := SecondsSince epoch (be_clock env (bn_clock b)), tr_engine_id := base + N\<rparr>"
    have new: "bn_traces b ! N = new_RequestTrace"
    proof -
      have "bn_traces b ! N = drop N (bn_traces b) ! 0" using NR(1) I(3) by simp
      also have "\<dots> = new_RequestTrace" unfolding dr using NR(1) by simp
      finally show ?thesis .
    qed
    have in_none: "bn_index b (base + N) = None" unfolding ix by simp
    have res: "submit_one env opt epoch b =
        (Inr (), b\<lparr>bn_clock := bn_clock b + 1, bn_traces := (bn_traces b)[N := tr], bn_engine := eng',
           bn_index := (bn_index b)(base + N \<mapsto> N), bn_submitted := bn_submitted b + 1\<rparr>)"
      unfolding eq[OF pre I(4)] o(1) I(5) using in_none new by (simp add: tr_def NR(2))
    have d': "drop (Suc N) ((bn_traces b)[N := tr]) = replicate (nat (co_requests opt) - Suc N) new_RequestTrace"
    proof -
      have "drop (Suc N) ((bn_traces b)[N := tr]) = drop (Suc N) (bn_traces b)" by simp
      also have "\<dots> = tl (drop N (bn_traces b))" by (simp add: tl_drop drop_Suc)
      finally show ?thesis unfolding dr by (simp add: tl_replicate)
    qed
    have engine: "engine_inv cu mc eopts eng'"
      using AddRequest_inv[OF I(1), of ?p "co_gen_len opt" "co_ignore_eos opt" "[]"] a by simp
    have f': "follows ?os opt base (eng_scheduler eng') i ((bn_traces b)[N := tr] ! i)" if "i < Suc N" for i
    proof (cases "i = N")
      case True
      have "follows ?os opt base (eng_scheduler eng') N tr" unfolding tr_def
        by (rule follows_new[OF refl R(1)]) (use ef(2,3) I(5) in auto)
      then show ?thesis using True NR(1) I(3) by simp
    next
      case False
      then show ?thesis using fo[of i] that ef(6)[of "base + i"] I(5) by (auto intro: follows_untouched)
    qed
    have same: "{i. i < Suc N \<and> base + i \<notin> queued (eng_scheduler eng')} = {i. i < N \<and> base + i \<notin> queued ?s}"
      unfolding ef(2) I(5) by (auto simp: less_Suc_eq)
    have nx: "eng_next_id eng' = base + Suc N" "queued (eng_scheduler eng') \<subseteq> {base..<base + Suc N}"
      using ef(2,7) I(5,6) by auto
    have nat_eq: "nat (bn_submitted b + 1) = Suc N" using NR(2) by simp
    have ix': "((bn_index b)(base + N \<mapsto> N)) p = (if base \<le> p \<and> p < base + Suc N then Some (p - base) else None)" for p
      using ix[of p] by auto
    have b': "bench_inv cu mc eopts opt base (b\<lparr>bn_clock := bn_clock b + 1, bn_traces := (bn_traces b)[N := tr], bn_engine := eng',
           bn_index := (bn_index b)(base + N \<mapsto> N), bn_submitted := bn_submitted b + 1\<rparr>)"
      unfolding bench_inv_def Let_def
      using engine I(2,3,4,7) lt f' d' nx ix' by (simp add: nat_eq same del: fun_upd_apply)
    have w: "work (eng_scheduler eng') = work ?s + (co_prompt_len opt + co_gen_len opt)"
      unfolding ef(5) using work_arriving[OF R(2)] by simp
    show ?thesis unfolding res using b' w by (simp add: potential_def algebra_simps)
  qed
qed

lemma submit_loop_inv:
  assumes "bench_inv cu mc eopts opt base b" and "in_ranges opt"
  shows "outcome (sound cu mc eopts opt) (submit_loop env opt epoch b)
    (\<lambda>_ b'. bench_inv cu mc eopts opt base b' \<and> potential opt b' = potential opt b \<and> bn_finished b' = bn_finished b \<and>
       \<not> (bn_submitted b' < co_requests opt \<and> HasCapacity (bn_engine b')))"
  using assms
proof (induction env opt epoch b rule: submit_loop.induct)
  case (1 env opt epoch b)
  show ?case
  proof (cases "bn_submitted b < co_requests opt \<and> HasCapacity (bn_engine b)")
    case True
    note one = submit_one_inv[OF "1.prems", where env = env and epoch = epoch]
    show ?thesis
    proof (cases "submit_one env opt epoch b")
      case (Pair o1 b1)
      show ?thesis
      proof (cases o1)
        case (Inl e)
        then show ?thesis using one True Pair by (simp add: submit_loop.simps[of env opt epoch b])
      next
        case (Inr u)
        have "bench_inv cu mc eopts opt base b1" "potential opt b1 = potential opt b" "bn_finished b1 = bn_finished b"
          using one True Pair Inr by simp_all
        then show ?thesis using "1.IH"[OF True Pair[symmetric] Inr] "1.prems"(2) True Pair Inr
          by (simp add: submit_loop.simps[of env opt epoch b])
      qed
    qed
  next
    case False
    have "submit_loop env opt epoch b = (Inr (), b)" by (subst submit_loop.simps) (rule if_not_P[OF False])
    then show ?thesis using "1.prems"(1) False by simp
  qed
qed

section \<open>An iteration\<close>

lemma idle_queued:
  assumes "idle b" shows "queued (eng_scheduler (bn_engine b)) = {}"
proof -
  let ?s = "eng_scheduler (bn_engine b)"
  have "int (length (waiting ?s)) + (int (length (prefill_queue ?s)) + int (length (running ?s))) = 0"
    using assms by (simp add: idle_def Stats_def num_waiting_def num_running_def Let_def)
  then have "length (waiting ?s) = 0" "length (prefill_queue ?s) = 0" "length (running ?s) = 0" by linarith+
  then show ?thesis by (simp add: queued_def)
qed

lemma busy:
  assumes inv: "bench_inv cu mc eopts opt base b" and "bn_finished b < co_requests opt"
    and full: "\<not> (bn_submitted b < co_requests opt \<and> HasCapacity (bn_engine b))"
  shows "queued (eng_scheduler (bn_engine b)) \<noteq> {}"
proof
  assume q: "queued (eng_scheduler (bn_engine b)) = {}"
  then have "HasCapacity (bn_engine b)" by (simp add: HasCapacity_def num_waiting_def kMaxWaitingRequests_def queued_def)
  then have "bn_submitted b = co_requests opt" using full inv by (simp add: bench_inv_def Let_def)
  moreover have "bn_finished b = int (card {i. i < nat (bn_submitted b)})" "0 \<le> bn_submitted b"
    using inv q by (simp_all add: bench_inv_def Let_def)
  ultimately show False using assms(2) by simp
qed

text \<open>The part of an iteration after the submissions.\<close>

lemma pump_step_eq:
  assumes "submit_loop env opt epoch b = (Inr (), b1)"
  shows "pump_step cu env opt epoch b =
    (let c = bn_clock b1; t0 = be_clock env c; t1 = be_clock env (c + 1) in
     case EngineStep cu (bn_engine b1) of
       (Inl e, eng') \<Rightarrow> (Inl (EngineThrew e), b1\<lparr>bn_clock := c + 1, bn_engine := eng'\<rparr>)
     | (Inr results, eng') \<Rightarrow>
         bindS (forS (record_result (SecondsSince epoch t1)) results)
           (\<lambda>_. checkS (\<lambda>b. \<not> (results = [] \<and> bn_finished b < co_requests opt \<and> idle b))
              (Fatal ''engine idle with unfinished requests (lost emission)''))
           (b1\<lparr>bn_engine := eng', bn_clock := c + 2, bn_step_ms := bn_step_ms b1 @ [milliseconds t0 t1]\<rparr>))"
  using assms
  by (simp add: pump_step_def bindS_def[of "submit_loop env opt epoch"] bindS_def[of "now env"] bindS_def[of "onEngine m" for m]
      bindS_def[of "modifyS m" for m] now_def onEngine_def modifyS_def Let_def split: prod.splits sum.splits)

lemma pump_step_inv:
  assumes inv: "bench_inv cu mc eopts opt base b" and rng: "in_ranges opt" and lt: "bn_finished b < co_requests opt"
  shows "outcome (sound cu mc eopts opt) (pump_step cu env opt epoch b)
    (\<lambda>_ b'. bench_inv cu mc eopts opt base b' \<and> potential opt b' < potential opt b)"
proof -
  obtain o1 b1 where sl: "submit_loop env opt epoch b = (o1, b1)" by fastforce
  note sub = submit_loop_inv[OF inv rng, of env epoch, unfolded sl]
  show ?thesis
  proof (cases o1)
    case (Inl e)
    then show ?thesis using sub sl by (simp add: pump_step_def bindS_def)
  next
    case (Inr u)
    have i1: "bench_inv cu mc eopts opt base b1" and pot: "potential opt b1 = potential opt b" and fin: "bn_finished b1 = bn_finished b"
      and full: "\<not> (bn_submitted b1 < co_requests opt \<and> HasCapacity (bn_engine b1))" using sub Inr by simp_all
    define N where "N = nat (bn_submitted b1)"
    let ?eng = "bn_engine b1" and ?s = "eng_scheduler (bn_engine b1)" and ?os = "scheduler_options eopts mc"
    have I: "engine_inv cu mc eopts ?eng" "eo_admission_policy eopts = kReserveFull" "length (bn_traces b1) = nat (co_requests opt)"
      "0 \<le> bn_submitted b1" "bn_submitted b1 \<le> co_requests opt" "eng_next_id ?eng = base + N" "queued ?s \<subseteq> {base..<base + N}"
      "bn_finished b1 = int (card {i. i < N \<and> base + i \<notin> queued ?s})"
      and ix: "bn_index b1 p = (if base \<le> p \<and> p < base + N then Some (p - base) else None)"
      and fo: "i < N \<Longrightarrow> follows ?os opt base ?s i (bn_traces b1 ! i)"
      and dr: "drop N (bn_traces b1) = replicate (nat (co_requests opt) - N) new_RequestTrace" for p i
      using i1 by (simp_all add: bench_inv_def Let_def N_def)
    have q: "queued ?s \<noteq> {}" by (rule busy[OF i1 _ full]) (use fin lt in simp)
    have sl': "submit_loop env opt epoch b = (Inr (), b1)" using sl Inr by simp
    obtain o2 eng' where e: "EngineStep cu ?eng = (o2, eng')" by fastforce
    note eq = pump_step_eq[OF sl', of cu, unfolded e Let_def prod.case]
    show ?thesis
    proof (cases o2)
      case (Inl err)
      then have "\<not> sound cu mc eopts opt" using step_returns[OF I(1), of opt] e by auto
      then show ?thesis using eq Inl by simp
    next
      case (Inr ems)
      note e = e[unfolded Inr]
      note ef = step_effect[OF I(1,2) e q]
      have opts: "options ?s = ?os" using I(1) reachable_inv by (auto simp: engine_inv_def)
      have dist: "distinct (map request_id ems)" using step_reports[OF I(1) e] by simp
      let ?t1 = "be_clock env (bn_clock b1 + 1)"
      let ?b2 = "b1\<lparr>bn_engine := eng', bn_clock := bn_clock b1 + 2,
                   bn_step_ms := bn_step_ms b1 @ [milliseconds (be_clock env (bn_clock b1)) ?t1]\<rparr>"
      have "\<exists>T. forS (record_result (SecondsSince epoch ?t1)) ems ?b2 =
          (Inr (), ?b2\<lparr>bn_traces := T, bn_finished := bn_finished ?b2 + int (length (filter finished ems))\<rparr>) \<and>
        length T = length (bn_traces ?b2) \<and> (\<forall>i<N. follows ?os opt base (eng_scheduler eng') i (T ! i)) \<and> drop N T = drop N (bn_traces ?b2)"
      proof (rule record_all[OF opts I(7) ef(1) dist])
        fix i
        assume i: "i < N"
        show "follows ?os opt base (if base + i \<in> request_id ` set ems then ?s else eng_scheduler eng') i (bn_traces ?b2 ! i)"
          using fo[OF i] follows_untouched[OF fo[OF i]] ef(2)[of "base + i"] by simp
      qed (use I(3,5) ix in \<open>auto simp: N_def\<close>)
      then obtain T where T: "forS (record_result (SecondsSince epoch ?t1)) ems ?b2 =
          (Inr (), ?b2\<lparr>bn_traces := T, bn_finished := bn_finished b1 + int (length (filter finished ems))\<rparr>)"
        "length T = length (bn_traces b1)" "\<forall>i<N. follows ?os opt base (eng_scheduler eng') i (T ! i)" "drop N T = drop N (bn_traces b1)"
        by auto
      let ?b3 = "?b2\<lparr>bn_traces := T, bn_finished := bn_finished b1 + int (length (filter finished ems))\<rparr>"
      note fc = finished_card[OF I(7) dist ef(1,2)]
      have not_idle: "\<not> (ems = [] \<and> bn_finished ?b3 < co_requests opt \<and> idle ?b3)"
      proof
        assume h: "ems = [] \<and> bn_finished ?b3 < co_requests opt \<and> idle ?b3"
        then have "idle ?b3" by (elim conjE)
        from idle_queued[OF this] have "queued (eng_scheduler eng') = {}" by simp
        moreover have "untouched ?s (eng_scheduler eng') p" for p using ef(2)[of p] h by simp
        ultimately show False using q by (auto simp: untouched_def)
      qed
      have res: "pump_step cu env opt epoch b = (Inr (), ?b3)"
        unfolding eq Inr sum.case bindS_def T(1) prod.case checkS_def using not_idle by simp
      have engine: "engine_inv cu mc eopts eng'" using EngineStep_inv[OF I(1)] e by simp
      have b3: "bench_inv cu mc eopts opt base ?b3"
        unfolding bench_inv_def Let_def
        using engine I(2,3,4,5,6,8) ix T(2-4) dr ef(4) fc I(7) by (simp add: N_def[symmetric])
      show ?thesis unfolding res using b3 ef(3) pot by (simp add: potential_def)
    qed
  qed
qed

end
