(* ===== verification/Bench_Theorems.thy ===== *)
theory Bench_Theorems
  imports Bench_Loop
begin

text \<open>
  Whole runs of the benchmark driver: both loops return, the driver's own consistency checks never
  fire, every request is accounted for, and with a working device the exit status is determined by
  the clock and the report file alone.
\<close>

section \<open>The measured loop returns\<close>

lemma outcome_mono: "outcome live out Q \<Longrightarrow> (\<And>x b. Q x b \<Longrightarrow> R x b) \<Longrightarrow> outcome live out R"
  by (auto simp: outcome_def split: sum.splits)

lemma work_nonneg:
  assumes "sched_inv s" shows "0 \<le> work s"
proof -
  have "int (length (waiting s @ prefill_queue s @ running s)) \<le> work s"
    unfolding work_def by (rule work_ge[OF assms]) (auto simp: queued_def)
  then show ?thesis by simp
qed

lemma potential_nonneg:
  assumes "bench_inv cu mc eopts opt base b" and "in_ranges opt"
  shows "0 \<le> potential opt b"
proof -
  have "sched_inv (eng_scheduler (bn_engine b))" "bn_submitted b \<le> co_requests opt"
    using assms(1) reachable_sched_inv by (auto simp: bench_inv_def engine_inv_def Let_def)
  moreover have "0 \<le> co_prompt_len opt + co_gen_len opt" using assms(2) by (simp add: in_ranges_def)
  ultimately show ?thesis using work_nonneg by (simp add: potential_def)
qed

lemma pump_loop_returns:
  assumes "bench_inv cu mc eopts opt base b" and rng: "in_ranges opt"
  shows "\<exists>out. pump_loop cu env opt epoch b = Some out \<and>
    outcome (sound cu mc eopts opt) out (\<lambda>_ b'. bench_inv cu mc eopts opt base b' \<and> \<not> bn_finished b' < co_requests opt)"
  using assms(1)
proof (induction "nat (potential opt b)" arbitrary: b rule: less_induct)
  case less
  show ?case
  proof (cases "bn_finished b < co_requests opt")
    case True
    obtain o1 b1 where p: "pump_step cu env opt epoch b = (o1, b1)" by fastforce
    note st = pump_step_inv[OF less.prems rng True, where env = env and epoch = epoch, unfolded p]
    show ?thesis
    proof (cases o1)
      case (Inl e)
      then show ?thesis using st p True by (simp add: pump_loop.simps[of cu env opt epoch b])
    next
      case (Inr u)
      then have i: "bench_inv cu mc eopts opt base b1" "potential opt b1 < potential opt b" using st by simp_all
      have "nat (potential opt b1) < nat (potential opt b)" using i potential_nonneg[OF i(1) rng] by simp
      from less.hyps[OF this i(1)] show ?thesis using p True Inr by (simp add: pump_loop.simps[of cu env opt epoch b])
    qed
  next
    case False
    then show ?thesis using less.prems by (simp add: pump_loop.simps[of cu env opt epoch b])
  qed
qed

section \<open>The warmup\<close>

definition warm_inv :: "'d Cuda \<Rightarrow> ModelConfig \<Rightarrow> EngineOptions \<Rightarrow> CliOptions \<Rightarrow> request_id \<Rightarrow> bool \<times> int \<Rightarrow> 'd Bench \<Rightarrow> bool" where
  "warm_inv cu mc eopts opt w dn b \<longleftrightarrow>
     (let eng = bn_engine b; s = eng_scheduler eng in
      engine_inv cu mc eopts eng \<and> eo_admission_policy eopts = kReserveFull \<and> queued s \<subseteq> {w} \<and> fst dn = (w \<notin> queued s) \<and>
      (\<exists>r. heap s w = Some r \<and> max_new_tokens r = warmup_gen opt \<and> ignore_eos r \<and> forced_tokens r = [] \<and>
         snd dn = num_output_tokens r \<and> (if fst dn then snd dn = warmup_gen opt else snd dn < warmup_gen opt)))"

lemma warm_token:
  assumes rep: "reports s s' res" and w: "request_id res = w" and r: "heap s w = Some r" "ignore_eos r" "forced_tokens r = []"
    "num_output_tokens r < max_new_tokens r"
  shows "\<exists>r'. heap s' w = Some r' \<and> max_new_tokens r' = max_new_tokens r \<and> ignore_eos r' \<and> forced_tokens r' = [] \<and>
    num_output_tokens r' = num_output_tokens r + 1 \<and> (finished res \<longleftrightarrow> num_output_tokens r + 1 = max_new_tokens r) \<and>
    (finished res \<longleftrightarrow> w \<notin> queued s') \<and> result_reason res \<noteq> kAborted"
proof -
  obtain r0 r' where x: "heap s w = Some r0" "heap s' w = Some r'" "core r' = core (with_token r0 (token res))"
    "finished res = (w \<notin> queued s')" "result_reason res = token_reason (options s) r0 (token res)"
    "finished res \<longleftrightarrow> result_reason res \<noteq> kNone"
    using rep unfolding reports_def Let_def w by (elim exE conjE) (rule that)
  have "r0 = r" using x(1) r(1) by simp
  moreover have "num_output_tokens r' = num_output_tokens r + 1" using x(3) \<open>r0 = r\<close>
    by (simp add: core_def with_token_def num_output_tokens_def)
  moreover have "token_reason (options s) r (token res) = (if num_output_tokens r + 1 = max_new_tokens r then kLength else kNone)"
    using r(2,4) by (simp add: token_reason_def stop_reason_def with_token_def num_output_tokens_def)
  ultimately show ?thesis
    using x r by (auto simp: core_def with_token_def split: if_splits)
qed

lemma warmup_step_inv:
  assumes inv: "warm_inv cu mc eopts opt w dn b" and nd: "\<not> fst dn"
  shows "outcome (sound cu mc eopts opt) (warmup_step cu w dn b)
    (\<lambda>dn' b'. warm_inv cu mc eopts opt w dn' b' \<and>
       work (eng_scheduler (bn_engine b')) < work (eng_scheduler (bn_engine b)))"
proof -
  let ?eng = "bn_engine b" and ?s = "eng_scheduler (bn_engine b)"
  obtain d n where dn: "dn = (d, n)" by (cases dn)
  obtain r where I: "engine_inv cu mc eopts ?eng" "eo_admission_policy eopts = kReserveFull" "queued ?s \<subseteq> {w}" "w \<in> queued ?s"
    and r: "heap ?s w = Some r" "max_new_tokens r = warmup_gen opt" "ignore_eos r" "forced_tokens r = []" "n = num_output_tokens r"
      "n < warmup_gen opt" using inv nd by (auto simp: warm_inv_def Let_def dn)
  obtain o1 eng' where e: "EngineStep cu ?eng = (o1, eng')" by fastforce
  show ?thesis
  proof (cases o1)
    case (Inl err)
    then have "\<not> sound cu mc eopts opt" using step_returns[OF I(1), of opt] e by auto
    then show ?thesis using e Inl by (simp add: warmup_step_def bindS_def onEngine_def)
  next
    case (Inr ems)
    note e = e[unfolded Inr]
    have ne: "queued ?s \<noteq> {}" using I(4) by blast
    note ef = step_effect[OF I(1,2) e ne]
    have dist: "distinct (map request_id ems)" using step_reports[OF I(1) e] by simp
    have ids: "request_id res = w" if "res \<in> set ems" for res
      using ef(1) that I(3) by (auto simp: list_all_iff reports_def Let_def)
    have engine: "engine_inv cu mc eopts eng'" using EngineStep_inv[OF I(1)] e by simp
    let ?b = "b\<lparr>bn_engine := eng'\<rparr>"
    show ?thesis
    proof (cases ems)
      case Nil
      have u: "untouched ?s (eng_scheduler eng') p" for p using ef(2)[of p] Nil by simp
      then have q: "queued (eng_scheduler eng') = queued ?s" by (auto simp: untouched_def)
      have "\<not> idle ?b" using idle_queued[of ?b] q ne by auto
      then have res: "warmup_step cu w dn b = (Inr dn, ?b)"
        using e Nil by (simp add: warmup_step_def bindS_def onEngine_def liftB_def checkS_def returnS_def)
      obtain r' where r': "heap (eng_scheduler eng') w = Some r'" "core r' = core r" using u[of w] r(1) by (auto simp: untouched_def)
      have "max_new_tokens r' = max_new_tokens r" "ignore_eos r' = ignore_eos r" "forced_tokens r' = forced_tokens r"
        "num_output_tokens r' = num_output_tokens r" using r'(2) by (simp_all add: core_def num_output_tokens_def)
      then have "warm_inv cu mc eopts opt w dn ?b" using engine I q r r'(1) nd by (simp add: warm_inv_def Let_def dn)
      then show ?thesis unfolding res using ef(3) by simp
    next
      case (Cons res rest)
      have rid: "request_id res = w" using ids[of res] Cons by simp
      have "rest = []"
      proof (cases rest)
        case (Cons x xs)
        then have "request_id x = w" using ids[of x] \<open>ems = res # rest\<close> by simp
        then show ?thesis using dist rid \<open>ems = res # rest\<close> Cons by simp
      qed
      then have one: "ems = [res]" using Cons by simp
      have rep: "reports ?s (eng_scheduler eng') res" using ef(1) one by simp
      have lt: "num_output_tokens r < max_new_tokens r" using r by simp
      obtain r' where r': "heap (eng_scheduler eng') w = Some r'" "max_new_tokens r' = max_new_tokens r" "ignore_eos r'"
        "forced_tokens r' = []" "num_output_tokens r' = num_output_tokens r + 1"
        "finished res \<longleftrightarrow> num_output_tokens r + 1 = max_new_tokens r" "finished res \<longleftrightarrow> w \<notin> queued (eng_scheduler eng')"
        "result_reason res \<noteq> kAborted" using warm_token[OF rep rid r(1,3,4) lt] by blast
      have d: "\<not> d" using nd dn by simp
      have res: "warmup_step cu w dn b = (Inr (finished res, n + 1), ?b)"
        using e one rid r'(8) d by (simp add: warmup_step_def bindS_def onEngine_def liftB_def checkS_def returnS_def warm_result_def dn)
      have "p \<notin> queued (eng_scheduler eng')" if "p \<noteq> w" for p
        using ef(2)[of p] one rid that I(3) by (auto simp: untouched_def)
      then have "queued (eng_scheduler eng') \<subseteq> {w}" by blast
      then have "warm_inv cu mc eopts opt w (finished res, n + 1) ?b"
        using engine I(2) r r' by (simp add: warm_inv_def Let_def)
      then show ?thesis unfolding res using ef(3) by simp
    qed
  qed
qed

lemma warmup_loop_returns:
  assumes "warm_inv cu mc eopts opt w dn b"
  shows "\<exists>out. warmup_loop cu w dn b = Some out \<and>
    outcome (sound cu mc eopts opt) out (\<lambda>n b'. warm_inv cu mc eopts opt w (True, n) b')"
  using assms
proof (induction "nat (work (eng_scheduler (bn_engine b)))" arbitrary: b dn rule: less_induct)
  case less
  show ?case
  proof (cases "fst dn")
    case True
    then have "warmup_loop cu w dn b = Some (Inr (snd dn), b)" by (simp add: warmup_loop.simps[of cu w dn b])
    moreover have "(True, snd dn) = dn" using True by (cases dn) simp
    ultimately show ?thesis using less.prems by simp
  next
    case False
    obtain o1 b1 where p: "warmup_step cu w dn b = (o1, b1)" by fastforce
    note st = warmup_step_inv[OF less.prems False, unfolded p]
    show ?thesis
    proof (cases o1)
      case (Inl e)
      then show ?thesis using st p False by (simp add: warmup_loop.simps[of cu w dn b])
    next
      case (Inr dn')
      then have i: "warm_inv cu mc eopts opt w dn' b1"
        "work (eng_scheduler (bn_engine b1)) < work (eng_scheduler (bn_engine b))" using st by simp_all
      have "sched_inv (eng_scheduler (bn_engine b1))"
        using i(1) reachable_sched_inv by (auto simp: warm_inv_def engine_inv_def Let_def)
      then have "nat (work (eng_scheduler (bn_engine b1))) < nat (work (eng_scheduler (bn_engine b)))"
        using i(2) work_nonneg by fastforce
      from less.hyps[OF this i(1)] show ?thesis using p False Inr by (simp add: warmup_loop.simps[of cu w dn b])
    qed
  qed
qed

lemma warmup_returns:
  assumes inv: "engine_inv cu mc (engine_options opt) (bn_engine b)" and idle: "queued (eng_scheduler (bn_engine b)) = {}"
    and rng: "in_ranges opt"
  shows "\<exists>out. warmup cu opt b = Some out \<and>
    outcome (sound cu mc (engine_options opt) opt) out
      (\<lambda>n b'. n = warmup_gen opt \<and> engine_inv cu mc (engine_options opt) (bn_engine b') \<and> queued (eng_scheduler (bn_engine b')) = {})"
proof -
  let ?o = "engine_options opt" and ?eng = "bn_engine b"
  let ?p = "BuildPrompt (co_seed opt) (word_of_int (co_requests opt)) (warmup_prompt opt)"
  have pol: "eo_admission_policy ?o = kReserveFull" by (simp add: engine_options_def default_EngineOptions_def Let_def)
  have len: "co_prompt_len opt + co_gen_len opt \<le> eo_max_seq_len ?o" by (simp add: engine_options_def Let_def)
  have g: "1 \<le> warmup_gen opt" "warmup_gen opt \<le> co_gen_len opt" using rng by (simp_all add: warmup_gen_def in_ranges_def)
  have wp: "1 \<le> warmup_prompt opt" "warmup_prompt opt \<le> co_prompt_len opt"
    using rng len g by (simp_all add: warmup_prompt_def in_ranges_def)
  obtain o1 eng' where a: "AddRequest ?p (warmup_gen opt) True [] ?eng = (o1, eng')" by fastforce
  let ?r = "arriving ?eng ?p (warmup_gen opt) True []" and ?w = "eng_next_id ?eng"
  from add_outcome[OF a] show ?thesis
  proof (elim disjE exE conjE)
    fix e
    assume e: "o1 = Inl e" "\<not> (in_vocab ?eng ?p \<and> ValidateRequest (eng_scheduler ?eng) ?r = Inr ())"
    have "\<not> sound cu mc ?o opt" using valid_arrival[OF inv pol _ wp g] e(2) by blast
    then show ?thesis using a e(1) by (simp add: warmup_def onEngine_def)
  next
    assume o: "o1 = Inr ?w" "eng' = accepted ?eng ?r"
    note ef = accepted_effect(2-)[OF inv, where r = ?r, folded o(2)]
    have engine: "engine_inv cu mc ?o eng'" using AddRequest_inv[OF inv, of ?p "warmup_gen opt" True "[]"] a by simp
    have "warm_inv cu mc ?o opt ?w (False, 0) (b\<lparr>bn_engine := eng'\<rparr>)"
      using engine pol ef(1,2) idle g(1) by (simp add: warm_inv_def Let_def arriving_def new_Request_def num_output_tokens_def)
    from warmup_loop_returns[OF this] obtain out where
      out: "warmup_loop cu ?w (False, 0) (b\<lparr>bn_engine := eng'\<rparr>) = Some out"
        "outcome (sound cu mc ?o opt) out (\<lambda>n b'. warm_inv cu mc ?o opt ?w (True, n) b')" by blast
    have "warmup cu opt b = Some out" using out(1) by (simp add: warmup_def onEngine_def a o(1))
    moreover have "outcome (sound cu mc ?o opt) out
      (\<lambda>n b'. n = warmup_gen opt \<and> engine_inv cu mc ?o (bn_engine b') \<and> queued (eng_scheduler (bn_engine b')) = {})"
      by (rule outcome_mono[OF out(2)]) (auto simp: warm_inv_def Let_def)
    ultimately show ?thesis by blast
  qed
qed

section \<open>Metrics, report and gate\<close>

text \<open>The trace of a request that was served to its end.\<close>

definition served :: "CliOptions \<Rightarrow> ModelConfig \<Rightarrow> RequestTrace \<Rightarrow> bool" where
  "served opt mc tr \<longleftrightarrow>
     tr_finished tr \<and> length (tr_token_times_s tr) = length (tr_token_ids tr) \<and>
     (tr_finish_reason tr = ''length'' \<and> int (length (tr_token_ids tr)) = co_gen_len opt \<or>
      tr_finish_reason tr = ''eos'' \<and> \<not> co_ignore_eos opt \<and> tr_token_ids tr \<noteq> [] \<and>
        int (length (tr_token_ids tr)) \<le> co_gen_len opt \<and> last (tr_token_ids tr) \<in> set (eos_ids mc))"

text \<open>How a run in which every request was served ends.\<close>

definition exit_status :: "BenchEnv \<Rightarrow> CliOptions \<Rightarrow> RequestTrace list \<Rightarrow> stop + int" where
  "exit_status env opt traces =
     (if \<not> dbl (the (sa_max_last (collect traces)) - the (sa_min_submit (collect traces))) > 0
      then Inl (Fatal ''non-positive wall window; timestamps are inconsistent'')
      else if co_json_path opt \<noteq> [] \<and> \<not> be_can_open env (co_json_path opt)
      then Inl (Fatal (''cannot open --json path for writing: '' @ co_json_path opt))
      else if co_json_path opt \<noteq> [] \<and> \<not> be_can_write env (co_json_path opt)
      then Inl (Fatal (''failed writing --json file: '' @ co_json_path opt))
      else Inr 0)"

lemma with_tokens_foldl:
  "sa_with_tokens (foldl add_trace sa trs) =
     sa_with_tokens sa + int (length (filter (\<lambda>tr. tr_token_times_s tr \<noteq> []) trs))"
  by (induction trs arbitrary: sa) (simp_all add: add_trace_def Let_def)

lemma with_tokens_complete:
  assumes "trs \<noteq> []" and "list_all (served opt mc) trs" and "in_ranges opt"
  shows "sa_with_tokens (collect trs) \<noteq> 0"
proof -
  have "tr_token_times_s tr \<noteq> []" if "served opt mc tr" for tr
    using that assms(3) by (auto simp: served_def in_ranges_def)
  then have "filter (\<lambda>tr. tr_token_times_s tr \<noteq> []) trs = trs" using assms(2) by (auto simp: list_all_iff intro!: filter_True)
  then show ?thesis using assms(1) by (simp add: collect_def with_tokens_foldl)
qed

lemma gate_complete:
  assumes "list_all (served opt mc) (bn_traces b)"
  shows "gate opt b = 0"
proof -
  have "forced_length_ok opt tr" if "served opt mc tr" "co_ignore_eos opt" for tr
    using that by (auto simp: served_def forced_length_ok_def)
  then have "co_ignore_eos opt \<Longrightarrow> filter (\<lambda>tr. \<not> forced_length_ok opt tr) (bn_traces b) = []"
    using assms by (auto simp: list_all_iff filter_empty_conv)
  then show ?thesis by (simp add: gate_def)
qed

lemma finish_run_complete:
  assumes "bn_traces b \<noteq> []" and c: "list_all (served opt mc) (bn_traces b)" and "in_ranges opt"
  shows "\<exists>b'. finish_run env opt algo_report n b = (exit_status env opt (bn_traces b), b') \<and> bn_traces b' = bn_traces b \<and>
    (co_json_path opt \<noteq> [] \<and> exit_status env opt (bn_traces b) = Inr 0 \<longrightarrow> bn_report b' \<noteq> None)"
proof -
  have w: "sa_with_tokens (collect (bn_traces b)) \<noteq> 0" by (rule with_tokens_complete[OF assms])
  have g: "gate opt (b\<lparr>bn_report := x\<rparr>) = 0" "gate opt b = 0" for x using c by (auto intro: gate_complete)
  show ?thesis
    using w g by (auto simp: finish_run_def bindS_def getS_def liftB_def Summarize_def assertE_def write_report_def checkS_def
        modifyS_def returnS_def exit_status_def Let_def)
qed

lemma traces_complete:
  assumes inv: "bench_inv cu mc eopts opt base b" and fin: "\<not> bn_finished b < co_requests opt" and rng: "in_ranges opt"
  shows "length (bn_traces b) = nat (co_requests opt) \<and> list_all (served opt mc) (bn_traces b)"
proof -
  define N where "N = nat (bn_submitted b)"
  let ?s = "eng_scheduler (bn_engine b)" and ?os = "scheduler_options eopts mc"
  have I: "length (bn_traces b) = nat (co_requests opt)" "bn_submitted b \<le> co_requests opt"
    "bn_finished b = int (card {i. i < N \<and> base + i \<notin> queued ?s})"
    and fo: "i < N \<Longrightarrow> follows ?os opt base ?s i (bn_traces b ! i)" for i
    using inv by (simp_all add: bench_inv_def Let_def N_def)
  have sub: "{i. i < N \<and> base + i \<notin> queued ?s} \<subseteq> {..<N}" by auto
  have "nat (co_requests opt) \<le> card {i. i < N \<and> base + i \<notin> queued ?s}" using fin I(3) by simp
  moreover have "card {i. i < N \<and> base + i \<notin> queued ?s} \<le> N" using card_mono[OF _ sub] by simp
  ultimately have N: "N = nat (co_requests opt)" and "card {i. i < N \<and> base + i \<notin> queued ?s} = card {..<N}"
    using I(2) by (simp_all add: N_def)
  then have all: "{i. i < N \<and> base + i \<notin> queued ?s} = {..<N}" using card_subset_eq[OF _ sub] by simp
  have "served opt mc (bn_traces b ! i)" if i: "i < N" for i
  proof -
    have "base + i \<notin> queued ?s" using all i by blast
    then obtain r where "max_new_tokens r = co_gen_len opt" "ignore_eos r = co_ignore_eos opt" "logged ?os False (bn_traces b ! i) r"
      using fo[OF i] by (auto simp: follows_def)
    then show ?thesis
      by (auto simp: served_def logged_def stopped_by_def num_output_tokens_def IsEosToken_def scheduler_options_def)
  qed
  then show ?thesis using I(1) N by (simp add: list_all_length)
qed

section \<open>Whole runs\<close>

lemma constructed:
  assumes "new_Engine ienv opts st = (Inr (eng, w), t)"
  shows "engine_inv (env_cuda ienv) (eng_config eng) opts eng" and "queued (eng_scheduler eng) = {}"
    and "vocab_size (eng_config eng) = 151936" and "\<exists>eos. eng_config eng = pinned_config eos"
proof -
  obtain mc n d0 ex where cfg: "FromModelDir (env_parse_config ienv) (env_read_text ienv) (model_dir opts) = Inr mc"
    and ex: "new_ModelExecutor (env_cuda ienv) mc n (MakeExecutorOptions opts) d0 = Inr ex" and as: "assemble opts mc ex = Inr eng"
    by (rule new_Engine_out[OF assms]) (rule that)
  have mc: "eng_config eng = mc" using as by (auto simp: assemble_def bindE_Inr_iff)
  show "engine_inv (env_cuda ienv) (eng_config eng) opts eng"
    unfolding mc by (rule assemble_inv[OF exec_reachable.built[OF ex] as])
  show "queued (eng_scheduler eng) = {}"
    using as by (auto simp: assemble_def bindE_Inr_iff new_Scheduler_def queued_def)
  obtain eos where "mc = pinned_config eos" using cfg FromJsonText_pinned by (fastforce simp: FromModelDir_def split: option.splits)
  then show "vocab_size (eng_config eng) = 151936" "\<exists>eos. eng_config eng = pinned_config eos"
    unfolding mc by (auto simp: pinned_config_def)
qed

lemma begin_measured_inv:
  assumes "engine_inv cu mc (engine_options opt) (bn_engine b)" and "queued (eng_scheduler (bn_engine b)) = {}" and "in_ranges opt"
  shows "bench_inv cu mc (engine_options opt) opt (eng_next_id (bn_engine b)) ((begin_measured opt b)\<lparr>bn_clock := c\<rparr>)"
  using assms by (auto simp: bench_inv_def begin_measured_def in_ranges_def engine_options_def default_EngineOptions_def Let_def)

lemma run_on_outcome:
  assumes inv: "engine_inv cu mc (engine_options opt) eng" and q: "queued (eng_scheduler eng) = {}" and rng: "in_ranges opt"
  shows "\<exists>r b. run_on cu env opt algo_report (new_Bench eng) = Some (r, b) \<and>
    ((\<exists>e. r = Inl (EngineThrew e)) \<and> \<not> sound cu mc (engine_options opt) opt \<or>
     r = exit_status env opt (bn_traces b) \<and> length (bn_traces b) = nat (co_requests opt) \<and> list_all (served opt mc) (bn_traces b) \<and>
     (co_json_path opt \<noteq> [] \<and> r = Inr 0 \<longrightarrow> bn_report b \<noteq> None))"
proof -
  let ?L = "sound cu mc (engine_options opt) opt"
  have e: "bn_engine (new_Bench eng) = eng" by (simp add: new_Bench_def)
  obtain o1 b1 where w: "warmup cu opt (new_Bench eng) = Some (o1, b1)"
    "outcome ?L (o1, b1) (\<lambda>n b'. n = warmup_gen opt \<and> engine_inv cu mc (engine_options opt) (bn_engine b') \<and> queued (eng_scheduler (bn_engine b')) = {})"
    using warmup_returns[of cu mc opt "new_Bench eng"] inv q rng unfolding e by auto
  show ?thesis
  proof (cases o1)
    case (Inl err)
    then show ?thesis using w by (auto simp: run_on_def)
  next
    case (Inr n)
    then have i1: "engine_inv cu mc (engine_options opt) (bn_engine b1)" "queued (eng_scheduler (bn_engine b1)) = {}" using w by simp_all
    note b0 = begin_measured_inv[OF i1 rng, of "bn_clock b1 + 1"]
    have m: "measure_all cu env opt b1 =
        pump_loop cu env opt (be_clock env (bn_clock b1)) ((begin_measured opt b1)\<lparr>bn_clock := bn_clock b1 + 1\<rparr>)"
      by (simp add: measure_all_def now_def begin_measured_def)
    obtain o2 b2 where p: "measure_all cu env opt b1 = Some (o2, b2)"
      "outcome ?L (o2, b2) (\<lambda>_ b'. bench_inv cu mc (engine_options opt) opt (eng_next_id (bn_engine b1)) b' \<and> \<not> bn_finished b' < co_requests opt)"
      using pump_loop_returns[OF b0 rng, of env "be_clock env (bn_clock b1)"] unfolding m by auto
    show ?thesis
    proof (cases o2)
      case (Inl err)
      then show ?thesis using w p \<open>o1 = Inr n\<close> by (auto simp: run_on_def)
    next
      case (Inr u)
      then have i2: "bench_inv cu mc (engine_options opt) opt (eng_next_id (bn_engine b1)) b2" "\<not> bn_finished b2 < co_requests opt"
        using p(2) by simp_all
      have c: "length (bn_traces b2) = nat (co_requests opt)" "list_all (served opt mc) (bn_traces b2)"
        using traces_complete[OF i2 rng] by auto
      then have "bn_traces b2 \<noteq> []" using rng by (auto simp: in_ranges_def)
      from finish_run_complete[OF this c(2) rng, of env algo_report n] c w p Inr \<open>o1 = Inr n\<close>
      show ?thesis by (force simp: run_on_def)
    qed
  qed
qed

text \<open>
  C36: A benchmark run accounts for every request. On a constructed engine, with the options in the
  ranges that the command line enforces, and whatever the device and the clock do, \<open>Run\<close> returns;
  unless a call of the engine threw, none of the driver's own consistency checks fired: each of the
  requested traces ends with the length reason and exactly the requested number of tokens, or, when
  stopping is allowed, with an end-of-sequence token, with one time for each token; and the exit
  status then depends only on the clock and on whether the report file can be written.
\<close>

theorem bench_accounts_for_every_request:
  assumes "in_ranges opt" and "new_Engine ienv (engine_options opt) st = (Inr (eng, w), t)"
  shows "\<exists>r b. run_on (env_cuda ienv) env opt algo_report (new_Bench eng) = Some (r, b) \<and>
    ((\<exists>e. r = Inl (EngineThrew e)) \<or>
     r = exit_status env opt (bn_traces b) \<and> length (bn_traces b) = nat (co_requests opt) \<and>
     list_all (served opt (eng_config eng)) (bn_traces b))"
proof -
  obtain r b where "run_on (env_cuda ienv) env opt algo_report (new_Bench eng) = Some (r, b)"
    "(\<exists>e. r = Inl (EngineThrew e)) \<or>
     r = exit_status env opt (bn_traces b) \<and> length (bn_traces b) = nat (co_requests opt) \<and> list_all (served opt (eng_config eng)) (bn_traces b)"
    using run_on_outcome[OF constructed(1,2)[OF assms(2)] assms(1), of env algo_report] by (elim exE conjE disjE) simp_all
  then show ?thesis by (intro exI conjI)
qed


section \<open>A concrete run\<close>

definition live_env :: "nat InitEnv" where
  "live_env = demo_env\<lparr>env_cuda := demo_live_cuda\<rparr>"

definition demo_bench_env :: BenchEnv where
  "demo_bench_env = \<lparr>be_clock = (\<lambda>k. 1000000 * int k), be_can_open = (\<lambda>_. True), be_can_write = (\<lambda>_. True)\<rparr>"

definition demo_cli :: CliOptions where
  "demo_cli = default_CliOptions\<lparr>co_model_dir := ''m'', co_requests := 3\<rparr>"

lemma demo_cli: "ParseCli (\<lambda>_. (None, [], False)) [''--model'', ''m'', ''--requests'', ''3''] = Inr demo_cli"
  by (simp add: ParseCli_def flag_value_def ParseInt_def strtoll_def signed_digits_def space_char_def decimal_digit_def
      demo_cli_def default_CliOptions_def Let_def)

lemma demo_cli_options: "engine_options demo_cli = demo_new_options"
  by (simp add: engine_options_def demo_cli_def default_CliOptions_def default_EngineOptions_def demo_new_options_def Let_def)

lemma live_constructs:
  "\<exists>eng w t. new_Engine live_env (engine_options demo_cli) \<lparr>in_device = (\<lambda>_. 0), in_slabs = {}\<rparr> = (Inr (eng, w), t)"
proof -
  have "cuda_ok demo_live_cuda" "\<forall>c. offers (cu_lt demo_live_cuda) kDefaultWorkspaceBytes c"
    using demo_live(1) by (simp_all add: live_cuda_def)
  from demo_constructs_on[OF this] show ?thesis
    unfolding demo_cli_options live_env_def by (elim exE conjE) (intro exI)
qed

lemma demo_cli_simps: "nat (co_requests demo_cli) = 3" "\<not> co_selftest demo_cli" "in_ranges demo_cli"
  by (simp_all add: demo_cli_def default_CliOptions_def in_ranges_def)

lemma served_demo:
  assumes "list_all (served demo_cli mc) trs"
  shows "list_all (\<lambda>tr. length (tr_token_ids tr) = 256 \<and> length (tr_token_times_s tr) = 256 \<and> tr_finish_reason tr = ''length'') trs"
proof -
  have "served demo_cli mc tr \<Longrightarrow> length (tr_token_ids tr) = 256 \<and> length (tr_token_times_s tr) = 256 \<and> tr_finish_reason tr = ''length''" for tr
    by (auto simp: served_def demo_cli_def default_CliOptions_def)
  then show ?thesis using assms by (simp add: list_all_iff)
qed

lemma demo_pool_budget: "\<exists>b. ComputeBudget (pinned_config eos) demo_options = Inr b \<and> num_kv_blocks b = 2340"
  by (simp add: ComputeBudget_def ValidateGeometry_def pinned_config_def default_ExecutorOptions_def demo_options_def
      KvBytesPerToken_def kKvBlockSize_def Let_def to_int32_def)

lemma live_budget:
  assumes "new_Engine live_env (engine_options demo_cli) st = (Inr (eng, w), t)"
  shows "num_kv_blocks (me_budget (eng_executor eng)) = 2340" and "samples_in_vocab demo_live_cuda (eng_config eng)"
proof -
  note c = constructed[OF assms]
  obtain eos where eos: "eng_config eng = pinned_config eos" using c(4) by blast
  have "exec_reachable (env_cuda live_env) (eng_config eng) demo_options (eng_executor eng)"
    using c(1) by (simp add: engine_inv_def demo_cli_options demo_new_options)
  then have "ComputeBudget (pinned_config eos) demo_options = Inr (me_budget (eng_executor eng))"
    using exec_reachable_inv eos by (fastforce simp: exec_inv_def)
  then show "num_kv_blocks (me_budget (eng_executor eng)) = 2340" using demo_pool_budget[of eos] by auto
  show "samples_in_vocab demo_live_cuda (eng_config eng)" using demo_live(2) by (simp add: samples_in_vocab_def eos pinned_config_def)
qed

theorem bench_accounts_for_every_request_witness:
  "\<exists>eng r b. run_on demo_live_cuda demo_bench_env demo_cli JNull (new_Bench eng) = Some (r, b) \<and>
     ((\<exists>e. r = Inl (EngineThrew e)) \<or> length (bn_traces b) = 3 \<and>
      list_all (\<lambda>tr. length (tr_token_ids tr) = 256 \<and> length (tr_token_times_s tr) = 256 \<and> tr_finish_reason tr = ''length'') (bn_traces b))"
proof -
  obtain eng w t where e: "new_Engine live_env (engine_options demo_cli) \<lparr>in_device = (\<lambda>_. 0), in_slabs = {}\<rparr> = (Inr (eng, w), t)"
    using live_constructs by blast
  have cu: "env_cuda live_env = demo_live_cuda" by (simp add: live_env_def)
  from bench_accounts_for_every_request[OF demo_cli_simps(3) e, of demo_bench_env JNull, unfolded cu demo_cli_simps(1)]
  show ?thesis using served_demo by blast
qed


end
