(* ===== verification/Bench_Metrics.thy ===== *)
theory Bench_Metrics
  imports Bench
begin

text \<open>
  The percentile of the benchmark driver, in the arithmetic of doubles: the two ranks it reads are
  inside the sorted vector, and its value depends on the multiset of the samples only.
\<close>

section \<open>Rounding below an integer\<close>

lemma pow2_powi: "pow2 k = 2 powi k"
  by (simp add: pow2_def power_int_def inverse_eq_divide power_one_over)

lemma pow2_ilog2_le:
  assumes "0 < x" shows "pow2 (ilog2 x) \<le> x"
proof -
  obtain p q where pq: "quotient_of x = (p, q)" by fastforce
  have q: "0 < q" using quotient_of_denom_pos[OF pq] .
  have x: "x = of_int p / of_int q" using quotient_of_div[OF pq] .
  have p: "0 < p" using assms q by (simp add: x zero_less_divide_iff)
  let ?k = "bitlen p - bitlen q"
  have bp: "2 ^ nat (bitlen p - 1) \<le> p" and bq: "q < 2 ^ nat (bitlen q)" using bitlen_bounds p q by blast+
  have "1 \<le> bitlen p" using p bitlen_eq_zero_iff[of p] bitlen_nonneg[of p] by linarith
  then have "(2 :: rat) powi (bitlen p - 1) = of_int (2 ^ nat (bitlen p - 1))" by (simp add: power_int_def)
  also have "\<dots> \<le> of_int p" using bp by (simp only: of_int_le_iff)
  finally have 1: "(2 :: rat) powi (bitlen p - 1) \<le> of_int p" .
  have "(of_int q :: rat) \<le> of_int (2 ^ nat (bitlen q))" using bq by (simp only: of_int_le_iff less_imp_le)
  also have "\<dots> = 2 powi (bitlen q)" using bitlen_nonneg[of q] by (simp add: power_int_def)
  finally have 2: "(of_int q :: rat) \<le> 2 powi (bitlen q)" .
  have "(2 :: rat) powi (?k - 1) = 2 powi (bitlen p - 1) / 2 powi (bitlen q)"
    by (simp add: power_int_diff[symmetric] algebra_simps)
  also have "\<dots> \<le> of_int p / of_int q" using 1 2 p q by (intro frac_le) simp_all
  finally have "pow2 (?k - 1) \<le> x" by (simp add: pow2_powi x)
  then show ?thesis by (simp add: ilog2_def pq Let_def)
qed

lemma round_half_even_le: "y \<le> of_int k \<Longrightarrow> round_half_even y \<le> k"
proof -
  assume y: "y \<le> of_int k"
  show ?thesis
  proof (cases "y = of_int k")
    case False
    then have "\<lfloor>y\<rfloor> < k" using y by (simp add: floor_less_iff)
    then show ?thesis by (simp add: round_half_even_def Let_def)
  qed (simp add: round_half_even_def Let_def)
qed

text \<open>An integer of at most 53 bits is a multiple of the unit in the last place of anything below it.\<close>

lemma int_multiple_of_unit:
  assumes x: "0 < x" and le: "x \<le> of_int m" and m: "m < 2 ^ 53"
  shows "\<exists>k. of_int k * pow2 (ilog2 x - 52) = of_int m"
proof -
  define e where "e = ilog2 x"
  have "(2 :: rat) powi e \<le> of_int m" using pow2_ilog2_le[OF x] le by (simp add: e_def pow2_powi)
  also have "(of_int m :: rat) < of_int (2 ^ 53)" using m by (simp only: of_int_less_iff)
  also have "\<dots> = 2 powi 53" by (simp add: power_int_def)
  finally have lt: "(2 :: rat) powi e < 2 powi 53" .
  have e: "e < 53"
  proof (rule ccontr)
    assume "\<not> e < 53"
    then have "(2 :: rat) powi 53 \<le> 2 powi e" by (intro power_int_increasing) simp_all
    with lt show False by simp
  qed
  have "(2 :: rat) powi (52 - e) = 2 ^ nat (52 - e)" using e by (simp add: power_int_def)
  moreover have "(2 :: rat) powi (52 - e) * 2 powi (e - 52) = 1" by (simp add: power_int_add[symmetric])
  ultimately have "of_int (m * 2 ^ nat (52 - e)) * pow2 (e - 52) = of_int m" by (simp add: pow2_powi mult.assoc)
  then show ?thesis unfolding e_def by blast
qed

lemma dbl_le_int:
  assumes "0 \<le> x" and le: "x \<le> of_int m" and m: "m < 2 ^ 53"
  shows "dbl x \<le> of_int m"
proof (cases "x = 0")
  case True
  then show ?thesis using le by (simp add: dbl_def round_bits_def)
next
  case False
  then have x: "0 < x" using assms(1) by simp
  let ?u = "pow2 (ilog2 x - 52)"
  obtain k where k: "of_int k * ?u = of_int m" using int_multiple_of_unit[OF x le m] by blast
  have "x / ?u \<le> of_int k" using le by (simp add: divide_le_eq k)
  then have "of_int (round_half_even (x / ?u)) * ?u \<le> of_int k * ?u"
    using round_half_even_le by (intro mult_right_mono) (auto simp only: of_int_le_iff less_imp_le[OF pow2_pos])
  then show ?thesis using x k by (simp add: dbl_def round_bits_def Let_def)
qed

lemma dbl_of_int:
  assumes "0 \<le> m" and "m < 2 ^ 53"
  shows "dbl (of_int m) = of_int m"
proof (cases "m = 0")
  case False
  then have x: "(0 :: rat) < of_int m" using assms(1) by simp
  let ?u = "pow2 (ilog2 (of_int m) - 52)"
  obtain k where k: "of_int k * ?u = of_int m" using int_multiple_of_unit[OF x order_refl assms(2)] by blast
  have "of_int m / ?u = of_int k" using k pow2_pos[of "ilog2 (of_int m) - 52"] by (simp add: divide_eq_eq del: pow2_pos)
  then have "round_half_even (of_int m / ?u) = k" by (simp add: round_half_even_def)
  then show ?thesis using x k by (simp add: dbl_def round_bits_def Let_def)
qed (simp add: dbl_def round_bits_def)

section \<open>The ranks\<close>

lemma rank_bounds:
  assumes p: "0 \<le> p" "p \<le> 100" and n: "1 \<le> n" "n \<le> 2 ^ 53"
  shows "0 \<le> percentile_rank p n" and "percentile_rank p n \<le> of_nat (n - 1)"
proof -
  let ?m = "int (n - 1)"
  have m: "?m < 2 ^ 53" using n by simp
  have a: "0 \<le> dbl (p / 100)" "dbl (p / 100) \<le> 1" using dbl_nonneg[of "p / 100"] dbl_le_int[of "p / 100" 1] p by simp_all
  have b: "0 \<le> dbl (of_nat (n - 1))" "dbl (of_nat (n - 1)) \<le> of_int ?m"
    using dbl_nonneg[of "of_nat (n - 1)"] dbl_le_int[of "of_nat (n - 1)" ?m] m by simp_all
  have c: "0 \<le> dbl (p / 100) * dbl (of_nat (n - 1))" using a b by simp
  have "dbl (p / 100) * dbl (of_nat (n - 1)) \<le> 1 * of_int ?m" using a b by (intro mult_mono) simp_all
  then show "percentile_rank p n \<le> of_nat (n - 1)"
    using dbl_le_int[OF c _ m] by (simp add: percentile_rank_def)
  show "0 \<le> percentile_rank p n" using c dbl_nonneg by (simp add: percentile_rank_def)
qed

text \<open>
  C38: Percentiles read inside their vector. For a percentile between 0 and 100 and any number of
  samples that a double counts exactly, both ranks computed in double arithmetic are valid indices,
  neighbours or equal, the interpolation factor is in \<open>[0, 1]\<close>, and the result is the rounded
  interpolation between the two order statistics, whatever the order of the samples.
\<close>

theorem percentile_reads_inside:
  assumes "0 \<le> p" and "p \<le> 100" and "vs \<noteq> []" and "length vs \<le> 2 ^ 53" and "mset ws = mset vs"
  shows "percentile_low p (length vs) \<le> percentile_high p (length vs) \<and>
    percentile_high p (length vs) < length vs \<and>
    percentile_high p (length vs) \<le> percentile_low p (length vs) + 1 \<and>
    Percentile ws p = Percentile vs p \<and>
    (\<exists>f. 0 \<le> f \<and> f \<le> 1 \<and> (length vs \<noteq> 1 \<longrightarrow>
       Percentile vs p =
         (let lo = sort vs ! percentile_low p (length vs); hi = sort vs ! percentile_high p (length vs)
          in dbl (lo + dbl (f * dbl (hi - lo))))))"
proof -
  let ?n = "length vs" and ?r = "percentile_rank p (length vs)"
  have n: "1 \<le> ?n" using assms(3) by (cases vs) simp_all
  note r = rank_bounds[OF assms(1,2) n assms(4)]
  have "\<lfloor>?r\<rfloor> \<le> int (?n - 1)" using r(2) by (simp add: floor_le_iff)
  then have low: "percentile_low p ?n \<le> ?n - 1" by (simp add: percentile_low_def)
  then have hi: "percentile_low p ?n \<le> percentile_high p ?n" "percentile_high p ?n < ?n"
    "percentile_high p ?n \<le> percentile_low p ?n + 1" using n by (simp_all add: percentile_high_def)
  have same: "sort ws = sort vs" "length ws = length vs"
    using assms(5) by (metis properties_for_sort sorted_sort mset_sort, metis size_mset)
  have "int (percentile_low p ?n) = \<lfloor>?r\<rfloor>" using r(1) by (simp add: percentile_low_def)
  moreover have "of_int \<lfloor>?r\<rfloor> \<le> ?r" "?r < of_int \<lfloor>?r\<rfloor> + 1" by linarith+
  ultimately have fl: "of_int (int (percentile_low p ?n)) \<le> ?r" "?r < of_int (int (percentile_low p ?n)) + 1" by simp_all
  have "dbl (of_nat (percentile_low p ?n)) = of_nat (percentile_low p ?n)"
    using dbl_of_int[of "int (percentile_low p ?n)"] low assms(4) n by simp
  then have fr: "0 \<le> ?r - dbl (of_nat (percentile_low p ?n))" "?r - dbl (of_nat (percentile_low p ?n)) \<le> of_int 1" using fl by simp_all
  have f: "0 \<le> dbl (?r - dbl (of_nat (percentile_low p ?n)))" "dbl (?r - dbl (of_nat (percentile_low p ?n))) \<le> 1"
    using dbl_nonneg[OF fr(1)] dbl_le_int[OF fr] by simp_all
  have "Percentile ws p = Percentile vs p" by (simp add: Percentile_def same)
  moreover have "?n \<noteq> 1 \<longrightarrow> Percentile vs p =
      (let lo = sort vs ! percentile_low p ?n; hi = sort vs ! percentile_high p ?n
       in dbl (lo + dbl (dbl (?r - dbl (of_nat (percentile_low p ?n))) * dbl (hi - lo))))"
    by (simp add: Percentile_def Let_def)
  ultimately show ?thesis using hi f by blast
qed

theorem percentile_reads_inside_witness:
  "Percentile [3, 1, 2] 50 = 2 \<and> percentile_high 99 3 < (3 :: nat) \<and> Percentile [3, 1, 2] 99 = Percentile [1, 2, 3] 99"
proof -
  have "mset [3, 1, 2] = mset [1, 2, 3 :: rat]" by simp
  note w = percentile_reads_inside[of 99 "[1, 2, 3]" "[3, 1, 2]", OF _ _ _ _ this]
  have "Percentile [3, 1, 2] 50 = 2" by code_simp
  then show ?thesis using w by (simp add: numeral_3_eq_3)
qed

end
