(* ===== verification/Python_Api.thy ===== *)
theory Python_Api
  imports Engine_Init
begin

text \<open>
  The Python module \<^verbatim>\<open>src/src/api/pybind.cpp\<close>: the translation of arguments, results and exceptions
  between Python and the engine. A keyword argument with a default is a field of \<open>PyArgs\<close>, an
  optional one an option. The exceptions are those that the default translators of pybind11 raise,
  as the header of the file records; a failed \<^verbatim>\<open>assert\<close> ends the process and is no exception.
\<close>

datatype py_error = ValueError | RuntimeErrorPy | ProcessAborted

fun translate_exn :: "exn \<Rightarrow> py_error" where
  "translate_exn (InvalidArgument _) = ValueError"
| "translate_exn (ExecutorError _) = RuntimeErrorPy"
| "translate_exn (GemmError _) = RuntimeErrorPy"
| "translate_exn (RuntimeError _) = RuntimeErrorPy"
| "translate_exn (AssertFailed _) = ProcessAborted"
| "translate_exn NullDeref = ProcessAborted"

fun translate_init :: "init_error \<Rightarrow> py_error" where
  "translate_init (InvalidOption _) = ValueError"
| "translate_init (ConfigFailed _) = RuntimeErrorPy"
| "translate_init (OpenFailed _) = RuntimeErrorPy"
| "translate_init (LoadFailed _) = RuntimeErrorPy"
| "translate_init (StagingFailed _) = RuntimeErrorPy"
| "translate_init (InitRuntimeError _) = RuntimeErrorPy"
| "translate_init (ExecutorFailed e) = translate_exn e"

fun PyFinishReasonName :: "FinishReason \<Rightarrow> string" where
  "PyFinishReasonName kNone = ''''"
| "PyFinishReasonName kEos = ''eos''"
| "PyFinishReasonName kLength = ''length''"
| "PyFinishReasonName kAborted = ''aborted''"

definition ParseAdmissionPolicy :: "string \<Rightarrow> py_error + AdmissionPolicy" where
  "ParseAdmissionPolicy name =
     (if name = ''reserve_full'' then Inr kReserveFull
      else if name = ''watermark'' then Inr kWatermark
      else Inl ValueError)"

record PyArgs =
  py_model_dir :: string
  py_kv_pool_gb :: "rat option"
  py_max_batch :: int
  py_enable_cuda_graphs :: bool
  py_max_seq_len :: int
  py_prefill_chunk :: int
  py_admission_policy :: string
  py_pad_eager_to_bucket :: int
  py_debug_dump_dir :: "string option"

definition default_PyArgs :: "string \<Rightarrow> PyArgs" where
  "default_PyArgs dir =
     \<lparr>py_model_dir = dir, py_kv_pool_gb = Some 1, py_max_batch = 8, py_enable_cuda_graphs = True, py_max_seq_len = 2048,
      py_prefill_chunk = 1024, py_admission_policy = ''reserve_full'', py_pad_eager_to_bucket = 0, py_debug_dump_dir = None\<rparr>"

definition py_options :: "PyArgs \<Rightarrow> AdmissionPolicy \<Rightarrow> EngineOptions" where
  "py_options a policy =
     default_EngineOptions\<lparr>model_dir := py_model_dir a, kv_pool_gb := py_kv_pool_gb a, eo_max_batch := py_max_batch a,
       eo_enable_cuda_graphs := py_enable_cuda_graphs a, eo_max_seq_len := py_max_seq_len a,
       eo_prefill_chunk_tokens := py_prefill_chunk a, eo_admission_policy := policy,
       eo_pad_eager_to_bucket := py_pad_eager_to_bucket a,
       eo_debug_dump_dir := (case py_debug_dump_dir a of None \<Rightarrow> '''' | Some d \<Rightarrow> d)\<rparr>"

definition MakeEngine :: "'d InitEnv \<Rightarrow> PyArgs \<Rightarrow> (InitState, py_error, 'd Engine \<times> DeviceWeights) action" where
  "MakeEngine env a st =
     (case ParseAdmissionPolicy (py_admission_policy a) of
        Inl e \<Rightarrow> (Inl e, st)
      | Inr policy \<Rightarrow>
          (case new_Engine env (py_options a policy) st of
             (Inl e, t) \<Rightarrow> (Inl (translate_init e), t)
           | (Inr ew, t) \<Rightarrow> (Inr ew, t)))"

definition translated :: "('d, 'a) eng \<Rightarrow> ('d Engine, py_error, 'a) action" where
  "translated m eng = (case m eng of (Inl e, eng') \<Rightarrow> (Inl (translate_exn e), eng') | (Inr x, eng') \<Rightarrow> (Inr x, eng'))"

definition py_add_request ::
  "token_id list \<Rightarrow> int \<Rightarrow> bool \<Rightarrow> token_id list option \<Rightarrow> ('d Engine, py_error, request_id) action" where
  "py_add_request token_ids max_new ignore forced =
     translated (AddRequest token_ids max_new ignore (case forced of None \<Rightarrow> [] | Some ts \<Rightarrow> ts))"

definition py_step :: "'d Cuda \<Rightarrow> ('d Engine, py_error, (request_id \<times> token_id \<times> bool \<times> string) list) action" where
  "py_step cu =
     bindS (translated (EngineStep cu)) (\<lambda>results.
     returnS (map (\<lambda>r. (request_id r, token r, finished r, PyFinishReasonName (result_reason r))) results))"

text \<open>The dictionary of counters; the histogram maps a bucket to its count.\<close>

definition py_stats :: "'d Engine \<Rightarrow> (string \<times> int) list \<times> (int \<times> int) list" where
  "py_stats eng =
     (let s = Stats eng in
      ([(''steps'', uint (st_steps s)), (''prefill_tokens'', uint (st_prefill_tokens s)), (''decode_tokens'', uint (st_decode_tokens s)),
        (''waiting'', st_num_waiting s), (''running'', st_num_running s), (''free_blocks'', st_free_kv_blocks s),
        (''reserved_blocks'', st_reserved_kv_blocks s), (''total_blocks'', st_total_kv_blocks s),
        (''graph_replays'', uint (st_graph_replays s)), (''eager_decodes'', uint (st_eager_decodes s)), (''aborts'', uint (st_aborts s))],
       map (\<lambda>(bucket, n). (bucket, uint n)) (st_bucket_histogram s)))"

section \<open>The defaults, and one value that is not rejected\<close>

lemma default_arguments: "py_options (default_PyArgs dir) kReserveFull = default_EngineOptions\<lparr>model_dir := dir\<rparr>"
  by (simp add: py_options_def default_PyArgs_def default_EngineOptions_def)

text \<open>
  The documentation of the constructor promises a \<^verbatim>\<open>RuntimeError\<close> for every invalid \<^verbatim>\<open>max_seq_len\<close>.
  The geometry check of the executor accepts 1, but the scheduler asserts at least 2: an engine whose
  executor was built for that length trips the assertion, and with assertions compiled out it
  is constructed.
\<close>

theorem max_seq_len_one_asserts:
  "(\<exists>b. ComputeBudget (pinned_config eos) (MakeExecutorOptions (default_EngineOptions\<lparr>eo_max_seq_len := 1\<rparr>)) = Inr b) \<and>
   new_Scheduler a (scheduler_options (default_EngineOptions\<lparr>eo_max_seq_len := 1\<rparr>) mc) h =
     Inl (AssertFailed ''max_seq_len >= 2'') \<and>
   translate_exn (AssertFailed ''max_seq_len >= 2'') \<noteq> RuntimeErrorPy"
  by (simp add: ComputeBudget_def ValidateGeometry_def pinned_config_def default_ExecutorOptions_def MakeExecutorOptions_def
      default_EngineOptions_def KvBytesPerToken_def kKvBlockSize_def Let_def to_int32_def new_Scheduler_def scheduler_options_def
      default_SchedulerOptions_def)

end
