(* ===== verification/Json_Text.thy ===== *)
theory Json_Text
  imports Bench_Cli
begin

text \<open>
  A reference reader for JSON texts, after RFC 8259, as the specification of the texts that the
  program writes by hand, and a printer with the spacing of \<^verbatim>\<open>AlgoReportJson\<close> that it inverts. A
  number is its lexeme. The reader takes fuel; the length of the text is enough.
\<close>

section \<open>Values, strings and numbers\<close>

datatype jval = VNull | VBool bool | VNum string | VStr string | VArr "jval list" | VObj "(string \<times> jval) list"

abbreviation quote_char :: char where "quote_char \<equiv> CHR 0x22"
abbreviation backslash :: char where "backslash \<equiv> CHR 0x5C"

definition hex_value :: "char \<Rightarrow> nat option" where
  "hex_value c =
     (let n = of_char c :: nat in
      if 48 \<le> n \<and> n \<le> 57 then Some (n - 48)
      else if 97 \<le> n \<and> n \<le> 102 then Some (n - 87)
      else if 65 \<le> n \<and> n \<le> 70 then Some (n - 55) else None)"

text \<open>The code of four hexadecimal digits, when it is that of one byte.\<close>

definition read_hex4 :: "char \<Rightarrow> char \<Rightarrow> char \<Rightarrow> char \<Rightarrow> char option" where
  "read_hex4 a b c d =
     (case (hex_value a, hex_value b, hex_value c, hex_value d) of
        (Some 0, Some 0, Some h, Some l) \<Rightarrow> Some (char_of (16 * h + l))
      | _ \<Rightarrow> None)"

text \<open>The characters after the opening quote up to the closing one, and the text after that.\<close>

fun read_string :: "string \<Rightarrow> (string \<times> string) option" where
  "read_string [] = None"
| "read_string (ch # cs) =
     (if ch = quote_char then Some ([], cs)
      else if ch = backslash then
        (case cs of
           [] \<Rightarrow> None
         | e # r \<Rightarrow>
             if e = quote_char \<or> e = backslash \<or> e = CHR ''/'' then map_option (apfst ((#) e)) (read_string r)
             else if e = CHR ''u'' then
               (case r of
                  a # b # c # d # r' \<Rightarrow>
                    (case read_hex4 a b c d of None \<Rightarrow> None | Some x \<Rightarrow> map_option (apfst ((#) x)) (read_string r'))
                | _ \<Rightarrow> None)
             else None)
      else if (of_char ch :: nat) < 32 then None
      else map_option (apfst ((#) ch)) (read_string cs))"

definition number_char :: "char \<Rightarrow> bool" where
  "number_char c \<longleftrightarrow> decimal_digit c \<or> c \<in> set ''+-.eE''"

text \<open>\<open>number = [ "-" ] int [ "." 1*digit ] [ ("e" / "E") ["-" / "+"] 1*digit ]\<close>\<close>

definition all_digits :: "string \<Rightarrow> bool" where
  "all_digits t \<longleftrightarrow> t \<noteq> [] \<and> list_all decimal_digit t"

definition is_exponent :: "string \<Rightarrow> bool" where
  "is_exponent t \<longleftrightarrow>
     t = [] \<or> (hd t \<in> set ''eE'' \<and> all_digits (if tl t \<noteq> [] \<and> hd (tl t) \<in> set ''+-'' then tl (tl t) else tl t))"

definition is_fraction :: "string \<Rightarrow> bool" where
  "is_fraction t \<longleftrightarrow>
     (if t \<noteq> [] \<and> hd t = CHR ''.''
      then all_digits (takeWhile decimal_digit (tl t)) \<and> is_exponent (dropWhile decimal_digit (tl t))
      else is_exponent t)"

definition is_number :: "string \<Rightarrow> bool" where
  "is_number t =
     (let u = (if t \<noteq> [] \<and> hd t = CHR ''-'' then tl t else t);
          ip = takeWhile decimal_digit u
      in all_digits ip \<and> (hd ip = CHR ''0'' \<longrightarrow> length ip = 1) \<and> is_fraction (dropWhile decimal_digit u))"

section \<open>The reader\<close>

definition skip_space :: "string \<Rightarrow> string" where
  "skip_space = dropWhile (\<lambda>c. c = CHR '' '' \<or> (of_char c :: nat) \<in> {9, 10, 13})"

definition read_literal :: "string \<Rightarrow> (jval \<times> string) option" where
  "read_literal s =
     (if take 4 s = ''true'' then Some (VBool True, drop 4 s)
      else if take 5 s = ''false'' then Some (VBool False, drop 5 s)
      else if take 4 s = ''null'' then Some (VNull, drop 4 s)
      else let t = takeWhile number_char s in
           if is_number t then Some (VNum t, dropWhile number_char s) else None)"

text \<open>The text after an expected character.\<close>

definition after_char :: "char \<Rightarrow> string \<Rightarrow> string option" where
  "after_char ch s = (case skip_space s of [] \<Rightarrow> None | c # cs \<Rightarrow> if c = ch then Some cs else None)"

fun read_value :: "nat \<Rightarrow> string \<Rightarrow> (jval \<times> string) option"
  and read_elems :: "nat \<Rightarrow> string \<Rightarrow> (jval list \<times> string) option"
  and read_members :: "nat \<Rightarrow> string \<Rightarrow> ((string \<times> jval) list \<times> string) option" where
  "read_value 0 s = None"
| "read_value (Suc n) s =
     (case skip_space s of
        [] \<Rightarrow> None
      | c # cs \<Rightarrow>
          if c = quote_char then map_option (apfst VStr) (read_string cs)
          else if c = CHR ''['' then
            (case after_char CHR '']'' cs of Some r \<Rightarrow> Some (VArr [], r) | None \<Rightarrow> map_option (apfst VArr) (read_elems n cs))
          else if c = CHR ''{'' then
            (case after_char CHR ''}'' cs of Some r \<Rightarrow> Some (VObj [], r) | None \<Rightarrow> map_option (apfst VObj) (read_members n cs))
          else read_literal (c # cs))"
| "read_elems 0 s = None"
| "read_elems (Suc n) s =
     (case read_value n s of
        None \<Rightarrow> None
      | Some (v, r) \<Rightarrow>
          (case after_char CHR '']'' r of
             Some r' \<Rightarrow> Some ([v], r')
           | None \<Rightarrow>
               (case after_char CHR '','' r of
                  None \<Rightarrow> None
                | Some r' \<Rightarrow> map_option (apfst ((#) v)) (read_elems n r'))))"
| "read_members 0 s = None"
| "read_members (Suc n) s =
     (case after_char quote_char s of
        None \<Rightarrow> None
      | Some s1 \<Rightarrow>
          (case read_string s1 of
             None \<Rightarrow> None
           | Some (k, s2) \<Rightarrow>
               (case after_char CHR '':'' s2 of
                  None \<Rightarrow> None
                | Some s3 \<Rightarrow>
                    (case read_value n s3 of
                       None \<Rightarrow> None
                     | Some (v, r) \<Rightarrow>
                         (case after_char CHR ''}'' r of
                            Some r' \<Rightarrow> Some ([(k, v)], r')
                          | None \<Rightarrow>
                              (case after_char CHR '','' r of
                                 None \<Rightarrow> None
                               | Some r' \<Rightarrow> map_option (apfst ((#) (k, v))) (read_members n r')))))))"

text \<open>A whole text: one value between white space.\<close>

definition read_json :: "string \<Rightarrow> jval option" where
  "read_json text =
     (case read_value (length text) text of
        Some (v, r) \<Rightarrow> if skip_space r = [] then Some v else None
      | None \<Rightarrow> None)"

section \<open>The texts that the program writes\<close>

text \<open>\<^verbatim>\<open>std::snprintf\<close> with \<^verbatim>\<open>%04x\<close> of a byte.\<close>

definition hex_digit :: "nat \<Rightarrow> char" where
  "hex_digit n = (if n < 10 then char_of (48 + n) else char_of (87 + n))"

definition hex4 :: "nat \<Rightarrow> string" where
  "hex4 n = map (\<lambda>i. hex_digit (n div 16 ^ i mod 16)) [3, 2, 1, 0]"

definition escape_char :: "char \<Rightarrow> string" where
  "escape_char ch =
     (if ch = quote_char then [backslash, quote_char]
      else if ch = backslash then [backslash, backslash]
      else if (of_char ch :: nat) < 32 then backslash # CHR ''u'' # hex4 (of_char ch)
      else [ch])"

definition EscapeJson :: "string \<Rightarrow> string" where
  "EscapeJson s = concat (map escape_char s)"

fun commas :: "string list \<Rightarrow> string" where
  "commas [] = []"
| "commas [t] = t"
| "commas (t # u # us) = t @ '', '' @ commas (u # us)"

definition print_member :: "string \<times> string \<Rightarrow> string" where
  "print_member = (\<lambda>(k, t). quote_char # EscapeJson k @ quote_char # '': '' @ t)"

primrec print_json :: "jval \<Rightarrow> string" where
  "print_json VNull = ''null''"
| "print_json (VBool b) = (if b then ''true'' else ''false'')"
| "print_json (VNum t) = t"
| "print_json (VStr s) = quote_char # EscapeJson s @ [quote_char]"
| "print_json (VArr vs) = CHR ''['' # commas (map print_json vs) @ '']''"
| "print_json (VObj kvs) = CHR ''{'' # commas (map print_member (map (map_prod id print_json) kvs)) @ ''}''"

text \<open>Every number in the value is a number of the grammar.\<close>

primrec numbers_ok :: "jval \<Rightarrow> bool" where
  "numbers_ok VNull = True"
| "numbers_ok (VBool b) = True"
| "numbers_ok (VNum t) = is_number t"
| "numbers_ok (VStr s) = True"
| "numbers_ok (VArr vs) = list_all id (map numbers_ok vs)"
| "numbers_ok (VObj kvs) = list_all snd (map (map_prod id numbers_ok) kvs)"

section \<open>Strings are read back\<close>

lemma hex_value_digit: "n < 16 \<Longrightarrow> hex_value (hex_digit n) = Some n"
  by (auto simp: hex_value_def hex_digit_def Let_def of_char_of)

lemma read_hex4_hex4:
  assumes "n < 32"
  shows "hex4 n = [hex_digit 0, hex_digit 0, hex_digit (n div 16), hex_digit (n mod 16)]"
    and "read_hex4 (hex_digit 0) (hex_digit 0) (hex_digit (n div 16)) (hex_digit (n mod 16)) = Some (char_of n)"
proof -
  have "n div 4096 mod 16 = 0" "n div 256 mod 16 = 0" "n div 16 mod 16 = n div 16" using assms by simp_all
  then show "hex4 n = [hex_digit 0, hex_digit 0, hex_digit (n div 16), hex_digit (n mod 16)]" by (simp add: hex4_def)
  have "n div 16 < 16" using assms by simp
  then show "read_hex4 (hex_digit 0) (hex_digit 0) (hex_digit (n div 16)) (hex_digit (n mod 16)) = Some (char_of n)"
    by (simp add: read_hex4_def hex_value_digit)
qed

lemma read_escaped_char: "read_string (escape_char ch @ s) = map_option (apfst ((#) ch)) (read_string s)"
proof (cases "ch = quote_char \<or> ch = backslash")
  case True
  then show ?thesis by (auto simp: escape_char_def)
next
  case False
  show ?thesis
  proof (cases "(of_char ch :: nat) < 32")
    case True
    have "char_of (of_char ch :: nat) = ch" by simp
    then show ?thesis using False True by (simp add: escape_char_def read_hex4_hex4(1)[OF True] read_hex4_hex4(2)[OF True])
  next
    case f: False
    then show ?thesis using False by (simp add: escape_char_def)
  qed
qed

lemma read_escaped: "read_string (EscapeJson s @ quote_char # rest) = Some (s, rest)"
proof (induction s)
  case (Cons ch s)
  then show ?case by (simp add: EscapeJson_def read_escaped_char)
qed (simp add: EscapeJson_def)

section \<open>Numbers are read back\<close>

lemma digit_number_char: "decimal_digit c \<Longrightarrow> number_char c"
  by (simp add: number_char_def)

lemma all_digits_number: "all_digits t \<Longrightarrow> list_all number_char t"
  by (auto simp: all_digits_def list_all_iff digit_number_char)

lemma list_all_split: "list_all P (takeWhile Q t) \<Longrightarrow> list_all P (dropWhile Q t) \<Longrightarrow> list_all P t"
  using list_all_append[of P "takeWhile Q t" "dropWhile Q t"] by (simp only: takeWhile_dropWhile_id)

lemma is_exponent_number: "is_exponent t \<Longrightarrow> list_all number_char t"
proof (cases t)
  case (Cons c cs)
  assume "is_exponent t"
  then have c: "number_char c" and d: "all_digits (if cs \<noteq> [] \<and> hd cs \<in> set ''+-'' then tl cs else cs)"
    using Cons by (auto simp: is_exponent_def number_char_def)
  have "list_all number_char cs"
    using all_digits_number[OF d] by (cases cs) (auto simp: number_char_def split: if_splits)
  then show ?thesis using c Cons by simp
qed simp

lemma is_fraction_number: "is_fraction t \<Longrightarrow> list_all number_char t"
proof (cases t)
  case (Cons c cs)
  assume f: "is_fraction t"
  show ?thesis
  proof (cases "c = CHR ''.''")
    case True
    then have "all_digits (takeWhile decimal_digit cs)" "is_exponent (dropWhile decimal_digit cs)"
      using f Cons by (simp_all add: is_fraction_def)
    then have "list_all number_char cs"
      by (rule list_all_split[OF all_digits_number is_exponent_number])
    then show ?thesis using True Cons by (simp add: number_char_def)
  next
    case False
    then show ?thesis using f Cons is_exponent_number[of t] by (simp add: is_fraction_def)
  qed
qed simp

lemma is_number_chars:
  assumes "is_number t"
  shows "list_all number_char t" and "t \<noteq> []" and "decimal_digit (hd t) \<or> hd t = CHR ''-''"
proof -
  define u where "u = (if t \<noteq> [] \<and> hd t = CHR ''-'' then tl t else t)"
  have d: "all_digits (takeWhile decimal_digit u)" "is_fraction (dropWhile decimal_digit u)"
    using assms by (simp_all add: is_number_def u_def Let_def)
  then have u: "list_all number_char u"
    by (rule list_all_split[OF all_digits_number is_fraction_number])
  then show "list_all number_char t" by (cases t) (auto simp: u_def number_char_def split: if_splits)
  have h: "u \<noteq> [] \<and> decimal_digit (hd u)" using d(1) by (cases u) (auto simp: all_digits_def split: if_splits)
  then show "t \<noteq> []" by (auto simp: u_def)
  show "decimal_digit (hd t) \<or> hd t = CHR ''-''" using h by (auto simp: u_def split: if_splits)
qed

definition stops :: "string \<Rightarrow> bool" where
  "stops rest \<longleftrightarrow> rest = [] \<or> \<not> number_char (hd rest)"

lemma read_number:
  assumes "is_number t" and "stops rest"
  shows "read_literal (t @ rest) = Some (VNum t, rest)"
proof -
  note n = is_number_chars[OF assms(1)]
  obtain c cs where t: "t = c # cs" using n(2) by (cases t) auto
  have c: "c \<noteq> CHR ''t''" "c \<noteq> CHR ''f''" "c \<noteq> CHR ''n''"
    using n(3) t by (auto simp: decimal_digit_def)
  have all: "\<forall>x\<in>set t. number_char x" using n(1) by (simp add: list_all_iff)
  have rest: "takeWhile number_char rest = []" "dropWhile number_char rest = rest"
    using assms(2) by (cases rest; simp add: stops_def)+
  have tw: "takeWhile number_char (t @ rest) = t" "dropWhile number_char (t @ rest) = rest"
    using takeWhile_append2[of t number_char rest] dropWhile_append2[of t number_char rest] all
    by (simp_all only: rest append_Nil2)
  have "take 4 (t @ rest) \<noteq> ''true''" "take 5 (t @ rest) \<noteq> ''false''" "take 4 (t @ rest) \<noteq> ''null''"
    using c by (simp_all add: t)
  then show ?thesis unfolding read_literal_def Let_def tw using assms(1) by simp
qed

lemma to_string_number: "is_number (to_string x)"
proof -
  have all: "list_all decimal_digit (digits n)" for n
  proof (induction n rule: digits.induct)
    case (1 n)
    then show ?case using of_char_digit[of n] of_char_digit[of "n mod 10"]
      by (cases "n < 10") (auto simp: digits.simps[of n] decimal_digit_def)
  qed
  have lead: "hd (digits n) = CHR ''0'' \<Longrightarrow> length (digits n) = 1" for n
  proof (induction n rule: digits.induct)
    case (1 n)
    show ?case
    proof (cases "n < 10")
      case False
      then have nz: "n div 10 \<noteq> 0" by simp
      have hd: "hd (digits n) = hd (digits (n div 10))" using False digits_hd by (simp add: digits.simps[of n])
      then have "length (digits (n div 10)) = 1" using 1 False by simp
      then have "n div 10 < 10" using digits_hd by (cases "n div 10 < 10") (auto simp: digits.simps[of "n div 10"])
      then have "of_char (hd (digits (n div 10))) = 48 + n div 10" using of_char_digit by (simp add: digits.simps[of "n div 10"])
      moreover have "of_char (CHR ''0'') = (48 :: nat)" by simp
      ultimately show ?thesis using "1.prems" hd nz by simp
    qed (simp add: digits.simps[of n])
  qed
  have tw: "takeWhile decimal_digit (digits n) = digits n" "dropWhile decimal_digit (digits n) = []" for n
    using all[of n] by (simp_all add: list_all_iff)
  have ne: "digits n \<noteq> []" "hd (digits n) \<noteq> CHR ''-''" for n using digits_hd not_space by blast+
  moreover have "all_digits (digits n)" for n using all digits_hd by (simp add: all_digits_def)
  ultimately show ?thesis using lead
    by (simp add: is_number_def to_string_def is_fraction_def is_exponent_def Let_def tw ne del: dropWhile_eq_Nil_conv)
qed

section \<open>Values are read back\<close>

text \<open>A printed value starts with a character that is neither space nor a closing bracket.\<close>

definition opens :: "char \<Rightarrow> bool" where
  "opens c \<longleftrightarrow> c \<noteq> CHR '' '' \<and> (of_char c :: nat) \<notin> {9, 10, 13} \<and> c \<noteq> CHR '']'' \<and> c \<noteq> CHR ''}''"

lemma print_opens: "numbers_ok v \<Longrightarrow> \<exists>c cs. print_json v = c # cs \<and> opens c"
proof (cases v)
  case (VNum t)
  assume "numbers_ok v"
  then have "t \<noteq> []" "decimal_digit (hd t) \<or> hd t = CHR ''-''" using VNum is_number_chars by simp_all
  then show ?thesis using VNum by (cases t) (auto simp: opens_def decimal_digit_def)
qed (simp_all add: opens_def)

lemma skip_opens: "opens c \<Longrightarrow> skip_space (c # cs) = c # cs"
  by (simp add: skip_space_def opens_def)

lemma skip_blank: "skip_space (CHR '' '' # s) = skip_space s"
  by (simp add: skip_space_def)

lemma read_value_blank: "read_value n (CHR '' '' # s) = read_value n s"
  by (cases n) (simp_all add: skip_blank)

lemma read_elems_blank: "read_elems n (CHR '' '' # s) = read_elems n s"
  by (cases n) (simp_all add: read_value_blank)

lemma read_members_blank: "read_members n (CHR '' '' # s) = read_members n s"
  by (cases n) (simp_all add: after_char_def skip_blank)

definition reads_back :: "jval \<Rightarrow> bool" where
  "reads_back v \<longleftrightarrow>
     (\<forall>n rest. stops rest \<longrightarrow> length (print_json v) \<le> n \<longrightarrow> read_value n (print_json v @ rest) = Some (v, rest))"

lemma stops_sep: "stops (CHR '','' # s)" "stops (CHR '']'' # s)" "stops (CHR ''}'' # s)"
  by (simp_all add: stops_def number_char_def decimal_digit_def)

lemma after_seps:
  "after_char CHR '']'' (CHR '','' # s) = None" "after_char CHR ''}'' (CHR '','' # s) = None"
  "after_char CHR '','' (CHR '','' # s) = Some s" "after_char CHR '']'' (CHR '']'' # s) = Some s"
  "after_char CHR ''}'' (CHR ''}'' # s) = Some s" "after_char CHR '':'' (CHR '':'' # s) = Some s"
  "after_char quote_char (quote_char # s) = Some s"
  by (simp_all add: after_char_def skip_space_def)

lemma read_elems_commas:
  assumes "\<And>v. v \<in> set vs \<Longrightarrow> reads_back v" and "vs \<noteq> []" and "length (commas (map print_json vs)) < n"
  shows "read_elems n (commas (map print_json vs) @ CHR '']'' # rest) = Some (vs, rest)"
  using assms
proof (induction vs arbitrary: n)
  case (Cons v vs)
  obtain m where n: "n = Suc m" using Cons.prems(3) by (cases n) auto
  show ?case
  proof (cases vs)
    case Nil
    have "read_value m (print_json v @ CHR '']'' # rest) = Some (v, CHR '']'' # rest)"
      using Cons.prems n Nil stops_sep by (simp add: reads_back_def)
    then show ?thesis by (simp add: n Nil after_seps)
  next
    case (Cons w ws)
    let ?tail = "commas (map print_json vs) @ CHR '']'' # rest"
    have c: "commas (map print_json (v # vs)) = print_json v @ '', '' @ commas (map print_json vs)" using Cons by simp
    have len: "length (print_json v) \<le> m" "length (commas (map print_json vs)) < m" using Cons.prems(3) n unfolding c by simp_all
    have "read_value m (print_json v @ CHR '','' # CHR '' '' # ?tail) = Some (v, CHR '','' # CHR '' '' # ?tail)"
      using Cons.prems(1) len stops_sep by (simp add: reads_back_def)
    moreover have "read_elems m ?tail = Some (vs, rest)" using Cons.IH[of m] Cons.prems(1) Cons len by simp
    ultimately show ?thesis unfolding n c by (simp add: after_seps read_elems_blank)
  qed
qed simp

lemma read_members_commas:
  assumes "\<And>k v. (k, v) \<in> set kvs \<Longrightarrow> reads_back v" and "kvs \<noteq> []"
    and "length (commas (map print_member (map (map_prod id print_json) kvs))) < n"
  shows "read_members n (commas (map print_member (map (map_prod id print_json) kvs)) @ CHR ''}'' # rest) = Some (kvs, rest)"
  using assms
proof (induction kvs arbitrary: n)
  case (Cons kv kvs)
  obtain m where n: "n = Suc m" using Cons.prems(3) by (cases n) auto
  obtain k v where kv: "kv = (k, v)" by (cases kv)
  have mem: "print_member (map_prod id print_json kv) = quote_char # EscapeJson k @ quote_char # '': '' @ print_json v"
    by (simp add: print_member_def kv)
  have rb: "reads_back v" by (rule Cons.prems(1)[of k]) (simp add: kv)
  show ?case
  proof (cases kvs)
    case Nil
    have "read_value m (print_json v @ CHR ''}'' # rest) = Some (v, CHR ''}'' # rest)"
      using Cons.prems(3) n Nil rb stops_sep by (simp add: reads_back_def print_member_def kv)
    then show ?thesis by (simp add: n Nil print_member_def after_seps read_escaped read_value_blank kv)
  next
    case (Cons w ws)
    let ?more = "commas (map print_member (map (map_prod id print_json) kvs))"
    let ?tail = "?more @ CHR ''}'' # rest"
    have c: "commas (map print_member (map (map_prod id print_json) (kv # kvs))) =
      quote_char # EscapeJson k @ quote_char # '': '' @ print_json v @ '', '' @ ?more" using Cons by (simp add: mem)
    have len: "length (print_json v) \<le> m" "length ?more < m" using Cons.prems(3) n unfolding c by simp_all
    have "read_value m (print_json v @ CHR '','' # CHR '' '' # ?tail) = Some (v, CHR '','' # CHR '' '' # ?tail)"
      using rb len stops_sep by (simp add: reads_back_def)
    moreover have "read_members m ?tail = Some (kvs, rest)"
      by (rule Cons.IH[OF _ _ len(2)]) (use Cons.prems(1) Cons in auto)
    ultimately show ?thesis unfolding n c by (simp add: after_seps read_escaped read_value_blank read_members_blank kv)
  qed
qed simp

lemma commas_head:
  assumes "ts \<noteq> []" and "\<exists>c cs. hd ts = c # cs \<and> opens c"
  shows "\<exists>c cs. commas ts = c # cs \<and> opens c"
  using assms by (cases ts rule: commas.cases) auto

lemma after_bracket:
  assumes "opens c"
  shows "after_char CHR '']'' (c # s) = None" and "after_char CHR ''}'' (c # s) = None"
  using assms by (auto simp: after_char_def skip_opens opens_def)

lemma print_reads_back: "numbers_ok v \<Longrightarrow> reads_back v"
proof (induction v)
  case (VNum t)
  then have n: "is_number t" by simp
  obtain c cs where t: "t = c # cs" "opens c" using print_opens[of "VNum t"] n by auto
  have c: "c \<noteq> quote_char" "c \<noteq> CHR ''[''" "c \<noteq> CHR ''{''"
    using is_number_chars(3)[OF n] t by (auto simp: decimal_digit_def)
  show ?case unfolding reads_back_def
  proof (intro allI impI)
    fix m rest
    assume r: "stops rest" "length (print_json (VNum t)) \<le> m"
    then obtain m' where m: "m = Suc m'" using t by (cases m) auto
    show "read_value m (print_json (VNum t) @ rest) = Some (VNum t, rest)"
      using read_number[OF n r(1)] c t(2) by (simp add: m t(1) skip_opens)
  qed
next
  case (VArr vs)
  then have each: "\<And>v. v \<in> set vs \<Longrightarrow> reads_back v" "\<And>v. v \<in> set vs \<Longrightarrow> numbers_ok v" by (auto simp: list_all_iff)
  show ?case unfolding reads_back_def
  proof (intro allI impI)
    fix m rest
    assume r: "length (print_json (VArr vs)) \<le> m"
    then obtain m' where m: "m = Suc m'" by (cases m) auto
    show "read_value m (print_json (VArr vs) @ rest) = Some (VArr vs, rest)"
    proof (cases "vs = []")
      case True
      then show ?thesis by (simp add: m skip_opens opens_def after_seps)
    next
      case False
      have el: "read_elems m' (commas (map print_json vs) @ CHR '']'' # rest) = Some (vs, rest)"
        using r m by (intro read_elems_commas each(1) False) simp_all
      have "\<exists>c cs. commas (map print_json vs) = c # cs \<and> opens c"
        using False print_opens[OF each(2)[of "hd vs"]] by (intro commas_head) (simp_all add: hd_map)
      then obtain c cs where "commas (map print_json vs) = c # cs" "opens c" by blast
      then have "after_char CHR '']'' (commas (map print_json vs) @ CHR '']'' # rest) = None" by (simp add: after_bracket)
      then show ?thesis using el by (simp add: m skip_opens opens_def)
    qed
  qed
next
  case (VObj kvs)
  have each: "reads_back v" if "(k, v) \<in> set kvs" for k v
    using VObj that by (force simp: list_all_iff)
  let ?ts = "map print_member (map (map_prod id print_json) kvs)"
  show ?case unfolding reads_back_def
  proof (intro allI impI)
    fix m rest
    assume r: "length (print_json (VObj kvs)) \<le> m"
    then obtain m' where m: "m = Suc m'" by (cases m) auto
    show "read_value m (print_json (VObj kvs) @ rest) = Some (VObj kvs, rest)"
    proof (cases "kvs = []")
      case True
      then show ?thesis by (simp add: m skip_opens opens_def after_seps)
    next
      case False
      have el: "read_members m' (commas ?ts @ CHR ''}'' # rest) = Some (kvs, rest)"
        using r m by (intro read_members_commas each False) simp_all
      have "\<exists>c cs. commas ?ts = c # cs \<and> opens c"
        using False by (intro commas_head) (simp_all add: hd_map print_member_def opens_def split: prod.splits)
      then obtain c cs where "commas ?ts = c # cs" "opens c" by blast
      then have "after_char CHR ''}'' (commas ?ts @ CHR ''}'' # rest) = None" by (simp only: append_Cons after_bracket)
      then show ?thesis using el by (simp add: m skip_opens opens_def del: map_map)
    qed
  qed
qed (auto simp: reads_back_def read_literal_def skip_opens opens_def read_escaped Suc_le_D dest!: Suc_le_D)

text \<open>The reader inverts the printer on a whole text.\<close>

lemma read_json_print: "numbers_ok v \<Longrightarrow> read_json (print_json v) = Some v"
proof -
  assume "numbers_ok v"
  then have "reads_back v" by (rule print_reads_back)
  then have "read_value (length (print_json v)) (print_json v @ []) = Some (v, [])"
    unfolding reads_back_def by (simp only: stops_def simp_thms le_refl)
  then show ?thesis by (simp add: read_json_def skip_space_def)
qed

end
