(* ===== verification/Gemm_Report.thy ===== *)
theory Gemm_Report
  imports Gemm Json_Text
begin

text \<open>
  The report of the chosen algorithms, \<^verbatim>\<open>AlgoReportJson\<close> of \<^verbatim>\<open>src/src/gemm/cublaslt_gemm.cpp\<close>: the
  text, appended piece by piece as in the code, and the proof that a JSON reader reads it back as
  the value that the report is meant to hold, whatever the name of the device and the tags contain.

  The identity of an algorithm is read from cuBLASLt, a parameter: \<open>get_attr a attr\<close> is the value and
  the number of bytes written, \<open>None\<close> when the call fails; \<open>waves a\<close> is the wave count of the
  candidate, \<open>None\<close> when it is not finite. \<open>to_chars\<close> is \<^verbatim>\<open>std::to_chars\<close> on a double, \<open>None\<close> for
  an error.
\<close>

section \<open>Names\<close>

fun OpName :: "cublasOperation \<Rightarrow> string" where
  "OpName CUBLAS_OP_N = ''N''"
| "OpName CUBLAS_OP_T = ''T''"
| "OpName CUBLAS_OP_C = ''C''"

fun TypeName :: "cudaDataType \<Rightarrow> string" where
  "TypeName CUDA_R_16F = ''f16''"
| "TypeName CUDA_R_32F = ''f32''"
| "TypeName CUDA_R_other = ''?''"

definition EpilogueName :: "GemmEpilogue \<Rightarrow> string" where
  "EpilogueName e = (if e = kBias then ''bias'' else ''none'')"

section \<open>The identity of an algorithm\<close>

record GemmDevice =
  device_name :: string
  cc_major :: int
  cc_minor :: int
  cublaslt_version :: nat

datatype algo_attr =
    ALGO_CONFIG_ID | ALGO_CONFIG_TILE_ID | ALGO_CONFIG_STAGES_ID | ALGO_CONFIG_SPLITK_NUM
  | ALGO_CONFIG_REDUCTION_SCHEME | ALGO_CONFIG_CTA_SWIZZLING | ALGO_CONFIG_CUSTOM_OPTION

record AlgoEnv =
  get_attr :: "nat \<Rightarrow> algo_attr \<Rightarrow> (int \<times> nat) option"
  waves :: "nat \<Rightarrow> rat option"
  to_chars :: "rat \<Rightarrow> string option"

definition read_algo_attr :: "AlgoEnv \<Rightarrow> nat \<Rightarrow> algo_attr \<Rightarrow> int" where
  "read_algo_attr env a attr =
     (case get_attr env a attr of
        None \<Rightarrow> -1
      | Some (v, written) \<Rightarrow> if written \<noteq> 4 then -1 else v)"

section \<open>The text\<close>

definition AppendJsonFloat :: "AlgoEnv \<Rightarrow> string \<Rightarrow> rat option \<Rightarrow> string" where
  "AppendJsonFloat env json x =
     (case x of
        None \<Rightarrow> json @ ''0''
      | Some v \<Rightarrow> (case to_chars env v of Some t \<Rightarrow> json @ t | None \<Rightarrow> json @ ''0''))"

text \<open>A quoted text, and a quoted name with the colon and space after it.\<close>

definition quoted :: "string \<Rightarrow> string" where
  "quoted t = quote_char # t @ [quote_char]"

definition key_text :: "string \<Rightarrow> string" where
  "key_text k = quoted k @ '': ''"

definition append_algo :: "AlgoEnv \<Rightarrow> string \<Rightarrow> Plan \<Rightarrow> string" where
  "append_algo env json plan =
     (let attr = (\<lambda>a. to_string (read_algo_attr env (algo plan) a));
          json1 = json @ '', '' @ key_text ''algo'' @ ''{'' @ key_text ''id'' @ attr ALGO_CONFIG_ID @
            '', '' @ key_text ''tile_id'' @ attr ALGO_CONFIG_TILE_ID @
            '', '' @ key_text ''stages_id'' @ attr ALGO_CONFIG_STAGES_ID @
            '', '' @ key_text ''splitk'' @ attr ALGO_CONFIG_SPLITK_NUM @
            '', '' @ key_text ''reduction_scheme'' @ attr ALGO_CONFIG_REDUCTION_SCHEME @
            '', '' @ key_text ''cta_swizzling'' @ attr ALGO_CONFIG_CTA_SWIZZLING @
            '', '' @ key_text ''custom_option'' @ attr ALGO_CONFIG_CUSTOM_OPTION @
            '', '' @ key_text ''workspace_bytes'' @ to_string (int (algo_workspace_bytes plan)) @
            '', '' @ key_text ''waves_count''
      in AppendJsonFloat env json1 (waves env (algo plan)) @ ''}'')"

definition append_plan :: "AlgoEnv \<Rightarrow> string \<times> bool \<Rightarrow> Plan \<Rightarrow> string \<times> bool" where
  "append_plan env = (\<lambda>(json, first) plan.
     (let c = plan_config plan;
          json1 = (if \<not> first then json @ '', '' else json);
          json2 = json1 @ ''{'' @ key_text ''tag'' @ quoted (EscapeJson (plan_tag plan)) @
            '', '' @ key_text ''m'' @ to_string (gm c) @ '', '' @ key_text ''n'' @ to_string (gn c) @
            '', '' @ key_text ''k'' @ to_string (gk c) @
            '', '' @ key_text ''op_a'' @ quoted (OpName (op_a c)) @ '', '' @ key_text ''op_b'' @ quoted (OpName (op_b c)) @
            '', '' @ key_text ''lda'' @ to_string (lda c) @ '', '' @ key_text ''ldb'' @ to_string (ldb c) @
            '', '' @ key_text ''ldd'' @ to_string (ldd c) @
            '', '' @ key_text ''type_d'' @ quoted (TypeName (type_d c)) @
            '', '' @ key_text ''epilogue'' @ quoted (EpilogueName (epilogue c)) @
            '', '' @ key_text ''batch'' @ to_string (batch c) @
            '', '' @ key_text ''stride_a'' @ to_string (stride_a c) @ '', '' @ key_text ''stride_b'' @ to_string (stride_b c) @
            '', '' @ key_text ''stride_d'' @ to_string (stride_d c) @
            '', '' @ key_text ''min_align_bytes'' @ ''['' @ to_string (min_align_a_bytes c) @ '', '' @
            to_string (min_align_b_bytes c) @ '', '' @ to_string (min_align_d_bytes c) @
            ''], '' @ key_text ''available'' @ (if available plan then ''true'' else ''false'');
          json3 = (if available plan then append_algo env json2 plan else json2 @ '', '' @ key_text ''algo'' @ ''null'')
      in (json3 @ ''}'', False)))"

definition AlgoReportJson :: "AlgoEnv \<Rightarrow> GemmDevice \<Rightarrow> CublasLtGemm \<Rightarrow> string" where
  "AlgoReportJson env dev g =
     (let json = ''{'' @ key_text ''initialized'' @ (if initialized g then ''true'' else ''false'') @
            '', '' @ key_text ''device'' @ quoted (EscapeJson (device_name dev)) @
            '', '' @ key_text ''compute_capability'' @ quoted (to_string (cc_major dev) @ ''.'' @ to_string (cc_minor dev)) @
            '', '' @ key_text ''cublaslt_version'' @ to_string (int (cublaslt_version dev)) @
            '', '' @ key_text ''workspace_bytes'' @ to_string (int (workspace_bytes g)) @
            '', '' @ key_text ''configs'' @ ''[''
      in fst (foldl (append_plan env) (json, True) (plans g)) @ '']}'')"

section \<open>What the report holds\<close>

abbreviation VInt :: "int \<Rightarrow> jval" where "VInt i \<equiv> VNum (to_string i)"

definition waves_value :: "AlgoEnv \<Rightarrow> rat option \<Rightarrow> jval" where
  "waves_value env x = VNum (case Option.bind x (to_chars env) of None \<Rightarrow> ''0'' | Some t \<Rightarrow> t)"

definition algo_value :: "AlgoEnv \<Rightarrow> Plan \<Rightarrow> jval" where
  "algo_value env plan =
     (let attr = (\<lambda>a. VInt (read_algo_attr env (algo plan) a)) in
      VObj [(''id'', attr ALGO_CONFIG_ID), (''tile_id'', attr ALGO_CONFIG_TILE_ID), (''stages_id'', attr ALGO_CONFIG_STAGES_ID),
            (''splitk'', attr ALGO_CONFIG_SPLITK_NUM), (''reduction_scheme'', attr ALGO_CONFIG_REDUCTION_SCHEME),
            (''cta_swizzling'', attr ALGO_CONFIG_CTA_SWIZZLING), (''custom_option'', attr ALGO_CONFIG_CUSTOM_OPTION),
            (''workspace_bytes'', VInt (int (algo_workspace_bytes plan))),
            (''waves_count'', waves_value env (waves env (algo plan)))])"

definition plan_value :: "AlgoEnv \<Rightarrow> Plan \<Rightarrow> jval" where
  "plan_value env plan =
     (let c = plan_config plan in
      VObj [(''tag'', VStr (plan_tag plan)), (''m'', VInt (gm c)), (''n'', VInt (gn c)), (''k'', VInt (gk c)),
            (''op_a'', VStr (OpName (op_a c))), (''op_b'', VStr (OpName (op_b c))),
            (''lda'', VInt (lda c)), (''ldb'', VInt (ldb c)), (''ldd'', VInt (ldd c)),
            (''type_d'', VStr (TypeName (type_d c))), (''epilogue'', VStr (EpilogueName (epilogue c))),
            (''batch'', VInt (batch c)), (''stride_a'', VInt (stride_a c)), (''stride_b'', VInt (stride_b c)),
            (''stride_d'', VInt (stride_d c)),
            (''min_align_bytes'', VArr [VInt (min_align_a_bytes c), VInt (min_align_b_bytes c), VInt (min_align_d_bytes c)]),
            (''available'', VBool (available plan)),
            (''algo'', if available plan then algo_value env plan else VNull)])"

definition report_value :: "AlgoEnv \<Rightarrow> GemmDevice \<Rightarrow> CublasLtGemm \<Rightarrow> jval" where
  "report_value env dev g =
     VObj [(''initialized'', VBool (initialized g)), (''device'', VStr (device_name dev)),
           (''compute_capability'', VStr (to_string (cc_major dev) @ ''.'' @ to_string (cc_minor dev))),
           (''cublaslt_version'', VInt (int (cublaslt_version dev))), (''workspace_bytes'', VInt (int (workspace_bytes g))),
           (''configs'', VArr (map (plan_value env) (plans g)))]"

section \<open>The text is the printed value\<close>

text \<open>Names and decimal numbers contain nothing to escape.\<close>

definition plain :: "string \<Rightarrow> bool" where
  "plain s \<longleftrightarrow> list_all (\<lambda>c. 32 \<le> (of_char c :: nat) \<and> c \<noteq> quote_char \<and> c \<noteq> backslash) s"

lemma EscapeJson_plain: "plain s \<Longrightarrow> EscapeJson s = s"
  by (induction s) (auto simp: EscapeJson_def escape_char_def plain_def)

lemma plain_number: "list_all number_char s \<Longrightarrow> plain s"
  by (auto simp: plain_def list_all_iff number_char_def decimal_digit_def)

lemma plain_to_string: "plain (to_string x)"
  using plain_number is_number_chars(1)[OF to_string_number] by blast

lemma EscapeJson_names [simp]:
  "EscapeJson (OpName a) = OpName a" "EscapeJson (TypeName d) = TypeName d" "EscapeJson (EpilogueName e) = EpilogueName e"
proof -
  show "EscapeJson (OpName a) = OpName a" by (cases a) (simp_all add: EscapeJson_def escape_char_def)
  show "EscapeJson (TypeName d) = TypeName d" by (cases d) (simp_all add: EscapeJson_def escape_char_def)
  show "EscapeJson (EpilogueName e) = EpilogueName e" by (simp add: EpilogueName_def EscapeJson_def escape_char_def)
qed

text \<open>Members of an object, with a name that needs no escape.\<close>

lemma member_text: "plain k \<Longrightarrow> print_member (k, t) = key_text k @ t"
  by (simp add: print_member_def key_text_def quoted_def EscapeJson_plain)

lemma string_text: "print_json (VStr s) = quoted (EscapeJson s)"
  by (simp add: quoted_def)

lemma append_algo_text: "append_algo env json plan = json @ '', '' @ key_text ''algo'' @ print_json (algo_value env plan)"
  by (simp add: append_algo_def algo_value_def AppendJsonFloat_def waves_value_def member_text plain_def Let_def
      split: option.splits)

lemma append_plan_text:
  "append_plan env (json, first) plan = ((if first then json else json @ '', '') @ print_json (plan_value env plan), False)"
  by (simp add: append_plan_def append_algo_text plan_value_def member_text string_text plain_def Let_def
      del: print_json.simps(4))

lemma plans_text_rest:
  "fst (foldl (append_plan env) (json, False) ps) = json @ concat (map (\<lambda>p. '', '' @ print_json (plan_value env p)) ps)"
  by (induction ps arbitrary: json) (simp_all add: append_plan_text)

lemma commas_concat: "commas (t # ts) = t @ concat (map (\<lambda>u. '', '' @ u) ts)"
  by (induction ts arbitrary: t) simp_all

lemma plans_text:
  "fst (foldl (append_plan env) (json, True) ps) = json @ commas (map print_json (map (plan_value env) ps))"
  by (cases ps) (simp_all add: append_plan_text plans_text_rest commas_concat comp_def del: commas.simps(2,3))

lemma report_text: "AlgoReportJson env dev g = print_json (report_value env dev g)"
proof -
  have "plain (to_string a @ CHR ''.'' # to_string b)" for a b
    using plain_to_string by (simp add: plain_def)
  then show ?thesis
    by (simp add: AlgoReportJson_def report_value_def plans_text member_text string_text plain_def[of "_ # _"] plain_def[of "[]"]
        Let_def EscapeJson_plain del: print_json.simps(4))
qed

section \<open>The report is read back\<close>

lemma numbers_ok_report:
  assumes "\<And>x t. to_chars env x = Some t \<Longrightarrow> is_number t"
  shows "numbers_ok (report_value env dev g)"
proof -
  have "is_number ''0''" by code_simp
  then have w: "numbers_ok (waves_value env x)" for x
    using assms by (cases x) (auto simp: waves_value_def split: option.splits)
  have "numbers_ok (plan_value env p)" for p
    by (simp add: plan_value_def algo_value_def Let_def to_string_number w)
  then show ?thesis by (simp add: report_value_def to_string_number list_all_iff)
qed


definition demo_device :: GemmDevice where
  "demo_device = \<lparr>device_name = [CHR ''A'', quote_char, backslash, CHR 0x0A], cc_major = 8, cc_minor = 9, cublaslt_version = 120500\<rparr>"

definition demo_algo_env :: AlgoEnv where
  "demo_algo_env =
     \<lparr>get_attr = (\<lambda>_ attr. if attr = ALGO_CONFIG_ID then Some (66, 4) else None), waves = (\<lambda>_. Some (1 / 2)),
      to_chars = (\<lambda>x. if x = 1 / 2 then Some ''0.5'' else None)\<rparr>"

definition demo_report :: string where
  "demo_report =
     AlgoReportJson demo_algo_env demo_device
       (new_CublasLtGemm\<lparr>initialized := True, workspace_bytes := 1024,
          plans := [\<lparr>plan_config = Linear 1 2048 1536 1536 2048 kBias, plan_tag = ''qkv'', available = True, algo = 7,
                     algo_workspace_bytes = 512\<rparr>]\<rparr>)"


end
