(* ===== verification/Gemm_Hash.thy ===== *)
theory Gemm_Hash
  imports Gemm "HOL-Library.Word"
begin

unbundle bit_operations_syntax

text \<open>
  \<^verbatim>\<open>GemmConfigHash\<close> of \<^verbatim>\<open>src/src/gemm/cublaslt_gemm.cpp\<close>, the hash of the plan cache, on 64-bit words,
  and that configurations that differ in one field never collide. The numbers of the enumerations of
  CUDA are parameters.
\<close>

section \<open>The hash\<close>

definition mix :: "64 word \<Rightarrow> 64 word \<Rightarrow> 64 word" where
  "mix h value0 =
     (let value1 = value0 * 0xbf58476d1ce4e5b9;
          value2 = value1 XOR drop_bit 31 value1
      in (h XOR value2) * 0x94d049bb133111eb)"

text \<open>The casts of a 32-bit field and of a 64-bit field.\<close>

definition field32 :: "int \<Rightarrow> 64 word" where
  "field32 x = ucast (word_of_int x :: 32 word)"

definition field64 :: "int \<Rightarrow> 64 word" where
  "field64 x = word_of_int x"

fun epilogue_number :: "GemmEpilogue \<Rightarrow> int" where
  "epilogue_number kEpilogueNone = 0"
| "epilogue_number kBias = 1"

definition hash_fields :: "(cublasOperation \<Rightarrow> int) \<Rightarrow> (cudaDataType \<Rightarrow> int) \<Rightarrow> GemmConfig \<Rightarrow> 64 word list" where
  "hash_fields op_number type_number c =
     [field32 (gm c), field32 (gn c), field32 (gk c), field32 (op_number (op_a c)), field32 (op_number (op_b c)),
      field64 (lda c), field64 (ldb c), field64 (ldd c), field32 (type_number (type_d c)),
      field32 (epilogue_number (epilogue c)), field32 (batch c),
      field64 (stride_a c), field64 (stride_b c), field64 (stride_d c),
      field32 (min_align_a_bytes c), field32 (min_align_b_bytes c), field32 (min_align_d_bytes c)]"

definition GemmConfigHash :: "(cublasOperation \<Rightarrow> int) \<Rightarrow> (cudaDataType \<Rightarrow> int) \<Rightarrow> GemmConfig \<Rightarrow> 64 word" where
  "GemmConfigHash op_number type_number c =
     (let h = foldl mix 0x9e3779b97f4a7c15 (hash_fields op_number type_number c) in h XOR drop_bit 32 h)"

section \<open>Each step is injective\<close>

lemma mult_inverse_inj:
  fixes a b :: "64 word"
  assumes "a * b = 1" shows "x * a = y * a \<longleftrightarrow> x = y"
proof
  assume "x * a = y * a"
  then have "x * (a * b) = y * (a * b)" by (simp add: mult.assoc[symmetric])
  then show "x = y" using assms by simp
qed simp

lemma xorshift_inj:
  fixes x y :: "64 word"
  assumes "0 < n" and "x XOR drop_bit n x = y XOR drop_bit n y"
  shows "x = y"
proof -
  define z where "z = x XOR y"
  have "z = drop_bit n z"
  proof -
    have "(x XOR drop_bit n x) XOR (y XOR drop_bit n x) = (y XOR drop_bit n y) XOR (y XOR drop_bit n x)" using assms(2) by simp
    then have "x XOR y = drop_bit n x XOR drop_bit n y" by (simp add: xor.assoc xor.left_commute xor.commute)
    then show ?thesis unfolding z_def drop_bit_xor .
  qed
  then have "z = drop_bit (k * n) z" for k
    by (induction k) (simp_all add: drop_bit_drop_bit[symmetric])
  then have "z = drop_bit (64 * n) z" by blast
  also have "\<dots> = 0"
  proof (rule bit_eqI)
    fix i
    show "bit (drop_bit (64 * n) z) i \<longleftrightarrow> bit 0 i"
      using assms(1) bit_imp_le_length[of z "64 * n + i"] by (cases n) (auto simp: bit_drop_bit_eq)
  qed
  finally show ?thesis using z_def by (metis xor_self_eq xor.assoc xor.right_neutral)
qed

lemma mix_value_inj: "mix h v = mix h w \<longleftrightarrow> v = w"
proof
  assume e: "mix h v = mix h w"
  have i1: "(0x94d049bb133111eb :: 64 word) * 0x319642b2d24d8ec3 = 1" by simp
  have i2: "(0xbf58476d1ce4e5b9 :: 64 word) * 0x96de1b173f119089 = 1" by simp
  let ?s = "\<lambda>v :: 64 word. (v * 0xbf58476d1ce4e5b9) XOR drop_bit 31 (v * 0xbf58476d1ce4e5b9)"
  have "h XOR ?s v = h XOR ?s w" using e by (simp only: mix_def Let_def mult_inverse_inj[OF i1])
  then have "h XOR (h XOR ?s v) = h XOR (h XOR ?s w)" by simp
  then have "?s v = ?s w" by (simp add: xor.assoc[symmetric])
  then have "v * 0xbf58476d1ce4e5b9 = w * 0xbf58476d1ce4e5b9" by (rule xorshift_inj[rotated]) simp
  then show "v = w" by (simp only: mult_inverse_inj[OF i2])
qed simp

lemma mix_state_inj: "mix h v = mix k v \<longleftrightarrow> h = k"
proof
  assume e: "mix h v = mix k v"
  have i1: "(0x94d049bb133111eb :: 64 word) * 0x319642b2d24d8ec3 = 1" by simp
  let ?s = "(v * 0xbf58476d1ce4e5b9) XOR drop_bit 31 (v * 0xbf58476d1ce4e5b9)"
  have "h XOR ?s = k XOR ?s" using e by (simp only: mix_def Let_def mult_inverse_inj[OF i1])
  then have "(h XOR ?s) XOR ?s = (k XOR ?s) XOR ?s" by simp
  then show "h = k" by (simp add: xor.assoc)
qed simp

lemma foldl_mix_inj: "foldl mix h vs = foldl mix k vs \<longleftrightarrow> h = k"
  by (induction vs arbitrary: h k) (simp_all add: mix_state_inj)

text \<open>Lists that agree except at one place hash differently.\<close>

lemma foldl_mix_one:
  assumes "length vs = length ws" and "i < length vs" and "vs ! i \<noteq> ws ! i" and "\<And>j. j < length vs \<Longrightarrow> j \<noteq> i \<Longrightarrow> vs ! j = ws ! j"
  shows "foldl mix h vs \<noteq> foldl mix h ws"
proof -
  have a: "take i vs = take i ws" "drop (Suc i) vs = drop (Suc i) ws"
    using assms by (auto intro!: nth_equalityI)
  have "foldl mix h vs = foldl mix (mix (foldl mix h (take i vs)) (vs ! i)) (drop (Suc i) vs)"
    by (subst id_take_nth_drop[OF assms(2)]) simp
  moreover have "foldl mix h ws = foldl mix (mix (foldl mix h (take i ws)) (ws ! i)) (drop (Suc i) ws)"
    using assms(1,2) by (subst id_take_nth_drop[of i ws]) simp_all
  ultimately show ?thesis using assms(3) by (simp add: a foldl_mix_inj mix_value_inj)
qed

section \<open>One field decides\<close>

text \<open>
  Configurations that differ in exactly one of the words that are mixed have different hashes: shapes
  that differ only in the number of rows, say, never share a bucket by a collision.
\<close>

theorem hash_separates_one_field:
  assumes "i < 17" and "hash_fields f g c ! i \<noteq> hash_fields f g d ! i"
    and "\<And>j. j < 17 \<Longrightarrow> j \<noteq> i \<Longrightarrow> hash_fields f g c ! j = hash_fields f g d ! j"
  shows "GemmConfigHash f g c \<noteq> GemmConfigHash f g d"
proof -
  have l: "length (hash_fields f g e) = 17" for e by (simp add: hash_fields_def)
  have ne: "foldl mix 0x9e3779b97f4a7c15 (hash_fields f g c) \<noteq> foldl mix 0x9e3779b97f4a7c15 (hash_fields f g d)"
    using assms by (intro foldl_mix_one[where i = i]) (simp_all add: l)
  show ?thesis
  proof
    assume e: "GemmConfigHash f g c = GemmConfigHash f g d"
    have "foldl mix 0x9e3779b97f4a7c15 (hash_fields f g c) = foldl mix 0x9e3779b97f4a7c15 (hash_fields f g d)"
      by (rule xorshift_inj[of 32]) (use e in \<open>simp_all add: GemmConfigHash_def Let_def\<close>)
    then show False using ne by simp
  qed
qed

end
