(* ===== verification/Spec2Isabelle.thy ===== *)
theory Spec2Isabelle
  imports Scheduler_Theorems Executor_Theorems Engine_Init Safetensors Kv_Pool Elementwise Rope Argmax Rmsnorm Prefill_Softmax Attention_Exact Bench_Theorems Bench_Metrics Python_Api Gemm_Report Gemm_Hash
begin

text \<open>
  Verification of redline, a single-GPU inference engine for one transformer model in C++ and CUDA
  (the sources are under \<^verbatim>\<open>src/src\<close>).

  The program. An \<^verbatim>\<open>Engine\<close> (\<^verbatim>\<open>core/engine\<close>) is constructed from a checkpoint: it parses
  the configuration (\<^verbatim>\<open>core/config\<close>) and the safetensors files (\<^verbatim>\<open>loader/safetensors\<close>), checks
  that everything fits the device memory, converts and uploads the weights (\<^verbatim>\<open>loader/convert\<close>,
  \<^verbatim>\<open>loader/weights\<close>) and builds a \<^verbatim>\<open>ModelExecutor\<close> (\<^verbatim>\<open>core/model_executor\<close>, over the
  cuBLASLt wrapper \<^verbatim>\<open>gemm/cublaslt_gemm\<close>), a \<^verbatim>\<open>BlockAllocator\<close> and a \<^verbatim>\<open>Scheduler\<close>
  (\<^verbatim>\<open>core/block_allocator\<close>, \<^verbatim>\<open>core/scheduler\<close>). \<^verbatim>\<open>AddRequest\<close> queues a prompt. Each
  \<^verbatim>\<open>Step\<close> asks the scheduler for a plan (a chunk of one prompt, or one decode step of all running
  requests), has the executor run it, which launches the kernels of \<^verbatim>\<open>kernels/\<close>, and completes the
  plan in the scheduler with the sampled tokens. Two clients drive an engine: the Python module
  (\<^verbatim>\<open>api/pybind\<close>) and the benchmark program (\<^verbatim>\<open>bench_main\<close>).

  Theories, and the files they model:
  \<^item> \<open>Prelude\<close>: errors as sums (\<open>bindE\<close>, \<open>assertE\<close>, \<open>foldE\<close>), actions on a state that can throw
    part-way (\<open>bindS\<close> and others), maps, lists. \<open>Loops\<close>: loops with a stride. \<open>Core_Types\<close>:
    \<^verbatim>\<open>types.hpp\<close>, \<^verbatim>\<open>block_table.hpp\<close>, \<^verbatim>\<open>request.hpp\<close>. \<open>Doubles\<close>: the double
    arithmetic of the watermark and of the pool size, as rationals with an explicit rounding.
  \<^item> \<open>Block_Allocator\<close>, \<open>Scheduler\<close>: the operations of the two classes. A request is a record in a
    heap of pointers; a queue is a list of pointers. \<open>Scheduler_Inv\<close>, \<open>Scheduler_Step\<close>,
    \<open>Scheduler_Complete\<close>: the invariant (the block ledger, the queues, the states of requests) and
    its preservation. \<open>Scheduler_Props\<close>: reachable states. \<open>Scheduler_Theorems\<close>: the properties.
  \<^item> \<open>Config\<close>, \<open>Gemm\<close>: the validation of the configuration; the descriptors, the choice of
    algorithms and the plan cache. \<open>Executor_Plan\<close>: geometry and memory layout. \<open>Executor_Forward\<close>:
    a forward pass as the list of its launches; \<open>Executor_Bounds\<close> and \<open>Executor_Access\<close>: their
    configurations and the memory they touch. \<open>Executor\<close>: construction, graph capture, decode and
    prefill; \<open>Executor_Props\<close>, \<open>Executor_Inv\<close>, \<open>Executor_Reach\<close>, \<open>Executor_Replay\<close>,
    \<open>Executor_Live\<close>, \<open>Executor_Theorems\<close>: their lemmas, reachable states and properties.
  \<^item> \<open>Engine\<close>: \<^verbatim>\<open>AddRequest\<close>, \<^verbatim>\<open>Step\<close>. \<open>Engine_Contract\<close>: the locales that say what the
    step loop relies on in an executor; \<open>Engine_Props\<close> interprets them on the model executor.
    \<open>Engine_Reach\<close>, \<open>Engine_Theorems\<close>: reachable engines and their properties. \<open>Engine_Init\<close>: the
    constructor.
  \<^item> \<open>Convert\<close>, \<open>Upload\<close>: the conversions on words; the double-buffered upload with a copy engine
    that runs concurrently. \<open>Safetensors\<close>: the parser. \<open>Weights\<close>: the name map, the layout of the
    slab, the load.
  \<^item> \<open>Kernel_Launch\<close>, \<open>Row_Kernels\<close>, \<open>Device_Float\<close>, \<open>Warp\<close>, \<open>Float_Sums\<close>: launches as sets of
    loads and stores that run in any order, the floating-point operations as a parameter, shuffles
    and reductions. \<open>Kv_Pool\<close>: \<^verbatim>\<open>kv_scatter.cu\<close>, \<^verbatim>\<open>kv_gather.cu\<close>. \<open>Elementwise\<close>:
    \<^verbatim>\<open>embed_gather.cu\<close>, \<^verbatim>\<open>silu_mul.cu\<close>. \<open>Rope\<close>, \<open>Argmax\<close>, \<open>Rmsnorm\<close>: the files of the
    same name. \<open>Prefill_Softmax\<close>: \<^verbatim>\<open>prefill_attention.cu\<close>. \<open>Paged_Attention\<close>: the decode
    kernel of \<^verbatim>\<open>paged_attention.cu\<close> with its staging pipeline, its oracle and both launchers;
    \<open>Attention_Phases\<close>: what a tile and a phase compute; \<open>Attention_Theorems\<close>, \<open>Attention_Exact\<close>: the
    properties, the second in exact arithmetic.
  \<^item> \<open>Workload\<close>, \<open>Bench_Cli\<close>, \<open>Bench\<close>: the generator of prompts, the command line, and the driver
    loop, metrics, report and exit status of \<^verbatim>\<open>bench_main.cpp\<close>. \<open>Bench_Steps\<close> (the effect of one
    engine step on the requests), \<open>Bench_Props\<close> (the traces), \<open>Bench_Loop\<close> (the loop invariant and
    its measure), \<open>Bench_Theorems\<close>, \<open>Bench_Metrics\<close>: the properties. \<open>Python_Api\<close>: the Python module.
  \<^item> \<open>Json_Text\<close>: a reader of JSON as a specification, the escapes that the program writes, and the
    round trip. \<open>Gemm_Report\<close>: \<^verbatim>\<open>AlgoReportJson\<close>. \<open>Gemm_Hash\<close>: the hash of the plan cache.

  What the theorems show.
  \<^item> Scheduler: no operation trips an assertion or throws in a reachable state; blocks are neither
    lost nor shared; queues drain; admission is in order of arrival; aborts take the youngest request
    and never happen under full reservation; completion is exactly the token rule of the source; no
    32-bit quantity overflows within the stated limits.
  \<^item> Executor: the regions of the scratch slab are disjoint and every launch stays in its region; the
    budget is the sum of what is allocated; captured decode steps hit the plan cache, so nothing is
    allocated during capture; replay equals the eager step padded to the bucket; the inputs of a decode
    step are exact; both prefill modes read and write the same data.
  \<^item> Engine: its steps refine the scheduler's steps; the map of live requests is exact; each request
    that leaves the queues is reported, except that a step whose executor throws loses the aborts of
    its plan (a finding); all requests finish. Construction leaks nothing and leaves every weight at
    its address.
  \<^item> Loader: the integer conversion is rounding to nearest even; the upload has no race; views of a
    checkpoint are inside their mapping.
  \<^item> Kernels: scatter and gather form a faithful store; the activation and the rotation are exact for
    each schedule; sampling is the first maximum; the norm and the softmax use sums in which each term
    occurs once, and masked scores have no influence. Decode attention implements the online softmax
    over the live positions that the block table names, bit for bit, whatever the configuration, the
    dead slots and the copies in flight; in exact arithmetic it equals the oracle kernel.
  \<^item> Clients: a benchmark run returns and accounts for every request, and with a working device its
    exit status depends on the clock and the report file alone; a percentile reads inside its list;
    integer flags are read back or rejected by range; the algorithm report is JSON that reads back as
    the value it is meant to hold; the hash separates configurations that differ in one field.

  Bounds and conventions. Integers of the C++ are mathematical integers where the code's own guards
  bound them, with the 32-bit bounds of the scheduler proved; they are words or explicit remainders
  where the code relies on the width (conversion, safetensors sizes, alignment). An exception, or an
  assertion that fails, is a value of the error type. Loops are structural or have a measure, but for
  the two loops of the benchmark driver that wait for the engine: they are partial functions, where
  not returning is \<open>None\<close>, and are proved to return. Only the reference reader of JSON takes fuel, the
  length of its text, which the round trip shows to be enough. A call of the CUDA runtime, the JSON parser, the file system and cuBLASLt are parameters:
  a function from the call (and a counter of calls) to its answer, so a theorem holds for every
  pattern of failures. Kernels with reductions (\<open>Argmax\<close>, \<open>Rmsnorm\<close>, \<open>Prefill_Softmax\<close>) run their
  threads phase by phase between barriers; the others run under every schedule.

  Not modelled: the arithmetic inside the matrix products, which cuBLASLt does (the executor records
  these launches with their buffers and shapes); contraction of a product and a sum to a fused
  operation by the compiler; profiler ranges, log lines, the text of most messages; the conversion of
  a text to a double by the C library, a parameter of the command line; the conversion of objects
  between Python and C++; the scripts and tests, which only drive the engine.
\<close>

end
